(* ===== verification/Prelude.thy ===== *)
theory Prelude
  imports Main "HOL-Library.Word"
begin

text \<open>
  Shared vocabulary of the development: the named collections that carry the component proofs,
  the total reading of C++ vector accesses by a signed index, and the generic facts about lists
  and folds that several components use.
\<close>

named_theorems slot_simps \<open>reads and writes of a slot-indexed vector\<close>
named_theorems kernel_simps \<open>defining equations of the structural kernels\<close>

section \<open>Vectors indexed by a slot number\<close>

text \<open>
  Slots are C++ \<^verbatim>\<open>int\<close>s with \<open>-1\<close> for "none". \<open>vget\<close> and \<open>vput\<close> read and write a vector at such an
  index after the source has established that it is in range; out of range the C++ access is
  undefined, and \<open>vget\<close> then returns the given default while \<open>vput\<close> leaves the vector alone, so a
  theorem that needs an index in range has to say so.
\<close>

definition vget :: "'a \<Rightarrow> 'a list \<Rightarrow> int \<Rightarrow> 'a" where
  "vget d xs i = (if 0 \<le> i \<and> nat i < length xs then xs ! nat i else d)"

definition vput :: "'a list \<Rightarrow> int \<Rightarrow> 'a \<Rightarrow> 'a list" where
  "vput xs i x = (if 0 \<le> i then xs[nat i := x] else xs)"

lemma length_vput [simp]: "length (vput xs i x) = length xs"
  by (simp add: vput_def)

lemma vget_vput_same [slot_simps]:
  "0 \<le> i \<Longrightarrow> nat i < length xs \<Longrightarrow> vget d (vput xs i x) i = x"
  by (simp add: vget_def vput_def)

lemma vget_vput_other [slot_simps]: "i \<noteq> j \<Longrightarrow> vget d (vput xs i x) j = vget d xs j"
  by (auto simp: vget_def vput_def nth_list_update)

lemma vget_vput:
  "vget d (vput xs i x) j =
     (if i = j \<and> 0 \<le> i \<and> nat i < length xs then x else vget d xs j)"
  by (auto simp: vget_def vput_def nth_list_update)

lemma vget_replicate [simp]: "vget d (replicate n d) i = d"
  by (simp add: vget_def)

section \<open>Lists\<close>

lemma map_eq_nth: "map f xs = map g ys \<Longrightarrow> i < length xs \<Longrightarrow> f (xs ! i) = g (ys ! i)"
  by (metis length_map nth_map)

section \<open>C++ exceptions\<close>

text \<open>The standard exception classes the runtime throws, with the message it passes.\<close>

datatype std_error =
    LengthError string
  | LogicError string
  | InvalidArgument string
  | OutOfRange string
  | RuntimeError string
  | DomainError string
  | NestingTooDeep string
  | KernelError      \<comment> \<open>whatever a numeric kernel throws\<close>
  | UndefinedBehaviour

section \<open>Computations that may throw\<close>

text \<open>Sequencing of a computation that may throw, and a loop over a vector that stops at the first
  exception.\<close>

definition and_then :: "'e + 'a \<Rightarrow> ('a \<Rightarrow> 'e + 'b) \<Rightarrow> 'e + 'b" where
  "and_then r f = (case r of Inl e \<Rightarrow> Inl e | Inr x \<Rightarrow> f x)"

fun map_res :: "('a \<Rightarrow> 'e + 'b) \<Rightarrow> 'a list \<Rightarrow> 'e + 'b list" where
  "map_res f [] = Inr []"
| "map_res f (x # xs) = and_then (f x) (\<lambda>y. and_then (map_res f xs) (\<lambda>ys. Inr (y # ys)))"

lemma map_res_cong [fundef_cong]:
  "xs = ys \<Longrightarrow> (\<And>x. x \<in> set ys \<Longrightarrow> f x = g x) \<Longrightarrow> map_res f xs = map_res g ys"
proof (induction xs arbitrary: ys)
  case (Cons x xs)
  then show ?case by (cases ys) auto
qed simp

lemma and_then_Inr [simp]: "and_then r f = Inr y \<longleftrightarrow> (\<exists>x. r = Inr x \<and> f x = Inr y)"
  by (cases r) (auto simp: and_then_def)

lemma and_then_Inl: "and_then r f = Inl e \<longleftrightarrow> r = Inl e \<or> (\<exists>x. r = Inr x \<and> f x = Inl e)"
  by (cases r) (auto simp: and_then_def)

lemma and_then_value [simp]: "and_then (Inr x) f = f x" "and_then (Inl e) f = Inl e"
  by (simp_all add: and_then_def)

lemma and_then_cong:
  "r = r' \<Longrightarrow> (\<And>x. r' = Inr x \<Longrightarrow> f x = g x) \<Longrightarrow> and_then r f = and_then r' g"
  by (cases r') (auto simp: and_then_def)

lemma map_res_Inr: "map_res f xs = Inr ys \<longleftrightarrow> list_all2 (\<lambda>x y. f x = Inr y) xs ys"
  by (induction xs arbitrary: ys) (auto simp: list_all2_Cons1)

subsection \<open>Accesses the source does not check\<close>

text \<open>\<open>access\<close> is \<^verbatim>\<open>v[i]\<close> on a vector, a string or a view, \<open>elem_run\<close> a run of \<open>n\<close> elements from \<open>i\<close> on, \<open>last_elem\<close>
  is \<^verbatim>\<open>v.back()\<close>; out of range they are undefined. \<open>with_elem\<close> is \<^verbatim>\<open>v[i]\<close> in a check, which has no value.\<close>

definition access :: "'a list \<Rightarrow> nat \<Rightarrow> std_error + 'a" where
  "access xs i = (if i < length xs then Inr (xs ! i) else Inl UndefinedBehaviour)"

definition elem_run :: "'a list \<Rightarrow> nat \<Rightarrow> int \<Rightarrow> std_error + 'a list" where
  "elem_run xs i n =
     (if 0 \<le> n \<and> int i + n \<le> int (length xs) then Inr (take (nat n) (drop i xs)) else Inl UndefinedBehaviour)"

definition last_elem :: "'a list \<Rightarrow> std_error + 'a" where
  "last_elem xs = (if xs \<noteq> [] then Inr (last xs) else Inl UndefinedBehaviour)"

definition with_elem :: "'a list \<Rightarrow> nat \<Rightarrow> ('a \<Rightarrow> std_error option) \<Rightarrow> std_error option" where
  "with_elem xs i f = (if i < length xs then f (xs ! i) else Some UndefinedBehaviour)"

lemma access_in [simp]: "i < length xs \<Longrightarrow> access xs i = Inr (xs ! i)"
  by (simp add: access_def)

lemma elem_run_in [simp]: "i + n \<le> length xs \<Longrightarrow> elem_run xs i (int n) = Inr (take n (drop i xs))"
  by (simp add: elem_run_def)

lemma last_elem_in [simp]: "xs \<noteq> [] \<Longrightarrow> last_elem xs = Inr (last xs)"
  by (simp add: last_elem_def)

lemma with_elem_in [simp]: "i < length xs \<Longrightarrow> with_elem xs i f = f (xs ! i)"
  by (simp add: with_elem_def)

lemma with_elem_None: "with_elem xs i f = None \<longleftrightarrow> i < length xs \<and> f (xs ! i) = None"
  by (simp add: with_elem_def)

end
