(* ===== verification/Opcodes.thy ===== *)
theory Opcodes
  imports Prelude
begin

text \<open>
  The opcode registry, \<^verbatim>\<open>runtime/include/stanli/optable.hpp\<close>. The C++ macro lists are one source of
  truth: they generate the enumeration, the name table, the kernel registrations and the
  rewrite traits. Here every enumerator is a \<open>nat\<close> constant (the \<^verbatim>\<open>uint16_t\<close> code), every macro
  list is a list of rows, and \<open>STANLI_ALL_OPCODES\<close> concatenates them in the enum's order, so that
  the numbering itself is a theorem. The functions on opcodes that the graph passes consult
  (\<open>op_traits\<close>, \<open>has_op_trait\<close>, \<open>is_effectful_op\<close>, \<open>opcode_name\<close>) follow the switch statements.
\<close>

section \<open>The enumerators\<close>

abbreviation (input) OP_NONE :: nat where "OP_NONE \<equiv> 0"
abbreviation (input) OP_ADD_N :: nat where "OP_ADD_N \<equiv> 1"
abbreviation (input) OP_BCAST_FMA :: nat where "OP_BCAST_FMA \<equiv> 2"
abbreviation (input) OP_MATVEC :: nat where "OP_MATVEC \<equiv> 3"
abbreviation (input) OP_POISSON_LOG_LPMF :: nat where "OP_POISSON_LOG_LPMF \<equiv> 4"
abbreviation (input) OP_BERNOULLI_LOGIT_LPMF :: nat where "OP_BERNOULLI_LOGIT_LPMF \<equiv> 5"
abbreviation (input) OP_BERNOULLI_LPMF :: nat where "OP_BERNOULLI_LPMF \<equiv> 6"
abbreviation (input) OP_POISSON_LPMF :: nat where "OP_POISSON_LPMF \<equiv> 7"
abbreviation (input) OP_NEG_BINOMIAL_2_LPMF :: nat where "OP_NEG_BINOMIAL_2_LPMF \<equiv> 8"
abbreviation (input) OP_BINOMIAL_LPMF :: nat where "OP_BINOMIAL_LPMF \<equiv> 9"
abbreviation (input) OP_BINOMIAL_LOGIT_LPMF :: nat where "OP_BINOMIAL_LOGIT_LPMF \<equiv> 10"
abbreviation (input) OP_BERNOULLI_LOGIT_GLM_LPMF :: nat where "OP_BERNOULLI_LOGIT_GLM_LPMF \<equiv> 11"
abbreviation (input) OP_POISSON_LOG_GLM_LPMF :: nat where "OP_POISSON_LOG_GLM_LPMF \<equiv> 12"
abbreviation (input) OP_NEG_BINOMIAL_2_LOG_GLM_LPMF :: nat where "OP_NEG_BINOMIAL_2_LOG_GLM_LPMF \<equiv> 13"
abbreviation (input) OP_BETA_BINOMIAL_LPMF :: nat where "OP_BETA_BINOMIAL_LPMF \<equiv> 14"
abbreviation (input) OP_LOGIT :: nat where "OP_LOGIT \<equiv> 15"
abbreviation (input) OP_MEAN :: nat where "OP_MEAN \<equiv> 16"
abbreviation (input) OP_SD :: nat where "OP_SD \<equiv> 17"
abbreviation (input) OP_VARIANCE :: nat where "OP_VARIANCE \<equiv> 18"
abbreviation (input) OP_REP_VEC :: nat where "OP_REP_VEC \<equiv> 19"
abbreviation (input) OP_INDEX :: nat where "OP_INDEX \<equiv> 20"
abbreviation (input) OP_SET_INDEX :: nat where "OP_SET_INDEX \<equiv> 21"
abbreviation (input) OP_SET_INDEX_INPLACE :: nat where "OP_SET_INDEX_INPLACE \<equiv> 22"
abbreviation (input) OP_SLICE :: nat where "OP_SLICE \<equiv> 23"
abbreviation (input) OP_SET_SLICE :: nat where "OP_SET_SLICE \<equiv> 24"
abbreviation (input) OP_SET_SLICE_INPLACE :: nat where "OP_SET_SLICE_INPLACE \<equiv> 25"
abbreviation (input) OP_SET_SLICE_STRIDED :: nat where "OP_SET_SLICE_STRIDED \<equiv> 26"
abbreviation (input) OP_SET_SLICE_STRIDED_INPLACE :: nat where "OP_SET_SLICE_STRIDED_INPLACE \<equiv> 27"
abbreviation (input) OP_SLICE_STRIDED :: nat where "OP_SLICE_STRIDED \<equiv> 28"
abbreviation (input) OP_GATHER :: nat where "OP_GATHER \<equiv> 29"
abbreviation (input) OP_CONCAT2 :: nat where "OP_CONCAT2 \<equiv> 30"
abbreviation (input) OP_REP_MAT :: nat where "OP_REP_MAT \<equiv> 31"
abbreviation (input) OP_GP_COV :: nat where "OP_GP_COV \<equiv> 32"
abbreviation (input) OP_DIAG_MATRIX :: nat where "OP_DIAG_MATRIX \<equiv> 33"
abbreviation (input) OP_CHOLESKY :: nat where "OP_CHOLESKY \<equiv> 34"
abbreviation (input) OP_MULTI_NORMAL_CHOL_LPDF :: nat where "OP_MULTI_NORMAL_CHOL_LPDF \<equiv> 35"
abbreviation (input) OP_MULTI_NORMAL_LPDF :: nat where "OP_MULTI_NORMAL_LPDF \<equiv> 36"
abbreviation (input) OP_MULTI_NORMAL_PREC_LPDF :: nat where "OP_MULTI_NORMAL_PREC_LPDF \<equiv> 37"
abbreviation (input) OP_GEMM :: nat where "OP_GEMM \<equiv> 38"
abbreviation (input) OP_MDIVIDE_LEFT :: nat where "OP_MDIVIDE_LEFT \<equiv> 39"
abbreviation (input) OP_MDIVIDE_RIGHT :: nat where "OP_MDIVIDE_RIGHT \<equiv> 40"
abbreviation (input) OP_MDIVIDE_LEFT_SPD :: nat where "OP_MDIVIDE_LEFT_SPD \<equiv> 41"
abbreviation (input) OP_MDIVIDE_RIGHT_SPD :: nat where "OP_MDIVIDE_RIGHT_SPD \<equiv> 42"
abbreviation (input) OP_MDIVIDE_LEFT_TRI_LOW :: nat where "OP_MDIVIDE_LEFT_TRI_LOW \<equiv> 43"
abbreviation (input) OP_MDIVIDE_RIGHT_TRI_LOW :: nat where "OP_MDIVIDE_RIGHT_TRI_LOW \<equiv> 44"
abbreviation (input) OP_LOG_SOFTMAX :: nat where "OP_LOG_SOFTMAX \<equiv> 45"
abbreviation (input) OP_CONSTRAIN_CHOL_CORR :: nat where "OP_CONSTRAIN_CHOL_CORR \<equiv> 46"
abbreviation (input) OP_LKJ_CORR_CHOL_LPDF :: nat where "OP_LKJ_CORR_CHOL_LPDF \<equiv> 47"
abbreviation (input) OP_LKJ_CORR_LPDF :: nat where "OP_LKJ_CORR_LPDF \<equiv> 48"
abbreviation (input) OP_WISHART_LPDF :: nat where "OP_WISHART_LPDF \<equiv> 49"
abbreviation (input) OP_INV_WISHART_LPDF :: nat where "OP_INV_WISHART_LPDF \<equiv> 50"
abbreviation (input) OP_WISHART_CHOL_LPDF :: nat where "OP_WISHART_CHOL_LPDF \<equiv> 51"
abbreviation (input) OP_INV_WISHART_CHOL_LPDF :: nat where "OP_INV_WISHART_CHOL_LPDF \<equiv> 52"
abbreviation (input) OP_MULTI_GP_LPDF :: nat where "OP_MULTI_GP_LPDF \<equiv> 53"
abbreviation (input) OP_MULTI_GP_CHOL_LPDF :: nat where "OP_MULTI_GP_CHOL_LPDF \<equiv> 54"
abbreviation (input) OP_MULTI_STUDENT_T_LPDF :: nat where "OP_MULTI_STUDENT_T_LPDF \<equiv> 55"
abbreviation (input) OP_MULTI_STUDENT_T_CHOL_LPDF :: nat where "OP_MULTI_STUDENT_T_CHOL_LPDF \<equiv> 56"
abbreviation (input) OP_MULTINOMIAL_LPMF :: nat where "OP_MULTINOMIAL_LPMF \<equiv> 57"
abbreviation (input) OP_MULTINOMIAL_LOGIT_LPMF :: nat where "OP_MULTINOMIAL_LOGIT_LPMF \<equiv> 58"
abbreviation (input) OP_DIRICHLET_MULTINOMIAL_LPMF :: nat where "OP_DIRICHLET_MULTINOMIAL_LPMF \<equiv> 59"
abbreviation (input) OP_ORDERED_PROBIT_LPMF :: nat where "OP_ORDERED_PROBIT_LPMF \<equiv> 60"
abbreviation (input) OP_ORDERED_LOGISTIC_LPMF :: nat where "OP_ORDERED_LOGISTIC_LPMF \<equiv> 61"
abbreviation (input) OP_WIENER_LPDF :: nat where "OP_WIENER_LPDF \<equiv> 62"
abbreviation (input) OP_WIENER_PACKED_LPDF :: nat where "OP_WIENER_PACKED_LPDF \<equiv> 63"
abbreviation (input) OP_LKJ_COV_LPDF :: nat where "OP_LKJ_COV_LPDF \<equiv> 64"
abbreviation (input) OP_BINOMIAL_LOGIT_GLM_LPMF :: nat where "OP_BINOMIAL_LOGIT_GLM_LPMF \<equiv> 65"
abbreviation (input) OP_CATEGORICAL_LOGIT_GLM_LPMF :: nat where "OP_CATEGORICAL_LOGIT_GLM_LPMF \<equiv> 66"
abbreviation (input) OP_ORDERED_LOGISTIC_GLM_LPMF :: nat where "OP_ORDERED_LOGISTIC_GLM_LPMF \<equiv> 67"
abbreviation (input) OP_NORMAL_ID_GLM_LPDF :: nat where "OP_NORMAL_ID_GLM_LPDF \<equiv> 68"
abbreviation (input) OP_TRANSPOSE :: nat where "OP_TRANSPOSE \<equiv> 69"
abbreviation (input) OP_ALGEBRA_SOLVER :: nat where "OP_ALGEBRA_SOLVER \<equiv> 70"
abbreviation (input) OP_QUADRATURE :: nat where "OP_QUADRATURE \<equiv> 71"
abbreviation (input) OP_ODE :: nat where "OP_ODE \<equiv> 72"
abbreviation (input) OP_RNG :: nat where "OP_RNG \<equiv> 73"
abbreviation (input) OP_ISLAND :: nat where "OP_ISLAND \<equiv> 74"
abbreviation (input) OP_LOOP :: nat where "OP_LOOP \<equiv> 75"
abbreviation (input) OP_REDUCE_SUM :: nat where "OP_REDUCE_SUM \<equiv> 76"
abbreviation (input) OP_REGION_MAP :: nat where "OP_REGION_MAP \<equiv> 77"
abbreviation (input) OP_COMPARE :: nat where "OP_COMPARE \<equiv> 78"
abbreviation (input) OP_INT_ARITH :: nat where "OP_INT_ARITH \<equiv> 79"
abbreviation (input) OP_REP_VEC_DYNAMIC :: nat where "OP_REP_VEC_DYNAMIC \<equiv> 80"
abbreviation (input) OP_INDEX_DYNAMIC :: nat where "OP_INDEX_DYNAMIC \<equiv> 81"
abbreviation (input) OP_SET_INDEX_DYNAMIC :: nat where "OP_SET_INDEX_DYNAMIC \<equiv> 82"
abbreviation (input) OP_MATRIX_EXP_DYNAMIC :: nat where "OP_MATRIX_EXP_DYNAMIC \<equiv> 83"
abbreviation (input) OP_EIGENVALUES_SYM :: nat where "OP_EIGENVALUES_SYM \<equiv> 84"
abbreviation (input) OP_EIGENVECTORS_SYM :: nat where "OP_EIGENVECTORS_SYM \<equiv> 85"
abbreviation (input) OP_LOG_SUM_EXP :: nat where "OP_LOG_SUM_EXP \<equiv> 86"
abbreviation (input) OP_LOG_SUM_EXP_ROWS :: nat where "OP_LOG_SUM_EXP_ROWS \<equiv> 87"
abbreviation (input) OP_SUM_ROWS :: nat where "OP_SUM_ROWS \<equiv> 88"
abbreviation (input) OP_LSE2 :: nat where "OP_LSE2 \<equiv> 89"
abbreviation (input) OP_LOG_DIFF_EXP :: nat where "OP_LOG_DIFF_EXP \<equiv> 90"
abbreviation (input) OP_LOG_MIX :: nat where "OP_LOG_MIX \<equiv> 91"
abbreviation (input) OP_SOFTMAX :: nat where "OP_SOFTMAX \<equiv> 92"
abbreviation (input) OP_SUM_VEC :: nat where "OP_SUM_VEC \<equiv> 93"
abbreviation (input) OP_ADD :: nat where "OP_ADD \<equiv> 94"
abbreviation (input) OP_SUB :: nat where "OP_SUB \<equiv> 95"
abbreviation (input) OP_MUL :: nat where "OP_MUL \<equiv> 96"
abbreviation (input) OP_DIV :: nat where "OP_DIV \<equiv> 97"
abbreviation (input) OP_POW :: nat where "OP_POW \<equiv> 98"
abbreviation (input) OP_DOT :: nat where "OP_DOT \<equiv> 99"
abbreviation (input) OP_GROUP_DOT :: nat where "OP_GROUP_DOT \<equiv> 100"
abbreviation (input) OP_NEG :: nat where "OP_NEG \<equiv> 101"
abbreviation (input) OP_EXPV :: nat where "OP_EXPV \<equiv> 102"
abbreviation (input) OP_LOGV :: nat where "OP_LOGV \<equiv> 103"
abbreviation (input) OP_INV_LOGIT :: nat where "OP_INV_LOGIT \<equiv> 104"
abbreviation (input) OP_SQRT :: nat where "OP_SQRT \<equiv> 105"
abbreviation (input) OP_SQUARE :: nat where "OP_SQUARE \<equiv> 106"
abbreviation (input) OP_LOG1M :: nat where "OP_LOG1M \<equiv> 107"
abbreviation (input) OP_TANHV :: nat where "OP_TANHV \<equiv> 108"
abbreviation (input) OP_TRIGAMMA :: nat where "OP_TRIGAMMA \<equiv> 109"
abbreviation (input) OP_CUMSUM :: nat where "OP_CUMSUM \<equiv> 110"
abbreviation (input) OP_SORT_ASC :: nat where "OP_SORT_ASC \<equiv> 111"
abbreviation (input) OP_SORT_DESC :: nat where "OP_SORT_DESC \<equiv> 112"
abbreviation (input) OP_ORDERING :: nat where "OP_ORDERING \<equiv> 113"
abbreviation (input) OP_FMA :: nat where "OP_FMA \<equiv> 114"
abbreviation (input) OP_ATAN2 :: nat where "OP_ATAN2 \<equiv> 115"
abbreviation (input) OP_BETA_FN :: nat where "OP_BETA_FN \<equiv> 116"
abbreviation (input) OP_FDIM :: nat where "OP_FDIM \<equiv> 117"
abbreviation (input) OP_FMAX :: nat where "OP_FMAX \<equiv> 118"
abbreviation (input) OP_FMIN :: nat where "OP_FMIN \<equiv> 119"
abbreviation (input) OP_FMOD :: nat where "OP_FMOD \<equiv> 120"
abbreviation (input) OP_GAMMA_P :: nat where "OP_GAMMA_P \<equiv> 121"
abbreviation (input) OP_GAMMA_Q :: nat where "OP_GAMMA_Q \<equiv> 122"
abbreviation (input) OP_HYPOT :: nat where "OP_HYPOT \<equiv> 123"
abbreviation (input) OP_LBETA :: nat where "OP_LBETA \<equiv> 124"
abbreviation (input) OP_LCHOOSE :: nat where "OP_LCHOOSE \<equiv> 125"
abbreviation (input) OP_LMULTIPLY :: nat where "OP_LMULTIPLY \<equiv> 126"
abbreviation (input) OP_LOG_FALLING_FACTORIAL :: nat where "OP_LOG_FALLING_FACTORIAL \<equiv> 127"
abbreviation (input) OP_LOG_INV_LOGIT_DIFF :: nat where "OP_LOG_INV_LOGIT_DIFF \<equiv> 128"
abbreviation (input) OP_LOG_MODIFIED_BESSEL_1 :: nat where "OP_LOG_MODIFIED_BESSEL_1 \<equiv> 129"
abbreviation (input) OP_LOG_RISING_FACTORIAL :: nat where "OP_LOG_RISING_FACTORIAL \<equiv> 130"
abbreviation (input) OP_OWENS_T :: nat where "OP_OWENS_T \<equiv> 131"
abbreviation (input) OP_CHOOSE :: nat where "OP_CHOOSE \<equiv> 132"
abbreviation (input) OP_BESSEL_1 :: nat where "OP_BESSEL_1 \<equiv> 133"
abbreviation (input) OP_BESSEL_2 :: nat where "OP_BESSEL_2 \<equiv> 134"
abbreviation (input) OP_MODIFIED_BESSEL_1 :: nat where "OP_MODIFIED_BESSEL_1 \<equiv> 135"
abbreviation (input) OP_MODIFIED_BESSEL_2 :: nat where "OP_MODIFIED_BESSEL_2 \<equiv> 136"
abbreviation (input) OP_BINARY_LOG_LOSS :: nat where "OP_BINARY_LOG_LOSS \<equiv> 137"
abbreviation (input) OP_LMGAMMA :: nat where "OP_LMGAMMA \<equiv> 138"
abbreviation (input) OP_FALLING_FACTORIAL :: nat where "OP_FALLING_FACTORIAL \<equiv> 139"
abbreviation (input) OP_RISING_FACTORIAL :: nat where "OP_RISING_FACTORIAL \<equiv> 140"
abbreviation (input) OP_LDEXP :: nat where "OP_LDEXP \<equiv> 141"
abbreviation (input) OP_CONSTRAIN_LOWER :: nat where "OP_CONSTRAIN_LOWER \<equiv> 142"
abbreviation (input) OP_CONSTRAIN_UPPER :: nat where "OP_CONSTRAIN_UPPER \<equiv> 143"
abbreviation (input) OP_CONSTRAIN_LU :: nat where "OP_CONSTRAIN_LU \<equiv> 144"
abbreviation (input) OP_CONSTRAIN_SIMPLEX :: nat where "OP_CONSTRAIN_SIMPLEX \<equiv> 145"
abbreviation (input) OP_CONSTRAIN_ORDERED :: nat where "OP_CONSTRAIN_ORDERED \<equiv> 146"
abbreviation (input) OP_CONSTRAIN_POS_ORDERED :: nat where "OP_CONSTRAIN_POS_ORDERED \<equiv> 147"
abbreviation (input) OP_CONSTRAIN_OFFSET_MULT :: nat where "OP_CONSTRAIN_OFFSET_MULT \<equiv> 148"
abbreviation (input) OP_CONSTRAIN_UNIT_VECTOR :: nat where "OP_CONSTRAIN_UNIT_VECTOR \<equiv> 149"
abbreviation (input) OP_CONSTRAIN_SUM_TO_ZERO :: nat where "OP_CONSTRAIN_SUM_TO_ZERO \<equiv> 150"
abbreviation (input) OP_CONSTRAIN_SUM_TO_ZERO_MAT :: nat where "OP_CONSTRAIN_SUM_TO_ZERO_MAT \<equiv> 151"
abbreviation (input) OP_CONSTRAIN_CORR_MATRIX :: nat where "OP_CONSTRAIN_CORR_MATRIX \<equiv> 152"
abbreviation (input) OP_CONSTRAIN_COV_MATRIX :: nat where "OP_CONSTRAIN_COV_MATRIX \<equiv> 153"
abbreviation (input) OP_CONSTRAIN_CHOL_COV :: nat where "OP_CONSTRAIN_CHOL_COV \<equiv> 154"
abbreviation (input) OP_CONSTRAIN_STOCHASTIC_COLUMN :: nat where "OP_CONSTRAIN_STOCHASTIC_COLUMN \<equiv> 155"
abbreviation (input) OP_CONSTRAIN_STOCHASTIC_ROW :: nat where "OP_CONSTRAIN_STOCHASTIC_ROW \<equiv> 156"
abbreviation (input) OP_CHECK_STRUCTURED :: nat where "OP_CHECK_STRUCTURED \<equiv> 157"
abbreviation (input) OP_CHECK_MATCHING_DIMS :: nat where "OP_CHECK_MATCHING_DIMS \<equiv> 158"
abbreviation (input) OP_CHECK_LOWER :: nat where "OP_CHECK_LOWER \<equiv> 159"
abbreviation (input) OP_CHECK_UPPER :: nat where "OP_CHECK_UPPER \<equiv> 160"
abbreviation (input) OP_CATEGORICAL :: nat where "OP_CATEGORICAL \<equiv> 161"
abbreviation (input) OP_ALL_INTEGER_DENSITY :: nat where "OP_ALL_INTEGER_DENSITY \<equiv> 162"
abbreviation (input) OP_REJECT :: nat where "OP_REJECT \<equiv> 163"
abbreviation (input) OP_PRINT :: nat where "OP_PRINT \<equiv> 164"
abbreviation (input) OP_DIRICHLET_LPDF :: nat where "OP_DIRICHLET_LPDF \<equiv> 165"
abbreviation (input) OP_PROD_VEC :: nat where "OP_PROD_VEC \<equiv> 166"
abbreviation (input) OP_EXTREMA_VEC :: nat where "OP_EXTREMA_VEC \<equiv> 167"
abbreviation (input) OP_DYNAMIC_SLICE :: nat where "OP_DYNAMIC_SLICE \<equiv> 168"
abbreviation (input) OP_MATRIX_EXP :: nat where "OP_MATRIX_EXP \<equiv> 169"
abbreviation (input) OP_QUAD_FORM_SYM :: nat where "OP_QUAD_FORM_SYM \<equiv> 170"
abbreviation (input) OP_INVERSE :: nat where "OP_INVERSE \<equiv> 171"
abbreviation (input) OP_INVERSE_SPD :: nat where "OP_INVERSE_SPD \<equiv> 172"
abbreviation (input) OP_LOG_DETERMINANT :: nat where "OP_LOG_DETERMINANT \<equiv> 173"
abbreviation (input) OP_QUAD_FORM :: nat where "OP_QUAD_FORM \<equiv> 174"
abbreviation (input) OP_ADD_DIAG :: nat where "OP_ADD_DIAG \<equiv> 175"
abbreviation (input) OP_CROSSPROD :: nat where "OP_CROSSPROD \<equiv> 176"
abbreviation (input) OP_MULT_LOWER_TRI_SELF_TRANSPOSE :: nat where "OP_MULT_LOWER_TRI_SELF_TRANSPOSE \<equiv> 177"
abbreviation (input) OP_DAE :: nat where "OP_DAE \<equiv> 178"
abbreviation (input) OP_ODE_ADJOINT :: nat where "OP_ODE_ADJOINT \<equiv> 179"
abbreviation (input) OP_STUDENT_T_QF :: nat where "OP_STUDENT_T_QF \<equiv> 180"
abbreviation (input) OP_POISSON_BINOMIAL :: nat where "OP_POISSON_BINOMIAL \<equiv> 181"
abbreviation (input) OP_HYPERGEOMETRIC_1F0 :: nat where "OP_HYPERGEOMETRIC_1F0 \<equiv> 182"
abbreviation (input) OP_NORMAL_GROUPED_LPDF :: nat where "OP_NORMAL_GROUPED_LPDF \<equiv> 183"
abbreviation (input) OP_LINEAR_GAUSSIAN_LPDF :: nat where "OP_LINEAR_GAUSSIAN_LPDF \<equiv> 184"
abbreviation (input) OP_FAMILY_GROUPED_LPDF :: nat where "OP_FAMILY_GROUPED_LPDF \<equiv> 185"
abbreviation (input) OP_SEGMENT_SUM :: nat where "OP_SEGMENT_SUM \<equiv> 186"
abbreviation (input) OP_TO_INT :: nat where "OP_TO_INT \<equiv> 187"
abbreviation (input) OP_CHECK_OFFSET_MULTIPLIER :: nat where "OP_CHECK_OFFSET_MULTIPLIER \<equiv> 188"
abbreviation (input) OP_DETERMINANT :: nat where "OP_DETERMINANT \<equiv> 189"
abbreviation (input) OP_LOG_DETERMINANT_SPD :: nat where "OP_LOG_DETERMINANT_SPD \<equiv> 190"
abbreviation (input) OP_CHOL2INV :: nat where "OP_CHOL2INV \<equiv> 191"
abbreviation (input) OP_GENERALIZED_INVERSE :: nat where "OP_GENERALIZED_INVERSE \<equiv> 192"
abbreviation (input) OP_QR_Q :: nat where "OP_QR_Q \<equiv> 193"
abbreviation (input) OP_QR_R :: nat where "OP_QR_R \<equiv> 194"
abbreviation (input) OP_QR_THIN_Q :: nat where "OP_QR_THIN_Q \<equiv> 195"
abbreviation (input) OP_QR_THIN_R :: nat where "OP_QR_THIN_R \<equiv> 196"
abbreviation (input) OP_MATRIX_POWER :: nat where "OP_MATRIX_POWER \<equiv> 197"
abbreviation (input) OP_TRACE_QUAD_FORM :: nat where "OP_TRACE_QUAD_FORM \<equiv> 198"
abbreviation (input) OP_TRACE_GEN_QUAD_FORM :: nat where "OP_TRACE_GEN_QUAD_FORM \<equiv> 199"
abbreviation (input) OP_MATRIX_EXP_MULTIPLY :: nat where "OP_MATRIX_EXP_MULTIPLY \<equiv> 200"
abbreviation (input) OP_SCALE_MATRIX_EXP_MULTIPLY :: nat where "OP_SCALE_MATRIX_EXP_MULTIPLY \<equiv> 201"
abbreviation (input) OP_TRACE_DOT :: nat where "OP_TRACE_DOT \<equiv> 202"
abbreviation (input) OP_NORM1 :: nat where "OP_NORM1 \<equiv> 203"
abbreviation (input) OP_NORM2 :: nat where "OP_NORM2 \<equiv> 204"
abbreviation (input) OP_DISTANCE :: nat where "OP_DISTANCE \<equiv> 205"
abbreviation (input) OP_INC_BETA :: nat where "OP_INC_BETA \<equiv> 206"
abbreviation (input) OP_INV_INC_BETA :: nat where "OP_INV_INC_BETA \<equiv> 207"
abbreviation (input) OP_HYPERGEOMETRIC_2F1 :: nat where "OP_HYPERGEOMETRIC_2F1 \<equiv> 208"
abbreviation (input) OP_HYPERGEOMETRIC_3F2 :: nat where "OP_HYPERGEOMETRIC_3F2 \<equiv> 209"
abbreviation (input) OP_HYPERGEOMETRIC_PFQ :: nat where "OP_HYPERGEOMETRIC_PFQ \<equiv> 210"
abbreviation (input) OP_LOG_MIX_VEC :: nat where "OP_LOG_MIX_VEC \<equiv> 211"
abbreviation (input) OP_HMM_MARGINAL :: nat where "OP_HMM_MARGINAL \<equiv> 212"
abbreviation (input) OP_HMM_HIDDEN_STATE_PROB :: nat where "OP_HMM_HIDDEN_STATE_PROB \<equiv> 213"
abbreviation (input) OP_GAUSSIAN_DLM_OBS_LPDF :: nat where "OP_GAUSSIAN_DLM_OBS_LPDF \<equiv> 214"
abbreviation (input) OP_QUANTILE :: nat where "OP_QUANTILE \<equiv> 215"
abbreviation (input) OP_CSR_MATRIX_TIMES_VECTOR :: nat where "OP_CSR_MATRIX_TIMES_VECTOR \<equiv> 216"
abbreviation (input) OP_CSR_TO_DENSE_MATRIX :: nat where "OP_CSR_TO_DENSE_MATRIX \<equiv> 217"
abbreviation (input) OP_CHECK_LUB_FREE :: nat where "OP_CHECK_LUB_FREE \<equiv> 218"
abbreviation (input) OP_NORMAL_LPDF :: nat where "OP_NORMAL_LPDF \<equiv> 219"
abbreviation (input) OP_CAUCHY_LPDF :: nat where "OP_CAUCHY_LPDF \<equiv> 220"
abbreviation (input) OP_GAMMA_LPDF :: nat where "OP_GAMMA_LPDF \<equiv> 221"
abbreviation (input) OP_BETA_LPDF :: nat where "OP_BETA_LPDF \<equiv> 222"
abbreviation (input) OP_LOGNORMAL_LPDF :: nat where "OP_LOGNORMAL_LPDF \<equiv> 223"
abbreviation (input) OP_STUDENT_T_LPDF :: nat where "OP_STUDENT_T_LPDF \<equiv> 224"
abbreviation (input) OP_UNIFORM_LPDF :: nat where "OP_UNIFORM_LPDF \<equiv> 225"
abbreviation (input) OP_DOUBLE_EXP_LPDF :: nat where "OP_DOUBLE_EXP_LPDF \<equiv> 226"
abbreviation (input) OP_EXPONENTIAL_LPDF :: nat where "OP_EXPONENTIAL_LPDF \<equiv> 227"
abbreviation (input) OP_INV_GAMMA_LPDF :: nat where "OP_INV_GAMMA_LPDF \<equiv> 228"
abbreviation (input) OP_STD_NORMAL_LPDF :: nat where "OP_STD_NORMAL_LPDF \<equiv> 229"
abbreviation (input) OP_WEIBULL_LPDF :: nat where "OP_WEIBULL_LPDF \<equiv> 230"
abbreviation (input) OP_LOGISTIC_LPDF :: nat where "OP_LOGISTIC_LPDF \<equiv> 231"
abbreviation (input) OP_CHI_SQUARE_LPDF :: nat where "OP_CHI_SQUARE_LPDF \<equiv> 232"
abbreviation (input) OP_INV_CHI_SQUARE_LPDF :: nat where "OP_INV_CHI_SQUARE_LPDF \<equiv> 233"
abbreviation (input) OP_SCALED_INV_CHI_SQUARE_LPDF :: nat where "OP_SCALED_INV_CHI_SQUARE_LPDF \<equiv> 234"
abbreviation (input) OP_FRECHET_LPDF :: nat where "OP_FRECHET_LPDF \<equiv> 235"
abbreviation (input) OP_GUMBEL_LPDF :: nat where "OP_GUMBEL_LPDF \<equiv> 236"
abbreviation (input) OP_LOGLOGISTIC_LPDF :: nat where "OP_LOGLOGISTIC_LPDF \<equiv> 237"
abbreviation (input) OP_PARETO_LPDF :: nat where "OP_PARETO_LPDF \<equiv> 238"
abbreviation (input) OP_SKEW_NORMAL_LPDF :: nat where "OP_SKEW_NORMAL_LPDF \<equiv> 239"
abbreviation (input) OP_EXP_MOD_NORMAL_LPDF :: nat where "OP_EXP_MOD_NORMAL_LPDF \<equiv> 240"
abbreviation (input) OP_PARETO_TYPE_2_LPDF :: nat where "OP_PARETO_TYPE_2_LPDF \<equiv> 241"
abbreviation (input) OP_RAYLEIGH_LPDF :: nat where "OP_RAYLEIGH_LPDF \<equiv> 242"
abbreviation (input) OP_VON_MISES_LPDF :: nat where "OP_VON_MISES_LPDF \<equiv> 243"
abbreviation (input) OP_BETA_PROPORTION_LPDF :: nat where "OP_BETA_PROPORTION_LPDF \<equiv> 244"
abbreviation (input) OP_SKEW_DOUBLE_EXPONENTIAL_LPDF :: nat where "OP_SKEW_DOUBLE_EXPONENTIAL_LPDF \<equiv> 245"
abbreviation (input) OP_NEG_BINOMIAL_2_LOG_LPMF :: nat where "OP_NEG_BINOMIAL_2_LOG_LPMF \<equiv> 246"
abbreviation (input) OP_NEG_BINOMIAL_LPMF :: nat where "OP_NEG_BINOMIAL_LPMF \<equiv> 247"
abbreviation (input) OP_BETA_NEG_BINOMIAL_LPMF :: nat where "OP_BETA_NEG_BINOMIAL_LPMF \<equiv> 248"
abbreviation (input) OP_YULE_SIMON_LPMF :: nat where "OP_YULE_SIMON_LPMF \<equiv> 249"
abbreviation (input) OP_BETA_CDF :: nat where "OP_BETA_CDF \<equiv> 250"
abbreviation (input) OP_BETA_LCCDF :: nat where "OP_BETA_LCCDF \<equiv> 251"
abbreviation (input) OP_BETA_LCDF :: nat where "OP_BETA_LCDF \<equiv> 252"
abbreviation (input) OP_BETA_PROPORTION_LCCDF :: nat where "OP_BETA_PROPORTION_LCCDF \<equiv> 253"
abbreviation (input) OP_BETA_PROPORTION_LCDF :: nat where "OP_BETA_PROPORTION_LCDF \<equiv> 254"
abbreviation (input) OP_CAUCHY_CDF :: nat where "OP_CAUCHY_CDF \<equiv> 255"
abbreviation (input) OP_CAUCHY_LCCDF :: nat where "OP_CAUCHY_LCCDF \<equiv> 256"
abbreviation (input) OP_CAUCHY_LCDF :: nat where "OP_CAUCHY_LCDF \<equiv> 257"
abbreviation (input) OP_CHI_SQUARE_CDF :: nat where "OP_CHI_SQUARE_CDF \<equiv> 258"
abbreviation (input) OP_CHI_SQUARE_LCCDF :: nat where "OP_CHI_SQUARE_LCCDF \<equiv> 259"
abbreviation (input) OP_CHI_SQUARE_LCDF :: nat where "OP_CHI_SQUARE_LCDF \<equiv> 260"
abbreviation (input) OP_DOUBLE_EXPONENTIAL_CDF :: nat where "OP_DOUBLE_EXPONENTIAL_CDF \<equiv> 261"
abbreviation (input) OP_DOUBLE_EXPONENTIAL_LCCDF :: nat where "OP_DOUBLE_EXPONENTIAL_LCCDF \<equiv> 262"
abbreviation (input) OP_DOUBLE_EXPONENTIAL_LCDF :: nat where "OP_DOUBLE_EXPONENTIAL_LCDF \<equiv> 263"
abbreviation (input) OP_EXP_MOD_NORMAL_CDF :: nat where "OP_EXP_MOD_NORMAL_CDF \<equiv> 264"
abbreviation (input) OP_EXP_MOD_NORMAL_LCCDF :: nat where "OP_EXP_MOD_NORMAL_LCCDF \<equiv> 265"
abbreviation (input) OP_EXP_MOD_NORMAL_LCDF :: nat where "OP_EXP_MOD_NORMAL_LCDF \<equiv> 266"
abbreviation (input) OP_EXPONENTIAL_CDF :: nat where "OP_EXPONENTIAL_CDF \<equiv> 267"
abbreviation (input) OP_EXPONENTIAL_LCCDF :: nat where "OP_EXPONENTIAL_LCCDF \<equiv> 268"
abbreviation (input) OP_EXPONENTIAL_LCDF :: nat where "OP_EXPONENTIAL_LCDF \<equiv> 269"
abbreviation (input) OP_FRECHET_CDF :: nat where "OP_FRECHET_CDF \<equiv> 270"
abbreviation (input) OP_FRECHET_LCCDF :: nat where "OP_FRECHET_LCCDF \<equiv> 271"
abbreviation (input) OP_FRECHET_LCDF :: nat where "OP_FRECHET_LCDF \<equiv> 272"
abbreviation (input) OP_GAMMA_CDF :: nat where "OP_GAMMA_CDF \<equiv> 273"
abbreviation (input) OP_GAMMA_LCCDF :: nat where "OP_GAMMA_LCCDF \<equiv> 274"
abbreviation (input) OP_GAMMA_LCDF :: nat where "OP_GAMMA_LCDF \<equiv> 275"
abbreviation (input) OP_GUMBEL_CDF :: nat where "OP_GUMBEL_CDF \<equiv> 276"
abbreviation (input) OP_GUMBEL_LCCDF :: nat where "OP_GUMBEL_LCCDF \<equiv> 277"
abbreviation (input) OP_GUMBEL_LCDF :: nat where "OP_GUMBEL_LCDF \<equiv> 278"
abbreviation (input) OP_INV_CHI_SQUARE_CDF :: nat where "OP_INV_CHI_SQUARE_CDF \<equiv> 279"
abbreviation (input) OP_INV_CHI_SQUARE_LCCDF :: nat where "OP_INV_CHI_SQUARE_LCCDF \<equiv> 280"
abbreviation (input) OP_INV_CHI_SQUARE_LCDF :: nat where "OP_INV_CHI_SQUARE_LCDF \<equiv> 281"
abbreviation (input) OP_INV_GAMMA_CDF :: nat where "OP_INV_GAMMA_CDF \<equiv> 282"
abbreviation (input) OP_INV_GAMMA_LCCDF :: nat where "OP_INV_GAMMA_LCCDF \<equiv> 283"
abbreviation (input) OP_INV_GAMMA_LCDF :: nat where "OP_INV_GAMMA_LCDF \<equiv> 284"
abbreviation (input) OP_LOGISTIC_CDF :: nat where "OP_LOGISTIC_CDF \<equiv> 285"
abbreviation (input) OP_LOGISTIC_LCCDF :: nat where "OP_LOGISTIC_LCCDF \<equiv> 286"
abbreviation (input) OP_LOGISTIC_LCDF :: nat where "OP_LOGISTIC_LCDF \<equiv> 287"
abbreviation (input) OP_LOGLOGISTIC_CDF :: nat where "OP_LOGLOGISTIC_CDF \<equiv> 288"
abbreviation (input) OP_LOGNORMAL_CDF :: nat where "OP_LOGNORMAL_CDF \<equiv> 289"
abbreviation (input) OP_LOGNORMAL_LCCDF :: nat where "OP_LOGNORMAL_LCCDF \<equiv> 290"
abbreviation (input) OP_LOGNORMAL_LCDF :: nat where "OP_LOGNORMAL_LCDF \<equiv> 291"
abbreviation (input) OP_NORMAL_CDF :: nat where "OP_NORMAL_CDF \<equiv> 292"
abbreviation (input) OP_NORMAL_LCDF :: nat where "OP_NORMAL_LCDF \<equiv> 293"
abbreviation (input) OP_PARETO_CDF :: nat where "OP_PARETO_CDF \<equiv> 294"
abbreviation (input) OP_PARETO_LCCDF :: nat where "OP_PARETO_LCCDF \<equiv> 295"
abbreviation (input) OP_PARETO_LCDF :: nat where "OP_PARETO_LCDF \<equiv> 296"
abbreviation (input) OP_PARETO_TYPE_2_CDF :: nat where "OP_PARETO_TYPE_2_CDF \<equiv> 297"
abbreviation (input) OP_PARETO_TYPE_2_LCCDF :: nat where "OP_PARETO_TYPE_2_LCCDF \<equiv> 298"
abbreviation (input) OP_PARETO_TYPE_2_LCDF :: nat where "OP_PARETO_TYPE_2_LCDF \<equiv> 299"
abbreviation (input) OP_RAYLEIGH_CDF :: nat where "OP_RAYLEIGH_CDF \<equiv> 300"
abbreviation (input) OP_RAYLEIGH_LCCDF :: nat where "OP_RAYLEIGH_LCCDF \<equiv> 301"
abbreviation (input) OP_RAYLEIGH_LCDF :: nat where "OP_RAYLEIGH_LCDF \<equiv> 302"
abbreviation (input) OP_SCALED_INV_CHI_SQUARE_CDF :: nat where "OP_SCALED_INV_CHI_SQUARE_CDF \<equiv> 303"
abbreviation (input) OP_SCALED_INV_CHI_SQUARE_LCCDF :: nat where "OP_SCALED_INV_CHI_SQUARE_LCCDF \<equiv> 304"
abbreviation (input) OP_SCALED_INV_CHI_SQUARE_LCDF :: nat where "OP_SCALED_INV_CHI_SQUARE_LCDF \<equiv> 305"
abbreviation (input) OP_SKEW_NORMAL_CDF :: nat where "OP_SKEW_NORMAL_CDF \<equiv> 306"
abbreviation (input) OP_SKEW_NORMAL_LCCDF :: nat where "OP_SKEW_NORMAL_LCCDF \<equiv> 307"
abbreviation (input) OP_SKEW_NORMAL_LCDF :: nat where "OP_SKEW_NORMAL_LCDF \<equiv> 308"
abbreviation (input) OP_STD_NORMAL_CDF :: nat where "OP_STD_NORMAL_CDF \<equiv> 309"
abbreviation (input) OP_SKEW_DOUBLE_EXPONENTIAL_CDF :: nat where "OP_SKEW_DOUBLE_EXPONENTIAL_CDF \<equiv> 310"
abbreviation (input) OP_SKEW_DOUBLE_EXPONENTIAL_LCDF :: nat where "OP_SKEW_DOUBLE_EXPONENTIAL_LCDF \<equiv> 311"
abbreviation (input) OP_SKEW_DOUBLE_EXPONENTIAL_LCCDF :: nat where "OP_SKEW_DOUBLE_EXPONENTIAL_LCCDF \<equiv> 312"
abbreviation (input) OP_STD_NORMAL_LCDF :: nat where "OP_STD_NORMAL_LCDF \<equiv> 313"
abbreviation (input) OP_STUDENT_T_CDF :: nat where "OP_STUDENT_T_CDF \<equiv> 314"
abbreviation (input) OP_STUDENT_T_LCCDF :: nat where "OP_STUDENT_T_LCCDF \<equiv> 315"
abbreviation (input) OP_STUDENT_T_LCDF :: nat where "OP_STUDENT_T_LCDF \<equiv> 316"
abbreviation (input) OP_UNIFORM_CDF :: nat where "OP_UNIFORM_CDF \<equiv> 317"
abbreviation (input) OP_UNIFORM_LCCDF :: nat where "OP_UNIFORM_LCCDF \<equiv> 318"
abbreviation (input) OP_UNIFORM_LCDF :: nat where "OP_UNIFORM_LCDF \<equiv> 319"
abbreviation (input) OP_WEIBULL_CDF :: nat where "OP_WEIBULL_CDF \<equiv> 320"
abbreviation (input) OP_WEIBULL_LCCDF :: nat where "OP_WEIBULL_LCCDF \<equiv> 321"
abbreviation (input) OP_WEIBULL_LCDF :: nat where "OP_WEIBULL_LCDF \<equiv> 322"
abbreviation (input) OP_NORMAL_LCCDF :: nat where "OP_NORMAL_LCCDF \<equiv> 323"
abbreviation (input) OP_STD_NORMAL_LCCDF :: nat where "OP_STD_NORMAL_LCCDF \<equiv> 324"
abbreviation (input) OP_BERNOULLI_CDF :: nat where "OP_BERNOULLI_CDF \<equiv> 325"
abbreviation (input) OP_BERNOULLI_LCCDF :: nat where "OP_BERNOULLI_LCCDF \<equiv> 326"
abbreviation (input) OP_BERNOULLI_LCDF :: nat where "OP_BERNOULLI_LCDF \<equiv> 327"
abbreviation (input) OP_BETA_NEG_BINOMIAL_CDF :: nat where "OP_BETA_NEG_BINOMIAL_CDF \<equiv> 328"
abbreviation (input) OP_BETA_NEG_BINOMIAL_LCCDF :: nat where "OP_BETA_NEG_BINOMIAL_LCCDF \<equiv> 329"
abbreviation (input) OP_BETA_NEG_BINOMIAL_LCDF :: nat where "OP_BETA_NEG_BINOMIAL_LCDF \<equiv> 330"
abbreviation (input) OP_NEG_BINOMIAL_CDF :: nat where "OP_NEG_BINOMIAL_CDF \<equiv> 331"
abbreviation (input) OP_NEG_BINOMIAL_LCCDF :: nat where "OP_NEG_BINOMIAL_LCCDF \<equiv> 332"
abbreviation (input) OP_NEG_BINOMIAL_LCDF :: nat where "OP_NEG_BINOMIAL_LCDF \<equiv> 333"
abbreviation (input) OP_NEG_BINOMIAL_2_CDF :: nat where "OP_NEG_BINOMIAL_2_CDF \<equiv> 334"
abbreviation (input) OP_POISSON_CDF :: nat where "OP_POISSON_CDF \<equiv> 335"
abbreviation (input) OP_POISSON_LCCDF :: nat where "OP_POISSON_LCCDF \<equiv> 336"
abbreviation (input) OP_POISSON_LCDF :: nat where "OP_POISSON_LCDF \<equiv> 337"
abbreviation (input) OP_YULE_SIMON_CDF :: nat where "OP_YULE_SIMON_CDF \<equiv> 338"
abbreviation (input) OP_YULE_SIMON_LCCDF :: nat where "OP_YULE_SIMON_LCCDF \<equiv> 339"
abbreviation (input) OP_YULE_SIMON_LCDF :: nat where "OP_YULE_SIMON_LCDF \<equiv> 340"
abbreviation (input) OP_BETA_BINOMIAL_CDF :: nat where "OP_BETA_BINOMIAL_CDF \<equiv> 341"
abbreviation (input) OP_BETA_BINOMIAL_LCCDF :: nat where "OP_BETA_BINOMIAL_LCCDF \<equiv> 342"
abbreviation (input) OP_BETA_BINOMIAL_LCDF :: nat where "OP_BETA_BINOMIAL_LCDF \<equiv> 343"
abbreviation (input) OP_BINOMIAL_CDF :: nat where "OP_BINOMIAL_CDF \<equiv> 344"
abbreviation (input) OP_BINOMIAL_LCCDF :: nat where "OP_BINOMIAL_LCCDF \<equiv> 345"
abbreviation (input) OP_BINOMIAL_LCDF :: nat where "OP_BINOMIAL_LCDF \<equiv> 346"
abbreviation (input) OP_VON_MISES_CDF :: nat where "OP_VON_MISES_CDF \<equiv> 347"
abbreviation (input) OP_VON_MISES_LCCDF :: nat where "OP_VON_MISES_LCCDF \<equiv> 348"
abbreviation (input) OP_VON_MISES_LCDF :: nat where "OP_VON_MISES_LCDF \<equiv> 349"
abbreviation (input) OP_NEG_BINOMIAL_2_LCCDF :: nat where "OP_NEG_BINOMIAL_2_LCCDF \<equiv> 350"
abbreviation (input) OP_NEG_BINOMIAL_2_LCDF :: nat where "OP_NEG_BINOMIAL_2_LCDF \<equiv> 351"
abbreviation (input) OP_LGAMMA :: nat where "OP_LGAMMA \<equiv> 352"
abbreviation (input) OP_DIGAMMA :: nat where "OP_DIGAMMA \<equiv> 353"
abbreviation (input) OP_LOG1P :: nat where "OP_LOG1P \<equiv> 354"
abbreviation (input) OP_EXPM1 :: nat where "OP_EXPM1 \<equiv> 355"
abbreviation (input) OP_PHI :: nat where "OP_PHI \<equiv> 356"
abbreviation (input) OP_INV_PHI :: nat where "OP_INV_PHI \<equiv> 357"
abbreviation (input) OP_ERF :: nat where "OP_ERF \<equiv> 358"
abbreviation (input) OP_ERFC :: nat where "OP_ERFC \<equiv> 359"
abbreviation (input) OP_INV :: nat where "OP_INV \<equiv> 360"
abbreviation (input) OP_INV_SQRT :: nat where "OP_INV_SQRT \<equiv> 361"
abbreviation (input) OP_INV_SQUARE :: nat where "OP_INV_SQUARE \<equiv> 362"
abbreviation (input) OP_LOG1M_EXP :: nat where "OP_LOG1M_EXP \<equiv> 363"
abbreviation (input) OP_LOG1P_EXP :: nat where "OP_LOG1P_EXP \<equiv> 364"
abbreviation (input) OP_LOG_INV_LOGIT :: nat where "OP_LOG_INV_LOGIT \<equiv> 365"
abbreviation (input) OP_LOG1M_INV_LOGIT :: nat where "OP_LOG1M_INV_LOGIT \<equiv> 366"
abbreviation (input) OP_INV_CLOGLOG :: nat where "OP_INV_CLOGLOG \<equiv> 367"
abbreviation (input) OP_SIN :: nat where "OP_SIN \<equiv> 368"
abbreviation (input) OP_COS :: nat where "OP_COS \<equiv> 369"
abbreviation (input) OP_TAN :: nat where "OP_TAN \<equiv> 370"
abbreviation (input) OP_ASIN :: nat where "OP_ASIN \<equiv> 371"
abbreviation (input) OP_ACOS :: nat where "OP_ACOS \<equiv> 372"
abbreviation (input) OP_ATAN :: nat where "OP_ATAN \<equiv> 373"
abbreviation (input) OP_SINH :: nat where "OP_SINH \<equiv> 374"
abbreviation (input) OP_COSH :: nat where "OP_COSH \<equiv> 375"
abbreviation (input) OP_ASINH :: nat where "OP_ASINH \<equiv> 376"
abbreviation (input) OP_ACOSH :: nat where "OP_ACOSH \<equiv> 377"
abbreviation (input) OP_ATANH :: nat where "OP_ATANH \<equiv> 378"
abbreviation (input) OP_CBRT :: nat where "OP_CBRT \<equiv> 379"
abbreviation (input) OP_EXP2 :: nat where "OP_EXP2 \<equiv> 380"
abbreviation (input) OP_LOG2 :: nat where "OP_LOG2 \<equiv> 381"
abbreviation (input) OP_LOG10 :: nat where "OP_LOG10 \<equiv> 382"
abbreviation (input) OP_PHI_APPROX :: nat where "OP_PHI_APPROX \<equiv> 383"
abbreviation (input) OP_INV_ERFC :: nat where "OP_INV_ERFC \<equiv> 384"
abbreviation (input) OP_LAMBERT_W0 :: nat where "OP_LAMBERT_W0 \<equiv> 385"
abbreviation (input) OP_LAMBERT_WM1 :: nat where "OP_LAMBERT_WM1 \<equiv> 386"
abbreviation (input) OP_STD_NORMAL_LOG_QF :: nat where "OP_STD_NORMAL_LOG_QF \<equiv> 387"
abbreviation (input) OP_TGAMMA :: nat where "OP_TGAMMA \<equiv> 388"
abbreviation (input) OP_ABS :: nat where "OP_ABS \<equiv> 389"
abbreviation (input) OP_FLOOR :: nat where "OP_FLOOR \<equiv> 390"
abbreviation (input) OP_CEIL :: nat where "OP_CEIL \<equiv> 391"
abbreviation (input) OP_ROUND :: nat where "OP_ROUND \<equiv> 392"
abbreviation (input) OP_TRUNC :: nat where "OP_TRUNC \<equiv> 393"
abbreviation (input) OP_STEP :: nat where "OP_STEP \<equiv> 394"
abbreviation (input) OP_COUNT :: nat where "OP_COUNT \<equiv> 395"

section \<open>The macro lists\<close>

definition STANLI_OPCODE_LIST :: "nat list" where
  "STANLI_OPCODE_LIST = [
    OP_ADD_N, OP_BCAST_FMA, OP_MATVEC, OP_POISSON_LOG_LPMF, OP_BERNOULLI_LOGIT_LPMF,
    OP_BERNOULLI_LPMF, OP_POISSON_LPMF, OP_NEG_BINOMIAL_2_LPMF, OP_BINOMIAL_LPMF,
    OP_BINOMIAL_LOGIT_LPMF, OP_BERNOULLI_LOGIT_GLM_LPMF, OP_POISSON_LOG_GLM_LPMF,
    OP_NEG_BINOMIAL_2_LOG_GLM_LPMF, OP_BETA_BINOMIAL_LPMF, OP_LOGIT, OP_MEAN, OP_SD, OP_VARIANCE,
    OP_REP_VEC, OP_INDEX, OP_SET_INDEX, OP_SET_INDEX_INPLACE, OP_SLICE, OP_SET_SLICE,
    OP_SET_SLICE_INPLACE, OP_SET_SLICE_STRIDED, OP_SET_SLICE_STRIDED_INPLACE, OP_SLICE_STRIDED,
    OP_GATHER, OP_CONCAT2, OP_REP_MAT, OP_GP_COV, OP_DIAG_MATRIX, OP_CHOLESKY,
    OP_MULTI_NORMAL_CHOL_LPDF, OP_MULTI_NORMAL_LPDF, OP_MULTI_NORMAL_PREC_LPDF, OP_GEMM,
    OP_MDIVIDE_LEFT, OP_MDIVIDE_RIGHT, OP_MDIVIDE_LEFT_SPD, OP_MDIVIDE_RIGHT_SPD,
    OP_MDIVIDE_LEFT_TRI_LOW, OP_MDIVIDE_RIGHT_TRI_LOW, OP_LOG_SOFTMAX, OP_CONSTRAIN_CHOL_CORR,
    OP_LKJ_CORR_CHOL_LPDF, OP_LKJ_CORR_LPDF, OP_WISHART_LPDF, OP_INV_WISHART_LPDF,
    OP_WISHART_CHOL_LPDF, OP_INV_WISHART_CHOL_LPDF, OP_MULTI_GP_LPDF, OP_MULTI_GP_CHOL_LPDF,
    OP_MULTI_STUDENT_T_LPDF, OP_MULTI_STUDENT_T_CHOL_LPDF, OP_MULTINOMIAL_LPMF,
    OP_MULTINOMIAL_LOGIT_LPMF, OP_DIRICHLET_MULTINOMIAL_LPMF, OP_ORDERED_PROBIT_LPMF,
    OP_ORDERED_LOGISTIC_LPMF, OP_WIENER_LPDF, OP_WIENER_PACKED_LPDF, OP_LKJ_COV_LPDF,
    OP_BINOMIAL_LOGIT_GLM_LPMF, OP_CATEGORICAL_LOGIT_GLM_LPMF, OP_ORDERED_LOGISTIC_GLM_LPMF,
    OP_NORMAL_ID_GLM_LPDF, OP_TRANSPOSE, OP_ALGEBRA_SOLVER, OP_QUADRATURE, OP_ODE, OP_RNG,
    OP_ISLAND, OP_LOOP, OP_REDUCE_SUM, OP_REGION_MAP, OP_COMPARE, OP_INT_ARITH,
    OP_REP_VEC_DYNAMIC, OP_INDEX_DYNAMIC, OP_SET_INDEX_DYNAMIC, OP_MATRIX_EXP_DYNAMIC,
    OP_EIGENVALUES_SYM, OP_EIGENVECTORS_SYM, OP_LOG_SUM_EXP, OP_LOG_SUM_EXP_ROWS, OP_SUM_ROWS,
    OP_LSE2, OP_LOG_DIFF_EXP, OP_LOG_MIX, OP_SOFTMAX, OP_SUM_VEC, OP_ADD, OP_SUB, OP_MUL, OP_DIV,
    OP_POW, OP_DOT, OP_GROUP_DOT, OP_NEG, OP_EXPV, OP_LOGV, OP_INV_LOGIT, OP_SQRT, OP_SQUARE,
    OP_LOG1M, OP_TANHV, OP_TRIGAMMA, OP_CUMSUM, OP_SORT_ASC, OP_SORT_DESC, OP_ORDERING, OP_FMA,
    OP_ATAN2, OP_BETA_FN, OP_FDIM, OP_FMAX, OP_FMIN, OP_FMOD, OP_GAMMA_P, OP_GAMMA_Q, OP_HYPOT,
    OP_LBETA, OP_LCHOOSE, OP_LMULTIPLY, OP_LOG_FALLING_FACTORIAL, OP_LOG_INV_LOGIT_DIFF,
    OP_LOG_MODIFIED_BESSEL_1, OP_LOG_RISING_FACTORIAL, OP_OWENS_T, OP_CHOOSE, OP_BESSEL_1,
    OP_BESSEL_2, OP_MODIFIED_BESSEL_1, OP_MODIFIED_BESSEL_2, OP_BINARY_LOG_LOSS, OP_LMGAMMA,
    OP_FALLING_FACTORIAL, OP_RISING_FACTORIAL, OP_LDEXP, OP_CONSTRAIN_LOWER, OP_CONSTRAIN_UPPER,
    OP_CONSTRAIN_LU, OP_CONSTRAIN_SIMPLEX, OP_CONSTRAIN_ORDERED, OP_CONSTRAIN_POS_ORDERED,
    OP_CONSTRAIN_OFFSET_MULT, OP_CONSTRAIN_UNIT_VECTOR, OP_CONSTRAIN_SUM_TO_ZERO,
    OP_CONSTRAIN_SUM_TO_ZERO_MAT, OP_CONSTRAIN_CORR_MATRIX, OP_CONSTRAIN_COV_MATRIX,
    OP_CONSTRAIN_CHOL_COV, OP_CONSTRAIN_STOCHASTIC_COLUMN, OP_CONSTRAIN_STOCHASTIC_ROW,
    OP_CHECK_STRUCTURED, OP_CHECK_MATCHING_DIMS, OP_CHECK_LOWER, OP_CHECK_UPPER, OP_CATEGORICAL,
    OP_ALL_INTEGER_DENSITY, OP_REJECT, OP_PRINT, OP_DIRICHLET_LPDF, OP_PROD_VEC, OP_EXTREMA_VEC,
    OP_DYNAMIC_SLICE, OP_MATRIX_EXP, OP_QUAD_FORM_SYM, OP_INVERSE, OP_INVERSE_SPD,
    OP_LOG_DETERMINANT, OP_QUAD_FORM, OP_ADD_DIAG, OP_CROSSPROD,
    OP_MULT_LOWER_TRI_SELF_TRANSPOSE, OP_DAE, OP_ODE_ADJOINT, OP_STUDENT_T_QF,
    OP_POISSON_BINOMIAL, OP_HYPERGEOMETRIC_1F0, OP_NORMAL_GROUPED_LPDF, OP_LINEAR_GAUSSIAN_LPDF,
    OP_FAMILY_GROUPED_LPDF, OP_SEGMENT_SUM, OP_TO_INT, OP_CHECK_OFFSET_MULTIPLIER,
    OP_DETERMINANT, OP_LOG_DETERMINANT_SPD, OP_CHOL2INV, OP_GENERALIZED_INVERSE, OP_QR_Q,
    OP_QR_R, OP_QR_THIN_Q, OP_QR_THIN_R, OP_MATRIX_POWER, OP_TRACE_QUAD_FORM,
    OP_TRACE_GEN_QUAD_FORM, OP_MATRIX_EXP_MULTIPLY, OP_SCALE_MATRIX_EXP_MULTIPLY, OP_TRACE_DOT,
    OP_NORM1, OP_NORM2, OP_DISTANCE, OP_INC_BETA, OP_INV_INC_BETA, OP_HYPERGEOMETRIC_2F1,
    OP_HYPERGEOMETRIC_3F2, OP_HYPERGEOMETRIC_PFQ, OP_LOG_MIX_VEC, OP_HMM_MARGINAL,
    OP_HMM_HIDDEN_STATE_PROB, OP_GAUSSIAN_DLM_OBS_LPDF, OP_QUANTILE, OP_CSR_MATRIX_TIMES_VECTOR,
    OP_CSR_TO_DENSE_MATRIX, OP_CHECK_LUB_FREE]"

text \<open>A density row is the enumerator, the Stan Math function, the number of real arguments and the
  instantiation tier.\<close>

type_synonym density_row = "nat \<times> string \<times> nat \<times> nat"

definition STANLI_SCALAR_DENSITY_LIST_COMMON_A :: "density_row list" where
  "STANLI_SCALAR_DENSITY_LIST_COMMON_A = [
    (OP_NORMAL_LPDF, ''normal_lpdf'', 3, 3), (OP_CAUCHY_LPDF, ''cauchy_lpdf'', 3, 3),
    (OP_GAMMA_LPDF, ''gamma_lpdf'', 3, 3), (OP_BETA_LPDF, ''beta_lpdf'', 3, 3),
    (OP_LOGNORMAL_LPDF, ''lognormal_lpdf'', 3, 3)]"

definition STANLI_SCALAR_DENSITY_LIST_COMMON_B :: "density_row list" where
  "STANLI_SCALAR_DENSITY_LIST_COMMON_B = [
    (OP_STUDENT_T_LPDF, ''student_t_lpdf'', 4, 3), (OP_UNIFORM_LPDF, ''uniform_lpdf'', 3, 3),
    (OP_DOUBLE_EXP_LPDF, ''double_exponential_lpdf'', 3, 3),
    (OP_EXPONENTIAL_LPDF, ''exponential_lpdf'', 2, 3),
    (OP_INV_GAMMA_LPDF, ''inv_gamma_lpdf'', 3, 3),
    (OP_STD_NORMAL_LPDF, ''std_normal_lpdf'', 1, 3), (OP_WEIBULL_LPDF, ''weibull_lpdf'', 3, 3),
    (OP_LOGISTIC_LPDF, ''logistic_lpdf'', 3, 3)]"

definition STANLI_SCALAR_DENSITY_LIST_REST_A :: "density_row list" where
  "STANLI_SCALAR_DENSITY_LIST_REST_A = [
    (OP_CHI_SQUARE_LPDF, ''chi_square_lpdf'', 2, 2),
    (OP_INV_CHI_SQUARE_LPDF, ''inv_chi_square_lpdf'', 2, 2),
    (OP_SCALED_INV_CHI_SQUARE_LPDF, ''scaled_inv_chi_square_lpdf'', 3, 2),
    (OP_FRECHET_LPDF, ''frechet_lpdf'', 3, 2), (OP_GUMBEL_LPDF, ''gumbel_lpdf'', 3, 2),
    (OP_LOGLOGISTIC_LPDF, ''loglogistic_lpdf'', 3, 2), (OP_PARETO_LPDF, ''pareto_lpdf'', 3, 2),
    (OP_SKEW_NORMAL_LPDF, ''skew_normal_lpdf'', 4, 2),
    (OP_EXP_MOD_NORMAL_LPDF, ''exp_mod_normal_lpdf'', 4, 2)]"

definition STANLI_SCALAR_DENSITY_LIST_REST_B :: "density_row list" where
  "STANLI_SCALAR_DENSITY_LIST_REST_B = [
    (OP_PARETO_TYPE_2_LPDF, ''pareto_type_2_lpdf'', 4, 2),
    (OP_RAYLEIGH_LPDF, ''rayleigh_lpdf'', 2, 2), (OP_VON_MISES_LPDF, ''von_mises_lpdf'', 3, 2),
    (OP_BETA_PROPORTION_LPDF, ''beta_proportion_lpdf'', 3, 2),
    (OP_SKEW_DOUBLE_EXPONENTIAL_LPDF, ''skew_double_exponential_lpdf'', 4, 2)]"

definition STANLI_SCALAR_DENSITY_LIST :: "density_row list" where
  "STANLI_SCALAR_DENSITY_LIST =
    STANLI_SCALAR_DENSITY_LIST_COMMON_A @ STANLI_SCALAR_DENSITY_LIST_COMMON_B @ 
    STANLI_SCALAR_DENSITY_LIST_REST_A @ STANLI_SCALAR_DENSITY_LIST_REST_B"

definition STANLI_INT_DENSITY_LIST :: "density_row list" where
  "STANLI_INT_DENSITY_LIST = [
    (OP_NEG_BINOMIAL_2_LOG_LPMF, ''neg_binomial_2_log_lpmf'', 2, 3),
    (OP_NEG_BINOMIAL_LPMF, ''neg_binomial_lpmf'', 2, 2),
    (OP_BETA_NEG_BINOMIAL_LPMF, ''beta_neg_binomial_lpmf'', 3, 2),
    (OP_YULE_SIMON_LPMF, ''yule_simon_lpmf'', 1, 2)]"

definition STANLI_SCALAR_CDF_LIST_A :: "density_row list" where
  "STANLI_SCALAR_CDF_LIST_A = [
    (OP_BETA_CDF, ''beta_cdf'', 3, 0), (OP_BETA_LCCDF, ''beta_lccdf'', 3, 0),
    (OP_BETA_LCDF, ''beta_lcdf'', 3, 0),
    (OP_BETA_PROPORTION_LCCDF, ''beta_proportion_lccdf'', 3, 0),
    (OP_BETA_PROPORTION_LCDF, ''beta_proportion_lcdf'', 3, 0),
    (OP_CAUCHY_CDF, ''cauchy_cdf'', 3, 0), (OP_CAUCHY_LCCDF, ''cauchy_lccdf'', 3, 0),
    (OP_CAUCHY_LCDF, ''cauchy_lcdf'', 3, 0), (OP_CHI_SQUARE_CDF, ''chi_square_cdf'', 2, 0),
    (OP_CHI_SQUARE_LCCDF, ''chi_square_lccdf'', 2, 0),
    (OP_CHI_SQUARE_LCDF, ''chi_square_lcdf'', 2, 0),
    (OP_DOUBLE_EXPONENTIAL_CDF, ''double_exponential_cdf'', 3, 0),
    (OP_DOUBLE_EXPONENTIAL_LCCDF, ''double_exponential_lccdf'', 3, 0),
    (OP_DOUBLE_EXPONENTIAL_LCDF, ''double_exponential_lcdf'', 3, 0),
    (OP_EXP_MOD_NORMAL_CDF, ''exp_mod_normal_cdf'', 4, 0),
    (OP_EXP_MOD_NORMAL_LCCDF, ''exp_mod_normal_lccdf'', 4, 0),
    (OP_EXP_MOD_NORMAL_LCDF, ''exp_mod_normal_lcdf'', 4, 0),
    (OP_EXPONENTIAL_CDF, ''exponential_cdf'', 2, 0),
    (OP_EXPONENTIAL_LCCDF, ''exponential_lccdf'', 2, 0),
    (OP_EXPONENTIAL_LCDF, ''exponential_lcdf'', 2, 0), (OP_FRECHET_CDF, ''frechet_cdf'', 3, 0),
    (OP_FRECHET_LCCDF, ''frechet_lccdf'', 3, 0), (OP_FRECHET_LCDF, ''frechet_lcdf'', 3, 0),
    (OP_GAMMA_CDF, ''gamma_cdf'', 3, 0), (OP_GAMMA_LCCDF, ''gamma_lccdf'', 3, 0),
    (OP_GAMMA_LCDF, ''gamma_lcdf'', 3, 0), (OP_GUMBEL_CDF, ''gumbel_cdf'', 3, 0),
    (OP_GUMBEL_LCCDF, ''gumbel_lccdf'', 3, 0), (OP_GUMBEL_LCDF, ''gumbel_lcdf'', 3, 0),
    (OP_INV_CHI_SQUARE_CDF, ''inv_chi_square_cdf'', 2, 0),
    (OP_INV_CHI_SQUARE_LCCDF, ''inv_chi_square_lccdf'', 2, 0),
    (OP_INV_CHI_SQUARE_LCDF, ''inv_chi_square_lcdf'', 2, 0),
    (OP_INV_GAMMA_CDF, ''inv_gamma_cdf'', 3, 0), (OP_INV_GAMMA_LCCDF, ''inv_gamma_lccdf'', 3, 0),
    (OP_INV_GAMMA_LCDF, ''inv_gamma_lcdf'', 3, 0), (OP_LOGISTIC_CDF, ''logistic_cdf'', 3, 0),
    (OP_LOGISTIC_LCCDF, ''logistic_lccdf'', 3, 0), (OP_LOGISTIC_LCDF, ''logistic_lcdf'', 3, 0)]"

definition STANLI_SCALAR_CDF_LIST_B :: "density_row list" where
  "STANLI_SCALAR_CDF_LIST_B = [
    (OP_LOGLOGISTIC_CDF, ''loglogistic_cdf'', 3, 0), (OP_LOGNORMAL_CDF, ''lognormal_cdf'', 3, 0),
    (OP_LOGNORMAL_LCCDF, ''lognormal_lccdf'', 3, 0),
    (OP_LOGNORMAL_LCDF, ''lognormal_lcdf'', 3, 0), (OP_NORMAL_CDF, ''normal_cdf'', 3, 0),
    (OP_NORMAL_LCDF, ''normal_lcdf'', 3, 0), (OP_PARETO_CDF, ''pareto_cdf'', 3, 0),
    (OP_PARETO_LCCDF, ''pareto_lccdf'', 3, 0), (OP_PARETO_LCDF, ''pareto_lcdf'', 3, 0),
    (OP_PARETO_TYPE_2_CDF, ''pareto_type_2_cdf'', 4, 0),
    (OP_PARETO_TYPE_2_LCCDF, ''pareto_type_2_lccdf'', 4, 0),
    (OP_PARETO_TYPE_2_LCDF, ''pareto_type_2_lcdf'', 4, 0),
    (OP_RAYLEIGH_CDF, ''rayleigh_cdf'', 2, 0), (OP_RAYLEIGH_LCCDF, ''rayleigh_lccdf'', 2, 0),
    (OP_RAYLEIGH_LCDF, ''rayleigh_lcdf'', 2, 0),
    (OP_SCALED_INV_CHI_SQUARE_CDF, ''scaled_inv_chi_square_cdf'', 3, 0),
    (OP_SCALED_INV_CHI_SQUARE_LCCDF, ''scaled_inv_chi_square_lccdf'', 3, 0),
    (OP_SCALED_INV_CHI_SQUARE_LCDF, ''scaled_inv_chi_square_lcdf'', 3, 0),
    (OP_SKEW_NORMAL_CDF, ''skew_normal_cdf'', 4, 0),
    (OP_SKEW_NORMAL_LCCDF, ''skew_normal_lccdf'', 4, 0),
    (OP_SKEW_NORMAL_LCDF, ''skew_normal_lcdf'', 4, 0),
    (OP_STD_NORMAL_CDF, ''std_normal_cdf'', 1, 0),
    (OP_SKEW_DOUBLE_EXPONENTIAL_CDF, ''skew_double_exponential_cdf'', 4, 0),
    (OP_SKEW_DOUBLE_EXPONENTIAL_LCDF, ''skew_double_exponential_lcdf'', 4, 0),
    (OP_SKEW_DOUBLE_EXPONENTIAL_LCCDF, ''skew_double_exponential_lccdf'', 4, 0),
    (OP_STD_NORMAL_LCDF, ''std_normal_lcdf'', 1, 0), (OP_STUDENT_T_CDF, ''student_t_cdf'', 4, 0),
    (OP_STUDENT_T_LCCDF, ''student_t_lccdf'', 4, 0),
    (OP_STUDENT_T_LCDF, ''student_t_lcdf'', 4, 0), (OP_UNIFORM_CDF, ''uniform_cdf'', 3, 0),
    (OP_UNIFORM_LCCDF, ''uniform_lccdf'', 3, 0), (OP_UNIFORM_LCDF, ''uniform_lcdf'', 3, 0),
    (OP_WEIBULL_CDF, ''weibull_cdf'', 3, 0), (OP_WEIBULL_LCCDF, ''weibull_lccdf'', 3, 0),
    (OP_WEIBULL_LCDF, ''weibull_lcdf'', 3, 0)]"

definition STANLI_REFLECTED_CDF_LIST :: "density_row list" where
  "STANLI_REFLECTED_CDF_LIST = [
    (OP_NORMAL_LCCDF, ''normal_lccdf'', 3, 0), (OP_STD_NORMAL_LCCDF, ''std_normal_lccdf'', 1, 0)]"

definition STANLI_SCALAR_CDF_LIST :: "density_row list" where
  "STANLI_SCALAR_CDF_LIST =
    STANLI_SCALAR_CDF_LIST_A @ STANLI_SCALAR_CDF_LIST_B @ STANLI_REFLECTED_CDF_LIST"

definition STANLI_INT_CDF_LIST :: "density_row list" where
  "STANLI_INT_CDF_LIST = [
    (OP_BERNOULLI_CDF, ''bernoulli_cdf'', 1, 0), (OP_BERNOULLI_LCCDF, ''bernoulli_lccdf'', 1, 0),
    (OP_BERNOULLI_LCDF, ''bernoulli_lcdf'', 1, 0),
    (OP_BETA_NEG_BINOMIAL_CDF, ''beta_neg_binomial_cdf'', 3, 0),
    (OP_BETA_NEG_BINOMIAL_LCCDF, ''beta_neg_binomial_lccdf'', 3, 0),
    (OP_BETA_NEG_BINOMIAL_LCDF, ''beta_neg_binomial_lcdf'', 3, 0),
    (OP_NEG_BINOMIAL_CDF, ''neg_binomial_cdf'', 2, 0),
    (OP_NEG_BINOMIAL_LCCDF, ''neg_binomial_lccdf'', 2, 0),
    (OP_NEG_BINOMIAL_LCDF, ''neg_binomial_lcdf'', 2, 0),
    (OP_NEG_BINOMIAL_2_CDF, ''neg_binomial_2_cdf'', 2, 0),
    (OP_POISSON_CDF, ''poisson_cdf'', 1, 0), (OP_POISSON_LCCDF, ''poisson_lccdf'', 1, 0),
    (OP_POISSON_LCDF, ''poisson_lcdf'', 1, 0), (OP_YULE_SIMON_CDF, ''yule_simon_cdf'', 1, 0),
    (OP_YULE_SIMON_LCCDF, ''yule_simon_lccdf'', 1, 0),
    (OP_YULE_SIMON_LCDF, ''yule_simon_lcdf'', 1, 0)]"

definition STANLI_TWO_INT_CDF_LIST :: "density_row list" where
  "STANLI_TWO_INT_CDF_LIST = [
    (OP_BETA_BINOMIAL_CDF, ''beta_binomial_cdf'', 2, 0),
    (OP_BETA_BINOMIAL_LCCDF, ''beta_binomial_lccdf'', 2, 0),
    (OP_BETA_BINOMIAL_LCDF, ''beta_binomial_lcdf'', 2, 0),
    (OP_BINOMIAL_CDF, ''binomial_cdf'', 1, 0), (OP_BINOMIAL_LCCDF, ''binomial_lccdf'', 1, 0),
    (OP_BINOMIAL_LCDF, ''binomial_lcdf'', 1, 0)]"

definition STANLI_TAIL_CDF_LIST :: "density_row list" where
  "STANLI_TAIL_CDF_LIST = [
    (OP_VON_MISES_CDF, ''von_mises_cdf'', 3, 0), (OP_VON_MISES_LCCDF, ''von_mises_lccdf'', 3, 0),
    (OP_VON_MISES_LCDF, ''von_mises_lcdf'', 3, 0)]"

definition STANLI_TAIL_INT_CDF_LIST :: "density_row list" where
  "STANLI_TAIL_INT_CDF_LIST = [
    (OP_NEG_BINOMIAL_2_LCCDF, ''neg_binomial_2_lccdf'', 2, 0),
    (OP_NEG_BINOMIAL_2_LCDF, ''neg_binomial_2_lcdf'', 2, 0)]"

text \<open>Scalar unary functions: enumerator, name and the pullback topology (the value and delta
  expressions are C++ floating-point code and are not part of the registry's logic).\<close>

datatype UnaryTopology = Chained | Nonzero | Disconnected

definition STANLI_SCALAR_UNARY_LIST :: "(nat \<times> string \<times> UnaryTopology) list" where
  "STANLI_SCALAR_UNARY_LIST = [
    (OP_LGAMMA, ''lgamma'', Chained), (OP_DIGAMMA, ''digamma'', Chained),
    (OP_LOG1P, ''log1p'', Chained), (OP_EXPM1, ''expm1'', Chained), (OP_PHI, ''Phi'', Chained),
    (OP_INV_PHI, ''inv_Phi'', Chained), (OP_ERF, ''erf'', Chained), (OP_ERFC, ''erfc'', Chained),
    (OP_INV, ''inv'', Chained), (OP_INV_SQRT, ''inv_sqrt'', Chained),
    (OP_INV_SQUARE, ''inv_square'', Chained), (OP_LOG1M_EXP, ''log1m_exp'', Chained),
    (OP_LOG1P_EXP, ''log1p_exp'', Chained), (OP_LOG_INV_LOGIT, ''log_inv_logit'', Chained),
    (OP_LOG1M_INV_LOGIT, ''log1m_inv_logit'', Chained),
    (OP_INV_CLOGLOG, ''inv_cloglog'', Chained), (OP_SIN, ''sin'', Chained),
    (OP_COS, ''cos'', Chained), (OP_TAN, ''tan'', Chained), (OP_ASIN, ''asin'', Chained),
    (OP_ACOS, ''acos'', Chained), (OP_ATAN, ''atan'', Chained), (OP_SINH, ''sinh'', Chained),
    (OP_COSH, ''cosh'', Chained), (OP_ASINH, ''asinh'', Chained), (OP_ACOSH, ''acosh'', Chained),
    (OP_ATANH, ''atanh'', Chained), (OP_CBRT, ''cbrt'', Chained), (OP_EXP2, ''exp2'', Chained),
    (OP_LOG2, ''log2'', Chained), (OP_LOG10, ''log10'', Chained),
    (OP_PHI_APPROX, ''Phi_approx'', Chained), (OP_INV_ERFC, ''inv_erfc'', Chained),
    (OP_LAMBERT_W0, ''lambert_w0'', Chained), (OP_LAMBERT_WM1, ''lambert_wm1'', Chained),
    (OP_STD_NORMAL_LOG_QF, ''std_normal_log_qf'', Chained), (OP_TGAMMA, ''tgamma'', Chained),
    (OP_ABS, ''abs'', Nonzero), (OP_FLOOR, ''floor'', Disconnected),
    (OP_CEIL, ''ceil'', Disconnected), (OP_ROUND, ''round'', Disconnected),
    (OP_TRUNC, ''trunc'', Disconnected), (OP_STEP, ''step'', Disconnected)]"

definition STANLI_SCALAR_BINARY_LIST :: "(nat \<times> string \<times> string) list" where
  "STANLI_SCALAR_BINARY_LIST = [
    (OP_ATAN2, ''atan2'', ''atan2''), (OP_BETA_FN, ''beta'', ''beta''),
    (OP_FDIM, ''fdim'', ''fdim''), (OP_FMAX, ''fmax'', ''fmax''), (OP_FMIN, ''fmin'', ''fmin''),
    (OP_FMOD, ''fmod'', ''fmod''), (OP_GAMMA_P, ''gamma_p'', ''gamma_p''),
    (OP_GAMMA_Q, ''gamma_q'', ''gamma_q''), (OP_HYPOT, ''hypot'', ''hypot''),
    (OP_HYPERGEOMETRIC_1F0, ''hypergeometric_1F0'', ''hypergeometric_1F0''),
    (OP_LBETA, ''lbeta'', ''lbeta''), (OP_LCHOOSE, ''lchoose'', ''binomial_coefficient_log''),
    (OP_LMULTIPLY, ''lmultiply'', ''lmultiply''),
    (OP_LOG_FALLING_FACTORIAL, ''log_falling_factorial'', ''log_falling_factorial''),
    (OP_LOG_INV_LOGIT_DIFF, ''log_inv_logit_diff'', ''log_inv_logit_diff''),
    (OP_LOG_MODIFIED_BESSEL_1, ''log_modified_bessel_first_kind'', ''log_modified_bessel_first_kind''),
    (OP_LOG_RISING_FACTORIAL, ''log_rising_factorial'', ''log_rising_factorial''),
    (OP_OWENS_T, ''owens_t'', ''owens_t'')]"

definition STANLI_ALL_OPCODES :: "nat list" where
  "STANLI_ALL_OPCODES =
    STANLI_OPCODE_LIST
    @ map fst STANLI_SCALAR_DENSITY_LIST
    @ map fst STANLI_INT_DENSITY_LIST
    @ map fst STANLI_SCALAR_CDF_LIST
    @ map fst STANLI_INT_CDF_LIST
    @ map fst STANLI_TWO_INT_CDF_LIST
    @ map fst STANLI_TAIL_CDF_LIST
    @ map fst STANLI_TAIL_INT_CDF_LIST
    @ map fst STANLI_SCALAR_UNARY_LIST"

definition opcode_names :: "string list" where
  "opcode_names = [
    ''OP_NONE_'', ''OP_ADD_N'', ''OP_BCAST_FMA'', ''OP_MATVEC'', ''OP_POISSON_LOG_LPMF'',
    ''OP_BERNOULLI_LOGIT_LPMF'', ''OP_BERNOULLI_LPMF'', ''OP_POISSON_LPMF'',
    ''OP_NEG_BINOMIAL_2_LPMF'', ''OP_BINOMIAL_LPMF'', ''OP_BINOMIAL_LOGIT_LPMF'',
    ''OP_BERNOULLI_LOGIT_GLM_LPMF'', ''OP_POISSON_LOG_GLM_LPMF'',
    ''OP_NEG_BINOMIAL_2_LOG_GLM_LPMF'', ''OP_BETA_BINOMIAL_LPMF'', ''OP_LOGIT'', ''OP_MEAN'',
    ''OP_SD'', ''OP_VARIANCE'', ''OP_REP_VEC'', ''OP_INDEX'', ''OP_SET_INDEX'',
    ''OP_SET_INDEX_INPLACE'', ''OP_SLICE'', ''OP_SET_SLICE'', ''OP_SET_SLICE_INPLACE'',
    ''OP_SET_SLICE_STRIDED'', ''OP_SET_SLICE_STRIDED_INPLACE'', ''OP_SLICE_STRIDED'',
    ''OP_GATHER'', ''OP_CONCAT2'', ''OP_REP_MAT'', ''OP_GP_COV'', ''OP_DIAG_MATRIX'',
    ''OP_CHOLESKY'', ''OP_MULTI_NORMAL_CHOL_LPDF'', ''OP_MULTI_NORMAL_LPDF'',
    ''OP_MULTI_NORMAL_PREC_LPDF'', ''OP_GEMM'', ''OP_MDIVIDE_LEFT'', ''OP_MDIVIDE_RIGHT'',
    ''OP_MDIVIDE_LEFT_SPD'', ''OP_MDIVIDE_RIGHT_SPD'', ''OP_MDIVIDE_LEFT_TRI_LOW'',
    ''OP_MDIVIDE_RIGHT_TRI_LOW'', ''OP_LOG_SOFTMAX'', ''OP_CONSTRAIN_CHOL_CORR'',
    ''OP_LKJ_CORR_CHOL_LPDF'', ''OP_LKJ_CORR_LPDF'', ''OP_WISHART_LPDF'',
    ''OP_INV_WISHART_LPDF'', ''OP_WISHART_CHOL_LPDF'', ''OP_INV_WISHART_CHOL_LPDF'',
    ''OP_MULTI_GP_LPDF'', ''OP_MULTI_GP_CHOL_LPDF'', ''OP_MULTI_STUDENT_T_LPDF'',
    ''OP_MULTI_STUDENT_T_CHOL_LPDF'', ''OP_MULTINOMIAL_LPMF'', ''OP_MULTINOMIAL_LOGIT_LPMF'',
    ''OP_DIRICHLET_MULTINOMIAL_LPMF'', ''OP_ORDERED_PROBIT_LPMF'', ''OP_ORDERED_LOGISTIC_LPMF'',
    ''OP_WIENER_LPDF'', ''OP_WIENER_PACKED_LPDF'', ''OP_LKJ_COV_LPDF'',
    ''OP_BINOMIAL_LOGIT_GLM_LPMF'', ''OP_CATEGORICAL_LOGIT_GLM_LPMF'',
    ''OP_ORDERED_LOGISTIC_GLM_LPMF'', ''OP_NORMAL_ID_GLM_LPDF'', ''OP_TRANSPOSE'',
    ''OP_ALGEBRA_SOLVER'', ''OP_QUADRATURE'', ''OP_ODE'', ''OP_RNG'', ''OP_ISLAND'', ''OP_LOOP'',
    ''OP_REDUCE_SUM'', ''OP_REGION_MAP'', ''OP_COMPARE'', ''OP_INT_ARITH'',
    ''OP_REP_VEC_DYNAMIC'', ''OP_INDEX_DYNAMIC'', ''OP_SET_INDEX_DYNAMIC'',
    ''OP_MATRIX_EXP_DYNAMIC'', ''OP_EIGENVALUES_SYM'', ''OP_EIGENVECTORS_SYM'',
    ''OP_LOG_SUM_EXP'', ''OP_LOG_SUM_EXP_ROWS'', ''OP_SUM_ROWS'', ''OP_LSE2'',
    ''OP_LOG_DIFF_EXP'', ''OP_LOG_MIX'', ''OP_SOFTMAX'', ''OP_SUM_VEC'', ''OP_ADD'', ''OP_SUB'',
    ''OP_MUL'', ''OP_DIV'', ''OP_POW'', ''OP_DOT'', ''OP_GROUP_DOT'', ''OP_NEG'', ''OP_EXPV'',
    ''OP_LOGV'', ''OP_INV_LOGIT'', ''OP_SQRT'', ''OP_SQUARE'', ''OP_LOG1M'', ''OP_TANHV'',
    ''OP_TRIGAMMA'', ''OP_CUMSUM'', ''OP_SORT_ASC'', ''OP_SORT_DESC'', ''OP_ORDERING'',
    ''OP_FMA'', ''OP_ATAN2'', ''OP_BETA_FN'', ''OP_FDIM'', ''OP_FMAX'', ''OP_FMIN'', ''OP_FMOD'',
    ''OP_GAMMA_P'', ''OP_GAMMA_Q'', ''OP_HYPOT'', ''OP_LBETA'', ''OP_LCHOOSE'', ''OP_LMULTIPLY'',
    ''OP_LOG_FALLING_FACTORIAL'', ''OP_LOG_INV_LOGIT_DIFF'', ''OP_LOG_MODIFIED_BESSEL_1'',
    ''OP_LOG_RISING_FACTORIAL'', ''OP_OWENS_T'', ''OP_CHOOSE'', ''OP_BESSEL_1'', ''OP_BESSEL_2'',
    ''OP_MODIFIED_BESSEL_1'', ''OP_MODIFIED_BESSEL_2'', ''OP_BINARY_LOG_LOSS'', ''OP_LMGAMMA'',
    ''OP_FALLING_FACTORIAL'', ''OP_RISING_FACTORIAL'', ''OP_LDEXP'', ''OP_CONSTRAIN_LOWER'',
    ''OP_CONSTRAIN_UPPER'', ''OP_CONSTRAIN_LU'', ''OP_CONSTRAIN_SIMPLEX'',
    ''OP_CONSTRAIN_ORDERED'', ''OP_CONSTRAIN_POS_ORDERED'', ''OP_CONSTRAIN_OFFSET_MULT'',
    ''OP_CONSTRAIN_UNIT_VECTOR'', ''OP_CONSTRAIN_SUM_TO_ZERO'', ''OP_CONSTRAIN_SUM_TO_ZERO_MAT'',
    ''OP_CONSTRAIN_CORR_MATRIX'', ''OP_CONSTRAIN_COV_MATRIX'', ''OP_CONSTRAIN_CHOL_COV'',
    ''OP_CONSTRAIN_STOCHASTIC_COLUMN'', ''OP_CONSTRAIN_STOCHASTIC_ROW'', ''OP_CHECK_STRUCTURED'',
    ''OP_CHECK_MATCHING_DIMS'', ''OP_CHECK_LOWER'', ''OP_CHECK_UPPER'', ''OP_CATEGORICAL'',
    ''OP_ALL_INTEGER_DENSITY'', ''OP_REJECT'', ''OP_PRINT'', ''OP_DIRICHLET_LPDF'',
    ''OP_PROD_VEC'', ''OP_EXTREMA_VEC'', ''OP_DYNAMIC_SLICE'', ''OP_MATRIX_EXP'',
    ''OP_QUAD_FORM_SYM'', ''OP_INVERSE'', ''OP_INVERSE_SPD'', ''OP_LOG_DETERMINANT'',
    ''OP_QUAD_FORM'', ''OP_ADD_DIAG'', ''OP_CROSSPROD'', ''OP_MULT_LOWER_TRI_SELF_TRANSPOSE'',
    ''OP_DAE'', ''OP_ODE_ADJOINT'', ''OP_STUDENT_T_QF'', ''OP_POISSON_BINOMIAL'',
    ''OP_HYPERGEOMETRIC_1F0'', ''OP_NORMAL_GROUPED_LPDF'', ''OP_LINEAR_GAUSSIAN_LPDF'',
    ''OP_FAMILY_GROUPED_LPDF'', ''OP_SEGMENT_SUM'', ''OP_TO_INT'',
    ''OP_CHECK_OFFSET_MULTIPLIER'', ''OP_DETERMINANT'', ''OP_LOG_DETERMINANT_SPD'',
    ''OP_CHOL2INV'', ''OP_GENERALIZED_INVERSE'', ''OP_QR_Q'', ''OP_QR_R'', ''OP_QR_THIN_Q'',
    ''OP_QR_THIN_R'', ''OP_MATRIX_POWER'', ''OP_TRACE_QUAD_FORM'', ''OP_TRACE_GEN_QUAD_FORM'',
    ''OP_MATRIX_EXP_MULTIPLY'', ''OP_SCALE_MATRIX_EXP_MULTIPLY'', ''OP_TRACE_DOT'', ''OP_NORM1'',
    ''OP_NORM2'', ''OP_DISTANCE'', ''OP_INC_BETA'', ''OP_INV_INC_BETA'',
    ''OP_HYPERGEOMETRIC_2F1'', ''OP_HYPERGEOMETRIC_3F2'', ''OP_HYPERGEOMETRIC_PFQ'',
    ''OP_LOG_MIX_VEC'', ''OP_HMM_MARGINAL'', ''OP_HMM_HIDDEN_STATE_PROB'',
    ''OP_GAUSSIAN_DLM_OBS_LPDF'', ''OP_QUANTILE'', ''OP_CSR_MATRIX_TIMES_VECTOR'',
    ''OP_CSR_TO_DENSE_MATRIX'', ''OP_CHECK_LUB_FREE'', ''OP_NORMAL_LPDF'', ''OP_CAUCHY_LPDF'',
    ''OP_GAMMA_LPDF'', ''OP_BETA_LPDF'', ''OP_LOGNORMAL_LPDF'', ''OP_STUDENT_T_LPDF'',
    ''OP_UNIFORM_LPDF'', ''OP_DOUBLE_EXP_LPDF'', ''OP_EXPONENTIAL_LPDF'', ''OP_INV_GAMMA_LPDF'',
    ''OP_STD_NORMAL_LPDF'', ''OP_WEIBULL_LPDF'', ''OP_LOGISTIC_LPDF'', ''OP_CHI_SQUARE_LPDF'',
    ''OP_INV_CHI_SQUARE_LPDF'', ''OP_SCALED_INV_CHI_SQUARE_LPDF'', ''OP_FRECHET_LPDF'',
    ''OP_GUMBEL_LPDF'', ''OP_LOGLOGISTIC_LPDF'', ''OP_PARETO_LPDF'', ''OP_SKEW_NORMAL_LPDF'',
    ''OP_EXP_MOD_NORMAL_LPDF'', ''OP_PARETO_TYPE_2_LPDF'', ''OP_RAYLEIGH_LPDF'',
    ''OP_VON_MISES_LPDF'', ''OP_BETA_PROPORTION_LPDF'', ''OP_SKEW_DOUBLE_EXPONENTIAL_LPDF'',
    ''OP_NEG_BINOMIAL_2_LOG_LPMF'', ''OP_NEG_BINOMIAL_LPMF'', ''OP_BETA_NEG_BINOMIAL_LPMF'',
    ''OP_YULE_SIMON_LPMF'', ''OP_BETA_CDF'', ''OP_BETA_LCCDF'', ''OP_BETA_LCDF'',
    ''OP_BETA_PROPORTION_LCCDF'', ''OP_BETA_PROPORTION_LCDF'', ''OP_CAUCHY_CDF'',
    ''OP_CAUCHY_LCCDF'', ''OP_CAUCHY_LCDF'', ''OP_CHI_SQUARE_CDF'', ''OP_CHI_SQUARE_LCCDF'',
    ''OP_CHI_SQUARE_LCDF'', ''OP_DOUBLE_EXPONENTIAL_CDF'', ''OP_DOUBLE_EXPONENTIAL_LCCDF'',
    ''OP_DOUBLE_EXPONENTIAL_LCDF'', ''OP_EXP_MOD_NORMAL_CDF'', ''OP_EXP_MOD_NORMAL_LCCDF'',
    ''OP_EXP_MOD_NORMAL_LCDF'', ''OP_EXPONENTIAL_CDF'', ''OP_EXPONENTIAL_LCCDF'',
    ''OP_EXPONENTIAL_LCDF'', ''OP_FRECHET_CDF'', ''OP_FRECHET_LCCDF'', ''OP_FRECHET_LCDF'',
    ''OP_GAMMA_CDF'', ''OP_GAMMA_LCCDF'', ''OP_GAMMA_LCDF'', ''OP_GUMBEL_CDF'',
    ''OP_GUMBEL_LCCDF'', ''OP_GUMBEL_LCDF'', ''OP_INV_CHI_SQUARE_CDF'',
    ''OP_INV_CHI_SQUARE_LCCDF'', ''OP_INV_CHI_SQUARE_LCDF'', ''OP_INV_GAMMA_CDF'',
    ''OP_INV_GAMMA_LCCDF'', ''OP_INV_GAMMA_LCDF'', ''OP_LOGISTIC_CDF'', ''OP_LOGISTIC_LCCDF'',
    ''OP_LOGISTIC_LCDF'', ''OP_LOGLOGISTIC_CDF'', ''OP_LOGNORMAL_CDF'', ''OP_LOGNORMAL_LCCDF'',
    ''OP_LOGNORMAL_LCDF'', ''OP_NORMAL_CDF'', ''OP_NORMAL_LCDF'', ''OP_PARETO_CDF'',
    ''OP_PARETO_LCCDF'', ''OP_PARETO_LCDF'', ''OP_PARETO_TYPE_2_CDF'',
    ''OP_PARETO_TYPE_2_LCCDF'', ''OP_PARETO_TYPE_2_LCDF'', ''OP_RAYLEIGH_CDF'',
    ''OP_RAYLEIGH_LCCDF'', ''OP_RAYLEIGH_LCDF'', ''OP_SCALED_INV_CHI_SQUARE_CDF'',
    ''OP_SCALED_INV_CHI_SQUARE_LCCDF'', ''OP_SCALED_INV_CHI_SQUARE_LCDF'',
    ''OP_SKEW_NORMAL_CDF'', ''OP_SKEW_NORMAL_LCCDF'', ''OP_SKEW_NORMAL_LCDF'',
    ''OP_STD_NORMAL_CDF'', ''OP_SKEW_DOUBLE_EXPONENTIAL_CDF'',
    ''OP_SKEW_DOUBLE_EXPONENTIAL_LCDF'', ''OP_SKEW_DOUBLE_EXPONENTIAL_LCCDF'',
    ''OP_STD_NORMAL_LCDF'', ''OP_STUDENT_T_CDF'', ''OP_STUDENT_T_LCCDF'', ''OP_STUDENT_T_LCDF'',
    ''OP_UNIFORM_CDF'', ''OP_UNIFORM_LCCDF'', ''OP_UNIFORM_LCDF'', ''OP_WEIBULL_CDF'',
    ''OP_WEIBULL_LCCDF'', ''OP_WEIBULL_LCDF'', ''OP_NORMAL_LCCDF'', ''OP_STD_NORMAL_LCCDF'',
    ''OP_BERNOULLI_CDF'', ''OP_BERNOULLI_LCCDF'', ''OP_BERNOULLI_LCDF'',
    ''OP_BETA_NEG_BINOMIAL_CDF'', ''OP_BETA_NEG_BINOMIAL_LCCDF'', ''OP_BETA_NEG_BINOMIAL_LCDF'',
    ''OP_NEG_BINOMIAL_CDF'', ''OP_NEG_BINOMIAL_LCCDF'', ''OP_NEG_BINOMIAL_LCDF'',
    ''OP_NEG_BINOMIAL_2_CDF'', ''OP_POISSON_CDF'', ''OP_POISSON_LCCDF'', ''OP_POISSON_LCDF'',
    ''OP_YULE_SIMON_CDF'', ''OP_YULE_SIMON_LCCDF'', ''OP_YULE_SIMON_LCDF'',
    ''OP_BETA_BINOMIAL_CDF'', ''OP_BETA_BINOMIAL_LCCDF'', ''OP_BETA_BINOMIAL_LCDF'',
    ''OP_BINOMIAL_CDF'', ''OP_BINOMIAL_LCCDF'', ''OP_BINOMIAL_LCDF'', ''OP_VON_MISES_CDF'',
    ''OP_VON_MISES_LCCDF'', ''OP_VON_MISES_LCDF'', ''OP_NEG_BINOMIAL_2_LCCDF'',
    ''OP_NEG_BINOMIAL_2_LCDF'', ''OP_LGAMMA'', ''OP_DIGAMMA'', ''OP_LOG1P'', ''OP_EXPM1'',
    ''OP_PHI'', ''OP_INV_PHI'', ''OP_ERF'', ''OP_ERFC'', ''OP_INV'', ''OP_INV_SQRT'',
    ''OP_INV_SQUARE'', ''OP_LOG1M_EXP'', ''OP_LOG1P_EXP'', ''OP_LOG_INV_LOGIT'',
    ''OP_LOG1M_INV_LOGIT'', ''OP_INV_CLOGLOG'', ''OP_SIN'', ''OP_COS'', ''OP_TAN'', ''OP_ASIN'',
    ''OP_ACOS'', ''OP_ATAN'', ''OP_SINH'', ''OP_COSH'', ''OP_ASINH'', ''OP_ACOSH'', ''OP_ATANH'',
    ''OP_CBRT'', ''OP_EXP2'', ''OP_LOG2'', ''OP_LOG10'', ''OP_PHI_APPROX'', ''OP_INV_ERFC'',
    ''OP_LAMBERT_W0'', ''OP_LAMBERT_WM1'', ''OP_STD_NORMAL_LOG_QF'', ''OP_TGAMMA'', ''OP_ABS'',
    ''OP_FLOOR'', ''OP_CEIL'', ''OP_ROUND'', ''OP_TRUNC'', ''OP_STEP'']"

definition opcode_name :: "nat \<Rightarrow> string" where
  "opcode_name oc = (if oc < OP_COUNT then opcode_names ! oc else ''OP_?'')"

section \<open>Switches over opcodes\<close>

unbundle bit_operations_syntax

definition unary_has_pullback :: "('d \<Rightarrow> bool) \<Rightarrow> UnaryTopology \<Rightarrow> 'd \<Rightarrow> bool" where
  \<comment> \<open>the first argument decides \<open>x == 0.0\<close> on a double\<close>
  "unary_has_pullback is_zero topology x =
     (case topology of Chained \<Rightarrow> True | Nonzero \<Rightarrow> \<not> is_zero x | Disconnected \<Rightarrow> False)"

definition kRerollDensity :: "8 word" where "kRerollDensity = push_bit 0 1"
definition kRerollIdataDensity :: "8 word" where "kRerollIdataDensity = push_bit 1 1"
definition kRerollAnyDensity :: "8 word" where
  "kRerollAnyDensity = kRerollDensity OR kRerollIdataDensity"
definition kRerollWidenable :: "8 word" where "kRerollWidenable = push_bit 2 1"
definition kBackwardValueFree :: "8 word" where "kBackwardValueFree = push_bit 3 1"
definition kVariantGrouped :: "8 word" where "kVariantGrouped = push_bit 4 1"
definition kWholeInputPayload :: "8 word" where "kWholeInputPayload = push_bit 5 1"

lemmas trait_defs = kRerollDensity_def kRerollIdataDensity_def kRerollAnyDensity_def
  kRerollWidenable_def kBackwardValueFree_def kVariantGrouped_def kWholeInputPayload_def

definition op_traits :: "nat \<Rightarrow> 8 word" where
  "op_traits opcode =
     (if opcode \<in> set (map fst STANLI_SCALAR_DENSITY_LIST) then kRerollDensity
      else if opcode \<in> set ([OP_BERNOULLI_LPMF, OP_BERNOULLI_LOGIT_LPMF, OP_POISSON_LPMF,
          OP_POISSON_LOG_LPMF, OP_NEG_BINOMIAL_2_LPMF, OP_BINOMIAL_LPMF,
          OP_BINOMIAL_LOGIT_LPMF, OP_BETA_BINOMIAL_LPMF] @ map fst STANLI_INT_DENSITY_LIST)
        then kRerollIdataDensity
      else if opcode \<in> set [OP_LOG_MIX, OP_LSE2] then kRerollWidenable OR kBackwardValueFree
      else if opcode = OP_ADD then kRerollWidenable OR kBackwardValueFree
      else if opcode \<in> set ([OP_SUB, OP_MUL, OP_DIV, OP_POW, OP_FMA, OP_NEG, OP_EXPV, OP_LOGV,
          OP_INV_LOGIT, OP_SQRT, OP_SQUARE, OP_LOG1M, OP_TANHV]
          @ map fst STANLI_SCALAR_UNARY_LIST @ map fst STANLI_SCALAR_BINARY_LIST)
        then kRerollWidenable
      else if opcode \<in> set [OP_INDEX, OP_SLICE, OP_SLICE_STRIDED, OP_GATHER, OP_SET_INDEX,
          OP_SET_INDEX_INPLACE, OP_SET_SLICE, OP_SET_SLICE_INPLACE, OP_SET_SLICE_STRIDED,
          OP_SET_SLICE_STRIDED_INPLACE, OP_LOG_SUM_EXP, OP_LOG_SUM_EXP_ROWS, OP_SUM_ROWS,
          OP_SEGMENT_SUM] then kBackwardValueFree
      else if opcode \<in> set [OP_PROD_VEC, OP_EXTREMA_VEC] then kVariantGrouped
      else if opcode \<in> set [OP_CHECK_LOWER, OP_CHECK_UPPER, OP_CHECK_MATCHING_DIMS,
          OP_CHECK_LUB_FREE, OP_REGION_MAP] then kWholeInputPayload
      else 0)"

definition has_op_trait :: "nat \<Rightarrow> 8 word \<Rightarrow> bool" where
  "has_op_trait opcode trait \<longleftrightarrow> op_traits opcode AND trait \<noteq> 0"

definition is_effectful_op :: "nat \<Rightarrow> bool" where
  "is_effectful_op opcode \<longleftrightarrow>
     opcode \<in> set [OP_CHECK_STRUCTURED, OP_CHECK_MATCHING_DIMS, OP_CHECK_LOWER, OP_CHECK_UPPER,
       OP_CHECK_OFFSET_MULTIPLIER, OP_CHECK_LUB_FREE, OP_CATEGORICAL, OP_ALL_INTEGER_DENSITY,
       OP_RNG, OP_PRINT, OP_REJECT, OP_LOOP, OP_REDUCE_SUM, OP_REGION_MAP]"

lemmas opcode_list_defs = STANLI_SCALAR_DENSITY_LIST_COMMON_A_def
  STANLI_SCALAR_DENSITY_LIST_COMMON_B_def STANLI_SCALAR_DENSITY_LIST_REST_A_def
  STANLI_SCALAR_DENSITY_LIST_REST_B_def STANLI_SCALAR_DENSITY_LIST_def
  STANLI_INT_DENSITY_LIST_def STANLI_SCALAR_UNARY_LIST_def STANLI_SCALAR_BINARY_LIST_def

section \<open>Numbering and traits\<close>

text \<open>The numbers given to the opcodes above are those the enum gets from the macro lists.\<close>

lemma opcode_enumeration: "STANLI_ALL_OPCODES = [1..<OP_COUNT]"
  by code_simp

lemma length_opcode_names: "length opcode_names = OP_COUNT"
  by code_simp

definition value_free_list :: "nat list" where
  "value_free_list = [OP_LOG_MIX, OP_LSE2, OP_ADD, OP_INDEX, OP_SLICE, OP_SLICE_STRIDED, OP_GATHER,
     OP_SET_INDEX, OP_SET_INDEX_INPLACE, OP_SET_SLICE, OP_SET_SLICE_INPLACE, OP_SET_SLICE_STRIDED,
     OP_SET_SLICE_STRIDED_INPLACE, OP_LOG_SUM_EXP, OP_LOG_SUM_EXP_ROWS, OP_SUM_ROWS,
     OP_SEGMENT_SUM]"

lemma trait_bits:
  "kRerollDensity AND kBackwardValueFree = 0" "kRerollIdataDensity AND kBackwardValueFree = 0"
  "kRerollWidenable AND kBackwardValueFree = 0" "kVariantGrouped AND kBackwardValueFree = 0"
  "kWholeInputPayload AND kBackwardValueFree = 0"
  "(kRerollWidenable OR kBackwardValueFree) AND kBackwardValueFree \<noteq> 0"
  "kBackwardValueFree AND kBackwardValueFree \<noteq> 0"
  "kBackwardValueFree \<noteq> 0"
  by (simp_all add: trait_defs)

text \<open>The opcodes whose backward reads no primal buffer are exactly the seventeen listed: no earlier
  case of the switch shadows one of them.\<close>

lemma value_free_opcodes:
  "has_op_trait oc kBackwardValueFree \<longleftrightarrow> oc \<in> set value_free_list"
proof
  show "has_op_trait oc kBackwardValueFree \<Longrightarrow> oc \<in> set value_free_list"
    unfolding has_op_trait_def op_traits_def value_free_list_def
    by (auto simp: trait_bits split: if_splits)
  have "list_all (\<lambda>oc. has_op_trait oc kBackwardValueFree) value_free_list"
    unfolding value_free_list_def has_op_trait_def op_traits_def opcode_list_defs
    by (simp add: trait_bits)
  then show "oc \<in> set value_free_list \<Longrightarrow> has_op_trait oc kBackwardValueFree"
    by (simp add: list_all_iff)
qed

end
