(* ===== verification/Graph.thy ===== *)
theory Graph
  imports Opcodes
begin

text \<open>
  The operation graph: \<^verbatim>\<open>Slot\<close>, \<^verbatim>\<open>Op\<close> (\<^verbatim>\<open>runtime/include/stanli/kernel_types.hpp\<close>) and \<^verbatim>\<open>Graph\<close>
  (\<^verbatim>\<open>runtime/include/stanli/graph.hpp\<close>) with its builders. The \<^verbatim>\<open>Op\<close> record is parametric in how the
  integer immediates are held: \<open>int list option\<close> is the dereferenced view the graph passes read
  (\<open>None\<close> for a null pointer); the ownership of the pools they point into is not modelled. \<open>'u\<close> is the opaque payload behind \<^verbatim>\<open>udata\<close>.
\<close>

section \<open>Data\<close>

record Slot =
  offset :: int
  len :: int
  is_param :: bool

record ('i, 'u) Op =
  opcode :: nat
  variant :: nat
  out :: int
  out2 :: int
  in_slots :: "int list"      \<comment> \<open>\<^verbatim>\<open>in[0 .. n_in)\<close>\<close>
  idata :: 'i
  udata :: "'u option"
  dyn_capacity :: int
  dyn_extent_in :: int
  dyn_lengths :: nat
  primal_source :: int

record ('i, 'u) Graph =
  slots :: "Slot list"
  ops :: "('i, 'u) Op list"
  result_slot :: int

type_synonym 'u gop = "(int list option, 'u) Op"
type_synonym 'u graph = "(int list option, 'u) Graph"
type_synonym 'd fills = "(int \<times> 'd list) list"

text \<open>The default member initialisers of \<^verbatim>\<open>Op\<close> and \<^verbatim>\<open>Graph\<close>.\<close>

definition default_op :: "'i \<Rightarrow> ('i, 'u) Op" where
  "default_op null = \<lparr>opcode = 0, variant = 0, out = -1, out2 = -1, in_slots = [], idata = null,
     udata = None, dyn_capacity = 0, dyn_extent_in = -1, dyn_lengths = 0, primal_source = -1\<rparr>"

definition empty_graph :: "('i, 'u) Graph" where
  "empty_graph = \<lparr>slots = [], ops = [], result_slot = -1\<rparr>"

section \<open>Accessors\<close>

abbreviation n_in :: "('i, 'u) Op \<Rightarrow> nat" where
  "n_in op \<equiv> length (in_slots op)"

definition n_idata :: "'u gop \<Rightarrow> int" where
  "n_idata op = (case idata op of None \<Rightarrow> 0 | Some xs \<Rightarrow> int (length xs))"

definition idata_at :: "'u gop \<Rightarrow> nat \<Rightarrow> int" where
  "idata_at op k = (case idata op of None \<Rightarrow> 0 | Some xs \<Rightarrow> vget 0 xs (int k))"

definition no_slot :: Slot where
  "no_slot = \<lparr>offset = 0, len = 0, is_param = False\<rparr>"

definition slot_at :: "('i, 'u) Graph \<Rightarrow> int \<Rightarrow> Slot" where
  "slot_at g s = vget no_slot (slots g) s"

definition valid_slot :: "('i, 'u) Graph \<Rightarrow> int \<Rightarrow> bool" where
  "valid_slot g s \<longleftrightarrow> 0 \<le> s \<and> s < int (length (slots g))"

definition outs :: "('i, 'u) Op \<Rightarrow> int list" where
  "outs op = (if out op \<ge> 0 then [out op] else []) @ (if out2 op \<ge> 0 then [out2 op] else [])"

section \<open>Builders\<close>

definition add_slot :: "int \<Rightarrow> bool \<Rightarrow> ('i, 'u) Graph \<Rightarrow> ('i, 'u) Graph \<times> int" where
  "add_slot l p g = (g\<lparr>slots := slots g @ [\<lparr>offset = 0, len = l, is_param = p\<rparr>]\<rparr>,
                     int (length (slots g)))"

definition add_op ::
    "nat \<Rightarrow> int list \<Rightarrow> int \<Rightarrow> int list \<Rightarrow> 'u graph \<Rightarrow> std_error + 'u graph \<times> int" where
  "add_op oc ins o_slot idat g =
     (if length ins > 6 then Inl (LengthError ''op has more inputs than Op::in holds'')
      else let op = (default_op None)\<lparr>opcode := oc, out := o_slot, in_slots := ins,
                       idata := (if idat \<noteq> [] then Some idat else None)\<rparr>
           in Inr (g\<lparr>ops := ops g @ [op]\<rparr>, int (length (ops g))))"

section \<open>Well-formed graphs\<close>

text \<open>
  Every operand and every output names a slot of the graph, at most six inputs, and a slot's
  length is not negative. This is what \<^verbatim>\<open>Executor::bind_\<close> relies on when it indexes the slot table
  without a check.
\<close>

definition wf_op :: "('i, 'u) Graph \<Rightarrow> ('i, 'u) Op \<Rightarrow> bool" where
  "wf_op g op \<longleftrightarrow> list_all (valid_slot g) (in_slots op) \<and> n_in op \<le> 6 \<and> valid_slot g (out op)
     \<and> (out2 op = -1 \<or> valid_slot g (out2 op))"

definition wf_graph :: "('i, 'u) Graph \<Rightarrow> bool" where
  "wf_graph g \<longleftrightarrow> list_all (\<lambda>s. 0 \<le> len s) (slots g) \<and> list_all (wf_op g) (ops g)"

lemma valid_slot_add_slot [simp]:
  "valid_slot (fst (add_slot l p g)) s \<longleftrightarrow> valid_slot g s \<or> s = int (length (slots g))"
  by (auto simp: add_slot_def valid_slot_def)

lemma slot_at_add_slot_new:
  "slot_at (fst (add_slot l p g)) (snd (add_slot l p g)) = \<lparr>offset = 0, len = l, is_param = p\<rparr>"
  by (simp add: add_slot_def slot_at_def vget_def nth_append)

lemma wf_op_mono:
  assumes "wf_op g op" and "\<And>s. valid_slot g s \<Longrightarrow> valid_slot h s"
  shows "wf_op h op"
  using assms by (auto simp: wf_op_def list_all_iff)

lemma valid_slot_ops_update [simp]: "valid_slot (g\<lparr>ops := xs\<rparr>) = valid_slot g"
  by (simp add: valid_slot_def fun_eq_iff)

lemma slot_at_ops_update [simp]: "slot_at (g\<lparr>ops := xs\<rparr>) = slot_at g"
  by (simp add: slot_at_def fun_eq_iff)

lemma wf_op_ops_update [simp]: "wf_op (g\<lparr>ops := xs\<rparr>) = wf_op g"
  by (simp add: wf_op_def fun_eq_iff)

lemma wf_graph_add_slot: "wf_graph g \<Longrightarrow> 0 \<le> l \<Longrightarrow> wf_graph (fst (add_slot l p g))"
proof -
  assume g: "wf_graph g" and l: "0 \<le> l"
  have "wf_op g op \<Longrightarrow> wf_op (fst (add_slot l p g)) op" for op
    by (erule wf_op_mono) simp
  with g l show ?thesis
    by (auto simp: wf_graph_def list_all_iff) (auto simp: add_slot_def)
qed

lemma wf_graph_add_op_aux:
  assumes "wf_graph g" "add_op oc ins o_slot idat g = Inr (g', i)"
    and "list_all (valid_slot g) ins" "valid_slot g o_slot"
  shows "wf_graph g'"
  using assms
  by (auto simp: add_op_def Let_def wf_graph_def split: if_splits)
    (auto simp: wf_op_def default_op_def)

lemma wf_graph_valid:
  assumes "wf_graph g" and "op \<in> set (ops g)" and "s \<in> set (outs op) \<or> s \<in> set (in_slots op)"
  shows "0 \<le> s \<and> nat s < length (slots g)"
proof -
  have "wf_op g op" using assms(1,2) by (simp add: wf_graph_def list_all_iff)
  then have "valid_slot g s" using assms(3) by (auto simp: wf_op_def list_all_iff outs_def split: if_splits)
  then show ?thesis by (auto simp: valid_slot_def)
qed

lemma wf_graph_out: "wf_graph g \<Longrightarrow> op \<in> set (ops g) \<Longrightarrow> out op \<ge> 0"
  by (auto simp: wf_graph_def list_all_iff wf_op_def valid_slot_def)

end
