(* ===== verification/Kernels.thy ===== *)
theory Kernels
  imports Graph
begin

text \<open>
  The structural kernels of \<^verbatim>\<open>runtime/kernels/elementwise.cpp\<close>: the element and slice loads and stores,
  in the copying and the destructive form. They only move doubles, so they are modelled exactly and
  for any element type: a forward kernel is the sequence of element assignments its loops perform,
  a backward kernel the sequence of adjoint accumulations and clears. Buffers are named by their
  slot, so two operands that name one slot alias exactly as the bound pointers do. An access out
  of range is undefined behaviour in C++ and \<open>None\<close> here.
\<close>

section \<open>Element moves\<close>

type_synonym 'd mem = "int \<Rightarrow> 'd list"

text \<open>\<open>(dst, d, src, s)\<close> is the assignment \<^verbatim>\<open>dst[d] = src[s]\<close>.\<close>

type_synonym move = "int \<times> int \<times> int \<times> int"

definition in_range :: "'d mem \<Rightarrow> int \<Rightarrow> int \<Rightarrow> bool" where
  "in_range m b i \<longleftrightarrow> 0 \<le> i \<and> i < int (length (m b))"

fun run_moves :: "move list \<Rightarrow> 'd mem \<Rightarrow> 'd mem option" where
  "run_moves [] m = Some m"
| "run_moves ((dst, d, src, s) # ms) m =
     (if in_range m dst d \<and> in_range m src s
      then run_moves ms (m(dst := (m dst)[nat d := m src ! nat s])) else None)"

definition iota :: "int \<Rightarrow> int list" where
  "iota n = map int [0..<nat n]"

definition blen :: "'d mem \<Rightarrow> int \<Rightarrow> int" where
  "blen m b = int (length (m b))"

section \<open>Forward kernels\<close>

text \<open>Each function returns the assignments of its loops, in order; \<open>None\<close> when the context lacks an
  operand or an immediate the kernel dereferences.\<close>

definition index_fwd :: "'u gop \<Rightarrow> 'd mem \<Rightarrow> move list option" where
  "index_fwd op m = (case (in_slots op, idata op) of
     (a # _, Some (f # _)) \<Rightarrow> Some [(out op, 0, a, f)] | _ \<Rightarrow> None)"

definition set_index_fwd :: "'u gop \<Rightarrow> 'd mem \<Rightarrow> move list option" where
  "set_index_fwd op m = (case (in_slots op, idata op) of
     (a # b # _, Some (f # _)) \<Rightarrow>
        Some (map (\<lambda>i. (out op, i, a, i)) (iota (blen m (out op))) @ [(out op, f, b, 0)])
   | _ \<Rightarrow> None)"

definition set_index_inplace_fwd :: "'u gop \<Rightarrow> 'd mem \<Rightarrow> move list option" where
  "set_index_inplace_fwd op m = (case (in_slots op, idata op) of
     (_ # b # _, Some (f # _)) \<Rightarrow> Some [(out op, f, b, 0)] | _ \<Rightarrow> None)"

definition slice_fwd :: "'u gop \<Rightarrow> 'd mem \<Rightarrow> move list option" where
  "slice_fwd op m = (case (in_slots op, idata op) of
     (a # _, Some (start # _)) \<Rightarrow>
        Some (map (\<lambda>i. (out op, i, a, start + i)) (iota (blen m (out op))))
   | _ \<Rightarrow> None)"

definition slice_strided_fwd :: "'u gop \<Rightarrow> 'd mem \<Rightarrow> move list option" where
  "slice_strided_fwd op m = (case (in_slots op, idata op) of
     (a # _, Some (start # stride # _)) \<Rightarrow>
        Some (map (\<lambda>i. (out op, i, a, start + i * stride)) (iota (blen m (out op))))
   | _ \<Rightarrow> None)"

definition gather_fwd :: "'u gop \<Rightarrow> 'd mem \<Rightarrow> move list option" where
  "gather_fwd op m = (case (in_slots op, idata op) of
     (a # _, Some ix) \<Rightarrow>
        (if blen m (out op) \<le> int (length ix)
         then Some (map (\<lambda>k. (out op, k, a, ix ! nat k)) (iota (blen m (out op)))) else None)
   | _ \<Rightarrow> None)"

definition concat2_fwd :: "'u gop \<Rightarrow> 'd mem \<Rightarrow> move list option" where
  "concat2_fwd op m = (case in_slots op of
     a # b # _ \<Rightarrow>
        Some (map (\<lambda>i. (out op, i, a, i)) (iota (blen m a))
            @ map (\<lambda>i. (out op, blen m a + i, b, i)) (iota (blen m b)))
   | _ \<Rightarrow> None)"

definition rep_mat_fwd :: "'u gop \<Rightarrow> 'd mem \<Rightarrow> move list option" where
  "rep_mat_fwd op m = (case (in_slots op, idata op) of
     (v # _, Some (R # C # mode # _)) \<Rightarrow>
        Some (concat (map (\<lambda>j. map (\<lambda>i. (out op, j * R + i, v,
                 if mode = 0 then 0 else if mode = 1 then i else j)) (iota R)) (iota C)))
   | _ \<Rightarrow> None)"

definition set_slice_fwd :: "'u gop \<Rightarrow> 'd mem \<Rightarrow> move list option" where
  "set_slice_fwd op m = (case (in_slots op, idata op) of
     (a # b # _, Some (start # _)) \<Rightarrow>
        Some (map (\<lambda>i. (out op, i, a, i)) (iota (blen m (out op)))
            @ map (\<lambda>i. (out op, start + i, b, i)) (iota (blen m b)))
   | _ \<Rightarrow> None)"

definition set_slice_inplace_fwd :: "'u gop \<Rightarrow> 'd mem \<Rightarrow> move list option" where
  "set_slice_inplace_fwd op m = (case (in_slots op, idata op) of
     (_ # b # _, Some (start # _)) \<Rightarrow>
        Some (map (\<lambda>i. (out op, start + i, b, i)) (iota (blen m b)))
   | _ \<Rightarrow> None)"

definition set_slice_strided_fwd :: "'u gop \<Rightarrow> 'd mem \<Rightarrow> move list option" where
  "set_slice_strided_fwd op m = (case (in_slots op, idata op) of
     (a # b # _, Some (start # stride # _)) \<Rightarrow>
        Some (map (\<lambda>i. (out op, i, a, i)) (iota (blen m (out op)))
            @ map (\<lambda>i. (out op, start + i * stride, b, i)) (iota (blen m b)))
   | _ \<Rightarrow> None)"

definition set_slice_strided_inplace_fwd :: "'u gop \<Rightarrow> 'd mem \<Rightarrow> move list option" where
  "set_slice_strided_inplace_fwd op m = (case (in_slots op, idata op) of
     (_ # b # _, Some (start # stride # _)) \<Rightarrow>
        Some (map (\<lambda>i. (out op, start + i * stride, b, i)) (iota (blen m b)))
   | _ \<Rightarrow> None)"

lemmas fwd_defs = index_fwd_def set_index_fwd_def set_index_inplace_fwd_def slice_fwd_def
  slice_strided_fwd_def gather_fwd_def concat2_fwd_def rep_mat_fwd_def set_slice_fwd_def
  set_slice_inplace_fwd_def set_slice_strided_fwd_def set_slice_strided_inplace_fwd_def

section \<open>Backward kernels\<close>

text \<open>\<open>AddTo d i s j\<close> is \<^verbatim>\<open>d[i] += s[j]\<close> on adjoint buffers, \<open>ClearAt d i\<close> is \<^verbatim>\<open>d[i] = 0.0\<close>. \<open>act s\<close> says that
  slot \<open>s\<close> has an adjoint buffer (the \<^verbatim>\<open>in_adj\<close> pointer is not null).\<close>

datatype adj_step = AddTo int int int int | ClearAt int int

fun run_adj :: "adj_step list \<Rightarrow> ('d::{plus,zero}) mem \<Rightarrow> 'd mem option" where
  "run_adj [] m = Some m"
| "run_adj (AddTo d i s j # xs) m =
     (if in_range m d i \<and> in_range m s j
      then run_adj xs (m(d := (m d)[nat i := m d ! nat i + m s ! nat j])) else None)"
| "run_adj (ClearAt d i # xs) m =
     (if in_range m d i then run_adj xs (m(d := (m d)[nat i := 0])) else None)"

definition index_bwd :: "(int \<Rightarrow> bool) \<Rightarrow> 'u gop \<Rightarrow> 'd mem \<Rightarrow> adj_step list option" where
  "index_bwd act op m = (case (in_slots op, idata op) of
     (a # _, Some (f # _)) \<Rightarrow> Some (if act a then [AddTo a f (out op) 0] else [])
   | _ \<Rightarrow> None)"

definition set_index_bwd :: "(int \<Rightarrow> bool) \<Rightarrow> 'u gop \<Rightarrow> 'd mem \<Rightarrow> adj_step list option" where
  "set_index_bwd act op m = (case (in_slots op, idata op) of
     (a # b # _, Some (f # _)) \<Rightarrow>
        Some ((if act a then map (\<lambda>i. AddTo a i (out op) i)
                               (filter (\<lambda>i. i \<noteq> f) (iota (blen m (out op)))) else [])
            @ (if act b then [AddTo b 0 (out op) f] else []))
   | _ \<Rightarrow> None)"

definition set_index_inplace_bwd ::
    "(int \<Rightarrow> bool) \<Rightarrow> 'u gop \<Rightarrow> 'd mem \<Rightarrow> adj_step list option" where
  "set_index_inplace_bwd act op m = (case (in_slots op, idata op) of
     (_ # b # _, Some (f # _)) \<Rightarrow>
        Some ((if act b then [AddTo b 0 (out op) f] else []) @ [ClearAt (out op) f])
   | _ \<Rightarrow> None)"

definition slice_bwd :: "(int \<Rightarrow> bool) \<Rightarrow> 'u gop \<Rightarrow> 'd mem \<Rightarrow> adj_step list option" where
  "slice_bwd act op m = (case (in_slots op, idata op) of
     (a # _, Some (start # _)) \<Rightarrow>
        Some (if act a then map (\<lambda>i. AddTo a (start + i) (out op) i) (iota (blen m (out op)))
              else [])
   | _ \<Rightarrow> None)"

definition slice_strided_bwd :: "(int \<Rightarrow> bool) \<Rightarrow> 'u gop \<Rightarrow> 'd mem \<Rightarrow> adj_step list option" where
  "slice_strided_bwd act op m = (case (in_slots op, idata op) of
     (a # _, Some (start # stride # _)) \<Rightarrow>
        Some (if act a then map (\<lambda>i. AddTo a (start + i * stride) (out op) i)
                              (iota (blen m (out op))) else [])
   | _ \<Rightarrow> None)"

definition concat2_bwd :: "(int \<Rightarrow> bool) \<Rightarrow> 'u gop \<Rightarrow> 'd mem \<Rightarrow> adj_step list option" where
  \<comment> \<open>\<open>blen m\<close> of an input's adjoint buffer is the input's length\<close>
  "concat2_bwd act op m = (case in_slots op of
     a # b # _ \<Rightarrow>
        Some ((if act a then map (\<lambda>i. AddTo a i (out op) i) (iota (blen m a)) else [])
            @ (if act b then map (\<lambda>i. AddTo b i (out op) (blen m a + i)) (iota (blen m b))
               else []))
   | _ \<Rightarrow> None)"

definition rep_mat_bwd :: "(int \<Rightarrow> bool) \<Rightarrow> 'u gop \<Rightarrow> 'd mem \<Rightarrow> adj_step list option" where
  "rep_mat_bwd act op m = (case (in_slots op, idata op) of
     (v # _, Some (R # C # mode # _)) \<Rightarrow>
        Some (if act v then concat (map (\<lambda>j. map (\<lambda>i. AddTo v
                 (if mode = 0 then 0 else if mode = 1 then i else j) (out op) (j * R + i))
                 (iota R)) (iota C)) else [])
   | _ \<Rightarrow> None)"

definition set_slice_bwd :: "(int \<Rightarrow> bool) \<Rightarrow> 'u gop \<Rightarrow> 'd mem \<Rightarrow> adj_step list option" where
  "set_slice_bwd act op m = (case (in_slots op, idata op) of
     (a # b # _, Some (start # _)) \<Rightarrow>
        Some ((if act a then map (\<lambda>i. AddTo a i (out op) i)
                 (filter (\<lambda>i. i < start \<or> i \<ge> start + blen m b) (iota (blen m (out op))))
               else [])
            @ (if act b then map (\<lambda>i. AddTo b i (out op) (start + i)) (iota (blen m b)) else []))
   | _ \<Rightarrow> None)"

definition set_slice_inplace_bwd ::
    "(int \<Rightarrow> bool) \<Rightarrow> 'u gop \<Rightarrow> 'd mem \<Rightarrow> adj_step list option" where
  "set_slice_inplace_bwd act op m = (case (in_slots op, idata op) of
     (_ # b # _, Some (start # _)) \<Rightarrow>
        Some ((if act b then map (\<lambda>i. AddTo b i (out op) (start + i)) (iota (blen m b)) else [])
            @ map (\<lambda>i. ClearAt (out op) (start + i)) (iota (blen m b)))
   | _ \<Rightarrow> None)"

text \<open>The walk of the overwritten comb beside the vector in \<^verbatim>\<open>set_slice_strided_bwd\<close>: the positions the
  loop accumulates, from \<open>i\<close> on.\<close>

function comb_walk :: "int \<Rightarrow> int \<Rightarrow> int \<Rightarrow> int \<Rightarrow> int \<Rightarrow> int \<Rightarrow> int list" where
  "comb_walk stride l n nxt k i =
     (if i < n then
        (if i = nxt \<and> k < l then comb_walk stride l n (nxt + stride) (k + 1) (i + 1)
         else i # comb_walk stride l n nxt k (i + 1))
      else [])"
  by pat_completeness auto
termination
  by (relation "measure (\<lambda>(stride, l, n, nxt, k, i). nat (n - i))") auto

declare comb_walk.simps [simp del]

definition set_slice_strided_bwd ::
    "(int \<Rightarrow> bool) \<Rightarrow> 'u gop \<Rightarrow> 'd mem \<Rightarrow> adj_step list option" where
  "set_slice_strided_bwd act op m = (case (in_slots op, idata op) of
     (a # b # _, Some (start # stride # _)) \<Rightarrow>
        Some ((if act b then map (\<lambda>i. AddTo b i (out op) (start + i * stride)) (iota (blen m b))
               else [])
            @ (if act a then map (\<lambda>i. AddTo a i (out op) i)
                 (comb_walk stride (blen m b) (blen m (out op)) start 0 0) else []))
   | _ \<Rightarrow> None)"

definition set_slice_strided_inplace_bwd ::
    "(int \<Rightarrow> bool) \<Rightarrow> 'u gop \<Rightarrow> 'd mem \<Rightarrow> adj_step list option" where
  "set_slice_strided_inplace_bwd act op m = (case (in_slots op, idata op) of
     (_ # b # _, Some (start # stride # _)) \<Rightarrow>
        Some ((if act b then map (\<lambda>i. AddTo b i (out op) (start + i * stride)) (iota (blen m b))
               else [])
            @ map (\<lambda>i. ClearAt (out op) (start + i * stride)) (iota (blen m b)))
   | _ \<Rightarrow> None)"

text \<open>
  \<^verbatim>\<open>gather_bwd\<close> sums each run of equal indices before it adds the run to the destination. \<open>gather_run\<close>
  is the inner \<^verbatim>\<open>while\<close>, \<open>gather_scatter\<close> the outer one, on the immediates zipped with the output's
  adjoint.
\<close>

fun gather_run :: "int \<Rightarrow> 'd::plus \<Rightarrow> (int \<times> 'd) list \<Rightarrow> 'd \<times> (int \<times> 'd) list" where
  "gather_run idx s [] = (s, [])"
| "gather_run idx s ((j, x) # xs) = (if j = idx then gather_run idx (s + x) xs else (s, (j, x) # xs))"

lemma gather_run_shorter: "gather_run idx s xs = (t, ys) \<Longrightarrow> length ys \<le> length xs"
  by (induction idx s xs rule: gather_run.induct) (auto split: if_splits)

function gather_scatter :: "(int \<times> 'd::plus) list \<Rightarrow> 'd list \<Rightarrow> 'd list" where
  "gather_scatter [] adj = adj"
| "gather_scatter ((idx, x) # xs) adj =
     (case gather_run idx x xs of (s, ys) \<Rightarrow>
        gather_scatter ys (adj[nat idx := adj ! nat idx + s]))"
  by pat_completeness auto
termination
  by (relation "measure (\<lambda>(xs, adj). length xs)") (auto dest: gather_run_shorter [OF sym])

definition gather_bwd ::
    "(int \<Rightarrow> bool) \<Rightarrow> 'u gop \<Rightarrow> ('d::plus) mem \<Rightarrow> 'd mem option" where
  "gather_bwd act op m = (case (in_slots op, idata op) of
     (a # _, Some ix) \<Rightarrow>
        (if \<not> act a then Some m
         else if length (m (out op)) \<le> length ix
              \<and> list_all (in_range m a) (take (length (m (out op))) ix)
         then Some (m(a := gather_scatter (zip ix (m (out op))) (m a))) else None)
   | _ \<Rightarrow> None)"

end
