(* ===== verification/Sweep.thy ===== *)
theory Sweep
  imports Kernels
begin

text \<open>
  The forward sweep of \<^verbatim>\<open>Executor\<close> (\<^verbatim>\<open>runtime/src/executor.cpp\<close>) over slot-named buffers: which function
  an operation is bound to, one step, and the sweep. Kernels other than the structural ones call
  Stan Math, which is not part of this repository: they are the parameter \<open>K\<close>, a function of what
  the kernel contract of \<^verbatim>\<open>optable.hpp\<close> lets a kernel read (its static description, the input
  values and the output sizes) and of the evaluation state \<open>'w\<close> (random stream, printed text, kernel
  state). \<open>None\<close> stands for a kernel that throws or an access out of range.
\<close>

section \<open>Bound kernels\<close>

text \<open>What a kernel sees of an operation besides its buffers.\<close>

definition op_static :: "'u gop \<Rightarrow> 'u gop" where
  "op_static op = op\<lparr>out := -1, out2 := -1, in_slots := [], primal_source := -1\<rparr>"

type_synonym ('d, 'u, 'w) kern =
  "'u gop \<Rightarrow> 'd list list \<Rightarrow> int \<Rightarrow> int \<Rightarrow> 'w \<Rightarrow> ('d list \<times> 'd list \<times> 'w) option"

definition structural_fwd :: "nat \<Rightarrow> ('u gop \<Rightarrow> 'd mem \<Rightarrow> move list option) option" where
  "structural_fwd oc =
     (if oc = OP_INDEX then Some index_fwd
      else if oc = OP_SET_INDEX then Some set_index_fwd
      else if oc = OP_SET_INDEX_INPLACE then Some set_index_inplace_fwd
      else if oc = OP_SLICE then Some slice_fwd
      else if oc = OP_SET_SLICE then Some set_slice_fwd
      else if oc = OP_SET_SLICE_INPLACE then Some set_slice_inplace_fwd
      else if oc = OP_SET_SLICE_STRIDED then Some set_slice_strided_fwd
      else if oc = OP_SET_SLICE_STRIDED_INPLACE then Some set_slice_strided_inplace_fwd
      else if oc = OP_SLICE_STRIDED then Some slice_strided_fwd
      else if oc = OP_GATHER then Some gather_fwd
      else if oc = OP_CONCAT2 then Some concat2_fwd
      else if oc = OP_REP_MAT then Some rep_mat_fwd
      else None)"

definition out2_len :: "'d mem \<Rightarrow> 'u gop \<Rightarrow> int" where
  "out2_len m op = (if out2 op \<ge> 0 then blen m (out2 op) else 0)"

definition write_outs :: "'u gop \<Rightarrow> 'd list \<Rightarrow> 'd list \<Rightarrow> 'd mem \<Rightarrow> 'd mem" where
  "write_outs op v v2 m =
     (let m1 = m(out op := v) in if out2 op \<ge> 0 then m1(out2 op := v2) else m1)"

text \<open>One bound operation. A kernel fills exactly the buffers it is given.\<close>

definition forward_op ::
    "('d, 'u, 'w) kern \<Rightarrow> 'u gop \<Rightarrow> 'd mem \<times> 'w \<Rightarrow> ('d mem \<times> 'w) option" where
  "forward_op K op s = (case s of (m, w) \<Rightarrow>
     (case structural_fwd (opcode op) of
        Some f \<Rightarrow> (case f op m of None \<Rightarrow> None
                  | Some ms \<Rightarrow> map_option (\<lambda>m'. (m', w)) (run_moves ms m))
      | None \<Rightarrow>
         (case K (op_static op) (map m (in_slots op)) (blen m (out op)) (out2_len m op) w of
            None \<Rightarrow> None
          | Some (v, v2, w') \<Rightarrow>
             (if int (length v) = blen m (out op)
                 \<and> (out2 op \<ge> 0 \<longrightarrow> int (length v2) = blen m (out2 op))
              then Some (write_outs op v v2 m, w') else None))))"

fun run_ops :: "('d, 'u, 'w) kern \<Rightarrow> 'u gop list \<Rightarrow> 'd mem \<times> 'w \<Rightarrow> ('d mem \<times> 'w) option" where
  "run_ops K [] s = Some s"
| "run_ops K (op # rest) s = (case forward_op K op s of None \<Rightarrow> None | Some s' \<Rightarrow> run_ops K rest s')"

section \<open>Reads and writes\<close>

definition touched :: "'u gop \<Rightarrow> int set" where
  "touched op = set (in_slots op) \<union> set (outs op) \<union> {out op}"

lemma out_touched [simp]: "out op \<in> touched op"
  by (simp add: touched_def)

lemma in_touched [simp]: "s \<in> set (in_slots op) \<Longrightarrow> s \<in> touched op"
  by (simp add: touched_def)

lemma out2_touched: "out2 op \<ge> 0 \<Longrightarrow> out2 op \<in> touched op"
  by (simp add: touched_def outs_def)

definition move_dsts :: "move list \<Rightarrow> int set" where
  "move_dsts ms = (\<lambda>(d, _, _, _). d) ` set ms"

definition move_bufs :: "move list \<Rightarrow> int set" where
  "move_bufs ms = (\<Union>(d, _, s, _) \<in> set ms. {d, s})"

lemma run_moves_frame:
  "run_moves ms m = Some m' \<Longrightarrow> b \<notin> move_dsts ms \<Longrightarrow> m' b = m b"
  by (induction ms m rule: run_moves.induct) (auto simp: move_dsts_def split: if_splits)

lemma run_moves_length: "run_moves ms m = Some m' \<Longrightarrow> length (m' b) = length (m b)"
  by (induction ms m rule: run_moves.induct) (auto split: if_splits)

lemma run_moves_append:
  "run_moves (xs @ ys) m = (case run_moves xs m of None \<Rightarrow> None | Some m' \<Rightarrow> run_moves ys m')"
proof (induction xs arbitrary: m)
  case (Cons mv xs)
  then show ?case by (cases mv) (simp del: fun_upd_apply)
qed simp

lemma run_ops_append:
  "run_ops K (xs @ ys) s = (case run_ops K xs s of None \<Rightarrow> None | Some s' \<Rightarrow> run_ops K ys s')"
  by (induction xs arbitrary: s) (auto split: option.splits)

lemma fwd_dsts:
  assumes "structural_fwd oc = Some f" and "f op m = Some ms"
  shows "move_dsts ms \<subseteq> {out op}" and "move_bufs ms \<subseteq> touched op"
proof -
  show "move_dsts ms \<subseteq> {out op}"
    using assms by (auto simp: structural_fwd_def fwd_defs move_dsts_def
        split: if_splits list.splits option.splits)
  show "move_bufs ms \<subseteq> touched op"
    using assms by (auto simp: structural_fwd_def fwd_defs move_bufs_def touched_def
        split: if_splits list.splits option.splits)
qed

lemma forward_op_frame:
  assumes "forward_op K op (m, w) = Some (m', w')" and "b \<notin> set (outs op)" and "b \<noteq> out op"
  shows "m' b = m b"
  using assms
  by (auto simp: forward_op_def write_outs_def Let_def outs_def
      dest!: fwd_dsts(1) run_moves_frame [where b = b] split: option.splits if_splits prod.splits)

lemma forward_op_length:
  assumes "forward_op K op (m, w) = Some (m', w')"
  shows "length (m' b) = length (m b)"
  using assms
  by (auto simp: forward_op_def write_outs_def Let_def blen_def out2_len_def
      dest: run_moves_length split: option.splits if_splits prod.splits)

lemma run_ops_length:
  "run_ops K xs (m, w) = Some (m', w') \<Longrightarrow> length (m' b) = length (m b)"
proof (induction xs arbitrary: m w)
  case (Cons op rest)
  then show ?case
    by (auto dest!: forward_op_length [where b = b] split: option.splits)
qed simp

section \<open>Renaming buffers\<close>

text \<open>An operation under a slot renaming \<open>\<rho>\<close>.\<close>

definition rename_op :: "(int \<Rightarrow> int) \<Rightarrow> 'u gop \<Rightarrow> 'u gop" where
  "rename_op \<rho> op = op\<lparr>out := \<rho> (out op), out2 := (if out2 op \<ge> 0 then \<rho> (out2 op) else out2 op),
     in_slots := map \<rho> (in_slots op)\<rparr>"

definition rename_move :: "(int \<Rightarrow> int) \<Rightarrow> move \<Rightarrow> move" where
  "rename_move \<rho> mv = (case mv of (d, i, s, j) \<Rightarrow> (\<rho> d, i, \<rho> s, j))"

lemma rename_op_simps [simp]:
  "opcode (rename_op \<rho> op) = opcode op" "idata (rename_op \<rho> op) = idata op"
  "out (rename_op \<rho> op) = \<rho> (out op)" "in_slots (rename_op \<rho> op) = map \<rho> (in_slots op)"
  "op_static (rename_op \<rho> op) = op_static op"
  by (simp_all add: rename_op_def op_static_def)

lemma rename_move_tuple [simp]: "rename_move \<rho> (d, i, s, j) = (\<rho> d, i, \<rho> s, j)"
  by (simp add: rename_move_def)

text \<open>Two memories agree under a renaming on a set of buffers.\<close>

definition agree :: "(int \<Rightarrow> int) \<Rightarrow> int set \<Rightarrow> 'd mem \<Rightarrow> 'd mem \<Rightarrow> bool" where
  "agree \<rho> S m m' \<longleftrightarrow> (\<forall>s\<in>S. m s = m' (\<rho> s))"

text \<open>Only a written buffer has to keep a name of its own: two read buffers may be given the same one.\<close>

definition apart :: "(int \<Rightarrow> int) \<Rightarrow> int set \<Rightarrow> int set \<Rightarrow> bool" where
  "apart \<rho> W S \<longleftrightarrow> (\<forall>d\<in>W. \<forall>s\<in>S. \<rho> s = \<rho> d \<longrightarrow> s = d)"

lemma inj_apart: "inj_on \<rho> S \<Longrightarrow> W \<subseteq> S \<Longrightarrow> apart \<rho> W S"
  by (auto simp: apart_def inj_on_def)

lemma run_moves_rename:
  assumes "agree \<rho> S m m'" and "apart \<rho> (move_dsts ms) S" and "move_bufs ms \<subseteq> S"
  shows "rel_option (agree \<rho> S) (run_moves ms m) (run_moves (map (rename_move \<rho>) ms) m')"
  using assms
proof (induction ms arbitrary: m m')
  case Nil
  then show ?case by simp
next
  case (Cons mv ms)
  obtain d i s j where mv: "mv = (d, i, s, j)" by (cases mv) auto
  from Cons.prems mv have ds: "d \<in> S" "s \<in> S" and sub: "move_bufs ms \<subseteq> S"
    by (auto simp: move_bufs_def)
  with Cons.prems(1) have eq: "m d = m' (\<rho> d)" "m s = m' (\<rho> s)"
    by (auto simp: agree_def)
  have "agree \<rho> S (m(d := (m d)[nat i := m s ! nat j]))
          (m'(\<rho> d := (m' (\<rho> d))[nat i := m' (\<rho> s) ! nat j]))"
    using Cons.prems(1,2) ds eq mv by (auto simp: agree_def apart_def move_dsts_def)
  moreover have "apart \<rho> (move_dsts ms) S" using Cons.prems(2) by (auto simp: apart_def move_dsts_def)
  ultimately show ?case
    using Cons.IH [OF _ _ sub] eq mv by (auto simp: in_range_def)
qed

lemma fwd_rename:
  assumes "structural_fwd oc = Some f" and "agree \<rho> (touched op) m m'"
  shows "f (rename_op \<rho> op) m' = map_option (map (rename_move \<rho>)) (f op m)"
proof -
  have "blen m' (\<rho> s) = blen m s" if "s \<in> touched op" for s
    using assms(2) that by (auto simp: agree_def blen_def)
  with assms(1) show ?thesis
    by (auto simp: structural_fwd_def fwd_defs map_concat o_def touched_def
        split: if_splits list.splits option.splits)
qed

lemma forward_op_rename_apart:
  fixes op :: "'u gop" and m m' :: "'d mem"
  assumes "agree \<rho> S m m'" and "apart \<rho> (insert (out op) (set (outs op))) S" and "touched op \<subseteq> S"
    and "out2 op \<ge> 0 \<Longrightarrow> \<rho> (out2 op) \<ge> 0"
  shows "rel_option (\<lambda>(a, x) (b, y). agree \<rho> S a b \<and> x = y)
           (forward_op K op (m, w)) (forward_op K (rename_op \<rho> op) (m', w))"
proof (cases "structural_fwd (opcode op) :: ('u gop \<Rightarrow> 'd mem \<Rightarrow> move list option) option")
  case (Some f)
  have "agree \<rho> (touched op) m m'" using assms(1,3) by (auto simp: agree_def)
  then have f: "f (rename_op \<rho> op) m' = map_option (map (rename_move \<rho>)) (f op m)"
    by (rule fwd_rename [OF Some])
  show ?thesis
  proof (cases "f op m")
    case None
    with Some f show ?thesis by (simp add: forward_op_def)
  next
    case (Some ms)
    note dsts = fwd_dsts [OF \<open>structural_fwd (opcode op) = Some f\<close> Some]
    have "move_bufs ms \<subseteq> S" and "apart \<rho> (move_dsts ms) S"
      using dsts assms(2,3) by (auto simp: apart_def)
    from run_moves_rename [OF assms(1) this(2,1)] f Some \<open>structural_fwd (opcode op) = Some f\<close>
    show ?thesis
      by (auto simp: forward_op_def option.rel_map elim: option.rel_mono_strong)
  qed
next
  case None
  have out: "out op \<in> S" and ins: "map m (in_slots op) = map m' (map \<rho> (in_slots op))"
    using assms(1,3) by (auto simp: agree_def touched_def)
  have o2: "out2 op \<in> S" "m (out2 op) = m' (\<rho> (out2 op))" if "out2 op \<ge> 0"
    using that assms(1,3) out2_touched [of op] by (auto simp: agree_def)
  have lens: "blen m' (\<rho> (out op)) = blen m (out op)"
    "out2_len m' (rename_op \<rho> op) = out2_len m op"
    using assms(1,4) out o2 by (auto simp: agree_def blen_def out2_len_def rename_op_def)
  have ap0: "s = d" if "d \<in> insert (out op) (set (outs op))" "s \<in> S" "\<rho> s = \<rho> d" for s d
    using assms(2) that unfolding apart_def by blast
  have ap: "\<rho> s = \<rho> (out op) \<Longrightarrow> s = out op" "out2 op \<ge> 0 \<Longrightarrow> \<rho> s = \<rho> (out2 op) \<Longrightarrow> s = out2 op" if "s \<in> S" for s
    using ap0 [OF _ that] by (blast, simp add: outs_def)
  have wr: "agree \<rho> S (write_outs op v v2 m) (write_outs (rename_op \<rho> op) v v2 m')" for v v2
    unfolding agree_def
  proof
    fix s assume s: "s \<in> S"
    then have "m s = m' (\<rho> s)" using assms(1) by (simp add: agree_def)
    then show "write_outs op v v2 m s = write_outs (rename_op \<rho> op) v v2 m' (\<rho> s)"
      using ap [OF s] assms(4) by (auto simp: write_outs_def Let_def rename_op_def)
  qed
  have o2': "(out2 (rename_op \<rho> op) \<ge> 0) = (out2 op \<ge> 0)"
    "out2 op \<ge> 0 \<Longrightarrow> blen m' (out2 (rename_op \<rho> op)) = blen m (out2 op)"
    using assms(4) o2 by (auto simp: rename_op_def blen_def)
  have ins': "map (m' \<circ> \<rho>) (in_slots op) = map m (in_slots op)" using ins by simp
  show ?thesis
    using None wr o2' by (auto simp: forward_op_def lens ins' split: option.splits)
qed

lemma forward_op_rename:
  assumes "agree \<rho> S m m'" and "inj_on \<rho> S" and "touched op \<subseteq> S" and "out2 op \<ge> 0 \<Longrightarrow> \<rho> (out2 op) \<ge> 0"
  shows "rel_option (\<lambda>(a, x) (b, y). agree \<rho> S a b \<and> x = y)
           (forward_op K op (m, w)) (forward_op K (rename_op \<rho> op) (m', w))"
proof (rule forward_op_rename_apart [OF assms(1) _ assms(3,4)])
  show "apart \<rho> (insert (out op) (set (outs op))) S"
    using assms(3) by (intro inj_apart [OF assms(2)]) (auto simp: touched_def)
qed

end
