(* ===== verification/Inplace.thy ===== *)
theory Inplace
  imports Sweep
begin

text \<open>
  Destructive functional updates, \<^verbatim>\<open>runtime/src/inplace.cpp\<close>: the pass that turns a copying store into one
  that mutates its base (\<open>make_inplace_updates\<close>), store-to-load forwarding with dead-store
  elimination (\<open>forward_stores_to_loads\<close>) and the removal of stores that cover their whole
  destination (\<open>elide_full_extent_stores\<close>). The C++ loops are functions over an explicit scan
  state; the vectors they keep per slot are lists indexed by slot.
\<close>

section \<open>Store contracts\<close>

definition inplace_form :: "nat \<Rightarrow> nat" where
  "inplace_form oc =
     (if oc = OP_SET_INDEX then OP_SET_INDEX_INPLACE
      else if oc = OP_SET_SLICE then OP_SET_SLICE_INPLACE
      else if oc = OP_SET_SLICE_STRIDED then OP_SET_SLICE_STRIDED_INPLACE
      else 0)"

definition is_inplace_store :: "nat \<Rightarrow> bool" where
  "is_inplace_store oc \<longleftrightarrow> oc = OP_SET_INDEX_INPLACE \<or> oc = OP_SET_SLICE_INPLACE
     \<or> oc = OP_SET_SLICE_STRIDED_INPLACE"

text \<open>C++ division truncates; both operands are positive where the contract divides.\<close>

definition valid_store_contract :: "'u graph \<Rightarrow> 'u gop \<Rightarrow> bool" where
  "valid_store_contract g op =
     (if n_in op \<noteq> 2 \<or> out2 op \<ge> 0 \<or> variant op \<noteq> 0 \<or> udata op \<noteq> None then False
      else
        let a = in_slots op ! 0; b = in_slots op ! 1 in
        if \<not> valid_slot g a \<or> \<not> valid_slot g b \<or> \<not> valid_slot g (out op) then False
        else if is_inplace_store (opcode op)
               \<and> (out op \<noteq> a \<or> b = a \<or> is_param (slot_at g (out op))) then False
        else if \<not> is_inplace_store (opcode op)
               \<and> (out op = a \<or> out op = b \<or> is_param (slot_at g (out op))
                  \<or> len (slot_at g (out op)) \<noteq> len (slot_at g a)) then False
        else
          let base_len = len (slot_at g a); rhs_len = len (slot_at g b) in
          if base_len < 0 \<or> rhs_len < 0 \<or> idata op = None then False
          else if opcode op = OP_SET_INDEX \<or> opcode op = OP_SET_INDEX_INPLACE then
            n_idata op = 1 \<and> rhs_len = 1 \<and> idata_at op 0 \<ge> 0 \<and> idata_at op 0 < base_len
          else if opcode op = OP_SET_SLICE \<or> opcode op = OP_SET_SLICE_INPLACE then
            (if n_idata op \<noteq> 1 \<or> idata_at op 0 < 0 then False
             else idata_at op 0 \<le> base_len \<and> rhs_len \<le> base_len - idata_at op 0)
          else if opcode op = OP_SET_SLICE_STRIDED \<or> opcode op = OP_SET_SLICE_STRIDED_INPLACE then
            (if n_idata op \<noteq> 2 \<or> idata_at op 0 < 0 \<or> idata_at op 1 \<le> 0 then False
             else if rhs_len = 0 then idata_at op 0 \<le> base_len
             else idata_at op 0 < base_len
                  \<and> rhs_len - 1 \<le> (base_len - 1 - idata_at op 0) div idata_at op 1)
          else False)"

definition backward_ignores_values :: "nat \<Rightarrow> bool" where
  "backward_ignores_values oc = has_op_trait oc kBackwardValueFree"

lemma backward_ignores_values_code [code]:
  "backward_ignores_values oc = list_ex (\<lambda>x. x = oc) value_free_list"
  by (simp add: backward_ignores_values_def value_free_opcodes list_ex_iff)

definition backward_ignores_input_values :: "nat \<Rightarrow> bool" where
  "backward_ignores_input_values oc = backward_ignores_values oc"

definition root_set :: "'u graph \<Rightarrow> int list \<Rightarrow> int set" where
  "root_set g roots = set roots \<union> (if result_slot g \<ge> 0 then {result_slot g} else {})"

definition resolve :: "(int \<rightharpoonup> int) \<Rightarrow> int \<Rightarrow> int" where
  "resolve rn s = (case rn s of None \<Rightarrow> s | Some t \<Rightarrow> t)"

section \<open>make_inplace_updates\<close>

fun mark_last_use :: "int \<Rightarrow> int list \<Rightarrow> int list \<Rightarrow> int list" where
  "mark_last_use i [] lu = lu"
| "mark_last_use i (s # ss) lu = mark_last_use i ss (vput lu s i)"

fun last_uses :: "int \<Rightarrow> 'u gop list \<Rightarrow> int list \<Rightarrow> int list" where
  "last_uses i [] lu = lu"
| "last_uses i (op # rest) lu = last_uses (i + 1) rest (mark_last_use i (in_slots op) lu)"

record inplace_state =
  ip_slots :: "Slot list"
  ip_last_use :: "int list"
  ip_rename :: "int \<rightharpoonup> int"
  ip_value_reader :: "bool list"
  ip_safe :: "bool list"              \<comment> \<open>\<^verbatim>\<open>output_safe_producer\<close>\<close>
  ip_rewritten :: nat

definition mark_readers :: "int list \<Rightarrow> bool list \<Rightarrow> bool list" where
  "mark_readers ss vr = foldl (\<lambda>v s. vput v s True) vr ss"

definition mark_fresh_output :: "'u gop \<Rightarrow> bool \<Rightarrow> int \<Rightarrow> bool list \<Rightarrow> bool list" where
  \<comment> \<open>\<open>valid\<close> is \<^verbatim>\<open>valid_existing_inplace\<close>; the operation is the one after input resolution\<close>
  "mark_fresh_output op valid o_slot safe =
     (if o_slot < 0 then safe
      else if o_slot \<in> set (in_slots op) then
        (if is_inplace_store (opcode op) \<and> valid then safe else vput safe o_slot False)
      else vput safe o_slot (valid \<and> backward_ignores_values (opcode op)))"

definition clear_out2 :: "'u gop \<Rightarrow> bool list \<Rightarrow> bool list" where
  "clear_out2 op safe = (if out2 op \<ge> 0 then vput safe (out2 op) False else safe)"

text \<open>The operation after its inputs, and the alias of an existing destructive store, are resolved.\<close>

definition inplace_alias :: "'u gop \<Rightarrow> bool" where
  "inplace_alias op \<longleftrightarrow> is_inplace_store (opcode op) \<and> out op \<ge> 0
     \<and> out op = (if n_in op > 0 then in_slots op ! 0 else -1)"

definition resolve_op :: "(int \<rightharpoonup> int) \<Rightarrow> 'u gop \<Rightarrow> 'u gop" where
  "resolve_op rn op =
     (let op1 = op\<lparr>in_slots := map (resolve rn) (in_slots op)\<rparr>
      in if inplace_alias op then op1\<lparr>out := in_slots op1 ! 0\<rparr> else op1)"

definition inplace_step ::
    "'u graph \<Rightarrow> int set \<Rightarrow> int \<Rightarrow> 'u gop \<Rightarrow> inplace_state \<Rightarrow> 'u gop \<times> inplace_state" where
  "inplace_step g roots i op0 st =
     (let op = resolve_op (ip_rename st) op0;
          gs = g\<lparr>slots := ip_slots st\<rparr>;
          valid = (\<not> is_inplace_store (opcode op)
                   \<or> (inplace_alias op0 \<and> valid_store_contract gs op));
          routes_only = (backward_ignores_values (opcode op) \<and> valid);
          form = inplace_form (opcode op);
          kept = st\<lparr>ip_safe := clear_out2 op (mark_fresh_output op valid (out op) (ip_safe st))\<rparr>
      in if form = 0 then
           (op, kept\<lparr>ip_value_reader :=
                  (if routes_only then ip_value_reader st
                   else mark_readers (in_slots op) (ip_value_reader st))\<rparr>)
         else
           let vec = in_slots op ! 0;
               eligible = (valid_store_contract gs op \<and> in_slots op ! 1 \<noteq> vec
                 \<and> vget False (ip_safe st) vec \<and> \<not> is_param (slot_at gs vec)
                 \<and> vec \<notin> roots \<and> out op \<notin> roots
                 \<and> vget (-1) (ip_last_use st) vec = i
                 \<and> \<not> vget False (ip_value_reader st) vec)
           in if \<not> eligible then (op, kept)
              else (op\<lparr>opcode := form, out := vec\<rparr>,
                    st\<lparr>ip_rename := (ip_rename st)(out op \<mapsto> vec),
                       ip_last_use := vput (ip_last_use st) vec
                          (max (vget (-1) (ip_last_use st) vec)
                               (vget (-1) (ip_last_use st) (out op))),
                       ip_slots := vput (ip_slots st) (out op)
                          ((slot_at gs (out op))\<lparr>len := 0\<rparr>),
                       ip_rewritten := ip_rewritten st + 1\<rparr>))"

fun inplace_scan ::
    "'u graph \<Rightarrow> int set \<Rightarrow> int \<Rightarrow> 'u gop list \<Rightarrow> inplace_state \<Rightarrow> 'u gop list \<times> inplace_state" where
  "inplace_scan g roots i [] st = ([], st)"
| "inplace_scan g roots i (op # rest) st =
     (case inplace_step g roots i op st of (op', st') \<Rightarrow>
        (case inplace_scan g roots (i + 1) rest st' of (rest', st'') \<Rightarrow> (op' # rest', st'')))"

definition inplace_init :: "'u graph \<Rightarrow> inplace_state" where
  "inplace_init g =
     \<lparr>ip_slots = slots g,
      ip_last_use = last_uses 0 (ops g) (replicate (length (slots g)) (-1)),
      ip_rename = Map.empty,
      ip_value_reader = replicate (length (slots g)) False,
      ip_safe = replicate (length (slots g)) False,
      ip_rewritten = 0\<rparr>"

text \<open>\<open>disabled\<close> is the presence of \<^verbatim>\<open>STANLI_NO_INPLACE\<close> in the environment.\<close>

definition make_inplace_updates ::
    "bool \<Rightarrow> 'u graph \<Rightarrow> int list \<Rightarrow> 'u graph \<times> nat" where
  "make_inplace_updates disabled g roots =
     (if disabled then (g, 0)
      else case inplace_scan g (root_set g roots) 0 (ops g) (inplace_init g) of (os, st) \<Rightarrow>
        (g\<lparr>slots := ip_slots st, ops := os\<rparr>, ip_rewritten st))"

section \<open>Single assignment\<close>

text \<open>
  What lowering guarantees and the pass relies on: apart from the destructive stores, which name
  their base as output, an operation writes slots no earlier operation has touched.
\<close>

fun sa_from :: "int set \<Rightarrow> 'u gop list \<Rightarrow> bool" where
  "sa_from seen [] = True"
| "sa_from seen (op # rest) =
     ((if is_inplace_store (opcode op) then inplace_alias op \<and> out2 op < 0
       else out op \<notin> seen \<and> out op \<notin> set (in_slots op)
            \<and> (out2 op \<ge> 0 \<longrightarrow> out2 op \<notin> seen \<and> out2 op \<notin> set (in_slots op) \<and> out2 op \<noteq> out op))
      \<and> sa_from (seen \<union> touched op) rest)"

definition single_assignment :: "'u graph \<Rightarrow> bool" where
  "single_assignment g = sa_from {} (ops g)"

definition sized_mem :: "'u graph \<Rightarrow> 'd mem \<Rightarrow> bool" where
  "sized_mem g m \<longleftrightarrow> (\<forall>s \<in> {0..<int (length (slots g))}. int (length (m s)) = len (slot_at g s))"

definition later :: "'u gop list \<Rightarrow> int set \<Rightarrow> int set" where
  "later rest roots = (\<Union>op \<in> set rest. touched op) \<union> roots"

lemma later_Cons [simp]: "later (op # rest) roots = touched op \<union> later rest roots"
  by (auto simp: later_def)

text \<open>A seen slot that occurs later is read there.\<close>

lemma sa_from_later_read:
  assumes "sa_from seen rest" and "s \<in> seen" and "s \<in> touched op" and "op \<in> set rest"
  shows "s \<in> set (in_slots op)"
  using assms
proof (induction rest arbitrary: seen)
  case (Cons x rest)
  show ?case
  proof (cases "op = x")
    case True
    with Cons.prems show ?thesis
      by (cases "in_slots op") (auto simp: touched_def outs_def inplace_alias_def split: if_splits)
  next
    case False
    with Cons.prems show ?thesis by (auto intro: Cons.IH [of "seen \<union> touched x"])
  qed
qed simp

section \<open>Destructive kernels do what the copying ones do\<close>

lemma iota_simps [simp]: "set (iota n) = {0..<n}" "length (iota n) = nat n"
proof -
  have "int ` {0..<nat n} = {0..<n}"
  proof (intro set_eqI iffI)
    fix x assume "x \<in> {0..<n}"
    then have "x = int (nat x)" "nat x \<in> {0..<nat n}" by auto
    then show "x \<in> int ` {0..<nat n}" by blast
  qed auto
  then show "set (iota n) = {0..<n}" by (simp add: iota_def)
  show "length (iota n) = nat n" by (simp add: iota_def)
qed

lemma copy_loop:
  assumes "o_slot \<noteq> a" and "length (m o_slot) = length (m a)"
  shows "run_moves (map (\<lambda>i. (o_slot, i, a, i)) (iota (blen m o_slot))) m = Some (m(o_slot := m a))"
proof -
  have "run_moves (map (\<lambda>i. (o_slot, int i, a, int i)) [0..<k]) m
        = Some (m(o_slot := take k (m a) @ drop k (m o_slot)))" if "k \<le> length (m a)" for k
    using that
  proof (induction k)
    case (Suc k)
    let ?m = "m(o_slot := take k (m a) @ drop k (m o_slot))"
    have "(take k (m a) @ drop k (m o_slot))[k := m a ! k]
        = take (Suc k) (m a) @ drop (Suc k) (m o_slot)"
      using Suc.prems assms(2)
      by (simp add: list_update_append take_Suc_conv_app_nth Cons_nth_drop_Suc [symmetric])
    then show ?case
      using Suc assms by (auto simp: run_moves_append in_range_def fun_eq_iff)
  qed (simp add: fun_upd_idem)
  from this [of "length (m a)"] assms(2) show ?thesis
    by (simp add: iota_def blen_def o_def)
qed

text \<open>The store proper: what both forms of a kernel write after the optional copy.\<close>

definition store_moves :: "'u gop \<Rightarrow> 'd mem \<Rightarrow> move list" where
  "store_moves op m = (let b = in_slots op ! 1; f = idata_at op 0 in
     if opcode op = OP_SET_INDEX then [(out op, f, b, 0)]
     else if opcode op = OP_SET_SLICE then map (\<lambda>i. (out op, f + i, b, i)) (iota (blen m b))
     else map (\<lambda>i. (out op, f + i * idata_at op 1, b, i)) (iota (blen m b)))"

lemma two_inputs: "n_in op = 2 \<Longrightarrow> \<exists>a b. in_slots op = [a, b]"
  by (cases "in_slots op"; cases "tl (in_slots op)") auto

lemma contract_idata:
  assumes "valid_store_contract g op"
  shows "n_in op = 2" and "\<exists>xs. idata op = Some (idata_at op 0 # xs)"
    and "opcode op = OP_SET_SLICE_STRIDED \<Longrightarrow>
           \<exists>xs. idata op = Some (idata_at op 0 # idata_at op 1 # xs)"
    and "out2 op < 0"
  using assms
  by (auto simp: valid_store_contract_def Let_def n_idata_def idata_at_def vget_def length_Suc_conv
        numeral_2_eq_2 split: if_splits option.splits)

lemma contract_slots:
  assumes "valid_store_contract g op" and "\<not> is_inplace_store (opcode op)"
  shows "out op \<noteq> in_slots op ! 0" and "out op \<noteq> in_slots op ! 1"
    and "len (slot_at g (out op)) = len (slot_at g (in_slots op ! 0))"
    and "valid_slot g (in_slots op ! 0)" and "valid_slot g (in_slots op ! 1)"
    and "valid_slot g (out op)"
  using assms by (auto simp: valid_store_contract_def Let_def split: if_splits)

lemma inplace_form_cases:
  assumes "inplace_form oc \<noteq> 0"
  obtains "oc = OP_SET_INDEX" | "oc = OP_SET_SLICE" | "oc = OP_SET_SLICE_STRIDED"
  using assms by (auto simp: inplace_form_def split: if_splits)

lemma inplace_form_not_inplace: "inplace_form oc \<noteq> 0 \<Longrightarrow> \<not> is_inplace_store oc"
  by (auto simp: inplace_form_def is_inplace_store_def split: if_splits)

text \<open>The immediates a store kernel dereferences.\<close>

definition store_shape :: "'u gop \<Rightarrow> bool" where
  "store_shape op \<longleftrightarrow> n_in op = 2 \<and> inplace_form (opcode op) \<noteq> 0
     \<and> (\<exists>xs. idata op = Some (idata_at op 0 # xs))
     \<and> (opcode op = OP_SET_SLICE_STRIDED \<longrightarrow>
          (\<exists>xs. idata op = Some (idata_at op 0 # idata_at op 1 # xs)))"

lemma contract_shape:
  "valid_store_contract g op \<Longrightarrow> inplace_form (opcode op) \<noteq> 0 \<Longrightarrow> store_shape op"
  using contract_idata unfolding store_shape_def by blast

lemma store_shape_rename [simp]: "store_shape (rename_op \<rho> op) = store_shape op"
  by (simp add: store_shape_def idata_at_def)

lemma copying_store_fwd:
  assumes sh: "store_shape op" and ne: "out op \<noteq> in_slots op ! 0"
    and len: "length (m (out op)) = length (m (in_slots op ! 0))"
  shows "forward_op K op (m, w) =
           map_option (\<lambda>m'. (m', w)) (run_moves (store_moves op m) (m(out op := m (in_slots op ! 0))))"
proof -
  note cp = copy_loop [OF ne len]
  from sh have form: "inplace_form (opcode op) \<noteq> 0" by (simp add: store_shape_def)
  from sh obtain a b xs where ins: "in_slots op = [a, b]"
    and id: "idata op = Some (idata_at op 0 # xs)"
    using two_inputs unfolding store_shape_def by blast
  from form show ?thesis
  proof (cases rule: inplace_form_cases)
    case 1
    with ins id cp show ?thesis
      by (simp add: forward_op_def structural_fwd_def set_index_fwd_def run_moves_append
          store_moves_def del: run_moves.simps split: list.splits)
  next
    case 2
    with ins id cp show ?thesis
      by (simp add: forward_op_def structural_fwd_def set_slice_fwd_def run_moves_append
          store_moves_def split: list.splits)
  next
    case 3
    with sh obtain ys where "idata op = Some (idata_at op 0 # idata_at op 1 # ys)"
      by (auto simp: store_shape_def)
    with 3 ins cp show ?thesis
      by (simp add: forward_op_def structural_fwd_def set_slice_strided_fwd_def run_moves_append
          store_moves_def split: list.splits)
  qed
qed

lemma destructive_store_fwd:
  assumes sh: "store_shape op"
  shows "forward_op K (op\<lparr>opcode := inplace_form (opcode op), out := v\<rparr>) (m, w) =
           map_option (\<lambda>m'. (m', w)) (run_moves (store_moves (op\<lparr>out := v\<rparr>) m) m)"
proof -
  from sh have form: "inplace_form (opcode op) \<noteq> 0" by (simp add: store_shape_def)
  from sh obtain a b xs where ins: "in_slots op = [a, b]"
    and id: "idata op = Some (idata_at op 0 # xs)"
    using two_inputs unfolding store_shape_def by blast
  have [simp]: "idata_at (op\<lparr>out := v\<rparr>) k = idata_at op k" for k
    by (simp add: idata_at_def)
  from form show ?thesis
  proof (cases rule: inplace_form_cases)
    case 1
    with ins id show ?thesis
      by (simp add: forward_op_def structural_fwd_def set_index_inplace_fwd_def inplace_form_def
          store_moves_def del: run_moves.simps split: list.splits)
  next
    case 2
    with ins id show ?thesis
      by (simp add: forward_op_def structural_fwd_def set_slice_inplace_fwd_def inplace_form_def
          store_moves_def split: list.splits)
  next
    case 3
    with sh obtain ys where "idata op = Some (idata_at op 0 # idata_at op 1 # ys)"
      by (auto simp: store_shape_def)
    with 3 ins show ?thesis
      by (simp add: forward_op_def structural_fwd_def set_slice_strided_inplace_fwd_def
          inplace_form_def store_moves_def split: list.splits)
  qed
qed

section \<open>The scan invariant\<close>

text \<open>Index \<open>k\<close> reads slot \<open>s\<close> in \<open>rest\<close>, whose first operation has index \<open>i\<close>.\<close>

definition reads_at :: "int \<Rightarrow> 'u gop list \<Rightarrow> int \<Rightarrow> int \<Rightarrow> bool" where
  "reads_at i rest k s \<longleftrightarrow> i \<le> k \<and> k < i + int (length rest) \<and> s \<in> set (in_slots (rest ! nat (k - i)))"

lemma reads_at_Cons:
  "reads_at i (op # rest) k s \<longleftrightarrow>
     (k = i \<and> s \<in> set (in_slots op)) \<or> reads_at (i + 1) rest k s"
proof (cases "k \<le> i")
  case True
  then show ?thesis by (auto simp: reads_at_def)
next
  case False
  then have "nat (k - i) = Suc (nat (k - (i + 1)))" by simp
  with False show ?thesis by (auto simp: reads_at_def)
qed

lemma reads_at_index: "reads_at i rest k s \<Longrightarrow> i \<le> k"
  by (simp add: reads_at_def)

lemma reads_at_later: "reads_at i rest k s \<Longrightarrow> s \<in> later rest roots"
  by (fastforce simp: reads_at_def later_def touched_def)

lemma read_later:
  assumes "op \<in> set rest" and "s \<in> set (in_slots op)"
  shows "\<exists>k. reads_at i rest k s"
proof -
  from assms(1) obtain n where "n < length rest" "rest ! n = op" by (auto simp: in_set_conv_nth)
  with assms(2) have "reads_at i rest (i + int n) s" by (simp add: reads_at_def)
  then show ?thesis ..
qed

definition ip_inv ::
    "'u graph \<Rightarrow> int set \<Rightarrow> int \<Rightarrow> 'u gop list \<Rightarrow> int set \<Rightarrow> inplace_state \<Rightarrow> bool" where
  "ip_inv g roots i rest seen st \<longleftrightarrow>
     inj_on (resolve (ip_rename st)) (later rest roots)
     \<and> dom (ip_rename st) \<subseteq> seen - roots
     \<and> (\<forall>k s. reads_at i rest k s \<longrightarrow> k \<le> vget (-1) (ip_last_use st) (resolve (ip_rename st) s))
     \<and> length (ip_slots st) = length (slots g)
     \<and> length (ip_last_use st) = length (slots g)
     \<and> (\<forall>s. s \<notin> dom (ip_rename st) \<longrightarrow> slot_at (g\<lparr>slots := ip_slots st\<rparr>) s = slot_at g s)
     \<and> (\<forall>s. valid_slot g s \<longrightarrow> valid_slot g (resolve (ip_rename st) s))
     \<and> (\<forall>t \<in> ran (ip_rename st). t \<notin> dom (ip_rename st) \<and> t \<in> seen)"

lemma resolve_id: "s \<notin> dom rn \<Longrightarrow> resolve rn s = s"
  by (simp add: resolve_def domIff)

lemma resolve_upd: "resolve (rn(a \<mapsto> b)) = (resolve rn)(a := b)"
  by (auto simp: resolve_def fun_eq_iff)

lemma resolve_not_dom:
  assumes "\<forall>t \<in> ran rn. t \<notin> dom rn"
  shows "resolve rn s \<notin> dom rn"
  using assms by (auto simp: resolve_def ran_def split: option.splits)

text \<open>An operation that is not rewritten is renamed.\<close>

lemma resolve_op_rename:
  assumes "sa_from seen (op # rest)" and "dom rn \<subseteq> seen"
  shows "resolve_op rn op = rename_op (resolve rn) op"
proof (cases "is_inplace_store (opcode op)")
  case True
  with assms(1) have al: "inplace_alias op" and o2: "out2 op < 0" by auto
  then obtain a xs where "in_slots op = a # xs" "out op = a"
    by (cases "in_slots op") (auto simp: inplace_alias_def split: if_splits)
  with al o2 show ?thesis by (simp add: resolve_op_def rename_op_def)
next
  case False
  with assms have "resolve rn (out op) = out op"
    "out2 op \<ge> 0 \<Longrightarrow> resolve rn (out2 op) = out2 op"
    by (auto intro!: resolve_id)
  with False show ?thesis by (simp add: resolve_op_def rename_op_def inplace_alias_def)
qed

text \<open>What \<open>inplace_step\<close> does, in the two cases.\<close>

lemma inplace_step_cases:
  assumes "inplace_step g roots i op0 st = (op', st')"
  defines "op \<equiv> resolve_op (ip_rename st) op0"
  obtains
    (keep) "op' = op" "ip_rename st' = ip_rename st" "ip_last_use st' = ip_last_use st"
      "ip_slots st' = ip_slots st"
  | (rewrite) v where "inplace_form (opcode op) \<noteq> 0" "v = in_slots op ! 0"
      "op' = op\<lparr>opcode := inplace_form (opcode op), out := v\<rparr>"
      "valid_store_contract (g\<lparr>slots := ip_slots st\<rparr>) op" "in_slots op ! 1 \<noteq> v"
      "v \<notin> roots" "out op \<notin> roots" "vget (-1) (ip_last_use st) v = i"
      "vget False (ip_safe st) v"
      "ip_rename st' = (ip_rename st)(out op \<mapsto> v)"
      "ip_last_use st' = vput (ip_last_use st) v (max i (vget (-1) (ip_last_use st) (out op)))"
      "ip_slots st' = vput (ip_slots st) (out op)
         ((slot_at (g\<lparr>slots := ip_slots st\<rparr>) (out op))\<lparr>len := 0\<rparr>)"
  using assms unfolding inplace_step_def op_def [symmetric]
  by (auto simp: Let_def split: if_splits)

lemma ip_inv_keep:
  assumes "ip_inv g roots i (op # rest) seen st"
    and "ip_rename st' = ip_rename st" "ip_last_use st' = ip_last_use st"
      "ip_slots st' = ip_slots st"
  shows "ip_inv g roots (i + 1) rest (seen \<union> touched op) st'"
  using assms unfolding ip_inv_def
  by (auto simp: reads_at_Cons inj_on_Un)

text \<open>The rewritten base is dead afterwards, and nothing else later is renamed onto it.\<close>

lemma rewrite_base_dead:
  assumes inv: "ip_inv g roots i (op0 # rest) seen st" and sa: "sa_from seen (op0 # rest)"
    and v0: "v0 \<in> set (in_slots op0)" and v: "v = resolve (ip_rename st) v0"
    and "v \<notin> roots" and lu: "vget (-1) (ip_last_use st) v = i"
  shows "v0 \<notin> later rest roots"
    and "t \<in> later rest roots \<Longrightarrow> resolve (ip_rename st) t \<noteq> v"
proof -
  have "v0 \<notin> roots"
  proof
    assume "v0 \<in> roots"
    with inv have "resolve (ip_rename st) v0 = v0" by (intro resolve_id) (auto simp: ip_inv_def)
    with v \<open>v0 \<in> roots\<close> assms(5) show False by simp
  qed
  moreover have False if "op \<in> set rest" "v0 \<in> touched op" for op
  proof -
    from sa v0 have "sa_from (seen \<union> touched op0) rest" "v0 \<in> seen \<union> touched op0" by auto
    from sa_from_later_read [OF this that(2,1)] have "v0 \<in> set (in_slots op)" .
    from read_later [OF that(1) this] obtain k where k: "reads_at (i + 1) rest k v0" by blast
    with inv have "k \<le> vget (-1) (ip_last_use st) v"
      by (auto simp: ip_inv_def reads_at_Cons v)
    with lu reads_at_index [OF k] show False by simp
  qed
  ultimately show dead: "v0 \<notin> later rest roots" by (auto simp: later_def)
  show "resolve (ip_rename st) t \<noteq> v" if "t \<in> later rest roots"
  proof
    assume "resolve (ip_rename st) t = v"
    with inv v v0 that have "t = v0"
      by (auto simp: ip_inv_def inj_on_def touched_def)
    with that dead show False by simp
  qed
qed

lemma ip_inv_rewrite:
  assumes inv: "ip_inv g roots i (op0 # rest) seen st" and sa: "sa_from seen (op0 # rest)"
    and v0: "v0 \<in> set (in_slots op0)" and v: "v = resolve (ip_rename st) v0"
    and vr: "v \<notin> roots" and lu: "vget (-1) (ip_last_use st) v = i"
    and os: "out op0 \<notin> roots" "\<not> is_inplace_store (opcode op0)"
    and val: "valid_slot g v" and vseen: "v \<in> seen" and vo: "v \<noteq> out op0"
    and st': "ip_rename st' = (ip_rename st)(out op0 \<mapsto> v)"
      "ip_last_use st' = vput (ip_last_use st) v (max i (vget (-1) (ip_last_use st) (out op0)))"
      "ip_slots st' = vput (ip_slots st) (out op0)
         ((slot_at (g\<lparr>slots := ip_slots st\<rparr>) (out op0))\<lparr>len := 0\<rparr>)"
  shows "ip_inv g roots (i + 1) rest (seen \<union> touched op0) st'"
proof -
  let ?r = "resolve (ip_rename st)"
  note dead = rewrite_base_dead [OF inv sa v0 v vr lu]
  have o_nd: "out op0 \<notin> dom (ip_rename st)" using inv sa os by (auto simp: ip_inv_def)
  have ro: "?r (out op0) = out op0" using o_nd by (rule resolve_id)
  have inj: "inj_on ?r (later (op0 # rest) roots)" using inv by (simp add: ip_inv_def)
  have 1: "inj_on (resolve (ip_rename st')) (later rest roots)"
    using inj dead(2) by (auto simp: st' resolve_upd inj_on_def)
  have v_nd: "v \<notin> dom (ip_rename st')"
    using resolve_not_dom [of "ip_rename st" v0] inv vo by (auto simp: ip_inv_def v st')
  have 2: "dom (ip_rename st') \<subseteq> seen \<union> touched op0 - roots"
    using inv os by (auto simp: ip_inv_def st')
  have 3: "k \<le> vget (-1) (ip_last_use st') (resolve (ip_rename st') s)"
    if r: "reads_at (i + 1) rest k s" for k s
  proof -
    have k: "k \<le> vget (-1) (ip_last_use st) (?r s)"
      using inv r by (auto simp: ip_inv_def reads_at_Cons)
    have "s \<in> later rest roots" using r by (rule reads_at_later)
    then have "?r s \<noteq> v" by (rule dead(2))
    moreover have "0 \<le> v" "nat v < length (ip_last_use st)"
      using val inv by (auto simp: valid_slot_def ip_inv_def)
    ultimately show ?thesis
      using k ro by (cases "s = out op0") (auto simp: st' resolve_upd slot_simps)
  qed
  have 4: "slot_at (g\<lparr>slots := ip_slots st'\<rparr>) s = slot_at g s" if "s \<notin> dom (ip_rename st')" for s
  proof -
    from that have "s \<noteq> out op0" "s \<notin> dom (ip_rename st)" by (auto simp: st')
    with inv show ?thesis by (auto simp: ip_inv_def slot_at_def st' slot_simps)
  qed
  have 5: "t \<notin> dom (ip_rename st') \<and> t \<in> seen \<union> touched op0" if "t \<in> ran (ip_rename st')" for t
  proof -
    from that o_nd have "t = v \<or> t \<in> ran (ip_rename st)"
      by (auto simp: st' ran_def split: if_splits)
    moreover have "t \<noteq> out op0" if "t \<in> ran (ip_rename st)"
      using that inv sa os(2) by (auto simp: ip_inv_def)
    ultimately show ?thesis
      using inv v_nd vseen by (auto simp: ip_inv_def st' simp del: fun_upd_apply)
  qed
  show ?thesis
    unfolding ip_inv_def using inv 1 2 3 4 5 val
    by (auto simp: ip_inv_def st' resolve_upd)
qed

text \<open>One step of the scan is simulated by one step of the rewritten graph.\<close>

lemma rewrite_agree:
  fixes m m' :: "'d mem"
  assumes inj: "inj_on \<rho> (touched op0 \<union> L)" and ag: "agree \<rho> (touched op0 \<union> L) m m'"
    and op: "op = rename_op \<rho> op0" and vs: "valid_store_contract gs op"
    and form: "inplace_form (opcode op) \<noteq> 0" and v: "v = in_slots op ! 0"
    and b: "in_slots op ! 1 \<noteq> v"
    and ro: "\<rho> (out op0) = out op0"
    and dead: "\<And>t. t \<in> L \<Longrightarrow> \<rho> t \<noteq> v"
    and lens: "length (m (out op0)) = length (m (in_slots op0 ! 0))"
  shows "rel_option (\<lambda>(a, x) (b, y). agree (\<rho>(out op0 := v)) L a b \<and> x = y)
           (forward_op K op0 (m, w))
           (forward_op K (op\<lparr>opcode := inplace_form (opcode op), out := v\<rparr>) (m', w))"
proof -
  obtain a c where ins: "in_slots op0 = [a, c]"
    using two_inputs [of op] contract_idata(1) [OF vs] by (auto simp: op)
  note ni = inplace_form_not_inplace [OF form]
  note cs = contract_slots [OF vs ni]
  have sh: "store_shape op0" using contract_shape [OF vs form] by (simp add: op)
  let ?o = "out op0"
  have dsts: "move_dsts (store_moves op0 m) \<subseteq> {?o}"
    and dsts': "move_dsts (store_moves (op\<lparr>out := v\<rparr>) m') \<subseteq> {v}"
    by (auto simp: move_dsts_def store_moves_def Let_def)
  have ne: "?o \<noteq> a" "?o \<noteq> c" using cs(1,2) ro ins by (auto simp: op)
  have va: "v = \<rho> a" "\<rho> c \<noteq> v" using v b ins by (auto simp: op)
  have eq: "m a = m' v" "m c = m' (\<rho> c)" using ag ins va by (auto simp: agree_def touched_def)
  let ?r = "\<rho>(?o := v)"
  have "rel_option (agree ?r {?o, c}) (run_moves (store_moves op0 m) (m(?o := m a)))
          (run_moves (map (rename_move ?r) (store_moves op0 m)) m')"
  proof (rule run_moves_rename)
    show "agree ?r {?o, c} (m(?o := m a)) m'" using eq ne va by (auto simp: agree_def)
    show "apart ?r (move_dsts (store_moves op0 m)) {?o, c}" using va ne dsts by (auto simp: apart_def)
    show "move_bufs (store_moves op0 m) \<subseteq> {?o, c}"
      using ins by (auto simp: move_bufs_def store_moves_def Let_def)
  qed
  moreover have "map (rename_move ?r) (store_moves op0 m) = store_moves (op\<lparr>out := v\<rparr>) m'"
    using ins ne eq va
    by (auto simp: store_moves_def Let_def op idata_at_def blen_def o_def)
  moreover have "opcode op = opcode op0" by (simp add: op)
  moreover have "forward_op K op0 (m, w) = map_option (\<lambda>m'. (m', w))
      (run_moves (store_moves op0 m) (m(?o := m a)))"
    using copying_store_fwd [of op0 m K w] sh ne lens ins by simp
  moreover have "agree ?r L x y"
    if "agree ?r {?o, c} x y" and mx: "run_moves (store_moves op0 m) (m(?o := m a)) = Some x"
      and my: "run_moves (store_moves (op\<lparr>out := v\<rparr>) m') m' = Some y" for x y
  proof -
    have "x t = y (?r t)" if "t \<in> L" for t
    proof (cases "t = ?o")
      case False
      have "x t = m t" using run_moves_frame [OF mx, of t] False dsts by auto
      moreover have "y (\<rho> t) = m' (\<rho> t)"
        using run_moves_frame [OF my, of "\<rho> t"] dead [OF that] dsts' by auto
      ultimately show ?thesis using False ag that by (auto simp: agree_def)
    qed (use \<open>agree ?r {?o, c} x y\<close> in \<open>auto simp: agree_def\<close>)
    then show ?thesis by (simp add: agree_def)
  qed
  ultimately show ?thesis
    using destructive_store_fwd [of op K v m' w] sh op
    by (cases "run_moves (store_moves op0 m) (m(?o := m a))"; cases "run_moves (store_moves (op\<lparr>out := v\<rparr>) m') m'") auto
qed

lemma inplace_step_sim:
  assumes inv: "ip_inv g roots i (op0 # rest) seen st" and sa: "sa_from seen (op0 # rest)"
    and ag: "agree (resolve (ip_rename st)) (later (op0 # rest) roots) m m'"
    and step: "inplace_step g roots i op0 st = (op', st')"
    and size: "sized_mem g m" "sized_mem g m'" and wf: "wf_op g op0"
    and safe: "\<forall>s. vget False (ip_safe st) s \<longrightarrow> s \<in> seen"
  shows "ip_inv g roots (i + 1) rest (seen \<union> touched op0) st'"
    and "rel_option (\<lambda>(a, x) (b, y). agree (resolve (ip_rename st')) (later rest roots) a b \<and> x = y)
           (forward_op K op0 (m, w)) (forward_op K op' (m', w))"
proof -
  let ?r = "resolve (ip_rename st)"
  let ?op = "resolve_op (ip_rename st) op0"
  have dom: "dom (ip_rename st) \<subseteq> seen" using inv by (auto simp: ip_inv_def)
  have op: "?op = rename_op ?r op0" by (rule resolve_op_rename [OF sa dom])
  have inj: "inj_on ?r (touched op0 \<union> later rest roots)" using inv by (simp add: ip_inv_def)
  have "ip_inv g roots (i + 1) rest (seen \<union> touched op0) st' \<and>
    rel_option (\<lambda>(a, x) (b, y). agree (resolve (ip_rename st')) (later rest roots) a b \<and> x = y)
           (forward_op K op0 (m, w)) (forward_op K op' (m', w))"
    using step
  proof (cases rule: inplace_step_cases)
    case keep
    have o2: "?r (out2 op0) \<ge> 0" if "out2 op0 \<ge> 0"
    proof -
      from that wf inv have "valid_slot g (?r (out2 op0))" by (auto simp: wf_op_def ip_inv_def)
      then show ?thesis by (simp add: valid_slot_def)
    qed
    have "rel_option (\<lambda>(a, x) (b, y). agree ?r (touched op0 \<union> later rest roots) a b \<and> x = y)
           (forward_op K op0 (m, w)) (forward_op K op' (m', w))"
      using forward_op_rename [OF ag [unfolded later_Cons] inj _ o2, where K = K and w = w] keep op
      by simp
    then have "rel_option (\<lambda>(a, x) (b, y). agree (resolve (ip_rename st')) (later rest roots) a b \<and> x = y)
           (forward_op K op0 (m, w)) (forward_op K op' (m', w))"
      by (rule option.rel_mono_strong) (auto simp: agree_def keep)
    with ip_inv_keep [OF inv keep(2,3,4)] show ?thesis by simp
  next
    case (rewrite v)
    have oc: "opcode ?op = opcode op0" by (simp add: op)
    note ni = inplace_form_not_inplace [OF rewrite(1)]
    have fresh: "out op0 \<notin> seen" using sa ni by (simp add: oc)
    have ro: "?r (out op0) = out op0" using fresh dom by (intro resolve_id) auto
    have outop: "out ?op = out op0" by (simp add: op ro)
    obtain a c where ins: "in_slots op0 = [a, c]"
      using two_inputs [of ?op] contract_idata(1) [OF rewrite(4)] by (auto simp: op)
    have v: "v = ?r a" using rewrite(2) ins by (simp add: op)
    have vseen: "v \<in> seen" using safe rewrite(9) by blast
    have vo: "v \<noteq> out op0" using vseen fresh by auto
    have va: "valid_slot g a" using wf ins by (simp add: wf_op_def)
    have val: "valid_slot g v" using inv va by (auto simp: ip_inv_def v)
    have a_in: "a \<in> set (in_slots op0)" by (simp add: ins)
    note dead = rewrite_base_dead [OF inv sa a_in v rewrite(6,8)]
    have "ip_inv g roots (i + 1) rest (seen \<union> touched op0) st'"
      by (rule ip_inv_rewrite [OF inv sa a_in v rewrite(6,8) _ _ val vseen vo])
        (use rewrite outop ni oc in auto)
    moreover have lens: "length (m (out op0)) = length (m (in_slots op0 ! 0))"
    proof -
      have slot: "slot_at (g\<lparr>slots := ip_slots st\<rparr>) s = slot_at g s" if "s \<notin> dom (ip_rename st)" for s
        using inv that by (simp add: ip_inv_def)
      have v_nd: "v \<notin> dom (ip_rename st)"
        using resolve_not_dom [of "ip_rename st" a] inv by (auto simp: ip_inv_def v)
      have o_nd: "out op0 \<notin> dom (ip_rename st)" using fresh dom by auto
      have "len (slot_at g (out op0)) = len (slot_at g v)"
        using contract_slots(3) [OF rewrite(4) ni] slot [OF v_nd] slot [OF o_nd] outop
          rewrite(2) by simp
      moreover have "int (length (m (out op0))) = len (slot_at g (out op0))"
        using size(1) wf by (simp add: sized_mem_def valid_slot_def wf_op_def)
      moreover have "int (length (m' v)) = len (slot_at g v)"
        using size(2) val by (simp add: sized_mem_def valid_slot_def)
      moreover have "m a = m' v" using ag ins by (auto simp: agree_def touched_def v)
      ultimately show ?thesis by (simp add: ins)
    qed
    moreover have "rel_option (\<lambda>(a, x) (b, y). agree (?r(out op0 := v)) (later rest roots) a b \<and> x = y)
           (forward_op K op0 (m, w)) (forward_op K op' (m', w))"
      unfolding rewrite(3)
      by (rule rewrite_agree [OF inj ag [unfolded later_Cons] op rewrite(4,1,2,5) ro dead(2) lens])
    ultimately show ?thesis using rewrite(10) outop by (simp add: resolve_upd)
  qed
  then show "ip_inv g roots (i + 1) rest (seen \<union> touched op0) st'"
    and "rel_option (\<lambda>(a, x) (b, y). agree (resolve (ip_rename st')) (later rest roots) a b \<and> x = y)
           (forward_op K op0 (m, w)) (forward_op K op' (m', w))" by simp_all
qed

text \<open>Only slots an operation has written are marked as safe bases.\<close>

lemma inplace_step_safe:
  assumes "inplace_step g roots i op0 st = (op', st')" and "sa_from seen (op0 # rest)"
    and "dom (ip_rename st) \<subseteq> seen"
    and "\<forall>s. vget False (ip_safe st) s \<longrightarrow> s \<in> W" and "vget False (ip_safe st') s"
  shows "s \<in> insert (out op0) W"
proof -
  let ?op = "resolve_op (ip_rename st) op0"
  have op: "?op = rename_op (resolve (ip_rename st)) op0"
    by (rule resolve_op_rename [OF assms(2,3)])
  have *: "s = out op0" if "out ?op \<notin> set (in_slots ?op)" "s = out ?op"
  proof (cases "is_inplace_store (opcode op0)")
    case True
    with assms(2) obtain xs where "in_slots op0 = out op0 # xs"
      by (cases "in_slots op0") (auto simp: inplace_alias_def split: if_splits)
    with that op show ?thesis by simp
  next
    case False
    with assms(2,3) that(2) show ?thesis by (auto simp: op intro!: resolve_id)
  qed
  have kept: "s \<in> insert (out op0) W"
    if "vget False (clear_out2 ?op (mark_fresh_output ?op valid (out ?op) (ip_safe st))) s" for valid
    using that assms(4) *
    by (auto simp: clear_out2_def mark_fresh_output_def vget_vput split: if_splits)
  from assms(1,5) kept assms(4) show ?thesis
    unfolding inplace_step_def by (auto simp: Let_def split: if_splits)
qed

lemma inplace_scan_sim:
  assumes "inplace_scan g roots i rest st = (rest', st')"
    and "ip_inv g roots i rest seen st" and "sa_from seen rest"
    and "agree (resolve (ip_rename st)) (later rest roots) m m'"
    and "sized_mem g m" "sized_mem g m'" and "list_all (wf_op g) rest"
    and "\<forall>s. vget False (ip_safe st) s \<longrightarrow> s \<in> seen"
  shows "rel_option (\<lambda>(a, x) (b, y). agree id roots a b \<and> x = y)
           (run_ops K rest (m, w)) (run_ops K rest' (m', w))"
  using assms
proof (induction rest arbitrary: i st rest' m m' w seen)
  case Nil
  then have "\<forall>s \<in> roots. resolve (ip_rename st) s = s"
    by (auto simp: ip_inv_def intro!: resolve_id)
  with Nil show ?case by (auto simp: agree_def later_def)
next
  case (Cons op0 rest)
  obtain op' st1 where step: "inplace_step g roots i op0 st = (op', st1)" by fastforce
  with Cons.prems(1) obtain tail where tail: "inplace_scan g roots (i + 1) rest st1 = (tail, st')"
    and rest': "rest' = op' # tail" by (auto split: prod.splits)
  have wf: "wf_op g op0" using Cons.prems(7) by simp
  note sim = inplace_step_sim [OF Cons.prems(2,3,4) step Cons.prems(5,6) wf Cons.prems(8)]
  have dom: "dom (ip_rename st) \<subseteq> seen" using Cons.prems(2) by (auto simp: ip_inv_def)
  have safe: "\<forall>s. vget False (ip_safe st1) s \<longrightarrow> s \<in> seen \<union> touched op0"
    using inplace_step_safe [OF step Cons.prems(3) dom Cons.prems(8)] out_touched [of op0] by blast
  from sim(2) [where K = K and w = w] show ?case
  proof (cases rule: option.rel_cases)
    case None
    with rest' show ?thesis by simp
  next
    case (Some s1 s2)
    obtain a x b where s: "s1 = (a, x)" "s2 = (b, x)"
      and ag: "agree (resolve (ip_rename st1)) (later rest roots) a b"
      using Some by (cases s1; cases s2) auto
    have sizes: "sized_mem g a" "sized_mem g b"
      using Some(1,2) Cons.prems(5,6)
      by (auto simp: s sized_mem_def forward_op_length)
    from Cons.prems(3) have sa': "sa_from (seen \<union> touched op0) rest" by simp
    from Cons.prems(7) have wf': "list_all (wf_op g) rest" by simp
    from Cons.IH [OF tail sim(1) sa' ag sizes wf' safe] Some show ?thesis
      by (simp add: s rest')
  qed
qed

lemma last_uses_length [simp]: "length (last_uses i xs lu) = length lu"
proof -
  have "length (mark_last_use i ss lu) = length lu" for i ss and lu :: "int list"
    by (induction ss arbitrary: lu) auto
  then show ?thesis by (induction xs arbitrary: i lu) auto
qed

lemma vget_mark_last_use:
  "vget d (mark_last_use i ss lu) s =
     (if s \<in> set ss \<and> 0 \<le> s \<and> nat s < length lu then i else vget d lu s)"
  by (induction ss arbitrary: lu) (auto simp: vget_vput)

lemma last_uses_ge:
  assumes "0 \<le> s" "nat s < length lu" "vget (-1) lu s < i"
  shows "vget (-1) lu s \<le> vget (-1) (last_uses i rest lu) s \<and>
         (\<forall>k. reads_at i rest k s \<longrightarrow> k \<le> vget (-1) (last_uses i rest lu) s)"
  using assms
proof (induction rest arbitrary: i lu)
  case Nil
  then show ?case by (simp add: reads_at_def)
next
  case (Cons op rest)
  let ?lu = "mark_last_use i (in_slots op) lu"
  have len: "length (mark_last_use i ss l) = length l" for ss and l :: "int list"
    by (induction ss arbitrary: l) auto
  have "vget (-1) ?lu s < i + 1" using Cons.prems by (simp add: vget_mark_last_use)
  from Cons.IH [OF Cons.prems(1) _ this] Cons.prems show ?case
    by (auto simp: len reads_at_Cons vget_mark_last_use split: if_splits)
qed

lemma ip_inv_init:
  assumes "wf_graph g"
  shows "ip_inv g roots 0 (ops g) {} (inplace_init g)"
proof -
  have res: "resolve Map.empty = id" by (auto simp: resolve_def)
  have "k \<le> vget (-1) (last_uses 0 (ops g) (replicate (length (slots g)) (-1))) s"
    if r: "reads_at 0 (ops g) k s" for k s
  proof -
    have "valid_slot g s"
      using assms r by (auto simp: wf_graph_def wf_op_def list_all_iff reads_at_def)
    then show ?thesis
      using last_uses_ge [of s "replicate (length (slots g)) (-1)" 0 "ops g"] r
      by (auto simp: valid_slot_def)
  qed
  then show ?thesis by (simp add: ip_inv_def inplace_init_def res)
qed

lemma resolve_range: "resolve rn s \<in> insert s (ran rn)"
  by (auto simp: resolve_def ran_def split: option.splits)

lemma inplace_scan_writes:
  assumes "inplace_scan g roots i rest st = (rest', st')" and "sa_from seen rest"
    and "dom (ip_rename st) \<subseteq> seen" and "ran (ip_rename st) \<subseteq> W"
    and "\<forall>s. vget False (ip_safe st) s \<longrightarrow> s \<in> W"
  shows "out ` set rest' \<subseteq> W \<union> out ` set rest"
  using assms
proof (induction rest arbitrary: i st rest' seen W)
  case (Cons op0 rest)
  obtain op' st1 where step: "inplace_step g roots i op0 st = (op', st1)" by fastforce
  with Cons.prems(1) obtain tail where tail: "inplace_scan g roots (i + 1) rest st1 = (tail, st')"
    and rest': "rest' = op' # tail" by (auto split: prod.splits)
  let ?op = "resolve_op (ip_rename st) op0"
  have op: "?op = rename_op (resolve (ip_rename st)) op0"
    by (rule resolve_op_rename [OF Cons.prems(2,3)])
  have "dom (ip_rename st1) \<subseteq> seen \<union> touched op0 \<and> ran (ip_rename st1) \<subseteq> insert (out op0) W
        \<and> out op' \<in> insert (out op0) W"
    using step
  proof (cases rule: inplace_step_cases)
    case keep
    with Cons.prems(3,4) op show ?thesis
      using resolve_range [of "ip_rename st" "out op0"] by auto
  next
    case (rewrite v)
    have "resolve (ip_rename st) (out op0) = out op0"
      using Cons.prems(2,3) inplace_form_not_inplace [OF rewrite(1)]
      by (intro resolve_id) (auto simp: op)
    moreover have "v \<in> W" using Cons.prems(5) rewrite(9) by blast
    ultimately show ?thesis
      using rewrite(3,10) Cons.prems(3,4) op by (auto simp: ran_def)
  qed
  moreover have "\<forall>s. vget False (ip_safe st1) s \<longrightarrow> s \<in> insert (out op0) W"
    using inplace_step_safe [OF step Cons.prems(2,3,5)] by blast
  moreover have "sa_from (seen \<union> touched op0) rest" using Cons.prems(2) by simp
  ultimately have "out ` set tail \<subseteq> insert (out op0) W \<union> out ` set rest"
    "out op' \<in> insert (out op0) W"
    using Cons.IH [OF tail, of "seen \<union> touched op0" "insert (out op0) W"] by simp_all
  with rest' show ?case by auto
qed simp

section \<open>Properties\<close>

text \<open>C20. \<open>make_inplace_updates\<close> preserves the forward sweep: on a well-formed single-assignment graph, from
  any memory whose buffers have their slots' sizes, the rewritten graph fails exactly when the
  original does, ends in the same evaluation state, and leaves the same values in every root and
  in the result slot.\<close>

theorem make_inplace_updates_sound:
  assumes "wf_graph g" and "single_assignment g" and "sized_mem g m"
  shows "rel_option (\<lambda>(a, x) (b, y). x = y \<and> (\<forall>r \<in> root_set g roots. a r = b r))
           (run_ops K (ops g) (m, w))
           (run_ops K (ops (fst (make_inplace_updates disabled g roots))) (m, w))"
proof (cases disabled)
  case True
  then show ?thesis by (simp add: make_inplace_updates_def option.rel_refl split: prod.splits)
next
  case False
  obtain os st where scan: "inplace_scan g (root_set g roots) 0 (ops g) (inplace_init g) = (os, st)"
    by fastforce
  have "agree (resolve (ip_rename (inplace_init g))) (later (ops g) (root_set g roots)) m m"
    by (simp add: agree_def inplace_init_def resolve_def)
  moreover have "\<forall>s. vget False (ip_safe (inplace_init g)) s \<longrightarrow> s \<in> {}"
    by (simp add: inplace_init_def)
  ultimately have "rel_option (\<lambda>(a, x) (b, y). agree id (root_set g roots) a b \<and> x = y)
      (run_ops K (ops g) (m, w)) (run_ops K os (m, w))"
    using assms by (intro inplace_scan_sim [OF scan ip_inv_init])
      (auto simp: single_assignment_def wf_graph_def)
  then have "rel_option (\<lambda>(a, x) (b, y). x = y \<and> (\<forall>r \<in> root_set g roots. a r = b r))
      (run_ops K (ops g) (m, w)) (run_ops K os (m, w))"
    by (rule option.rel_mono_strong) (auto simp: agree_def)
  with False scan show ?thesis by (simp add: make_inplace_updates_def)
qed

text \<open>Two element stores into a vector an operation produced, read back at the end: slot 0 is a parameter,
  1 the vector, 2 and 3 its two later versions, 4 the stored value and 5 the result. Both stores
  become destructive.\<close>

definition chain_graph :: "unit graph" where
  "chain_graph = \<lparr>slots = map (\<lambda>(l, p). \<lparr>offset = 0, len = l, is_param = p\<rparr>)
      [(3, True), (3, False), (3, False), (3, False), (1, False), (1, False)],
     ops =
     [(default_op None)\<lparr>opcode := OP_SLICE, in_slots := [0], out := 1, idata := Some [0]\<rparr>,
      (default_op None)\<lparr>opcode := OP_INDEX, in_slots := [0], out := 4, idata := Some [1]\<rparr>,
      (default_op None)\<lparr>opcode := OP_SET_INDEX, in_slots := [1, 4], out := 2, idata := Some [0]\<rparr>,
      (default_op None)\<lparr>opcode := OP_SET_INDEX, in_slots := [2, 4], out := 3, idata := Some [2]\<rparr>,
      (default_op None)\<lparr>opcode := OP_INDEX, in_slots := [3], out := 5, idata := Some [2]\<rparr>],
     result_slot = 5\<rparr>"

definition chain_mem :: "int mem" where
  "chain_mem s = (if s = 0 then [7, 8, 9] else if s = 4 \<or> s = 5 then [0] else [0, 0, 0])"

definition no_kern :: "(int, unit, unit) kern" where
  "no_kern op ins l l2 w = None"

lemma chain_hyps: "wf_graph chain_graph" "single_assignment chain_graph"
    "sized_mem chain_graph chain_mem"
  by code_simp+

theorem make_inplace_updates_sound_witness:
  "snd (make_inplace_updates False chain_graph []) = 2
   \<and> map_option (\<lambda>(m, w). m 5) (run_ops no_kern (ops chain_graph) (chain_mem, ())) = Some [8]
   \<and> rel_option (\<lambda>(a, x) (b, y). x = y \<and> (\<forall>r \<in> root_set chain_graph []. a r = b r))
       (run_ops no_kern (ops chain_graph) (chain_mem, ()))
       (run_ops no_kern (ops (fst (make_inplace_updates False chain_graph []))) (chain_mem, ()))"
proof (intro conjI)
  show "snd (make_inplace_updates False chain_graph []) = 2" by code_simp
  show "map_option (\<lambda>(m, w). m 5) (run_ops no_kern (ops chain_graph) (chain_mem, ())) = Some [8]"
    by code_simp
qed (rule make_inplace_updates_sound [OF chain_hyps])

text \<open>C30. The pass never makes a store destructive on a slot the original graph does not write (a parameter, a
  data slot, a bind-time fill), so a rewritten graph cannot leak state from one evaluation into the
  next through such a slot.\<close>

theorem make_inplace_updates_writes:
  assumes "single_assignment g"
    and "op \<in> set (ops (fst (make_inplace_updates disabled g roots)))"
  shows "\<exists>op0 \<in> set (ops g). out op = out op0"
proof (cases disabled)
  case True
  with assms show ?thesis by (auto simp: make_inplace_updates_def)
next
  case False
  obtain os st where scan: "inplace_scan g (root_set g roots) 0 (ops g) (inplace_init g) = (os, st)"
    by fastforce
  have "out ` set os \<subseteq> {} \<union> out ` set (ops g)"
    by (rule inplace_scan_writes [OF scan])
      (use assms(1) in \<open>auto simp: single_assignment_def inplace_init_def\<close>)
  with assms(2) False scan show ?thesis by (auto simp: make_inplace_updates_def)
qed

theorem make_inplace_updates_writes_witness:
  "\<exists>op0 \<in> set (ops chain_graph).
     out (ops (fst (make_inplace_updates False chain_graph [])) ! 2) = out op0"
proof (rule make_inplace_updates_writes [OF chain_hyps(2)])
  have "2 < length (ops (fst (make_inplace_updates False chain_graph [])))" by code_simp
  then show "ops (fst (make_inplace_updates False chain_graph [])) ! 2
      \<in> set (ops (fst (make_inplace_updates False chain_graph [])))" by (rule nth_mem)
qed

end
