(* ===== verification/StoreForward.thy ===== *)
theory StoreForward
  imports Inplace
begin

text \<open>
  The other two passes of \<^verbatim>\<open>runtime/src/inplace.cpp\<close>: \<open>forward_stores_to_loads\<close>, which replaces a
  read-back of the element just written by the written value and then drops the stores nothing
  observes, and \<open>elide_full_extent_stores\<close>, which drops slice stores that overwrite their whole
  destination.
\<close>

section \<open>forward_stores_to_loads\<close>

record Store =
  st_op :: nat
  st_elem :: int
  st_value :: int
  st_live :: bool
  st_observed :: bool

definition no_store :: Store where
  "no_store = \<lparr>st_op = 0, st_elem = 0, st_value = -1, st_live = False, st_observed = False\<rparr>"

record forward_state =
  fw_last_store :: "Store list"
  fw_rename :: "int \<rightharpoonup> int"
  fw_drop :: "bool list"
  fw_removed :: nat

definition is_slice_store :: "nat \<Rightarrow> bool" where
  "is_slice_store oc \<longleftrightarrow> oc = OP_SET_SLICE \<or> oc = OP_SET_SLICE_INPLACE
     \<or> oc = OP_SET_SLICE_STRIDED \<or> oc = OP_SET_SLICE_STRIDED_INPLACE"

definition is_index_store :: "nat \<Rightarrow> bool" where
  "is_index_store oc \<longleftrightarrow> oc = OP_SET_INDEX \<or> oc = OP_SET_INDEX_INPLACE"

definition mark_observed :: "int list \<Rightarrow> Store list \<Rightarrow> Store list" where
  "mark_observed ss ls =
     foldl (\<lambda>l s. if s \<ge> 0 then vput l s ((vget no_store l s)\<lparr>st_observed := True\<rparr>) else l) ls ss"

text \<open>One iteration of the forward loop. \<open>done\<close> are the operations before index \<open>i\<close> as the loop has left
  them (their opcodes are what \<^verbatim>\<open>g.ops[prev.op].opcode\<close> reads).\<close>

definition forward_step ::
    "int set \<Rightarrow> 'u gop list \<Rightarrow> nat \<Rightarrow> 'u gop \<Rightarrow> forward_state \<Rightarrow> 'u gop \<times> forward_state" where
  "forward_step roots done i op0 st =
     (let op = op0\<lparr>in_slots := map (resolve (fw_rename st)) (in_slots op0)\<rparr>;
          ls = fw_last_store st
      in if is_index_store (opcode op) then
           let prev = vget no_store ls (out op);
               kill = (st_live prev \<and> \<not> st_observed prev \<and> st_elem prev = idata_at op 0
                 \<and> opcode op = OP_SET_INDEX_INPLACE
                 \<and> opcode (done ! st_op prev) = OP_SET_INDEX_INPLACE)
           in (op, st\<lparr>fw_last_store := vput ls (out op)
                        \<lparr>st_op = i, st_elem = idata_at op 0, st_value = in_slots op ! 1,
                         st_live = True, st_observed = False\<rparr>,
                      fw_drop := (if kill then (fw_drop st)[st_op prev := True] else fw_drop st),
                      fw_removed := (if kill then fw_removed st + 1 else fw_removed st)\<rparr>)
         else if is_slice_store (opcode op) then
           (op, st\<lparr>fw_last_store := vput ls (out op) no_store\<rparr>)
         else
           let hit = vget no_store ls (in_slots op ! 0)
           in if opcode op = OP_INDEX \<and> n_idata op = 1 \<and> st_live hit
                 \<and> st_elem hit = idata_at op 0 \<and> out op \<notin> roots then
                (op, st\<lparr>fw_rename := (fw_rename st)(out op \<mapsto> st_value hit),
                        fw_drop := (fw_drop st)[i := True],
                        fw_removed := fw_removed st + 1\<rparr>)
              else (op, st\<lparr>fw_last_store := mark_observed (in_slots op) ls\<rparr>))"

fun forward_scan ::
    "int set \<Rightarrow> 'u gop list \<Rightarrow> 'u gop list \<Rightarrow> forward_state \<Rightarrow> 'u gop list \<times> forward_state" where
  "forward_scan roots done [] st = (done, st)"
| "forward_scan roots done (op # rest) st =
     (case forward_step roots done (length done) op st of (op', st') \<Rightarrow>
        forward_scan roots (done @ [op']) rest st')"

text \<open>The backward sweep over dead writes: index \<open>k\<close> counts down; \<open>ra\<close> is \<^verbatim>\<open>read_after\<close>.\<close>

fun dead_stores ::
    "int set \<Rightarrow> 'u gop list \<Rightarrow> nat \<Rightarrow> bool list \<Rightarrow> bool list \<Rightarrow> nat \<Rightarrow> bool list \<times> nat" where
  "dead_stores roots os 0 ra dropped removed = (dropped, removed)"
| "dead_stores roots os (Suc k) ra dropped removed =
     (let op = os ! k in
      if dropped ! k then dead_stores roots os k ra dropped removed
      else if is_index_store (opcode op) \<and> \<not> vget False ra (out op) \<and> out op \<notin> roots
      then dead_stores roots os k ra (dropped[k := True]) (removed + 1)
      else dead_stores roots os k (mark_readers (in_slots op) ra) dropped removed)"

fun keep_ops :: "bool list \<Rightarrow> 'a list \<Rightarrow> 'a list" where
  "keep_ops (d # ds) (x # xs) = (if d then keep_ops ds xs else x # keep_ops ds xs)"
| "keep_ops _ _ = []"

definition forward_stores_to_loads ::
    "bool \<Rightarrow> 'u graph \<Rightarrow> int list \<Rightarrow> 'u graph \<times> nat" where
  "forward_stores_to_loads disabled g roots =
     (if disabled then (g, 0)
      else
        let R = root_set g roots; n = length (ops g);
            (os, st) = forward_scan R [] (ops g)
              \<lparr>fw_last_store = replicate (length (slots g)) no_store, fw_rename = Map.empty,
               fw_drop = replicate n False, fw_removed = 0\<rparr>;
            (dropped, removed) = dead_stores R os n (replicate (length (slots g)) False)
              (fw_drop st) (fw_removed st)
        in (g\<lparr>ops := (if removed > 0 then keep_ops dropped os else os)\<rparr>, removed))"

section \<open>elide_full_extent_stores\<close>

definition readers_of :: "'u gop list \<Rightarrow> int \<Rightarrow> nat list" where
  \<comment> \<open>\<^verbatim>\<open>readers[s]\<close>: one entry per reading operand, in order\<close>
  "readers_of os s = concat (map (\<lambda>i. map (\<lambda>_. i) (filter (\<lambda>t. t = s \<and> t \<ge> 0) (in_slots (os ! i))))
     [0..<length os])"

definition writers_of :: "'u gop list \<Rightarrow> int \<Rightarrow> nat list" where
  "writers_of os s = concat (map (\<lambda>i. map (\<lambda>_. i) (filter (\<lambda>t. t = s) (outs (os ! i)))) [0..<length os])"

definition covers_destination :: "'u graph \<Rightarrow> 'u gop \<Rightarrow> bool" where
  "covers_destination g op =
     (let strided = (opcode op = OP_SET_SLICE_STRIDED \<or> opcode op = OP_SET_SLICE_STRIDED_INPLACE) in
      if opcode op \<noteq> OP_SET_SLICE \<and> opcode op \<noteq> OP_SET_SLICE_INPLACE \<and> \<not> strided then False
      else n_in op = 2 \<and> out op \<ge> 0 \<and> in_slots op ! 1 \<ge> 0 \<and> n_idata op \<ge> 1 \<and> idata_at op 0 = 0
        \<and> (\<not> strided \<or> idata_at op 1 = 1)
        \<and> len (slot_at g (in_slots op ! 1)) = len (slot_at g (out op)))"

definition identity_slice :: "'u graph \<Rightarrow> nat \<Rightarrow> 'u gop \<Rightarrow> bool" where
  \<comment> \<open>\<open>nw\<close> is the number of writers of the output\<close>
  "identity_slice g nw op \<longleftrightarrow>
     opcode op = OP_SLICE \<and> n_in op = 1 \<and> in_slots op ! 0 \<ge> 0 \<and> out op \<ge> 0 \<and> out2 op < 0
     \<and> variant op = 0 \<and> udata op = None \<and> dyn_lengths op = 0 \<and> primal_source op < 0
     \<and> n_idata op = 1 \<and> idata op \<noteq> None \<and> idata_at op 0 = 0
     \<and> len (slot_at g (in_slots op ! 0)) = len (slot_at g (out op)) \<and> nw = 1"

definition opaque_reader :: "nat \<Rightarrow> bool" where
  "opaque_reader oc \<longleftrightarrow> oc = OP_ISLAND \<or> oc = OP_LOOP \<or> oc = OP_REGION_MAP \<or> oc = OP_REDUCE_SUM"

definition rename_reads :: "int \<Rightarrow> int \<Rightarrow> 'u gop \<Rightarrow> 'u gop" where
  "rename_reads dest val op = op\<lparr>in_slots := map (\<lambda>s. if s = dest then val else s) (in_slots op)\<rparr>"

text \<open>One candidate. \<open>os0\<close> is the graph's operation list when the reader and writer tables were built; the
  tables are not rebuilt while the loop renames operands of \<open>os\<close>.\<close>

definition elide_step ::
    "'u graph \<Rightarrow> int set \<Rightarrow> 'u gop list \<Rightarrow> nat \<Rightarrow> 'u gop list \<times> bool list \<times> nat
     \<Rightarrow> 'u gop list \<times> bool list \<times> nat" where
  "elide_step g R os0 i st = (case st of (os, dropped, removed) \<Rightarrow>
     (let op = os ! i;
          ident = identity_slice g (length (writers_of os0 (out op))) op
      in if \<not> ident \<and> \<not> covers_destination g op then st
         else
           let dest = out op; val = in_slots op ! (if ident then 0 else 1) in
           if dest = val \<or> dest \<in> R \<or> val \<in> R then st
           else if is_param (slot_at g dest) \<or> is_param (slot_at g val) then st
           else if readers_of os0 val \<noteq> [i] then st
           else if writers_of os0 val \<noteq> [] \<and> last (writers_of os0 val) \<ge> i then st
           else
             let next_write = (case filter (\<lambda>w. w > i) (writers_of os0 dest) of
                   [] \<Rightarrow> length os | w # _ \<Rightarrow> w)
             in if next_write < length os
                   \<and> \<not> ((opcode (os ! next_write) = OP_SET_SLICE_INPLACE
                         \<or> opcode (os ! next_write) = OP_SET_SLICE_STRIDED_INPLACE)
                        \<and> out (os ! next_write) = dest \<and> covers_destination g (os ! next_write))
                then st
                else
                  let window = filter (\<lambda>r. i < r \<and> r < next_write) (readers_of os0 dest) in
                  if \<exists>r \<in> set window. opaque_reader (opcode (os ! r)) then st
                  else (map (\<lambda>k. if k \<in> set window then rename_reads dest val (os ! k) else os ! k)
                            [0..<length os],
                        dropped[i := True], removed + 1)))"

definition elide_full_extent_stores ::
    "bool \<Rightarrow> 'u graph \<Rightarrow> int list \<Rightarrow> 'u graph \<times> nat" where
  "elide_full_extent_stores disabled g roots =
     (if disabled then (g, 0)
      else
        let R = root_set g roots; n = length (ops g);
            (os, dropped, removed) =
              foldl (\<lambda>st i. elide_step g R (ops g) i st) (ops g, replicate n False, 0) [0..<n]
        in (g\<lparr>ops := (if removed > 0 then keep_ops dropped os else os)\<rparr>, removed))"

section \<open>What the forwarding pass removes\<close>

definition skeleton :: "'u gop \<Rightarrow> 'u gop" where
  "skeleton op = op\<lparr>in_slots := []\<rparr>"

definition removable :: "'u gop \<Rightarrow> bool" where
  "removable op \<longleftrightarrow> is_index_store (opcode op) \<or> opcode op = OP_INDEX"

lemma removable_skeleton [simp]: "removable (skeleton op) = removable op"
  by (simp add: removable_def skeleton_def)

abbreviation n_dropped :: "bool list \<Rightarrow> nat" where
  "n_dropped ds \<equiv> length (filter (\<lambda>b. b) ds)"

lemma n_dropped_set:
  "k < length ds \<Longrightarrow> \<not> ds ! k \<Longrightarrow> n_dropped (ds[k := True]) = n_dropped ds + 1"
proof (induction ds arbitrary: k)
  case (Cons d ds)
  then show ?case by (cases k) auto
qed simp

definition drops_ok :: "'u gop list \<Rightarrow> bool list \<Rightarrow> bool" where
  "drops_ok os ds \<longleftrightarrow> (\<forall>k < length os. ds ! k \<longrightarrow> removable (os ! k))"

definition fw_inv :: "'u gop list \<Rightarrow> nat \<Rightarrow> forward_state \<Rightarrow> bool" where
  "fw_inv done n st \<longleftrightarrow>
     length (fw_drop st) = n \<and> n_dropped (fw_drop st) = fw_removed st
     \<and> drops_ok done (fw_drop st) \<and> (\<forall>k. length done \<le> k \<and> k < n \<longrightarrow> \<not> fw_drop st ! k)
     \<and> (\<forall>s. let h = vget no_store (fw_last_store st) s in st_live h \<longrightarrow>
          st_op h < length done \<and> \<not> fw_drop st ! st_op h
          \<and> is_index_store (opcode (done ! st_op h)) \<and> out (done ! st_op h) = s)"

lemma mark_observed_fields:
  "st_live (vget no_store (mark_observed ss ls) s) = st_live (vget no_store ls s)
   \<and> st_op (vget no_store (mark_observed ss ls) s) = st_op (vget no_store ls s)"
proof -
  have put: "st_live (vget no_store (vput l t ((vget no_store l t)\<lparr>st_observed := True\<rparr>)) s)
        = st_live (vget no_store l s)
      \<and> st_op (vget no_store (vput l t ((vget no_store l t)\<lparr>st_observed := True\<rparr>)) s)
        = st_op (vget no_store l s)" for l t
    by (simp add: vget_vput)
  show ?thesis unfolding mark_observed_def
  proof (induction ss arbitrary: ls)
    case (Cons t ss)
    then show ?case using put by (cases "t \<ge> 0") simp_all
  qed simp
qed

lemma forward_step_op:
  "fst (forward_step R done i op0 st) =
     op0\<lparr>in_slots := map (resolve (fw_rename st)) (in_slots op0)\<rparr>"
  unfolding forward_step_def Let_def by simp

lemma forward_step_skeleton:
  assumes "forward_step R done i op0 st = (op, st')"
  shows "skeleton op = skeleton op0"
  using forward_step_op [of R "done" i op0 st] assms by (simp add: skeleton_def)

lemma forward_step_inv:
  assumes step: "forward_step R done (length done) op0 st = (op, st')"
    and inv: "fw_inv done n st" and n: "length done < n"
  shows "fw_inv (done @ [op]) n st'"
proof -
  let ?h = "\<lambda>s. vget no_store (fw_last_store st) s"
  have live: "st_op (?h s) < length done" "\<not> fw_drop st ! st_op (?h s)"
    "is_index_store (opcode (done ! st_op (?h s)))" "out (done ! st_op (?h s)) = s"
    if "st_live (?h s)" for s
    using inv that by (auto simp: fw_inv_def Let_def)
  have base: "length (fw_drop st) = n" "n_dropped (fw_drop st) = fw_removed st"
    "drops_ok done (fw_drop st)" "\<And>k. length done \<le> k \<Longrightarrow> k < n \<Longrightarrow> \<not> fw_drop st ! k"
    using inv by (auto simp: fw_inv_def)
  have fresh: "\<not> fw_drop st ! length done" using base(4) n by simp
  consider (store) "is_index_store (opcode op0)" | (slice) "is_slice_store (opcode op0)"
      "\<not> is_index_store (opcode op0)"
    | (other) "\<not> is_index_store (opcode op0)" "\<not> is_slice_store (opcode op0)" by blast
  then show ?thesis
  proof cases
    case store
    define prev where "prev = ?h (out op0)"
    define kill where "kill = (st_live prev \<and> \<not> st_observed prev \<and> st_elem prev = idata_at op 0
       \<and> opcode op = OP_SET_INDEX_INPLACE \<and> opcode (done ! st_op prev) = OP_SET_INDEX_INPLACE)"
    have op: "opcode op = opcode op0" "out op = out op0" "idata_at op 0 = idata_at op0 0"
      using forward_step_op [of R "done" "length done" op0 st] step by (simp_all add: idata_at_def)
    have st': "fw_drop st' = (if kill then (fw_drop st)[st_op prev := True] else fw_drop st)"
      "fw_removed st' = (if kill then fw_removed st + 1 else fw_removed st)"
      "\<exists>x. fw_last_store st' = vput (fw_last_store st) (out op0) x \<and> st_op x = length done"
      using step store op
      by (auto simp: forward_step_def Let_def prev_def kill_def idata_at_def split: if_splits)
    have k: "st_op prev < length done" "\<not> fw_drop st ! st_op prev" "removable (done ! st_op prev)"
        "out (done ! st_op prev) = out op0" if kill
      using that live [of "out op0"] by (auto simp: kill_def prev_def removable_def)
    have "drops_ok (done @ [op]) (fw_drop st')"
      using base k n fresh st'(1)
      by (auto simp: drops_ok_def nth_append nth_list_update less_Suc_eq split: if_splits)
    moreover have "n_dropped (fw_drop st') = fw_removed st'"
      using st'(1,2) base k n by (cases kill) (simp_all add: n_dropped_set)
    moreover have "\<not> fw_drop st' ! j" if "length done \<le> j" "j < n" for j
      using st'(1) base(4) [OF that] that k(1) by (auto simp: nth_list_update)
    moreover have "st_op (vget no_store (fw_last_store st') s) < length (done @ [op]) \<and>
        \<not> fw_drop st' ! st_op (vget no_store (fw_last_store st') s) \<and>
        is_index_store (opcode ((done @ [op]) ! st_op (vget no_store (fw_last_store st') s))) \<and>
        out ((done @ [op]) ! st_op (vget no_store (fw_last_store st') s)) = s"
      if l: "st_live (vget no_store (fw_last_store st') s)" for s
    proof -
      obtain x where x: "fw_last_store st' = vput (fw_last_store st) (out op0) x"
        "st_op x = length done" using st'(3) by blast
      show ?thesis
      proof (cases "s = out op0")
        case True
        with l x(1) have "vget no_store (fw_last_store st') s = x"
          by (auto simp: vput_def vget_def no_store_def split: if_splits)
        with True show ?thesis
          using x(2) fresh st'(1) k(1) store op base(1) n by (auto simp: nth_list_update)
      next
        case False
        with x(1) have eq: "vget no_store (fw_last_store st') s = ?h s" by (simp add: slot_simps)
        with l have "st_live (?h s)" by simp
        note lv = live [OF this]
        have "\<not> fw_drop st' ! st_op (?h s)"
          using lv False k(4) st'(1)
          by (cases "st_op (?h s) = st_op prev") (auto simp: nth_list_update)
        with lv eq show ?thesis by (auto simp: nth_append)
      qed
    qed
    ultimately show ?thesis
      using base(1) st'(1) by (auto simp: fw_inv_def Let_def)
  next
    case slice
    then have "fw_drop st' = fw_drop st" "fw_removed st' = fw_removed st"
      "fw_last_store st' = vput (fw_last_store st) (out op0) no_store"
      using step by (auto simp: forward_step_def Let_def)
    then show ?thesis
      using base live fresh
      by (auto simp: fw_inv_def Let_def vget_vput nth_append drops_ok_def less_Suc_eq no_store_def)
  next
    case other
    show ?thesis
    proof (cases "fw_last_store st' = fw_last_store st \<and> fw_drop st' = (fw_drop st)[length done := True]
        \<and> fw_removed st' = fw_removed st + 1 \<and> opcode op = OP_INDEX")
      case True
      have "length done \<noteq> st_op (?h s)" if "st_live (?h s)" for s using live(1) [OF that] by simp
      with True show ?thesis
        using base live fresh n
        by (simp add: fw_inv_def Let_def nth_append drops_ok_def less_Suc_eq n_dropped_set
            nth_list_update removable_def)
    next
      case False
      then have "fw_drop st' = fw_drop st" "fw_removed st' = fw_removed st"
        "fw_last_store st' = mark_observed (in_slots op) (fw_last_store st)"
        using step other by (auto simp: forward_step_def Let_def split: if_splits)
      then show ?thesis
        using base live fresh
        by (auto simp: fw_inv_def Let_def mark_observed_fields nth_append drops_ok_def less_Suc_eq)
    qed
  qed
qed

lemma forward_scan_inv:
  assumes "forward_scan R done rest st = (os, st')" and "fw_inv done n st"
    and "length done + length rest = n"
  shows "fw_inv os n st' \<and> map skeleton os = map skeleton (done @ rest)"
  using assms
proof (induction rest arbitrary: "done" st)
  case (Cons op0 rest)
  obtain op st1 where step: "forward_step R done (length done) op0 st = (op, st1)" by fastforce
  have inv: "fw_inv (done @ [op]) n st1"
    using forward_step_inv [OF step Cons.prems(2)] Cons.prems(3) by simp
  from Cons.IH [OF _ inv] Cons.prems step forward_step_skeleton [OF step] show ?case by simp
qed simp

lemma dead_stores_inv:
  assumes "dead_stores R os k ra ds removed = (ds', removed')" and "k \<le> length os"
    and "length ds = length os" and "n_dropped ds = removed" and "drops_ok os ds"
  shows "length ds' = length os \<and> n_dropped ds' = removed' \<and> drops_ok os ds'"
  using assms
proof (induction R os k ra ds removed rule: dead_stores.induct)
  case (2 R os k ra ds removed)
  have "drops_ok os (ds[k := True])" if "removable (os ! k)"
    using "2.prems"(5) that unfolding drops_ok_def
    by (metis nth_list_update_neq)
  with 2 show ?case
    by (auto simp: Let_def n_dropped_set removable_def split: if_splits)
qed simp

lemma keep_ops_length: "length ds = length os \<Longrightarrow> length (keep_ops ds os) + n_dropped ds = length os"
  by (induction ds os rule: list_induct2) auto

lemma keep_ops_filter:
  assumes "length ds = length os" and "\<forall>k < length os. ds ! k \<longrightarrow> P (os ! k)"
  shows "filter (\<lambda>x. \<not> P x) (keep_ops ds os) = filter (\<lambda>x. \<not> P x) os"
  using assms
proof (induction ds os rule: list_induct2)
  case (Cons d ds x xs)
  then have "\<forall>k < length xs. ds ! k \<longrightarrow> P (xs ! k)" by (metis Suc_less_eq length_Cons nth_Cons_Suc)
  with Cons show ?case by (auto dest: spec [of _ 0])
qed simp

lemma keep_ops_none: "length ds = length os \<Longrightarrow> n_dropped ds = 0 \<Longrightarrow> keep_ops ds os = os"
  by (induction ds os rule: list_induct2) (auto split: if_splits)

text \<open>C32. \<open>forward_stores_to_loads\<close> returns the number of operations it removed, removes only element stores
  and element loads, and keeps every other operation in order with at most its inputs renamed.\<close>

theorem forward_stores_to_loads_removes:
  "length (ops (fst (forward_stores_to_loads disabled g roots)))
     + snd (forward_stores_to_loads disabled g roots) = length (ops g)
   \<and> filter (\<lambda>op. \<not> removable op) (map skeleton (ops (fst (forward_stores_to_loads disabled g roots))))
     = filter (\<lambda>op. \<not> removable op) (map skeleton (ops g))"
proof (cases disabled)
  case False
  let ?n = "length (ops g)" and ?R = "root_set g roots"
  let ?st = "\<lparr>fw_last_store = replicate (length (slots g)) no_store, fw_rename = Map.empty,
               fw_drop = replicate ?n False, fw_removed = 0\<rparr>"
  obtain os st where scan: "forward_scan ?R [] (ops g) ?st = (os, st)" by fastforce
  have "fw_inv [] ?n ?st" by (simp add: fw_inv_def drops_ok_def no_store_def)
  from forward_scan_inv [OF scan this]
  have inv: "fw_inv os ?n st" and sk: "map skeleton os = map skeleton (ops g)" by simp_all
  have n: "length os = ?n" using sk by (metis length_map)
  obtain ds r where dead: "dead_stores ?R os ?n (replicate (length (slots g)) False)
      (fw_drop st) (fw_removed st) = (ds, r)" by fastforce
  have ds: "length ds = length os" "n_dropped ds = r" "drops_ok os ds"
    using dead_stores_inv [OF dead] inv n by (auto simp: fw_inv_def)
  have res: "forward_stores_to_loads disabled g roots = (g\<lparr>ops := keep_ops ds os\<rparr>, r)"
    using False scan dead keep_ops_none [of ds os] ds by (simp add: forward_stores_to_loads_def)
  have "filter (\<lambda>op. \<not> removable op) (keep_ops ds os) = filter (\<lambda>op. \<not> removable op) os"
    using keep_ops_filter [OF ds(1)] ds(3) by (simp add: drops_ok_def)
  then have "filter (\<lambda>op. \<not> removable op) (map skeleton (keep_ops ds os))
      = filter (\<lambda>op. \<not> removable op) (map skeleton os)"
    by (simp add: filter_map o_def)
  with keep_ops_length [OF ds(1)] ds(2) n sk res show ?thesis by simp
qed (simp add: forward_stores_to_loads_def)

end
