(* ===== verification/Constfold.thy ===== *)
theory Constfold
  imports Inplace
begin

text \<open>
  Constant folding (\<^verbatim>\<open>runtime/src/constfold.cpp\<close>): \<open>mark_constant_ops\<close> finds the operations no parameter
  reaches, with the refusals that keep destructive update chains intact, and \<open>const_fold\<close> runs them
  once in a sub-graph and replaces them by bind-time fills.
\<close>

section \<open>mark_constant_ops\<close>

text \<open>\<open>eff\<close> is \<^verbatim>\<open>island_has_effect\<close> on the payload of a compiled region.\<close>

definition op_is_const :: "('u \<Rightarrow> bool) \<Rightarrow> bool list \<Rightarrow> bool list \<Rightarrow> 'u gop \<Rightarrow> bool" where
  "op_is_const eff no_fold live op \<longleftrightarrow>
     n_in op > 0 \<and> \<not> is_effectful_op (opcode op)
     \<and> \<not> (opcode op = OP_ISLAND \<and> (case udata op of None \<Rightarrow> False | Some u \<Rightarrow> eff u))
     \<and> list_all (\<lambda>s. \<not> (s \<ge> 0 \<and> vget False live s)) (in_slots op)
     \<and> \<not> (out op \<ge> 0 \<and> vget False no_fold (out op))
     \<and> \<not> (out2 op \<ge> 0 \<and> vget False no_fold (out2 op))"

definition set_flags :: "int list \<Rightarrow> bool list \<Rightarrow> bool list" where
  "set_flags ss xs = foldl (\<lambda>xs s. vput xs s True) xs ss"

fun scan_const :: "('u \<Rightarrow> bool) \<Rightarrow> bool list \<Rightarrow> 'u gop list \<Rightarrow> bool list \<Rightarrow> bool list" where
  "scan_const eff no_fold [] live = []"
| "scan_const eff no_fold (op # rest) live =
     (let c = op_is_const eff no_fold live op in
      c # scan_const eff no_fold rest (if c then live else set_flags (outs op) live))"

definition last_writes :: "nat \<Rightarrow> 'u gop list \<Rightarrow> bool list \<Rightarrow> int list" where
  "last_writes n os is_const =
     foldl (\<lambda>lw (i, op, c). if c then foldl (\<lambda>lw s. vput lw s (int i)) lw (outs op) else lw)
       (replicate n (-1)) (zip [0..<length os] (zip os is_const))"

text \<open>What one surviving operation refuses: inputs a later constant operation overwrites, and an output it
  updates in place whose initial contents a constant operation produces.\<close>

definition refuse_op :: "int list \<Rightarrow> nat \<Rightarrow> 'u gop \<Rightarrow> bool list \<Rightarrow> bool list" where
  "refuse_op lw i op nf =
     (let nf1 = set_flags (filter (\<lambda>s. s \<ge> 0 \<and> vget (-1) lw s > int i) (in_slots op)) nf
      in if out op \<ge> 0 \<and> vget (-1) lw (out op) \<ge> 0 \<and> out op \<in> set (in_slots op)
         then vput nf1 (out op) True else nf1)"

definition refuse :: "int list \<Rightarrow> 'u gop list \<Rightarrow> bool list \<Rightarrow> bool list \<Rightarrow> bool list" where
  "refuse lw os is_const nf =
     foldl (\<lambda>nf (i, op, c). if c then nf else refuse_op lw i op nf) nf
       (zip [0..<length os] (zip os is_const))"

definition const_round :: "('u \<Rightarrow> bool) \<Rightarrow> 'u graph \<Rightarrow> bool list \<Rightarrow> bool list" where
  "const_round eff g no_fold = scan_const eff no_fold (ops g) (map is_param (slots g))"

definition next_no_fold :: "('u \<Rightarrow> bool) \<Rightarrow> 'u graph \<Rightarrow> bool list \<Rightarrow> bool list" where
  "next_no_fold eff g no_fold =
     (let is_const = const_round eff g no_fold
      in refuse (last_writes (length (slots g)) (ops g) is_const) (ops g) is_const no_fold)"

text \<open>\<^verbatim>\<open>changed\<close> is set exactly when an entry that was clear is set.\<close>

definition n_clear :: "bool list \<Rightarrow> nat" where
  "n_clear xs = length (filter (\<lambda>b. \<not> b) xs)"

definition grows :: "bool list \<Rightarrow> bool list \<Rightarrow> bool" where
  "grows xs ys \<longleftrightarrow> length ys = length xs \<and> (\<forall>i < length xs. xs ! i \<longrightarrow> ys ! i)"

lemma grows_refl [simp]: "grows xs xs"
  by (simp add: grows_def)

lemma grows_trans: "grows xs ys \<Longrightarrow> grows ys zs \<Longrightarrow> grows xs zs"
  by (simp add: grows_def)

lemma grows_vput: "grows xs (vput xs s True)"
  by (auto simp: grows_def vput_def) (metis nth_list_update_eq nth_list_update_neq)

lemma grows_set_flags: "grows xs (set_flags ss xs)"
proof (induction ss arbitrary: xs)
  case (Cons s ss)
  show ?case using grows_trans [OF grows_vput Cons.IH [of "vput xs s True"]] by (simp add: set_flags_def)
qed (simp add: set_flags_def)

lemma grows_refuse_op: "grows nf (refuse_op lw i op nf)"
  unfolding refuse_op_def Let_def using grows_trans [OF grows_set_flags grows_vput] grows_set_flags
  by simp

lemma grows_refuse:
  fixes os :: "'u gop list"
  shows "grows nf (refuse lw os cs nf)"
proof -
  have "grows nf (foldl (\<lambda>nf (i, op, c). if c then nf else refuse_op lw i op nf) nf xs)"
    for xs :: "(nat \<times> 'u gop \<times> bool) list"
  proof (induction xs arbitrary: nf)
    case (Cons x xs)
    obtain i op c where x: "x = (i, op, c)" by (cases x)
    have "grows nf (if c then nf else refuse_op lw i op nf)" using grows_refuse_op [of nf lw i op] by simp
    from grows_trans [OF this Cons.IH] show ?case by (simp add: x)
  qed simp
  then show ?thesis by (simp add: refuse_def)
qed

lemma grows_clear:
  assumes "grows xs ys" and "ys \<noteq> xs"
  shows "n_clear ys < n_clear xs"
proof -
  have n: "n_clear zs = card {i. i < length zs \<and> \<not> zs ! i}" for zs
    by (simp add: n_clear_def length_filter_conv_card)
  obtain i where "i < length xs" "ys ! i" "\<not> xs ! i"
    using assms nth_equalityI [of ys xs] by (auto simp: grows_def)
  then have "{i. i < length ys \<and> \<not> ys ! i} \<subset> {i. i < length xs \<and> \<not> xs ! i}"
    using assms(1) by (auto simp: grows_def)
  then show ?thesis unfolding n by (rule psubset_card_mono [rotated]) simp
qed

function mark_loop :: "('u \<Rightarrow> bool) \<Rightarrow> 'u graph \<Rightarrow> bool list \<Rightarrow> bool list" where
  "mark_loop eff g no_fold =
     (let no_fold' = next_no_fold eff g no_fold in
      if no_fold' = no_fold then const_round eff g no_fold else mark_loop eff g no_fold')"
  by pat_completeness auto
termination
  by (relation "measure (\<lambda>(eff, g, no_fold). n_clear no_fold)")
    (auto simp: next_no_fold_def Let_def intro!: grows_clear grows_refuse)

declare mark_loop.simps [simp del]

definition mark_constant_ops :: "('u \<Rightarrow> bool) \<Rightarrow> 'u graph \<Rightarrow> bool list" where
  "mark_constant_ops eff g = mark_loop eff g (replicate (length (slots g)) False)"

text \<open>The loop ends at a fixpoint of the refusals.\<close>

lemma mark_loop_fixpoint:
  "\<exists>nf. mark_loop eff g no_fold = const_round eff g nf \<and> next_no_fold eff g nf = nf \<and> length nf = length no_fold"
proof (induction eff g no_fold rule: mark_loop.induct)
  case (1 eff g no_fold)
  have len: "length (next_no_fold eff g no_fold) = length no_fold"
    using grows_refuse unfolding next_no_fold_def Let_def grows_def by blast
  show ?case
  proof (cases "next_no_fold eff g no_fold = no_fold")
    case True
    then show ?thesis by (intro exI [of _ no_fold]) (simp add: mark_loop.simps Let_def)
  next
    case False
    with "1.IH" [OF refl] len show ?thesis by (auto simp: mark_loop.simps [of eff g no_fold] Let_def)
  qed
qed

section \<open>const_fold\<close>

text \<open>The sub-graph: slots are renumbered in the order the constant operations mention them.\<close>

definition map_slot :: "'u graph \<Rightarrow> int \<Rightarrow> (int \<rightharpoonup> int) \<times> 'u graph \<Rightarrow> (int \<rightharpoonup> int) \<times> 'u graph" where
  "map_slot g s st = (case st of (remap, sub) \<Rightarrow>
     (case remap s of Some _ \<Rightarrow> st
      | None \<Rightarrow> (case add_slot (len (slot_at g s)) False sub of
                  (sub', ns) \<Rightarrow> (remap(s \<mapsto> ns), sub'))))"

definition remapped :: "(int \<rightharpoonup> int) \<Rightarrow> int \<Rightarrow> int" where
  "remapped remap s = (if s \<ge> 0 then (case remap s of Some ns \<Rightarrow> ns | None \<Rightarrow> s) else s)"

definition sub_add_op :: "'u graph \<Rightarrow> (int \<rightharpoonup> int) \<times> 'u graph \<Rightarrow> 'u gop \<Rightarrow> (int \<rightharpoonup> int) \<times> 'u graph" where
  "sub_add_op g st op =
     (case foldl (\<lambda>st s. map_slot g s st) st (filter (\<lambda>s. s \<ge> 0) (in_slots op) @ outs op) of
        (remap, sub) \<Rightarrow>
          (remap, sub\<lparr>ops := ops sub @ [op\<lparr>in_slots := map (remapped remap) (in_slots op),
                     out := remapped remap (out op), out2 := remapped remap (out2 op)\<rparr>]\<rparr>))"

fun selected :: "bool list \<Rightarrow> 'a list \<Rightarrow> 'a list" where
  "selected (b # bs) (x # xs) = (if b then x # selected bs xs else selected bs xs)"
| "selected _ _ = []"

definition build_sub :: "'u graph \<Rightarrow> bool list \<Rightarrow> (int \<rightharpoonup> int) \<times> 'u graph" where
  "build_sub g is_const =
     (case foldl (sub_add_op g) (Map.empty, empty_graph) (selected is_const (ops g)) of
        (remap, sub) \<Rightarrow> (remap, sub\<lparr>result_slot := 0\<rparr>))"

text \<open>A slot's values at bind time: zeros overwritten by its fills in order.\<close>

definition fill_buffer :: "'d::zero fills \<Rightarrow> int \<Rightarrow> int \<Rightarrow> 'd list" where
  "fill_buffer fs s n =
     foldl (\<lambda>v (t, xs). if t = s then xs @ drop (length xs) v else v) (replicate (nat n) 0) fs"

definition init_mem :: "'u graph \<Rightarrow> 'd::zero fills \<Rightarrow> (int \<Rightarrow> 'd list) \<Rightarrow> 'd mem" where
  "init_mem g fs params s =
     (if is_param (slot_at g s) then params s else fill_buffer fs s (len (slot_at g s)))"

definition sub_fills :: "(int \<rightharpoonup> int) \<Rightarrow> 'd fills \<Rightarrow> 'd fills" where
  "sub_fills remap fs = concat (map (\<lambda>(s, xs). case remap s of None \<Rightarrow> [] | Some ns \<Rightarrow> [(ns, xs)]) fs)"

definition needed_slots :: "'u graph \<Rightarrow> bool list \<Rightarrow> int list \<Rightarrow> int set" where
  "needed_slots g is_const roots =
     set roots \<union> (\<Union>op \<in> set (selected (map Not is_const) (ops g)). {s \<in> set (in_slots op). s \<ge> 0})
     \<union> (if result_slot g \<ge> 0 then {result_slot g} else {})"

fun emit_fills :: "int set \<Rightarrow> (int \<Rightarrow> 'd list) \<Rightarrow> int list \<Rightarrow> int set \<Rightarrow> 'd fills" where
  "emit_fills needed val [] emitted = []"
| "emit_fills needed val (s # ss) emitted =
     (if s \<notin> needed \<or> s \<in> emitted then emit_fills needed val ss emitted
      else (s, val s) # emit_fills needed val ss (insert s emitted))"

record 'd folded =
  cf_fills :: "'d fills"
  cf_folded :: "int list"
  cf_removed :: nat

text \<open>\<open>w0\<close> is the empty evaluation state of an executor that runs outside an evaluation.\<close>

definition const_fold :: "('d::zero, 'u, 'w) kern \<Rightarrow> 'w \<Rightarrow> ('u \<Rightarrow> bool) \<Rightarrow> bool
    \<Rightarrow> 'u graph \<Rightarrow> 'd fills \<Rightarrow> int list \<Rightarrow> 'u graph \<times> 'd folded" where
  "const_fold K w0 eff disabled g fills roots =
     (let keep = (g, \<lparr>cf_fills = fills, cf_folded = [], cf_removed = 0\<rparr>) in
      if disabled then keep
      else
        let is_const = mark_constant_ops eff g in
        if \<not> list_ex (\<lambda>b. b) is_const then keep
        else
          (case build_sub g is_const of (remap, sub) \<Rightarrow>
             (case run_ops K (ops sub) (init_mem sub (sub_fills remap fills) (\<lambda>_. []), w0) of
                None \<Rightarrow> keep
              | Some (m, w) \<Rightarrow>
                 let new_fills = emit_fills (needed_slots g is_const roots) (\<lambda>s. m (remapped remap s))
                       (concat (map outs (selected is_const (ops g)))) {};
                     kept = selected (map Not is_const) (ops g)
                 in (g\<lparr>ops := kept\<rparr>,
                     \<lparr>cf_fills = filter (\<lambda>(s, _). s \<notin> fst ` set new_fills) fills @ new_fills,
                      cf_folded = map fst new_fills,
                      cf_removed = length (ops g) - length kept\<rparr>))))"

section \<open>What the pass relies on\<close>

text \<open>
  A kernel outside the effect blocklist neither reads nor changes the evaluation state; a slot that
  is written again is updated in place (the writer reads it), as the lowering and the in-place
  pass leave graphs; and no operation writes a parameter.
\<close>

definition pure_op :: "('d, 'u, 'w) kern \<Rightarrow> 'u gop \<Rightarrow> bool" where
  "pure_op K op \<longleftrightarrow> (\<exists>f. \<forall>ins n n2 w. K (op_static op) ins n n2 w = map_option (\<lambda>(v, v2). (v, v2, w)) (f ins n n2))"

definition pure_kernels :: "('d, 'u, 'w) kern \<Rightarrow> ('u \<Rightarrow> bool) \<Rightarrow> bool" where
  "pure_kernels K eff \<longleftrightarrow> (\<forall>op. \<not> is_effectful_op (opcode op)
     \<and> \<not> (opcode op = OP_ISLAND \<and> (case udata op of None \<Rightarrow> False | Some u \<Rightarrow> eff u)) \<longrightarrow> pure_op K op)"

fun upd_from :: "int set \<Rightarrow> 'u gop list \<Rightarrow> bool" where
  "upd_from W [] \<longleftrightarrow> True"
| "upd_from W (op # rest) \<longleftrightarrow>
     (\<forall>s \<in> set (outs op). s \<in> W \<longrightarrow> s = out op \<and> s \<in> set (in_slots op)) \<and> upd_from (W \<union> set (outs op)) rest"

definition updates_in_place :: "'u graph \<Rightarrow> bool" where
  "updates_in_place g \<longleftrightarrow> upd_from {} (ops g)
     \<and> list_all (\<lambda>op. list_all (\<lambda>s. \<not> is_param (slot_at g s)) (outs op)) (ops g)"

definition fills_fit :: "'u graph \<Rightarrow> 'd fills \<Rightarrow> bool" where
  "fills_fit g fs \<longleftrightarrow> list_all (\<lambda>(s, xs). int (length xs) \<le> len (slot_at g s)) fs"

section \<open>Splitting a run\<close>

lemma forward_op_pure:
  assumes "pure_op K op" and "forward_op K op (m, w) = Some (m', w')"
  shows "w' = w \<and> forward_op K op (m, v) = Some (m', v)"
proof -
  obtain f where "\<And>ins n n2 w. K (op_static op) ins n n2 w = map_option (\<lambda>(v, v2). (v, v2, w)) (f ins n n2)"
    using assms(1) by (auto simp: pure_op_def)
  with assms(2) show ?thesis
    by (auto simp: forward_op_def split: option.splits if_splits)
qed

lemma rename_op_id [simp]: "rename_op (\<lambda>s. s) op = op"
  by (simp add: rename_op_def)

lemma forward_op_agree:
  assumes "\<forall>s \<in> touched op. m s = m' s"
  shows "rel_option (\<lambda>(a, x) (b, y). (\<forall>s \<in> touched op. a s = b s) \<and> x = y)
    (forward_op K op (m, w)) (forward_op K op (m', w))"
  using forward_op_rename [of "\<lambda>s. s" "touched op" m m' op K w] assms by (simp add: agree_def)

definition const_written :: "('u gop \<times> bool) list \<Rightarrow> int set" where
  "const_written xs = (\<Union>(op, c) \<in> set xs. if c then set (outs op) else {})"

lemma const_written_simps [simp]:
  "const_written [] = {}"
  "const_written ((op, c) # xs) = (if c then set (outs op) else {}) \<union> const_written xs"
  by (auto simp: const_written_def)

lemma const_written_nth:
  "s \<in> const_written xs \<longleftrightarrow> (\<exists>j < length xs. snd (xs ! j) \<and> s \<in> set (outs (fst (xs ! j))))"
proof (induction xs)
  case (Cons x xs)
  then show ?case by (cases x) (auto simp: less_Suc_eq_0_disj)
qed simp

text \<open>\<open>L\<close> are the slots a parameter has reached; \<open>N\<close> the slots whose values matter afterwards.\<close>

fun split_ok :: "('d, 'u, 'w) kern \<Rightarrow> int set \<Rightarrow> int set \<Rightarrow> ('u gop \<times> bool) list \<Rightarrow> bool" where
  "split_ok K N L [] \<longleftrightarrow> True"
| "split_ok K N L ((op, c) # rest) \<longleftrightarrow> out op \<ge> 0 \<and>
     (if c then touched op \<inter> L = {} \<and> pure_op K op \<and> split_ok K N L rest
      else touched op \<subseteq> N \<and> (\<forall>s \<in> touched op. s \<notin> L \<longrightarrow> s \<notin> const_written rest)
        \<and> split_ok K N (L \<union> set (outs op)) rest)"

lemma run_ops_frame:
  "run_ops K xs (m, w) = Some (m', w') \<Longrightarrow> \<forall>op \<in> set xs. s \<notin> set (outs op) \<and> s \<noteq> out op \<Longrightarrow> m' s = m s"
proof (induction xs arbitrary: m w)
  case (Cons op xs)
  obtain m1 w1 where one: "forward_op K op (m, w) = Some (m1, w1)"
    using Cons.prems(1) by (auto split: option.splits)
  have "m1 s = m s" using forward_op_frame [OF one] Cons.prems(2) by simp
  with Cons one show ?case by simp
qed simp

lemma out_in_outs: "out op \<ge> 0 \<Longrightarrow> out op \<in> set (outs op)"
  by (simp add: outs_def)

lemma touched_iff: "out op \<ge> 0 \<Longrightarrow> touched op = set (in_slots op) \<union> set (outs op)"
  by (auto simp: touched_def outs_def)

lemma split_ok_outs: "split_ok K N L xs \<Longrightarrow> \<forall>y \<in> set xs. out (fst y) \<ge> 0"
  by (induction K N L xs rule: split_ok.induct) (auto split: if_splits)

lemma split_run:
  assumes "split_ok K N L xs"
    and "\<forall>s. s \<notin> L \<longrightarrow> M s = C s" and "\<forall>s \<in> N. S s = (if s \<in> L then M s else F s)"
    and "run_ops K (map fst (filter snd xs)) (C, w0) = Some (F, w0)"
  shows "rel_option (\<lambda>(a, x) (b, y). x = y \<and> (\<forall>s \<in> N. b s = a s))
    (run_ops K (map fst xs) (M, w)) (run_ops K (map fst (filter (\<lambda>x. \<not> snd x) xs)) (S, w))"
  using assms
proof (induction xs arbitrary: L M C S w)
  case Nil
  then show ?case by auto
next
  case (Cons x xs)
  obtain op c where x: "x = (op, c)" by (cases x)
  have o: "out op \<ge> 0" using Cons.prems(1) x by simp
  show ?case
  proof (cases c)
    case True
    from Cons.prems(1) x True have ok: "touched op \<inter> L = {}" "pure_op K op" "split_ok K N L xs" by auto
    obtain C' w1 where c1: "forward_op K op (C, w0) = Some (C', w1)"
      and rest: "run_ops K (map fst (filter snd xs)) (C', w1) = Some (F, w0)"
      using Cons.prems(4) x True by (auto split: option.splits)
    from forward_op_pure [OF ok(2) c1] have w1: "w1 = w0" and cw: "forward_op K op (C, w) = Some (C', w)" by auto
    have "\<forall>s \<in> touched op. C s = M s" using Cons.prems(2) ok(1) by (auto simp: disjoint_iff)
    from forward_op_agree [OF this, of K w] cw
    obtain M' where m1: "forward_op K op (M, w) = Some (M', w)" and eq: "\<forall>s \<in> touched op. C' s = M' s"
      by (auto simp: option_rel_Some1)
    have fr: "C' s = C s \<and> M' s = M s" if "s \<notin> touched op" for s
      using forward_op_frame [OF cw, of s] forward_op_frame [OF m1, of s] that o by (auto simp: touched_def)
    have "\<forall>s. s \<notin> L \<longrightarrow> M' s = C' s" using eq fr Cons.prems(2) by metis
    moreover have "\<forall>s \<in> N. S s = (if s \<in> L then M' s else F s)"
      using Cons.prems(3) fr ok(1) by (metis disjoint_iff)
    ultimately show ?thesis
      using Cons.IH [OF ok(3)] rest w1 m1 x True by simp
  next
    case False
    from Cons.prems(1) x False have ok: "touched op \<subseteq> N"
      "\<forall>s \<in> touched op. s \<notin> L \<longrightarrow> s \<notin> const_written xs" "split_ok K N (L \<union> set (outs op)) xs" by auto
    have crun: "run_ops K (map fst (filter snd xs)) (C, w0) = Some (F, w0)" using Cons.prems(4) x False by simp
    have os: "\<forall>y \<in> set xs. out (fst y) \<ge> 0" by (rule split_ok_outs [OF ok(3)])
    have keepF: "F s = C s" if "s \<notin> const_written xs" for s
      using run_ops_frame [OF crun, of s] that os out_in_outs by (fastforce simp: const_written_def)
    have same: "M s = S s" if "s \<in> touched op" for s
      using Cons.prems(2,3) ok(1,2) keepF that by (metis subsetD)
    from forward_op_agree [of op M S K w] same
    have rel: "rel_option (\<lambda>(a, x) (b, y). (\<forall>s \<in> touched op. a s = b s) \<and> x = y)
        (forward_op K op (M, w)) (forward_op K op (S, w))" by blast
    show ?thesis
    proof (cases "forward_op K op (M, w)")
      case None
      with rel x False show ?thesis by simp
    next
      case (Some p)
      obtain M' w' where m1: "forward_op K op (M, w) = Some (M', w')" using Some by (cases p) auto
      then obtain S' where s1: "forward_op K op (S, w) = Some (S', w')" and eq: "\<forall>s \<in> touched op. M' s = S' s"
        using rel by (auto simp: option_rel_Some1)
      have fr: "M' s = M s \<and> S' s = S s" if "s \<notin> set (outs op)" for s
        using forward_op_frame [OF m1, of s] forward_op_frame [OF s1, of s] that out_in_outs [OF o] by auto
      have "\<forall>s. s \<notin> L \<union> set (outs op) \<longrightarrow> M' s = C s" using fr Cons.prems(2) by simp
      moreover have "S' s = (if s \<in> L \<union> set (outs op) then M' s else F s)" if "s \<in> N" for s
      proof (cases "s \<in> set (outs op)")
        case True
        then show ?thesis using eq by (simp add: touched_def)
      next
        case False
        then show ?thesis using fr Cons.prems(3) that by simp
      qed
      ultimately show ?thesis using Cons.IH [OF ok(3) _ _ crun] m1 s1 x False by simp
    qed
  qed
qed

section \<open>The marks split the graph\<close>

lemma grows_antisym: "grows xs ys \<Longrightarrow> grows ys xs \<Longrightarrow> xs = ys"
  by (rule nth_equalityI) (auto simp: grows_def)

lemma foldl_grows_fix:
  assumes "\<And>a x. grows a (f a x)" and "foldl f a xs = a" and "x \<in> set xs"
  shows "f a x = a"
  using assms(2,3)
proof (induction xs)
  case (Cons y ys)
  have "grows b (foldl f b zs)" for b zs
  proof (induction zs arbitrary: b)
    case (Cons z zs)
    then show ?case using grows_trans [OF assms(1) Cons.IH] by simp
  qed simp
  then have "grows (f a y) a" using Cons.prems(1) by (metis foldl_Cons)
  with assms(1) have "f a y = a" by (metis grows_antisym)
  with Cons show ?case by auto
qed simp

lemma vget_set_flags: "vget False (set_flags ss xs) s \<longleftrightarrow>
    vget False xs s \<or> (s \<in> set ss \<and> 0 \<le> s \<and> nat s < length xs)"
proof (induction ss arbitrary: xs)
  case (Cons t ss)
  have "set_flags (t # ss) xs = set_flags ss (vput xs t True)" by (simp add: set_flags_def)
  with Cons [of "vput xs t True"] show ?case by (auto simp: vget_vput)
qed (simp add: set_flags_def)

lemma length_set_flags [simp]: "length (set_flags ss xs) = length xs"
  using grows_set_flags [of xs ss] by (simp add: grows_def)

lemma length_scan_const [simp]: "length (scan_const eff nf xs live) = length xs"
  by (induction eff nf xs live rule: scan_const.induct) (auto simp: Let_def)

lemma refuse_fix:
  assumes "refuse lw os cs nf = nf" and "i < length os" and "length cs = length os" and "\<not> cs ! i"
  shows "refuse_op lw i (os ! i) nf = nf"
proof -
  let ?f = "\<lambda>nf (i, op, c). if c then nf else refuse_op lw i op nf"
  have "(i, os ! i, cs ! i) \<in> set (zip [0..<length os] (zip os cs))"
    using assms(2,3) by (auto simp: set_zip intro!: exI [of _ i])
  moreover have "grows a (?f a x)" for a x using grows_refuse_op by (auto split: prod.splits)
  ultimately have "?f nf (i, os ! i, cs ! i) = nf"
    using foldl_grows_fix [of ?f nf "zip [0..<length os] (zip os cs)" "(i, os ! i, cs ! i)"] assms(1)
    unfolding refuse_def by blast
  with assms(4) show ?thesis by simp
qed

lemma refuse_op_fix:
  assumes "refuse_op lw i op nf = nf"
  shows "s \<in> set (in_slots op) \<Longrightarrow> 0 \<le> s \<Longrightarrow> nat s < length nf \<Longrightarrow> int i < vget (-1) lw s \<Longrightarrow> vget False nf s"
    and "out op \<in> set (in_slots op) \<Longrightarrow> 0 \<le> out op \<Longrightarrow> nat (out op) < length nf \<Longrightarrow>
      0 \<le> vget (-1) lw (out op) \<Longrightarrow> vget False nf (out op)"
proof -
  let ?ss = "filter (\<lambda>s. s \<ge> 0 \<and> vget (-1) lw s > int i) (in_slots op)"
  let ?c = "out op \<ge> 0 \<and> vget (-1) lw (out op) \<ge> 0 \<and> out op \<in> set (in_slots op)"
  have eq: "(if ?c then vput (set_flags ?ss nf) (out op) True else set_flags ?ss nf) = nf"
    using assms by (simp add: refuse_op_def Let_def)
  show "vget False nf s" if "s \<in> set (in_slots op)" "0 \<le> s" "nat s < length nf" "int i < vget (-1) lw s"
  proof -
    have "vget False (if ?c then vput (set_flags ?ss nf) (out op) True else set_flags ?ss nf) s"
      using that by (auto simp: vget_vput vget_set_flags)
    then show ?thesis unfolding eq .
  qed
  show "vget False nf (out op)" if "out op \<in> set (in_slots op)" "0 \<le> out op" "nat (out op) < length nf"
      "0 \<le> vget (-1) lw (out op)"
  proof -
    have "vget False (if ?c then vput (set_flags ?ss nf) (out op) True else set_flags ?ss nf) (out op)"
      using that by (simp add: vget_vput)
    then show ?thesis unfolding eq .
  qed
qed

lemma last_writes_snoc:
  "length cs = length os \<Longrightarrow> last_writes n (os @ [op]) (cs @ [c]) =
     (if c then foldl (\<lambda>lw s. vput lw s (int (length os))) (last_writes n os cs) (outs op) else last_writes n os cs)"
  by (simp add: last_writes_def)

lemma vget_foldl_vput:
  "vget d (foldl (\<lambda>l s. vput l s x) l ss) t = (if t \<in> set ss \<and> 0 \<le> t \<and> nat t < length l then x else vget d l t)"
proof (induction ss arbitrary: l)
  case (Cons s ss)
  then show ?case by (auto simp: vget_vput)
qed simp

lemma last_writes_ge:
  assumes "length cs = length os"
  shows "length (last_writes n os cs) = n \<and> vget (-1) (last_writes n os cs) s < int (length os) \<and>
    (\<forall>j < length os. cs ! j \<and> s \<in> set (outs (os ! j)) \<and> 0 \<le> s \<and> nat s < n \<longrightarrow>
      int j \<le> vget (-1) (last_writes n os cs) s)"
  using assms
proof (induction os arbitrary: cs rule: rev_induct)
  case Nil
  then show ?case by (simp add: last_writes_def vget_def)
next
  case (snoc op os)
  obtain cs' c where cs: "cs = cs' @ [c]" using snoc.prems by (cases cs rule: rev_cases) auto
  have l: "length cs' = length os" using snoc.prems cs by simp
  have len: "length (foldl (\<lambda>lw s. vput lw s x) lw ss) = length lw" for lw :: "int list" and x ss
    by (induction ss arbitrary: lw) auto
  from snoc.IH [OF l] show ?case
    unfolding cs last_writes_snoc [OF l]
    by (auto simp: vget_foldl_vput len nth_append l less_Suc_eq)
qed

lemma scan_const_inputs:
  assumes "(op, True) \<in> set (zip xs (scan_const eff nf xs live))" and "vget False live s" and "0 \<le> s"
  shows "s \<notin> set (in_slots op)"
  using assms
proof (induction xs arbitrary: live)
  case (Cons x xs)
  let ?c = "op_is_const eff nf live x"
  have grow: "vget False (if ?c then live else set_flags (outs x) live) s"
    using Cons.prems(2) by (simp add: vget_set_flags)
  show ?case
  proof (cases "op = x \<and> ?c")
    case True
    then show ?thesis using Cons.prems(2,3) by (auto simp: op_is_const_def list_all_iff)
  next
    case False
    then show ?thesis using Cons.IH [OF _ grow Cons.prems(3)] Cons.prems(1) by (auto simp: Let_def)
  qed
qed simp

lemma scan_const_ok:
  assumes "(op, True) \<in> set (zip xs (scan_const eff nf xs live))"
  shows "\<exists>live'. op_is_const eff nf live' op"
  using assms
proof (induction xs arbitrary: live)
  case (Cons x xs)
  then show ?case by (auto simp: Let_def)
qed simp

text \<open>A constant operation does not read what an earlier surviving operation wrote.\<close>

lemma scan_live_inputs:
  assumes "cs = scan_const eff nf xs live" and "i < length xs" and "\<not> cs ! i" and "i < j" and "j < length xs"
    and "cs ! j" and "s \<in> set (outs (xs ! i))" and "0 \<le> s \<Longrightarrow> nat s < length live"
  shows "s \<notin> set (in_slots (xs ! j))"
  using assms
proof (induction xs arbitrary: cs live i j)
  case (Cons x xs)
  let ?c = "op_is_const eff nf live x"
  let ?live = "if ?c then live else set_flags (outs x) live"
  have cs: "cs = ?c # scan_const eff nf xs ?live" using Cons.prems(1) by (simp add: Let_def)
  obtain j' where j: "j = Suc j'" using Cons.prems(4) by (cases j) auto
  show ?case
  proof (cases i)
    case 0
    then have nc: "\<not> ?c" and mem: "s \<in> set (outs x)" using Cons.prems(3,7) cs by auto
    have s0: "0 \<le> s" using mem by (auto simp: outs_def split: if_splits)
    then have "vget False ?live s" using nc mem Cons.prems(8) by (simp add: vget_set_flags)
    moreover have "(xs ! j', True) \<in> set (zip xs (scan_const eff nf xs ?live))"
      using Cons.prems(5,6) cs j by (auto simp: set_zip)
    ultimately show ?thesis using scan_const_inputs s0 j by fastforce
  next
    case (Suc i')
    have "s \<notin> set (in_slots (xs ! j'))"
    proof (rule Cons.IH [where cs = "scan_const eff nf xs ?live" and live = ?live and i = i' and j = j'])
      show "0 \<le> s \<Longrightarrow> nat s < length ?live" using Cons.prems(8) by simp
    qed (use Cons.prems(2-7) cs j Suc in simp_all)
    then show ?thesis using j by simp
  qed
qed simp

lemma upd_from_reads:
  assumes "upd_from W xs" and "op \<in> set xs" and "s \<in> set (outs op)" and "s \<in> W"
  shows "s = out op \<and> s \<in> set (in_slots op)"
  using assms by (induction W xs rule: upd_from.induct) auto

text \<open>The facts about the final marks, collected once.\<close>

lemma mark_facts:
  fixes g :: "'u graph"
  assumes wf: "wf_graph g" and cs: "cs = mark_constant_ops eff g"
  obtains nf where "cs = scan_const eff nf (ops g) (map is_param (slots g))"
    and "length nf = length (slots g)" and "length cs = length (ops g)"
    and "\<And>i j s. \<lbrakk>i < length (ops g); \<not> cs ! i; i < j; j < length (ops g); cs ! j; s \<in> set (outs (ops g ! j))\<rbrakk>
      \<Longrightarrow> s \<notin> set (in_slots (ops g ! i))"
    and "\<And>i j. \<lbrakk>i < length (ops g); \<not> cs ! i; j < length (ops g); cs ! j; out (ops g ! i) \<in> set (in_slots (ops g ! i));
      out (ops g ! i) \<ge> 0\<rbrakk> \<Longrightarrow> out (ops g ! i) \<notin> set (outs (ops g ! j))"
proof -
  let ?n = "length (slots g)" and ?os = "ops g"
  obtain nf where nf: "cs = const_round eff g nf" "next_no_fold eff g nf = nf" "length nf = ?n"
    using mark_loop_fixpoint [of eff g "replicate ?n False"] cs by (auto simp: mark_constant_ops_def)
  have scan: "cs = scan_const eff nf ?os (map is_param (slots g))" using nf(1) by (simp add: const_round_def)
  then have lc: "length cs = length ?os" by simp
  let ?lw = "last_writes ?n ?os cs"
  have fix_: "refuse ?lw ?os cs nf = nf" using nf(1,2) by (simp add: next_no_fold_def Let_def)
  have valid: "0 \<le> s \<and> nat s < ?n" if "j < length ?os" "s \<in> set (outs (?os ! j))" for j s
    using wf_graph_valid [OF wf nth_mem [OF that(1)]] that(2) by simp
  have not_nf: "\<not> vget False nf s" if j: "j < length ?os" "cs ! j" "s \<in> set (outs (?os ! j))" for j s
  proof -
    have "(?os ! j, True) \<in> set (zip ?os cs)" using j lc by (auto simp: set_zip)
    then obtain lv where "op_is_const eff nf lv (?os ! j)" using scan_const_ok scan by blast
    with j(3) show ?thesis by (auto simp: op_is_const_def outs_def split: if_splits)
  qed
  show ?thesis
  proof (rule that [OF scan nf(3) lc])
    fix i j s
    assume a: "i < length ?os" "\<not> cs ! i" "i < j" "j < length ?os" "cs ! j" "s \<in> set (outs (?os ! j))"
    have "int j \<le> vget (-1) ?lw s" using last_writes_ge [OF lc, of ?n s] a valid [OF a(4,6)] by blast
    then have "int i < vget (-1) ?lw s" using a(3) by simp
    then show "s \<notin> set (in_slots (?os ! i))"
      using refuse_op_fix(1) [OF refuse_fix [OF fix_ a(1) lc a(2)]] valid [OF a(4,6)] nf(3) not_nf [OF a(4,5,6)] by metis
  next
    fix i j
    assume a: "i < length ?os" "\<not> cs ! i" "j < length ?os" "cs ! j"
      "out (?os ! i) \<in> set (in_slots (?os ! i))" "out (?os ! i) \<ge> 0"
    show "out (?os ! i) \<notin> set (outs (?os ! j))"
    proof
      assume mem: "out (?os ! i) \<in> set (outs (?os ! j))"
      have "int j \<le> vget (-1) ?lw (out (?os ! i))"
        using last_writes_ge [OF lc, of ?n "out (?os ! i)"] a mem valid [OF a(3) mem] by blast
      then show False
        using refuse_op_fix(2) [OF refuse_fix [OF fix_ a(1) lc a(2)] a(5,6)] valid [OF a(3) mem] nf(3)
          not_nf [OF a(3,4) mem] by simp
    qed
  qed
qed

lemma upd_from_nth:
  assumes "upd_from W xs" and "i < j" and "j < length xs" and "s \<in> set (outs (xs ! i))" and "s \<in> set (outs (xs ! j))"
  shows "s = out (xs ! j) \<and> s \<in> set (in_slots (xs ! j))"
  using assms
proof (induction W xs arbitrary: i j rule: upd_from.induct)
  case (2 W op rest)
  then obtain j' where j: "j = Suc j'" by (cases j) auto
  show ?case
  proof (cases i)
    case 0
    then show ?thesis using upd_from_reads [of "W \<union> set (outs op)" rest "rest ! j'" s] 2 j by auto
  next
    case (Suc i')
    then show ?thesis using "2.IH" [of i' j'] 2 j by auto
  qed
qed simp

text \<open>No slot is written both by a folded and by a surviving operation.\<close>

lemma marks_disjoint:
  fixes g :: "'u graph"
  assumes wf: "wf_graph g" and upd: "upd_from {} (ops g)" and cs: "cs = mark_constant_ops eff g"
    and ij: "i < length (ops g)" "\<not> cs ! i" "j < length (ops g)" "cs ! j" and s: "s \<in> set (outs (ops g ! i))"
  shows "s \<notin> set (outs (ops g ! j))"
proof
  assume s': "s \<in> set (outs (ops g ! j))"
  obtain nf where scan: "cs = scan_const eff nf (ops g) (map is_param (slots g))"
    and lc: "length cs = length (ops g)"
    and before: "\<And>i j s. \<lbrakk>i < length (ops g); \<not> cs ! i; i < j; j < length (ops g); cs ! j; s \<in> set (outs (ops g ! j))\<rbrakk>
      \<Longrightarrow> s \<notin> set (in_slots (ops g ! i))"
    and rmw: "\<And>i j. \<lbrakk>i < length (ops g); \<not> cs ! i; j < length (ops g); cs ! j; out (ops g ! i) \<in> set (in_slots (ops g ! i));
      out (ops g ! i) \<ge> 0\<rbrakk> \<Longrightarrow> out (ops g ! i) \<notin> set (outs (ops g ! j))"
    using mark_facts [OF wf cs] by metis
  consider "i < j" | "j < i" using ij by (metis linorder_neqE_nat)
  then show False
  proof cases
    case 1
    from upd_from_nth [OF upd 1 ij(3) s s'] have r: "s \<in> set (in_slots (ops g ! j))" ..
    have "0 \<le> s \<Longrightarrow> nat s < length (map is_param (slots g))"
      using wf_graph_valid [OF wf nth_mem [OF ij(1)]] s by simp
    from scan_live_inputs [OF scan ij(1,2) 1 ij(3,4) s this] r show False by blast
  next
    case 2
    from upd_from_nth [OF upd 2 ij(1) s' s] have "s = out (ops g ! i)" "s \<in> set (in_slots (ops g ! i))" by blast+
    moreover have "s \<ge> 0" using s by (auto simp: outs_def split: if_splits)
    ultimately show False using rmw [OF ij] s' by simp
  qed
qed

lemma split_okI:
  assumes "\<And>i. i < length xs \<Longrightarrow> out (fst (xs ! i)) \<ge> 0"
    and "\<And>i s. i < length xs \<Longrightarrow> snd (xs ! i) \<Longrightarrow> s \<in> touched (fst (xs ! i)) \<Longrightarrow>
      s \<notin> L \<and> (\<forall>k < i. \<not> snd (xs ! k) \<longrightarrow> s \<notin> set (outs (fst (xs ! k))))"
    and "\<And>i. i < length xs \<Longrightarrow> snd (xs ! i) \<Longrightarrow> pure_op K (fst (xs ! i))"
    and "\<And>i. i < length xs \<Longrightarrow> \<not> snd (xs ! i) \<Longrightarrow> touched (fst (xs ! i)) \<subseteq> N"
    and "\<And>i j s. i < j \<Longrightarrow> j < length xs \<Longrightarrow> \<not> snd (xs ! i) \<Longrightarrow> snd (xs ! j) \<Longrightarrow> s \<in> touched (fst (xs ! i)) \<Longrightarrow>
      s \<notin> set (outs (fst (xs ! j)))"
  shows "split_ok K N L xs"
  using assms
proof (induction xs arbitrary: L)
  case (Cons x xs)
  obtain op c where x: "x = (op, c)" by (cases x)
  let ?L = "if c then L else L \<union> set (outs op)"
  have "split_ok K N ?L xs"
  proof (rule Cons.IH)
    fix i s assume "i < length xs" "snd (xs ! i)" "s \<in> touched (fst (xs ! i))"
    then have n: "s \<notin> L \<and> (\<forall>k < Suc i. \<not> snd ((x # xs) ! k) \<longrightarrow> s \<notin> set (outs (fst ((x # xs) ! k))))"
      using Cons.prems(2) [of "Suc i" s] by simp
    have "\<not> snd (xs ! k) \<longrightarrow> s \<notin> set (outs (fst (xs ! k)))" if "k < i" for k
      using n that by (auto dest: spec [of _ "Suc k"])
    moreover have "c \<or> s \<notin> set (outs op)" using n x by (auto dest: spec [of _ 0])
    ultimately show "s \<notin> ?L \<and> (\<forall>k < i. \<not> snd (xs ! k) \<longrightarrow> s \<notin> set (outs (fst (xs ! k))))" using n by auto
  qed (use Cons.prems(1,3-5) [of "Suc _"] Cons.prems(5) [of "Suc _" "Suc _"] in \<open>simp_all\<close>)
  moreover have "s \<notin> const_written xs" if "\<not> c" "s \<in> touched op" for s
  proof
    assume "s \<in> const_written xs"
    then obtain j where "j < length xs" "snd (xs ! j)" "s \<in> set (outs (fst (xs ! j)))"
      by (auto simp: const_written_nth)
    then show False using Cons.prems(5) [of 0 "Suc j" s] that x by simp
  qed
  ultimately show ?case
    using Cons.prems(1-4) [of 0] x by (auto simp: disjoint_iff)
qed simp

lemma marks_split:
  fixes g :: "'u graph"
  assumes wf: "wf_graph g" and upd: "updates_in_place g" and pure: "pure_kernels K eff"
    and cs: "cs = mark_constant_ops eff g"
    and N: "\<And>i. i < length (ops g) \<Longrightarrow> \<not> cs ! i \<Longrightarrow> touched (ops g ! i) \<subseteq> N"
  shows "split_ok K N {s. 0 \<le> s \<and> is_param (slot_at g s)} (zip (ops g) cs)" and "length cs = length (ops g)"
proof -
  let ?os = "ops g" and ?lv = "map is_param (slots g)"
  have u: "upd_from {} ?os" "\<And>op s. op \<in> set ?os \<Longrightarrow> s \<in> set (outs op) \<Longrightarrow> \<not> is_param (slot_at g s)"
    using upd by (auto simp: updates_in_place_def list_all_iff)
  obtain nf where scan: "cs = scan_const eff nf ?os ?lv" and lc: "length cs = length ?os"
    and before: "\<And>i j s. \<lbrakk>i < length ?os; \<not> cs ! i; i < j; j < length ?os; cs ! j; s \<in> set (outs (?os ! j))\<rbrakk>
      \<Longrightarrow> s \<notin> set (in_slots (?os ! i))"
    using mark_facts [OF wf cs] by metis
  show "length cs = length ?os" by (rule lc)
  have val: "0 \<le> s \<and> nat s < length (slots g)" if "i < length ?os" "s \<in> set (outs (?os ! i)) \<or> s \<in> set (in_slots (?os ! i))" for i s
    using wf_graph_valid [OF wf nth_mem [OF that(1)]] that(2) by blast
  have t: "touched (?os ! i) = set (in_slots (?os ! i)) \<union> set (outs (?os ! i))" if "i < length ?os" for i
    using touched_iff wf_graph_out [OF wf nth_mem [OF that]] by blast
  have cmem: "(?os ! i, True) \<in> set (zip ?os (scan_const eff nf ?os ?lv))" if "i < length ?os" "cs ! i" for i
    using that lc scan by (force simp: set_zip)
  show "split_ok K N {s. 0 \<le> s \<and> is_param (slot_at g s)} (zip ?os cs)"
  proof (rule split_okI)
    fix i assume "i < length (zip ?os cs)"
    then show "out (fst (zip ?os cs ! i)) \<ge> 0" using wf_graph_out [OF wf nth_mem] by simp
  next
    fix i s assume a: "i < length (zip ?os cs)" "snd (zip ?os cs ! i)" "s \<in> touched (fst (zip ?os cs ! i))"
    then have i: "i < length ?os" "cs ! i" and s: "s \<in> set (in_slots (?os ! i)) \<or> s \<in> set (outs (?os ! i))"
      using t by auto
    have v: "0 \<le> s \<and> nat s < length (slots g)" using val [OF i(1)] s by blast
    then have "vget False ?lv s = is_param (slot_at g s)" by (simp add: slot_at_def vget_def)
    then have "\<not> is_param (slot_at g s)"
      using s u(2) [OF nth_mem [OF i(1)]] scan_const_inputs [OF cmem [OF i], of s] v by metis
    moreover have "s \<notin> set (outs (?os ! k))" if "k < i" "\<not> cs ! k" for k
    proof
      assume m: "s \<in> set (outs (?os ! k))"
      have k: "k < length ?os" using that i by simp
      have "s \<notin> set (in_slots (?os ! i))"
        using scan_live_inputs [OF scan k that(2,1) i m] val [OF k] m by simp
      moreover have "s \<notin> set (outs (?os ! i))" by (rule marks_disjoint [OF wf u(1) cs k that(2) i m])
      ultimately show False using s by blast
    qed
    ultimately show "s \<notin> {s. 0 \<le> s \<and> is_param (slot_at g s)}
        \<and> (\<forall>k < i. \<not> snd (zip ?os cs ! k) \<longrightarrow> s \<notin> set (outs (fst (zip ?os cs ! k))))"
      using i lc by auto
  next
    fix i assume a: "i < length (zip ?os cs)" "snd (zip ?os cs ! i)"
    then obtain lv where "op_is_const eff nf lv (?os ! i)" using cmem scan_const_ok by fastforce
    then show "pure_op K (fst (zip ?os cs ! i))"
      using pure a by (simp add: op_is_const_def pure_kernels_def)
  next
    fix i assume "i < length (zip ?os cs)" "\<not> snd (zip ?os cs ! i)"
    then show "touched (fst (zip ?os cs ! i)) \<subseteq> N" using N by simp
  next
    fix i j s assume a: "i < j" "j < length (zip ?os cs)" "\<not> snd (zip ?os cs ! i)" "snd (zip ?os cs ! j)"
      "s \<in> touched (fst (zip ?os cs ! i))"
    then have ij: "i < length ?os" "\<not> cs ! i" "j < length ?os" "cs ! j" by auto
    then have "s \<in> set (in_slots (?os ! i)) \<or> s \<in> set (outs (?os ! i))" using a t by auto
    then show "s \<notin> set (outs (fst (zip ?os cs ! j)))"
      using before [OF ij(1,2) a(1) ij(3,4)] marks_disjoint [OF wf u(1) cs ij] ij lc by auto
  qed
qed

section \<open>The sub-graph computes the same values\<close>

definition remap_ok :: "'u graph \<Rightarrow> (int \<rightharpoonup> int) \<Rightarrow> Slot list \<Rightarrow> bool" where
  "remap_ok g remap ss \<longleftrightarrow>
     (\<forall>s ns. remap s = Some ns \<longrightarrow> 0 \<le> s \<and> 0 \<le> ns \<and> nat ns < length ss
        \<and> ss ! nat ns = \<lparr>offset = 0, len = len (slot_at g s), is_param = False\<rparr>)
     \<and> (\<forall>s t ns. remap s = Some ns \<longrightarrow> remap t = Some ns \<longrightarrow> s = t)"

lemma map_slot_ok:
  assumes "remap_ok g remap (slots sub)" and "0 \<le> s" and "map_slot g s (remap, sub) = (remap', sub')"
  shows "remap_ok g remap' (slots sub') \<and> remap \<subseteq>\<^sub>m remap' \<and> s \<in> dom remap' \<and> ops sub' = ops sub"
proof (cases "remap s")
  case None
  then have eq: "remap' = remap(s \<mapsto> int (length (slots sub)))"
    "slots sub' = slots sub @ [\<lparr>offset = 0, len = len (slot_at g s), is_param = False\<rparr>]" "ops sub' = ops sub"
    using assms(3) by (auto simp: map_slot_def add_slot_def)
  have fresh: "remap t \<noteq> Some (int (length (slots sub)))" for t
    using assms(1) by (fastforce simp: remap_ok_def)
  have "remap_ok g remap' (slots sub')"
    using assms(1,2) fresh unfolding remap_ok_def eq by (auto simp: nth_append less_Suc_eq split: if_splits)
  moreover have "remap \<subseteq>\<^sub>m remap'" using None by (auto simp: eq map_le_def)
  ultimately show ?thesis by (simp add: eq)
next
  case (Some ns)
  with assms show ?thesis by (auto simp: map_slot_def)
qed

lemma map_slots_ok:
  assumes "remap_ok g remap (slots sub)" and "\<forall>s \<in> set ss. 0 \<le> s"
    and "foldl (\<lambda>st s. map_slot g s st) (remap, sub) ss = (remap', sub')"
  shows "remap_ok g remap' (slots sub') \<and> remap \<subseteq>\<^sub>m remap' \<and> set ss \<subseteq> dom remap' \<and> ops sub' = ops sub"
  using assms
proof (induction ss arbitrary: remap sub)
  case (Cons s ss)
  obtain rm1 sub1 where one: "map_slot g s (remap, sub) = (rm1, sub1)" by fastforce
  note a = map_slot_ok [OF Cons.prems(1) _ one]
  have b: "remap_ok g remap' (slots sub') \<and> rm1 \<subseteq>\<^sub>m remap' \<and> set ss \<subseteq> dom remap' \<and> ops sub' = ops sub1"
    using Cons.IH [of rm1 sub1] a Cons.prems(2,3) one by simp
  then have "dom rm1 \<subseteq> dom remap'" by (simp add: map_le_implies_dom_le)
  with a b Cons.prems(2) show ?case by (auto intro: map_le_trans)
qed simp

lemma remapped_mono: "remap \<subseteq>\<^sub>m remap' \<Longrightarrow> s \<in> dom remap \<Longrightarrow> remapped remap' s = remapped remap s"
  by (auto simp: remapped_def map_le_def split: option.splits)

lemma rename_op_cong: "out op \<ge> 0 \<Longrightarrow> \<forall>s \<in> touched op. \<rho> s = \<rho>' s \<Longrightarrow> rename_op \<rho> op = rename_op \<rho>' op"
  by (auto simp: rename_op_def touched_def outs_def)

lemma foldl_sub_ok:
  assumes "remap_ok g remap (slots sub)" and "ops sub = map (rename_op (remapped remap)) done"
    and "\<forall>op \<in> set done. out op \<ge> 0 \<and> touched op \<subseteq> dom remap"
    and "\<forall>op \<in> set xs. out op \<ge> 0 \<and> (\<forall>s \<in> set (in_slots op). 0 \<le> s)"
    and "foldl (sub_add_op g) (remap, sub) xs = (remap', sub')"
  shows "remap_ok g remap' (slots sub') \<and> ops sub' = map (rename_op (remapped remap')) (done @ xs)
    \<and> (\<forall>op \<in> set (done @ xs). touched op \<subseteq> dom remap')"
  using assms
proof (induction xs arbitrary: remap sub "done")
  case (Cons op xs)
  have op: "out op \<ge> 0" "\<forall>s \<in> set (in_slots op). 0 \<le> s" using Cons.prems(4) by auto
  let ?refs = "filter (\<lambda>s. s \<ge> 0) (in_slots op) @ outs op"
  obtain rm1 sub1 where one: "foldl (\<lambda>st s. map_slot g s st) (remap, sub) ?refs = (rm1, sub1)" by fastforce
  have "\<forall>s \<in> set ?refs. 0 \<le> s" by (auto simp: outs_def)
  note m = map_slots_ok [OF Cons.prems(1) this one]
  have ts: "touched op \<subseteq> dom rm1" using m op by (auto simp: touched_def outs_def)
  let ?op = "op\<lparr>in_slots := map (remapped rm1) (in_slots op), out := remapped rm1 (out op),
      out2 := remapped rm1 (out2 op)\<rparr>"
  have ren: "?op = rename_op (remapped rm1) op" by (simp add: rename_op_def remapped_def)
  have step: "sub_add_op g (remap, sub) op = (rm1, sub1\<lparr>ops := ops sub1 @ [rename_op (remapped rm1) op]\<rparr>)"
    using one by (simp add: sub_add_op_def ren [symmetric])
  have old: "rename_op (remapped remap) d = rename_op (remapped rm1) d" if "d \<in> set done" for d
    using rename_op_cong [of d] Cons.prems(3) m that by (metis remapped_mono subsetD)
  have dm: "dom remap \<subseteq> dom rm1" using m by (simp add: map_le_implies_dom_le)
  have dd: "\<forall>d \<in> set done. out d \<ge> 0 \<and> touched d \<subseteq> dom rm1" using Cons.prems(3) dm by blast
  have mo: "map (rename_op (remapped remap)) done = map (rename_op (remapped rm1)) done" using old by simp
  show ?case
    using Cons.IH [of rm1 "sub1\<lparr>ops := ops sub1 @ [rename_op (remapped rm1) op]\<rparr>" "done @ [op]"]
      Cons.prems(2,4,5) m ts op step mo dd by simp
qed simp

lemma run_ops_rename:
  assumes "agree \<rho> S m m'" and "inj_on \<rho> S"
    and "\<forall>op \<in> set xs. touched op \<subseteq> S \<and> (out2 op \<ge> 0 \<longrightarrow> \<rho> (out2 op) \<ge> 0)"
  shows "rel_option (\<lambda>(a, x) (b, y). agree \<rho> S a b \<and> x = y)
    (run_ops K xs (m, w)) (run_ops K (map (rename_op \<rho>) xs) (m', w))"
  using assms
proof (induction xs arbitrary: m m' w)
  case (Cons op xs)
  have r: "rel_option (\<lambda>(a, x) (b, y). agree \<rho> S a b \<and> x = y)
      (forward_op K op (m, w)) (forward_op K (rename_op \<rho> op) (m', w))"
    using forward_op_rename [of \<rho> S m m' op K w] Cons.prems by auto
  show ?case
  proof (cases "forward_op K op (m, w)")
    case None
    with r show ?thesis by simp
  next
    case (Some p)
    obtain a x where p: "p = (a, x)" by (cases p)
    with r Some obtain b where "forward_op K (rename_op \<rho> op) (m', w) = Some (b, x)" "agree \<rho> S a b"
      by (auto simp: option_rel_Some1)
    with Cons.IH [of a b x] Cons.prems Some p show ?thesis by simp
  qed
qed simp

section \<open>Fills\<close>

lemma foldl_fill_length:
  "\<forall>(t, xs) \<in> set fs. t = s \<longrightarrow> length xs \<le> length v \<Longrightarrow>
     length (foldl (\<lambda>v (t, xs). if t = s then xs @ drop (length xs) v else v) v fs) = length v"
proof (induction fs arbitrary: v)
  case (Cons f fs)
  then show ?case by (cases f) auto
qed simp

lemma fill_buffer_length:
  fixes fs :: "'d::zero fills"
  assumes "fills_fit g fs" and "0 \<le> len (slot_at g s)"
  shows "int (length (fill_buffer fs s (len (slot_at g s)))) = len (slot_at g s)"
proof -
  have "\<forall>(t, xs) \<in> set fs. t = s \<longrightarrow> length xs \<le> length (replicate (nat (len (slot_at g s))) (0::'d))"
    using assms by (auto simp: fills_fit_def list_all_iff)
  from foldl_fill_length [OF this] assms(2) show ?thesis by (simp add: fill_buffer_def)
qed

lemma sub_fills_simps [simp]:
  "sub_fills remap [] = []"
  "sub_fills remap ((t, xs) # fs) = (case remap t of None \<Rightarrow> [] | Some nt \<Rightarrow> [(nt, xs)]) @ sub_fills remap fs"
  by (simp_all add: sub_fills_def)

lemma fill_buffer_sub:
  assumes "remap s = Some ns" and "\<And>t. remap t = Some ns \<Longrightarrow> t = s"
  shows "fill_buffer (sub_fills remap fs) ns n = fill_buffer fs s n"
proof -
  let ?f = "\<lambda>s v (t, xs). if t = s then xs @ drop (length xs) v else v"
  have "foldl (?f ns) v (sub_fills remap fs) = foldl (?f s) v fs" for v :: "'a list"
  proof (induction fs arbitrary: v)
    case Nil
    then show ?case by (simp add: sub_fills_def)
  next
    case (Cons f fs)
    obtain t xs where f: "f = (t, xs)" by (cases f)
    show ?case
    proof (cases "t = s")
      case True
      then show ?thesis using Cons.IH assms(1) by (simp add: f)
    next
      case False
      then have "remap t \<noteq> Some ns" using assms(2) by blast
      with False show ?thesis using Cons.IH by (cases "remap t") (simp_all add: f)
    qed
  qed
  then show ?thesis by (simp add: fill_buffer_def)
qed

lemma fill_buffer_filter:
  "\<forall>x \<in> set fs. fst x = s \<longrightarrow> P x \<Longrightarrow> fill_buffer (filter P fs) s n = fill_buffer fs s n"
proof -
  have "\<forall>x \<in> set fs. fst x = s \<longrightarrow> P x \<Longrightarrow>
      foldl (\<lambda>v (t, xs). if t = s then xs @ drop (length xs) v else v) v (filter P fs)
      = foldl (\<lambda>v (t, xs). if t = s then xs @ drop (length xs) v else v) v fs" for v
  proof (induction fs arbitrary: v)
    case (Cons f fs)
    then show ?case by (cases f) auto
  qed simp
  then show "\<forall>x \<in> set fs. fst x = s \<longrightarrow> P x \<Longrightarrow> fill_buffer (filter P fs) s n = fill_buffer fs s n"
    by (simp add: fill_buffer_def)
qed

lemma fill_buffer_append_none:
  "\<forall>x \<in> set gs. fst x \<noteq> s \<Longrightarrow> fill_buffer (fs @ gs) s n = fill_buffer fs s n"
proof -
  have "\<forall>x \<in> set gs. fst x \<noteq> s \<Longrightarrow>
      foldl (\<lambda>v (t, xs). if t = s then xs @ drop (length xs) v else v) v gs = v" for v :: "'a list"
    by (induction gs) auto
  then show "\<forall>x \<in> set gs. fst x \<noteq> s \<Longrightarrow> fill_buffer (fs @ gs) s n = fill_buffer fs s n"
    by (simp add: fill_buffer_def)
qed

lemma emit_fills_spec:
  "set (emit_fills N val ss E) = (\<lambda>s. (s, val s)) ` ((set ss \<inter> N) - E) \<and> distinct (map fst (emit_fills N val ss E))
   \<and> fst ` set (emit_fills N val ss E) \<inter> E = {}"
  by (induction N val ss E rule: emit_fills.induct) auto

lemma emit_fills_subset: "x \<in> set (emit_fills N val ss E) \<Longrightarrow> fst x \<in> set ss"
  using emit_fills_spec [of N val ss E] by auto

lemma fill_buffer_last:
  assumes "(s, v) \<in> set gs" and "distinct (map fst gs)" and "nat n \<le> length v" and "\<forall>x \<in> set fs. fst x \<noteq> s"
  shows "fill_buffer (fs @ gs) s n = v"
proof -
  let ?f = "\<lambda>v (t, xs). if t = s then xs @ drop (length xs) v else v"
  have skip: "\<forall>x \<in> set hs. fst x \<noteq> s \<Longrightarrow> foldl ?f u hs = u" for hs and u :: "'a list"
    by (induction hs) auto
  obtain g1 g2 where g: "gs = g1 @ (s, v) # g2" using assms(1) split_list by fastforce
  have "\<forall>x \<in> set g1 \<union> set g2. fst x \<noteq> s" using assms(2) g by force
  with skip [of g1] skip [of g2] skip [of fs] assms(3,4) show ?thesis by (simp add: fill_buffer_def g)
qed


section \<open>Correctness of the pass\<close>

lemma selected_zip:
  "length cs = length os \<Longrightarrow> selected cs os = map fst (filter snd (zip os cs))"
  "length cs = length os \<Longrightarrow> selected (map Not cs) os = map fst (filter (\<lambda>x. \<not> snd x) (zip os cs))"
  by (induction cs os rule: list_induct2) simp_all

lemma selected_nth:
  "x \<in> set (selected cs xs) \<Longrightarrow> \<exists>i < length xs. i < length cs \<and> cs ! i \<and> x = xs ! i"
  by (induction cs xs rule: selected.induct) (fastforce split: if_splits)+

lemma folded_outs_disjoint:
  assumes "wf_graph g" and "updates_in_place g"
    and "op \<in> set (selected (map Not (mark_constant_ops eff g)) (ops g))"
    and "op' \<in> set (selected (mark_constant_ops eff g) (ops g))"
  shows "set (outs op) \<inter> set (outs op') = {}"
proof -
  obtain i where i: "i < length (ops g)" "\<not> mark_constant_ops eff g ! i" "op = ops g ! i"
    using selected_nth [OF assms(3)] by auto
  obtain j where j: "j < length (ops g)" "mark_constant_ops eff g ! j" "op' = ops g ! j"
    using selected_nth [OF assms(4)] by auto
  have "upd_from {} (ops g)" using assms(2) by (simp add: updates_in_place_def)
  from marks_disjoint [OF assms(1) this refl i(1,2) j(1,2)] i(3) j(3) show ?thesis by blast
qed

lemma split_ok_const:
  "split_ok K N L xs \<Longrightarrow> (op, True) \<in> set xs \<Longrightarrow> touched op \<inter> L = {} \<and> pure_op K op"
  by (induction K N L xs rule: split_ok.induct) (auto split: if_splits)

lemma run_ops_pure:
  "run_ops K xs (m, w) = Some (m', w') \<Longrightarrow> \<forall>op \<in> set xs. pure_op K op \<Longrightarrow> w' = w"
proof (induction xs arbitrary: m w)
  case (Cons op xs)
  then show ?case by (auto dest: forward_op_pure split: option.splits)
qed simp

lemma slot_at_neg: "\<not> valid_slot g s \<Longrightarrow> \<not> is_param (slot_at g s)"
  by (auto simp: slot_at_def valid_slot_def vget_def no_slot_def)

lemma wf_graph_len: "wf_graph g \<Longrightarrow> 0 \<le> len (slot_at g s)"
  by (auto simp: wf_graph_def list_all_iff slot_at_def vget_def no_slot_def)

text \<open>The run of the sub-graph is the run of the constant operations on the graph's own slots.\<close>

lemma build_sub_run:
  assumes sub: "build_sub g cs = (remap, sub)"
    and wf: "\<forall>op \<in> set (selected cs (ops g)). out op \<ge> 0 \<and> (\<forall>s \<in> set (in_slots op). 0 \<le> s)"
    and np: "\<forall>op \<in> set (selected cs (ops g)). \<forall>s \<in> touched op. \<not> is_param (slot_at g s)"
    and run: "run_ops K (ops sub) (init_mem sub (sub_fills remap fills) P', w0) = Some (m, w)"
  shows "\<exists>F. run_ops K (selected cs (ops g)) (init_mem g fills P, w0) = Some (F, w)
    \<and> (\<forall>op \<in> set (selected cs (ops g)). \<forall>s \<in> touched op. F s = m (remapped remap s))"
proof -
  let ?cs = "selected cs (ops g)" and ?r = "remapped remap"
  let ?S = "\<Union>op \<in> set ?cs. touched op"
  obtain sub0 where f: "foldl (sub_add_op g) (Map.empty, empty_graph) ?cs = (remap, sub0)"
    and s0: "sub = sub0\<lparr>result_slot := 0\<rparr>"
    using sub by (auto simp: build_sub_def split: prod.splits)
  have "remap_ok g remap (slots sub0) \<and> ops sub0 = map (rename_op ?r) ([] @ ?cs)
      \<and> (\<forall>op \<in> set ([] @ ?cs). touched op \<subseteq> dom remap)"
    using foldl_sub_ok [OF _ _ _ wf f, of "[]"] by (simp add: remap_ok_def empty_graph_def)
  then have ok: "remap_ok g remap (slots sub)" and os: "ops sub = map (rename_op ?r) ?cs"
    and S: "?S \<subseteq> dom remap" using s0 by auto
  have r: "?r s = ns" if "remap s = Some ns" for s ns
    using ok that by (simp add: remap_ok_def remapped_def)
  have inj: "inj_on ?r ?S"
  proof (rule inj_onI)
    fix s t assume "s \<in> ?S" "t \<in> ?S" and eq: "?r s = ?r t"
    then obtain a b where ab: "remap s = Some a" "remap t = Some b" using S by blast
    with eq have "a = b" using r by simp
    with ab ok show "s = t" unfolding remap_ok_def by metis
  qed
  have ag: "agree ?r ?S (init_mem g fills P) (init_mem sub (sub_fills remap fills) P')"
    unfolding agree_def
  proof
    fix s assume s: "s \<in> ?S"
    then obtain ns where ns: "remap s = Some ns" using S by blast
    with ok have sl: "slot_at sub ns = \<lparr>offset = 0, len = len (slot_at g s), is_param = False\<rparr>"
      by (auto simp: remap_ok_def slot_at_def vget_def)
    have "t = s" if "remap t = Some ns" for t using ok ns that unfolding remap_ok_def by metis
    with ns have "fill_buffer (sub_fills remap fills) ns n = fill_buffer fills s n" for n
      by (rule fill_buffer_sub)
    then show "init_mem g fills P s = init_mem sub (sub_fills remap fills) P' (?r s)"
      using s np ns sl r by (auto simp: init_mem_def)
  qed
  have "?r (out2 op) \<ge> 0" if "op \<in> set ?cs" "out2 op \<ge> 0" for op
  proof -
    have "out2 op \<in> dom remap" using S that out2_touched by blast
    then show ?thesis using ok r by (auto simp: remap_ok_def)
  qed
  then have "\<forall>op \<in> set ?cs. touched op \<subseteq> ?S \<and> (out2 op \<ge> 0 \<longrightarrow> ?r (out2 op) \<ge> 0)" by blast
  from run_ops_rename [OF ag inj this, of K w0] run os
  obtain F where "run_ops K ?cs (init_mem g fills P, w0) = Some (F, w)" "agree ?r ?S F m"
    by (auto simp: option_rel_Some2)
  then show ?thesis by (auto simp: agree_def)
qed

text \<open>The fills of the folded graph hold what the constant operations leave behind.\<close>

lemma folded_mem:
  fixes fills :: "'d::zero fills" and g :: "'u graph"
  assumes wf: "wf_graph g" and fit: "fills_fit g fills"
    and new: "new = emit_fills N0 val cw {}"
    and val: "\<forall>s \<in> set cw. val s = F s \<and> \<not> is_param (slot_at g s)"
    and F: "\<forall>s. s \<notin> set cw \<longrightarrow> F s = init_mem g fills P s" "\<forall>s. length (F s) = length (init_mem g fills P s)"
    and s: "s \<in> N0 \<or> s \<notin> set cw"
  shows "init_mem (g\<lparr>ops := os\<rparr>) (filter (\<lambda>(s, _). s \<notin> fst ` set new) fills @ new) P s
    = (if is_param (slot_at g s) then init_mem g fills P s else F s)"
proof (cases "is_param (slot_at g s)")
  case True
  then show ?thesis by (simp add: init_mem_def)
next
  case False
  let ?old = "filter (\<lambda>(s, _). s \<notin> fst ` set new) fills"
  have spec: "set new = (\<lambda>s. (s, val s)) ` (set cw \<inter> N0)" "distinct (map fst new)"
    using emit_fills_spec [of N0 val cw "{}"] new by auto
  have "fill_buffer (?old @ new) s (len (slot_at g s)) = F s"
  proof (cases "s \<in> set cw")
    case True
    with s spec val have mem: "(s, F s) \<in> set new" by force
    have "nat (len (slot_at g s)) \<le> length (F s)"
      using F(2) fill_buffer_length [OF fit wf_graph_len [OF wf], of s] False by (simp add: init_mem_def)
    moreover have "\<forall>x \<in> set ?old. fst x \<noteq> s" using mem by force
    ultimately show ?thesis using fill_buffer_last [OF mem spec(2)] by blast
  next
    case cw: False
    then have no: "\<forall>x \<in> set new. fst x \<noteq> s" using spec(1) by auto
    have "fill_buffer (?old @ new) s n = fill_buffer fills s n" for n
      using fill_buffer_append_none [OF no, of ?old n] fill_buffer_filter [of fills s "\<lambda>(s, _). s \<notin> fst ` set new" n] no
      by fastforce
    with cw F(1) False show ?thesis by (simp add: init_mem_def)
  qed
  with False show ?thesis by (simp add: init_mem_def)
qed

text \<open>C1. \<open>const_fold\<close> preserves the forward sweep: when kernels outside the effect blocklist are pure and
  slots are only rewritten in place, the folded graph under the new bind-time fills fails exactly
  when the original does under the old ones, ends in the same evaluation state, and leaves the same
  values in every root and in the result slot, for every setting of the parameters.\<close>

theorem const_fold_sound:
  fixes g :: "'u graph" and fills :: "'d::zero fills"
  assumes wf: "wf_graph g" and upd: "updates_in_place g" and pure: "pure_kernels K eff" and fit: "fills_fit g fills"
    and cf: "const_fold K w0 eff disabled g fills roots = (g', r)"
    and s: "s \<in> set roots \<or> s = result_slot g \<and> 0 \<le> s"
  shows "rel_option (\<lambda>(a, x) (b, y). x = y \<and> b s = a s)
    (run_ops K (ops g) (init_mem g fills P, w)) (run_ops K (ops g') (init_mem g' (cf_fills r) P, w))"
proof (cases "ops g' = ops g \<and> slots g' = slots g \<and> cf_fills r = fills")
  case True
  then have "init_mem g' (cf_fills r) P = init_mem g fills P"
    by (simp add: init_mem_def slot_at_def fun_eq_iff)
  with True show ?thesis by (simp add: option.rel_refl_strong split_beta)
next
  case False
  let ?cs = "mark_constant_ops eff g" and ?M = "init_mem g fills P"
  let ?C = "selected ?cs (ops g)" and ?keep = "selected (map Not ?cs) (ops g)"
  let ?cw = "concat (map outs ?C)" and ?need = "needed_slots g ?cs roots"
  obtain remap sub where sub: "build_sub g ?cs = (remap, sub)" by fastforce
  let ?new = "\<lambda>m. emit_fills ?need (\<lambda>s. m (remapped remap s)) ?cw {}"
  from cf False sub obtain m w1 where
    run: "run_ops K (ops sub) (init_mem sub (sub_fills remap fills) (\<lambda>_. []), w0) = Some (m, w1)"
    and g': "g' = g\<lparr>ops := ?keep\<rparr>"
    and r: "cf_fills r = filter (\<lambda>(s, _). s \<notin> fst ` set (?new m)) fills @ ?new m"
    by (auto simp: const_fold_def Let_def split: if_splits option.splits)
  let ?N = "?need \<union> (\<Union>op \<in> set ?keep. set (outs op))"
  have len: "length ?cs = length (ops g)" by (rule mark_facts [OF wf refl]) blast
  have zip: "?C = map fst (filter snd (zip (ops g) ?cs))"
    "?keep = map fst (filter (\<lambda>x. \<not> snd x) (zip (ops g) ?cs))" using selected_zip len by metis+
  have keepI: "ops g ! i \<in> set ?keep" if "i < length (ops g)" "\<not> ?cs ! i" for i
    using that len zip(2) by (force simp: set_zip)
  have subset: "set ?keep \<subseteq> set (ops g)" "set ?C \<subseteq> set (ops g)" using zip by (auto dest: set_zip_leftD)
  have t: "touched op = set (in_slots op) \<union> set (outs op)" if "op \<in> set (ops g)" for op
    using touched_iff wf_graph_out [OF wf that] by blast
  have split: "split_ok K ?N {s. 0 \<le> s \<and> is_param (slot_at g s)} (zip (ops g) ?cs)"
  proof (rule marks_split(1) [OF wf upd pure refl])
    fix i assume i: "i < length (ops g)" "\<not> ?cs ! i"
    have "\<forall>s \<in> set (in_slots (ops g ! i)). 0 \<le> s" using wf_graph_valid [OF wf nth_mem [OF i(1)]] by blast
    then have "set (in_slots (ops g ! i)) \<subseteq> ?need" using keepI [OF i] by (auto simp: needed_slots_def)
    then show "touched (ops g ! i) \<subseteq> ?N" using keepI [OF i] t [OF nth_mem [OF i(1)]] by blast
  qed
  have cst: "touched op \<inter> {s. 0 \<le> s \<and> is_param (slot_at g s)} = {}" "pure_op K op" if "op \<in> set ?C" for op
    using split_ok_const [OF split, of op] that zip(1) by auto
  have np: "\<forall>op \<in> set ?C. \<forall>s \<in> touched op. \<not> is_param (slot_at g s)"
    using cst(1) slot_at_neg by (fastforce simp: valid_slot_def)
  have wfC: "\<forall>op \<in> set ?C. out op \<ge> 0 \<and> (\<forall>s \<in> set (in_slots op). 0 \<le> s)"
    using subset(2) wf_graph_out [OF wf] wf_graph_valid [OF wf] by blast
  obtain F where F: "run_ops K ?C (?M, w0) = Some (F, w1)"
    "\<forall>op \<in> set ?C. \<forall>s \<in> touched op. F s = m (remapped remap s)"
    using build_sub_run [OF sub wfC np run] by blast
  have w1: "w1 = w0" using run_ops_pure [OF F(1)] cst(2) by blast
  have Fl: "\<forall>s. length (F s) = length (?M s)" using run_ops_length [OF F(1)] by blast
  have Fk: "\<forall>s. s \<notin> set ?cw \<longrightarrow> F s = ?M s" using run_ops_frame [OF F(1)] wfC out_in_outs by fastforce
  have val: "\<forall>s \<in> set ?cw. m (remapped remap s) = F s \<and> \<not> is_param (slot_at g s)"
    using F(2) np t subset(2) by fastforce
  have dis: "s \<in> ?need \<or> s \<notin> set ?cw" if "s \<in> ?N" for s using that folded_outs_disjoint [OF wf upd] by fastforce
  let ?S = "init_mem g' (cf_fills r) P"
  have S: "\<forall>s \<in> ?N. ?S s = (if s \<in> {s. 0 \<le> s \<and> is_param (slot_at g s)} then ?M s else F s)"
  proof
    fix s assume sN: "s \<in> ?N"
    have "?S s = (if is_param (slot_at g s) then ?M s else F s)"
      unfolding r g' by (rule folded_mem [OF wf fit refl val Fk Fl dis [OF sN]])
    moreover have "is_param (slot_at g s) \<Longrightarrow> 0 \<le> s" using slot_at_neg [of g s] by (auto simp: valid_slot_def)
    ultimately show "?S s = (if s \<in> {s. 0 \<le> s \<and> is_param (slot_at g s)} then ?M s else F s)" by simp
  qed
  have sN: "s \<in> ?N" using s by (auto simp: needed_slots_def)
  have "rel_option (\<lambda>(a, x) (b, y). x = y \<and> (\<forall>s \<in> ?N. b s = a s))
      (run_ops K (map fst (zip (ops g) ?cs)) (?M, w))
      (run_ops K (map fst (filter (\<lambda>x. \<not> snd x) (zip (ops g) ?cs))) (?S, w))"
    by (rule split_run [OF split _ S]) (use F(1) w1 zip(1) in simp_all)
  moreover have "map fst (zip (ops g) ?cs) = ops g" "map fst (filter (\<lambda>x. \<not> snd x) (zip (ops g) ?cs)) = ops g'"
    using len g' zip(2) by simp_all
  ultimately have "rel_option (\<lambda>(a, x) (b, y). x = y \<and> (\<forall>s \<in> ?N. b s = a s))
      (run_ops K (ops g) (?M, w)) (run_ops K (ops g') (?S, w))" by simp
  then show ?thesis by (rule option.rel_mono_strong) (use sN in blast)
qed

text \<open>Slot 0 is a parameter, slot 1 a data slot with a fill; slot 2 doubles the data (constant) and slot 3,
  the result, adds the parameter to it. The kernel adds the heads of its operands.\<close>

definition fold_graph :: "unit graph" where
  "fold_graph = \<lparr>slots = map (\<lambda>p. \<lparr>offset = 0, len = 1, is_param = p\<rparr>) [True, False, False, False],
     ops = [(default_op None)\<lparr>opcode := OP_ADD, in_slots := [1, 1], out := 2\<rparr>,
            (default_op None)\<lparr>opcode := OP_ADD, in_slots := [0, 2], out := 3\<rparr>],
     result_slot = 3\<rparr>"

definition sum_kern :: "(int, unit, unit) kern" where
  "sum_kern op ins n n2 w = map_option (\<lambda>(v, v2). (v, v2, w)) (Some ([sum_list (map sum_list ins)], []))"

lemma sum_kern_pure: "pure_kernels sum_kern (\<lambda>_. False)"
  unfolding pure_kernels_def pure_op_def sum_kern_def
  by (intro allI impI exI [of _ "\<lambda>ins n n2. Some ([sum_list (map sum_list ins)], [])"] refl)

lemma fold_graph_hyps: "wf_graph fold_graph" "updates_in_place fold_graph" "fills_fit fold_graph [(1, [5 :: int])]"
    "(3 :: int) \<in> set [] \<or> 3 = result_slot fold_graph \<and> (0 :: int) \<le> 3"
  by code_simp+

abbreviation folded_example :: "unit graph \<times> int folded" where
  "folded_example \<equiv> const_fold sum_kern () (\<lambda>_. False) False fold_graph [(1, [5])] []"

theorem const_fold_sound_witness:
  "cf_removed (snd folded_example) = 1 \<and> cf_fills (snd folded_example) = [(1, [5]), (2, [10])]
   \<and> rel_option (\<lambda>(a, x) (b, y). x = y \<and> b 3 = a 3)
       (run_ops sum_kern (ops fold_graph) (init_mem fold_graph [(1, [5])] (\<lambda>_. [7]), ()))
       (run_ops sum_kern (ops (fst folded_example))
         (init_mem (fst folded_example) (cf_fills (snd folded_example)) (\<lambda>_. [7]), ()))"
proof (intro conjI)
  show "cf_removed (snd folded_example) = 1" by code_simp
  show "cf_fills (snd folded_example) = [(1, [5]), (2, [10])]" by code_simp
qed (rule const_fold_sound [OF fold_graph_hyps(1,2) sum_kern_pure fold_graph_hyps(3) _ fold_graph_hyps(4)], simp)



end
