(* ===== verification/Layout.thy ===== *)
theory Layout
  imports Graph
begin

text \<open>
  How \<^verbatim>\<open>Executor::bind_\<close> (\<^verbatim>\<open>runtime/src/executor.cpp\<close>) places the slots of a graph in its arenas: private
  values (parameters first, then written slots), shared data, adjoints, and kernel scratch. The
  loops are modelled one by one with the exceptions they throw, and the lemmas show that a
  successful binding gives every slot its own range.
\<close>

section \<open>Checked sizes\<close>

text \<open>\<open>mx\<close> is \<^verbatim>\<open>std::vector<double>{}.max_size()\<close>.\<close>

definition checked_size :: "int \<Rightarrow> int \<Rightarrow> int \<Rightarrow> std_error + int" where
  "checked_size mx a b =
     (if a < 0 \<or> b < 0 \<or> a > mx \<or> b > mx - a then Inl (LengthError ''executor arena size overflow'')
      else Inr (a + b))"

lemma checked_size_Inr: "checked_size mx a b = Inr c \<longleftrightarrow> 0 \<le> a \<and> 0 \<le> b \<and> a + b \<le> mx \<and> c = a + b"
  by (auto simp: checked_size_def)

section \<open>Classification\<close>

definition written_slots :: "('i, 'u) Graph \<Rightarrow> bool list" where
  "written_slots g = foldl (\<lambda>w op. let w' = vput w (out op) True in
       if out2 op \<ge> 0 then vput w' (out2 op) True else w')
     (replicate (length (slots g)) False) (ops g)"

text \<open>An operation whose forward value is another operation's (\<^verbatim>\<open>cse\<close> set its \<^verbatim>\<open>primal_source\<close>).\<close>

definition cached_primal :: "('i, 'u) Op \<Rightarrow> bool" where
  "cached_primal op \<longleftrightarrow> primal_source op \<ge> 0 \<and> primal_source op \<noteq> out op"

definition primal_sources :: "('i, 'u) Graph \<Rightarrow> int list" where
  "primal_sources g = foldl (\<lambda>p op. if cached_primal op then vput p (out op) (primal_source op) else p)
     (replicate (length (slots g)) (-1)) (ops g)"

definition n_forward :: "('i, 'u) Graph \<Rightarrow> nat" where
  "n_forward g = length (filter (\<lambda>op. primal_source op < 0 \<or> primal_source op = out op) (ops g))"

section \<open>Value and data arenas\<close>

fun lay_params :: "int \<Rightarrow> Slot list \<Rightarrow> int \<Rightarrow> std_error + Slot list \<times> int" where
  "lay_params mx [] off = Inr ([], off)"
| "lay_params mx (s # ss) off =
     (if is_param s then
        (case checked_size mx off (len s) of Inl e \<Rightarrow> Inl e
         | Inr off' \<Rightarrow>
            (case lay_params mx ss off' of Inl e \<Rightarrow> Inl e
             | Inr (ss', hi) \<Rightarrow> Inr (s\<lparr>offset := off\<rparr> # ss', hi)))
      else
        (case lay_params mx ss off of Inl e \<Rightarrow> Inl e | Inr (ss', hi) \<Rightarrow> Inr (s # ss', hi)))"

text \<open>The second loop. A slot comes with its class: borrowed, written, and its \<^verbatim>\<open>primal_sources\<close> entry. The
  body returns the slot, its data offset, and the two arena sizes.\<close>

definition rest_slot :: "int \<Rightarrow> Slot \<Rightarrow> bool \<times> bool \<times> int \<Rightarrow> int \<Rightarrow> int
    \<Rightarrow> std_error + Slot \<times> int \<times> int \<times> int" where
  "rest_slot mx s a off dsz = (case a of (b, w, p) \<Rightarrow>
     if b \<and> (is_param s \<or> w) then Inl (InvalidArgument ''only unwritten data can be borrowed'')
     else if is_param s then Inr (s, -1, off, dsz)
     else if b then Inr (s\<lparr>offset := 0\<rparr>, -1, off, dsz)
     else if w then
       (if p \<ge> 0 then Inr (s, -1, off, dsz)
        else (case checked_size mx off (len s) of Inl e \<Rightarrow> Inl e
              | Inr off' \<Rightarrow> Inr (s\<lparr>offset := off\<rparr>, -1, off', dsz)))
     else
       (case checked_size mx dsz (len s) of Inl e \<Rightarrow> Inl e
        | Inr dsz' \<Rightarrow> Inr (s\<lparr>offset := dsz\<rparr>, dsz, off, dsz')))"

fun lay_rest :: "int \<Rightarrow> Slot list \<Rightarrow> (bool \<times> bool \<times> int) list \<Rightarrow> int \<Rightarrow> int
    \<Rightarrow> std_error + Slot list \<times> int list \<times> int \<times> int" where
  "lay_rest mx (s # ss) (a # as) off dsz =
     (case rest_slot mx s a off dsz of Inl e \<Rightarrow> Inl e
      | Inr (s', d, off', dsz') \<Rightarrow>
         (case lay_rest mx ss as off' dsz' of Inl e \<Rightarrow> Inl e
          | Inr (ss', ds, r) \<Rightarrow> Inr (s' # ss', d # ds, r)))"
| "lay_rest mx _ _ off dsz = Inr ([], [], off, dsz)"

record Layout =
  lay_slots :: "Slot list"
  lay_data_offsets :: "int list"
  lay_n_params :: int
  lay_values :: int      \<comment> \<open>size of \<^verbatim>\<open>values_\<close>\<close>
  lay_data :: int        \<comment> \<open>size of \<^verbatim>\<open>data_\<close>\<close>

definition alias_at :: "int list \<Rightarrow> Slot list \<Rightarrow> nat \<Rightarrow> Slot list" where
  "alias_at ps xs i = (if ps ! i \<ge> 0
     then xs[i := (xs ! i)\<lparr>offset := offset (vget no_slot xs (ps ! i))\<rparr>] else xs)"

definition alias_primals :: "int list \<Rightarrow> Slot list \<Rightarrow> Slot list" where
  "alias_primals ps ss = foldl (alias_at ps) ss [0..<length ss]"

text \<open>Per slot: borrowed, written, primal source. An executor without borrows has an empty \<^verbatim>\<open>borrowed_\<close>.\<close>

definition slot_classes :: "('i, 'u) Graph \<Rightarrow> bool list \<Rightarrow> (bool \<times> bool \<times> int) list" where
  "slot_classes g borrowed = map (\<lambda>i. (borrowed \<noteq> [] \<and> borrowed ! i, written_slots g ! i, primal_sources g ! i))
     [0..<length (slots g)]"

text \<open>The vectors over slots are indexed by the outputs of the operations, and the slots by the sources of cached
  primals, without a check.\<close>

definition outputs_in_range :: "('i, 'u) Graph \<Rightarrow> bool" where
  "outputs_in_range g \<longleftrightarrow> list_all (\<lambda>op. 0 \<le> out op \<and> out op < int (length (slots g)) \<and>
     (out2 op \<ge> 0 \<longrightarrow> out2 op < int (length (slots g)))) (ops g)"

definition sources_in_range :: "('i, 'u) Graph \<Rightarrow> bool" where
  "sources_in_range g \<longleftrightarrow> list_all (\<lambda>p. p < int (length (slots g))) (primal_sources g)"

definition bind_values :: "int \<Rightarrow> ('i, 'u) Graph \<Rightarrow> bool list \<Rightarrow> std_error + Layout" where
  "bind_values mx g borrowed =
     (if \<not> outputs_in_range g then Inl UndefinedBehaviour
      else case lay_params mx (slots g) 0 of Inl e \<Rightarrow> Inl e
      | Inr (ss1, np) \<Rightarrow>
         (case lay_rest mx ss1 (slot_classes g borrowed) np 0 of
            Inl e \<Rightarrow> Inl e
          | Inr (ss2, ds, off, dsz) \<Rightarrow>
             if \<not> sources_in_range g then Inl UndefinedBehaviour
             else Inr \<lparr>lay_slots = alias_primals (primal_sources g) ss2, lay_data_offsets = ds,
                  lay_n_params = np, lay_values = off, lay_data = dsz\<rparr>))"

section \<open>Adjoint arena\<close>

text \<open>Both adjoint loops have this form: the slots that \<open>takes\<close> selects get the next offset.\<close>

fun lay_adjoints :: "int \<Rightarrow> (bool \<times> int) list \<Rightarrow> int list \<Rightarrow> int \<Rightarrow> std_error + int list \<times> int" where
  "lay_adjoints mx ((t, n) # xs) (f # fs) off =
     (if t then
        (case checked_size mx off n of Inl e \<Rightarrow> Inl e
         | Inr off' \<Rightarrow> (case lay_adjoints mx xs fs off' of Inl e \<Rightarrow> Inl e
                        | Inr (fs', hi) \<Rightarrow> Inr (off # fs', hi)))
      else (case lay_adjoints mx xs fs off of Inl e \<Rightarrow> Inl e | Inr (fs', hi) \<Rightarrow> Inr (f # fs', hi)))"
| "lay_adjoints mx _ _ off = Inr ([], off)"

definition adjoint_slot :: "('i, 'u) Graph \<Rightarrow> nat \<Rightarrow> bool" where
  "adjoint_slot g i \<longleftrightarrow> \<not> is_param (slots g ! i) \<and> (written_slots g ! i \<or> int i = result_slot g)"

definition bind_adjoints :: "int \<Rightarrow> ('i, 'u) Graph \<Rightarrow> std_error + int list \<times> int" where
  "bind_adjoints mx g =
     (let n = length (slots g) in
      case lay_adjoints mx (map (\<lambda>s. (is_param s, len s)) (slots g)) (replicate n (-1)) 0 of
        Inl e \<Rightarrow> Inl e
      | Inr (fs, np) \<Rightarrow> lay_adjoints mx (map (\<lambda>i. (adjoint_slot g i, len (slots g ! i))) [0..<n]) fs np)"

section \<open>Scratch arena\<close>

text \<open>\<open>registered\<close> and \<open>scratch_size\<close> are the kernel table's entries; \<open>src\<close> maps a self-naming output to the
  index of its operation; \<open>offs\<close> are the offsets assigned so far.\<close>

fun lay_scratch :: "int \<Rightarrow> (nat \<Rightarrow> bool) \<Rightarrow> (('i, 'u) Op \<Rightarrow> int) \<Rightarrow> ('i, 'u) Op list
    \<Rightarrow> int list \<Rightarrow> int list \<Rightarrow> int \<Rightarrow> std_error + int list \<times> int" where
  "lay_scratch mx registered scratch_size [] src offs sc = Inr (offs, sc)"
| "lay_scratch mx registered scratch_size (op # rest) src offs sc =
     (if opcode op = OP_NONE \<or> \<not> registered (opcode op)
      then Inl (RuntimeError (''opcode not registered: '' @ opcode_name (opcode op)))
      else if cached_primal op then
        (let source = vget (-1) src (primal_source op) in
         if source < 0 then Inl (LogicError ''cached primal precedes its source'')
         else lay_scratch mx registered scratch_size rest src (offs @ [vget 0 offs source]) sc)
      else
        (let src' = (if primal_source op = out op then vput src (out op) (int (length offs)) else src) in
         case checked_size mx sc (scratch_size op) of Inl e \<Rightarrow> Inl e
         | Inr sc' \<Rightarrow> lay_scratch mx registered scratch_size rest src' (offs @ [sc]) sc'))"

definition bind_scratch :: "int \<Rightarrow> (nat \<Rightarrow> bool) \<Rightarrow> (('i, 'u) Op \<Rightarrow> int) \<Rightarrow> ('i, 'u) Graph
    \<Rightarrow> std_error + int list \<times> int" where
  "bind_scratch mx registered scratch_size g =
     lay_scratch mx registered scratch_size (ops g) (replicate (length (slots g)) (-1)) [] 0"

text \<open>Contexts: executable forwards first, cached primals after them.\<close>

fun ctx_index :: "('i, 'u) Op list \<Rightarrow> nat \<Rightarrow> nat \<Rightarrow> nat list" where
  "ctx_index [] nf nc = []"
| "ctx_index (op # rest) nf nc =
     (if cached_primal op then nc # ctx_index rest nf (Suc nc) else nf # ctx_index rest (Suc nf) nc)"

definition bind_ctx :: "('i, 'u) Graph \<Rightarrow> nat list" where
  "bind_ctx g = ctx_index (ops g) 0 (n_forward g)"

text \<open>What the arenas of a bound executor are made of, in the order \<^verbatim>\<open>bind_\<close> computes it. The inputs of the operations
  index the slots when the contexts are made, and the result slot the adjoint offsets.\<close>

definition inputs_in_range :: "('i, 'u) Graph \<Rightarrow> bool" where
  "inputs_in_range g \<longleftrightarrow> list_all (\<lambda>op. list_all (\<lambda>i. 0 \<le> i \<and> i < int (length (slots g))) (in_slots op)) (ops g)"

record Bound =
  bd_layout :: Layout
  bd_adjoints :: "int list \<times> int"
  bd_scratch :: "int list \<times> int"
  bd_ctx :: "nat list"

definition bind_arenas :: "int \<Rightarrow> (nat \<Rightarrow> bool) \<Rightarrow> (('i, 'u) Op \<Rightarrow> int) \<Rightarrow> ('i, 'u) Graph \<Rightarrow> bool list
    \<Rightarrow> std_error + Bound" where
  "bind_arenas mx registered scratch_size g borrowed =
     and_then (bind_values mx g borrowed) (\<lambda>L. and_then (bind_adjoints mx g) (\<lambda>A.
       if result_slot g \<ge> int (length (slots g)) then Inl UndefinedBehaviour
       else and_then (bind_scratch mx registered scratch_size g) (\<lambda>S.
         if \<not> inputs_in_range g then Inl UndefinedBehaviour
         else Inr \<lparr>bd_layout = L, bd_adjoints = A, bd_scratch = S, bd_ctx = bind_ctx g\<rparr>)))"

section \<open>Packed ranges\<close>

text \<open>\<open>packed xs fs lo hi\<close>: the taken entries of \<open>xs\<close> lie one after the other from \<open>lo\<close> to \<open>hi\<close>.\<close>

fun packed :: "(bool \<times> int) list \<Rightarrow> int list \<Rightarrow> int \<Rightarrow> int \<Rightarrow> bool" where
  "packed [] [] lo hi \<longleftrightarrow> lo = hi"
| "packed ((t, n) # xs) (f # fs) lo hi \<longleftrightarrow>
     (if t then f = lo \<and> 0 \<le> n \<and> packed xs fs (lo + n) hi else packed xs fs lo hi)"
| "packed _ _ _ _ \<longleftrightarrow> False"

lemma packed_length: "packed xs fs lo hi \<Longrightarrow> length fs = length xs"
  by (induction xs fs lo hi rule: packed.induct) (auto split: if_splits)

lemma packed_le: "packed xs fs lo hi \<Longrightarrow> lo \<le> hi"
  by (induction xs fs lo hi rule: packed.induct) (auto split: if_splits)

lemma packed_bounds:
  "packed xs fs lo hi \<Longrightarrow> i < length xs \<Longrightarrow> fst (xs ! i) \<Longrightarrow>
     lo \<le> fs ! i \<and> 0 \<le> snd (xs ! i) \<and> fs ! i + snd (xs ! i) \<le> hi"
proof (induction xs fs lo hi arbitrary: i rule: packed.induct)
  case (2 t n xs f fs lo hi)
  show ?case
  proof (cases i)
    case 0
    with 2 show ?thesis using packed_le [of xs fs "lo + n" hi] by auto
  next
    case (Suc j)
    with 2 show ?thesis by (cases t) fastforce+
  qed
qed auto

lemma packed_ordered:
  "packed xs fs lo hi \<Longrightarrow> i < j \<Longrightarrow> j < length xs \<Longrightarrow> fst (xs ! i) \<Longrightarrow> fst (xs ! j) \<Longrightarrow>
     fs ! i + snd (xs ! i) \<le> fs ! j"
proof (induction xs fs lo hi arbitrary: i j rule: packed.induct)
  case (2 t n xs f fs lo hi)
  obtain j' where j: "j = Suc j'" using 2 by (cases j) auto
  show ?case
  proof (cases i)
    case 0
    with 2 j show ?thesis using packed_bounds [of xs fs "lo + n" hi j'] by auto
  next
    case (Suc i')
    with 2 j show ?thesis by (cases t) auto
  qed
qed auto

text \<open>Ranges of two slots do not meet.\<close>

definition disjoint_ranges :: "int \<Rightarrow> int \<Rightarrow> int \<Rightarrow> int \<Rightarrow> bool" where
  "disjoint_ranges f n f' n' \<longleftrightarrow> f + n \<le> f' \<or> f' + n' \<le> f"

lemma packed_disjoint:
  assumes "packed xs fs lo hi" "i \<noteq> j" "i < length xs" "j < length xs" "fst (xs ! i)" "fst (xs ! j)"
  shows "disjoint_ranges (fs ! i) (snd (xs ! i)) (fs ! j) (snd (xs ! j))"
  using packed_ordered [OF assms(1), of i j] packed_ordered [OF assms(1), of j i] assms
  by (auto simp: disjoint_ranges_def neq_iff)

section \<open>The loops pack their slots\<close>

lemma lay_params_spec:
  assumes "lay_params mx ss off = Inr (ss', hi)" and "0 \<le> off"
  shows "packed (map (\<lambda>s. (is_param s, len s)) ss) (map offset ss') off hi
    \<and> map len ss' = map len ss \<and> map is_param ss' = map is_param ss"
  using assms
proof (induction ss arbitrary: off ss' hi)
  case (Cons s ss)
  then show ?case
    by (fastforce simp: checked_size_Inr split: if_splits sum.splits)
qed simp

definition private_slot :: "Slot \<times> bool \<times> bool \<times> int \<Rightarrow> bool" where
  "private_slot x \<longleftrightarrow> \<not> is_param (fst x) \<and> \<not> fst (snd x) \<and> fst (snd (snd x)) \<and> snd (snd (snd x)) < 0"

definition data_slot :: "Slot \<times> bool \<times> bool \<times> int \<Rightarrow> bool" where
  "data_slot x \<longleftrightarrow> \<not> is_param (fst x) \<and> \<not> fst (snd x) \<and> \<not> fst (snd (snd x))"

lemma rest_slot_spec:
  assumes "rest_slot mx s a off dsz = Inr (s', d, off', dsz')"
  shows "len s' = len s" "is_param s' = is_param s" "is_param s \<Longrightarrow> offset s' = offset s"
    "if private_slot (s, a) then offset s' = off \<and> 0 \<le> off \<and> 0 \<le> len s \<and> off' = off + len s else off' = off"
    "if data_slot (s, a) then d = dsz \<and> 0 \<le> dsz \<and> 0 \<le> len s \<and> dsz' = dsz + len s else dsz' = dsz"
    "fst a \<Longrightarrow> \<not> is_param s \<and> \<not> fst (snd a)"
  using assms
  by (auto simp: rest_slot_def checked_size_Inr private_slot_def data_slot_def
      split: if_splits sum.splits prod.splits)

lemma lay_rest_Cons:
  assumes "lay_rest mx (s # ss) (a # as) off dsz = Inr (xs, ds, r)"
  obtains s' d off' dsz' xs' ds' where "rest_slot mx s a off dsz = Inr (s', d, off', dsz')"
    "lay_rest mx ss as off' dsz' = Inr (xs', ds', r)" "xs = s' # xs'" "ds = d # ds'"
  using assms by (auto split: sum.splits)

lemma lay_rest_spec:
  assumes "lay_rest mx ss as off dsz = Inr (ss', ds, off', dsz')"
    and "length as = length ss"
  shows "packed (map (\<lambda>x. (private_slot x, len (fst x))) (zip ss as)) (map offset ss') off off'
    \<and> packed (map (\<lambda>x. (data_slot x, len (fst x))) (zip ss as)) ds dsz dsz'
    \<and> map len ss' = map len ss \<and> map is_param ss' = map is_param ss"
  using assms
proof (induction ss arbitrary: as off dsz ss' ds)
  case (Cons s ss)
  obtain a as' where as: "as = a # as'" using Cons.prems(2) by (cases as) auto
  from Cons.prems(1)[unfolded as] obtain s' d o1 d1 xs' ds'
    where r: "rest_slot mx s a off dsz = Inr (s', d, o1, d1)"
      and rec: "lay_rest mx ss as' o1 d1 = Inr (xs', ds', off', dsz')"
      and eq: "ss' = s' # xs'" "ds = d # ds'" by (rule lay_rest_Cons)
  note sp = rest_slot_spec [OF r]
  from Cons.IH [OF rec] Cons.prems(2) as eq sp show ?case by (simp split: if_splits)
qed simp

lemma lay_rest_fixed:
  assumes "lay_rest mx ss as off dsz = Inr (ss', ds, off', dsz')" and "length as = length ss"
    and "i < length ss"
  shows "(is_param (ss ! i) \<longrightarrow> offset (ss' ! i) = offset (ss ! i))
    \<and> (fst (as ! i) \<longrightarrow> \<not> is_param (ss ! i) \<and> \<not> fst (snd (as ! i)))"
  using assms
proof (induction ss arbitrary: as off dsz ss' ds i)
  case (Cons s ss)
  obtain a as' where as: "as = a # as'" using Cons.prems(2) by (cases as) auto
  from Cons.prems(1)[unfolded as] obtain s' d o1 d1 xs' ds'
    where r: "rest_slot mx s a off dsz = Inr (s', d, o1, d1)"
      and rec: "lay_rest mx ss as' o1 d1 = Inr (xs', ds', off', dsz')"
      and eq: "ss' = s' # xs'" "ds = d # ds'" by (rule lay_rest_Cons)
  show ?case
  proof (cases i)
    case 0
    with rest_slot_spec(3,6) [OF r] as eq show ?thesis by simp
  next
    case (Suc k)
    with Cons.IH [OF rec, of k] Cons.prems(2,3) as eq show ?thesis by simp
  qed
qed simp

lemma lay_adjoints_spec:
  assumes "lay_adjoints mx xs fs off = Inr (fs', hi)" and "length fs = length xs" and "0 \<le> off"
  shows "packed xs fs' off hi \<and> (\<forall>i < length xs. \<not> fst (xs ! i) \<longrightarrow> fs' ! i = fs ! i)"
  using assms
proof (induction mx xs fs off arbitrary: fs' rule: lay_adjoints.induct)
  case (1 mx t n xs f fs off)
  then show ?case
    by (fastforce simp: checked_size_Inr nth_Cons' split: if_splits sum.splits)
qed (auto simp: packed.simps)

lemma length_alias_at [simp]: "length (alias_at ps xs i) = length xs"
  by (simp add: alias_at_def)

lemma alias_at_nth:
  assumes "i < length xs"
  shows "len (alias_at ps xs k ! i) = len (xs ! i)"
    and "is_param (alias_at ps xs k ! i) = is_param (xs ! i)"
    and "ps ! i < 0 \<or> i \<noteq> k \<Longrightarrow> alias_at ps xs k ! i = xs ! i"
    and "i = k \<Longrightarrow> ps ! i \<ge> 0 \<Longrightarrow> offset (alias_at ps xs k ! i) = offset (vget no_slot xs (ps ! i))"
  using assms by (cases "k = i"; auto simp: alias_at_def)+

lemma length_foldl_alias [simp]: "length (foldl (alias_at ps) ss ks) = length ss"
  by (induction ks arbitrary: ss) auto

lemma foldl_alias_other:
  assumes "i < length ss" and "ps ! i < 0 \<or> i \<notin> set ks"
  shows "foldl (alias_at ps) ss ks ! i = ss ! i"
  using assms
proof (induction ks arbitrary: ss)
  case (Cons k ks)
  then show ?case using alias_at_nth(3) [of i ss ps k] by auto
qed simp

lemma foldl_alias_kept:
  assumes "i < length ss"
  shows "len (foldl (alias_at ps) ss ks ! i) = len (ss ! i)"
    and "is_param (foldl (alias_at ps) ss ks ! i) = is_param (ss ! i)"
  using assms by (induction ks arbitrary: ss) (auto simp: alias_at_nth)

lemma foldl_alias_offset:
  assumes "i < length ss" and "length ps = length ss" and "ps ! i \<ge> 0" and "vget (-1) ps (ps ! i) < 0"
    and "n \<le> length ss" and "i < n"
  shows "offset (foldl (alias_at ps) ss [0..<n] ! i) = offset (vget no_slot ss (ps ! i))"
  using assms(5,6)
proof (induction n)
  case (Suc n)
  let ?xs = "foldl (alias_at ps) ss [0..<n]"
  have src: "vget no_slot ?xs (ps ! i) = vget no_slot ss (ps ! i)"
    using assms(2,4) foldl_alias_other [of "nat (ps ! i)" ss ps "[0..<n]"]
    by (auto simp: vget_def split: if_splits)
  show ?case
  proof (cases "i = n")
    case True
    with src assms(1,3) show ?thesis by (simp add: alias_at_nth(4))
  next
    case False
    with Suc assms(1) show ?thesis by (simp add: alias_at_nth(3))
  qed
qed simp

lemma length_alias_primals [simp]: "length (alias_primals ps ss) = length ss"
  by (simp add: alias_primals_def)

lemma alias_primals_spec:
  assumes "length ps = length ss" and "i < length ss"
  shows "len (alias_primals ps ss ! i) = len (ss ! i)"
    and "is_param (alias_primals ps ss ! i) = is_param (ss ! i)"
    and "ps ! i < 0 \<Longrightarrow> offset (alias_primals ps ss ! i) = offset (ss ! i)"
    and "ps ! i \<ge> 0 \<Longrightarrow> vget (-1) ps (ps ! i) < 0 \<Longrightarrow>
      offset (alias_primals ps ss ! i) = offset (vget no_slot ss (ps ! i))"
  using assms foldl_alias_other [of i ss ps] foldl_alias_offset [of i ss ps "length ss"]
  by (simp_all add: alias_primals_def foldl_alias_kept)

section \<open>Slots as buffers of an arena\<close>

text \<open>A range of an arena, read and overwritten.\<close>

definition load :: "'d list \<Rightarrow> int \<Rightarrow> int \<Rightarrow> 'd list" where
  "load a f n = take (nat n) (drop (nat f) a)"

definition store :: "'d list \<Rightarrow> int \<Rightarrow> 'd list \<Rightarrow> 'd list" where
  "store a f xs = take (nat f) a @ xs @ drop (nat f + length xs) a"

lemma length_store: "0 \<le> f \<Longrightarrow> nat f + length xs \<le> length a \<Longrightarrow> length (store a f xs) = length a"
  by (simp add: store_def)

lemma load_store_same: "0 \<le> f \<Longrightarrow> nat f \<le> length a \<Longrightarrow> load (store a f xs) f (int (length xs)) = xs"
  by (simp add: load_def store_def)

lemma load_store_disjoint:
  assumes "disjoint_ranges f (int (length xs)) f' n'" and "0 \<le> f" and "0 \<le> f'" and "0 \<le> n'"
    and "nat f + length xs \<le> length a"
  shows "load (store a f xs) f' n' = load a f' n'"
proof (rule nth_equalityI)
  show "length (load (store a f xs) f' n') = length (load a f' n')"
    using assms by (simp add: load_def length_store)
  fix i assume "i < length (load (store a f xs) f' n')"
  then have i: "i < nat n'" "nat f' + i < length a"
    using assms by (auto simp: load_def length_store)
  have "nat f' + i < nat f \<or> nat f + length xs \<le> nat f' + i"
    using assms(1-4) i(1) by (auto simp: disjoint_ranges_def)
  then have "store a f xs ! (nat f' + i) = a ! (nat f' + i)"
    using assms(2,5) i(2) by (auto simp: store_def nth_append)
  then show "load (store a f xs) f' n' ! i = load a f' n' ! i"
    using assms i by (simp add: load_def length_store)
qed

text \<open>
  The contract the kernels' view of memory rests on: \<open>place b s\<close> is the range of slot \<open>s\<close> under binding
  \<open>b\<close> and \<open>extent b\<close> the size of the arena. From it, an arena behaves as one buffer per slot.
\<close>

locale arena =
  fixes place :: "'b \<Rightarrow> nat \<Rightarrow> (int \<times> int) option" and extent :: "'b \<Rightarrow> int"
  assumes place_bounds: "place b s = Some (f, n) \<Longrightarrow> 0 \<le> f \<and> 0 \<le> n \<and> f + n \<le> extent b"
    and place_disjoint:
      "place b s = Some (f, n) \<Longrightarrow> place b t = Some (f', n') \<Longrightarrow> s \<noteq> t \<Longrightarrow> disjoint_ranges f n f' n'"
begin

lemma buffer_length:
  assumes "place b s = Some (f, n)" and "int (length a) = extent b"
  shows "int (length (load a f n)) = n"
  using place_bounds [OF assms(1)] assms(2) by (auto simp: load_def min_def)

lemma buffer_write:
  assumes "place b s = Some (f, n)" and "place b t = Some (f', n')"
    and "int (length a) = extent b" and "int (length xs) = n"
  shows "load (store a f xs) f' n' = (if t = s then xs else load a f' n')"
    and "int (length (store a f xs)) = extent b"
proof -
  have fits: "0 \<le> f" "nat f + length xs \<le> length a" "0 \<le> f'" "0 \<le> n'"
    using place_bounds [OF assms(1)] place_bounds [OF assms(2)] assms(3,4) by auto
  show "int (length (store a f xs)) = extent b" using fits assms(3) by (simp add: length_store)
  show "load (store a f xs) f' n' = (if t = s then xs else load a f' n')"
  proof (cases "t = s")
    case True
    with assms fits show ?thesis using load_store_same [of f a xs] by auto
  next
    case False
    then show ?thesis
      using load_store_disjoint [OF _ fits(1,3,4,2)] place_disjoint [OF assms(1,2)] assms(4) by simp
  qed
qed

end

section \<open>The value, data and adjoint arenas meet the contract\<close>

lemma packed_cong:
  assumes "packed xs fs lo hi" and "length fs' = length fs"
    and "\<And>i. i < length xs \<Longrightarrow> fst (xs ! i) \<Longrightarrow> fs' ! i = fs ! i"
  shows "packed xs fs' lo hi"
  using assms
proof (induction xs fs lo hi arbitrary: fs' rule: packed.induct)
  case (2 t n xs f fs lo hi)
  obtain f' gs where fs': "fs' = f' # gs" using 2 by (cases fs') auto
  have "gs ! i = fs ! i" if "i < length xs" "fst (xs ! i)" for i
    using "2.prems"(3) [of "Suc i"] that fs' by simp
  moreover have "t \<longrightarrow> f' = f" using "2.prems"(3) [of 0] fs' by simp
  ultimately show ?case using 2 fs' by (cases t) auto
qed auto

lemma length_written_slots [simp]: "length (written_slots g) = length (slots g)"
proof -
  have "length (foldl (\<lambda>w op. let w' = vput w (out op) True in
       if out2 op \<ge> 0 then vput w' (out2 op) True else w') w xs) = length w" for w and xs :: "('a, 'b) Op list"
    by (induction xs arbitrary: w) (auto simp: Let_def)
  then show ?thesis by (simp add: written_slots_def)
qed

lemma length_primal_sources [simp]: "length (primal_sources g) = length (slots g)"
proof -
  have "length (foldl (\<lambda>p op. if cached_primal op then vput p (out op) (primal_source op) else p) p xs)
      = length p" for p and xs :: "('a, 'b) Op list"
    by (induction xs arbitrary: p) auto
  then show ?thesis by (simp add: primal_sources_def)
qed

lemma length_slot_classes [simp]: "length (slot_classes g bs) = length (slots g)"
  by (simp add: slot_classes_def)

text \<open>Slots with storage of their own in the value arena.\<close>

definition owns_value :: "('i, 'u) Graph \<Rightarrow> nat \<Rightarrow> bool" where
  "owns_value g i \<longleftrightarrow> \<not> is_param (slots g ! i) \<and> written_slots g ! i \<and> primal_sources g ! i < 0"

definition owns_data :: "('i, 'u) Graph \<Rightarrow> bool list \<Rightarrow> nat \<Rightarrow> bool" where
  "owns_data g bs i \<longleftrightarrow> \<not> is_param (slots g ! i) \<and> \<not> (bs \<noteq> [] \<and> bs ! i) \<and> \<not> written_slots g ! i"

text \<open>An operation never writes a parameter, so a parameter is never an alias of another slot's value.\<close>

definition params_unwritten :: "('i, 'u) Graph \<Rightarrow> bool" where
  "params_unwritten g \<longleftrightarrow> (\<forall>i < length (slots g). is_param (slots g ! i) \<longrightarrow> primal_sources g ! i < 0)"

lemma bind_values_spec:
  fixes g :: "('i, 'u) Graph"
  assumes bind: "bind_values mx g bs = Inr L"
  shows "length (lay_slots L) = length (slots g)"
    and "\<And>i. i < length (slots g) \<Longrightarrow> len (lay_slots L ! i) = len (slots g ! i)"
    and "params_unwritten g \<Longrightarrow> packed (map (\<lambda>s. (is_param s, len s)) (slots g))
           (map offset (lay_slots L)) 0 (lay_n_params L)"
    and "packed (map (\<lambda>i. (owns_value g i, len (slots g ! i))) [0..<length (slots g)])
           (map offset (lay_slots L)) (lay_n_params L) (lay_values L)"
    and "packed (map (\<lambda>i. (owns_data g bs i, len (slots g ! i))) [0..<length (slots g)])
           (lay_data_offsets L) 0 (lay_data L)"
    and "0 \<le> lay_n_params L"
    and "\<And>i. i < length (slots g) \<Longrightarrow> primal_sources g ! i \<ge> 0 \<Longrightarrow>
           vget (-1) (primal_sources g) (primal_sources g ! i) < 0 \<Longrightarrow>
           offset (lay_slots L ! i) = offset (vget no_slot (lay_slots L) (primal_sources g ! i))"
proof -
  let ?n = "length (slots g)"
  obtain ss1 np where p1: "lay_params mx (slots g) 0 = Inr (ss1, np)"
    using bind by (auto simp: bind_values_def split: sum.splits if_splits)
  obtain ss2 ds off dsz where p2: "lay_rest mx ss1 (slot_classes g bs) np 0 = Inr (ss2, ds, off, dsz)"
    using bind p1 by (auto simp: bind_values_def split: sum.splits if_splits)
  have L: "L = \<lparr>lay_slots = alias_primals (primal_sources g) ss2, lay_data_offsets = ds,
      lay_n_params = np, lay_values = off, lay_data = dsz\<rparr>"
    using bind p1 p2 by (simp add: bind_values_def split: if_splits)
  note s1 = lay_params_spec [OF p1, simplified]
  have n1: "length ss1 = ?n" using s1 by (metis length_map)
  have np: "0 \<le> np" using s1 packed_le by blast
  have n1c: "length (slot_classes g bs) = length ss1" using n1 by simp
  note s2 = lay_rest_spec [OF p2 n1c]
  note fixed = lay_rest_fixed [OF p2 n1c, unfolded n1]
  have n2: "length ss2 = ?n" using s2 n1 by (metis length_map)
  have attr1: "len (ss1 ! i) = len (slots g ! i)" "is_param (ss1 ! i) = is_param (slots g ! i)"
    if "i < ?n" for i
    using map_eq_nth [of len ss1 len "slots g" i] map_eq_nth [of is_param ss1 is_param "slots g" i] s1 that n1
    by simp_all
  have attr2: "len (ss2 ! i) = len (slots g ! i)" if "i < ?n" for i
    using map_eq_nth [of len ss2 len ss1 i] s2 that n2 attr1(1) [OF that] by simp
  show "length (lay_slots L) = ?n" using L n2 by simp
  show "len (lay_slots L ! i) = len (slots g ! i)" if "i < ?n" for i
    using L n2 attr2 that by (simp add: alias_primals_spec)
  show "0 \<le> lay_n_params L" using L np by simp
  have same: "offset (lay_slots L ! i) = offset (ss2 ! i)" if "i < ?n" "primal_sources g ! i < 0" for i
    using L n2 that by (simp add: alias_primals_spec)
  show "packed (map (\<lambda>s. (is_param s, len s)) (slots g)) (map offset (lay_slots L)) 0 (lay_n_params L)"
    if "params_unwritten g"
    using conjunct1 [OF s1] L n1 n2 fixed same attr1 that
    by (auto simp: params_unwritten_def intro!: packed_cong [of _ "map offset ss1"])
  have own: "private_slot (ss1 ! i, slot_classes g bs ! i) = owns_value g i"
    "data_slot (ss1 ! i, slot_classes g bs ! i) = owns_data g bs i" if "i < ?n" for i
    using that attr1 [OF that] fixed [OF that]
    by (auto simp: private_slot_def data_slot_def slot_classes_def owns_value_def owns_data_def)
  have cls: "map (\<lambda>x. (private_slot x, len (fst x))) (zip ss1 (slot_classes g bs))
      = map (\<lambda>i. (owns_value g i, len (slots g ! i))) [0..<?n]"
    "map (\<lambda>x. (data_slot x, len (fst x))) (zip ss1 (slot_classes g bs))
      = map (\<lambda>i. (owns_data g bs i, len (slots g ! i))) [0..<?n]"
    using n1 attr1 own by (auto intro!: nth_equalityI)
  show "packed (map (\<lambda>i. (owns_value g i, len (slots g ! i))) [0..<?n])
      (map offset (lay_slots L)) (lay_n_params L) (lay_values L)"
  proof (rule packed_cong)
    show "packed (map (\<lambda>i. (owns_value g i, len (slots g ! i))) [0..<?n]) (map offset ss2)
        (lay_n_params L) (lay_values L)"
      using conjunct1 [OF s2] L unfolding cls by simp
    fix i
    assume "i < length (map (\<lambda>i. (owns_value g i, len (slots g ! i))) [0..<?n])"
      and "fst (map (\<lambda>i. (owns_value g i, len (slots g ! i))) [0..<?n] ! i)"
    then show "map offset (lay_slots L) ! i = map offset ss2 ! i"
      using same [of i] L n2 by (simp add: owns_value_def)
  qed (use L n2 in simp)
  show "packed (map (\<lambda>i. (owns_data g bs i, len (slots g ! i))) [0..<?n])
      (lay_data_offsets L) 0 (lay_data L)"
    using conjunct1 [OF conjunct2 [OF s2]] L unfolding cls by simp
  show "offset (lay_slots L ! i) = offset (vget no_slot (lay_slots L) (primal_sources g ! i))"
    if "i < ?n" "primal_sources g ! i \<ge> 0" "vget (-1) (primal_sources g) (primal_sources g ! i) < 0" for i
    using that L n2 same [of "nat (primal_sources g ! i)"]
    by (auto simp: alias_primals_spec vget_def split: if_splits)
qed

text \<open>A binding: the size limit, the graph and its borrowed slots.\<close>

type_synonym ('i, 'u) binding = "int \<times> ('i, 'u) Graph \<times> bool list"

definition value_place :: "('i, 'u) binding \<Rightarrow> nat \<Rightarrow> (int \<times> int) option" where
  "value_place B s = (case B of (mx, g, bs) \<Rightarrow>
     (case bind_values mx g bs of Inl e \<Rightarrow> None
      | Inr L \<Rightarrow>
         if params_unwritten g \<and> s < length (slots g) \<and> (is_param (slots g ! s) \<or> owns_value g s)
         then Some (offset (lay_slots L ! s), len (slots g ! s)) else None))"

definition value_extent :: "('i, 'u) binding \<Rightarrow> int" where
  "value_extent B = (case B of (mx, g, bs) \<Rightarrow>
     (case bind_values mx g bs of Inl e \<Rightarrow> 0 | Inr L \<Rightarrow> lay_values L))"

definition data_place :: "('i, 'u) binding \<Rightarrow> nat \<Rightarrow> (int \<times> int) option" where
  "data_place B s = (case B of (mx, g, bs) \<Rightarrow>
     (case bind_values mx g bs of Inl e \<Rightarrow> None
      | Inr L \<Rightarrow>
         if s < length (slots g) \<and> owns_data g bs s
         then Some (lay_data_offsets L ! s, len (slots g ! s)) else None))"

definition data_extent :: "('i, 'u) binding \<Rightarrow> int" where
  "data_extent B = (case B of (mx, g, bs) \<Rightarrow>
     (case bind_values mx g bs of Inl e \<Rightarrow> 0 | Inr L \<Rightarrow> lay_data L))"

definition adjoint_place :: "int \<times> ('i, 'u) Graph \<Rightarrow> nat \<Rightarrow> (int \<times> int) option" where
  "adjoint_place B s = (case B of (mx, g) \<Rightarrow>
     (case bind_adjoints mx g of Inl e \<Rightarrow> None
      | Inr (fs, hi) \<Rightarrow>
         if s < length (slots g) \<and> (is_param (slots g ! s) \<or> adjoint_slot g s)
         then Some (fs ! s, len (slots g ! s)) else None))"

definition adjoint_extent :: "int \<times> ('i, 'u) Graph \<Rightarrow> int" where
  "adjoint_extent B = (case B of (mx, g) \<Rightarrow>
     (case bind_adjoints mx g of Inl e \<Rightarrow> 0 | Inr (fs, hi) \<Rightarrow> hi))"

text \<open>Two packed families over the same offsets, the second starting where the first ends.\<close>

lemma packed_two:
  assumes one: "packed (map (\<lambda>i. (P i, f i)) [0..<n]) fs 0 mid"
    and two: "packed (map (\<lambda>i. (Q i, f i)) [0..<n]) fs mid hi"
  shows "\<And>i. i < n \<Longrightarrow> P i \<or> Q i \<Longrightarrow> 0 \<le> fs ! i \<and> 0 \<le> f i \<and> fs ! i + f i \<le> hi"
    and "\<And>i j. i < n \<Longrightarrow> j < n \<Longrightarrow> i \<noteq> j \<Longrightarrow> P i \<or> Q i \<Longrightarrow> P j \<or> Q j \<Longrightarrow>
      disjoint_ranges (fs ! i) (f i) (fs ! j) (f j)"
proof -
  have mid: "0 \<le> mid" "mid \<le> hi" using packed_le [OF one] packed_le [OF two] by auto
  have b: "P i \<Longrightarrow> 0 \<le> fs ! i \<and> 0 \<le> f i \<and> fs ! i + f i \<le> mid"
    "Q i \<Longrightarrow> mid \<le> fs ! i \<and> 0 \<le> f i \<and> fs ! i + f i \<le> hi" if "i < n" for i
    using packed_bounds [OF one, of i] packed_bounds [OF two, of i] that by auto
  show "0 \<le> fs ! i \<and> 0 \<le> f i \<and> fs ! i + f i \<le> hi" if "i < n" "P i \<or> Q i" for i
    using b [OF that(1)] that(2) mid by auto
  show "disjoint_ranges (fs ! i) (f i) (fs ! j) (f j)"
    if "i < n" "j < n" "i \<noteq> j" "P i \<or> Q i" "P j \<or> Q j" for i j
    using that packed_disjoint [OF one, of i j] packed_disjoint [OF two, of i j] b [OF that(1)] b [OF that(2)]
    by (auto simp: disjoint_ranges_def)
qed

lemma map_slots_upt: "map f (slots g) = map (\<lambda>i. f (slots g ! i)) [0..<length (slots g)]"
  by (rule nth_equalityI) auto

interpretation va: arena value_place value_extent
proof
  fix B :: "('i, 'u) binding" and s t f n f' n'
  obtain mx g bs where B: "B = (mx, g, bs)" by (cases B)
  have two: "packed (map (\<lambda>i. (is_param (slots g ! i), len (slots g ! i))) [0..<length (slots g)])
      (map offset (lay_slots L)) 0 (lay_n_params L)"
    "packed (map (\<lambda>i. (owns_value g i, len (slots g ! i))) [0..<length (slots g)])
      (map offset (lay_slots L)) (lay_n_params L) (lay_values L)"
    "length (lay_slots L) = length (slots g)"
    if "bind_values mx g bs = Inr L" "params_unwritten g" for L
    using bind_values_spec(1,3,4) [OF that(1)] that(2) map_slots_upt [of "\<lambda>s. (is_param s, len s)" g]
    by auto
  show "value_place B s = Some (f, n) \<Longrightarrow> 0 \<le> f \<and> 0 \<le> n \<and> f + n \<le> value_extent B"
    using packed_two(1) [OF two(1,2), of _ s] two(3) B
    by (auto simp: value_place_def value_extent_def split: sum.splits if_splits)
  show "value_place B s = Some (f, n) \<Longrightarrow> value_place B t = Some (f', n') \<Longrightarrow> s \<noteq> t \<Longrightarrow>
      disjoint_ranges f n f' n'"
    using packed_two(2) [OF two(1,2), of _ s t] two(3) B
    by (auto simp: value_place_def split: sum.splits if_splits)
qed

interpretation da: arena data_place data_extent
proof
  fix B :: "('i, 'u) binding" and s t f n f' n'
  obtain mx g bs where B: "B = (mx, g, bs)" by (cases B)
  show "data_place B s = Some (f, n) \<Longrightarrow> 0 \<le> f \<and> 0 \<le> n \<and> f + n \<le> data_extent B"
    using packed_bounds [OF bind_values_spec(5), of mx g bs _ s] B
    by (auto simp: data_place_def data_extent_def split: sum.splits if_splits)
  show "data_place B s = Some (f, n) \<Longrightarrow> data_place B t = Some (f', n') \<Longrightarrow> s \<noteq> t \<Longrightarrow>
      disjoint_ranges f n f' n'"
    using packed_disjoint [OF bind_values_spec(5), of mx g bs _ s t] B
    by (auto simp: data_place_def split: sum.splits if_splits)
qed

lemma bind_adjoints_spec:
  assumes "bind_adjoints mx g = Inr (fs, hi)"
  shows "\<exists>np. packed (map (\<lambda>i. (is_param (slots g ! i), len (slots g ! i))) [0..<length (slots g)]) fs 0 np
    \<and> packed (map (\<lambda>i. (adjoint_slot g i, len (slots g ! i))) [0..<length (slots g)]) fs np hi"
proof -
  let ?n = "length (slots g)"
  let ?ps = "map (\<lambda>s. (is_param s, len s)) (slots g)"
  obtain fs1 np where one: "lay_adjoints mx ?ps (replicate ?n (-1)) 0 = Inr (fs1, np)"
    and two: "lay_adjoints mx (map (\<lambda>i. (adjoint_slot g i, len (slots g ! i))) [0..<?n]) fs1 np = Inr (fs, hi)"
    using assms by (auto simp: bind_adjoints_def Let_def split: sum.splits)
  have p1: "packed ?ps fs1 0 np" using lay_adjoints_spec [OF one] by simp
  then have n1: "length fs1 = ?n" "0 \<le> np" using packed_length packed_le by fastforce+
  note s2 = lay_adjoints_spec [OF two, simplified n1, simplified]
  have n2: "length fs = ?n" using s2 packed_length by fastforce
  have "packed ?ps fs 0 np"
    using s2 n1 n2 by (auto intro!: packed_cong [OF p1] simp: adjoint_slot_def)
  with s2 n1 show ?thesis using map_slots_upt [of "\<lambda>s. (is_param s, len s)" g] by auto
qed

interpretation aa: arena adjoint_place adjoint_extent
proof
  fix B :: "int \<times> ('i, 'u) Graph" and s t f n f' n'
  obtain mx g where B: "B = (mx, g)" by (cases B)
  show "0 \<le> f \<and> 0 \<le> n \<and> f + n \<le> adjoint_extent B" if pl: "adjoint_place B s = Some (f, n)"
  proof -
    obtain fs hi where b: "bind_adjoints mx g = Inr (fs, hi)"
      using pl B by (auto simp: adjoint_place_def split: sum.splits)
    obtain np where two: "packed (map (\<lambda>i. (is_param (slots g ! i), len (slots g ! i))) [0..<length (slots g)]) fs 0 np"
      "packed (map (\<lambda>i. (adjoint_slot g i, len (slots g ! i))) [0..<length (slots g)]) fs np hi"
      using bind_adjoints_spec [OF b] by blast
    show ?thesis using packed_two(1) [OF two, of s] pl B b
      by (simp add: adjoint_place_def adjoint_extent_def split: if_splits)
  qed
  show "disjoint_ranges f n f' n'"
    if pl: "adjoint_place B s = Some (f, n)" "adjoint_place B t = Some (f', n')" "s \<noteq> t"
  proof -
    obtain fs hi where b: "bind_adjoints mx g = Inr (fs, hi)"
      using pl B by (auto simp: adjoint_place_def split: sum.splits)
    obtain np where two: "packed (map (\<lambda>i. (is_param (slots g ! i), len (slots g ! i))) [0..<length (slots g)]) fs 0 np"
      "packed (map (\<lambda>i. (adjoint_slot g i, len (slots g ! i))) [0..<length (slots g)]) fs np hi"
      using bind_adjoints_spec [OF b] by blast
    show ?thesis using packed_two(2) [OF two, of s t] pl B b
      by (simp add: adjoint_place_def split: if_splits)
  qed
qed

section \<open>Properties\<close>

lemma packed_unique:
  "packed xs fs lo hi \<Longrightarrow> packed xs fs' lo hi' \<Longrightarrow>
     hi = hi' \<and> (\<forall>i < length xs. fst (xs ! i) \<longrightarrow> fs ! i = fs' ! i)"
proof (induction xs fs lo hi arbitrary: fs' rule: packed.induct)
  case (1 lo hi)
  then show ?case by (cases fs') auto
next
  case (2 t n xs f fs lo hi)
  then obtain f' gs where fs': "fs' = f' # gs" by (cases fs') auto
  with "2.prems" "2.IH" [of gs] have "hi = hi' \<and> (\<forall>i < length xs. fst (xs ! i) \<longrightarrow> fs ! i = gs ! i) \<and> (t \<longrightarrow> f = f')"
    by (cases t) auto
  with fs' show ?case by (auto simp: less_Suc_eq_0_disj)
qed auto

lemma lay_params_total:
  "list_all (\<lambda>s. 0 \<le> len s) ss \<Longrightarrow> 0 \<le> off \<Longrightarrow> off + sum_list (map len ss) \<le> mx \<Longrightarrow>
     \<exists>ss' hi. lay_params mx ss off = Inr (ss', hi)
       \<and> hi + sum_list (map len (filter (\<lambda>s. \<not> is_param s) ss)) = off + sum_list (map len ss)"
proof (induction ss arbitrary: off)
  case (Cons s ss)
  have tail: "0 \<le> sum_list (map len ss)" using Cons.prems(1) by (auto intro!: sum_list_nonneg simp: list_all_iff)
  show ?case
  proof (cases "is_param s")
    case True
    with Cons.IH [of "off + len s"] Cons.prems tail show ?thesis
      by (fastforce simp: checked_size_def)
  next
    case False
    with Cons.IH [of off] Cons.prems show ?thesis by fastforce
  qed
qed simp

lemma lay_rest_total:
  "list_all (\<lambda>s. 0 \<le> len s) ss \<Longrightarrow> 0 \<le> off \<Longrightarrow> 0 \<le> dsz \<Longrightarrow>
   off + dsz + sum_list (map len (filter (\<lambda>s. \<not> is_param s) ss)) \<le> mx \<Longrightarrow>
   \<forall>a \<in> set as. \<not> fst a \<Longrightarrow> \<exists>r. lay_rest mx ss as off dsz = Inr r"
proof (induction mx ss as off dsz rule: lay_rest.induct)
  case (1 mx s ss a as off dsz)
  obtain b w p where a: "a = (b, w, p)" by (cases a)
  let ?rest = "sum_list (map len (filter (\<lambda>s. \<not> is_param s) ss))"
  have tail: "0 \<le> ?rest"
    using "1.prems"(1) by (auto intro!: sum_list_nonneg simp: list_all_iff)
  then have "\<exists>s' d o' d'. rest_slot mx s a off dsz = Inr (s', d, o', d') \<and> 0 \<le> o' \<and> 0 \<le> d' \<and> o' + d' + ?rest \<le> mx"
    using "1.prems" a by (auto simp: rest_slot_def checked_size_def split: if_splits)
  then obtain s' d o' d' where r: "rest_slot mx s a off dsz = Inr (s', d, o', d')"
    and "0 \<le> o'" "0 \<le> d'" "o' + d' + ?rest \<le> mx" by blast
  with "1.IH" [OF r refl refl refl] "1.prems" have "\<exists>r. lay_rest mx ss as o' d' = Inr r" by auto
  with r show ?case by force
qed auto

lemma bind_values_total:
  assumes "outputs_in_range g" "sources_in_range g"
    and "list_all (\<lambda>s. 0 \<le> len s) (slots g)" and "sum_list (map len (slots g)) \<le> mx"
  shows "\<exists>L. bind_values mx g [] = Inr L
    \<and> lay_n_params L = sum_list (map len (filter is_param (slots g)))"
proof -
  obtain ss np where one: "lay_params mx (slots g) 0 = Inr (ss, np)"
    and sum: "np + sum_list (map len (filter (\<lambda>s. \<not> is_param s) (slots g))) = sum_list (map len (slots g))"
    using lay_params_total [OF assms(3), of 0 mx] assms(4) by auto
  note s1 = lay_params_spec [OF one, simplified]
  have np: "0 \<le> np" using s1 packed_le by blast
  have "list_all (\<lambda>n. 0 \<le> n) (map len ss)" using assms(3) s1 by (simp add: list.pred_map o_def)
  then have pos: "list_all (\<lambda>s. 0 \<le> len s) ss" by (simp add: list.pred_map o_def)
  have "map len (filter (\<lambda>s. \<not> is_param s) xs)
      = map fst (filter (\<lambda>x. \<not> snd x) (zip (map len xs) (map is_param xs)))"
    for xs :: "Slot list" by (induction xs) auto
  from this [of ss] this [of "slots g"]
  have filt: "map len (filter (\<lambda>s. \<not> is_param s) ss) = map len (filter (\<lambda>s. \<not> is_param s) (slots g))"
    using s1 by simp
  have "\<forall>a \<in> set (slot_classes g []). \<not> fst a" by (auto simp: slot_classes_def)
  with lay_rest_total [OF pos np, of 0 mx "slot_classes g []"] filt sum assms(4)
  obtain r where "lay_rest mx ss (slot_classes g []) np 0 = Inr r" by auto
  with one have "\<exists>L. bind_values mx g [] = Inr L \<and> lay_n_params L = np"
    by (cases r) (auto simp: bind_values_def assms(1,2))
  moreover have "sum_list (map len xs) = sum_list (map len (filter is_param xs))
      + sum_list (map len (filter (\<lambda>s. \<not> is_param s) xs))" for xs
    by (induction xs) auto
  ultimately show ?thesis using sum by (metis add_right_cancel)
qed

lemma lay_adjoints_total:
  "list_all (\<lambda>x. 0 \<le> snd x) xs \<Longrightarrow> 0 \<le> off \<Longrightarrow> off + sum_list (map snd (filter fst xs)) \<le> mx \<Longrightarrow>
    \<exists>fs'. lay_adjoints mx xs fs off = Inr (fs', off + (if length fs < length xs then 0 else sum_list (map snd (filter fst xs))))
      \<or> length fs < length xs"
proof (induction mx xs fs off rule: lay_adjoints.induct)
  case (1 mx t n xs f fs off)
  have "0 \<le> sum_list (map snd (filter fst xs))"
    using "1.prems"(1) by (auto intro!: sum_list_nonneg simp: list_all_iff)
  then show ?case
    using 1 by (cases t) (fastforce simp: checked_size_def)+
qed auto

lemma sum_split: "sum_list (map g xs) = sum_list (map g (filter P xs)) + (sum_list (map g (filter (\<lambda>x. \<not> P x) xs)) :: int)"
  by (induction xs) auto

lemma bind_adjoints_total:
  assumes "list_all (\<lambda>s. 0 \<le> len s) (slots g)" and "sum_list (map len (slots g)) \<le> mx"
  shows "\<exists>A. bind_adjoints mx g = Inr A"
proof -
  let ?n = "length (slots g)"
  let ?ps = "map (\<lambda>s. (is_param s, len s)) (slots g)"
  let ?as = "map (\<lambda>i. (adjoint_slot g i, len (slots g ! i))) [0..<?n]"
  define P where "P = sum_list (map len (filter is_param (slots g)))"
  have P: "sum_list (map snd (filter fst ?ps)) = P" by (simp add: P_def filter_map o_def)
  have total: "P + sum_list (map len (filter (\<lambda>s. \<not> is_param s) (slots g))) = sum_list (map len (slots g))"
    using sum_split [of len "slots g" is_param] by (simp add: P_def)
  have pos: "0 \<le> sum_list (map len (filter Q (slots g)))" for Q
    using assms(1) by (auto intro!: sum_list_nonneg simp: list_all_iff)
  obtain fs where one: "lay_adjoints mx ?ps (replicate ?n (-1)) 0 = Inr (fs, P)"
    using lay_adjoints_total [of ?ps 0 mx "replicate ?n (-1)"] assms P total pos [of "\<lambda>s. \<not> is_param s"]
    by (auto simp: list.pred_map o_def)
  have "length fs = ?n" using lay_adjoints_spec [OF one] packed_length by fastforce
  moreover have "sum_list (map snd (filter fst ?as)) \<le> sum_list (map len (filter (\<lambda>s. \<not> is_param s) (slots g)))"
  proof -
    have e: "filter (\<lambda>s. \<not> is_param s) (slots g) = map (\<lambda>i. slots g ! i) (filter (\<lambda>i. \<not> is_param (slots g ! i)) [0..<?n])"
      by (metis (mono_tags, lifting) comp_apply filter_cong filter_map map_nth)
    have m: "sum_list (map snd (filter fst (map (\<lambda>i. (A i, len (slots g ! i))) is))) \<le>
        sum_list (map (\<lambda>i. len (slots g ! i)) (filter (\<lambda>i. \<not> is_param (slots g ! i)) is))"
      if "\<forall>i \<in> set is. i < ?n \<and> (A i \<longrightarrow> \<not> is_param (slots g ! i))" for "is" A
      using that assms(1) by (induction "is") (auto simp: list_all_length)
    show ?thesis unfolding e by (simp only: map_map o_def) (rule m, simp add: adjoint_slot_def)
  qed
  ultimately show ?thesis
    using lay_adjoints_total [of ?as P mx fs] assms total pos [of is_param] one
    by (auto simp: bind_adjoints_def Let_def P_def list.pred_map o_def list_all_length)
qed

text \<open>Every cached primal comes after the operation whose value it shares.\<close>

fun sources_first :: "('i, 'u) Op list \<Rightarrow> int set \<Rightarrow> bool" where
  "sources_first [] S \<longleftrightarrow> True"
| "sources_first (op # rest) S \<longleftrightarrow>
     (if cached_primal op then primal_source op \<in> S \<and> sources_first rest S
      else sources_first rest (if primal_source op = out op then insert (out op) S else S))"

lemma lay_scratch_total:
  "sources_first xs S \<Longrightarrow> (\<forall>p \<in> S. 0 \<le> vget (-1) src p) \<Longrightarrow>
   (\<forall>op \<in> set xs. opcode op \<noteq> OP_NONE \<and> registered (opcode op) \<and> 0 \<le> scratch_size op \<and> 0 \<le> out op \<and> out op < int (length src)) \<Longrightarrow>
   0 \<le> sc \<Longrightarrow> sc + sum_list (map scratch_size (filter (\<lambda>op. \<not> cached_primal op) xs)) \<le> mx \<Longrightarrow>
   \<exists>r. lay_scratch mx registered scratch_size xs src offs sc = Inr r"
proof (induction xs arbitrary: S src offs sc)
  case (Cons op xs)
  let ?rest = "sum_list (map scratch_size (filter (\<lambda>op. \<not> cached_primal op) xs))"
  have rest: "0 \<le> ?rest" using Cons.prems(3) by (auto intro!: sum_list_nonneg)
  show ?case
  proof (cases "cached_primal op")
    case True
    with Cons.prems have "0 \<le> vget (-1) src (primal_source op)" "sources_first xs S" by simp_all
    with Cons.IH [of S src sc "offs @ [vget 0 offs (vget (-1) src (primal_source op))]"] Cons.prems True show ?thesis
      by (auto simp: Let_def not_less)
  next
    case False
    let ?src = "if primal_source op = out op then vput src (out op) (int (length offs)) else src"
    let ?S = "if primal_source op = out op then insert (out op) S else S"
    have src: "\<forall>p \<in> ?S. 0 \<le> vget (-1) ?src p" using Cons.prems(2,3) by (auto simp: vget_vput)
    have len: "\<forall>op \<in> set xs. opcode op \<noteq> OP_NONE \<and> registered (opcode op) \<and> 0 \<le> scratch_size op \<and>
        0 \<le> out op \<and> out op < int (length ?src)" using Cons.prems(3) by simp
    have "\<exists>r. lay_scratch mx registered scratch_size xs ?src (offs @ [sc]) (sc + scratch_size op) = Inr r"
      using Cons.prems False rest by (intro Cons.IH [OF _ src len]) simp_all
    with Cons.prems False rest show ?thesis by (simp add: Let_def checked_size_def)
  qed
qed simp

lemma primal_sources_range:
  assumes "sources_first xs S" "\<forall>p \<in> S. p < m" "\<forall>op \<in> set xs. out op < m" "\<forall>p \<in> set ps. p < m"
  shows "\<forall>p \<in> set (foldl (\<lambda>p op. if cached_primal op then vput p (out op) (primal_source op) else p) ps xs). p < m"
  using assms
proof (induction xs arbitrary: S ps)
  case (Cons op xs)
  have put: "\<forall>p \<in> set (vput ps (out op) x). p < m" if "x < m" for x
    using Cons.prems(4) that set_update_subset_insert [of ps "nat (out op)" x] by (auto simp: vput_def)
  show ?case
  proof (cases "cached_primal op")
    case True
    with Cons.prems(1,2) have "primal_source op < m" "sources_first xs S" by simp_all
    from Cons.IH [OF this(2) Cons.prems(2) _ put [OF this(1)]] Cons.prems(3) True show ?thesis by simp
  next
    case False
    let ?S = "if primal_source op = out op then insert (out op) S else S"
    have "\<forall>p \<in> ?S. p < m" "sources_first xs ?S" using Cons.prems(1,2,3) False by simp_all
    from Cons.IH [OF this(2,1) _ Cons.prems(4)] Cons.prems(3) False show ?thesis by simp
  qed
qed simp

text \<open>C28. Binding a graph without borrowed slots succeeds - values, adjoints, kernel scratch and contexts - whenever the slot indices of
  the operations and the result are in range, no slot length is negative and the lengths sum to at most the largest
  vector, every opcode is registered, no kernel asks for a negative amount of scratch and the amounts sum to at most the largest
  vector, and every cached primal comes after the operation whose value it shares; the parameters then take the sum of
  their lengths. An output, source, input or result slot out of range is undefined behaviour in \<^verbatim>\<open>bind_\<close> and in the model. The
  states the kernels make for themselves, and memory, are left out.\<close>

theorem bind_arenas_succeeds:
  assumes "outputs_in_range g" "inputs_in_range g" "result_slot g < int (length (slots g))"
    and "list_all (\<lambda>s. 0 \<le> len s) (slots g)" and "sum_list (map len (slots g)) \<le> mx"
    and "\<forall>op \<in> set (ops g). opcode op \<noteq> OP_NONE \<and> registered (opcode op) \<and> 0 \<le> scratch_size op"
    and "sum_list (map scratch_size (filter (\<lambda>op. \<not> cached_primal op) (ops g))) \<le> mx"
    and "sources_first (ops g) {}"
  shows "\<exists>B. bind_arenas mx registered scratch_size g [] = Inr B
    \<and> lay_n_params (bd_layout B) = sum_list (map len (filter is_param (slots g)))"
proof -
  have "\<forall>p \<in> set (primal_sources g). p < int (length (slots g))"
    unfolding primal_sources_def
    by (rule primal_sources_range [OF assms(8)]) (use assms(1) in \<open>auto simp: outputs_in_range_def list_all_iff\<close>)
  then have "sources_in_range g" by (simp add: sources_in_range_def list_all_iff)
  from bind_values_total [OF assms(1) this assms(4,5)] obtain L where L: "bind_values mx g [] = Inr L"
    "lay_n_params L = sum_list (map len (filter is_param (slots g)))" by blast
  obtain A where A: "bind_adjoints mx g = Inr A" using bind_adjoints_total [OF assms(4,5)] by blast
  have "\<exists>r. bind_scratch mx registered scratch_size g = Inr r"
    unfolding bind_scratch_def
    by (rule lay_scratch_total [OF assms(8)]) (use assms(1,6,7) in \<open>auto simp: outputs_in_range_def list_all_iff\<close>)
  with L A assms(2,3) show ?thesis by (auto simp: bind_arenas_def)
qed

text \<open>The slot whose storage the value of a slot is in: the source of a cached primal, otherwise the slot itself. Common-subexpression
  elimination makes a source an ordinary output of the same length.\<close>

definition value_root :: "('i, 'u) Graph \<Rightarrow> nat \<Rightarrow> nat" where
  "value_root g t = (if primal_sources g ! t \<ge> 0 then nat (primal_sources g ! t) else t)"

definition shared_primals_ok :: "('i, 'u) Graph \<Rightarrow> bool" where
  "shared_primals_ok g \<longleftrightarrow> (\<forall>i < length (slots g). primal_sources g ! i \<ge> 0 \<longrightarrow> \<not> is_param (slots g ! i) \<and>
     value_root g i < length (slots g) \<and> primal_sources g ! value_root g i < 0 \<and>
     (is_param (slots g ! value_root g i) \<or> written_slots g ! value_root g i) \<and>
     len (slots g ! i) = len (slots g ! value_root g i))"

text \<open>C25. Under a successful binding the value arena behaves as one private buffer per parameter and per written
  slot, except that the output of a cached primal shares the buffer of its source: overwriting the range of a slot that is
  not a cached primal's output changes the buffer of that slot, and of the outputs that share it, to exactly the written values,
  and leaves the buffer of every other parameter and written slot alone. Of the sharing it is assumed that a
  parameter is not the output of a cached primal, and that a source is a parameter or a written slot, not the output of a cached
  primal itself, and of the same length.\<close>

theorem bind_values_private_buffers:
  assumes "bind_values mx g bs = Inr L" "shared_primals_ok g"
    and "s < length (slots g)" "is_param (slots g ! s) \<or> written_slots g ! s" "primal_sources g ! s < 0"
    and "t < length (slots g)" "is_param (slots g ! t) \<or> written_slots g ! t"
    and "int (length a) = lay_values L" and "int (length xs) = len (slots g ! s)"
  shows "load (store a (offset (lay_slots L ! s)) xs) (offset (lay_slots L ! t)) (len (slots g ! t)) =
    (if value_root g t = s then xs else load a (offset (lay_slots L ! t)) (len (slots g ! t)))"
proof -
  have unwritten: "params_unwritten g" using assms(2) by (force simp: shared_primals_ok_def params_unwritten_def)
  have place: "value_place (mx, g, bs) r = Some (offset (lay_slots L ! r), len (slots g ! r))"
    if "r < length (slots g)" "is_param (slots g ! r) \<or> written_slots g ! r" "primal_sources g ! r < 0" for r
    using that assms(1) unwritten by (auto simp: value_place_def owns_value_def)
  let ?r = "value_root g t"
  have r: "?r < length (slots g)" "is_param (slots g ! ?r) \<or> written_slots g ! ?r" "primal_sources g ! ?r < 0"
    "len (slots g ! t) = len (slots g ! ?r)"
    using assms(2,6,7) by (auto simp: shared_primals_ok_def value_root_def split: if_splits)
  have "offset (lay_slots L ! t) = offset (lay_slots L ! ?r)"
  proof (cases "primal_sources g ! t \<ge> 0")
    case True
    with r(1,3) have "vget (-1) (primal_sources g) (primal_sources g ! t) < 0" by (simp add: vget_def value_root_def)
    with bind_values_spec(7) [OF assms(1,6) True] r(1) True bind_values_spec(1) [OF assms(1)] show ?thesis
      by (simp add: vget_def value_root_def)
  qed (simp add: value_root_def)
  with va.buffer_write(1) [OF place [OF assms(3,4,5)] place [OF r(1-3)], of a xs] assms(1,8,9) r(4) show ?thesis
    by (simp add: value_extent_def)
qed

text \<open>A graph with a parameter vector, a data slot and two written slots.\<close>

definition small_graph :: "unit graph" where
  "small_graph = \<lparr>slots = [\<lparr>offset = 0, len = 2, is_param = True\<rparr>, \<lparr>offset = 0, len = 3, is_param = False\<rparr>,
       \<lparr>offset = 0, len = 1, is_param = False\<rparr>, \<lparr>offset = 0, len = 2, is_param = False\<rparr>],
     ops = [(default_op None)\<lparr>opcode := OP_INDEX, in_slots := [0], out := 2, idata := Some [1]\<rparr>,
            (default_op None)\<lparr>opcode := OP_SET_INDEX, in_slots := [0, 2], out := 3, idata := Some [0]\<rparr>],
     result_slot = 2\<rparr>"

theorem bind_arenas_succeeds_witness:
  "\<exists>B. bind_arenas 100 (\<lambda>_. True) (\<lambda>_. 3) small_graph [] = Inr B
    \<and> lay_n_params (bd_layout B) = sum_list (map len (filter is_param (slots small_graph)))"
  by (rule bind_arenas_succeeds) code_simp+

text \<open>Two equal reads of a parameter, the second sharing the value of the first, and a store.\<close>

definition shared_graph :: "unit graph" where
  "shared_graph = small_graph\<lparr>slots := slots small_graph @ [\<lparr>offset = 0, len = 1, is_param = False\<rparr>],
     ops := [(default_op None)\<lparr>opcode := OP_INDEX, in_slots := [0], out := 2, idata := Some [1], primal_source := 2\<rparr>,
             (default_op None)\<lparr>opcode := OP_INDEX, in_slots := [0], out := 4, idata := Some [1], primal_source := 2\<rparr>,
             (default_op None)\<lparr>opcode := OP_SET_INDEX, in_slots := [0, 2], out := 3, idata := Some [0]\<rparr>]\<rparr>"

definition shared_layout :: Layout where
  "shared_layout = \<lparr>lay_slots = [\<lparr>offset = 0, len = 2, is_param = True\<rparr>, \<lparr>offset = 0, len = 3, is_param = False\<rparr>,
       \<lparr>offset = 2, len = 1, is_param = False\<rparr>, \<lparr>offset = 3, len = 2, is_param = False\<rparr>,
       \<lparr>offset = 2, len = 1, is_param = False\<rparr>],
     lay_data_offsets = [-1, 0, -1, -1, -1], lay_n_params = 2, lay_values = 5, lay_data = 3\<rparr>"

theorem bind_values_private_buffers_witness:
  "load (store [1, 2, 3, 4, 5] (offset (lay_slots shared_layout ! 2)) [9::int]) (offset (lay_slots shared_layout ! 4))
      (len (slots shared_graph ! 4)) =
    (if value_root shared_graph 4 = 2 then [9]
     else load [1, 2, 3, 4, 5] (offset (lay_slots shared_layout ! 4)) (len (slots shared_graph ! 4)))"
  by (rule bind_values_private_buffers [of 100 _ "[]"]) code_simp+

text \<open>C26. The reverse sweep's adjoint arena has the same separation of slots, including the outputs whose
  forward value is shared with another operation.\<close>

theorem bind_adjoints_private_buffers:
  assumes "adjoint_place B s = Some (f, n)" and "adjoint_place B t = Some (f', n')"
    and "int (length a) = adjoint_extent B" and "int (length xs) = n"
  shows "load (store a f xs) f' n' = (if t = s then xs else load a f' n')"
  using assms by (rule aa.buffer_write)

theorem bind_adjoints_private_buffers_witness:
  "load (store [1, 2, 3, 4, 5] 3 [8, 9::int]) 0 2 = (if (0::nat) = 3 then [8, 9] else load [1, 2, 3, 4, 5] 0 2)"
  by (rule bind_adjoints_private_buffers [of "(100, small_graph)" 3 3 2 0 0 2]) code_simp+

text \<open>C27. The gradient is a plain copy of the first \<^verbatim>\<open>n_params_\<close> adjoints: every parameter's adjoints lie at the
  parameter's own offset in the value arena, inside that prefix.\<close>

theorem bind_gradient_prefix:
  assumes "bind_values mx g bs = Inr L" and "bind_adjoints mx g = Inr (fs, hi)"
    and "params_unwritten g" and "i < length (slots g)" and "is_param (slots g ! i)"
  shows "fs ! i = offset (lay_slots L ! i) \<and> 0 \<le> fs ! i
    \<and> fs ! i + len (slots g ! i) \<le> lay_n_params L \<and> lay_n_params L \<le> hi"
proof -
  let ?xs = "map (\<lambda>i. (is_param (slots g ! i), len (slots g ! i))) [0..<length (slots g)]"
  obtain np where a: "packed ?xs fs 0 np"
    "packed (map (\<lambda>i. (adjoint_slot g i, len (slots g ! i))) [0..<length (slots g)]) fs np hi"
    using bind_adjoints_spec [OF assms(2)] by blast
  have v: "packed ?xs (map offset (lay_slots L)) 0 (lay_n_params L)"
    using bind_values_spec(3) [OF assms(1,3)] map_slots_upt [of "\<lambda>s. (is_param s, len s)" g] by simp
  have "lay_n_params L \<le> hi" using packed_unique [OF a(1) v] packed_le [OF a(2)] by simp
  with packed_unique [OF a(1) v] packed_bounds [OF a(1), of i] assms(4,5) bind_values_spec(1) [OF assms(1)]
  show ?thesis by auto
qed

theorem bind_gradient_prefix_witness:
  "let L = \<lparr>lay_slots = [\<lparr>offset = 0, len = 2, is_param = True\<rparr>, \<lparr>offset = 0, len = 3, is_param = False\<rparr>,
          \<lparr>offset = 2, len = 1, is_param = False\<rparr>, \<lparr>offset = 3, len = 2, is_param = False\<rparr>],
        lay_data_offsets = [-1, 0, -1, -1], lay_n_params = 2, lay_values = 5, lay_data = 3\<rparr>
   in [0, -1, 2, 3::int] ! 0 = offset (lay_slots L ! 0) \<and> 0 \<le> [0, -1, 2, 3::int] ! 0
      \<and> [0, -1, 2, 3::int] ! 0 + len (slots small_graph ! 0) \<le> lay_n_params L \<and> lay_n_params L \<le> 5"
  unfolding Let_def
  by (rule bind_gradient_prefix [of 100 small_graph "[]"]) code_simp+

lemma ctx_index_spec:
  "length (ctx_index xs nf nc) = length xs
   \<and> map snd (filter (\<lambda>(op, _). \<not> cached_primal op) (zip xs (ctx_index xs nf nc)))
       = [nf..<nf + length (filter (\<lambda>op. \<not> cached_primal op) xs)]
   \<and> map snd (filter (\<lambda>(op, _). cached_primal op) (zip xs (ctx_index xs nf nc)))
       = [nc..<nc + length (filter cached_primal xs)]"
  by (induction xs nf nc rule: ctx_index.induct) (auto simp: upt_conv_Cons simp del: upt_Suc)

text \<open>C29. The kernel contexts are a rearrangement of the operations that puts the executable forwards first
  and in program order: the forward sweep, which runs over the first \<^verbatim>\<open>n_forward\<close> contexts, meets every
  operation that is not a cached primal once, in order.\<close>

theorem bind_ctx_forward_prefix:
  "map snd (filter (\<lambda>(op, _). \<not> cached_primal op) (zip (ops g) (bind_ctx g))) = [0..<n_forward g]
   \<and> map snd (filter (\<lambda>(op, _). cached_primal op) (zip (ops g) (bind_ctx g)))
       = [n_forward g..<length (ops g)]"
proof -
  have nf: "n_forward g = length (filter (\<lambda>op. \<not> cached_primal op) (ops g))"
    by (simp add: n_forward_def cached_primal_def not_le)
  have "length (filter (\<lambda>op. \<not> cached_primal op) (ops g)) + length (filter cached_primal (ops g))
      = length (ops g)"
    using sum_length_filter_compl [of cached_primal "ops g"] by simp
  with ctx_index_spec [of "ops g" 0 "n_forward g"] nf show ?thesis
    unfolding bind_ctx_def by simp
qed

end
