(* ===== verification/Cse.thy ===== *)
theory Cse
  imports Constfold Layout
begin

text \<open>
  Common-subexpression elimination (\<^verbatim>\<open>runtime/src/cse.cpp\<close>) and the helpers the graph passes share
  (\<^verbatim>\<open>runtime/src/pass_util.hpp\<close>): local value numbering over mutable slots. A repeated computation is removed
  and its readers renamed, or, when a parameter reaches it, kept with its primal shared.
\<close>

section \<open>Pass helpers\<close>

text \<open>\<^verbatim>\<open>KeyHash\<close>: FNV-1a over the 64-bit words of a key.\<close>

definition key_hash :: "int list \<Rightarrow> 64 word" where
  "key_hash k = foldl (\<lambda>h v. (h XOR word_of_int v) * 1099511628211) 1469598103934665603 k"

text \<open>\<^verbatim>\<open>first_at_or_after\<close>: binary search that also counts its probes.\<close>

function search_from :: "nat list \<Rightarrow> nat \<Rightarrow> nat \<Rightarrow> nat \<Rightarrow> nat \<Rightarrow> nat \<times> nat" where
  "search_from v x lo hi steps =
     (if lo < hi then
        let mid = lo + (hi - lo) div 2 in
        if v ! mid < x then search_from v x (mid + 1) hi (steps + 1) else search_from v x lo mid (steps + 1)
      else (lo, steps))"
  by pat_completeness auto
termination by (relation "measure (\<lambda>(v, x, lo, hi, steps). hi - lo)") auto

declare search_from.simps [simp del]

definition first_at_or_after :: "nat list \<Rightarrow> nat \<Rightarrow> nat \<Rightarrow> nat \<times> nat" where
  "first_at_or_after v x steps = search_from v x 0 (length v) steps"

definition any_at_or_after :: "nat list \<Rightarrow> nat \<Rightarrow> nat \<Rightarrow> bool \<times> nat" where
  "any_at_or_after v x steps = (case first_at_or_after v x steps of (i, n) \<Rightarrow> (i \<noteq> length v, n))"

definition emplace :: "('k \<rightharpoonup> 'v) \<Rightarrow> 'k \<Rightarrow> 'v \<Rightarrow> ('k \<rightharpoonup> 'v)" where
  "emplace f k v = (case f k of None \<Rightarrow> f(k \<mapsto> v) | Some _ \<Rightarrow> f)"

definition scalar_constants :: "'d fills \<Rightarrow> (int \<rightharpoonup> 'd)" where
  "scalar_constants fs =
     foldl (\<lambda>c (s, xs). if length xs = 1 then emplace c s (hd xs) else c) Map.empty fs"

definition lane_elt_costs_per_element :: "nat \<Rightarrow> bool" where
  "lane_elt_costs_per_element oc \<longleftrightarrow> oc \<notin> {OP_BERNOULLI_LPMF, OP_BERNOULLI_LOGIT_LPMF, OP_BINOMIAL_LPMF, OP_BINOMIAL_LOGIT_LPMF}"

definition is_element_store :: "'u gop \<Rightarrow> bool" where
  "is_element_store op \<longleftrightarrow> (opcode op = OP_SET_INDEX \<or> opcode op = OP_SET_INDEX_INPLACE)
     \<and> n_in op = 2 \<and> n_idata op = 1 \<and> out op = in_slots op ! 0"

section \<open>The pass\<close>

definition never_merge :: "nat \<Rightarrow> bool" where
  "never_merge oc \<longleftrightarrow> is_effectful_op oc \<or> has_op_trait oc kVariantGrouped
     \<or> oc = OP_ISLAND \<or> oc = OP_ODE \<or> oc = OP_DAE \<or> oc = OP_ODE_ADJOINT"

definition write_counts :: "'u graph \<Rightarrow> int list" where
  "write_counts g = foldl (\<lambda>ws op. foldl (\<lambda>ws s. vput ws s (vget 0 ws s + 1)) ws (outs op))
     (replicate (length (slots g)) 0) (ops g)"

definition keep_slots :: "'u graph \<Rightarrow> 'd fills \<Rightarrow> int list \<Rightarrow> int set" where
  "keep_slots g fills extra_roots =
     set extra_roots \<union> (if result_slot g \<ge> 0 then {result_slot g} else {}) \<union> fst ` set fills"

record 'u cse_state =
  cs_slots :: "Slot list"
  cs_version :: "int list"
  cs_active :: "bool list"
  cs_table :: "int list \<rightharpoonup> nat"
  cs_rename :: "int \<rightharpoonup> int"
  cs_primal :: "int \<rightharpoonup> int"
  cs_ops :: "'u gop list"
  cs_drop :: "bool list"
  cs_removed :: nat
  cs_shared :: nat

definition cse_init :: "'u graph \<Rightarrow> 'u cse_state" where
  "cse_init g = \<lparr>cs_slots = slots g, cs_version = replicate (length (slots g)) 0,
     cs_active = map is_param (slots g), cs_table = Map.empty, cs_rename = Map.empty,
     cs_primal = Map.empty, cs_ops = [], cs_drop = [], cs_removed = 0, cs_shared = 0\<rparr>"

definition cse_resolve :: "(int \<rightharpoonup> int) \<Rightarrow> int \<Rightarrow> int" where
  "cse_resolve r s = (case r s of None \<Rightarrow> s | Some t \<Rightarrow> t)"

text \<open>\<open>fk\<close> is \<^verbatim>\<open>find_kernel\<close>: whether an opcode is registered, and then whether its kernel makes per-operation
  state. \<open>ws\<close> are the write counts, \<open>kp\<close> the kept slots.\<close>

definition cse_candidate ::
    "(nat \<Rightarrow> bool option) \<Rightarrow> int list \<Rightarrow> int set \<Rightarrow> Slot list \<Rightarrow> 'u gop \<Rightarrow> bool" where
  "cse_candidate fk ws kp sl op \<longleftrightarrow>
     out op \<ge> 0 \<and> out2 op < 0 \<and> udata op = None \<and> primal_source op < 0 \<and> dyn_lengths op = 0
     \<and> \<not> never_merge (opcode op) \<and> vget 0 ws (out op) = 1 \<and> out op \<notin> kp
     \<and> \<not> is_param (vget no_slot sl (out op)) \<and> out op \<notin> set (in_slots op)
     \<and> fk (opcode op) = Some False"

definition key_inputs :: "int list \<Rightarrow> (int \<rightharpoonup> int) \<Rightarrow> int list \<Rightarrow> int list" where
  "key_inputs ver primal ss =
     concat (map (\<lambda>s. let i = cse_resolve primal s in [i, if i \<ge> 0 then vget 0 ver i else 0]) ss)"

definition cse_key :: "Slot list \<Rightarrow> int list \<Rightarrow> (int \<rightharpoonup> int) \<Rightarrow> 'u gop \<Rightarrow> int list" where
  "cse_key sl ver primal op =
     [int (opcode op), int (variant op), len (vget no_slot sl (out op)), int (n_in op)]
     @ key_inputs ver primal (in_slots op)
     @ n_idata op # (case idata op of None \<Rightarrow> [] | Some xs \<Rightarrow> xs)"

definition bump :: "'u gop \<Rightarrow> int list \<Rightarrow> int list" where
  "bump op ver = foldl (\<lambda>v s. vput v s (vget 0 v s + 1)) ver (outs op)"

text \<open>An operation that stays: it is appended and the versions of its outputs advance.\<close>

definition cse_keep :: "'u gop \<Rightarrow> 'u cse_state \<Rightarrow> 'u cse_state" where
  "cse_keep op st = st\<lparr>cs_ops := cs_ops st @ [op], cs_drop := cs_drop st @ [False],
     cs_version := bump op (cs_version st)\<rparr>"

definition cse_share :: "nat \<Rightarrow> 'u gop \<Rightarrow> 'u cse_state \<Rightarrow> 'u cse_state" where
  "cse_share j op st =
     (let o' = out (cs_ops st ! j)
      in cse_keep (op\<lparr>primal_source := o'\<rparr>)
           (st\<lparr>cs_ops := (cs_ops st)[j := (cs_ops st ! j)\<lparr>primal_source := o'\<rparr>],
              cs_primal := emplace (cs_primal st) (out op) o', cs_shared := cs_shared st + 1\<rparr>))"

definition cse_drop :: "nat \<Rightarrow> 'u gop \<Rightarrow> 'u cse_state \<Rightarrow> 'u cse_state" where
  "cse_drop j op st =
     st\<lparr>cs_ops := cs_ops st @ [op], cs_drop := cs_drop st @ [True],
        cs_rename := emplace (cs_rename st) (out op) (out (cs_ops st ! j)),
        cs_slots := vput (cs_slots st) (out op) ((vget no_slot (cs_slots st) (out op))\<lparr>len := 0\<rparr>),
        cs_removed := cs_removed st + 1\<rparr>"

definition cse_step :: "(nat \<Rightarrow> bool option) \<Rightarrow> int list \<Rightarrow> int set \<Rightarrow> bool \<Rightarrow> 'u cse_state \<Rightarrow> 'u gop \<Rightarrow> 'u cse_state" where
  "cse_step fk ws kp merge_active st op0 =
     (let op = op0\<lparr>in_slots := map (cse_resolve (cs_rename st)) (in_slots op0)\<rparr>;
          any_active = list_ex (\<lambda>s. s \<ge> 0 \<and> vget False (cs_active st) s) (in_slots op);
          st1 = (if any_active then st\<lparr>cs_active := set_flags (outs op) (cs_active st)\<rparr> else st)
      in if cse_candidate fk ws kp (cs_slots st) op then
           let key = cse_key (cs_slots st) (cs_version st) (cs_primal st) op in
           (case cs_table st key of
              None \<Rightarrow> cse_keep op (st1\<lparr>cs_table := (cs_table st)(key \<mapsto> length (cs_ops st))\<rparr>)
            | Some j \<Rightarrow> if any_active \<and> \<not> merge_active then cse_share j op st1 else cse_drop j op st1)
         else cse_keep op st1)"

definition cse_scan :: "(nat \<Rightarrow> bool option) \<Rightarrow> int list \<Rightarrow> int set \<Rightarrow> bool \<Rightarrow> 'u gop list \<Rightarrow> 'u cse_state \<Rightarrow> 'u cse_state" where
  "cse_scan fk ws kp merge_active os st = foldl (cse_step fk ws kp merge_active) st os"

definition cse :: "(nat \<Rightarrow> bool option) \<Rightarrow> bool \<Rightarrow> 'u graph \<Rightarrow> 'd fills \<Rightarrow> int list \<Rightarrow> int list \<Rightarrow> bool
    \<Rightarrow> 'u graph \<times> int list \<times> nat \<times> nat" where
  "cse fk disabled g fills target_terms extra_roots merge_active =
     (if disabled then (g, target_terms, 0, 0)
      else
        let st = cse_scan fk (write_counts g) (keep_slots g fills extra_roots) merge_active (ops g) (cse_init g);
            g1 = g\<lparr>slots := cs_slots st, ops := cs_ops st\<rparr>
        in if cs_removed st = 0 then (g1, target_terms, 0, cs_shared st)
           else (g1\<lparr>ops := selected (map Not (cs_drop st)) (cs_ops st)\<rparr>,
                 map (cse_resolve (cs_rename st)) target_terms, cs_removed st, cs_shared st))"

section \<open>What the executor runs\<close>

text \<open>The binding gives a cached primal its source's value buffer and leaves it out of the forward sweep
  (\<open>alias_primals\<close>, \<open>bind_ctx\<close>).\<close>

definition primal_of :: "'u graph \<Rightarrow> int \<Rightarrow> int" where
  "primal_of g s = (let p = vget (-1) (primal_sources g) s in if p \<ge> 0 then p else s)"

definition forward_ops :: "'u graph \<Rightarrow> 'u gop list" where
  "forward_ops g = map (rename_op (primal_of g)) (filter (\<lambda>op. \<not> cached_primal op) (ops g))"


section \<open>Binary search\<close>

lemma search_from_correct:
  assumes "sorted v" and "lo \<le> hi" and "hi \<le> length v"
    and "\<forall>k < lo. v ! k < x" and "\<forall>k. hi \<le> k \<and> k < length v \<longrightarrow> x \<le> v ! k"
    and "search_from v x lo hi n = (i, n')"
  shows "lo \<le> i \<and> i \<le> hi \<and> (\<forall>k < i. v ! k < x) \<and> (\<forall>k. i \<le> k \<and> k < length v \<longrightarrow> x \<le> v ! k)
    \<and> n \<le> n' \<and> (n' = n \<or> 2 ^ (n' - n) \<le> 2 * (hi - lo))"
  using assms
proof (induction v x lo hi n arbitrary: i n' rule: search_from.induct)
  case (1 v x lo hi n)
  show ?case
  proof (cases "lo < hi")
    case False
    then have "search_from v x lo hi n = (lo, n)" by (simp add: search_from.simps)
    with "1.prems" False show ?thesis by auto
  next
    case True
    define mid where "mid = lo + (hi - lo) div 2"
    have mid: "lo \<le> mid" "mid < hi" using True by (auto simp: mid_def)
    have halves: "2 * (hi - (mid + 1)) \<le> hi - lo" "2 * (mid - lo) \<le> hi - lo" using True by (auto simp: mid_def)
    have grow: "2 ^ (n' - n) \<le> 2 * (hi - lo)"
      if "Suc n \<le> n'" "n' = Suc n \<or> 2 ^ (n' - Suc n) \<le> 2 * h" "2 * h \<le> hi - lo" for h
    proof -
      have "n' - n = Suc (n' - Suc n)" using that(1) by simp
      then show ?thesis using that(2,3) True by auto
    qed
    show ?thesis
    proof (cases "v ! mid < x")
      case lt: True
      have r: "search_from v x (mid + 1) hi (n + 1) = (i, n')"
        using "1.prems"(6) True lt by (simp add: search_from.simps [of v x lo hi n] mid_def Let_def)
      have "\<forall>k < mid + 1. v ! k < x"
      proof (intro allI impI)
        fix k assume "k < mid + 1"
        then have "v ! k \<le> v ! mid" using "1.prems"(1,3) mid by (intro sorted_nth_mono) auto
        with lt show "v ! k < x" by simp
      qed
      from "1.IH"(1) [OF True mid_def lt "1.prems"(1) _ "1.prems"(3) this "1.prems"(5) r] mid grow halves(1)
      show ?thesis by fastforce
    next
      case ge: False
      have r: "search_from v x lo mid (n + 1) = (i, n')"
        using "1.prems"(6) True ge by (simp add: search_from.simps [of v x lo hi n] mid_def Let_def)
      have "\<forall>k. mid \<le> k \<and> k < length v \<longrightarrow> x \<le> v ! k"
      proof (intro allI impI)
        fix k assume "mid \<le> k \<and> k < length v"
        then have "v ! mid \<le> v ! k" using "1.prems"(1) by (intro sorted_nth_mono) auto
        with ge show "x \<le> v ! k" by simp
      qed
      from "1.IH"(2) [OF True mid_def ge "1.prems"(1) mid(1) _ "1.prems"(4) this r] mid "1.prems"(3) grow halves(2)
      show ?thesis by fastforce
    qed
  qed
qed

lemma split_point_count:
  assumes "i \<le> length v" and "\<forall>k < i. v ! k < x" and "\<forall>k. i \<le> k \<and> k < length v \<longrightarrow> x \<le> v ! k"
  shows "i = length (filter (\<lambda>y. y < x) (v :: nat list))"
proof -
  have "filter (\<lambda>y. y < x) (take i v) = take i v"
    using assms(1,2) by (intro filter_True) (auto simp: in_set_conv_nth)
  moreover have "filter (\<lambda>y. y < x) (drop i v) = []"
    using assms(1,3) by (auto simp: filter_empty_conv in_set_conv_nth linorder_not_less)
  ultimately have "filter (\<lambda>y. y < x) (take i v @ drop i v) = take i v" by (simp only: filter_append append_Nil2)
  then show ?thesis using assms(1) by simp
qed

text \<open>The binary search the passes share returns, on a sorted vector, the number of elements below the
  bound (the first position at or after it), and its probe counter grows by at most
  \<open>1 + log2 n\<close>: two to the number of probes is at most twice the length.\<close>

theorem first_at_or_after_correct:
  assumes "sorted v" and "first_at_or_after v x n = (i, n')"
  shows "i = length (filter (\<lambda>y. y < x) v) \<and> n \<le> n' \<and> (n' = n \<or> 2 ^ (n' - n) \<le> 2 * length v)"
  using search_from_correct [OF assms(1) _ _ _ _ assms(2) [unfolded first_at_or_after_def]] split_point_count [of i v x]
  by auto

theorem first_at_or_after_correct_witness:
  "sorted [2, 3, 5, 7, 11, 13 :: nat] \<and> first_at_or_after [2, 3, 5, 7, 11, 13] 6 10 = (3, 13)
   \<and> 3 = length (filter (\<lambda>y. y < 6) [2, 3, 5, 7, 11, 13 :: nat]) \<and> 10 \<le> (13 :: nat)
   \<and> (13 = (10 :: nat) \<or> 2 ^ (13 - 10) \<le> 2 * length [2, 3, 5, 7, 11, 13 :: nat])"
proof -
  have "sorted [2, 3, 5, 7, 11, 13 :: nat]" by simp
  moreover have "first_at_or_after [2, 3, 5, 7, 11, 13] 6 10 = (3, 13)" by code_simp
  ultimately show ?thesis using first_at_or_after_correct [of "[2, 3, 5, 7, 11, 13]" 6 10 3 13] by blast
qed

section \<open>The value of an operation\<close>

definition canon :: "'u gop \<Rightarrow> 'u gop" where
  "canon op = op\<lparr>in_slots := map int [0..<n_in op], out := int (n_in op)\<rparr>"

definition canon_slot :: "'u gop \<Rightarrow> int \<Rightarrow> int" where
  "canon_slot op k = (in_slots op @ [out op]) ! nat k"

definition canon_mem :: "'u gop \<Rightarrow> 'd mem \<Rightarrow> 'd mem" where
  "canon_mem op m k = (map m (in_slots op) @ [m (out op)]) ! nat k"

text \<open>An operation with one output that it does not read: it is its canonical form, renamed.\<close>

definition simple_op :: "'u gop \<Rightarrow> bool" where
  "simple_op op \<longleftrightarrow> out2 op < 0 \<and> out op \<ge> 0 \<and> out op \<notin> set (in_slots op)"

lemma canon_touched: "out2 op < 0 \<Longrightarrow> touched (canon op) = int ` {..n_in op}"
  by (force simp: touched_def outs_def canon_def)

lemma rename_canon: "out2 op < 0 \<Longrightarrow> rename_op (canon_slot op) (canon op) = op"
proof -
  have "map (canon_slot op) (map int [0..<n_in op]) = in_slots op"
    by (rule nth_equalityI) (auto simp: canon_slot_def nth_append)
  moreover have "canon_slot op (int (n_in op)) = out op" by (simp add: canon_slot_def nth_append)
  ultimately show "out2 op < 0 \<Longrightarrow> ?thesis" by (simp add: rename_op_def canon_def)
qed

lemma canon_agree: "out2 op < 0 \<Longrightarrow> agree (canon_slot op) (touched (canon op)) (canon_mem op m) m"
  by (auto simp: agree_def canon_touched canon_slot_def canon_mem_def nth_append)

lemma canon_apart:
  assumes "simple_op op"
  shows "apart (canon_slot op) (insert (out (canon op)) (set (outs (canon op)))) (touched (canon op))"
proof -
  have "canon_slot op (int k) \<noteq> out op" if "k < n_in op" for k
    using assms that by (auto simp: canon_slot_def nth_append simple_op_def in_set_conv_nth)
  moreover have W: "insert (out (canon op)) (set (outs (canon op))) = {int (n_in op)}"
    using assms by (auto simp: simple_op_def canon_def outs_def)
  moreover have "canon_slot op (int (n_in op)) = out op" by (simp add: canon_slot_def nth_append)
  ultimately have "apart (canon_slot op) {int (n_in op)} (int ` {..n_in op})"
    unfolding apart_def by (auto simp: le_less)
  then show ?thesis unfolding W using assms by (simp add: canon_touched simple_op_def)
qed

lemma forward_canon:
  assumes "simple_op op"
  shows "rel_option (\<lambda>(a, x) (b, y). agree (canon_slot op) (touched (canon op)) a b \<and> x = y)
    (forward_op K (canon op) (canon_mem op m, w)) (forward_op K op (m, w))"
proof -
  have o2: "out2 op < 0" "out2 (canon op) < 0" using assms by (simp_all add: simple_op_def canon_def)
  have "rel_option (\<lambda>(a, x) (b, y). agree (canon_slot op) (touched (canon op)) a b \<and> x = y)
      (forward_op K (canon op) (canon_mem op m, w)) (forward_op K (rename_op (canon_slot op) (canon op)) (m, w))"
    by (rule forward_op_rename_apart [OF canon_agree [OF o2(1)] canon_apart [OF assms] subset_refl])
      (use o2(2) in simp)
  then show ?thesis by (simp add: rename_canon o2(1))
qed

text \<open>The structural kernels read their operands only, and their moves depend on the operands' sizes.\<close>

definition move_srcs :: "move list \<Rightarrow> int set" where
  "move_srcs ms = (\<lambda>(_, _, s, _). s) ` set ms"

definition move_idxs :: "move list \<Rightarrow> int set" where
  "move_idxs ms = (\<lambda>(_, i, _, _). i) ` set ms"

lemma fwd_srcs:
  assumes "structural_fwd oc = Some f" and "f op m = Some ms"
  shows "move_srcs ms \<subseteq> set (in_slots op)"
  using assms by (auto simp: structural_fwd_def fwd_defs move_srcs_def
      split: if_splits list.splits option.splits)

lemma fwd_cong:
  fixes m :: "'d mem" and m' :: "'e mem"
  assumes "structural_fwd oc = Some f" and "structural_fwd oc = Some f'"
    and "in_slots op' = in_slots op" and "out op' = out op" and "idata op' = idata op"
    and "\<forall>s \<in> touched op. length (m' s) = length (m s)"
  shows "f' op' m' = f op m"
proof -
  have "blen m' s = blen m s" if "s \<in> touched op" for s
    using assms(6) that by (auto simp: blen_def)
  with assms(1-5) show ?thesis
    by (auto simp: structural_fwd_def fwd_defs touched_def split: if_splits list.splits option.splits)
qed

lemma structural_fwd_None: "(structural_fwd oc :: ('u gop \<Rightarrow> 'd mem \<Rightarrow> move list option) option) = None \<longleftrightarrow>
    (structural_fwd oc :: ('u gop \<Rightarrow> 'e mem \<Rightarrow> move list option) option) = None"
  by (simp add: structural_fwd_def)

lemma run_moves_overwrite:
  assumes "\<forall>(d, i, s, j) \<in> set ms. d = n \<and> s \<noteq> n" and "length v = length (m n)"
    and "run_moves ms m = Some a"
    and "\<forall>i < length v. int i \<in> move_idxs ms \<or> v ! i = m n ! i"
  shows "\<exists>b. run_moves ms (m(n := v)) = Some b \<and> b n = a n"
  using assms
proof (induction ms arbitrary: m v)
  case Nil
  then show ?case by (auto simp: move_idxs_def intro: nth_equalityI)
next
  case (Cons mv ms)
  obtain i s j where mv: "mv = (n, i, s, j)" and sn: "s \<noteq> n" using Cons.prems(1) by (cases mv) auto
  have r: "in_range m n i" "in_range m s j" and run: "run_moves ms (m(n := (m n)[nat i := m s ! nat j])) = Some a"
    using Cons.prems(3) mv by (auto split: if_splits)
  have r': "in_range (m(n := v)) n i" "in_range (m(n := v)) s j"
    using r Cons.prems(2) sn by (auto simp: in_range_def)
  let ?v = "v[nat i := m s ! nat j]"
  have "int k \<in> move_idxs ms \<or> ?v ! k = (m n)[nat i := m s ! nat j] ! k" if "k < length ?v" for k
  proof (cases "int k = i")
    case True
    then show ?thesis using that Cons.prems(2) by auto
  next
    case False
    then have "nat i \<noteq> k" using r(1) by (auto simp: in_range_def)
    with False that Cons.prems(4) mv show ?thesis by (auto simp: move_idxs_def)
  qed
  then have "\<exists>b. run_moves ms ((m(n := (m n)[nat i := m s ! nat j]))(n := ?v)) = Some b \<and> b n = a n"
    by (intro Cons.IH [OF _ _ run]) (use Cons.prems(1,2) in auto)
  then have "\<exists>b. run_moves ms (m(n := ?v)) = Some b \<and> b n = a n" by (simp only: fun_upd_upd)
  moreover have "(m(n := v)) n = v" "(m(n := v)) s = m s" using sn by simp_all
  ultimately show ?case using mv r' by (simp del: fun_upd_apply)
qed

text \<open>The positions a structural kernel assigns cover its output buffer.\<close>

definition covers :: "'d mem \<Rightarrow> 'u gop \<Rightarrow> bool" where
  "covers m op \<longleftrightarrow> (case structural_fwd (opcode op) of None \<Rightarrow> True
     | Some f \<Rightarrow> (case f op m of None \<Rightarrow> True
        | Some ms \<Rightarrow> list_all (\<lambda>i. i \<in> move_idxs ms) (iota (blen m (out op)))))"

lemma covers_cong:
  fixes op op' :: "'u gop" and m :: "'d mem" and m' :: "'e mem"
  assumes "in_slots op' = in_slots op" and "out op' = out op" and "idata op' = idata op" and "opcode op' = opcode op"
    and "\<forall>s \<in> touched op. length (m' s) = length (m s)"
  shows "covers m' op' = covers m op"
proof (cases "structural_fwd (opcode op) :: ('u gop \<Rightarrow> 'd mem \<Rightarrow> move list option) option")
  case None
  then have "(structural_fwd (opcode op) :: ('u gop \<Rightarrow> 'e mem \<Rightarrow> move list option) option) = None"
    using structural_fwd_None by blast
  with None assms(4) show ?thesis by (simp add: covers_def)
next
  case (Some f)
  then have "(structural_fwd (opcode op) :: ('u gop \<Rightarrow> 'e mem \<Rightarrow> move list option) option) \<noteq> None"
    by (auto simp: structural_fwd_def split: if_splits)
  then obtain f' where f': "structural_fwd (opcode op) = Some (f' :: 'u gop \<Rightarrow> 'e mem \<Rightarrow> move list option)"
    by blast
  have "blen m' (out op) = blen m (out op)" using assms(5) by (simp add: blen_def)
  with fwd_cong [OF Some f' assms(1-3,5)] Some f' assms(2,4) show ?thesis
    by (simp add: covers_def split: option.split)
qed


text \<open>Two simple operations a key cannot tell apart compute the same value from the same operands.\<close>

lemma forward_canon_value:
  fixes op op' :: "'u gop" and m m' :: "'d mem"
  assumes same: "opcode op' = opcode op" "idata op' = idata op" "K (op_static op') = K (op_static op)"
      "out op' = out op" "in_slots op' = in_slots op"
    and o: "simple_op op" "simple_op op'"
    and m': "m' = m(out op := v)" "length v = length (m (out op))" and cov: "covers m op"
    and run: "forward_op K op (m, w) = Some (a, w1)"
  shows "\<exists>b. forward_op K op' (m', w) = Some (b, w1) \<and> b (out op) = a (out op)"
proof (cases "structural_fwd (opcode op) :: ('u gop \<Rightarrow> 'd mem \<Rightarrow> move list option) option")
  case None
  have ins: "map m' (in_slots op) = map m (in_slots op)" and bl: "blen m' (out op) = blen m (out op)"
    using o m' by (auto simp: simple_op_def blen_def)
  from run None o(1) obtain x2 x3 where k: "K (op_static op) (map m (in_slots op)) (blen m (out op)) 0 w = Some (x2, x3, w1)"
    "int (length x2) = blen m (out op)" "a (out op) = x2"
    by (auto simp: forward_op_def simple_op_def out2_len_def write_outs_def Let_def split: option.splits if_splits)
  have "forward_op K op' (m', w) = Some (m'(out op := x2), w1)"
    using None o(2) k(1,2) unfolding forward_op_def prod.case same ins bl
    by (simp add: simple_op_def out2_len_def write_outs_def same bl)
  with k(3) show ?thesis by simp
next
  case (Some f)
  from run Some obtain ms where ms: "f op m = Some ms" and rm: "run_moves ms m = Some a" and w: "w1 = w"
    by (auto simp: forward_op_def split: option.splits)
  have len: "\<forall>s \<in> touched op. length (m' s) = length (m s)" using m' by simp
  have f': "f op' m' = Some ms" using fwd_cong [OF Some Some same(5,4,2) len] ms by simp
  have mv: "\<forall>(d, i, s, j) \<in> set ms. d = out op \<and> s \<noteq> out op"
    using fwd_dsts(1) [OF Some ms] fwd_srcs [OF Some ms] o(1)
    by (fastforce simp: move_dsts_def move_srcs_def simple_op_def)
  have "\<forall>i < length v. int i \<in> move_idxs ms"
    using cov Some ms m'(2) by (auto simp: covers_def iota_def blen_def list_all_iff)
  then have "\<exists>b. run_moves ms (m(out op := v)) = Some b \<and> b (out op) = a (out op)"
    using run_moves_overwrite [OF mv m'(2) rm] by blast
  with Some f' same(1) w show ?thesis by (auto simp: forward_op_def m'(1))
qed

lemma covers_canon:
  fixes op :: "'u gop" and m :: "'d mem"
  assumes "simple_op op"
  shows "covers (canon_mem op m) (canon op) = covers m op"
proof (cases "structural_fwd (opcode op) :: ('u gop \<Rightarrow> 'd mem \<Rightarrow> move list option) option")
  case (Some f)
  have o2: "out2 op < 0" using assms(1) by (simp add: simple_op_def)
  have ix: "move_idxs (map (rename_move \<rho>) ms) = move_idxs ms" for \<rho> ms
    by (force simp: move_idxs_def rename_move_def image_iff)
  have "f op m = map_option (map (rename_move (canon_slot op))) (f (canon op) (canon_mem op m))"
    using fwd_rename [OF Some canon_agree [OF o2, of m]] by (simp add: rename_canon o2)
  moreover have "blen (canon_mem op m) (out (canon op)) = blen m (out op)" "opcode (canon op) = opcode op"
    by (simp_all add: canon_def canon_mem_def blen_def nth_append)
  ultimately show ?thesis using Some by (auto simp: covers_def ix split: option.splits)
qed (simp add: covers_def canon_def)

lemma covers_same:
  fixes op p :: "'u gop" and m :: "'d mem" and m' :: "'e mem"
  assumes "simple_op op" "simple_op p" and "opcode p = opcode op" "idata p = idata op"
    and "map (\<lambda>s. length (m' s)) (in_slots p) = map (\<lambda>s. length (m s)) (in_slots op)"
    and "length (m' (out p)) = length (m (out op))"
  shows "covers m' p = covers m op"
proof -
  have n: "n_in p = n_in op" using assms(5) by (metis length_map)
  have "length (map m' (in_slots p) ! k) = length (map m (in_slots op) ! k)" if "k < n_in op" for k
    using arg_cong [OF assms(5), of "\<lambda>xs. xs ! k"] that n by simp
  then have "\<forall>s \<in> touched (canon op). length (canon_mem p m' s) = length (canon_mem op m s)"
    using assms(1,6) n by (auto simp: canon_touched simple_op_def canon_mem_def nth_append)
  then have "covers (canon_mem p m') (canon p) = covers (canon_mem op m) (canon op)"
    using assms(3,4) n by (intro covers_cong) (simp_all add: canon_def)
  then show ?thesis by (simp only: covers_canon [OF assms(1)] covers_canon [OF assms(2)])
qed

lemma forward_op_value:
  fixes op op' :: "'u gop" and m m' :: "'d mem"
  assumes same: "opcode op' = opcode op" "idata op' = idata op" "K (op_static op') = K (op_static op)"
    and ins: "map m' (in_slots op') = map m (in_slots op)" and len: "length (m' (out op')) = length (m (out op))"
    and o: "simple_op op" "simple_op op'" and cov: "covers m op"
    and run: "forward_op K op (m, w) = Some (a, w1)"
  shows "forward_op K op' (m', w) = Some (m'(out op' := a (out op)), w1)"
proof -
  have n: "n_in op' = n_in op" using ins by (metis length_map)
  let ?n = "int (n_in op)"
  have c: "opcode (canon p) = opcode p" "idata (canon p) = idata p" "op_static (canon p) = op_static p"
    "in_slots (canon p) = map int [0..<n_in p]" "out (canon p) = int (n_in p)" for p :: "'u gop"
    by (simp_all add: canon_def op_static_def)
  have so: "simple_op (canon op)" "simple_op (canon op')" using o by (auto simp: simple_op_def canon_def)
  from forward_canon [OF o(1), of K m w] run
  obtain ac where ac: "forward_op K (canon op) (canon_mem op m, w) = Some (ac, w1)"
    and ag: "agree (canon_slot op) (touched (canon op)) ac a"
    by (auto simp: option_rel_Some2)
  have acn: "ac ?n = a (out op)" using ag o(1) by (auto simp: agree_def canon_touched simple_op_def canon_slot_def nth_append)
  define cm where "cm = (canon_mem op m)(?n := m' (out op'))"
  have cov': "covers (canon_mem op m) (canon op)" using covers_canon [OF o(1)] cov by blast
  have "\<exists>b. forward_op K (canon op') (cm, w) = Some (b, w1) \<and> b (out (canon op)) = ac (out (canon op))"
    by (rule forward_canon_value [where v = "m' (out op')", OF _ _ _ _ _ so _ _ cov' ac])
      (use same len n in \<open>simp_all add: c cm_def canon_mem_def nth_append\<close>)
  then obtain b where b: "forward_op K (canon op') (cm, w) = Some (b, w1)" "b ?n = a (out op)"
    using acn by (auto simp: c)
  have "\<forall>s \<in> touched (canon op'). cm s = canon_mem op' m' s"
    using o(2) n ins by (auto simp: cm_def canon_touched simple_op_def canon_mem_def nth_append simp del: map_eq_conv)
  from forward_op_agree [OF this, of K w] b(1)
  obtain b' where b': "forward_op K (canon op') (canon_mem op' m', w) = Some (b', w1)"
    and eq: "\<forall>s \<in> touched (canon op'). b s = b' s"
    by (auto simp: option_rel_Some1)
  have b'n: "b' ?n = a (out op)" using eq b(2) o(2) n by (simp add: canon_touched simple_op_def)
  from forward_canon [OF o(2), of K m' w] b'
  obtain a' where a': "forward_op K op' (m', w) = Some (a', w1)"
    and ag': "agree (canon_slot op') (touched (canon op')) b' a'"
    by (auto simp: option_rel_Some1)
  have "a' (out op') = a (out op)"
    using ag' o(2) b'n n by (auto simp: agree_def canon_touched simple_op_def canon_slot_def nth_append)
  moreover have "a' s = m' s" if "s \<noteq> out op'" for s
    using forward_op_frame [OF a', of s] that o(2) by (auto simp: simple_op_def outs_def)
  ultimately have "a' = m'(out op' := a (out op))" by auto
  with a' show ?thesis by simp
qed


section \<open>What the pass relies on\<close>

text \<open>
  A kernel the pass may merge is pure and sees nothing of its operation but what the key holds (the
  capacity fields are read only when a dynamic length is set); no slot is read before the only
  operation that writes it; and a structural kernel fills its output.
\<close>

definition mergeable :: "(nat \<Rightarrow> bool option) \<Rightarrow> 'u gop \<Rightarrow> bool" where
  "mergeable fk op \<longleftrightarrow> udata op = None \<and> dyn_lengths op = 0 \<and> \<not> never_merge (opcode op) \<and> fk (opcode op) = Some False"

definition key_kernels :: "('d, 'u, 'w) kern \<Rightarrow> (nat \<Rightarrow> bool option) \<Rightarrow> bool" where
  "key_kernels K fk \<longleftrightarrow> (\<forall>op. mergeable fk op \<longrightarrow> pure_op K op
     \<and> K (op_static op) = K (op_static (op\<lparr>dyn_capacity := 0, dyn_extent_in := -1\<rparr>)))"

fun reads_ok :: "int set \<Rightarrow> 'u gop list \<Rightarrow> bool" where
  "reads_ok W [] \<longleftrightarrow> True"
| "reads_ok W (op # rest) \<longleftrightarrow>
     list_all (\<lambda>s. list_ex (\<lambda>p. s \<in> set (outs p)) rest \<longrightarrow> s \<in> W \<union> set (outs op)) (in_slots op)
     \<and> reads_ok (W \<union> set (outs op)) rest"

definition size_mem :: "('i, 'u) Graph \<Rightarrow> unit mem" where
  "size_mem g s = replicate (nat (len (slot_at g s))) ()"

definition cse_ready :: "'u graph \<Rightarrow> bool" where
  "cse_ready g \<longleftrightarrow> reads_ok {} (ops g) \<and> list_all (\<lambda>op. primal_source op < 0 \<and> idata op \<noteq> Some []
     \<and> (out op \<in> set (in_slots op) \<or> covers (size_mem g) op)) (ops g)"

section \<open>Write counts\<close>

lemma foldl_outs: "foldl (\<lambda>a op. foldl f a (outs op)) a xs = foldl f a (concat (map outs xs))"
  by (induction xs arbitrary: a) simp_all

lemma vget_foldl_inc:
  "0 \<le> s \<Longrightarrow> nat s < length v \<Longrightarrow>
     vget 0 (foldl (\<lambda>v s. vput v s (vget 0 v s + 1)) v ss) s = vget 0 v s + int (count_list ss s)"
proof (induction ss arbitrary: v)
  case (Cons t ss)
  then show ?case by (auto simp: vget_vput)
qed simp

lemma length_foldl_inc [simp]: "length (foldl (\<lambda>v s. vput v s (vget 0 v s + 1)) v ss) = length v"
  by (induction ss arbitrary: v) simp_all

lemma written_once:
  assumes "vget 0 (write_counts g) s = 1" and "ops g = xs @ op # os" and "s \<in> set (outs op)"
    and "0 \<le> s" and "nat s < length (slots g)"
  shows "p \<in> set xs \<Longrightarrow> s \<notin> set (outs p)" and "p \<in> set os \<Longrightarrow> s \<notin> set (outs p)"
proof -
  have "int (count_list (concat (map outs (ops g))) s) = 1"
    using assms(1,4,5) by (simp add: write_counts_def foldl_outs vget_foldl_inc)
  then have c: "count_list (concat (map outs xs)) s + count_list (outs op) s + count_list (concat (map outs os)) s = 1"
    by (simp add: assms(2))
  have "count_list (outs op) s \<noteq> 0" using assms(3) by (simp add: count_list_0_iff)
  with c have "count_list (concat (map outs xs)) s = 0" "count_list (concat (map outs os)) s = 0" by auto
  then show "p \<in> set xs \<Longrightarrow> s \<notin> set (outs p)" "p \<in> set os \<Longrightarrow> s \<notin> set (outs p)"
    by (auto simp: count_list_0_iff)
qed


section \<open>Keys\<close>

text \<open>The words of a key for an operation whose operands are already shared primals, at versions \<open>vs\<close>.\<close>

definition entry_key :: "'u gop \<Rightarrow> int \<Rightarrow> int list \<Rightarrow> int list" where
  "entry_key p n vs = [int (opcode p), int (variant p), n, int (n_in p)]
     @ concat (map (\<lambda>(s, v). [s, v]) (zip (in_slots p) vs))
     @ n_idata p # (case idata p of None \<Rightarrow> [] | Some xs \<Rightarrow> xs)"

lemma cse_key_entry:
  assumes "\<forall>s \<in> set (in_slots op). 0 \<le> cse_resolve pr s"
  shows "cse_key sl ver pr op = entry_key (op\<lparr>in_slots := map (cse_resolve pr) (in_slots op)\<rparr>)
     (len (vget no_slot sl (out op))) (map (\<lambda>s. vget 0 ver (cse_resolve pr s)) (in_slots op))"
proof -
  have "concat (map (\<lambda>s. let i = cse_resolve pr s in [i, if i \<ge> 0 then vget 0 ver i else 0]) ss)
      = concat (map (\<lambda>(s, v). [s, v]) (zip (map (cse_resolve pr) ss) (map (\<lambda>s. vget 0 ver (cse_resolve pr s)) ss)))"
    if "\<forall>s \<in> set ss. 0 \<le> cse_resolve pr s" for ss
    using that by (induction ss) (auto simp: Let_def)
  from this [OF assms] show ?thesis by (simp add: cse_key_def key_inputs_def entry_key_def n_idata_def)
qed

lemma pairs_inj:
  "length xs = length vs \<Longrightarrow> length ys = length ws \<Longrightarrow> length xs = length ys \<Longrightarrow>
   concat (map (\<lambda>(s, v). [s, v]) (zip xs vs)) = concat (map (\<lambda>(s, v). [s, v]) (zip ys ws)) \<Longrightarrow> xs = ys \<and> vs = ws"
proof (induction xs vs arbitrary: ys ws rule: list_induct2)
  case (Cons x xs v vs)
  then show ?case by (cases ys; cases ws) auto
qed simp

lemma length_pairs: "length xs = length vs \<Longrightarrow> length (concat (map (\<lambda>(s, v). [s, v]) (zip xs vs))) = 2 * length xs"
  by (induction xs vs rule: list_induct2) auto

lemma entry_key_inj:
  assumes "entry_key p n vs = entry_key p' n' vs'" and "length vs = n_in p" and "length vs' = n_in p'"
    and "idata p \<noteq> Some []" and "idata p' \<noteq> Some []"
  shows "opcode p = opcode p' \<and> variant p = variant p' \<and> n = n' \<and> in_slots p = in_slots p' \<and> vs = vs' \<and> idata p = idata p'"
proof -
  let ?c = "\<lambda>p vs. concat (map (\<lambda>(s, v). [s, v]) (zip (in_slots p) vs))"
  let ?t = "\<lambda>p. n_idata p # (case idata p of None \<Rightarrow> [] | Some xs \<Rightarrow> xs)"
  have h: "opcode p = opcode p'" "variant p = variant p'" "n = n'" "n_in p = n_in p'"
    and t: "?c p vs @ ?t p = ?c p' vs' @ ?t p'"
    using assms(1) by (auto simp: entry_key_def)
  have "length (?c p vs) = length (?c p' vs')" using assms(2,3) h(4) by (simp add: length_pairs)
  then have "?c p vs = ?c p' vs' \<and> ?t p = ?t p'" using t by (metis append_eq_append_conv)
  then have c: "?c p vs = ?c p' vs'" and tt: "?t p = ?t p'" by blast+
  have "idata p = idata p'" using tt assms(4,5) by (auto split: option.splits)
  moreover have "in_slots p = in_slots p' \<and> vs = vs'"
    by (rule pairs_inj [OF _ _ _ c]) (use assms(2,3) h(4) in simp_all)
  ultimately show ?thesis using h(1-3) by blast
qed

section \<open>The invariant\<close>

definition rep :: "'u cse_state \<Rightarrow> int \<Rightarrow> int" where
  "rep st s = cse_resolve (cs_primal st) (cse_resolve (cs_rename st) s)"

definition later_outs :: "'u gop list \<Rightarrow> int set" where
  "later_outs os = (\<Union>p \<in> set os. set (outs p))"

lemma later_outs_simps [simp]: "later_outs [] = {}" "later_outs (op # os) = set (outs op) \<union> later_outs os"
  by (simp_all add: later_outs_def)

definition settled :: "'u cse_state \<Rightarrow> 'u gop list \<Rightarrow> int \<Rightarrow> bool" where
  "settled st os s \<longleftrightarrow> s \<notin> later_outs os \<and> cs_rename st s = None \<and> cs_primal st s = None"

definition links_ok :: "'u graph \<Rightarrow> 'u gop list \<Rightarrow> 'u cse_state \<Rightarrow> 'd mem \<Rightarrow> (int \<rightharpoonup> int) \<Rightarrow> bool" where
  "links_ok g os st m f \<longleftrightarrow>
     (\<forall>s t. f s = Some t \<longrightarrow> s \<notin> later_outs os \<and> settled st os t \<and> valid_slot g t \<and> m s = m t)"

definition entry_ok :: "('d, 'u, 'w) kern \<Rightarrow> (nat \<Rightarrow> bool option) \<Rightarrow> 'u graph \<Rightarrow> 'u gop list \<Rightarrow> 'u cse_state \<Rightarrow> 'd mem
    \<Rightarrow> int list \<Rightarrow> int \<Rightarrow> bool" where
  "entry_ok K fk g os st m key o' \<longleftrightarrow> settled st os o' \<and> valid_slot g o'
     \<and> (\<exists>p vs. simple_op p \<and> mergeable fk p \<and> idata p \<noteq> Some [] \<and> out p = o' \<and> covers (size_mem g) p
          \<and> list_all (valid_slot g) (in_slots p) \<and> length vs = n_in p \<and> key = entry_key p (len (slot_at g o')) vs
          \<and> (\<forall>x \<in> set (in_slots p). x \<in> later_outs os \<longrightarrow> vget 0 (write_counts g) x \<noteq> 1)
          \<and> (\<forall>k < n_in p. vs ! k \<le> vget 0 (cs_version st) (in_slots p ! k))
          \<and> ((\<forall>k < n_in p. vs ! k = vget 0 (cs_version st) (in_slots p ! k)) \<longrightarrow> (\<forall>w. forward_op K p (m, w) = Some (m, w))))"

definition cse_inv :: "('d, 'u, 'w) kern \<Rightarrow> (nat \<Rightarrow> bool option) \<Rightarrow> 'u graph \<Rightarrow> 'u gop list \<Rightarrow> 'u cse_state \<Rightarrow> 'd mem \<Rightarrow> bool" where
  "cse_inv K fk g os st m \<longleftrightarrow> length (cs_version st) = length (slots g)
     \<and> (\<forall>s. cs_rename st s = None \<longrightarrow> vget no_slot (cs_slots st) s = slot_at g s)
     \<and> links_ok g os st m (cs_rename st) \<and> links_ok g os st m (cs_primal st)
     \<and> (\<forall>key j. cs_table st key = Some j \<longrightarrow> j < length (cs_ops st) \<and> \<not> cached_primal (cs_ops st ! j)
          \<and> entry_ok K fk g os st m key (out (cs_ops st ! j)))
     \<and> sized_mem g m"

lemma forward_fix:
  assumes "simple_op p" and "forward_op K p (m, w) = Some (m, w)" and "\<forall>s \<in> touched p. m s = m' s"
  shows "forward_op K p (m', w) = Some (m', w)"
proof -
  from forward_op_agree [OF assms(3), of K w] assms(2)
  obtain b where b: "forward_op K p (m', w) = Some (b, w)" "\<forall>s \<in> touched p. m s = b s"
    by (auto simp: option_rel_Some1)
  have "b s = m' s" for s
  proof (cases "s \<in> touched p")
    case True
    with b(2) assms(3) show ?thesis by simp
  next
    case False
    then show ?thesis using forward_op_frame [OF b(1), of s] by (auto simp: touched_def)
  qed
  then have "b = m'" by auto
  with b(1) show ?thesis by simp
qed

text \<open>An entry survives a write: either it does not read what is written, or its versions are stale.\<close>

lemma entry_frame:
  assumes "entry_ok K fk g (op # os) st m key o'"
    and "settled st' os o'" and "\<forall>s. s \<notin> set (outs op) \<longrightarrow> m' s = m s"
    and "\<forall>x. valid_slot g x \<longrightarrow> vget 0 (cs_version st) x \<le> vget 0 (cs_version st') x"
    and "\<forall>x \<in> set (outs op). valid_slot g x \<and> vget 0 (write_counts g) x \<noteq> 1 \<longrightarrow>
      vget 0 (cs_version st) x < vget 0 (cs_version st') x"
  shows "entry_ok K fk g os st' m' key o'"
proof -
  obtain p vs where p: "simple_op p" "mergeable fk p" "idata p \<noteq> Some []" "out p = o'" "covers (size_mem g) p"
      "list_all (valid_slot g) (in_slots p)" "length vs = n_in p" "key = entry_key p (len (slot_at g o')) vs"
      "\<forall>x \<in> set (in_slots p). x \<in> later_outs (op # os) \<longrightarrow> vget 0 (write_counts g) x \<noteq> 1"
      "\<forall>k < n_in p. vs ! k \<le> vget 0 (cs_version st) (in_slots p ! k)"
    and cur: "(\<forall>k < n_in p. vs ! k = vget 0 (cs_version st) (in_slots p ! k)) \<longrightarrow> (\<forall>w. forward_op K p (m, w) = Some (m, w))"
    and o': "o' \<notin> set (outs op)" "valid_slot g o'"
    using assms(1) by (auto simp: entry_ok_def settled_def)
  have valid: "valid_slot g (in_slots p ! k)" if "k < n_in p" for k
    using p(6) that by (simp add: list_all_length)
  have le: "vs ! k \<le> vget 0 (cs_version st') (in_slots p ! k)" if "k < n_in p" for k
    using p(10) assms(4) valid that by (meson order_trans)
  have "forward_op K p (m', w) = Some (m', w)" if c: "\<forall>k < n_in p. vs ! k = vget 0 (cs_version st') (in_slots p ! k)" for w
  proof -
    have eq: "vs ! k = vget 0 (cs_version st) (in_slots p ! k) \<and> in_slots p ! k \<notin> set (outs op)" if k: "k < n_in p" for k
      using p(9,10) c valid [OF k] assms(4,5) k nth_mem [OF k] by fastforce
    have "m s = m' s" if "s \<in> touched p" for s
    proof -
      have "s \<in> set (in_slots p) \<or> s = o'" using that p(1,4) by (auto simp: touched_def outs_def simple_op_def)
      then show ?thesis using eq o'(1) assms(3) by (auto simp: in_set_conv_nth)
    qed
    with forward_fix [OF p(1), of K m w m'] cur eq show ?thesis by blast
  qed
  with p le o'(2) assms(2) show ?thesis unfolding entry_ok_def by (intro conjI exI [of _ p] exI [of _ vs]) auto
qed


section \<open>Representatives\<close>

lemma rep_cases:
  assumes "cse_inv K fk g os st m"
  shows "rep st s = s \<and> cs_rename st s = None \<and> cs_primal st s = None
    \<or> settled st os (rep st s) \<and> valid_slot g (rep st s) \<and> s \<notin> later_outs os"
proof -
  have l: "links_ok g os st m (cs_rename st)" "links_ok g os st m (cs_primal st)"
    using assms by (auto simp: cse_inv_def)
  show ?thesis
  proof (cases "cs_rename st s")
    case (Some t)
    with l(1) have "settled st os t" "valid_slot g t" "s \<notin> later_outs os" by (auto simp: links_ok_def)
    moreover from this Some have "rep st s = t" by (simp add: rep_def cse_resolve_def settled_def)
    ultimately show ?thesis by simp
  next
    case None
    with l(2) show ?thesis by (cases "cs_primal st s") (auto simp: rep_def cse_resolve_def links_ok_def)
  qed
qed

lemma rep_value:
  assumes "cse_inv K fk g os st m"
  shows "m (rep st s) = m s"
proof -
  have l: "links_ok g os st m (cs_rename st)" "links_ok g os st m (cs_primal st)"
    using assms by (auto simp: cse_inv_def)
  have "m (cse_resolve (cs_rename st) s) = m s"
    using l(1) by (auto simp: cse_resolve_def links_ok_def split: option.splits)
  moreover have "m (cse_resolve (cs_primal st) t) = m t" for t
    using l(2) by (auto simp: cse_resolve_def links_ok_def split: option.splits)
  ultimately show ?thesis by (simp add: rep_def)
qed

lemma rep_valid: "cse_inv K fk g os st m \<Longrightarrow> valid_slot g s \<Longrightarrow> valid_slot g (rep st s)"
  using rep_cases [of K fk g os st m s] by auto

lemma rep_out:
  assumes "cse_inv K fk g (op # os) st m" and "s \<in> set (outs op)"
  shows "rep st s = s" and "rep st t = s \<Longrightarrow> t = s"
  using rep_cases [OF assms(1), of s] rep_cases [OF assms(1), of t] assms(2) by (auto simp: settled_def)

abbreviation resolved :: "'u cse_state \<Rightarrow> 'u gop \<Rightarrow> 'u gop" where
  "resolved st op \<equiv> op\<lparr>in_slots := map (cse_resolve (cs_rename st)) (in_slots op)\<rparr>"

abbreviation reped :: "'u cse_state \<Rightarrow> 'u gop \<Rightarrow> 'u gop" where
  "reped st op \<equiv> op\<lparr>in_slots := map (rep st) (in_slots op)\<rparr>"

lemma candidate_facts:
  assumes inv: "cse_inv K fk g (op # os) st m" and wf: "wf_op g op"
    and ready: "out op \<in> set (in_slots op) \<or> covers (size_mem g) op"
    and cand: "cse_candidate fk (write_counts g) kp (cs_slots st) (resolved st op)"
  shows "simple_op op" "simple_op (reped st op)" "mergeable fk op" "covers (size_mem g) op" "outs op = [out op]"
    "vget 0 (write_counts g) (out op) = 1" "primal_source op < 0" "out op \<notin> kp"
proof -
  have c: "out op \<ge> 0" "out2 op < 0" "mergeable fk op" "vget 0 (write_counts g) (out op) = 1"
      "primal_source op < 0" "out op \<notin> kp" and ni: "out op \<notin> cse_resolve (cs_rename st) ` set (in_slots op)"
    using cand by (auto simp: cse_candidate_def mergeable_def)
  show o: "outs op = [out op]" using c by (simp add: outs_def)
  have r: "cs_rename st (out op) = None" using rep_cases [OF inv, of "out op"] o by (auto simp: settled_def)
  have a: "out op \<notin> set (in_slots op)" using ni r by (force simp: cse_resolve_def)
  have "rep st s \<noteq> out op" if "s \<in> set (in_slots op)" for s
    using rep_out(2) [OF inv, of "out op" s] o a that by auto
  then have b: "out op \<notin> rep st ` set (in_slots op)" by force
  show "simple_op op" "simple_op (reped st op)" using a b c by (auto simp: simple_op_def)
  show "covers (size_mem g) op" using ready a by blast
qed (use cand in \<open>auto simp: cse_candidate_def mergeable_def\<close>)

lemma sized_length:
  assumes "sized_mem g m" and "valid_slot g s"
  shows "length (m s) = length (size_mem g s)"
proof -
  have "int (length (m s)) = len (slot_at g s)" using assms by (simp add: sized_mem_def valid_slot_def)
  then show ?thesis by (simp add: size_mem_def flip: nat_int)
qed

lemma wf_op_valid: "wf_op g op \<Longrightarrow> s \<in> set (in_slots op) \<or> s \<in> set (outs op) \<Longrightarrow> valid_slot g s"
  by (auto simp: wf_op_def list_all_iff outs_def split: if_splits)

lemma covers_sized:
  assumes "sized_mem g m" and "simple_op op" and "list_all (valid_slot g) (in_slots op)" and "valid_slot g (out op)"
  shows "covers m op = covers (size_mem g) op"
proof (rule covers_same [OF assms(2,2) refl refl])
  have v: "valid_slot g s" if "s \<in> set (in_slots op)" for s using assms(3) that by (simp add: list_all_iff)
  show "map (\<lambda>s. length (m s)) (in_slots op) = map (\<lambda>s. length (size_mem g s)) (in_slots op)"
    using sized_length [OF assms(1) v] by simp
  show "length (m (out op)) = length (size_mem g (out op))" by (rule sized_length [OF assms(1,4)])
qed

text \<open>An operation found in the table recomputes what the survivor's slot holds.\<close>

lemma key_kernel_same:
  assumes "key_kernels K fk" and "mergeable fk p" and "mergeable fk op"
    and "opcode p = opcode op" "variant p = variant op" "idata p = idata op"
  shows "K (op_static p) = K (op_static op)"
proof -
  have "op_static (p\<lparr>dyn_capacity := 0, dyn_extent_in := -1\<rparr>) = op_static (op\<lparr>dyn_capacity := 0, dyn_extent_in := -1\<rparr>)"
    using assms(2-6) by (simp add: op_static_def mergeable_def)
  then show ?thesis using assms(1-3) by (metis key_kernels_def)
qed

lemma reped_key:
  assumes inv: "cse_inv K fk g (op # os) st m" and wf: "wf_op g op" and o: "out op \<in> set (outs op)"
  shows "cse_key (cs_slots st) (cs_version st) (cs_primal st) (resolved st op)
    = entry_key (reped st op) (len (slot_at g (out op))) (map (\<lambda>s. vget 0 (cs_version st) (rep st s)) (in_slots op))"
proof -
  have "0 \<le> cse_resolve (cs_primal st) s" if sin: "s \<in> set (in_slots (resolved st op))" for s
  proof -
    obtain t where "t \<in> set (in_slots op)" "s = cse_resolve (cs_rename st) t" using sin by auto
    then show ?thesis using rep_valid [OF inv wf_op_valid [OF wf]] by (auto simp: rep_def valid_slot_def)
  qed
  from cse_key_entry [of "resolved st op" "cs_primal st", OF ballI, OF this]
  have "cse_key (cs_slots st) (cs_version st) (cs_primal st) (resolved st op)
    = entry_key (reped st op) (len (vget no_slot (cs_slots st) (out op))) (map (\<lambda>s. vget 0 (cs_version st) (rep st s)) (in_slots op))"
    by (simp add: rep_def [abs_def] o_def)
  moreover have "cs_rename st (out op) = None" using rep_cases [OF inv, of "out op"] o by (auto simp: settled_def)
  ultimately show ?thesis using inv by (simp add: cse_inv_def)
qed

lemma hit_value:
  assumes kk: "key_kernels K fk" and inv: "cse_inv K fk g (op # os) st m" and wf: "wf_op g op" "idata op \<noteq> Some []"
    and ready: "out op \<in> set (in_slots op) \<or> covers (size_mem g) op"
    and cand: "cse_candidate fk (write_counts g) kp (cs_slots st) (resolved st op)"
    and hit: "cs_table st (cse_key (cs_slots st) (cs_version st) (cs_primal st) (resolved st op)) = Some j"
  shows "forward_op K op (m, w) = Some (m(out op := m (out (cs_ops st ! j))), w)"
proof -
  note cf = candidate_facts [OF inv wf(1) ready cand]
  let ?o = "out (cs_ops st ! j)"
  have oin: "out op \<in> set (outs op)" using cf(5) by simp
  have "entry_ok K fk g (op # os) st m (entry_key (reped st op) (len (slot_at g (out op)))
      (map (\<lambda>s. vget 0 (cs_version st) (rep st s)) (in_slots op))) ?o"
    using inv hit unfolding reped_key [OF inv wf(1) oin] cse_inv_def by blast
  then obtain p vs where p: "simple_op p" "mergeable fk p" "idata p \<noteq> Some []" "out p = ?o" "covers (size_mem g) p"
      "list_all (valid_slot g) (in_slots p)" "length vs = n_in p"
    and key: "entry_key (reped st op) (len (slot_at g (out op))) (map (\<lambda>s. vget 0 (cs_version st) (rep st s)) (in_slots op))
      = entry_key p (len (slot_at g ?o)) vs"
    and cur: "(\<forall>k < n_in p. vs ! k = vget 0 (cs_version st) (in_slots p ! k)) \<longrightarrow> (\<forall>w. forward_op K p (m, w) = Some (m, w))"
    and vo: "valid_slot g ?o"
    unfolding entry_ok_def by blast
  from entry_key_inj [OF key] p(3,7) wf(2)
  have e: "opcode op = opcode p" "variant op = variant p" "len (slot_at g (out op)) = len (slot_at g ?o)"
    "map (rep st) (in_slots op) = in_slots p" "map (\<lambda>s. vget 0 (cs_version st) (rep st s)) (in_slots op) = vs" "idata op = idata p"
    by simp_all
  have "vs = map (vget 0 (cs_version st)) (in_slots p)" unfolding e(4) [symmetric] e(5) [symmetric] by simp
  then have run: "forward_op K p (m, w) = Some (m, w)" using cur by simp
  have size: "sized_mem g m" using inv by (simp add: cse_inv_def)
  have vout: "valid_slot g (out op)" using wf(1) by (simp add: wf_op_def)
  have "map m (in_slots op) = map m (in_slots p)" unfolding e(4) [symmetric] using rep_value [OF inv] by simp
  moreover have "length (m (out op)) = length (m (out p))"
    using sized_length [OF size vout] sized_length [OF size vo] e(3) p(4) by (simp add: size_mem_def)
  moreover have "K (op_static op) = K (op_static p)" by (rule key_kernel_same [OF kk cf(3) p(2) e(1,2,6)])
  moreover have "covers m p" using covers_sized [OF size p(1,6)] vo p(4,5) by simp
  ultimately have "forward_op K op (m, w) = Some (m(out op := m (out p)), w)"
    using forward_op_value [OF e(1,6) _ _ _ p(1) cf(1) _ run] by blast
  then show ?thesis by (simp add: p(4))
qed


section \<open>One step\<close>

lemma outs_in_slots [simp]: "outs (op\<lparr>in_slots := ss\<rparr>) = outs op" "outs (op\<lparr>primal_source := q\<rparr>) = outs op"
  by (simp_all add: outs_def)

lemma length_bump [simp]: "length (bump op ver) = length ver"
  by (simp add: bump_def)

lemma vget_bump: "valid_slot g x \<Longrightarrow> length ver = length (slots g) \<Longrightarrow>
    vget 0 (bump op ver) x = vget 0 ver x + int (count_list (outs op) x)"
  unfolding bump_def by (rule vget_foldl_inc) (auto simp: valid_slot_def)

lemma new_entry:
  assumes kk: "key_kernels K fk" and inv: "cse_inv K fk g (op # os) st m" and wf: "wf_op g op" "idata op \<noteq> Some []"
    and ready: "out op \<in> set (in_slots op) \<or> covers (size_mem g) op"
    and cand: "cse_candidate fk (write_counts g) kp (cs_slots st) (resolved st op)"
    and reads: "\<forall>s \<in> set (in_slots op). s \<in> later_outs os \<longrightarrow> vget 0 (write_counts g) s \<noteq> 1"
    and once: "out op \<notin> later_outs os" and run: "forward_op K op (m, w0) = Some (m', w1)"
    and st': "cs_version st' = bump op (cs_version st)" "cs_rename st' = cs_rename st" "cs_primal st' = cs_primal st"
  shows "entry_ok K fk g os st' m' (cse_key (cs_slots st) (cs_version st) (cs_primal st) (resolved st op)) (out op)"
proof -
  note cf = candidate_facts [OF inv wf(1) ready cand]
  let ?p = "reped st op" and ?vs = "map (\<lambda>s. vget 0 (cs_version st) (rep st s)) (in_slots op)"
  have oin: "out op \<in> set (outs op)" using cf(5) by simp
  have vout: "valid_slot g (out op)" using wf(1) by (simp add: wf_op_def)
  have size: "sized_mem g m" and ver: "length (cs_version st) = length (slots g)" using inv by (auto simp: cse_inv_def)
  have vin: "list_all (valid_slot g) (in_slots ?p)"
    using rep_valid [OF inv wf_op_valid [OF wf(1)]] by (auto simp: list_all_iff)
  have fr: "m' s = m s" if "s \<noteq> out op" for s
    using forward_op_frame [OF run, of s] that cf(5) by simp
  have ro: "rep st s \<noteq> out op" if "s \<in> set (in_slots op)" for s
    using cf(2) that by (force simp: simple_op_def)
  have len: "length (m' s) = length (m s)" for s using forward_op_length [OF run] .
  have cov: "covers (size_mem g) ?p"
  proof -
    have "map (\<lambda>s. length (size_mem g s)) (in_slots ?p) = map (\<lambda>s. length (size_mem g s)) (in_slots op)"
      using rep_value [OF inv] sized_length [OF size rep_valid [OF inv wf_op_valid [OF wf(1)]]]
        sized_length [OF size wf_op_valid [OF wf(1)]] by simp
    then show ?thesis using covers_same [OF cf(1,2), of "size_mem g" "size_mem g"] cf(4) by simp
  qed
  have fix_: "forward_op K ?p (m', w) = Some (m', w)" for w
  proof -
    have "pure_op K op" using kk cf(3) by (simp add: key_kernels_def)
    from forward_op_pure [OF this run] have r: "forward_op K op (m, w) = Some (m', w)" by blast
    have "map m' (in_slots ?p) = map m (in_slots op)" using fr ro rep_value [OF inv] by simp
    moreover have "covers m op" using covers_sized [OF size cf(1) _ vout] cf(4) wf(1) by (simp add: wf_op_def)
    moreover have "K (op_static ?p) = K (op_static op)" by (simp add: op_static_def)
    ultimately have "forward_op K ?p (m', w) = Some (m'(out ?p := m' (out op)), w)"
      using forward_op_value [of ?p op K m' m w m' w] cf(1,2) r len by simp
    then show ?thesis by simp
  qed
  have rd: "vget 0 (write_counts g) (rep st s) \<noteq> 1" if "s \<in> set (in_slots op)" "rep st s \<in> later_outs os" for s
  proof -
    have "rep st s = s" using rep_cases [OF inv, of s] that(2) by (auto simp: settled_def)
    then show ?thesis using reads that by metis
  qed
  have vv: "vget 0 (bump op (cs_version st)) (rep st s) = vget 0 (cs_version st) (rep st s)" if "s \<in> set (in_slots op)" for s
    using vget_bump [OF rep_valid [OF inv wf_op_valid [OF wf(1)]] ver, of s op] ro [OF that] that cf(5) by simp
  have "settled st' os (out op)" "cs_rename st (out op) = None"
    using rep_cases [OF inv, of "out op"] oin once st' by (auto simp: settled_def)
  then show ?thesis
    unfolding entry_ok_def reped_key [OF inv wf(1) oin]
    using cf vin vout cov fix_ rd vv wf(2)
    by (intro conjI exI [of _ ?p] exI [of _ ?vs]) (auto simp: st' mergeable_def)
qed

lemma inv_step:
  assumes inv: "cse_inv K fk g (op # os) st m"
    and fr: "\<forall>s. s \<notin> set (outs op) \<longrightarrow> m' s = m s" and size: "sized_mem g m'"
    and ver: "length (cs_version st') = length (slots g)"
      "\<forall>x. valid_slot g x \<longrightarrow> vget 0 (cs_version st) x \<le> vget 0 (cs_version st') x"
      "\<forall>x \<in> set (outs op). valid_slot g x \<and> vget 0 (write_counts g) x \<noteq> 1 \<longrightarrow>
         vget 0 (cs_version st) x < vget 0 (cs_version st') x"
    and slots: "\<forall>s. cs_rename st' s = None \<longrightarrow> vget no_slot (cs_slots st') s = slot_at g s"
    and links: "\<And>f f' s t. (f, f') \<in> {(cs_rename st, cs_rename st'), (cs_primal st, cs_primal st')} \<Longrightarrow> f' s = Some t \<Longrightarrow>
         f s = Some t \<or> outs op = [s] \<and> s \<notin> later_outs os \<and> settled st (op # os) t \<and> valid_slot g t \<and> m' s = m t"
    and settle: "\<And>t. settled st (op # os) t \<Longrightarrow> settled st' os t"
    and table: "\<And>key j. cs_table st' key = Some j \<Longrightarrow> j < length (cs_ops st') \<and> \<not> cached_primal (cs_ops st' ! j)
         \<and> (cs_table st key = Some j \<and> out (cs_ops st' ! j) = out (cs_ops st ! j)
            \<or> entry_ok K fk g os st' m' key (out (cs_ops st' ! j)))"
  shows "cse_inv K fk g os st' m'"
proof -
  have set_fr: "m' t = m t" if "settled st (op # os) t" for t using that fr by (auto simp: settled_def)
  have lk: "links_ok g os st' m' f'" if ff: "(f, f') \<in> {(cs_rename st, cs_rename st'), (cs_primal st, cs_primal st')}" for f f'
    unfolding links_ok_def
  proof (intro allI impI)
    fix s t assume "f' s = Some t"
    then consider "f s = Some t" | "outs op = [s]" "s \<notin> later_outs os" "settled st (op # os) t" "valid_slot g t" "m' s = m t"
      using links [OF ff] by blast
    then show "s \<notin> later_outs os \<and> settled st' os t \<and> valid_slot g t \<and> m' s = m' t"
    proof cases
      case 1
      have "links_ok g (op # os) st m f" using inv ff by (auto simp: cse_inv_def)
      with 1 have l: "s \<notin> later_outs (op # os)" "settled st (op # os) t" "valid_slot g t" "m s = m t"
        by (auto simp: links_ok_def)
      with settle set_fr fr show ?thesis by simp
    next
      case 2
      with settle set_fr show ?thesis by simp
    qed
  qed
  have "entry_ok K fk g os st' m' key (out (cs_ops st' ! j))" if t: "cs_table st' key = Some j" for key j
  proof (cases "entry_ok K fk g os st' m' key (out (cs_ops st' ! j))")
    case False
    then have old: "cs_table st key = Some j" "out (cs_ops st' ! j) = out (cs_ops st ! j)" using table [OF t] by auto
    then have e: "entry_ok K fk g (op # os) st m key (out (cs_ops st' ! j))" using inv by (auto simp: cse_inv_def)
    then have "settled st' os (out (cs_ops st' ! j))" using settle by (auto simp: entry_ok_def)
    from entry_frame [OF e this fr ver(2,3)] show ?thesis .
  qed
  moreover have "links_ok g os st' m' (cs_rename st')" "links_ok g os st' m' (cs_primal st')"
    using lk [of "cs_rename st"] lk [of "cs_primal st"] by blast+
  ultimately show ?thesis using size ver(1) slots table unfolding cse_inv_def by simp
qed


definition cse_hit :: "(nat \<Rightarrow> bool option) \<Rightarrow> int list \<Rightarrow> int set \<Rightarrow> 'u cse_state \<Rightarrow> 'u gop \<Rightarrow> nat option" where
  "cse_hit fk ws kp st op = (if cse_candidate fk ws kp (cs_slots st) (resolved st op)
     then cs_table st (cse_key (cs_slots st) (cs_version st) (cs_primal st) (resolved st op)) else None)"

lemma cse_step_cases:
  obtains (keep) A where "cse_hit fk ws kp st op = None" "\<not> cse_candidate fk ws kp (cs_slots st) (resolved st op)"
      "cse_step fk ws kp ma st op = cse_keep (resolved st op) (st\<lparr>cs_active := A\<rparr>)"
  | (new) A key where "cse_hit fk ws kp st op = None" "cse_candidate fk ws kp (cs_slots st) (resolved st op)"
      "key = cse_key (cs_slots st) (cs_version st) (cs_primal st) (resolved st op)"
      "cse_step fk ws kp ma st op
        = cse_keep (resolved st op) (st\<lparr>cs_active := A, cs_table := (cs_table st)(key \<mapsto> length (cs_ops st))\<rparr>)"
  | (share) A j where "cse_hit fk ws kp st op = Some j" "cse_candidate fk ws kp (cs_slots st) (resolved st op)"
      "cse_step fk ws kp ma st op = cse_share j (resolved st op) (st\<lparr>cs_active := A\<rparr>)"
  | (drop) A j where "cse_hit fk ws kp st op = Some j" "cse_candidate fk ws kp (cs_slots st) (resolved st op)"
      "cse_step fk ws kp ma st op = cse_drop j (resolved st op) (st\<lparr>cs_active := A\<rparr>)"
proof -
  define A where "A = (if list_ex (\<lambda>s. s \<ge> 0 \<and> vget False (cs_active st) s) (in_slots (resolved st op))
      then set_flags (outs op) (cs_active st) else cs_active st)"
  have st1: "(if list_ex (\<lambda>s. s \<ge> 0 \<and> vget False (cs_active st) s) (in_slots (resolved st op))
      then st\<lparr>cs_active := set_flags (outs (resolved st op)) (cs_active st)\<rparr> else st) = st\<lparr>cs_active := A\<rparr>"
    by (simp add: A_def)
  note step = cse_step_def [of fk ws kp ma st op, unfolded Let_def st1]
  show ?thesis
  proof (cases "cse_candidate fk ws kp (cs_slots st) (resolved st op)")
    case False
    then show ?thesis by (intro keep [of A]) (simp_all add: step cse_hit_def)
  next
    case cand: True
    show ?thesis
    proof (cases "cs_table st (cse_key (cs_slots st) (cs_version st) (cs_primal st) (resolved st op))")
      case None
      with cand show ?thesis by (intro new [OF _ _ refl, of A]) (simp_all add: step cse_hit_def)
    next
      case (Some j)
      then have h: "cse_hit fk ws kp st op = Some j" using cand by (simp add: cse_hit_def)
      show ?thesis
      proof (cases "list_ex (\<lambda>s. 0 \<le> s \<and> vget False (cs_active st) s) (in_slots (resolved st op)) \<and> \<not> ma")
        case True
        show ?thesis by (rule share [OF h cand, of A], subst step) (use Some cand True in simp)
      next
        case False
        show ?thesis by (rule drop [OF h cand, of A]) (simp only: step Some cand False if_True if_False option.case)
      qed
    qed
  qed
qed

text \<open>The forward value of a survivor is what every later repetition computes, and the invariant goes on.\<close>

lemma cse_step_inv:
  assumes kk: "key_kernels K fk" and inv: "cse_inv K fk g (op # os) st m" and wf: "wf_op g op" "idata op \<noteq> Some []"
    and ps: "primal_source op < 0" and ready: "out op \<in> set (in_slots op) \<or> covers (size_mem g) op"
    and reads: "\<forall>s \<in> set (in_slots op). s \<in> later_outs os \<longrightarrow> vget 0 (write_counts g) s \<noteq> 1"
    and once: "\<And>s. s \<in> set (outs op) \<Longrightarrow> vget 0 (write_counts g) s = 1 \<Longrightarrow> s \<notin> later_outs os"
    and run: "forward_op K op (m, w0) = Some (m', w1)"
  shows "cse_inv K fk g os (cse_step fk (write_counts g) kp ma st op) m'"
proof -
  let ?ws = "write_counts g" and ?st = "cse_step fk (write_counts g) kp ma st op"
  have fr: "\<forall>s. s \<notin> set (outs op) \<longrightarrow> m' s = m s"
    using forward_op_frame [OF run] wf(1) out_in_outs [of op] by (auto simp: wf_op_def valid_slot_def)
  have size: "sized_mem g m'" using inv forward_op_length [OF run] by (simp add: cse_inv_def sized_mem_def)
  have ver: "length (cs_version st) = length (slots g)"
    and sl: "\<forall>s. cs_rename st s = None \<longrightarrow> vget no_slot (cs_slots st) s = slot_at g s" using inv by (auto simp: cse_inv_def)
  have tab: "j < length (cs_ops st) \<and> j < Suc (length (cs_ops st)) \<and> \<not> cached_primal (cs_ops st ! j)
      \<and> entry_ok K fk g (op # os) st m key (out (cs_ops st ! j))" if "cs_table st key = Some j" for key j
    using inv that by (auto simp: cse_inv_def less_SucI)
  have bump_mono: "vget 0 (cs_version st) x \<le> vget 0 (bump op (cs_version st)) x" if "valid_slot g x" for x
    using vget_bump [OF that ver, of op] by simp
  have bump_less: "vget 0 (cs_version st) x < vget 0 (bump op (cs_version st)) x" if "valid_slot g x" "x \<in> set (outs op)" for x
    using vget_bump [OF that(1) ver, of op] that(2) by (simp add: count_list_0_iff zero_less_iff_neq_zero)
  have b: "bump (resolved st op) = bump op" "bump (resolved st op\<lparr>primal_source := q\<rparr>) = bump op" for q
    by (simp_all add: bump_def fun_eq_iff)
  have nc: "\<not> cached_primal (resolved st op)" using ps by (simp add: cached_primal_def)
  have hit_facts: "cs_rename st (out op) = None" "cs_primal st (out op) = None" "j < length (cs_ops st)"
      "settled st (op # os) (out (cs_ops st ! j))" "valid_slot g (out (cs_ops st ! j))" "m' = m(out op := m (out (cs_ops st ! j)))"
    if "cse_hit fk ?ws kp st op = Some j" and cand: "cse_candidate fk ?ws kp (cs_slots st) (resolved st op)" for j
  proof -
    have t: "cs_table st (cse_key (cs_slots st) (cs_version st) (cs_primal st) (resolved st op)) = Some j"
      using that by (simp add: cse_hit_def)
    show "m' = m(out op := m (out (cs_ops st ! j)))"
      using hit_value [OF kk inv wf ready cand t, of w0] run by simp
    show "j < length (cs_ops st)" "settled st (op # os) (out (cs_ops st ! j))" "valid_slot g (out (cs_ops st ! j))"
      using tab [OF t] by (auto simp: entry_ok_def)
    have "out op \<in> later_outs (op # os)" using candidate_facts(5) [OF inv wf(1) ready cand] by simp
    then show "cs_rename st (out op) = None" "cs_primal st (out op) = None"
      using rep_cases [OF inv, of "out op"] by (auto simp: settled_def)
  qed
  show ?thesis
  proof (cases rule: cse_step_cases [of fk ?ws kp st op ma, case_names keep new share drop])
    case (keep A)
    show ?thesis unfolding keep(3)
      by (rule inv_step [OF inv fr size])
        (use ver sl bump_mono bump_less tab in \<open>auto simp: cse_keep_def b settled_def nth_append\<close>)
  next
    case (new A key)
    note cf = candidate_facts [OF inv wf(1) ready new(2)]
    have o: "out op \<notin> later_outs os" using once cf(5,6) by simp
    have e: "entry_ok K fk g os ?st m' key (out op)"
      unfolding new(3) by (rule new_entry [OF kk inv wf ready new(2) reads o run]) (simp_all add: new(4) cse_keep_def b)
    show ?thesis unfolding new(4)
      by (rule inv_step [OF inv fr size])
        (use ver sl bump_mono bump_less tab e [unfolded new(4)] nc in \<open>auto simp: cse_keep_def b settled_def nth_append split: if_splits\<close>)
  next
    case (share A j)
    note cf = candidate_facts [OF inv wf(1) ready share(2)]
    have o: "out op \<notin> later_outs os" using once cf(5,6) by simp
    note h = hit_facts [OF share(1,2)]
    show ?thesis unfolding share(3)
      by (rule inv_step [OF inv fr size])
        (use ver sl bump_mono bump_less tab h o cf(5) in
          \<open>auto simp: cse_share_def Let_def cse_keep_def b settled_def nth_append emplace_def nth_list_update
             cached_primal_def split: if_splits\<close>)
  next
    case (drop A j)
    note cf = candidate_facts [OF inv wf(1) ready drop(2)]
    have o: "out op \<notin> later_outs os" using once cf(5,6) by simp
    note h = hit_facts [OF drop(1,2)]
    show ?thesis unfolding drop(3)
      by (rule inv_step [OF inv fr size])
        (use ver sl tab h o cf(5,6) in
          \<open>auto simp: cse_drop_def settled_def nth_append emplace_def vget_vput split: if_splits\<close>)
  qed
qed


section \<open>The simulation\<close>

text \<open>Links are only added, for an output with a single writer, by its writer.\<close>

lemma cse_step_links:
  assumes "(f, f') \<in> {(cs_rename st, cs_rename (cse_step fk ws kp ma st op)), (cs_primal st, cs_primal (cse_step fk ws kp ma st op))}"
  shows "f \<subseteq>\<^sub>m f'" and "s \<in> dom f' \<Longrightarrow> s \<notin> dom f \<Longrightarrow> outs op = [s] \<and> vget 0 ws s = 1 \<and> cse_hit fk ws kp st op \<noteq> None"
proof -
  have em: "h \<subseteq>\<^sub>m emplace h k v" for h :: "int \<rightharpoonup> int" and k v by (auto simp: emplace_def map_le_def split: option.splits)
  have c: "outs op = [out op] \<and> vget 0 ws (out op) = 1" if "cse_candidate fk ws kp (cs_slots st) (resolved st op)"
    using that by (auto simp: cse_candidate_def outs_def)
  show "f \<subseteq>\<^sub>m f'"
    by (cases rule: cse_step_cases [of fk ws kp st op ma]) (use assms em in \<open>auto simp: cse_keep_def cse_share_def cse_drop_def Let_def\<close>)
  show "outs op = [s] \<and> vget 0 ws s = 1 \<and> cse_hit fk ws kp st op \<noteq> None" if "s \<in> dom f'" "s \<notin> dom f"
    by (cases rule: cse_step_cases [of fk ws kp st op ma])
      (use assms that c in \<open>auto simp: cse_keep_def cse_share_def cse_drop_def Let_def emplace_def split: option.splits if_splits\<close>)
qed

lemma cse_scan_links:
  assumes "(f, f') \<in> {(cs_rename st, cs_rename (cse_scan fk ws kp ma os st)), (cs_primal st, cs_primal (cse_scan fk ws kp ma os st))}"
  shows "f \<subseteq>\<^sub>m f' \<and> (\<forall>s \<in> dom f' - dom f. s \<in> later_outs os \<and> vget 0 ws s = 1)"
  using assms
proof (induction os arbitrary: st f)
  case Nil
  then show ?case by (auto simp: cse_scan_def)
next
  case (Cons op os)
  let ?st = "cse_step fk ws kp ma st op"
  obtain f1 where f1: "(f, f1) \<in> {(cs_rename st, cs_rename ?st), (cs_primal st, cs_primal ?st)}"
    and f': "(f1, f') \<in> {(cs_rename ?st, cs_rename (cse_scan fk ws kp ma os ?st)), (cs_primal ?st, cs_primal (cse_scan fk ws kp ma os ?st))}"
    using Cons.prems by (auto simp: cse_scan_def)
  have a: "f \<subseteq>\<^sub>m f1" by (rule cse_step_links(1) [OF f1])
  have b: "s \<in> set (outs op) \<and> vget 0 ws s = 1" if "s \<in> dom f1" "s \<notin> dom f" for s
    using cse_step_links(2) [OF f1 that] by simp
  have c: "f1 \<subseteq>\<^sub>m f'" "\<forall>s \<in> dom f' - dom f1. s \<in> later_outs os \<and> vget 0 ws s = 1" using Cons.IH [OF f'] by blast+
  have "f \<subseteq>\<^sub>m f'" using a c(1) by (rule map_le_trans)
  moreover have "s \<in> later_outs (op # os) \<and> vget 0 ws s = 1" if "s \<in> dom f' - dom f" for s
    using b [of s] c(2) that by (cases "s \<in> dom f1") auto
  ultimately show ?case by blast
qed

text \<open>The operations that stay in the forward sweep, before the primal aliases are applied. A kernel does not
  see \<^verbatim>\<open>primal_source\<close>.\<close>

abbreviation strip :: "'u gop \<Rightarrow> 'u gop" where
  "strip op \<equiv> op\<lparr>primal_source := -1\<rparr>"

fun emitted_ops :: "(nat \<Rightarrow> bool option) \<Rightarrow> int list \<Rightarrow> int set \<Rightarrow> bool \<Rightarrow> 'u gop list \<Rightarrow> 'u cse_state \<Rightarrow> 'u gop list" where
  "emitted_ops fk ws kp ma [] st = []"
| "emitted_ops fk ws kp ma (op # os) st =
     (if cse_hit fk ws kp st op = None then [strip (resolved st op)] else [])
     @ emitted_ops fk ws kp ma os (cse_step fk ws kp ma st op)"

lemma forward_op_strip:
  fixes K :: "('d, 'u, 'w) kern"
  shows "forward_op K (op\<lparr>primal_source := q\<rparr>) = forward_op K op"
proof -
  let ?op = "op\<lparr>primal_source := q\<rparr>"
  have t: "op_static ?op = op_static op" by (simp add: op_static_def)
  have "forward_op K ?op (m, w) = forward_op K op (m, w)" for m w
  proof (cases "structural_fwd (opcode op) :: ('u gop \<Rightarrow> 'd mem \<Rightarrow> move list option) option")
    case None
    have "out2_len m ?op = out2_len m op" "\<And>v v2. write_outs ?op v v2 m = write_outs op v v2 m"
      by (simp_all add: out2_len_def write_outs_def Let_def)
    with None show ?thesis by (auto simp: forward_op_def t split: option.split)
  next
    case (Some f)
    then have "f ?op m = f op m" by (rule fwd_cong) (simp_all add: Some)
    with Some show ?thesis by (simp add: forward_op_def)
  qed
  then show ?thesis by (auto simp: fun_eq_iff)
qed

lemma rename_op_strip: "rename_op \<rho> (op\<lparr>primal_source := q\<rparr>) = (rename_op \<rho> op)\<lparr>primal_source := q\<rparr>"
  by (cases op) (simp add: rename_op_def)

lemma written_twice:
  assumes "vget 0 (write_counts g) s = 1" and "ops g = xs @ ys" and "valid_slot g s"
    and "s \<in> later_outs xs" and "s \<in> later_outs ys"
  shows False
proof -
  have "0 \<le> s" "nat s < length (slots g)" using assms(3) by (auto simp: valid_slot_def)
  then have "int (count_list (concat (map outs (ops g))) s) = 1"
    using assms(1) by (simp add: write_counts_def foldl_outs vget_foldl_inc)
  then have c: "count_list (concat (map outs xs)) s + count_list (concat (map outs ys)) s = 1" by (simp add: assms(2))
  have "count_list (concat (map outs zs)) s \<noteq> 0" if "s \<in> later_outs zs" for zs
    using that by (auto simp: count_list_0_iff later_outs_def)
  with c assms(4,5) show False by (metis One_nat_def Suc_eq_plus1 add_is_1)
qed

text \<open>After a hit the output's representative is the survivor; every other slot keeps its own.\<close>

lemma rep_hit:
  assumes inv: "cse_inv K fk g (op # os) st m" and hit: "cse_hit fk ws kp st op = Some j"
    and o: "outs op = [out op]" and set: "settled st (op # os) (out (cs_ops st ! j))"
  shows "rep (cse_step fk ws kp ma st op) = (rep st)(out op := out (cs_ops st ! j))"
    and "dom (cs_rename (cse_step fk ws kp ma st op)) \<subseteq> insert (out op) (dom (cs_rename st))"
proof -
  let ?o = "out (cs_ops st ! j)"
  have n: "cs_rename st (out op) = None" "cs_primal st (out op) = None"
    using rep_cases [OF inv, of "out op"] o by (auto simp: settled_def)
  have lk: "links_ok g (op # os) st m (cs_rename st)" using inv unfolding cse_inv_def by blast
  have r: "cs_rename st s \<noteq> Some (out op)" for s
  proof
    assume "cs_rename st s = Some (out op)"
    then have "settled st (op # os) (out op)" using lk unfolding links_ok_def by blast
    then show False using o by (simp add: settled_def)
  qed
  have s: "cs_rename st ?o = None" "cs_primal st ?o = None" "?o \<noteq> out op" using set o by (auto simp: settled_def)
  consider (share) A where "cse_step fk ws kp ma st op = cse_share j (resolved st op) (st\<lparr>cs_active := A\<rparr>)"
    | (drop) A where "cse_step fk ws kp ma st op = cse_drop j (resolved st op) (st\<lparr>cs_active := A\<rparr>)"
  proof (cases rule: cse_step_cases [of fk ws kp st op ma])
    case (share A i)
    moreover have "i = j" using share(1) hit by simp
    ultimately show ?thesis using that(1) by blast
  next
    case (drop A i)
    moreover have "i = j" using drop(1) hit by simp
    ultimately show ?thesis using that(2) by blast
  qed (use hit in simp_all)
  then have "rep (cse_step fk ws kp ma st op) t = ((rep st)(out op := ?o)) t
      \<and> dom (cs_rename (cse_step fk ws kp ma st op)) \<subseteq> insert (out op) (dom (cs_rename st))" for t
  proof cases
    case share
    then have "cs_rename (cse_step fk ws kp ma st op) = cs_rename st"
      "cs_primal (cse_step fk ws kp ma st op) = (cs_primal st)(out op \<mapsto> ?o)"
      using n by (simp_all add: cse_share_def cse_keep_def Let_def emplace_def)
    then show ?thesis using n(1) r [of t] by (cases "cs_rename st t") (auto simp: rep_def cse_resolve_def)
  next
    case drop
    then have "cs_rename (cse_step fk ws kp ma st op) = (cs_rename st)(out op \<mapsto> ?o)"
      "cs_primal (cse_step fk ws kp ma st op) = cs_primal st"
      using n by (simp_all add: cse_drop_def emplace_def)
    then show ?thesis using s by (auto simp: rep_def cse_resolve_def)
  qed
  then show "rep (cse_step fk ws kp ma st op) = (rep st)(out op := ?o)"
    "dom (cs_rename (cse_step fk ws kp ma st op)) \<subseteq> insert (out op) (dom (cs_rename st))" by (blast, blast)
qed

lemma rep_miss:
  assumes "cse_hit fk ws kp st op = None"
  shows "rep (cse_step fk ws kp ma st op) = rep st" and "cs_rename (cse_step fk ws kp ma st op) = cs_rename st"
    and "cs_primal (cse_step fk ws kp ma st op) = cs_primal st"
  using assms by (cases rule: cse_step_cases [of fk ws kp st op ma]; simp add: cse_keep_def rep_def fun_eq_iff)+


lemma cse_sim:
  assumes kk: "key_kernels K fk" and ops: "ops g = xs @ os" and wf: "list_all (wf_op g) os"
    and ready: "list_all (\<lambda>op. primal_source op < 0 \<and> idata op \<noteq> Some []
        \<and> (out op \<in> set (in_slots op) \<or> covers (size_mem g) op)) os"
    and reads: "reads_ok (later_outs xs) os" and inv: "cse_inv K fk g os st m"
    and stf: "stf = cse_scan fk (write_counts g) kp ma os st"
    and ag: "agree (rep st) {s. s \<in> dom (cs_rename stf) \<longrightarrow> s \<in> dom (cs_rename st)} m e"
  shows "rel_option (\<lambda>(a, x) (b, y). x = y \<and> agree (rep stf) UNIV a b) (run_ops K os (m, w))
    (run_ops K (map (rename_op (cse_resolve (cs_primal stf))) (emitted_ops fk (write_counts g) kp ma os st)) (e, w))"
  using assms(2-)
proof (induction os arbitrary: xs st m e w)
  case Nil
  then show ?case by (auto simp: cse_scan_def agree_def)
next
  case (Cons op os)
  let ?ws = "write_counts g" and ?st = "cse_step fk (write_counts g) kp ma st op"
  let ?\<alpha> = "cse_resolve (cs_primal stf)" and ?S = "{s. s \<in> dom (cs_rename stf) \<longrightarrow> s \<in> dom (cs_rename st)}"
  note inv = Cons.prems(5)
  have wf: "wf_op g op" and o0: "out op \<ge> 0" using Cons.prems(2) by (auto simp: wf_op_def valid_slot_def)
  have rd: "primal_source op < 0" "idata op \<noteq> Some []" "out op \<in> set (in_slots op) \<or> covers (size_mem g) op"
    using Cons.prems(3) by auto
  have scan: "stf = cse_scan fk ?ws kp ma os ?st" using Cons.prems(6) by (simp add: cse_scan_def)
  have ops': "ops g = (xs @ [op]) @ os" using Cons.prems(1) by simp
  have lo: "later_outs (xs @ [op]) = later_outs xs \<union> set (outs op)" by (auto simp: later_outs_def)
  have twice: "s \<notin> later_outs os" if "vget 0 ?ws s = 1" "s \<in> later_outs xs \<union> set (outs op)" "valid_slot g s" for s
    using written_twice [OF that(1) ops' that(3)] that(2) lo by blast
  have reads: "\<forall>s \<in> set (in_slots op). s \<in> later_outs os \<longrightarrow> vget 0 ?ws s \<noteq> 1"
  proof (intro ballI impI notI)
    fix s assume s: "s \<in> set (in_slots op)" "s \<in> later_outs os" "vget 0 ?ws s = 1"
    have "list_ex (\<lambda>p. s \<in> set (outs p)) os" using s(2) by (auto simp: list_ex_iff later_outs_def)
    then have "s \<in> later_outs xs \<union> set (outs op)" using Cons.prems(4) s(1) by (simp add: list_all_iff)
    then show False using twice s wf_op_valid [OF wf] by blast
  qed
  have once: "s \<notin> later_outs os" if "s \<in> set (outs op)" "vget 0 ?ws s = 1" for s
    using twice that wf_op_valid [OF wf] by blast
  have step: "cse_inv K fk g os ?st m'" if "forward_op K op (m, w) = Some (m', w')" for m' w'
    by (rule cse_step_inv [OF kk inv wf rd(2,1,3) reads _ that]) (rule once)
  have IH: "rel_option (\<lambda>(a, x) (b, y). x = y \<and> agree (rep stf) UNIV a b) (run_ops K os (m', w'))
      (run_ops K (map (rename_op ?\<alpha>) (emitted_ops fk ?ws kp ma os ?st)) (e', w'))"
    if "forward_op K op (m, w) = Some (m', w')" "agree (rep ?st) {s. s \<in> dom (cs_rename stf) \<longrightarrow> s \<in> dom (cs_rename ?st)} m' e'"
    for m' e' w'
  proof (rule Cons.IH [OF ops' _ _ _ step [OF that(1)] scan that(2)])
    show "reads_ok (later_outs (xs @ [op])) os" using Cons.prems(4) by (simp add: lo)
  qed (use Cons.prems(2,3) in simp_all)
  show ?case
  proof (cases "cse_hit fk ?ws kp st op")
    case None
    note miss = rep_miss [OF None, of ma]
    have fresh: "s \<notin> dom f' - dom f"
      if "s \<in> touched op \<or> settled st (op # os) s" "(f, f') \<in> {(cs_rename st, cs_rename stf), (cs_primal st, cs_primal stf)}" for s f f'
    proof
      assume s: "s \<in> dom f' - dom f"
      have "(f, f') \<in> {(cs_rename ?st, cs_rename stf), (cs_primal ?st, cs_primal stf)}" using that(2) miss(2,3) by simp
      from cse_scan_links [OF this [unfolded scan]] s have "s \<in> later_outs os" "vget 0 ?ws s = 1" by blast+
      moreover have "s \<in> set (in_slots op) \<or> s \<in> set (outs op) \<or> s \<notin> later_outs os"
        using that(1) touched_iff [OF o0] by (auto simp: settled_def)
      ultimately show False using reads once by blast
    qed
    have pr: "?\<alpha> t = cse_resolve (cs_primal st) t" if "t \<in> touched op \<or> settled st (op # os) t" for t
    proof -
      have "(cs_primal ?st, cs_primal stf) \<in> {(cs_rename ?st, cs_rename stf), (cs_primal ?st, cs_primal stf)}" by simp
      from cse_scan_links [OF this [unfolded scan]] have "cs_primal st \<subseteq>\<^sub>m cs_primal stf" by (simp add: miss(3) scan)
      then show ?thesis using fresh [OF that, of "cs_primal st" "cs_primal stf"]
        by (cases "cs_primal st t") (auto simp: cse_resolve_def map_le_def dom_def split: option.splits)
    qed
    have lk: "links_ok g (op # os) st m (cs_rename st)" using inv unfolding cse_inv_def by blast
    have al: "?\<alpha> (cse_resolve (cs_rename st) s) = rep st s" if "s \<in> touched op" for s
      using pr [of s] pr [of "cse_resolve (cs_rename st) s"] lk that
      by (cases "cs_rename st s") (auto simp: rep_def cse_resolve_def [of "cs_rename st"] links_ok_def)
    have oa: "?\<alpha> s = rep st s" if "s \<in> set (outs op)" for s
      using pr [of s] rep_cases [OF inv, of s] that by (auto simp: touched_def rep_def cse_resolve_def)
    have ren: "rename_op ?\<alpha> (resolved st op) = rename_op (rep st) op"
      using al oa out_in_outs [OF o0] by (auto simp: rename_op_def outs_def)
    have fw: "forward_op K (rename_op ?\<alpha> (strip (resolved st op))) = forward_op K (rename_op (rep st) op)"
      by (simp only: rename_op_strip forward_op_strip ren)
    have ap: "apart (rep st) (insert (out op) (set (outs op))) ?S"
      unfolding apart_def
    proof (intro ballI impI)
      fix d s assume "d \<in> insert (out op) (set (outs op))" and eq: "rep st s = rep st d"
      then have d: "d \<in> set (outs op)" using out_in_outs [OF o0] by blast
      from eq have "rep st s = d" by (simp only: rep_out(1) [OF inv d])
      then show "s = d" by (rule rep_out(2) [OF inv d])
    qed
    have "touched op \<subseteq> ?S" using fresh by blast
    from forward_op_rename_apart [OF Cons.prems(7) ap this, of K w] rep_out(1) [OF inv, of "out2 op"]
    have rel: "rel_option (\<lambda>(a, x) (b, y). agree (rep st) ?S a b \<and> x = y)
        (forward_op K op (m, w)) (forward_op K (rename_op (rep st) op) (e, w))" by (simp add: outs_def)
    show ?thesis
    proof (cases "forward_op K op (m, w)")
      case None': None
      with rel show ?thesis using None by (simp add: fw)
    next
      case (Some r)
      obtain m' w' where m': "forward_op K op (m, w) = Some (m', w')" using Some by (cases r) auto
      with rel obtain e' where e': "forward_op K (rename_op (rep st) op) (e, w) = Some (e', w')" "agree (rep st) ?S m' e'"
        by (auto simp: option_rel_Some1)
      from IH [OF m'] e'(2) miss have "rel_option (\<lambda>(a, x) (b, y). x = y \<and> agree (rep stf) UNIV a b) (run_ops K os (m', w'))
          (run_ops K (map (rename_op ?\<alpha>) (emitted_ops fk ?ws kp ma os ?st)) (e', w'))" by simp
      with m' e'(1) None fw show ?thesis by simp
    qed
  next
    case (Some j)
    have cand: "cse_candidate fk ?ws kp (cs_slots st) (resolved st op)"
      and t: "cs_table st (cse_key (cs_slots st) (cs_version st) (cs_primal st) (resolved st op)) = Some j"
      using Some by (auto simp: cse_hit_def split: if_splits)
    let ?o = "out (cs_ops st ! j)"
    have set: "settled st (op # os) ?o" using inv t unfolding cse_inv_def entry_ok_def by blast
    note cf = candidate_facts [OF inv wf rd(3) cand]
    note fw = hit_value [OF kk inv wf rd(2,3) cand t, of w]
    note rh = rep_hit [OF inv Some cf(5) set, of ma]
    have "?o \<notin> dom (cs_rename stf) - dom (cs_rename st)"
      using cse_scan_links [of "cs_rename st" "cs_rename stf" st fk ?ws kp ma "op # os"] Cons.prems(6) set
      by (auto simp: settled_def)
    then have eo: "m ?o = e ?o" using Cons.prems(7) set by (auto simp: agree_def settled_def rep_def cse_resolve_def)
    have "agree (rep ?st) {s. s \<in> dom (cs_rename stf) \<longrightarrow> s \<in> dom (cs_rename ?st)} (m(out op := m ?o)) e"
      unfolding agree_def
    proof
      fix s assume "s \<in> {s. s \<in> dom (cs_rename stf) \<longrightarrow> s \<in> dom (cs_rename ?st)}"
      then have "s = out op \<or> s \<in> ?S" using rh(2) by blast
      then show "(m(out op := m ?o)) s = e (rep ?st s)"
        using Cons.prems(7) eo by (auto simp: agree_def rh(1))
    qed
    from IH [OF fw this] fw Some show ?thesis by simp
  qed
qed


section \<open>The rewritten graph\<close>

definition kept_ops :: "'u cse_state \<Rightarrow> 'u gop list" where
  "kept_ops st = selected (map Not (cs_drop st)) (cs_ops st)"

definition cse_shape :: "'u graph \<Rightarrow> 'u gop list \<Rightarrow> 'u cse_state \<Rightarrow> bool" where
  "cse_shape g os st \<longleftrightarrow> length (cs_drop st) = length (cs_ops st)
     \<and> (\<forall>key j. cs_table st key = Some j \<longrightarrow> j < length (cs_ops st) \<and> \<not> cached_primal (cs_ops st ! j)
          \<and> 0 \<le> out (cs_ops st ! j) \<and> out (cs_ops st ! j) \<notin> later_outs os)
     \<and> (\<forall>s. s \<in> dom (cs_rename st) \<union> dom (cs_primal st) \<longrightarrow> s \<notin> later_outs os)
     \<and> (\<forall>op \<in> set (filter cached_primal (kept_ops st)). cs_primal st (out op) = Some (primal_source op))
     \<and> (\<forall>s t. cs_primal st s = Some t \<longrightarrow> 0 \<le> t \<and> valid_slot g s
          \<and> (\<exists>op \<in> set (filter cached_primal (kept_ops st)). out op = s \<and> primal_source op = t))
     \<and> length (cs_slots st) = length (slots g)
     \<and> (\<forall>s. cs_rename st s = None \<longrightarrow> vget no_slot (cs_slots st) s = slot_at g s)
     \<and> (cs_removed st = 0 \<longrightarrow> cs_rename st = Map.empty \<and> list_all Not (cs_drop st))"

lemma selected_append:
  "length bs = length xs \<Longrightarrow> selected (bs @ [b]) (xs @ [x]) = selected bs xs @ (if b then [x] else [])"
  by (induction bs xs rule: list_induct2) simp_all

lemma selected_all: "length bs = length xs \<Longrightarrow> list_all (\<lambda>b. b) bs \<Longrightarrow> selected bs xs = xs"
  by (induction bs xs rule: list_induct2) simp_all

lemma selected_filter_update:
  assumes "P x = P (xs ! j)" and "P x \<Longrightarrow> f x = f (xs ! j)"
  shows "map f (filter P (selected bs (xs[j := x]))) = map f (filter P (selected bs xs))"
  using assms
proof (induction bs xs arbitrary: j rule: selected.induct)
  case (1 b bs y ys)
  then show ?case by (cases j) auto
qed simp_all

lemma cse_step_shape:
  assumes sh: "cse_shape g (op # os) st" and wf: "wf_op g op" and ps: "primal_source op < 0"
    and once: "\<And>s. s \<in> set (outs op) \<Longrightarrow> vget 0 ws s = 1 \<Longrightarrow> s \<notin> later_outs os"
  shows "cse_shape g os (cse_step fk ws kp ma st op)"
    and "map strip (filter (\<lambda>op. \<not> cached_primal op) (kept_ops (cse_step fk ws kp ma st op)))
      = map strip (filter (\<lambda>op. \<not> cached_primal op) (kept_ops st))
        @ (if cse_hit fk ws kp st op = None then [strip (resolved st op)] else [])"
proof -
  have len: "length (map Not (cs_drop st)) = length (cs_ops st)" using sh by (simp add: cse_shape_def)
  note app = selected_append [OF len]
  have nc: "\<not> cached_primal (resolved st op)" using ps by (simp add: cached_primal_def)
  have vo: "valid_slot g (out op)" using wf by (simp add: wf_op_def)
  have c: "outs op = [out op] \<and> out op \<notin> later_outs os \<and> cs_rename st (out op) = None \<and> cs_primal st (out op) = None"
    if "cse_candidate fk ws kp (cs_slots st) (resolved st op)"
  proof -
    have o: "outs op = [out op]" "vget 0 ws (out op) = 1" using that by (auto simp: cse_candidate_def outs_def)
    then have "out op \<notin> dom (cs_rename st) \<union> dom (cs_primal st)" using sh unfolding cse_shape_def by fastforce
    with o once show ?thesis by auto
  qed
  have h: "j < length (cs_ops st) \<and> \<not> cached_primal (cs_ops st ! j) \<and> 0 \<le> out (cs_ops st ! j)
      \<and> out (cs_ops st ! j) \<notin> later_outs (op # os)" if "cse_hit fk ws kp st op = Some j" for j
    using sh that unfolding cse_shape_def cse_hit_def by (metis option.distinct(1))
  show "map strip (filter (\<lambda>op. \<not> cached_primal op) (kept_ops (cse_step fk ws kp ma st op)))
      = map strip (filter (\<lambda>op. \<not> cached_primal op) (kept_ops st))
        @ (if cse_hit fk ws kp st op = None then [strip (resolved st op)] else [])"
  proof (cases rule: cse_step_cases [of fk ws kp st op ma])
    case (share A j)
    note hj = h [OF share(1)] and cj = c [OF share(2)]
    have "cached_primal (resolved st op\<lparr>primal_source := out (cs_ops st ! j)\<rparr>)"
      using hj cj by (auto simp: cached_primal_def)
    moreover have "\<not> cached_primal ((cs_ops st ! j)\<lparr>primal_source := out (cs_ops st ! j)\<rparr>)" by (simp add: cached_primal_def)
    ultimately show ?thesis using share(1,3) hj len
      by (simp add: kept_ops_def cse_share_def cse_keep_def Let_def selected_append selected_filter_update)
  qed (use nc app in \<open>simp_all add: kept_ops_def cse_keep_def cse_drop_def\<close>)
  have sub: "later_outs os \<subseteq> later_outs (op # os)" by auto
  note shs = sh [unfolded cse_shape_def]
  have suc: "j < Suc (length (cs_ops st))" "nth (cs_ops st @ xs) j = cs_ops st ! j" if "cs_table st key = Some j" for key j xs
    using shs that by (auto simp: nth_append less_SucI)
  show "cse_shape g os (cse_step fk ws kp ma st op)"
  proof (cases rule: cse_step_cases [of fk ws kp st op ma])
    case (keep A)
    have "kept_ops (cse_step fk ws kp ma st op) = kept_ops st @ [resolved st op]"
      using app by (simp add: kept_ops_def keep(3) cse_keep_def)
    then show ?thesis using shs suc nc sub unfolding cse_shape_def keep(3)
      by (simp add: cse_keep_def)
  next
    case (new A key)
    have "kept_ops (cse_step fk ws kp ma st op) = kept_ops st @ [resolved st op]"
      using app by (simp add: kept_ops_def new(4) cse_keep_def)
    then show ?thesis using shs suc nc sub c [OF new(2)] wf vo unfolding cse_shape_def new(4)
      by (simp add: cse_keep_def valid_slot_def)
  next
    case (share A j)
    note hj = h [OF share(1)] and cj = c [OF share(2)]
    let ?y = "resolved st op\<lparr>primal_source := out (cs_ops st ! j)\<rparr>"
      and ?x = "(cs_ops st ! j)\<lparr>primal_source := out (cs_ops st ! j)\<rparr>"
    have y: "cached_primal ?y" and x: "\<not> cached_primal ?x" using hj cj by (auto simp: cached_primal_def)
    have "map id (filter cached_primal (selected bs ((cs_ops st)[j := ?x]))) = map id (filter cached_primal (selected bs (cs_ops st)))" for bs
      by (rule selected_filter_update) (use x hj in simp_all)
    then have k: "filter cached_primal (kept_ops (cse_step fk ws kp ma st op)) = filter cached_primal (kept_ops st) @ [?y]"
      using len y by (simp add: kept_ops_def share(3) cse_share_def cse_keep_def Let_def selected_append)
    have tb: "i < Suc (length (cs_ops st)) \<and> \<not> cached_primal (((cs_ops st)[j := ?x] @ [?y]) ! i)
        \<and> 0 \<le> out (((cs_ops st)[j := ?x] @ [?y]) ! i) \<and> out (((cs_ops st)[j := ?x] @ [?y]) ! i) \<notin> later_outs os"
      if t: "cs_table st key = Some i" for key i
    proof -
      have "i < length (cs_ops st)" "\<not> cached_primal (cs_ops st ! i)" "0 \<le> out (cs_ops st ! i)" "out (cs_ops st ! i) \<notin> later_outs os"
        using shs t by auto
      then show ?thesis using x by (cases "i = j") (simp_all add: nth_append)
    qed
    have p: "cs_primal (cse_step fk ws kp ma st op) = (cs_primal st)(out op \<mapsto> out (cs_ops st ! j))"
      using cj by (simp add: share(3) cse_share_def cse_keep_def Let_def emplace_def)
    show ?thesis unfolding cse_shape_def k p
    proof (intro conjI allI impI ballI)
      fix q assume "q \<in> set (filter cached_primal (kept_ops st) @ [?y])"
      then consider "q \<in> set (filter cached_primal (kept_ops st))" | "q = ?y" by auto
      then show "((cs_primal st)(out op \<mapsto> out (cs_ops st ! j))) (out q) = Some (primal_source q)"
        using shs cj by cases (auto split: if_splits)
    next
      fix s t assume "((cs_primal st)(out op \<mapsto> out (cs_ops st ! j))) s = Some t"
      then show "\<exists>q \<in> set (filter cached_primal (kept_ops st) @ [?y]). out q = s \<and> primal_source q = t"
        using shs by (cases "s = out op") auto
    qed (use shs tb cj hj vo in \<open>auto simp: share(3) cse_share_def cse_keep_def Let_def split: if_splits\<close>)
  next
    case (drop A j)
    note hj = h [OF drop(1)] and cj = c [OF drop(2)]
    have "kept_ops (cse_step fk ws kp ma st op) = kept_ops st"
      using app by (simp add: kept_ops_def drop(3) cse_drop_def)
    then show ?thesis using shs suc sub cj unfolding cse_shape_def drop(3)
      by (simp add: cse_drop_def emplace_def vget_vput)
  qed
qed


lemma cse_scan_shape:
  assumes "cse_shape g os st" and "ops g = xs @ os" and "list_all (wf_op g) os" and "list_all (\<lambda>op. primal_source op < 0) os"
  shows "cse_shape g [] (cse_scan fk (write_counts g) kp ma os st)
    \<and> map strip (filter (\<lambda>op. \<not> cached_primal op) (kept_ops (cse_scan fk (write_counts g) kp ma os st)))
      = map strip (filter (\<lambda>op. \<not> cached_primal op) (kept_ops st)) @ emitted_ops fk (write_counts g) kp ma os st"
  using assms
proof (induction os arbitrary: st xs)
  case (Cons op os)
  let ?st = "cse_step fk (write_counts g) kp ma st op"
  have ops': "ops g = (xs @ [op]) @ os" using Cons.prems(2) by simp
  have once: "s \<notin> later_outs os" if "s \<in> set (outs op)" "vget 0 (write_counts g) s = 1" for s
    using written_twice [OF that(2) ops'] that(1) wf_op_valid [of g op s] Cons.prems(3) by (auto simp: later_outs_def)
  have wf: "wf_op g op" and ps: "primal_source op < 0" using Cons.prems(3,4) by simp_all
  have step: "cse_shape g os ?st" "map strip (filter (\<lambda>op. \<not> cached_primal op) (kept_ops ?st))
      = map strip (filter (\<lambda>op. \<not> cached_primal op) (kept_ops st))
        @ (if cse_hit fk (write_counts g) kp st op = None then [strip (resolved st op)] else [])"
    using cse_step_shape [OF Cons.prems(1) wf ps] once by blast+
  show ?case using Cons.IH [OF step(1) ops'] step(2) Cons.prems(3,4) by (simp add: cse_scan_def)
qed (simp add: cse_scan_def)

lemma primal_sources_spec:
  assumes "\<forall>op \<in> set (filter cached_primal os). P (out op) = Some (primal_source op)"
    and "\<forall>t. P s = Some t \<longrightarrow> (\<exists>op \<in> set (filter cached_primal os). out op = s)" and "0 \<le> s" and "nat s < n"
  shows "vget (-1) (foldl (\<lambda>p op. if cached_primal op then vput p (out op) (primal_source op) else p) (replicate n (-1)) os) s
    = (case P s of None \<Rightarrow> -1 | Some t \<Rightarrow> t)"
proof -
  have "vget (-1) (foldl (\<lambda>p op. if cached_primal op then vput p (out op) (primal_source op) else p) v os) s
      = (if \<exists>op \<in> set (filter cached_primal os). out op = s then the (P s) else vget (-1) v s)"
    if "length v = n" "\<forall>op \<in> set (filter cached_primal os). P (out op) = Some (primal_source op)" for v
    using that
  proof (induction os arbitrary: v)
    case (Cons op os)
    then show ?case using assms(3,4) by (auto simp: vget_vput)
  qed simp
  from this [of "replicate n (-1)"] assms(1,2) show ?thesis by (auto split: option.splits)
qed

lemma run_ops_strip: "run_ops K (map (rename_op \<rho>) (map strip xs)) s = run_ops K (map (rename_op \<rho>) xs) s"
  by (induction xs arbitrary: s) (simp_all add: rename_op_strip forward_op_strip split: option.split)

lemma cse_init_inv: "sized_mem g m \<Longrightarrow> cse_inv K fk g os (cse_init g) m"
  by (simp add: cse_inv_def cse_init_def links_ok_def slot_at_def)

lemma cse_init_shape: "cse_shape g os (cse_init g)"
  by (simp add: cse_shape_def cse_init_def kept_ops_def slot_at_def)

lemma cse_scan_keep:
  "s \<in> kp \<Longrightarrow> cs_rename st s = None \<and> cs_primal st s = None \<Longrightarrow>
     cs_rename (cse_scan fk ws kp ma os st) s = None \<and> cs_primal (cse_scan fk ws kp ma os st) s = None"
proof (induction os arbitrary: st)
  case (Cons op os)
  have c: "out op \<notin> kp" if "cse_candidate fk ws kp (cs_slots st) (resolved st op)" using that by (simp add: cse_candidate_def)
  have "cs_rename (cse_step fk ws kp ma st op) s = None \<and> cs_primal (cse_step fk ws kp ma st op) s = None"
    by (cases rule: cse_step_cases [of fk ws kp st op ma])
      (use Cons.prems c in \<open>auto simp: cse_keep_def cse_share_def cse_drop_def Let_def emplace_def split: option.splits\<close>)
  from Cons.IH [OF Cons.prems(1) this] show ?case by (simp add: cse_scan_def)
qed (simp add: cse_scan_def)

lemma no_primals:
  assumes "list_all (\<lambda>op. primal_source op < 0) (ops g)"
  shows "forward_ops g = ops g" and "primal_of g s = s"
proof -
  have nc: "\<not> cached_primal op" if "op \<in> set (ops g)" for op using assms that by (auto simp: list_all_iff cached_primal_def)
  have "foldl (\<lambda>p op. if cached_primal op then vput p (out op) (primal_source op) else p) v xs = v"
    if "\<forall>op \<in> set xs. \<not> cached_primal op" for v and xs :: "('a gop) list"
    using that by (induction xs) auto
  then have p: "primal_of g = (\<lambda>s. s)" using nc by (simp add: fun_eq_iff primal_of_def primal_sources_def)
  then show "primal_of g s = s" by simp
  show "forward_ops g = ops g" using nc by (simp add: forward_ops_def p filter_True map_idI)
qed

text \<open>What the pass returns, in terms of its final state.\<close>

lemma cse_result:
  assumes wf: "wf_graph g" and ready: "cse_ready g"
    and st: "st = cse_scan fk (write_counts g) (keep_slots g fills roots) ma (ops g) (cse_init g)"
    and cse: "cse fk False g fills terms roots ma = (g', terms', removed, shared)"
  shows "terms' = map (cse_resolve (cs_rename st)) terms" and "slots g' = cs_slots st"
    and "primal_of g' = cse_resolve (cs_primal st)"
    and "run_ops K (forward_ops g') s = run_ops K (map (rename_op (cse_resolve (cs_primal st)))
      (emitted_ops fk (write_counts g) (keep_slots g fills roots) ma (ops g) (cse_init g))) s"
    and "cs_rename st t = None \<Longrightarrow> slot_at g' t = slot_at g t"
proof -
  have ps: "list_all (\<lambda>op. primal_source op < 0) (ops g)" using ready by (simp add: cse_ready_def list_all_iff)
  have "list_all (wf_op g) (ops g)" using wf by (simp add: wf_graph_def)
  from cse_scan_shape [OF cse_init_shape _ this ps, of "[]" fk "keep_slots g fills roots" ma]
  have sh: "cse_shape g [] st" and em: "map strip (filter (\<lambda>op. \<not> cached_primal op) (kept_ops st))
      = emitted_ops fk (write_counts g) (keep_slots g fills roots) ma (ops g) (cse_init g)"
    by (simp_all add: st kept_ops_def cse_init_def)
  note shs = sh [unfolded cse_shape_def]
  have zero: "kept_ops st = cs_ops st \<and> cs_rename st = Map.empty" if "cs_removed st = 0"
  proof -
    have "list_all Not (cs_drop st)" "cs_rename st = Map.empty" "length (cs_drop st) = length (cs_ops st)"
      using shs that by blast+
    then show ?thesis
      using selected_all [of "map Not (cs_drop st)" "cs_ops st"] by (auto simp: kept_ops_def list_all_iff)
  qed
  have ops: "ops g' = kept_ops st" and sl: "slots g' = cs_slots st"
    using cse zero by (auto simp: cse_def st [symmetric] Let_def kept_ops_def split: if_splits)
  show "terms' = map (cse_resolve (cs_rename st)) terms"
    using cse zero by (auto simp: cse_def st [symmetric] Let_def cse_resolve_def map_idI split: if_splits)
  show "slots g' = cs_slots st" by (rule sl)
  show pr: "primal_of g' = cse_resolve (cs_primal st)"
  proof
    fix s
    show "primal_of g' s = cse_resolve (cs_primal st) s"
    proof (cases "valid_slot g s")
      case True
      then have "vget (-1) (primal_sources g') s = (case cs_primal st s of None \<Rightarrow> -1 | Some t \<Rightarrow> t)"
        unfolding primal_sources_def ops sl
      proof (intro primal_sources_spec)
        show "\<forall>op \<in> set (filter cached_primal (kept_ops st)). cs_primal st (out op) = Some (primal_source op)"
          and "\<forall>t. cs_primal st s = Some t \<longrightarrow> (\<exists>op \<in> set (filter cached_primal (kept_ops st)). out op = s)"
          using shs by blast+
      qed (use shs in \<open>auto simp: valid_slot_def\<close>)
      then show ?thesis using shs by (auto simp: primal_of_def cse_resolve_def split: option.splits)
    next
      case False
      then have "cs_primal st s = None" using shs by (metis not_None_eq)
      moreover have "length (foldl (\<lambda>p op. if cached_primal op then vput p (out op) (primal_source op) else p) v xs) = length v"
        for v and xs :: "'a gop list" by (induction xs arbitrary: v) simp_all
      then have "vget (-1) (primal_sources g') s = -1"
        using False shs by (auto simp: primal_sources_def sl vget_def valid_slot_def)
      ultimately show ?thesis by (simp add: primal_of_def cse_resolve_def)
    qed
  qed
  show "run_ops K (forward_ops g') s = run_ops K (map (rename_op (cse_resolve (cs_primal st)))
      (emitted_ops fk (write_counts g) (keep_slots g fills roots) ma (ops g) (cse_init g))) s"
    unfolding forward_ops_def pr ops em [symmetric] run_ops_strip ..
  show "cs_rename st t = None \<Longrightarrow> slot_at g' t = slot_at g t" using shs by (simp add: slot_at_def sl)
qed

text \<open>C2. Common-subexpression elimination preserves the forward sweep the executor runs: on a well-formed graph
  whose mergeable kernels are pure and see nothing but what the key compares, the rewritten graph
  (repeated operations dropped, shared primals aliased and skipped) fails exactly when the original
  does, ends in the same evaluation state, leaves the same values in every extra root and in the
  result slot, and every target term reads the value it read before, whether or not active
  operations are merged.\<close>

theorem cse_sound:
  fixes g :: "'u graph" and m :: "'d mem"
  assumes wf: "wf_graph g" and ready: "cse_ready g" and kk: "key_kernels K fk" and size: "sized_mem g m"
    and cse: "cse fk disabled g fills terms roots merge_active = (g', terms', removed, shared)"
    and e: "\<forall>s. len (slot_at g' s) = len (slot_at g s) \<longrightarrow> e s = m s"
  shows "rel_option (\<lambda>(a, x) (b, y). x = y \<and> (\<forall>s \<in> set roots \<union> {s. s = result_slot g \<and> 0 \<le> s}. b s = a s)
      \<and> map (\<lambda>t. b (primal_of g' t)) terms' = map a terms)
    (run_ops K (ops g) (m, w)) (run_ops K (forward_ops g') (e, w))"
proof (cases disabled)
  case True
  then have g': "g' = g" "terms' = terms" using cse by (simp_all add: cse_def)
  have "list_all (\<lambda>op. primal_source op < 0) (ops g)" using ready by (simp add: cse_ready_def list_all_iff)
  from no_primals [OF this] e have "forward_ops g' = ops g" "primal_of g' t = t" "e = m" for t by (auto simp: g')
  then show ?thesis by (simp add: g' option.rel_refl_strong split_beta)
next
  case False
  let ?kp = "keep_slots g fills roots"
  define st where "st = cse_scan fk (write_counts g) ?kp merge_active (ops g) (cse_init g)"
  have "cse fk False g fills terms roots merge_active = (g', terms', removed, shared)" using cse False by simp
  note res = cse_result [OF wf ready st_def this]
  have "agree (rep (cse_init g)) {s. s \<in> dom (cs_rename st) \<longrightarrow> s \<in> dom (cs_rename (cse_init g))} m e"
    unfolding agree_def
  proof
    fix s assume "s \<in> {s. s \<in> dom (cs_rename st) \<longrightarrow> s \<in> dom (cs_rename (cse_init g))}"
    then have "cs_rename st s = None" by (auto simp: cse_init_def)
    from res(5) [OF this] e have "e s = m s" by metis
    then show "m s = e (rep (cse_init g) s)" by (simp add: rep_def cse_init_def cse_resolve_def)
  qed
  from cse_sim [OF kk _ _ _ _ cse_init_inv [OF size] st_def this, of "[]" w] wf ready
  have "rel_option (\<lambda>(a, x) (b, y). x = y \<and> agree (rep st) UNIV a b) (run_ops K (ops g) (m, w)) (run_ops K (forward_ops g') (e, w))"
    unfolding res(4) by (simp add: wf_graph_def cse_ready_def later_outs_def)
  then show ?thesis
  proof (rule option.rel_mono_strong, clarify, intro conjI ballI refl)
    fix a b :: "'d mem" and s
    assume ag: "agree (rep st) UNIV a b"
    show "map (\<lambda>t. b (primal_of g' t)) terms' = map a terms"
      using ag by (simp add: res(1,3) agree_def rep_def)
    assume "s \<in> set roots \<union> {s. s = result_slot g \<and> 0 \<le> s}"
    then have "s \<in> ?kp" by (auto simp: keep_slots_def)
    then have "cs_rename st s = None \<and> cs_primal st s = None"
      unfolding st_def by (rule cse_scan_keep) (simp add: cse_init_def)
    then show "b s = a s" using ag by (simp add: agree_def rep_def cse_resolve_def)
  qed
qed


text \<open>Slot 0 is a parameter and slot 1 data. Slots 2 and 3 repeat one sum over the data: the second is dropped
  and its length cleared. Slots 4 and 5 repeat one sum a parameter reaches: the second becomes a
  cached primal. Slot 6 is the result; slots 3 and 5 are target terms.\<close>

definition cse_graph :: "unit graph" where
  "cse_graph = \<lparr>slots = map (\<lambda>p. \<lparr>offset = 0, len = 1, is_param = p\<rparr>) [True, False, False, False, False, False, False],
     ops = map (\<lambda>(ins, o'). (default_op None)\<lparr>opcode := OP_ADD, in_slots := ins, out := o'\<rparr>)
       [([1, 1], 2), ([1, 1], 3), ([0, 2], 4), ([0, 3], 5), ([4, 5], 6)],
     result_slot = 6\<rparr>"

definition cse_start :: "bool \<Rightarrow> int mem" where
  "cse_start dropped s = (if s = 0 then [7] else if s = 1 then [5] else if s = 3 \<and> dropped then [] else [0])"

lemma sum_kern_keyed: "key_kernels sum_kern fk"
proof -
  have "pure_op sum_kern op" for op
    unfolding pure_op_def sum_kern_def
    by (intro allI exI [of _ "\<lambda>ins n n2. Some ([sum_list (map sum_list ins)], [])"] refl)
  then show ?thesis by (simp add: key_kernels_def sum_kern_def [abs_def])
qed

abbreviation cse_example :: "unit graph \<times> int list \<times> nat \<times> nat" where
  "cse_example \<equiv> cse (\<lambda>_. Some False) False cse_graph ([] :: int fills) [3, 5] [] False"

lemma cse_graph_hyps: "wf_graph cse_graph" "cse_ready cse_graph" "sized_mem cse_graph (cse_start False)"
proof -
  have "covers (size_mem cse_graph) op" if "op \<in> set (ops cse_graph)" for op
    using that by (auto simp: cse_graph_def covers_def structural_fwd_def default_op_def)
  moreover have "reads_ok {} (ops cse_graph)"
    "list_all (\<lambda>op. primal_source op < 0 \<and> idata op \<noteq> Some []) (ops cse_graph)"
    by (simp_all add: cse_graph_def default_op_def outs_def)
  ultimately show "cse_ready cse_graph" by (simp add: cse_ready_def list_all_iff)
  show "wf_graph cse_graph" by code_simp
  show "sized_mem cse_graph (cse_start False)" by code_simp
qed

lemma cse_example_result: "snd cse_example = ([2, 5], 1, 1)"
  by code_simp

lemma cse_start_agree: "\<forall>s. len (slot_at (fst cse_example) s) = len (slot_at cse_graph s) \<longrightarrow> cse_start True s = cse_start False s"
proof (intro allI impI)
  fix s assume a: "len (slot_at (fst cse_example) s) = len (slot_at cse_graph s)"
  have "len (slot_at (fst cse_example) 3) \<noteq> len (slot_at cse_graph 3)" by code_simp
  with a have "s \<noteq> 3" by metis
  then show "cse_start True s = cse_start False s" by (simp add: cse_start_def)
qed

theorem cse_sound_witness:
  "snd cse_example = ([2, 5], 1, 1)
   \<and> map_option (\<lambda>(m, w). (m 5, m 6)) (run_ops sum_kern (ops cse_graph) (cse_start False, ())) = Some ([17], [34])
   \<and> rel_option (\<lambda>(a, x) (b, y). x = y \<and> (\<forall>s \<in> set [] \<union> {s. s = result_slot cse_graph \<and> 0 \<le> s}. b s = a s)
        \<and> map (\<lambda>t. b (primal_of (fst cse_example) t)) [2, 5] = map a [3, 5])
      (run_ops sum_kern (ops cse_graph) (cse_start False, ())) (run_ops sum_kern (forward_ops (fst cse_example)) (cse_start True, ()))"
proof (intro conjI)
  show "snd cse_example = ([2, 5], 1, 1)" by (rule cse_example_result)
  show "map_option (\<lambda>(m, w). (m 5, m 6)) (run_ops sum_kern (ops cse_graph) (cse_start False, ())) = Some ([17], [34])"
    by code_simp
  have "cse_example = (fst cse_example, [2, 5], 1, 1)" using cse_example_result by (metis prod.collapse)
  from cse_sound [OF cse_graph_hyps(1,2) sum_kern_keyed cse_graph_hyps(3) this cse_start_agree]
  show "rel_option (\<lambda>(a, x) (b, y). x = y \<and> (\<forall>s \<in> set [] \<union> {s. s = result_slot cse_graph \<and> 0 \<le> s}. b s = a s)
        \<and> map (\<lambda>t. b (primal_of (fst cse_example) t)) [2, 5] = map a [3, 5])
      (run_ops sum_kern (ops cse_graph) (cse_start False, ())) (run_ops sum_kern (forward_ops (fst cse_example)) (cse_start True, ()))" .
qed

end
