(* ===== verification/Pullback.thy ===== *)
theory Pullback
  imports Opcodes
begin

text \<open>
  The pullbacks that have a compact form: the backward kernels of \<^verbatim>\<open>runtime/kernels/eltwise_expr.cpp\<close>,
  \<^verbatim>\<open>elementwise.cpp\<close>, \<^verbatim>\<open>mixture.cpp\<close> and \<^verbatim>\<open>densities_impl.hpp\<close> with a \<^verbatim>\<open>cached_micro\<close> companion, the
  companions, and \<^verbatim>\<open>run_bwd_micro\<close> (\<^verbatim>\<open>kernel_types.hpp\<close>). Numbers are a type with operations and no laws, so
  an equation between two pullbacks is an equation between the floating-point computations, in
  their order of evaluation.
\<close>

section \<open>Buffers\<close>

datatype region = Values | Data | Adjoints | Scratch

type_synonym ptr = "region \<times> nat"
type_synonym 'd heap = "ptr \<Rightarrow> 'd"

definition ptr_at :: "ptr \<Rightarrow> nat \<Rightarrow> ptr" where
  "ptr_at p i = (fst p, snd p + i)"

lemma ptr_at_0 [simp]: "ptr_at p 0 = p"
  by (simp add: ptr_at_def)

record 'd KernelCtx =
  c_in :: "(ptr \<times> nat) list"
  c_out :: "ptr \<times> nat"
  c_variant :: nat
  c_scratch :: ptr
  c_idata :: "nat list"
  c_in_adj :: "(ptr option \<times> nat) list"    \<comment> \<open>a data input has a null pointer\<close>
  c_out_adj :: 'd
  c_out_adj_vec :: "ptr \<times> nat"

abbreviation in_data :: "'d KernelCtx \<Rightarrow> nat \<Rightarrow> ptr" where "in_data c k \<equiv> fst (c_in c ! k)"
abbreviation in_len :: "'d KernelCtx \<Rightarrow> nat \<Rightarrow> nat" where "in_len c k \<equiv> snd (c_in c ! k)"
abbreviation in_adj :: "'d KernelCtx \<Rightarrow> nat \<Rightarrow> ptr option" where "in_adj c k \<equiv> fst (c_in_adj c ! k)"
abbreviation in_adj_len :: "'d KernelCtx \<Rightarrow> nat \<Rightarrow> nat" where "in_adj_len c k \<equiv> snd (c_in_adj c ! k)"
abbreviation out_len :: "'d KernelCtx \<Rightarrow> nat" where "out_len c \<equiv> snd (c_out c)"
abbreviation seeds :: "'d KernelCtx \<Rightarrow> ptr" where "seeds c \<equiv> fst (c_out_adj_vec c)"

definition has_adj :: "'d KernelCtx \<Rightarrow> nat \<Rightarrow> bool" where
  "has_adj c k = (case in_adj c k of None \<Rightarrow> False | Some _ \<Rightarrow> True)"

lemma has_adj_Some: "in_adj c k = Some a \<Longrightarrow> has_adj c k"
  by (simp add: has_adj_def)

definition acc_add :: "ptr \<Rightarrow> 'd::plus \<Rightarrow> 'd heap \<Rightarrow> 'd heap" where
  "acc_add p x h = h(p := h p + x)"

definition acc_sub :: "ptr \<Rightarrow> 'd::minus \<Rightarrow> 'd heap \<Rightarrow> 'd heap" where
  "acc_sub p x h = h(p := h p - x)"

fun for_each :: "nat list \<Rightarrow> (nat \<Rightarrow> 's \<Rightarrow> 's) \<Rightarrow> 's \<Rightarrow> 's" where
  "for_each [] f s = s"
| "for_each (i # is) f s = for_each is f (f i s)"

lemma for_each_one [simp]: "for_each [i] f = f i"
  by (simp add: fun_eq_iff)

lemma for_each_cong: "(\<And>k. k \<in> set ks \<Longrightarrow> f k = g k) \<Longrightarrow> for_each ks f s = for_each ks g s"
  by (induction ks arbitrary: s) auto

definition on_adj :: "ptr option \<Rightarrow> (ptr \<Rightarrow> 's \<Rightarrow> 's) \<Rightarrow> 's \<Rightarrow> 's" where
  "on_adj p f s = (case p of None \<Rightarrow> s | Some a \<Rightarrow> f a s)"

section \<open>Micro-operations\<close>

datatype BwdMicroKind = kMicroAdd | kMicroSub | kMicroScaled | kMicroFn | kMicroFnNonzero

record 'd BwdMicro =
  m_dst :: ptr
  m_seed :: ptr
  m_a :: ptr
  m_b :: "ptr option"
  m_fn :: "'d \<Rightarrow> 'd \<Rightarrow> 'd \<Rightarrow> 'd"
  m_kind :: BwdMicroKind

text \<open>\<open>z\<close> is the comparison with \<open>0.0\<close>.\<close>

definition run_bwd_micro :: "('d::{plus,minus,times} \<Rightarrow> bool) \<Rightarrow> 'd BwdMicro \<Rightarrow> 'd heap \<Rightarrow> 'd heap" where
  "run_bwd_micro z m h = (case m_kind m of
     kMicroAdd \<Rightarrow> acc_add (m_dst m) (h (m_seed m)) h
   | kMicroSub \<Rightarrow> acc_sub (m_dst m) (h (m_seed m)) h
   | kMicroScaled \<Rightarrow>
       (case m_b m of Some b \<Rightarrow> if z (h b) then h else acc_add (m_dst m) (h (m_seed m) * h (m_a m)) h
        | None \<Rightarrow> acc_add (m_dst m) (h (m_seed m) * h (m_a m)) h)
   | kMicroFn \<Rightarrow>
       (case m_b m of Some b \<Rightarrow> acc_add (m_dst m) (m_fn m (h (m_seed m)) (h (m_a m)) (h b)) h | None \<Rightarrow> h)
   | kMicroFnNonzero \<Rightarrow>
       (case m_b m of
          Some b \<Rightarrow> if z (h (m_a m)) then h
                    else acc_add (m_dst m) (m_fn m (h (m_seed m)) (h (m_a m)) (h b)) h
        | None \<Rightarrow> h))"

definition bwd_micro ::
    "BwdMicroKind \<Rightarrow> ptr \<Rightarrow> ptr \<Rightarrow> ptr \<Rightarrow> ptr option \<Rightarrow> ('d \<Rightarrow> 'd \<Rightarrow> 'd \<Rightarrow> 'd) \<Rightarrow> 'd BwdMicro" where
  "bwd_micro kind dst seed a b fn =
     \<lparr>m_dst = dst, m_seed = seed, m_a = a, m_b = b, m_fn = fn, m_kind = kind\<rparr>"

text \<open>An additive micro has no operand; \<open>no_fn\<close> and its own seed stand in for the null fields.\<close>

definition no_fn :: "'d \<Rightarrow> 'd \<Rightarrow> 'd \<Rightarrow> 'd" where "no_fn s x y = s"

definition run_micros :: "('d::{plus,minus,times} \<Rightarrow> bool) \<Rightarrow> 'd BwdMicro list \<Rightarrow> 'd heap \<Rightarrow> 'd heap" where
  "run_micros z ms h = foldl (\<lambda>h m. run_bwd_micro z m h) h ms"

lemma run_micros_simps [kernel_simps]:
  "run_micros z [] h = h" "run_micros z (m # ms) h = run_micros z ms (run_bwd_micro z m h)"
  "run_micros z (ms @ ms') h = run_micros z ms' (run_micros z ms h)"
  by (simp_all add: run_micros_def)

text \<open>How the sweep calls a backward kernel: the scalar adjoint is read once, before the call.\<close>

definition run_bwd_step :: "('d KernelCtx \<Rightarrow> 'd heap \<Rightarrow> 'd heap) \<Rightarrow> 'd KernelCtx \<Rightarrow> 'd heap \<Rightarrow> 'd heap" where
  "run_bwd_step b c h = b (if snd (c_out_adj_vec c) = 1 then c\<lparr>c_out_adj := h (seeds c)\<rparr> else c) h"

section \<open>Elementwise kernels\<close>

definition kAddTransposeRight :: nat where "kAddTransposeRight = 1"

definition add_bwd :: "'d::{plus} KernelCtx \<Rightarrow> 'd heap \<Rightarrow> 'd heap" where
  "add_bwd c h =
     (if c_variant c \<noteq> 0 then
        let original = (if c_variant c = kAddTransposeRight then 0 else 1) in
        on_adj (in_adj c original) (\<lambda>adj.
          let n = c_idata c ! 0 in
          for_each [0..<out_len c] (\<lambda>i h.
            let transposed = (i mod n) * n + i div n; seed = h (ptr_at (seeds c) i);
                h1 = acc_add (ptr_at adj (if original = 0 then i else transposed)) seed h
            in acc_add (ptr_at adj (if original = 0 then transposed else i)) seed h1)) h
      else
        for_each [0, 1] (\<lambda>k.
          on_adj (in_adj c k) (\<lambda>adj.
            if in_len c k = 1 then
              (if out_len c = 1 then acc_add adj (c_out_adj c)
               else for_each [0..<out_len c] (\<lambda>i h. acc_add adj (h (ptr_at (seeds c) i)) h))
            else for_each [0..<in_adj_len c k]
                   (\<lambda>i h. acc_add (ptr_at adj i) (h (ptr_at (seeds c) i)) h))) h)"

definition add_micro :: "'d KernelCtx \<Rightarrow> 'd BwdMicro list option" where
  "add_micro c =
     (if c_variant c \<noteq> 0 \<or> out_len c \<noteq> 1 then None
      else if \<exists>k \<in> {0, 1}. has_adj c k \<and> in_len c k \<noteq> 1 then None
      else Some (concat (map (\<lambda>k. case in_adj c k of None \<Rightarrow> []
             | Some a \<Rightarrow> [bwd_micro kMicroAdd a (seeds c) (seeds c) None no_fn]) [0, 1])))"

definition sub_bwd :: "'d::{plus,minus} KernelCtx \<Rightarrow> 'd heap \<Rightarrow> 'd heap" where
  "sub_bwd c h =
     (let h1 = on_adj (in_adj c 0) (\<lambda>adj.
           if in_len c 0 = 1 then
             (if out_len c = 1 then acc_add adj (c_out_adj c)
              else for_each [0..<out_len c] (\<lambda>i h. acc_add adj (h (ptr_at (seeds c) i)) h))
           else for_each [0..<in_adj_len c 0]
                  (\<lambda>i h. acc_add (ptr_at adj i) (h (ptr_at (seeds c) i)) h)) h
      in on_adj (in_adj c 1) (\<lambda>adj.
           if in_len c 1 = 1 then
             (if out_len c = 1 then acc_sub adj (c_out_adj c)
              else for_each [0..<out_len c] (\<lambda>i h. acc_sub adj (h (ptr_at (seeds c) i)) h))
           else for_each [0..<in_adj_len c 1]
                  (\<lambda>i h. acc_sub (ptr_at adj i) (h (ptr_at (seeds c) i)) h)) h1)"

definition sub_micro :: "'d KernelCtx \<Rightarrow> 'd BwdMicro list option" where
  "sub_micro c =
     (if out_len c \<noteq> 1 then None
      else if \<exists>k \<in> {0, 1}. has_adj c k \<and> in_len c k \<noteq> 1 then None
      else Some ((case in_adj c 0 of None \<Rightarrow> []
                  | Some a \<Rightarrow> [bwd_micro kMicroAdd a (seeds c) (seeds c) None no_fn])
               @ (case in_adj c 1 of None \<Rightarrow> []
                  | Some a \<Rightarrow> [bwd_micro kMicroSub a (seeds c) (seeds c) None no_fn])))"

definition mul_bwd :: "'d::{plus,times} KernelCtx \<Rightarrow> 'd heap \<Rightarrow> 'd heap" where
  "mul_bwd c h =
     (if out_len c = 1 then
        on_adj (in_adj c 1) (\<lambda>a h. acc_add a (c_out_adj c * h (in_data c 0)) h)
          (on_adj (in_adj c 0) (\<lambda>a h. acc_add a (c_out_adj c * h (in_data c 1)) h) h)
      else
        let side = (\<lambda>k other. on_adj (in_adj c k) (\<lambda>a.
              if in_len c k = 1 then
                for_each [0..<out_len c] (\<lambda>i h.
                  acc_add a (h (ptr_at (seeds c) i) * h (ptr_at (in_data c other) i)) h)
              else
                for_each [0..<in_adj_len c k] (\<lambda>i h.
                  acc_add (ptr_at a i) (h (ptr_at (seeds c) i)
                    * h (ptr_at (in_data c other) (if in_len c other = 1 then 0 else i))) h)))
        in side 1 0 (side 0 1 h))"

definition mul_micro :: "'d KernelCtx \<Rightarrow> 'd BwdMicro list option" where
  "mul_micro c =
     (if out_len c \<noteq> 1 \<or> in_len c 0 \<noteq> 1 \<or> in_len c 1 \<noteq> 1 then None
      else Some ((case in_adj c 0 of None \<Rightarrow> []
                  | Some a \<Rightarrow> [bwd_micro kMicroScaled a (seeds c) (in_data c 1) None no_fn])
               @ (case in_adj c 1 of None \<Rightarrow> []
                  | Some a \<Rightarrow> [bwd_micro kMicroScaled a (seeds c) (in_data c 0) None no_fn])))"

definition negu_bwd :: "'d::minus KernelCtx \<Rightarrow> 'd heap \<Rightarrow> 'd heap" where
  "negu_bwd c = on_adj (in_adj c 0) (\<lambda>a.
     if out_len c = 1 then acc_sub a (c_out_adj c)
     else for_each [0..<in_adj_len c 0] (\<lambda>i h. acc_sub (ptr_at a i) (h (ptr_at (seeds c) i)) h))"

definition neg_micro :: "'d KernelCtx \<Rightarrow> 'd BwdMicro list option" where
  "neg_micro c =
     (if out_len c \<noteq> 1 then None
      else Some (case in_adj c 0 of None \<Rightarrow> []
                 | Some a \<Rightarrow> [bwd_micro kMicroSub a (seeds c) (seeds c) None no_fn]))"

definition index_bwd_ctx :: "'d::plus KernelCtx \<Rightarrow> 'd heap \<Rightarrow> 'd heap" where
  "index_bwd_ctx c = on_adj (in_adj c 0) (\<lambda>a. acc_add (ptr_at a (c_idata c ! 0)) (c_out_adj c))"

definition index_micro :: "'d KernelCtx \<Rightarrow> 'd BwdMicro list option" where
  "index_micro c =
     (if out_len c \<noteq> 1 then None
      else Some (case in_adj c 0 of None \<Rightarrow> []
                 | Some a \<Rightarrow> [bwd_micro kMicroAdd (ptr_at a (c_idata c ! 0)) (seeds c) (seeds c) None no_fn]))"

section \<open>Unary kernels\<close>

text \<open>The four hand-written unaries and the ordered delta of their compact form; \<open>two\<close> is \<open>2.0\<close>.\<close>

definition logv_delta :: "'d::divide \<Rightarrow> 'd \<Rightarrow> 'd \<Rightarrow> 'd" where "logv_delta seed x y = seed div x"
definition invlogit_delta :: "'d::{times,minus,one} \<Rightarrow> 'd \<Rightarrow> 'd \<Rightarrow> 'd" where
  "invlogit_delta seed x y = seed * y * (1 - y)"
definition square_delta :: "'d::times \<Rightarrow> 'd \<Rightarrow> 'd \<Rightarrow> 'd \<Rightarrow> 'd" where "square_delta two seed x y = seed * two * x"
definition log1m_delta :: "'d::{divide,minus,one} \<Rightarrow> 'd \<Rightarrow> 'd \<Rightarrow> 'd" where
  "log1m_delta seed x y = seed div (x - 1)"

text \<open>All four have this shape: the scalar branch on the adjoint passed by value, the vector branch
  elementwise.\<close>

definition unary_fn_bwd :: "('d \<Rightarrow> 'd \<Rightarrow> 'd \<Rightarrow> 'd) \<Rightarrow> 'd::plus KernelCtx \<Rightarrow> 'd heap \<Rightarrow> 'd heap" where
  "unary_fn_bwd delta c = on_adj (in_adj c 0) (\<lambda>a.
     if out_len c = 1 then (\<lambda>h. acc_add a (delta (c_out_adj c) (h (in_data c 0)) (h (fst (c_out c)))) h)
     else for_each [0..<in_adj_len c 0] (\<lambda>i h.
       acc_add (ptr_at a i) (delta (h (ptr_at (seeds c) i)) (h (ptr_at (in_data c 0) i))
         (h (ptr_at (fst (c_out c)) i))) h))"

definition unary_fn_micro :: "('d \<Rightarrow> 'd \<Rightarrow> 'd \<Rightarrow> 'd) \<Rightarrow> 'd KernelCtx \<Rightarrow> 'd BwdMicro list option" where
  "unary_fn_micro delta c =
     (if out_len c \<noteq> 1 then None
      else Some (case in_adj c 0 of None \<Rightarrow> []
        | Some a \<Rightarrow> [bwd_micro kMicroFn a (seeds c) (in_data c 0) (Some (fst (c_out c))) delta]))"

definition unary_list_bwd :: "('d \<Rightarrow> bool) \<Rightarrow> ('d \<Rightarrow> 'd \<Rightarrow> 'd \<Rightarrow> 'd) \<Rightarrow> UnaryTopology
    \<Rightarrow> 'd::plus KernelCtx \<Rightarrow> 'd heap \<Rightarrow> 'd heap" where
  "unary_list_bwd z delta topology c = on_adj (in_adj c 0) (\<lambda>a.
     for_each [0..<out_len c] (\<lambda>i h.
       let x = h (ptr_at (in_data c 0) i); y = h (ptr_at (fst (c_out c)) i);
           seed = (if out_len c = 1 then c_out_adj c else h (ptr_at (seeds c) i))
       in if unary_has_pullback z topology x then acc_add (ptr_at a i) (delta seed x y) h else h))"

definition unary_list_micro :: "('d \<Rightarrow> 'd \<Rightarrow> 'd \<Rightarrow> 'd) \<Rightarrow> UnaryTopology
    \<Rightarrow> 'd KernelCtx \<Rightarrow> 'd BwdMicro list option" where
  "unary_list_micro delta topology c =
     (if out_len c \<noteq> 1 then None
      else if topology = Disconnected then Some []
      else case in_adj c 0 of None \<Rightarrow> Some []
        | Some a \<Rightarrow> Some [bwd_micro (if topology = Nonzero then kMicroFnNonzero else kMicroFn)
                            a (seeds c) (in_data c 0) (Some (fst (c_out c))) delta])"

section \<open>Mixtures and densities\<close>

text \<open>\<open>nargs\<close> is the template argument \<^verbatim>\<open>NArgs\<close>.\<close>

definition mix_bwd :: "nat \<Rightarrow> 'd::{plus,times,zero} KernelCtx \<Rightarrow> 'd heap \<Rightarrow> 'd heap" where
  "mix_bwd nargs c =
     (let n = out_len c in
      for_each [0..<nargs] (\<lambda>k. on_adj (in_adj c k) (\<lambda>a.
        if in_adj_len c k = 1 \<and> n > 1 then
          (\<lambda>h. acc_add a (for_each (rev [0..<n]) (\<lambda>i acc.
             acc + h (ptr_at (seeds c) i) * h (ptr_at (c_scratch c) (i * nargs + k))) 0) h)
        else
          for_each [0..<n] (\<lambda>i h. acc_add (ptr_at a i)
            (h (ptr_at (seeds c) i) * h (ptr_at (c_scratch c) (i * nargs + k))) h))))"

definition mix_micro :: "nat \<Rightarrow> 'd KernelCtx \<Rightarrow> 'd BwdMicro list option" where
  "mix_micro nargs c =
     (if out_len c \<noteq> 1 then None
      else if \<exists>k \<in> {0..<nargs}. has_adj c k \<and> in_adj_len c k \<noteq> 1 then None
      else Some (concat (map (\<lambda>k. case in_adj c k of None \<Rightarrow> []
        | Some a \<Rightarrow> [bwd_micro kMicroScaled a (seeds c) (ptr_at (c_scratch c) k) None no_fn]) [0..<nargs])))"

definition density_mask :: "nat \<Rightarrow> nat \<Rightarrow> nat" where
  "density_mask nargs variant = (if variant = 0 then 2 ^ nargs - 1 else variant mod 64)"

definition n_partials :: "nat \<Rightarrow> 'd KernelCtx \<Rightarrow> nat" where
  "n_partials k c = sum_list (map (in_len c) [0..<k])"

lemma n_partials_out_adj [simp]: "n_partials k (c\<lparr>c_out_adj := x\<rparr>) = n_partials k c"
  by (simp add: n_partials_def)

definition density_bwd :: "('d \<Rightarrow> bool) \<Rightarrow> nat \<Rightarrow> 'd::{plus,times,zero} KernelCtx \<Rightarrow> 'd heap \<Rightarrow> 'd heap" where
  "density_bwd z nargs c =
     (let mask = density_mask nargs (c_variant c); N = out_len c in
      if odd (c_variant c div 64) then
        let connected = ptr_at (c_scratch c) (nargs * N) in
        for_each [0..<nargs] (\<lambda>k.
          if even (mask div 2 ^ k) then (\<lambda>h. h)
          else on_adj (in_adj c k) (\<lambda>a.
            let col = ptr_at (c_scratch c) (k * N) in
            if in_adj_len c k = 1 \<and> N > 1 then
              (\<lambda>h. acc_add a (for_each (rev [0..<N]) (\<lambda>n acc.
                 if z (h (ptr_at connected n)) then acc
                 else acc + h (ptr_at (seeds c) n) * h (ptr_at col n)) 0) h)
            else for_each [0..<N] (\<lambda>n h.
              if z (h (ptr_at connected n)) then h
              else acc_add (ptr_at a n) (h (ptr_at (seeds c) n) * h (ptr_at col n)) h)))
      else (\<lambda>h.
        if z (h (ptr_at (c_scratch c) (n_partials nargs c))) then h
        else for_each [0..<nargs] (\<lambda>k.
          if even (mask div 2 ^ k) then (\<lambda>h. h)
          else on_adj (in_adj c k) (\<lambda>a.
            if in_len c k = 1 then
              (\<lambda>h. acc_add a (c_out_adj c * h (ptr_at (c_scratch c) (n_partials k c))) h)
            else for_each [0..<in_len c k] (\<lambda>i h.
              acc_add (ptr_at a i) (c_out_adj c * h (ptr_at (c_scratch c) (n_partials k c + i))) h))) h))"

definition density_micro :: "nat \<Rightarrow> 'd KernelCtx \<Rightarrow> 'd BwdMicro list option" where
  "density_micro nargs c =
     (let mask = density_mask nargs (c_variant c) in
      if odd (c_variant c div 64) \<or> out_len c \<noteq> 1 then None
      else if \<exists>k \<in> {0..<nargs}. odd (mask div 2 ^ k) \<and> has_adj c k \<and> in_len c k \<noteq> 1 then None
      else Some (concat (map (\<lambda>k. if even (mask div 2 ^ k) then []
        else case in_adj c k of None \<Rightarrow> []
          | Some a \<Rightarrow> [bwd_micro kMicroScaled a (seeds c) (ptr_at (c_scratch c) (n_partials k c))
                         (Some (ptr_at (c_scratch c) (n_partials nargs c))) no_fn]) [0..<nargs])))"

section \<open>The kernel table\<close>

text \<open>The kernels registered \<^verbatim>\<open>with_cached_micro\<close>. \<open>udelta\<close> gives the pullback expression of each row of the
  unary table.\<close>

definition density_rows :: "(nat \<times> nat) list" where
  "density_rows = map (\<lambda>(oc, _, n, _). (oc, n))
     (STANLI_SCALAR_DENSITY_LIST @ STANLI_INT_DENSITY_LIST @ STANLI_SCALAR_CDF_LIST
        @ STANLI_INT_CDF_LIST @ STANLI_TWO_INT_CDF_LIST)
     @ [(OP_POISSON_LOG_LPMF, 1), (OP_BERNOULLI_LOGIT_LPMF, 1), (OP_BERNOULLI_LPMF, 1),
        (OP_POISSON_LPMF, 1), (OP_NEG_BINOMIAL_2_LPMF, 2), (OP_BINOMIAL_LPMF, 1),
        (OP_BINOMIAL_LOGIT_LPMF, 1), (OP_BETA_BINOMIAL_LPMF, 2)]"

definition density_nargs :: "nat \<rightharpoonup> nat" where
  "density_nargs = map_of density_rows"

definition unary_topology :: "nat \<rightharpoonup> UnaryTopology" where
  "unary_topology = map_of (map (\<lambda>(oc, _, t). (oc, t)) STANLI_SCALAR_UNARY_LIST)"

definition eltwise_kernels :: "'d::{plus,minus,times,divide,zero,one}
    \<Rightarrow> (nat \<times> ('d KernelCtx \<Rightarrow> 'd heap \<Rightarrow> 'd heap) \<times> ('d KernelCtx \<Rightarrow> 'd BwdMicro list option)) list" where
  "eltwise_kernels two =
     [(OP_ADD, add_bwd, add_micro), (OP_SUB, sub_bwd, sub_micro), (OP_MUL, mul_bwd, mul_micro),
      (OP_NEG, negu_bwd, neg_micro), (OP_INDEX, index_bwd_ctx, index_micro),
      (OP_LOGV, unary_fn_bwd logv_delta, unary_fn_micro logv_delta),
      (OP_INV_LOGIT, unary_fn_bwd invlogit_delta, unary_fn_micro invlogit_delta),
      (OP_SQUARE, unary_fn_bwd (square_delta two), unary_fn_micro (square_delta two)),
      (OP_LOG1M, unary_fn_bwd log1m_delta, unary_fn_micro log1m_delta),
      (OP_LSE2, mix_bwd 2, mix_micro 2), (OP_LOG_DIFF_EXP, mix_bwd 2, mix_micro 2),
      (OP_LOG_MIX, mix_bwd 3, mix_micro 3)]"

definition cached_kernel :: "('d \<Rightarrow> bool) \<Rightarrow> 'd::{plus,minus,times,divide,zero,one}
    \<Rightarrow> (nat \<Rightarrow> 'd \<Rightarrow> 'd \<Rightarrow> 'd \<Rightarrow> 'd) \<Rightarrow> nat
    \<Rightarrow> (('d KernelCtx \<Rightarrow> 'd heap \<Rightarrow> 'd heap) \<times> ('d KernelCtx \<Rightarrow> 'd BwdMicro list option)) option" where
  "cached_kernel z two udelta oc =
     (case map_of (eltwise_kernels two) oc of Some k \<Rightarrow> Some k
      | None \<Rightarrow>
         (case unary_topology oc of
            Some t \<Rightarrow> Some (unary_list_bwd z (udelta oc) t, unary_list_micro (udelta oc) t)
          | None \<Rightarrow> map_option (\<lambda>n. (density_bwd z n, density_micro n)) (density_nargs oc)))"

section \<open>A bound context\<close>

text \<open>
  What \<^verbatim>\<open>make_ctx_\<close> gives an operation that does not read its own output: input adjoints lie in the
  adjoint arena apart from the output's, values and scratch lie elsewhere.
\<close>

definition bound_ctx :: "'d KernelCtx \<Rightarrow> bool" where
  "bound_ctx c \<longleftrightarrow>
     length (c_in c) = 6 \<and> length (c_in_adj c) = 6 \<and> snd (c_out_adj_vec c) = out_len c
     \<and> fst (fst (c_out c)) \<noteq> Adjoints \<and> fst (c_scratch c) \<noteq> Adjoints
     \<and> (\<forall>k \<in> {0..<6}. fst (in_data c k) \<noteq> Adjoints \<and> in_adj_len c k = in_len c k
          \<and> (case in_adj c k of None \<Rightarrow> True
             | Some a \<Rightarrow> fst a = Adjoints \<and> in_adj_len c k > 0
                 \<and> (snd (seeds c) < snd a \<or> snd a + in_adj_len c k \<le> snd (seeds c))))"

definition compat :: "'d KernelCtx \<Rightarrow> 'd heap \<Rightarrow> 'd heap \<Rightarrow> bool" where
  "compat c h h' \<longleftrightarrow> h' (seeds c) = h (seeds c) \<and> (\<forall>p. fst p \<noteq> Adjoints \<longrightarrow> h' p = h p)"

lemma compat_refl [simp]: "compat c h h"
  by (simp add: compat_def)

lemma compat_read: "compat c h h' \<Longrightarrow> fst p \<noteq> Adjoints \<Longrightarrow> h' p = h p"
  unfolding compat_def by blast

lemma bound_adj:
  assumes "bound_ctx c" "k < 6" "in_adj c k = Some a"
  shows "fst a = Adjoints" "a \<noteq> seeds c" "i < in_adj_len c k \<Longrightarrow> ptr_at a i \<noteq> seeds c"
proof -
  have a: "fst a = Adjoints" "in_adj_len c k > 0"
    "snd (seeds c) < snd a \<or> snd a + in_adj_len c k \<le> snd (seeds c)"
    using assms unfolding bound_ctx_def by force+
  then show "fst a = Adjoints" "a \<noteq> seeds c" by auto
  have "snd (ptr_at a i) \<noteq> snd (seeds c)" if "i < in_adj_len c k"
    using a(3) that by (auto simp: ptr_at_def)
  then show "ptr_at a i \<noteq> seeds c" if "i < in_adj_len c k" using that by metis
qed

lemma bound_in: "bound_ctx c \<Longrightarrow> k < 6 \<Longrightarrow> fst (in_data c k) \<noteq> Adjoints"
  by (simp add: bound_ctx_def)

lemma bound_scratch: "bound_ctx c \<Longrightarrow> fst (ptr_at (c_scratch c) i) \<noteq> Adjoints"
  by (simp add: bound_ctx_def ptr_at_def)

lemma compat_acc:
  assumes "compat c h h'" "fst p = Adjoints" "p \<noteq> seeds c"
  shows "compat c h (acc_add p x h')" "compat c h (acc_sub p x h')"
  using assms by (auto simp: compat_def acc_add_def acc_sub_def)

lemma acc_reads:
  assumes "fst p = Adjoints"
  shows "q \<noteq> p \<Longrightarrow> acc_add p x h q = h q" "q \<noteq> p \<Longrightarrow> acc_sub p y h q = h q"
    "fst q \<noteq> Adjoints \<Longrightarrow> acc_add p x h q = h q" "fst q \<noteq> Adjoints \<Longrightarrow> acc_sub p y h q = h q"
  using assms by (auto simp: acc_add_def acc_sub_def)

lemma micros_for_each:
  assumes "\<And>k h'. k \<in> set ks \<Longrightarrow> compat c h h' \<Longrightarrow>
      run_micros z (f k) h' = body k h' \<and> compat c h (body k h')"
    and "compat c h h'"
  shows "run_micros z (concat (map f ks)) h' = for_each ks body h'"
  using assms
proof (induction ks arbitrary: h')
  case (Cons k ks)
  then have "run_micros z (f k) h' = body k h'" "compat c h (body k h')" by auto
  with Cons.IH [of "body k h'"] Cons.prems(1) show ?case by (simp add: kernel_simps)
qed (simp add: kernel_simps)

section \<open>Compact pullbacks reproduce the kernels\<close>

lemma run_bwd_step_scalar:
  assumes "bound_ctx c" "out_len c = 1"
  shows "run_bwd_step b c h = b (c\<lparr>c_out_adj := h (seeds c)\<rparr>) h"
  using assms by (simp add: run_bwd_step_def bound_ctx_def)

lemma mix_reproduces:
  assumes "bound_ctx c" "mix_micro n c = Some ms" "n \<le> 6"
  shows "run_micros z ms h = run_bwd_step (mix_bwd n) c h"
proof -
  have o: "out_len c = 1"
    and ms: "ms = concat (map (\<lambda>k. case in_adj c k of None \<Rightarrow> []
        | Some a \<Rightarrow> [bwd_micro kMicroScaled a (seeds c) (ptr_at (c_scratch c) k) None no_fn]) [0..<n])"
    using assms(2) by (auto simp: mix_micro_def split: if_splits)
  let ?b = "\<lambda>k. on_adj (in_adj c k) (\<lambda>a h. acc_add a (h (seeds c) * h (ptr_at (c_scratch c) k)) h)"
  have "run_micros z ms h = for_each [0..<n] ?b h"
    unfolding ms
  proof (rule micros_for_each [where c = c and h = h])
    fix k h' assume k: "k \<in> set [0..<n]" and c: "compat c h h'"
    then show "run_micros z (case in_adj c k of None \<Rightarrow> []
        | Some a \<Rightarrow> [bwd_micro kMicroScaled a (seeds c) (ptr_at (c_scratch c) k) None no_fn]) h' = ?b k h'
        \<and> compat c h (?b k h')"
      using bound_adj [OF assms(1), of k] assms(3)
      by (auto simp: on_adj_def kernel_simps run_bwd_micro_def bwd_micro_def intro!: compat_acc
          split: option.splits)
  qed simp
  also have "\<dots> = run_bwd_step (mix_bwd n) c h"
    using run_bwd_step_scalar [OF assms(1) o] o by (simp add: mix_bwd_def)
  finally show ?thesis .
qed

lemma density_reproduces:
  assumes "bound_ctx c" "density_micro n c = Some ms" "n \<le> 6"
  shows "run_micros z ms h = run_bwd_step (density_bwd z n) c h"
proof -
  let ?m = "density_mask n (c_variant c)" and ?z = "ptr_at (c_scratch c) (n_partials n c)"
  let ?f = "\<lambda>k. if even (?m div 2 ^ k) then [] else case in_adj c k of None \<Rightarrow> []
      | Some a \<Rightarrow> [bwd_micro kMicroScaled a (seeds c) (ptr_at (c_scratch c) (n_partials k c)) (Some ?z) no_fn]"
  let ?wide = "\<exists>k \<in> {0..<n}. odd (?m div 2 ^ k) \<and> has_adj c k \<and> in_len c k \<noteq> 1"
  have dm: "density_micro n c = (if odd (c_variant c div 64) \<or> out_len c \<noteq> 1 then None
      else if ?wide then None else Some (concat (map ?f [0..<n])))"
    unfolding density_micro_def Let_def by (rule refl)
  have pick: "\<not> P \<and> \<not> Q \<and> m = x" if "(if P then None else if Q then None else Some x) = Some m" for P Q and x m :: "'b list"
    using that by (simp split: if_splits)
  note all = pick [OF assms(2) [unfolded dm]]
  have o: "out_len c = 1" and v: "even (c_variant c div 64)" using all by blast+
  have l: "\<not> ?wide" and ms: "ms = concat (map ?f [0..<n])" using all by (rule conjunct2 [THEN conjunct1], rule conjunct2 [THEN conjunct2])
  let ?b = "\<lambda>k. if even (?m div 2 ^ k) then (\<lambda>h. h) else on_adj (in_adj c k) (\<lambda>a g.
      if z (h ?z) then g else acc_add a (h (seeds c) * g (ptr_at (c_scratch c) (n_partials k c))) g)"
  have "run_micros z ms h = for_each [0..<n] ?b h"
    unfolding ms
  proof (rule micros_for_each [where c = c and h = h])
    fix k h' assume k: "k \<in> set [0..<n]" and c: "compat c h h'"
    have "h' ?z = h ?z" "h' (seeds c) = h (seeds c)"
      using c compat_read [OF c bound_scratch [OF assms(1)]] by (simp_all add: compat_def)
    with k c show "run_micros z (?f k) h' = ?b k h' \<and> compat c h (?b k h')"
      using bound_adj [OF assms(1), of k] assms(3)
      by (auto simp: on_adj_def kernel_simps run_bwd_micro_def bwd_micro_def intro!: compat_acc
          split: option.splits)
  qed simp
  also have "\<dots> = run_bwd_step (density_bwd z n) c h"
  proof (cases "z (h ?z)")
    case True
    have "for_each ks ?b g = g" for ks g
      using True by (induction ks arbitrary: g) (auto simp: on_adj_def split: option.splits)
    with True v o assms(1) show ?thesis
      by (simp add: run_bwd_step_scalar density_bwd_def n_partials_def)
  next
    case False
    let ?d = "\<lambda>k. if even (?m div 2 ^ k) then (\<lambda>h. h) else on_adj (in_adj c k) (\<lambda>a.
        if in_len c k = 1 then (\<lambda>g. acc_add a (h (seeds c) * g (ptr_at (c_scratch c) (n_partials k c))) g)
        else for_each [0..<in_len c k] (\<lambda>i g.
          acc_add (ptr_at a i) (h (seeds c) * g (ptr_at (c_scratch c) (n_partials k c + i))) g))"
    have "run_bwd_step (density_bwd z n) c h = for_each [0..<n] ?d h"
      using False v unfolding run_bwd_step_scalar [OF assms(1) o] density_bwd_def by (simp cong: if_cong)
    moreover have "for_each [0..<n] ?b h = for_each [0..<n] ?d h"
    proof (rule for_each_cong)
      fix k assume k: "k \<in> set [0..<n]"
      show "?b k = ?d k"
      proof (cases "in_adj c k")
        case (Some a)
        then have "odd (?m div 2 ^ k) \<Longrightarrow> in_len c k = 1" using l k has_adj_Some [OF Some] by auto
        with Some False show ?thesis by (simp add: on_adj_def)
      qed (simp add: on_adj_def fun_eq_iff)
    qed
    ultimately show ?thesis by simp
  qed
  finally show ?thesis .
qed

text \<open>The remaining kernels touch at most two input adjoints.\<close>

lemmas micro_defs = run_bwd_micro_def bwd_micro_def on_adj_def

lemma add_reproduces:
  assumes b: "bound_ctx c" and m: "add_micro c = Some ms"
  shows "run_micros z ms h = run_bwd_step add_bwd c h"
proof -
  have o: "out_len c = 1" and v: "c_variant c = 0"
    using m by (auto simp: add_micro_def split: if_splits)
  have l: "in_adj c k = Some a \<Longrightarrow> in_len c k = 1" if "k \<in> {0, 1}" for k a
    using m that has_adj_Some [of c k] unfolding add_micro_def by (auto split: if_splits)
  show ?thesis
    using m o v l [of 0] l [of 1] bound_adj [OF b, of 0] run_bwd_step_scalar [OF b o]
    by (cases "in_adj c 0"; cases "in_adj c 1")
      (auto simp: add_micro_def add_bwd_def kernel_simps micro_defs acc_reads split: if_splits)
qed

lemma sub_reproduces:
  assumes b: "bound_ctx c" and m: "sub_micro c = Some ms"
  shows "run_micros z ms h = run_bwd_step sub_bwd c h"
proof -
  have o: "out_len c = 1" using m by (auto simp: sub_micro_def split: if_splits)
  have l: "in_adj c k = Some a \<Longrightarrow> in_len c k = 1" if "k \<in> {0, 1}" for k a
    using m that has_adj_Some [of c k] unfolding sub_micro_def by (auto split: if_splits)
  show ?thesis
    using m o l [of 0] l [of 1] bound_adj [OF b, of 0] run_bwd_step_scalar [OF b o]
    by (cases "in_adj c 0"; cases "in_adj c 1")
      (auto simp: sub_micro_def sub_bwd_def Let_def kernel_simps micro_defs acc_reads split: if_splits)
qed

lemma mul_reproduces:
  assumes b: "bound_ctx c" and m: "mul_micro c = Some ms"
  shows "run_micros z ms h = run_bwd_step mul_bwd c h"
proof -
  have o: "out_len c = 1" using m by (auto simp: mul_micro_def split: if_splits)
  show ?thesis
    using m o bound_adj [OF b, of 0] bound_in [OF b, of 0] run_bwd_step_scalar [OF b o]
    by (cases "in_adj c 0"; cases "in_adj c 1")
      (auto simp: mul_micro_def mul_bwd_def kernel_simps micro_defs acc_reads split: if_splits)
qed

lemma neg_reproduces:
  "bound_ctx c \<Longrightarrow> neg_micro c = Some ms \<Longrightarrow> run_micros z ms h = run_bwd_step negu_bwd c h"
  by (auto simp: neg_micro_def negu_bwd_def run_bwd_step_scalar kernel_simps micro_defs
      split: if_splits option.splits)

lemma index_reproduces:
  "bound_ctx c \<Longrightarrow> index_micro c = Some ms \<Longrightarrow> run_micros z ms h = run_bwd_step index_bwd_ctx c h"
  by (auto simp: index_micro_def index_bwd_ctx_def run_bwd_step_scalar kernel_simps micro_defs
      split: if_splits option.splits)

lemma unary_fn_reproduces:
  "bound_ctx c \<Longrightarrow> unary_fn_micro d c = Some ms \<Longrightarrow> run_micros z ms h = run_bwd_step (unary_fn_bwd d) c h"
  by (auto simp: unary_fn_micro_def unary_fn_bwd_def run_bwd_step_scalar kernel_simps micro_defs
      split: if_splits option.splits)

lemma unary_list_reproduces:
  "bound_ctx c \<Longrightarrow> unary_list_micro d t c = Some ms \<Longrightarrow>
     run_micros z ms h = run_bwd_step (unary_list_bwd z d t) c h"
  by (cases t)
    (auto simp: unary_list_micro_def unary_list_bwd_def run_bwd_step_scalar kernel_simps micro_defs
      unary_has_pullback_def split: if_splits option.splits)

lemma density_nargs_le: "density_nargs oc = Some n \<Longrightarrow> n \<le> 6"
proof -
  have "list_all (\<lambda>row. snd row \<le> 6) density_rows" by code_simp
  then show "density_nargs oc = Some n \<Longrightarrow> n \<le> 6"
    by (force simp: density_nargs_def list_all_iff dest!: map_of_SomeD)
qed

lemma cached_micros:
  assumes "cached_kernel z two udelta oc = Some (bwd, micro)" and "bound_ctx c" and "micro c = Some ms"
  shows "run_micros z ms h = run_bwd_step bwd c h"
proof (cases "map_of (eltwise_kernels two) oc")
  case (Some k)
  then have "(oc, bwd, micro) \<in> set (eltwise_kernels two)"
    using assms(1) map_of_SomeD [of "eltwise_kernels two" oc] by (simp add: cached_kernel_def)
  then show ?thesis
    using assms(2,3) unfolding eltwise_kernels_def
    by (auto simp: add_reproduces sub_reproduces mul_reproduces neg_reproduces index_reproduces
        unary_fn_reproduces mix_reproduces)
next
  case None
  then show ?thesis
    using assms density_nargs_le
    by (auto simp: cached_kernel_def unary_list_reproduces density_reproduces split: option.splits)
qed

text \<open>C21. Every registered compact pullback computes exactly what its backward kernel computes, for every
  opcode in the table and every bound context: same operations on the same operands in the same
  order, so no accumulated adjoint changes by even one rounding. The contract of \<^verbatim>\<open>CachedMicroFn\<close>.\<close>

theorem cached_micro_reproduces:
  assumes "cached_kernel z two udelta oc = Some (bwd, micro)" and "bound_ctx c" and "micro c = Some ms"
  shows "run_micros z ms h = run_bwd_step bwd c h"
  using assms by (rule cached_micros)

text \<open>A bound scalar subtraction.\<close>

definition sub_ctx :: "int KernelCtx" where
  "sub_ctx = \<lparr>c_in = [((Values, 0), 1), ((Values, 1), 1)] @ replicate 4 ((Values, 0), 0),
     c_out = ((Values, 2), 1), c_variant = 0, c_scratch = (Scratch, 0), c_idata = [],
     c_in_adj = [(Some (Adjoints, 0), 1), (Some (Adjoints, 1), 1)] @ replicate 4 (None, 0),
     c_out_adj = 0, c_out_adj_vec = ((Adjoints, 2), 1)\<rparr>"

theorem cached_micro_reproduces_witness:
  "run_micros (\<lambda>x. x = 0)
     [bwd_micro kMicroAdd (Adjoints, 0) (Adjoints, 2) (Adjoints, 2) None no_fn,
      bwd_micro kMicroSub (Adjoints, 1) (Adjoints, 2) (Adjoints, 2) None no_fn] (\<lambda>p. int (snd p))
   = run_bwd_step sub_bwd sub_ctx (\<lambda>p. int (snd p))"
proof (rule cached_micro_reproduces [of "\<lambda>x. x = 0" 2 "\<lambda>_. no_fn" OP_SUB])
  show "cached_kernel (\<lambda>x. x = (0::int)) 2 (\<lambda>_. no_fn) OP_SUB = Some (sub_bwd, sub_micro)"
    by (simp add: cached_kernel_def eltwise_kernels_def)
  show "bound_ctx sub_ctx" by code_simp
  show "sub_micro sub_ctx = Some [bwd_micro kMicroAdd (Adjoints, 0) (Adjoints, 2) (Adjoints, 2) None no_fn,
      bwd_micro kMicroSub (Adjoints, 1) (Adjoints, 2) (Adjoints, 2) None no_fn]"
    by (simp add: sub_micro_def sub_ctx_def has_adj_def)
qed

end
