(* ===== verification/Plan.thy ===== *)
theory Plan
  imports Pullback
begin

text \<open>
  The executor's sweeps (\<^verbatim>\<open>runtime/src/executor.cpp\<close>): the loop unrolled by four, the backward plan that
  \<^verbatim>\<open>bind_\<close> builds by fusing runs of compact pullbacks, and the two ways \<^verbatim>\<open>reverse\<close> executes a plan. The
  plan is generic in the contexts and micro-operations; the contract it needs of them is the
  locale \<open>micro_contract\<close>, interpreted on the kernels of theory Pullback.
\<close>

section \<open>Loops unrolled by four\<close>

function unrolled :: "(nat \<Rightarrow> 's \<Rightarrow> 's) \<Rightarrow> nat \<Rightarrow> nat \<Rightarrow> 's \<Rightarrow> 's" where
  "unrolled f i n s =
     (if i + 4 \<le> n then unrolled f (i + 4) n (f (i + 3) (f (i + 2) (f (i + 1) (f i s))))
      else for_each [i..<n] f s)"
  by pat_completeness auto
termination by (relation "measure (\<lambda>(_, i, n, _). n - i)") auto

declare unrolled.simps [simp del]

section \<open>Building the plan\<close>

definition kMinMicroRun :: nat where "kMinMicroRun = 2"

record ('c, 'm) plan =
  p_bwd :: "'c option list"                   \<comment> \<open>\<open>None\<close> is a step with a null \<^verbatim>\<open>fn\<close>\<close>
  p_micro :: "'m list"
  p_runs :: "(nat \<times> nat \<times> nat) list"         \<comment> \<open>\<^verbatim>\<open>MicroRun{begin, end, at}\<close>\<close>
  p_fused :: "'c list"
  p_pending :: "'c list"
  p_start :: nat

definition close_run :: "('c, 'm) plan \<Rightarrow> ('c, 'm) plan" where
  "close_run st =
     (if p_pending st = [] then st
      else if length (p_micro st) - p_start st \<ge> kMinMicroRun then
        st\<lparr>p_runs := p_runs st @ [(p_start st, length (p_micro st), length (p_bwd st))],
           p_bwd := p_bwd st @ [None], p_fused := p_fused st @ p_pending st, p_pending := []\<rparr>
      else
        st\<lparr>p_micro := take (p_start st) (p_micro st),
           p_bwd := p_bwd st @ map Some (p_pending st), p_pending := []\<rparr>)"

text \<open>One operation of the backward walk: \<open>ms\<close> is \<open>Some\<close> when the operation is a cached primal whose kernel
  has a compact pullback that accepted the context.\<close>

definition plan_op :: "'c \<Rightarrow> 'm list option \<Rightarrow> ('c, 'm) plan \<Rightarrow> ('c, 'm) plan" where
  "plan_op c mo st = (case mo of
     Some ms \<Rightarrow> st\<lparr>p_start := (if p_pending st = [] then length (p_micro st) else p_start st),
                   p_micro := p_micro st @ ms,
                   p_pending := (if ms = [] then p_pending st else p_pending st @ [c])\<rparr>
   | None \<Rightarrow> (let st' = close_run st in st'\<lparr>p_bwd := p_bwd st' @ [Some c]\<rparr>))"

definition empty_plan :: "('c, 'm) plan" where
  "empty_plan = \<lparr>p_bwd = [], p_micro = [], p_runs = [], p_fused = [], p_pending = [], p_start = 0\<rparr>"

definition build_plan :: "('c \<Rightarrow> 'm list option) \<Rightarrow> 'c list \<Rightarrow> ('c, 'm) plan" where
  "build_plan micros cs = close_run (foldl (\<lambda>st c. plan_op c (micros c) st) empty_plan cs)"

section \<open>Executing the plan\<close>

definition run_micro_range :: "('m \<Rightarrow> 's \<Rightarrow> 's) \<Rightarrow> 'm list \<Rightarrow> nat \<Rightarrow> nat \<Rightarrow> 's \<Rightarrow> 's" where
  "run_micro_range run_micro micro b e s = foldl (\<lambda>s m. run_micro m s) s (take (e - b) (drop b micro))"

fun reverse_dense_micro :: "('c \<Rightarrow> 's \<Rightarrow> 's) \<Rightarrow> ('m \<Rightarrow> 's \<Rightarrow> 's) \<Rightarrow> 'm list
    \<Rightarrow> 'c option list \<Rightarrow> (nat \<times> nat \<times> nat) list \<Rightarrow> 's \<Rightarrow> 's" where
  "reverse_dense_micro rs rm micro (Some c # bwd) runs s = reverse_dense_micro rs rm micro bwd runs (rs c s)"
| "reverse_dense_micro rs rm micro (None # bwd) ((b, e, _) # runs) s =
     reverse_dense_micro rs rm micro bwd runs (run_micro_range rm micro b e s)"
| "reverse_dense_micro rs rm micro _ _ s = s"

definition bwd_at :: "('c \<Rightarrow> 's \<Rightarrow> 's) \<Rightarrow> 'c option list \<Rightarrow> nat \<Rightarrow> 's \<Rightarrow> 's" where
  "bwd_at rs bwd i s = (case bwd ! i of Some c \<Rightarrow> rs c s | None \<Rightarrow> s)"

fun reverse_sparse_micro :: "('c \<Rightarrow> 's \<Rightarrow> 's) \<Rightarrow> ('m \<Rightarrow> 's \<Rightarrow> 's) \<Rightarrow> 'm list
    \<Rightarrow> 'c option list \<Rightarrow> (nat \<times> nat \<times> nat) list \<Rightarrow> nat \<Rightarrow> 's \<Rightarrow> 's" where
  "reverse_sparse_micro rs rm micro bwd [] pos s = unrolled (bwd_at rs bwd) pos (length bwd) s"
| "reverse_sparse_micro rs rm micro bwd ((b, e, at) # runs) pos s =
     reverse_sparse_micro rs rm micro bwd runs (at + 1)
       (run_micro_range rm micro b e (unrolled (bwd_at rs bwd) pos at s))"

definition reverse_sweep :: "('c \<Rightarrow> 's \<Rightarrow> 's) \<Rightarrow> ('m \<Rightarrow> 's \<Rightarrow> 's) \<Rightarrow> ('c, 'm) plan \<Rightarrow> 's \<Rightarrow> 's" where
  "reverse_sweep rs rm p s =
     (if p_runs p \<noteq> [] then
        (if length (p_micro p) * 2 < length (p_bwd p)
         then reverse_sparse_micro rs rm (p_micro p) (p_bwd p) (p_runs p) 0 s
         else reverse_dense_micro rs rm (p_micro p) (p_bwd p) (p_runs p) s)
      else unrolled (bwd_at rs (p_bwd p)) 0 (length (p_bwd p)) s)"

section \<open>Unrolling\<close>

lemma for_each_append: "for_each (xs @ ys) f s = for_each ys f (for_each xs f s)"
  by (induction xs arbitrary: s) auto

lemma unrolled_for_each: "unrolled f i n s = for_each [i..<n] f s"
proof (induction f i n s rule: unrolled.induct)
  case (1 f i n s)
  show ?case
  proof (cases "i + 4 \<le> n")
    case True
    then have "[i..<n] = [i, i + 1, i + 2, i + 3] @ [i + 4..<n]"
      by (simp add: upt_conv_Cons numeral_eq_Suc)
    with 1 True show ?thesis by (simp add: unrolled.simps [of f i n s] for_each_append)
  qed (simp add: unrolled.simps)
qed

section \<open>Plans as sequences of steps and runs\<close>

abbreviation enc_bwd :: "('c + 'm list) list \<Rightarrow> 'c option list" where
  "enc_bwd E \<equiv> map (case_sum Some (\<lambda>_. None)) E"

abbreviation enc_micro :: "('c + 'm list) list \<Rightarrow> 'm list" where
  "enc_micro E \<equiv> concat (map (case_sum (\<lambda>_. []) (\<lambda>ms. ms)) E)"

fun enc_runs :: "nat \<Rightarrow> nat \<Rightarrow> ('c + 'm list) list \<Rightarrow> (nat \<times> nat \<times> nat) list" where
  "enc_runs k b [] = []"
| "enc_runs k b (Inl c # E) = enc_runs (Suc k) b E"
| "enc_runs k b (Inr ms # E) = (b, b + length ms, k) # enc_runs (Suc k) (b + length ms) E"

lemma enc_runs_append:
  "enc_runs k b (E @ E') = enc_runs k b E @ enc_runs (k + length E) (b + length (enc_micro E)) E'"
  by (induction k b E rule: enc_runs.induct) (auto simp: add.assoc)

lemma enc_runs_Inl [simp]: "enc_runs k b (map Inl cs) = []"
  by (induction cs arbitrary: k) auto

fun exec_steps :: "('c \<Rightarrow> 's \<Rightarrow> 's) \<Rightarrow> ('m \<Rightarrow> 's \<Rightarrow> 's) \<Rightarrow> ('c + 'm list) list \<Rightarrow> 's \<Rightarrow> 's" where
  "exec_steps rs rm [] s = s"
| "exec_steps rs rm (Inl c # E) s = exec_steps rs rm E (rs c s)"
| "exec_steps rs rm (Inr ms # E) s = exec_steps rs rm E (foldl (\<lambda>s m. rm m s) s ms)"

lemma exec_steps_append: "exec_steps rs rm (E @ E') s = exec_steps rs rm E' (exec_steps rs rm E s)"
  by (induction rs rm E s rule: exec_steps.induct) auto

lemma exec_steps_Inl: "exec_steps rs rm (map Inl cs) s = foldl (\<lambda>s c. rs c s) s cs"
  by (induction cs arbitrary: s) auto

lemma dense_exec:
  "drop b micro = enc_micro E \<Longrightarrow>
     reverse_dense_micro rs rm micro (enc_bwd E) (enc_runs k b E) s = exec_steps rs rm E s"
proof (induction k b E arbitrary: s rule: enc_runs.induct)
  case (3 k b ms E)
  have "drop (b + length ms) micro = drop (length ms) (drop b micro)" by (simp add: add.commute)
  then have rest: "drop (b + length ms) micro = enc_micro E" using "3.prems" by simp
  have "run_micro_range rm micro b (b + length ms) s = foldl (\<lambda>s m. rm m s) s ms"
    using "3.prems" by (simp add: run_micro_range_def)
  with "3.IH" [OF rest] show ?case by simp
qed auto

lemma for_each_snoc: "i \<le> n \<Longrightarrow> for_each [i..<Suc n] f s = f n (for_each [i..<n] f s)"
  by (simp add: for_each_append)

lemma sparse_exec:
  "bwd = B @ enc_bwd E \<Longrightarrow> length B = k \<Longrightarrow> pos \<le> k \<Longrightarrow> drop b micro = enc_micro E \<Longrightarrow>
     reverse_sparse_micro rs rm micro bwd (enc_runs k b E) pos s
       = exec_steps rs rm E (for_each [pos..<k] (bwd_at rs bwd) s)"
proof (induction k b E arbitrary: B pos s rule: enc_runs.induct)
  case (1 k b)
  then show ?case by (simp add: unrolled_for_each)
next
  case (2 k b c E)
  have "bwd_at rs bwd k s' = rs c s'" for s' using "2.prems"(1,2) by (simp add: bwd_at_def nth_append)
  with "2.IH" [of "B @ [Some c]" pos s] "2.prems" show ?case by (simp add: for_each_append)
next
  case (3 k b ms E)
  have "drop (b + length ms) micro = drop (length ms) (drop b micro)" by (simp add: add.commute)
  then have rest: "drop (b + length ms) micro = enc_micro E" using "3.prems" by simp
  have "run_micro_range rm micro b (b + length ms) s' = foldl (\<lambda>s m. rm m s) s' ms" for s'
    using "3.prems" by (simp add: run_micro_range_def)
  with "3.IH" [of "B @ [None]" "Suc k"] "3.prems" rest show ?case by (simp add: unrolled_for_each)
qed

text \<open>A finished plan runs as the sequence it encodes.\<close>

lemma reverse_sweep_exec:
  assumes "p_bwd p = enc_bwd E" "p_micro p = enc_micro E" "p_runs p = enc_runs 0 0 E"
  shows "reverse_sweep rs rm p s = exec_steps rs rm E s"
proof (cases "p_runs p = []")
  case True
  have "exec_steps rs rm E s = reverse_sparse_micro rs rm (p_micro p) (p_bwd p) [] 0 s"
    using sparse_exec [of "p_bwd p" "[]" E 0 0 0 "p_micro p" rs rm s] assms True by simp
  with True show ?thesis by (simp add: reverse_sweep_def)
next
  case False
  then show ?thesis
    using sparse_exec [of "p_bwd p" "[]" E 0 0 0 "p_micro p" rs rm s]
      dense_exec [of 0 "p_micro p" E rs rm 0 s] assms
    by (simp add: reverse_sweep_def)
qed

section \<open>The contract of compact pullbacks\<close>

lemma closed_plan:
  assumes "p_bwd st = enc_bwd E" "p_micro st = enc_micro E @ M" "p_runs st = enc_runs 0 0 E"
    "if p_pending st = [] then M = [] else p_start st = length (enc_micro E)"
    "\<And>s. foldl (\<lambda>s m. run_micro m s) s M = foldl (\<lambda>s c. run_step c s) s (p_pending st)"
    "\<And>s. foldl (\<lambda>s c. run_step c s) (exec_steps run_step run_micro E s) (p_pending st)
        = foldl (\<lambda>s c. run_step c s) s cs"
  shows "\<exists>E'. p_bwd (close_run st) = enc_bwd E' \<and> p_micro (close_run st) = enc_micro E'
    \<and> p_runs (close_run st) = enc_runs 0 0 E' \<and> p_pending (close_run st) = []
    \<and> (\<forall>s. exec_steps run_step run_micro E' s = foldl (\<lambda>s c. run_step c s) s cs)"
proof (cases "p_pending st = []")
  case True
  with assms show ?thesis by (intro exI [of _ E]) (simp add: close_run_def)
next
  case False
  show ?thesis
  proof (cases "length (p_micro st) - p_start st \<ge> kMinMicroRun")
    case True
    with False assms show ?thesis
      by (intro exI [of _ "E @ [Inr M]"])
        (simp add: close_run_def enc_runs_append exec_steps_append)
  next
    case short: False
    have none: "concat (map (case_sum (\<lambda>_. []) (\<lambda>ms. ms)) (map Inl xs)) = []" for xs :: "'a list"
      by (induction xs) auto
    have some: "map (case_sum Some (\<lambda>_. None)) (map Inl xs) = map Some xs" for xs :: "'a list"
      by (induction xs) auto
    from short False assms show ?thesis
      by (intro exI [of _ "E @ map Inl (p_pending st)"])
        (simp add: close_run_def enc_runs_append exec_steps_append exec_steps_Inl o_def)
  qed
qed


locale micro_contract =
  fixes run_step :: "'c \<Rightarrow> 's \<Rightarrow> 's" and run_micro :: "'m \<Rightarrow> 's \<Rightarrow> 's"
    and ok :: "'c \<Rightarrow> bool" and micros :: "'c \<Rightarrow> 'm list option"
  assumes reproduces: "ok c \<Longrightarrow> micros c = Some ms \<Longrightarrow> foldl (\<lambda>s m. run_micro m s) s ms = run_step c s"
begin

lemma build_inv:
  assumes "\<forall>c \<in> set cs. ok c" and "st = foldl (\<lambda>st c. plan_op c (micros c) st) empty_plan cs"
  shows "\<exists>E M. p_bwd st = enc_bwd E \<and> p_micro st = enc_micro E @ M \<and> p_runs st = enc_runs 0 0 E
    \<and> (if p_pending st = [] then M = [] else p_start st = length (enc_micro E))
    \<and> (\<forall>s. foldl (\<lambda>s m. run_micro m s) s M = foldl (\<lambda>s c. run_step c s) s (p_pending st))
    \<and> (\<forall>s. foldl (\<lambda>s c. run_step c s) (exec_steps run_step run_micro E s) (p_pending st)
          = foldl (\<lambda>s c. run_step c s) s cs)"
  using assms
proof (induction cs arbitrary: st rule: rev_induct)
  case Nil
  then show ?case by (intro exI [of _ "[]"]) (simp add: empty_plan_def)
next
  case (snoc c cs)
  let ?st = "foldl (\<lambda>st c. plan_op c (micros c) st) empty_plan cs"
  obtain E M where inv: "p_bwd ?st = enc_bwd E" "p_micro ?st = enc_micro E @ M" "p_runs ?st = enc_runs 0 0 E"
    "if p_pending ?st = [] then M = [] else p_start ?st = length (enc_micro E)"
    "\<And>s. foldl (\<lambda>s m. run_micro m s) s M = foldl (\<lambda>s c. run_step c s) s (p_pending ?st)"
    "\<And>s. foldl (\<lambda>s c. run_step c s) (exec_steps run_step run_micro E s) (p_pending ?st)
        = foldl (\<lambda>s c. run_step c s) s cs"
    using snoc.IH [of ?st] snoc.prems(1) by auto
  have st: "st = plan_op c (micros c) ?st" using snoc.prems(2) by simp
  show ?case
  proof (cases "micros c")
    case (Some ms)
    have run: "foldl (\<lambda>s m. run_micro m s) s ms = run_step c s" for s
      using reproduces Some snoc.prems(1) by simp
    have "ms = [] \<Longrightarrow> run_step c s = s" for s using run [of s] by simp
    with inv Some st run show ?thesis
      by (intro exI [of _ E] exI [of _ "M @ ms"]) (auto simp: plan_op_def)
  next
    case None
    let ?closed = "close_run ?st"
    have "\<exists>E'. p_bwd ?closed = enc_bwd E' \<and> p_micro ?closed = enc_micro E' \<and> p_runs ?closed = enc_runs 0 0 E'
        \<and> p_pending ?closed = [] \<and> (\<forall>s. exec_steps run_step run_micro E' s = foldl (\<lambda>s c. run_step c s) s cs)"
      using closed_plan [OF inv] by blast
    then obtain E' where "p_bwd ?closed = enc_bwd E'" "p_micro ?closed = enc_micro E'" "p_runs ?closed = enc_runs 0 0 E'"
      "p_pending ?closed = []" "\<And>s. exec_steps run_step run_micro E' s = foldl (\<lambda>s c. run_step c s) s cs" by blast
    with None st show ?thesis
      by (intro exI [of _ "E' @ [Inl c]"] exI [of _ "[]"])
        (simp add: plan_op_def enc_runs_append exec_steps_append)
  qed
qed

theorem sweep_in_order:
  assumes "\<forall>c \<in> set cs. ok c"
  shows "reverse_sweep run_step run_micro (build_plan micros cs) s = foldl (\<lambda>s c. run_step c s) s cs"
proof -
  let ?st = "foldl (\<lambda>st c. plan_op c (micros c) st) empty_plan cs"
  obtain E M where "p_bwd ?st = enc_bwd E" "p_micro ?st = enc_micro E @ M" "p_runs ?st = enc_runs 0 0 E"
    "if p_pending ?st = [] then M = [] else p_start ?st = length (enc_micro E)"
    "\<And>s. foldl (\<lambda>s m. run_micro m s) s M = foldl (\<lambda>s c. run_step c s) s (p_pending ?st)"
    "\<And>s. foldl (\<lambda>s c. run_step c s) (exec_steps run_step run_micro E s) (p_pending ?st)
        = foldl (\<lambda>s c. run_step c s) s cs"
    using build_inv [OF assms refl] by blast
  from closed_plan [OF this] obtain E' where E': "p_bwd (close_run ?st) = enc_bwd E'"
    "p_micro (close_run ?st) = enc_micro E'" "p_runs (close_run ?st) = enc_runs 0 0 E'"
    "\<forall>s. exec_steps run_step run_micro E' s = foldl (\<lambda>s c. run_step c s) s cs" by blast
  show ?thesis
    unfolding build_plan_def reverse_sweep_exec [OF E'(1-3)] using E'(4) by blast
qed

end

section \<open>The kernels of theory Pullback meet the contract\<close>

text \<open>A bound operation: its opcode, whether it is a cached primal without a second output, and its
  context. \<open>other\<close> are the backward kernels without a compact form.\<close>

type_synonym 'd bound_op = "nat \<times> bool \<times> 'd KernelCtx"

definition op_bwd :: "('d \<Rightarrow> bool) \<Rightarrow> 'd::{plus,minus,times,divide,zero,one} \<Rightarrow> (nat \<Rightarrow> 'd \<Rightarrow> 'd \<Rightarrow> 'd \<Rightarrow> 'd)
    \<Rightarrow> (nat \<Rightarrow> 'd KernelCtx \<Rightarrow> 'd heap \<Rightarrow> 'd heap) \<Rightarrow> 'd bound_op \<Rightarrow> 'd heap \<Rightarrow> 'd heap" where
  "op_bwd z two udelta other x = (case x of (oc, cached, c) \<Rightarrow>
     run_bwd_step (case cached_kernel z two udelta oc of Some (b, m) \<Rightarrow> b | None \<Rightarrow> other oc) c)"

definition op_micros :: "('d \<Rightarrow> bool) \<Rightarrow> 'd::{plus,minus,times,divide,zero,one} \<Rightarrow> (nat \<Rightarrow> 'd \<Rightarrow> 'd \<Rightarrow> 'd \<Rightarrow> 'd)
    \<Rightarrow> 'd bound_op \<Rightarrow> 'd BwdMicro list option" where
  "op_micros z two udelta x = (case x of (oc, cached, c) \<Rightarrow>
     if cached then (case cached_kernel z two udelta oc of Some (b, m) \<Rightarrow> m c | None \<Rightarrow> None) else None)"

interpretation kp: micro_contract "op_bwd z two udelta other" "run_bwd_micro z"
  "\<lambda>x. op_micros z two udelta x \<noteq> None \<longrightarrow> bound_ctx (snd (snd x))" "op_micros z two udelta"
proof
  fix x ms h
  assume "op_micros z two udelta x \<noteq> None \<longrightarrow> bound_ctx (snd (snd x))" and "op_micros z two udelta x = Some ms"
  then show "foldl (\<lambda>s m. run_bwd_micro z m s) h ms = op_bwd z two udelta other x h"
    using cached_micros [of z two udelta]
    by (auto simp: op_micros_def op_bwd_def run_micros_def split: if_splits option.splits prod.splits)
qed

text \<open>C22. The reverse sweep over the fused plan, by the sparse or the dense routine or by the unrolled loop,
  whichever \<^verbatim>\<open>reverse\<close> picks, has exactly the effect of calling every backward kernel once in reverse
  operation order: fusing runs of micro-operations, dropping empty ones and un-fusing short runs
  changes nothing. Something is assumed only of the contexts of cached primals whose compact pullback accepted them: as \<^verbatim>\<open>bind_\<close>
  lays them out, values and scratch lie outside the adjoint arena, the adjoint of each active input is not empty and does
  not meet the operation's own output adjoint. Nothing is assumed of the contexts of the other operations, so stores into
  their own operand and empty inputs are covered there; their backward kernels are arbitrary.\<close>

theorem reverse_sweep_in_order:
  assumes "\<forall>x \<in> set xs. op_micros z two udelta x \<noteq> None \<longrightarrow> bound_ctx (snd (snd x))"
  shows "reverse_sweep (op_bwd z two udelta other) (run_bwd_micro z) (build_plan (op_micros z two udelta) xs) h
    = foldl (\<lambda>h x. op_bwd z two udelta other x h) h xs"
  using assms by (rule kp.sweep_in_order)

text \<open>A destructive store, whose first input is its output, among the operations of the witness.\<close>

definition store_ctx :: "int KernelCtx" where
  "store_ctx = sub_ctx\<lparr>c_in_adj := [(Some (Adjoints, 2), 1), (Some (Adjoints, 1), 1)] @ replicate 4 (None, 0)\<rparr>"

theorem reverse_sweep_in_order_witness:
  "reverse_sweep (op_bwd (\<lambda>x. x = 0) 2 (\<lambda>_. no_fn) (\<lambda>_ _ h. h)) (run_bwd_micro (\<lambda>x. x = 0))
     (build_plan (op_micros (\<lambda>x. x = 0) 2 (\<lambda>_. no_fn)) [(OP_SUB, True, sub_ctx), (OP_SET_INDEX_INPLACE, False, store_ctx), (OP_SUB, True, sub_ctx)])
     (\<lambda>p. int (snd p))
   = foldl (\<lambda>h x. op_bwd (\<lambda>x. x = 0) 2 (\<lambda>_. no_fn) (\<lambda>_ _ h. h) x h) (\<lambda>p. int (snd p))
       [(OP_SUB, True, sub_ctx), (OP_SET_INDEX_INPLACE, False, store_ctx), (OP_SUB, True, sub_ctx)]"
proof (rule reverse_sweep_in_order)
  have "bound_ctx sub_ctx" by code_simp
  then show "\<forall>x \<in> set [(OP_SUB, True, sub_ctx), (OP_SET_INDEX_INPLACE, False, store_ctx), (OP_SUB, True, sub_ctx)].
      op_micros (\<lambda>x. x = 0) 2 (\<lambda>_. no_fn) x \<noteq> None \<longrightarrow> bound_ctx (snd (snd x))"
    by (simp add: op_micros_def)
qed

text \<open>C33. The dispatch loop unrolled by four calls kernels \<open>i\<close> to \<open>n - 1\<close> once each, in order, whatever the number
  left over.\<close>

theorem unrolled_in_order: "unrolled f i n s = for_each [i..<n] f s"
  by (rule unrolled_for_each)

end
