(* ===== verification/Executor.thy ===== *)
theory Executor
  imports Plan Layout
begin

text \<open>
  The executor as a state machine (\<^verbatim>\<open>runtime/src/executor.cpp\<close>, class \<^verbatim>\<open>Executor\<close> of \<^verbatim>\<open>graph.hpp\<close>): when a
  reverse sweep is allowed, and the copy-on-write sharing of data
  buffers between an executor and its clones.
\<close>

section \<open>Forward and reverse\<close>

text \<open>
  The sweeps themselves are parameters here: \<open>fwd vo v\<close> runs the bound forwards on the value arena
  under the thread's values-only flag, \<open>bwd v a\<close> the backward plan on the adjoints; the Boolean says
  whether a kernel threw.
\<close>

record ('v, 'd) Exec =
  e_values :: 'v
  e_adjoints :: "'d list"
  e_reverse_ready :: bool
  e_n_grad_evals :: nat

record ('v, 'd) sweeps =
  sw_fwd :: "bool \<Rightarrow> 'v \<Rightarrow> 'v \<times> bool"
  sw_bwd :: "'v \<Rightarrow> 'd list \<Rightarrow> 'd list \<times> bool"
  sw_result :: "'v \<Rightarrow> 'd"
  sw_result_adjoint :: nat
  sw_n_params :: nat
  sw_n_adjoints :: nat

definition run_forward_only :: "('v, 'd) sweeps \<Rightarrow> bool \<Rightarrow> ('v, 'd) Exec \<Rightarrow> ('v, 'd) Exec \<times> (std_error + unit)" where
  "run_forward_only S vo ex =
     (let (v, ok) = sw_fwd S vo (e_values ex) in
      (ex\<lparr>e_values := v, e_reverse_ready := False\<rparr>, if ok then Inr () else Inl KernelError))"

definition forward :: "('v, 'd) sweeps \<Rightarrow> bool \<Rightarrow> ('v, 'd) Exec \<Rightarrow> ('v, 'd) Exec \<times> (std_error + 'd)" where
  "forward S vo ex = (case run_forward_only S vo ex of
     (ex', Inl e) \<Rightarrow> (ex', Inl e)
   | (ex', Inr _) \<Rightarrow> (ex'\<lparr>e_reverse_ready := \<not> vo\<rparr>, Inr (sw_result S (e_values ex'))))"

definition forward_value_only :: "('v, 'd) sweeps \<Rightarrow> ('v, 'd) Exec \<Rightarrow> ('v, 'd) Exec \<times> (std_error + 'd)" where
  "forward_value_only S ex = forward S True ex"

definition reverse_op :: "('v, 'd::zero) sweeps \<Rightarrow> 'd \<Rightarrow> ('v, 'd) Exec \<Rightarrow> ('v, 'd) Exec \<times> (std_error + 'd list)" where
  "reverse_op S seed ex =
     (if \<not> e_reverse_ready ex then (ex, Inl (LogicError ''reverse requires a fresh forward''))
      else
        let (a, ok) = sw_bwd S (e_values ex) ((replicate (sw_n_adjoints S) 0)[sw_result_adjoint S := seed])
        in (ex\<lparr>e_reverse_ready := False, e_adjoints := a\<rparr>,
            if ok then Inr (take (sw_n_params S) a) else Inl KernelError))"

definition gradient :: "('v, 'd::{zero,one}) sweeps \<Rightarrow> ('v, 'd) Exec \<Rightarrow> ('v, 'd) Exec \<times> (std_error + 'd \<times> 'd list)" where
  "gradient S ex =
     (let ex1 = ex\<lparr>e_n_grad_evals := e_n_grad_evals ex + 1\<rparr> in
      case forward S False ex1 of
        (ex2, Inl e) \<Rightarrow> (ex2, Inl e)
      | (ex2, Inr v) \<Rightarrow>
         (case reverse_op S 1 ex2 of
            (ex3, Inl e) \<Rightarrow> (ex3, Inl e)
          | (ex3, Inr g) \<Rightarrow> (ex3, Inr (v, g))))"

lemmas exec_defs = run_forward_only_def forward_def forward_value_only_def reverse_op_def gradient_def Let_def

text \<open>The public operations as events; \<open>vo\<close> is the ambient values-only flag of the calling thread.\<close>

datatype 'd exec_event = RunForwardOnly bool | Forward bool | ForwardValueOnly | Reverse 'd | Gradient

definition exec_step :: "('v, 'd::{zero,one}) sweeps \<Rightarrow> 'd exec_event \<Rightarrow> ('v, 'd) Exec \<Rightarrow> ('v, 'd) Exec \<times> bool" where
  "exec_step S ev ex = (case ev of
     RunForwardOnly vo \<Rightarrow> (case run_forward_only S vo ex of (ex', r) \<Rightarrow> (ex', isl r))
   | Forward vo \<Rightarrow> (case forward S vo ex of (ex', r) \<Rightarrow> (ex', isl r))
   | ForwardValueOnly \<Rightarrow> (case forward_value_only S ex of (ex', r) \<Rightarrow> (ex', isl r))
   | Reverse seed \<Rightarrow> (case reverse_op S seed ex of (ex', r) \<Rightarrow> (ex', isl r))
   | Gradient \<Rightarrow> (case gradient S ex of (ex', r) \<Rightarrow> (ex', isl r)))"

fun exec_trace :: "('v, 'd::{zero,one}) sweeps \<Rightarrow> 'd exec_event list \<Rightarrow> ('v, 'd) Exec \<Rightarrow> ('v, 'd) Exec" where
  "exec_trace S [] ex = ex"
| "exec_trace S (ev # evs) ex = exec_trace S evs (fst (exec_step S ev ex))"

lemma exec_trace_snoc: "exec_trace S (evs @ [ev]) ex = fst (exec_step S ev (exec_trace S evs ex))"
  by (induction S evs ex rule: exec_trace.induct) auto

lemma ready_after_step:
  "e_reverse_ready (fst (exec_step S ev ex)) \<longleftrightarrow>
     ev = Forward False \<and> snd (sw_fwd S False (e_values ex))"
  by (cases ev) (auto simp: exec_step_def exec_defs split: prod.splits sum.splits)

text \<open>C24. After any sequence of operations on a fresh executor, a reverse sweep is admitted exactly when the
  last operation was a differentiable forward whose kernels all returned; in every other history
  it is refused with the documented error and changes nothing.\<close>

theorem reverse_only_after_fresh_forward:
  assumes "\<not> e_reverse_ready ex"
  shows "(case reverse_op S seed (exec_trace S evs ex) of (ex', r) \<Rightarrow>
           r = Inl (LogicError ''reverse requires a fresh forward'') \<and> ex' = exec_trace S evs ex)
    \<longleftrightarrow> \<not> (\<exists>evs0. evs = evs0 @ [Forward False]
          \<and> snd (sw_fwd S False (e_values (exec_trace S evs0 ex))))"
proof -
  have ready: "e_reverse_ready (exec_trace S evs ex) \<longleftrightarrow>
      (\<exists>evs0. evs = evs0 @ [Forward False] \<and> snd (sw_fwd S False (e_values (exec_trace S evs0 ex))))"
    using assms by (cases evs rule: rev_cases) (auto simp: exec_trace_snoc ready_after_step)
  show ?thesis
    unfolding ready [symmetric] by (auto simp: exec_defs split: prod.splits)
qed

text \<open>Sweeps over a one-slot program that doubles its parameter.\<close>

definition double_sweeps :: "(int, int) sweeps" where
  "double_sweeps = \<lparr>sw_fwd = (\<lambda>vo v. (v, v \<ge> 0)), sw_bwd = (\<lambda>v a. ([2 * a ! 1, a ! 1], True)),
     sw_result = (\<lambda>v. 2 * v), sw_result_adjoint = 1, sw_n_params = 1, sw_n_adjoints = 2\<rparr>"

definition idle_exec :: "(int, int) Exec" where
  "idle_exec = \<lparr>e_values = 3, e_adjoints = [0, 0], e_reverse_ready = False, e_n_grad_evals = 0\<rparr>"

theorem reverse_only_after_fresh_forward_witness:
  "(case reverse_op double_sweeps 1 (exec_trace double_sweeps [Forward False, ForwardValueOnly] idle_exec) of (ex', r) \<Rightarrow>
      r = Inl (LogicError ''reverse requires a fresh forward'')
      \<and> ex' = exec_trace double_sweeps [Forward False, ForwardValueOnly] idle_exec)
   \<longleftrightarrow> \<not> (\<exists>evs0. [Forward False, ForwardValueOnly] = evs0 @ [Forward False]
        \<and> snd (sw_fwd double_sweeps False (e_values (exec_trace double_sweeps evs0 idle_exec))))"
  by (rule reverse_only_after_fresh_forward) (simp add: idle_exec_def)

section \<open>Shared data buffers\<close>

text \<open>
  Executors hold their unwritten slots in a reference-counted buffer. The state is the live
  executors (by number; \<open>None\<close> is a destroyed one), the buffers, and the writable pointers handed out
  by \<^verbatim>\<open>value_ptr\<close>, each with the executor that handed it out.
\<close>

record holder =
  h_data :: nat            \<comment> \<open>\<^verbatim>\<open>data_\<close>, by buffer number\<close>
  h_exposed :: bool        \<comment> \<open>\<^verbatim>\<open>data_pointer_exposed_\<close>\<close>

record 'd pool =
  holders :: "holder option list"
  buffers :: "'d list list"
  pointers :: "(nat \<times> nat) list"     \<comment> \<open>(executor, buffer)\<close>

definition holder_at :: "'d pool \<Rightarrow> nat \<Rightarrow> holder option" where
  "holder_at P i = (if i < length (holders P) then holders P ! i else None)"

definition use_count :: "'d pool \<Rightarrow> nat \<Rightarrow> nat" where
  "use_count P b = length (filter (\<lambda>h. case h of Some h \<Rightarrow> h_data h = b | None \<Rightarrow> False) (holders P))"

definition data_of :: "'d pool \<Rightarrow> nat \<Rightarrow> 'd list option" where
  "data_of P i = map_option (\<lambda>h. buffers P ! h_data h) (holder_at P i)"

definition bind_new :: "'d list \<Rightarrow> 'd pool \<Rightarrow> 'd pool" where
  "bind_new xs P = P\<lparr>holders := holders P @ [Some \<lparr>h_data = length (buffers P), h_exposed = False\<rparr>],
                     buffers := buffers P @ [xs]\<rparr>"

definition clone_exec :: "nat \<Rightarrow> 'd pool \<Rightarrow> 'd pool" where
  "clone_exec i P = (case holder_at P i of None \<Rightarrow> P
   | Some h \<Rightarrow> if h_exposed h then bind_new (buffers P ! h_data h) P
               else P\<lparr>holders := holders P @ [Some \<lparr>h_data = h_data h, h_exposed = False\<rparr>]\<rparr>)"

definition detach_data :: "nat \<Rightarrow> 'd pool \<Rightarrow> 'd pool" where
  "detach_data i P = (case holder_at P i of None \<Rightarrow> P
   | Some h \<Rightarrow> if use_count P (h_data h) = 1 then P
               else P\<lparr>holders := (holders P)[i := Some (h\<lparr>h_data := length (buffers P)\<rparr>)],
                      buffers := buffers P @ [buffers P ! h_data h]\<rparr>)"

definition value_ptr :: "nat \<Rightarrow> 'd pool \<Rightarrow> 'd pool" where
  "value_ptr i P = (let P' = detach_data i P in case holder_at P' i of None \<Rightarrow> P'
   | Some h \<Rightarrow> P'\<lparr>holders := (holders P')[i := Some (h\<lparr>h_exposed := True\<rparr>)],
                  pointers := pointers P' @ [(i, h_data h)]\<rparr>)"

definition set_values :: "nat \<Rightarrow> nat \<Rightarrow> 'd list \<Rightarrow> 'd pool \<Rightarrow> 'd pool" where
  "set_values i off xs P = (let P' = detach_data i P in case holder_at P' i of None \<Rightarrow> P'
   | Some h \<Rightarrow> P'\<lparr>buffers := (buffers P')[h_data h := store (buffers P' ! h_data h) (int off) xs]\<rparr>)"

definition write_through :: "nat \<Rightarrow> nat \<Rightarrow> 'd list \<Rightarrow> 'd pool \<Rightarrow> 'd pool" where
  "write_through k off xs P = (case pointers P ! k of (i, b) \<Rightarrow>
     P\<lparr>buffers := (buffers P)[b := store (buffers P ! b) (int off) xs]\<rparr>)"

definition destroy_exec :: "nat \<Rightarrow> 'd pool \<Rightarrow> 'd pool" where
  "destroy_exec i P = P\<lparr>holders := (holders P)[i := None]\<rparr>"

text \<open>Steps of a program that uses a pointer only while its executor lives. The label is the executor a
  step belongs to; a clone and a new executor belong to the executor they create.\<close>

inductive pool_step :: "'d pool \<Rightarrow> nat \<Rightarrow> 'd pool \<Rightarrow> bool" where
  step_bind: "pool_step P (length (holders P)) (bind_new xs P)"
| step_clone: "holder_at P i = Some h \<Longrightarrow> pool_step P (length (holders P)) (clone_exec i P)"
| step_ptr: "holder_at P i = Some h \<Longrightarrow> pool_step P i (value_ptr i P)"
| step_set: "holder_at P i = Some h \<Longrightarrow> off + length xs \<le> length (buffers P ! h_data h) \<Longrightarrow>
    pool_step P i (set_values i off xs P)"
| step_write: "k < length (pointers P) \<Longrightarrow> pointers P ! k = (i, b) \<Longrightarrow> holder_at P i = Some h \<Longrightarrow>
    off + length xs \<le> length (buffers P ! b) \<Longrightarrow> pool_step P i (write_through k off xs P)"
| step_destroy: "holder_at P i = Some h \<Longrightarrow> pool_step P i (destroy_exec i P)"

inductive pool_reachable :: "'d pool \<Rightarrow> bool" where
  pool_empty: "pool_reachable \<lparr>holders = [], buffers = [], pointers = []\<rparr>"
| pool_more: "pool_reachable P \<Longrightarrow> pool_step P i P' \<Longrightarrow> pool_reachable P'"

text \<open>Every live executor names a buffer; a pointer of a live executor names its current buffer, the
  executor is marked exposed, and nobody else holds that buffer.\<close>

definition pool_inv :: "'d pool \<Rightarrow> bool" where
  "pool_inv P \<longleftrightarrow>
     (\<forall>i h. holder_at P i = Some h \<longrightarrow> h_data h < length (buffers P))
     \<and> (\<forall>i b h. (i, b) \<in> set (pointers P) \<longrightarrow> holder_at P i = Some h \<longrightarrow> h_exposed h \<and> h_data h = b)
     \<and> (\<forall>i b. (i, b) \<in> set (pointers P) \<longrightarrow> i < length (holders P))
     \<and> (\<forall>i j h h'. holder_at P i = Some h \<longrightarrow> holder_at P j = Some h' \<longrightarrow> h_exposed h \<longrightarrow>
          h_data h = h_data h' \<longrightarrow> i = j)"

lemma holder_at_simps [simp]:
  "holder_at (P\<lparr>holders := holders P @ [x]\<rparr>) i = (if i = length (holders P) then x else holder_at P i)"
  "holder_at (P\<lparr>holders := (holders P)[j := x]\<rparr>) i
     = (if i = j \<and> j < length (holders P) then x else holder_at P i)"
  "holder_at (P\<lparr>buffers := bs\<rparr>) = holder_at P"
  "holder_at (P\<lparr>pointers := ps\<rparr>) = holder_at P"
  "holder_at (P\<lparr>holders := hs, buffers := bs\<rparr>) = holder_at (P\<lparr>holders := hs\<rparr>)"
  "holder_at (P\<lparr>holders := hs, pointers := ps\<rparr>) = holder_at (P\<lparr>holders := hs\<rparr>)"
  by (auto simp: holder_at_def nth_append fun_eq_iff)

lemma holder_at_less: "holder_at P i = Some h \<Longrightarrow> i < length (holders P)"
  by (simp add: holder_at_def split: if_splits)

lemma use_count_card: "use_count P b = card {i. \<exists>h. holder_at P i = Some h \<and> h_data h = b}"
proof -
  have "{i. i < length (holders P) \<and> (case holders P ! i of Some h \<Rightarrow> h_data h = b | None \<Rightarrow> False)}
      = {i. \<exists>h. holder_at P i = Some h \<and> h_data h = b}"
    by (auto simp: holder_at_def split: option.splits if_splits)
  then show ?thesis by (simp add: use_count_def length_filter_conv_card)
qed

lemma use_count_1:
  assumes "holder_at P i = Some h"
  shows "use_count P (h_data h) = 1 \<longleftrightarrow> (\<forall>j h'. holder_at P j = Some h' \<and> h_data h' = h_data h \<longrightarrow> j = i)"
proof -
  let ?S = "{j. \<exists>h'. holder_at P j = Some h' \<and> h_data h' = h_data h}"
  have i: "i \<in> ?S" using assms by auto
  have "card ?S = 1 \<longleftrightarrow> ?S = {i}"
  proof
    assume "card ?S = 1"
    then obtain x where "?S = {x}" by (rule card_1_singletonE)
    with i show "?S = {i}" by (metis singletonD)
  next
    assume "?S = {i}"
    then show "card ?S = 1" by simp
  qed
  then show ?thesis using i by (auto simp: use_count_card)
qed

lemma inv_facts:
  assumes "pool_inv P"
  shows "holder_at P i = Some h \<Longrightarrow> h_data h < length (buffers P)"
    and "(i, b) \<in> set (pointers P) \<Longrightarrow> holder_at P i = Some h \<Longrightarrow> h_exposed h \<and> h_data h = b"
    and "(i, b) \<in> set (pointers P) \<Longrightarrow> i < length (holders P)"
    and "holder_at P i = Some h \<Longrightarrow> holder_at P j = Some h' \<Longrightarrow> h_exposed h \<Longrightarrow> h_data h = h_data h' \<Longrightarrow> i = j"
  using assms unfolding pool_inv_def by blast+

lemma bind_new_inv:
  assumes "pool_inv P"
  shows "pool_inv (bind_new xs P)"
    and "j \<noteq> length (holders P) \<Longrightarrow> data_of (bind_new xs P) j = data_of P j"
proof -
  have fresh: "holder_at P i = Some h \<Longrightarrow> h_data h \<noteq> length (buffers P)" for i h
    using inv_facts(1) [OF assms, of i h] by auto
  show "pool_inv (bind_new xs P)"
    unfolding pool_inv_def bind_new_def
    using inv_facts [OF assms] fresh
    by (auto simp: less_Suc_eq split: if_splits) (metis less_irrefl)+
  show "j \<noteq> length (holders P) \<Longrightarrow> data_of (bind_new xs P) j = data_of P j"
    using inv_facts(1) [OF assms, of j]
    by (auto simp: data_of_def bind_new_def nth_append split: option.splits)
      (cases "holder_at P j"; auto)
qed

lemma detach_inv:
  assumes inv: "pool_inv P" and h: "holder_at P i = Some h"
  shows "pool_inv (detach_data i P)" "pointers (detach_data i P) = pointers P"
    "length (holders (detach_data i P)) = length (holders P)"
    "data_of (detach_data i P) j = data_of P j"
    "\<exists>h'. holder_at (detach_data i P) i = Some h'
       \<and> (\<forall>j h''. holder_at (detach_data i P) j = Some h'' \<and> h_data h'' = h_data h' \<longrightarrow> j = i)
       \<and> buffers (detach_data i P) ! h_data h' = buffers P ! h_data h"
proof -
  have i: "i < length (holders P)" by (rule holder_at_less [OF h])
  have "pool_inv (detach_data i P) \<and> pointers (detach_data i P) = pointers P
    \<and> length (holders (detach_data i P)) = length (holders P)
    \<and> data_of (detach_data i P) j = data_of P j
    \<and> (\<exists>h'. holder_at (detach_data i P) i = Some h'
       \<and> (\<forall>j h''. holder_at (detach_data i P) j = Some h'' \<and> h_data h'' = h_data h' \<longrightarrow> j = i)
       \<and> buffers (detach_data i P) ! h_data h' = buffers P ! h_data h)"
  proof (cases "use_count P (h_data h) = 1")
    case True
    then show ?thesis using use_count_1 [OF h] inv h by (auto simp: detach_data_def)
  next
    case False
    have not_exposed: "\<not> h_exposed h"
    proof
      assume "h_exposed h"
      then have "use_count P (h_data h) = 1"
        unfolding use_count_1 [OF h] using inv_facts(4) [OF inv h] by metis
      with False show False by simp
    qed
    have no_ptr: "(i, b) \<notin> set (pointers P)" for b
      using inv_facts(2) [OF inv _ h] not_exposed by blast
    have fresh: "holder_at P j = Some h' \<Longrightarrow> h_data h' < length (buffers P)" for j h'
      by (rule inv_facts(1) [OF inv])
    have d: "detach_data i P = P\<lparr>holders := (holders P)[i := Some (h\<lparr>h_data := length (buffers P)\<rparr>)],
        buffers := buffers P @ [buffers P ! h_data h]\<rparr>"
      using False h by (simp add: detach_data_def)
    have "pool_inv (detach_data i P)"
      unfolding pool_inv_def d
      using fresh inv_facts [OF inv] i not_exposed no_ptr
      by (auto simp: less_Suc_eq split: if_splits) (metis less_irrefl)+
    moreover have "data_of (detach_data i P) j = data_of P j"
      using fresh i h by (cases "j = i"; cases "holder_at P j") (auto simp: d data_of_def nth_append)
    ultimately show ?thesis
      using i fresh by (auto simp: d) (metis less_irrefl)
  qed
  then show "pool_inv (detach_data i P)" "pointers (detach_data i P) = pointers P"
    "length (holders (detach_data i P)) = length (holders P)"
    "data_of (detach_data i P) j = data_of P j"
    "\<exists>h'. holder_at (detach_data i P) i = Some h'
       \<and> (\<forall>j h''. holder_at (detach_data i P) j = Some h'' \<and> h_data h'' = h_data h' \<longrightarrow> j = i)
       \<and> buffers (detach_data i P) ! h_data h' = buffers P ! h_data h"
    by blast+
qed

lemma pool_step_sound:
  assumes "pool_step P i P'" and inv: "pool_inv P"
  shows "pool_inv P' \<and> (\<forall>j. j \<noteq> i \<longrightarrow> data_of P' j = data_of P j)"
  using assms(1)
proof cases
  case (step_bind xs)
  then show ?thesis using bind_new_inv [OF inv] by simp
next
  case (step_clone k h)
  then show ?thesis
  proof (cases "h_exposed h")
    case True
    with step_clone show ?thesis using bind_new_inv [OF inv] by (simp add: clone_exec_def)
  next
    case False
    have apart: "h_data ha \<noteq> h_data h" if "holder_at P a = Some ha" "h_exposed ha" for a ha
    proof
      assume "h_data ha = h_data h"
      then have "a = k" using inv_facts(4) [OF inv that(1) step_clone(3) that(2)] by simp
      with that step_clone(3) False show False by simp
    qed
    have new: "holder_at P (length (holders P)) = None" "(length (holders P), b) \<notin> set (pointers P)" for b
      using inv_facts(3) [OF inv, of "length (holders P)" b] by (auto simp: holder_at_def)
    have "pool_inv P'"
      unfolding pool_inv_def using step_clone False inv_facts [OF inv] apart new
      by (auto simp: clone_exec_def less_Suc_eq split: if_splits)
    then show ?thesis using step_clone False by (auto simp: clone_exec_def data_of_def)
  qed
next
  case (step_ptr h)
  let ?D = "detach_data i P"
  note d = detach_inv [OF inv step_ptr(2)]
  obtain h' where h': "holder_at ?D i = Some h'"
    "\<forall>j h''. holder_at ?D j = Some h'' \<and> h_data h'' = h_data h' \<longrightarrow> j = i" using d(5) by blast
  have P': "P' = ?D\<lparr>holders := (holders ?D)[i := Some (h'\<lparr>h_exposed := True\<rparr>)],
      pointers := pointers ?D @ [(i, h_data h')]\<rparr>"
    using step_ptr(1) h'(1) by (simp add: value_ptr_def Let_def)
  have "pool_inv P'"
  proof -
    have apart: "h_data ha \<noteq> h_data h'" if "holder_at ?D a = Some ha" "a \<noteq> i" for a ha
      using h'(2) that by blast
    note f = inv_facts [OF d(1)] and li = holder_at_less [OF h'(1)]
    show ?thesis
      unfolding pool_inv_def P'
    proof (intro conjI allI impI)
    qed (use f(1) f(1) [OF h'(1)] f(2) f(2) [OF _ h'(1)] f(3) f(4) li apart apart [THEN not_sym] in \<open>auto split: if_splits\<close>)
  qed
  moreover have "data_of P' j = data_of P j" if "j \<noteq> i" for j
    using that d(4) [of j] unfolding P' by (simp add: data_of_def)
  ultimately show ?thesis by blast
next
  case (step_set h off xs)
  let ?D = "detach_data i P"
  note d = detach_inv [OF inv step_set(2)]
  obtain h' where h': "holder_at ?D i = Some h'"
    "\<forall>j h''. holder_at ?D j = Some h'' \<and> h_data h'' = h_data h' \<longrightarrow> j = i" using d(5) by blast
  have P': "P' = ?D\<lparr>buffers := (buffers ?D)[h_data h' := store (buffers ?D ! h_data h') (int off) xs]\<rparr>"
    using step_set(1) h'(1) by (simp add: set_values_def Let_def)
  have "pool_inv P'" unfolding pool_inv_def P' using inv_facts [OF d(1)] by (auto split: if_splits)
  moreover have "data_of P' j = data_of ?D j" if "j \<noteq> i" for j
  proof (cases "holder_at ?D j")
    case (Some a)
    then have "h_data a \<noteq> h_data h'" using h'(2) that by blast
    with Some show ?thesis by (simp add: P' data_of_def)
  qed (simp add: P' data_of_def)
  then have "data_of P' j = data_of P j" if "j \<noteq> i" for j using that d(4) [of j] by simp
  ultimately show ?thesis by blast
next
  case (step_write k b h off xs)
  have mem: "(i, b) \<in> set (pointers P)" using step_write(2,3) nth_mem by fastforce
  have hb: "h_exposed h" "h_data h = b" using inv_facts(2) [OF inv mem step_write(4)] by auto
  have P': "P' = P\<lparr>buffers := (buffers P)[b := store (buffers P ! b) (int off) xs]\<rparr>"
    using step_write by (simp add: write_through_def)
  have "pool_inv P'" unfolding pool_inv_def P' using inv_facts [OF inv] by (auto split: if_splits)
  moreover have "data_of P' j = data_of P j" if "j \<noteq> i" for j
  proof (cases "holder_at P j")
    case (Some a)
    then have "h_data a \<noteq> b" using inv_facts(4) [OF inv step_write(4) Some hb(1)] hb(2) that by blast
    with Some show ?thesis by (simp add: P' data_of_def)
  qed (simp add: P' data_of_def)
  ultimately show ?thesis by blast
next
  case (step_destroy h)
  have "pool_inv P'"
    unfolding pool_inv_def step_destroy(1) destroy_exec_def using inv_facts [OF inv]
    by (auto split: if_splits)
  then show ?thesis using step_destroy by (auto simp: destroy_exec_def data_of_def)
qed

lemma pool_reachable_inv: "pool_reachable P \<Longrightarrow> pool_inv P"
proof (induction rule: pool_reachable.induct)
  case pool_empty
  then show ?case by (simp add: pool_inv_def holder_at_def)
next
  case (pool_more P i P')
  then show ?case using pool_step_sound by blast
qed

text \<open>C23. In every reachable state of executors that share data buffers, whatever is done on behalf of one
  executor (rebinding values, taking a writable pointer, writing through a pointer taken earlier,
  cloning, destroying) leaves the data every other executor sees unchanged.\<close>

theorem clones_isolated:
  assumes "pool_reachable P" and "pool_step P i P'" and "j \<noteq> i"
  shows "data_of P' j = data_of P j"
  using pool_step_sound [OF assms(2) pool_reachable_inv [OF assms(1)]] assms(3) by blast

text \<open>Two executors sharing one buffer; the first then takes a writable pointer.\<close>

definition shared_pool :: "int pool" where
  "shared_pool = clone_exec 0 (bind_new [1, 2] \<lparr>holders = [], buffers = [], pointers = []\<rparr>)"

theorem clones_isolated_witness:
  "data_of (value_ptr 0 shared_pool) 1 = data_of shared_pool 1"
proof (rule clones_isolated)
  have "pool_reachable (bind_new [1, 2] \<lparr>holders = [], buffers = [], pointers = []\<rparr> :: int pool)"
    by (rule pool_more [OF pool_empty step_bind])
  moreover have "holder_at (bind_new [1, 2] \<lparr>holders = [], buffers = [], pointers = []\<rparr> :: int pool) 0
      = Some \<lparr>h_data = 0, h_exposed = False\<rparr>"
    by (simp add: bind_new_def holder_at_def)
  ultimately show "pool_reachable shared_pool"
    unfolding shared_pool_def by (blast intro: pool_more step_clone)
  have "holder_at shared_pool 0 = Some \<lparr>h_data = 0, h_exposed = False\<rparr>"
    by (simp add: shared_pool_def clone_exec_def bind_new_def holder_at_def)
  then show "pool_step shared_pool 0 (value_ptr 0 shared_pool)" by (rule step_ptr)
qed simp

end
