(* ===== verification/Message.thy ===== *)
theory Message
  imports Prelude "HOL-Library.Multiset"
begin

text \<open>
  The \<^verbatim>\<open>print\<close>/\<^verbatim>\<open>reject\<close> statement functions (\<^verbatim>\<open>runtime/include/stanli/message.hpp\<close> and the two effects
  of \<^verbatim>\<open>runtime/kernels/message.cpp\<close>): dispatch by name, where the scalar at a multi-index of a value is
  stored, the rendering of a template, and the final effect. How a floating-point number is written
  and truncated to an integer is the parameter \<open>scalar_io\<close>.
\<close>

section \<open>Dispatch\<close>

datatype MessageAction = Print | Reject | Fatal

definition message_action :: "string \<Rightarrow> MessageAction option" where
  "message_action name =
     (if name = ''FnPrint'' then Some Print
      else if name = ''FnReject'' then Some Reject
      else if name = ''FnFatalError'' then Some Fatal
      else None)"

datatype MessageError = Err_Domain | Err_Runtime | Err_InvalidArgument | Err_OutOfRange

definition message_error :: "MessageAction \<Rightarrow> MessageError" where
  "message_error action = (if action = Fatal then Err_Runtime else Err_Domain)"

section \<open>Shapes and templates\<close>

record MessageShape =
  dims :: "int list"
  matrix_leaf :: bool
  column_major :: bool
  integer :: bool

record MessageSpec =
  chunks :: "string list"
  msg_error :: MessageError
  shapes :: "MessageShape list"

text \<open>
  The offset arithmetic on \<^verbatim>\<open>int64_t\<close> is exact as long as the value fits in memory. A matrix leaf has at
  least two extents; with fewer the C++ expression \<^verbatim>\<open>n - 2\<close> wraps and the read is undefined.
\<close>

definition message_offset :: "MessageShape \<Rightarrow> int list \<Rightarrow> int" where
  "message_offset shape index =
     (let n = length (dims shape);
          horner = fold (\<lambda>d acc. acc * dims shape ! d + index ! d) in
      if column_major shape then horner (rev [0..<n]) 0
      else
        let off = horner [0..<(if matrix_leaf shape then n - 2 else n)] 0 in
        if matrix_leaf shape
        then off * dims shape ! (n - 2) * dims shape ! (n - 1)
             + index ! (n - 1) * dims shape ! (n - 2) + index ! (n - 2)
        else off)"

section \<open>Rendering\<close>

record 'd scalar_io =
  show_double :: "'d \<Rightarrow> string"
  to_int64 :: "'d \<Rightarrow> int"

function show_nat :: "nat \<Rightarrow> string" where
  "show_nat n = (if n < 10 then [char_of (48 + n)]
                 else show_nat (n div 10) @ [char_of (48 + n mod 10)])"
  by auto

termination show_nat
  by (relation "measure id") auto

definition show_int :: "int \<Rightarrow> string" where
  "show_int i = (if i < 0 then CHR ''-'' # show_nat (nat (- i)) else show_nat (nat i))"

definition render_scalar :: "'d scalar_io \<Rightarrow> MessageShape \<Rightarrow> (int \<Rightarrow> 'd) \<Rightarrow> int list \<Rightarrow> string" where
  "render_scalar io s val index =
     (let x = val (message_offset s index)
      in if integer s then show_int (to_int64 io x) else show_double io x)"

text \<open>One bracketed level per extent; \<open>rest\<close> are the extents from level \<^verbatim>\<open>d\<close> on and \<open>index\<close> the components
  chosen so far.\<close>

fun render_level :: "'d scalar_io \<Rightarrow> MessageShape \<Rightarrow> (int \<Rightarrow> 'd) \<Rightarrow> int list \<Rightarrow> int list \<Rightarrow> string" where
  "render_level io s val [] index = render_scalar io s val index"
| "render_level io s val (d # rest) index =
     ''['' @ concat (map (\<lambda>i. (if i \<noteq> 0 then '','' else []) @ render_level io s val rest (index @ [i])) [0..d - 1]) @ '']''"

definition render_message ::
    "'d scalar_io \<Rightarrow> MessageSpec \<Rightarrow> nat \<Rightarrow> (nat \<Rightarrow> MessageShape) \<Rightarrow> (nat \<Rightarrow> int \<Rightarrow> 'd) \<Rightarrow> std_error + string" where
  "render_message io spec value_count shape val =
     (if length (chunks spec) \<noteq> value_count + 1
      then Inl (LogicError ''malformed message template'')
      else Inr (concat (map (\<lambda>k. chunks spec ! k @ render_level io (shape k) (val k) (dims (shape k)) [])
                            [0..<value_count]) @ last (chunks spec)))"

section \<open>Effects\<close>

definition throw_message :: "MessageError \<Rightarrow> string \<Rightarrow> std_error" where
  "throw_message error message = (case error of
       Err_Runtime \<Rightarrow> RuntimeError message
     | Err_InvalidArgument \<Rightarrow> InvalidArgument message
     | Err_OutOfRange \<Rightarrow> OutOfRange message
     | Err_Domain \<Rightarrow> DomainError message)"

text \<open>The sink is the list of lines written so far.\<close>

definition execute_message :: "MessageAction \<Rightarrow> string \<Rightarrow> string list \<Rightarrow> std_error + string list" where
  "execute_message action message sink =
     (if action \<noteq> Print then Inl (throw_message (message_error action) message)
      else Inr (sink @ [message]))"

section \<open>The layout of a printed value\<close>

definition index_box :: "int list \<Rightarrow> int list set" where
  "index_box ds = {index. length index = length ds \<and> (\<forall>k < length ds. 0 \<le> index ! k \<and> index ! k < ds ! k)}"

definition horner :: "(int \<times> int) list \<Rightarrow> int \<Rightarrow> int" where
  "horner ps acc = fold (\<lambda>(d, i) a. a * d + i) ps acc"

lemma horner_simps [simp]:
  "horner [] acc = acc"
  "horner ((d, i) # ps) acc = horner ps (acc * d + i)"
  "horner (ps @ qs) acc = horner qs (horner ps acc)"
  by (simp_all add: horner_def)

text \<open>Mixed-radix positional notation is injective on digits in range, and stays below the product.\<close>

definition digits_ok :: "(int \<times> int) list \<Rightarrow> bool" where
  "digits_ok ps \<longleftrightarrow> (\<forall>(d, i) \<in> set ps. 0 \<le> i \<and> i < d)"

lemma horner_bound:
  "digits_ok ps \<Longrightarrow> 0 \<le> a \<Longrightarrow> a < N \<Longrightarrow> 0 \<le> horner ps a \<and> horner ps a < N * prod_list (map fst ps)"
proof (induction ps arbitrary: a N)
  case (Cons p ps)
  obtain d i where p: "p = (d, i)" by (cases p)
  have i: "0 \<le> i" "i < d" and ok: "digits_ok ps" using Cons.prems(1) by (auto simp: digits_ok_def p)
  have "(a + 1) * d \<le> N * d" using Cons.prems(3) i by (intro mult_right_mono) auto
  hence "0 \<le> a * d + i" "a * d + i < N * d" using i Cons.prems(2) by (auto simp: algebra_simps)
  from Cons.IH [OF ok this] show ?case by (simp add: p mult.assoc)
qed simp

lemma horner_inj:
  assumes "map fst ps = map fst qs" and "digits_ok ps" and "digits_ok qs" and "horner ps a = horner qs b"
  shows "ps = qs \<and> a = b"
  using assms
proof (induction ps arbitrary: qs rule: rev_induct)
  case (snoc p ps)
  obtain q qs' where qs: "qs = qs' @ [q]" "map fst ps = map fst qs'" "fst p = fst q"
    using snoc.prems(1) by (auto simp: map_eq_append_conv append_eq_map_conv)
  obtain d i where p: "p = (d, i)" by (cases p)
  obtain j where q: "q = (d, j)" using qs(3) p by (cases q) auto
  have r: "0 \<le> i" "i < d" "0 \<le> j" "j < d" "digits_ok ps" "digits_ok qs'"
    using snoc.prems(2,3) by (auto simp: digits_ok_def p q qs(1))
  have eq: "horner ps a * d + i = horner qs' b * d + j" using snoc.prems(4) by (simp add: p q qs(1))
  hence "i = j" using r(1-4) by (metis mod_mult_self3 mod_pos_pos_trivial)
  moreover have "horner ps a = horner qs' b" using eq r(1,2) \<open>i = j\<close> by simp
  ultimately show ?case using snoc.IH [OF qs(2) r(5,6)] by (simp add: p q qs(1))
qed simp

text \<open>The digits in the order the shape stores them, most significant first.\<close>

definition storage_order :: "MessageShape \<Rightarrow> nat list" where
  "storage_order shape =
     (let n = length (dims shape) in
      if column_major shape then rev [0..<n]
      else if matrix_leaf shape then [0..<n - 2] @ [n - 1, n - 2]
      else [0..<n])"

definition storage_digits :: "MessageShape \<Rightarrow> int list \<Rightarrow> (int \<times> int) list" where
  "storage_digits shape index = map (\<lambda>d. (dims shape ! d, index ! d)) (storage_order shape)"

definition shape_ok :: "MessageShape \<Rightarrow> bool" where
  "shape_ok shape \<longleftrightarrow> (matrix_leaf shape \<longrightarrow> 2 \<le> length (dims shape))"

lemma fold_horner:
  "fold (\<lambda>d acc. acc * ds ! d + index ! d) js a = horner (map (\<lambda>d. (ds ! d, index ! d)) js) a"
  by (induction js arbitrary: a) auto

lemma message_offset_horner:
  "message_offset shape index = horner (storage_digits shape index) 0"
  by (simp add: message_offset_def storage_digits_def storage_order_def Let_def fold_horner distrib_right mult.assoc
      mult.commute [of "dims shape ! (length (dims shape) - 2)"])

lemma storage_order_perm:
  assumes "shape_ok shape"
  shows "mset (storage_order shape) = mset [0..<length (dims shape)]"
proof (cases "matrix_leaf shape \<and> \<not> column_major shape")
  case True
  then obtain m where m: "length (dims shape) = Suc (Suc m)"
    using assms by (metis shape_ok_def Suc_le_D Suc_le_mono numeral_2_eq_2)
  show ?thesis using True by (simp add: storage_order_def m)
qed (auto simp: storage_order_def Let_def)

lemma storage_order_set:
  "shape_ok shape \<Longrightarrow> set (storage_order shape) = {0..<length (dims shape)}"
  by (metis storage_order_perm set_mset_mset set_upt)

lemma storage_digits_ok:
  "shape_ok shape \<Longrightarrow> index \<in> index_box (dims shape) \<Longrightarrow> digits_ok (storage_digits shape index)"
  by (auto simp: digits_ok_def storage_digits_def storage_order_set index_box_def)

lemma storage_digits_prod:
  assumes "shape_ok shape"
  shows "prod_list (map fst (storage_digits shape index)) = prod_list (dims shape)"
proof -
  have "mset (map (\<lambda>d. dims shape ! d) (storage_order shape)) = mset (map (\<lambda>d. dims shape ! d) [0..<length (dims shape)])"
    using storage_order_perm [OF assms] by (metis mset_map)
  hence "prod_list (map (\<lambda>d. dims shape ! d) (storage_order shape)) = prod_list (map (\<lambda>d. dims shape ! d) [0..<length (dims shape)])"
    by (metis prod_mset_prod_list)
  thus ?thesis by (simp add: storage_digits_def comp_def map_nth)
qed

lemma storage_digits_inj:
  assumes "shape_ok shape" "index \<in> index_box (dims shape)" "index' \<in> index_box (dims shape)"
    and "storage_digits shape index = storage_digits shape index'"
  shows "index = index'"
proof (rule nth_equalityI)
  show "length index = length index'" using assms(2,3) by (simp add: index_box_def)
  fix k assume "k < length index"
  hence "k \<in> set (storage_order shape)" using assms(1,2) by (simp add: storage_order_set index_box_def)
  thus "index ! k = index' ! k" using assms(4) by (auto simp: storage_digits_def)
qed

lemma index_box_card:
  assumes "\<forall>d \<in> set ds. 0 \<le> d"
  shows "finite (index_box ds) \<and> int (card (index_box ds)) = prod_list ds"
  using assms
proof (induction ds)
  case Nil
  have "index_box [] = {[]}" by (auto simp: index_box_def)
  thus ?case by simp
next
  case (Cons d ds)
  have box: "index_box (d # ds) = (\<lambda>(i, r). i # r) ` ({0..<d} \<times> index_box ds)" (is "?L = ?R")
  proof
    show "?L \<subseteq> ?R"
    proof
      fix x assume x: "x \<in> ?L"
      then obtain i r where c: "x = i # r" by (cases x) (auto simp: index_box_def)
      have "\<forall>k < length ds. 0 \<le> r ! k \<and> r ! k < ds ! k"
        using x by (auto simp: index_box_def c dest: spec [of _ "Suc _"])
      moreover have "0 \<le> i \<and> i < d" using x by (auto simp: index_box_def c)
      ultimately have "(i, r) \<in> {0..<d} \<times> index_box ds" using x by (simp add: index_box_def c)
      thus "x \<in> ?R" by (auto simp: c intro: rev_image_eqI)
    qed
    show "?R \<subseteq> ?L" by (auto simp: index_box_def nth_Cons split: nat.splits)
  qed
  have "inj_on (\<lambda>(i, r). i # r) ({0..<d} \<times> index_box ds)" by (auto simp: inj_on_def)
  moreover have "int (card ({0..<d} \<times> index_box ds)) = d * prod_list ds"
    using Cons by (simp add: card_cartesian_product)
  ultimately show ?case using Cons box by (simp add: card_image)
qed

lemma message_offset_range:
  assumes "shape_ok shape" "index \<in> index_box (dims shape)"
  shows "0 \<le> message_offset shape index \<and> message_offset shape index < prod_list (dims shape)"
  using horner_bound [OF storage_digits_ok [OF assms], of 0 1]
  by (simp add: message_offset_horner storage_digits_prod [OF assms(1)])

text \<open>C35. Where \<open>render_message\<close> reads the scalar of a multi-index: for every shape, array extents
  outermost-first with a column-major matrix leaf or fully first-index-fastest, \<open>message_offset\<close> is a bijection
  from the index box of the extents onto the storage offsets below their product, so a printed value reads
  each of its stored scalars exactly once and none outside it.\<close>

theorem message_offset_bijective:
  assumes "shape_ok shape" and "\<forall>d \<in> set (dims shape). 0 \<le> d"
  shows "bij_betw (message_offset shape) (index_box (dims shape)) {0..<prod_list (dims shape)}"
proof -
  have inj: "inj_on (message_offset shape) (index_box (dims shape))"
  proof (rule inj_onI)
    fix x y assume xy: "x \<in> index_box (dims shape)" "y \<in> index_box (dims shape)" "message_offset shape x = message_offset shape y"
    have "map fst (storage_digits shape x) = map fst (storage_digits shape y)" by (simp add: storage_digits_def)
    moreover have "horner (storage_digits shape x) 0 = horner (storage_digits shape y) 0"
      using xy(3) by (simp only: message_offset_horner)
    ultimately have "storage_digits shape x = storage_digits shape y"
      using horner_inj storage_digits_ok [OF assms(1) xy(1)] storage_digits_ok [OF assms(1) xy(2)] by blast
    thus "x = y" using storage_digits_inj assms(1) xy by blast
  qed
  have "message_offset shape x \<in> {0..<prod_list (dims shape)}" if "x \<in> index_box (dims shape)" for x
    using message_offset_range [OF assms(1) that] by simp
  hence sub: "message_offset shape ` index_box (dims shape) \<subseteq> {0..<prod_list (dims shape)}" by blast
  have "card (message_offset shape ` index_box (dims shape)) = card {0..<prod_list (dims shape)}"
    using index_box_card [OF assms(2)] by (simp add: card_image [OF inj]) linarith
  hence "message_offset shape ` index_box (dims shape) = {0..<prod_list (dims shape)}"
    using sub by (simp add: card_subset_eq)
  with inj show ?thesis by (simp add: bij_betw_def)
qed

theorem message_offset_bijective_witness:
  "bij_betw (message_offset \<lparr>dims = [2, 3, 4], matrix_leaf = True, column_major = False, integer = False\<rparr>)
     (index_box [2, 3, 4]) {0..<24}"
  using message_offset_bijective [of "\<lparr>dims = [2, 3, 4], matrix_leaf = True, column_major = False, integer = False\<rparr>"]
  by (simp add: shape_ok_def)

end
