(* ===== verification/Extrema.thy ===== *)
theory Extrema
  imports Prelude
begin

text \<open>
  Replaying Eigen's vectorised reduction over a materialised view
  (\<^verbatim>\<open>runtime/include/stanli/extrema_grouping.hpp\<close>). The functor (Eigen's \<^verbatim>\<open>scalar_max_op\<close>, \<^verbatim>\<open>scalar_min_op\<close> or
  \<^verbatim>\<open>scalar_product_op\<close>), the packet width and the packet alignment come from Eigen and are parameters; a
  packet is the list of its lanes. Offsets and lengths are non-negative 64-bit integers, here \<open>nat\<close>.
\<close>

record 'd packet_func =
  f_scalar :: "'d \<Rightarrow> 'd \<Rightarrow> 'd"
  f_packet :: "'d list \<Rightarrow> 'd list \<Rightarrow> 'd list"
  f_predux :: "'d list \<Rightarrow> 'd"

record packet_traits =
  packet_size :: nat
  packet_align :: nat      \<comment> \<open>\<^verbatim>\<open>alignof(Packet)\<close>, in bytes\<close>

definition extrema_phase_modulus :: "packet_traits \<Rightarrow> nat" where
  "extrema_phase_modulus tr = (if packet_align tr > 8 then packet_align tr div 8 else 1)"

definition ploadu :: "packet_traits \<Rightarrow> 'd list \<Rightarrow> nat \<Rightarrow> 'd list" where
  "ploadu tr data i = take (packet_size tr) (drop i data)"

text \<open>The loop over pairs of packets: \<open>n\<close> iterations from element \<open>i\<close>.\<close>

fun packet_pairs :: "packet_traits \<Rightarrow> 'd packet_func \<Rightarrow> 'd list \<Rightarrow> nat \<Rightarrow> nat \<Rightarrow> 'd list \<times> 'd list \<Rightarrow> 'd list \<times> 'd list" where
  "packet_pairs tr F data 0 i acc = acc"
| "packet_pairs tr F data (Suc n) i (p0, p1) =
     packet_pairs tr F data n (i + 2 * packet_size tr)
       (f_packet F p0 (ploadu tr data i), f_packet F p1 (ploadu tr data (i + packet_size tr)))"

definition scalar_loop :: "'d packet_func \<Rightarrow> 'd list \<Rightarrow> nat \<Rightarrow> nat \<Rightarrow> 'd \<Rightarrow> 'd" where
  "scalar_loop F data i j acc = fold (\<lambda>k r. f_scalar F r (data ! k)) [i..<j] acc"

text \<open>The packets between the aligned start and the aligned end, of \<open>aligned_size\<close> elements.\<close>

definition reduce_packets :: "packet_traits \<Rightarrow> 'd packet_func \<Rightarrow> 'd list \<Rightarrow> nat \<Rightarrow> nat \<Rightarrow> nat \<Rightarrow> 'd list" where
  "reduce_packets tr F data aligned_start aligned_size aligned_size2 =
     (let ps = packet_size tr;
          aligned_end2 = aligned_start + aligned_size2;
          aligned_end = aligned_start + aligned_size;
          packet0 = ploadu tr data aligned_start
      in if aligned_size > ps then
           let packet1 = ploadu tr data (aligned_start + ps);
               (q0, q1) = packet_pairs tr F data (aligned_size2 div (2 * ps) - 1)
                            (aligned_start + 2 * ps) (packet0, packet1);
               q = f_packet F q0 q1
           in if aligned_end > aligned_end2 then f_packet F q (ploadu tr data aligned_end2) else q
         else packet0)"

definition reduce_phased :: "packet_traits \<Rightarrow> 'd packet_func \<Rightarrow> 'd list \<Rightarrow> nat \<Rightarrow> 'd" where
  "reduce_phased tr F data offset =
     (let len = length data;
          ps = packet_size tr;
          m = extrema_phase_modulus tr;
          start = (m - offset mod m) mod m;
          aligned_start = (if start \<ge> len then len else start);
          aligned_size2 = ((len - aligned_start) div (2 * ps)) * (2 * ps);
          aligned_size = ((len - aligned_start) div ps) * ps;
          aligned_end = aligned_start + aligned_size in
      if aligned_size = 0 then scalar_loop F data 1 len (data ! 0)
      else scalar_loop F data aligned_end len
             (scalar_loop F data 0 aligned_start
               (f_predux F (reduce_packets tr F data aligned_start aligned_size aligned_size2))))"

definition extrema_phased :: "packet_traits \<Rightarrow> (bool \<Rightarrow> 'd packet_func) \<Rightarrow> 'd list \<Rightarrow> nat \<Rightarrow> bool \<Rightarrow> 'd" where
  "extrema_phased tr op data offset maximum =
     (if maximum then reduce_phased tr (op True) data offset else reduce_phased tr (op False) data offset)"

definition prod_phased :: "packet_traits \<Rightarrow> 'd packet_func \<Rightarrow> 'd list \<Rightarrow> nat \<Rightarrow> 'd" where
  "prod_phased tr product_op data offset = reduce_phased tr product_op data offset"

section \<open>The grouping\<close>

text \<open>
  The grouping of Eigen's linear vectorised reduction, with nothing assumed of the functor, which rounds: the packets are
  combined in two interleaved left folds, the even-numbered ones in one and the odd-numbered ones in the other, the
  two are joined, and an odd last packet is joined to that.
\<close>

definition fold_first :: "('a \<Rightarrow> 'a \<Rightarrow> 'a) \<Rightarrow> 'a list \<Rightarrow> 'a" where
  "fold_first f xs = foldl f (hd xs) (tl xs)"

definition every_second :: "nat \<Rightarrow> 'a list \<Rightarrow> 'a list" where
  "every_second k xs = map (\<lambda>j. xs ! (k + 2 * j)) [0..<length xs div 2]"

definition grouped :: "('d list \<Rightarrow> 'd list \<Rightarrow> 'd list) \<Rightarrow> 'd list list \<Rightarrow> 'd list" where
  "grouped P blocks =
     (if length blocks = 1 then hd blocks
      else let q = P (fold_first P (every_second 0 blocks)) (fold_first P (every_second 1 blocks))
        in if odd (length blocks) then P q (last blocks) else q)"

lemma packet_pairs_folds:
  "packet_pairs tr F data n i (p0, p1) =
     (foldl (f_packet F) p0 (map (\<lambda>j. ploadu tr data (i + j * (2 * packet_size tr))) [0..<n]),
      foldl (f_packet F) p1 (map (\<lambda>j. ploadu tr data (i + packet_size tr + j * (2 * packet_size tr))) [0..<n]))"
proof (induction n arbitrary: i p0 p1)
  case (Suc n)
  have "map g [0..<Suc n] = g 0 # map (\<lambda>j. g (Suc j)) [0..<n]" for g :: "nat \<Rightarrow> 'a list"
    by (rule map_upt_Suc)
  with Suc show ?case by (simp add: add_ac del: upt_Suc)
qed simp

lemma scalar_loop_append:
  "scalar_loop F (us @ xs @ vs) (length us) (length us + length xs) acc = foldl (f_scalar F) acc xs"
proof -
  have "map (\<lambda>k. (us @ xs @ vs) ! k) [length us..<length us + length xs] = xs"
    by (rule nth_equalityI) (simp_all add: nth_append)
  then have "foldl (f_scalar F) acc xs = foldl (f_scalar F) acc (map (\<lambda>k. (us @ xs @ vs) ! k) [length us..<length us + length xs])"
    by simp
  also have "\<dots> = foldl (\<lambda>r k. f_scalar F r ((us @ xs @ vs) ! k)) acc [length us..<length us + length xs]"
    by (simp add: foldl_map)
  finally show ?thesis by (simp add: scalar_loop_def foldl_conv_fold)
qed

lemma scalar_loop_all:
  assumes "data \<noteq> []"
  shows "scalar_loop F data 1 (length data) (data ! 0) = fold_first (f_scalar F) data"
proof -
  from assms obtain x xs where d: "data = x # xs" by (cases data) auto
  with scalar_loop_append [of F "[x]" xs "[]" x] show ?thesis by (simp add: fold_first_def)
qed

text \<open>A view split at its aligned packets.\<close>

definition split_at :: "packet_traits \<Rightarrow> nat \<Rightarrow> 'd list \<Rightarrow> 'd list \<Rightarrow> 'd list list \<Rightarrow> 'd list \<Rightarrow> bool" where
  "split_at tr offset data head blocks tail \<longleftrightarrow>
     data = head @ concat blocks @ tail \<and> (\<forall>b \<in> set blocks. length b = packet_size tr) \<and> length tail < packet_size tr \<and>
     (offset + length head) mod extrema_phase_modulus tr = 0 \<and> length head < extrema_phase_modulus tr"

lemma length_concat_blocks: "\<forall>b \<in> set blocks. length b = n \<Longrightarrow> length (concat blocks) = length blocks * n"
  by (induction blocks) auto

lemma load_block:
  assumes "split_at tr offset data head blocks tail" "k < length blocks"
  shows "ploadu tr data (length head + k * packet_size tr) = blocks ! k"
proof -
  let ?n = "packet_size tr"
  have l: "length (concat (take k blocks)) = k * ?n"
    using assms length_concat_blocks [of "take k blocks" ?n] by (auto simp: split_at_def dest: in_set_takeD)
  have b: "length (blocks ! k) = ?n" using assms by (simp add: split_at_def)
  have "blocks = take k blocks @ blocks ! k # drop (Suc k) blocks"
    by (rule id_take_nth_drop [OF assms(2)])
  then have "concat blocks = concat (take k blocks) @ blocks ! k @ concat (drop (Suc k) blocks)"
    by (metis concat.simps(2) concat_append)
  then have "data = (head @ concat (take k blocks)) @ blocks ! k @ concat (drop (Suc k) blocks) @ tail"
    using assms(1) by (simp add: split_at_def)
  then show ?thesis using l b by (simp add: ploadu_def)
qed

text \<open>The distance to the next multiple.\<close>

lemma next_multiple:
  assumes "(p + h) mod m = 0" "h < m"
  shows "(m - p mod m) mod m = (h :: nat)"
proof -
  have m: "0 < m" using assms(2) by simp
  have "(p mod m + h) mod m = 0" using assms(1) by (simp add: mod_add_left_eq)
  moreover have "p mod m + h < 2 * m" using assms(2) m mod_less_divisor [of m p] by linarith
  ultimately obtain k where k: "p mod m + h = m * k" "m * k < m * 2" by (auto simp: mod_eq_0_iff_dvd elim!: dvdE)
  then have "k < 2" by simp
  then have "p mod m + h = 0 \<or> p mod m + h = m" using k(1) by (auto simp: less_2_cases_iff)
  then show ?thesis using assms(2) by auto
qed

lemma split_sizes:
  assumes "split_at tr offset data head blocks tail"
  shows "length data = length head + length blocks * packet_size tr + length tail"
    and "(length data - length head) div packet_size tr = length blocks"
    and "(length data - length head) div (2 * packet_size tr) = length blocks div 2"
proof -
  show l: "length data = length head + length blocks * packet_size tr + length tail"
    using assms length_concat_blocks [of blocks "packet_size tr"] by (simp add: split_at_def)
  have "length tail < packet_size tr" using assms by (simp add: split_at_def)
  then show n: "(length data - length head) div packet_size tr = length blocks" by (simp add: l)
  then show "(length data - length head) div (2 * packet_size tr) = length blocks div 2"
    by (metis div_mult2_eq mult.commute)
qed

lemma below_double: "Suc j < m \<Longrightarrow> m * 2 \<le> k \<Longrightarrow> c < 2 \<Longrightarrow> c + 2 * Suc j < (k :: nat)"
  by presburger

lemma reduce_packets_grouped:
  assumes "split_at tr offset data head blocks tail" "blocks \<noteq> []"
  shows "reduce_packets tr F data (length head) (length blocks * packet_size tr) (length blocks div 2 * (2 * packet_size tr)) =
    grouped (f_packet F) blocks"
proof -
  let ?n = "packet_size tr" and ?h = "length head" and ?k = "length blocks" and ?m = "length blocks div 2"
  have n: "0 < ?n" using assms(1) by (auto simp: split_at_def)
  note block = load_block [OF assms(1)]
  show ?thesis
  proof (cases "?k = 1")
    case True
    with block [of 0] show ?thesis by (cases blocks) (simp_all add: reduce_packets_def Let_def grouped_def)
  next
    case False
    with assms(2) have k: "2 \<le> ?k" "1 \<le> ?m" by (cases blocks; cases "tl blocks"; simp)+
    then have big: "?n < ?k * ?n" using n by simp
    have fold: "foldl f (ploadu tr data (?h + c * ?n))
        (map (\<lambda>j. ploadu tr data (?h + c * ?n + 2 * ?n + j * (2 * ?n))) [0..<?m - 1]) =
      fold_first f (every_second c blocks)" if "c < 2" for f :: "'a list \<Rightarrow> 'a list \<Rightarrow> 'a list" and c
    proof -
      have "[0..<?m] = 0 # map Suc [0..<?m - 1]" using k(2) by (simp add: map_Suc_upt upt_conv_Cons)
      then have "every_second c blocks = blocks ! c # map (\<lambda>j. blocks ! (c + 2 * Suc j)) [0..<?m - 1]"
        by (simp add: every_second_def)
      moreover have "ploadu tr data (?h + c * ?n) = blocks ! c" using block [of c] that k(1) by simp
      moreover have "map (\<lambda>j. ploadu tr data (?h + c * ?n + 2 * ?n + j * (2 * ?n))) [0..<?m - 1] =
          map (\<lambda>j. blocks ! (c + 2 * Suc j)) [0..<?m - 1]"
      proof (rule map_cong [OF refl])
        fix j assume "j \<in> set [0..<?m - 1]"
        then have that: "j < ?m - 1" by simp
        have "Suc j < ?m" "?m * 2 \<le> ?k" using that by simp_all
        from below_double [OF this \<open>c < 2\<close>] have "c + 2 * Suc j < ?k" .
        from block [OF this] show "ploadu tr data (?h + c * ?n + 2 * ?n + j * (2 * ?n)) = blocks ! (c + 2 * Suc j)"
          by (simp add: algebra_simps)
      qed
      ultimately show ?thesis by (simp only: fold_first_def list.sel)
    qed
    have pairs: "packet_pairs tr F data (?m - 1) (?h + 2 * ?n) (ploadu tr data ?h, ploadu tr data (?h + ?n)) =
        (fold_first (f_packet F) (every_second 0 blocks), fold_first (f_packet F) (every_second 1 blocks))"
      using fold [of 0 "f_packet F"] fold [of 1 "f_packet F"] by (simp add: packet_pairs_folds add_ac)
    have half: "?m * (2 * ?n) div (2 * ?n) = ?m" using n by simp
    have last: "ploadu tr data (?h + ?m * (2 * ?n)) = last blocks" if "odd ?k"
    proof -
      have "?m * 2 = ?k - 1" using that by (auto elim!: oddE)
      then have e: "?h + ?m * (2 * ?n) = ?h + (?k - 1) * ?n" by (simp add: mult.assoc [symmetric])
      from block [of "?k - 1"] k(1) assms(2) show ?thesis unfolding e by (simp add: last_conv_nth)
    qed
    have "?h + ?m * (2 * ?n) < ?h + ?k * ?n \<longleftrightarrow> odd ?k"
    proof -
      have "?m * (2 * ?n) = (?m * 2) * ?n" by simp
      moreover have "?m * 2 = (if odd ?k then ?k - 1 else ?k)" by (auto elim!: oddE evenE)
      moreover have "?k - 1 < ?k" using k(1) by simp
      ultimately show ?thesis using n by simp
    qed
    with big pairs half last False show ?thesis
      by (simp add: reduce_packets_def Let_def grouped_def)
  qed
qed

text \<open>C34. The phased reduction replays the grouping of a vectorised reduction over a view, operation by operation: nothing is
  assumed of the functor or of its packet form, so the two agree to the last rounding. Split the view at its aligned packets -
  the head ends at the first multiple of the alignment at or after the view's offset in its container, the blocks are the
  whole packets from there on, and the tail is shorter than a packet. Then the result is the horizontal reduction of the packets,
  grouped in two interleaved folds with an odd last packet joined at the end, to which the elements of the head and then those of the tail
  are added one by one from the left; without a whole packet, or when the view ends before its first aligned
  element, it is the left fold of the elements. This is the grouping of Eigen's linear traversal as the source states it.\<close>

theorem reduce_phased_grouping:
  assumes "data \<noteq> []"
  shows "(split_at tr offset data head blocks tail \<longrightarrow> reduce_phased tr F data offset =
      (if blocks = [] then fold_first (f_scalar F) data
       else foldl (f_scalar F) (foldl (f_scalar F) (f_predux F (grouped (f_packet F) blocks)) head) tail)) \<and>
    (length data \<le> (extrema_phase_modulus tr - offset mod extrema_phase_modulus tr) mod extrema_phase_modulus tr \<longrightarrow>
      reduce_phased tr F data offset = fold_first (f_scalar F) data)"
proof (intro conjI impI)
  assume split: "split_at tr offset data head blocks tail"
  let ?m = "extrema_phase_modulus tr"
  have start: "(?m - offset mod ?m) mod ?m = length head"
    by (rule next_multiple) (use split in \<open>auto simp: split_at_def\<close>)
  note sizes = split_sizes [OF split]
  have n: "0 < packet_size tr" using split by (auto simp: split_at_def)
  have aligned: "(if length head \<ge> length data then length data else length head) = length head"
    using sizes(1) by auto
  show "reduce_phased tr F data offset = (if blocks = [] then fold_first (f_scalar F) data
       else foldl (f_scalar F) (foldl (f_scalar F) (f_predux F (grouped (f_packet F) blocks)) head) tail)"
  proof (cases "blocks = []")
    case True
    then show ?thesis
      using scalar_loop_all [OF assms] by (simp add: reduce_phased_def Let_def start aligned sizes(2,3))
  next
    case False
    have d: "data = head @ concat blocks @ tail" using split by (simp add: split_at_def)
    have e: "length (head @ concat blocks) = length head + length blocks * packet_size tr"
      using sizes(1) d by simp
    have "scalar_loop F data 0 (length head) acc = foldl (f_scalar F) acc head" for acc
      using scalar_loop_append [of F "[]" head "concat blocks @ tail" acc] d by simp
    moreover have "scalar_loop F data (length head + length blocks * packet_size tr) (length data) acc = foldl (f_scalar F) acc tail" for acc
      using scalar_loop_append [of F "head @ concat blocks" tail "[]" acc] d e by (simp add: add.assoc)
    moreover have "length head < length data" using sizes(1) False n by (cases blocks) simp_all
    ultimately show ?thesis
      using False n reduce_packets_grouped [OF split False, of F]
      by (simp add: reduce_phased_def Let_def start aligned sizes(2,3))
  qed
next
  assume short: "length data \<le> (extrema_phase_modulus tr - offset mod extrema_phase_modulus tr) mod extrema_phase_modulus tr"
  show "reduce_phased tr F data offset = fold_first (f_scalar F) data"
    using short scalar_loop_all [OF assms] by (simp add: reduce_phased_def Let_def)
qed

text \<open>A functor that records the grouping: subtraction, neither associative nor commutative.\<close>

definition minus4 :: "int packet_func" where
  "minus4 = \<lparr>f_scalar = (-), f_packet = map2 (-), f_predux = fold_first (-)\<rparr>"

theorem reduce_phased_grouping_witness:
  "reduce_phased \<lparr>packet_size = 4, packet_align = 32\<rparr> minus4 [3, 1, 4, 1, 5, 9, 2, 6, 5, 3, 5, 8, 9, 7, 9] 3 =
     foldl (-) (foldl (-) (fold_first (-) (grouped (map2 (-)) [[1, 4, 1, 5], [9, 2, 6, 5], [3, 5, 8, 9 :: int]])) [3]) [7, 9]"
  using reduce_phased_grouping [of "[3, 1, 4, 1, 5, 9, 2, 6, 5, 3, 5, 8, 9, 7, 9]" "\<lparr>packet_size = 4, packet_align = 32\<rparr>" 3
      "[3]" "[[1, 4, 1, 5], [9, 2, 6, 5], [3, 5, 8, 9 :: int]]" "[7, 9]" minus4]
  by (simp add: split_at_def extrema_phase_modulus_def minus4_def)

end
