(* ===== verification/ProgramCode.thy ===== *)
theory ProgramCode
  imports Prelude
begin

unbundle bit_operations_syntax

text \<open>
  The instruction table of the register machine (\<^verbatim>\<open>runtime/include/stanli/program.hpp\<close>): the enumeration
  \<^verbatim>\<open>Program::Code\<close>, its enumerators prefixed with \<open>P_\<close>, and one row of structural facts per instruction, the
  \<^verbatim>\<open>ProgramOpFlag\<close> mask as the 16-bit word it is in the source.
\<close>

section \<open>The instruction table\<close>

abbreviation (input) kProgramNoInputs :: "16 word" where "kProgramNoInputs \<equiv> 1"
abbreviation (input) kProgramNoAdjoint :: "16 word" where "kProgramNoAdjoint \<equiv> 2"
abbreviation (input) kProgramRangeA :: "16 word" where "kProgramRangeA \<equiv> 4"
abbreviation (input) kProgramRangeB :: "16 word" where "kProgramRangeB \<equiv> 8"
abbreviation (input) kProgramSaveA :: "16 word" where "kProgramSaveA \<equiv> 16"
abbreviation (input) kProgramSaveB :: "16 word" where "kProgramSaveB \<equiv> 32"
abbreviation (input) kProgramSaveC :: "16 word" where "kProgramSaveC \<equiv> 64"
abbreviation (input) kProgramSaveOut :: "16 word" where "kProgramSaveOut \<equiv> 128"
abbreviation (input) kProgramNoOutput :: "16 word" where "kProgramNoOutput \<equiv> 256"
abbreviation (input) kProgramRangeOutput :: "16 word" where "kProgramRangeOutput \<equiv> 512"
abbreviation (input) kProgramReadB :: "16 word" where "kProgramReadB \<equiv> 1024"
abbreviation (input) kProgramReadC :: "16 word" where "kProgramReadC \<equiv> 2048"

datatype (plugins only: code size) Code =
    P_CONST | P_FILL | P_CONSTR | P_MOV | P_MOVR | P_ADD | P_SUB | P_MUL
  | P_DIV | P_IMOD | P_IDIV | P_IADD | P_ISUB | P_IMUL | P_INEG | P_IABS
  | P_POW | P_FMAX | P_FMIN | P_NEG | P_EXP | P_LOG | P_SQRT | P_SQUARE
  | P_INV | P_FABS | P_INV_LOGIT | P_LOG1M | P_LOG1P_EXP | P_TANH | P_GT | P_GE
  | P_LT | P_LE | P_EQ | P_NE | P_DYN_SET | P_DYN_INDEX | P_EXTREMA_RANGE | P_JZ
  | P_JMP | P_LOG_RANGE | P_EXP_RANGE | P_DOT | P_DYN_LSE_RANGE | P_LSE_RANGE | P_SOFTMAX | P_LSE2
  | P_LOG_DIFF_EXP | P_LMULTIPLY | P_LOG_MIX | P_FMA | P_DIAG_PRE_MULTIPLY | P_DIAG_POST_MULTIPLY | P_MDIVIDE_LEFT | P_MDIVIDE_RIGHT_SPD
  | P_DENSITY | P_CALL | P_TRANSFORM | P_PRINT | P_REJECT | P_DENSITY_VEC | P_RANGE | P_ERFC
  | P_LOG1P | P_LOG1M_EXP | P_INV_SQUARE | P_PATH

type_synonym ProgramOpSpec = "string \<times> 16 word"

definition has :: "ProgramOpSpec \<Rightarrow> 16 word \<Rightarrow> bool" where
  "has spec flag \<longleftrightarrow> snd spec AND flag \<noteq> 0"

fun program_code_spec :: "Code \<Rightarrow> ProgramOpSpec" where
  "program_code_spec P_CONST = (''CONST'', kProgramNoInputs)"
| "program_code_spec P_FILL = (''FILL'', kProgramNoInputs OR kProgramRangeOutput)"
| "program_code_spec P_CONSTR = (''CONSTR'', kProgramNoInputs OR kProgramRangeOutput)"
| "program_code_spec P_MOV = (''MOV'', 0)"
| "program_code_spec P_MOVR = (''MOVR'', kProgramRangeA OR kProgramRangeOutput)"
| "program_code_spec P_ADD = (''ADD'', kProgramReadB)"
| "program_code_spec P_SUB = (''SUB'', kProgramReadB)"
| "program_code_spec P_MUL = (''MUL'', kProgramReadB OR kProgramSaveA OR kProgramSaveB)"
| "program_code_spec P_DIV = (''DIV'', kProgramReadB OR kProgramSaveA OR kProgramSaveB OR kProgramSaveOut)"
| "program_code_spec P_IMOD = (''IMOD'', kProgramReadB)"
| "program_code_spec P_IDIV = (''IDIV'', kProgramReadB)"
| "program_code_spec P_IADD = (''IADD'', kProgramReadB)"
| "program_code_spec P_ISUB = (''ISUB'', kProgramReadB)"
| "program_code_spec P_IMUL = (''IMUL'', kProgramReadB)"
| "program_code_spec P_INEG = (''INEG'', 0)"
| "program_code_spec P_IABS = (''IABS'', 0)"
| "program_code_spec P_POW = (''POW'', kProgramReadB OR kProgramSaveA OR kProgramSaveB OR kProgramSaveOut)"
| "program_code_spec P_FMAX = (''FMAX'', kProgramReadB OR kProgramSaveA OR kProgramSaveB)"
| "program_code_spec P_FMIN = (''FMIN'', kProgramReadB OR kProgramSaveA OR kProgramSaveB)"
| "program_code_spec P_NEG = (''NEG'', 0)"
| "program_code_spec P_EXP = (''EXP'', kProgramSaveOut)"
| "program_code_spec P_LOG = (''LOG'', kProgramSaveA)"
| "program_code_spec P_SQRT = (''SQRT'', kProgramSaveOut)"
| "program_code_spec P_SQUARE = (''SQUARE'', kProgramSaveA)"
| "program_code_spec P_INV = (''INV'', kProgramSaveA)"
| "program_code_spec P_FABS = (''FABS'', kProgramSaveA)"
| "program_code_spec P_INV_LOGIT = (''INV_LOGIT'', kProgramSaveOut)"
| "program_code_spec P_LOG1M = (''LOG1M'', kProgramSaveA)"
| "program_code_spec P_LOG1P_EXP = (''LOG1P_EXP'', kProgramSaveA)"
| "program_code_spec P_TANH = (''TANH'', kProgramSaveA)"
| "program_code_spec P_GT = (''GT'', kProgramReadB)"
| "program_code_spec P_GE = (''GE'', kProgramReadB)"
| "program_code_spec P_LT = (''LT'', kProgramReadB)"
| "program_code_spec P_LE = (''LE'', kProgramReadB)"
| "program_code_spec P_EQ = (''EQ'', kProgramReadB)"
| "program_code_spec P_NE = (''NE'', kProgramReadB)"
| "program_code_spec P_DYN_SET = (''DYN_SET'', kProgramRangeA OR kProgramReadB OR kProgramReadC OR kProgramRangeOutput OR kProgramNoAdjoint)"
| "program_code_spec P_DYN_INDEX = (''DYN_INDEX'', kProgramReadB OR kProgramSaveB)"
| "program_code_spec P_EXTREMA_RANGE = (''EXTREMA_RANGE'', kProgramRangeA OR kProgramNoAdjoint)"
| "program_code_spec P_JZ = (''JZ'', kProgramNoAdjoint OR kProgramNoOutput)"
| "program_code_spec P_JMP = (''JMP'', kProgramNoInputs OR kProgramNoAdjoint OR kProgramNoOutput)"
| "program_code_spec P_LOG_RANGE = (''LOG_RANGE'', kProgramRangeA OR kProgramSaveA OR kProgramRangeOutput)"
| "program_code_spec P_EXP_RANGE = (''EXP_RANGE'', kProgramRangeA OR kProgramSaveOut OR kProgramRangeOutput)"
| "program_code_spec P_DOT = (''DOT'', kProgramRangeA OR kProgramRangeB OR kProgramReadB OR kProgramSaveA OR kProgramSaveB)"
| "program_code_spec P_DYN_LSE_RANGE = (''DYN_LSE_RANGE'', kProgramRangeA OR kProgramReadB OR kProgramReadC OR kProgramNoAdjoint)"
| "program_code_spec P_LSE_RANGE = (''LSE_RANGE'', kProgramRangeA OR kProgramSaveA OR kProgramSaveOut)"
| "program_code_spec P_SOFTMAX = (''SOFTMAX'', kProgramRangeA OR kProgramSaveOut OR kProgramRangeOutput)"
| "program_code_spec P_LSE2 = (''LSE2'', kProgramReadB OR kProgramSaveA OR kProgramSaveB)"
| "program_code_spec P_LOG_DIFF_EXP = (''LOG_DIFF_EXP'', kProgramReadB OR kProgramSaveA OR kProgramSaveB)"
| "program_code_spec P_LMULTIPLY = (''LMULTIPLY'', kProgramReadB OR kProgramSaveA OR kProgramSaveB)"
| "program_code_spec P_LOG_MIX = (''LOG_MIX'', kProgramReadB OR kProgramReadC OR kProgramSaveA OR kProgramSaveB OR kProgramSaveC)"
| "program_code_spec P_FMA = (''FMA'', kProgramReadB OR kProgramReadC OR kProgramSaveA OR kProgramSaveB)"
| "program_code_spec P_DIAG_PRE_MULTIPLY = (''DIAG_PRE_MULTIPLY'', kProgramReadB OR kProgramNoAdjoint)"
| "program_code_spec P_DIAG_POST_MULTIPLY = (''DIAG_POST_MULTIPLY'', kProgramReadB OR kProgramNoAdjoint)"
| "program_code_spec P_MDIVIDE_LEFT = (''MDIVIDE_LEFT'', kProgramRangeA OR kProgramRangeB OR kProgramReadB OR kProgramRangeOutput OR kProgramNoAdjoint)"
| "program_code_spec P_MDIVIDE_RIGHT_SPD = (''MDIVIDE_RIGHT_SPD'', kProgramRangeA OR kProgramRangeB OR kProgramReadB OR kProgramRangeOutput OR kProgramNoAdjoint)"
| "program_code_spec P_DENSITY = (''DENSITY'', 0)"
| "program_code_spec P_CALL = (''CALL'', 0)"
| "program_code_spec P_TRANSFORM = (''TRANSFORM'', kProgramNoInputs OR kProgramNoAdjoint OR kProgramNoOutput)"
| "program_code_spec P_PRINT = (''PRINT'', kProgramNoInputs OR kProgramNoAdjoint OR kProgramNoOutput)"
| "program_code_spec P_REJECT = (''REJECT'', kProgramNoInputs OR kProgramNoAdjoint OR kProgramNoOutput)"
| "program_code_spec P_DENSITY_VEC = (''DENSITY_VEC'', kProgramNoAdjoint)"
| "program_code_spec P_RANGE = (''RANGE'', 0)"
| "program_code_spec P_ERFC = (''ERFC'', kProgramSaveA)"
| "program_code_spec P_LOG1P = (''LOG1P'', kProgramSaveA)"
| "program_code_spec P_LOG1M_EXP = (''LOG1M_EXP'', kProgramSaveA)"
| "program_code_spec P_INV_SQUARE = (''INV_SQUARE'', kProgramSaveA)"
| "program_code_spec P_PATH = (''PATH'', kProgramNoInputs OR kProgramRangeOutput OR kProgramNoAdjoint)"

lemma has_NoInputs: "has (program_code_spec c) kProgramNoInputs \<longleftrightarrow> c \<in> {P_CONST, P_FILL, P_CONSTR, P_JMP, P_TRANSFORM, P_PRINT, P_REJECT, P_PATH}"
  by (cases c) (simp_all add: has_def)

lemma has_NoAdjoint: "has (program_code_spec c) kProgramNoAdjoint \<longleftrightarrow> c \<in> {P_DYN_SET, P_EXTREMA_RANGE, P_JZ, P_JMP, P_DYN_LSE_RANGE, P_DIAG_PRE_MULTIPLY, P_DIAG_POST_MULTIPLY, P_MDIVIDE_LEFT, P_MDIVIDE_RIGHT_SPD, P_TRANSFORM, P_PRINT, P_REJECT, P_DENSITY_VEC, P_PATH}"
  by (cases c) (simp_all add: has_def)

lemma has_RangeA: "has (program_code_spec c) kProgramRangeA \<longleftrightarrow> c \<in> {P_MOVR, P_DYN_SET, P_EXTREMA_RANGE, P_LOG_RANGE, P_EXP_RANGE, P_DOT, P_DYN_LSE_RANGE, P_LSE_RANGE, P_SOFTMAX, P_MDIVIDE_LEFT, P_MDIVIDE_RIGHT_SPD}"
  by (cases c) (simp_all add: has_def)

lemma has_RangeB: "has (program_code_spec c) kProgramRangeB \<longleftrightarrow> c \<in> {P_DOT, P_MDIVIDE_LEFT, P_MDIVIDE_RIGHT_SPD}"
  by (cases c) (simp_all add: has_def)

lemma has_SaveA: "has (program_code_spec c) kProgramSaveA \<longleftrightarrow> c \<in> {P_MUL, P_DIV, P_POW, P_FMAX, P_FMIN, P_LOG, P_SQUARE, P_INV, P_FABS, P_LOG1M, P_LOG1P_EXP, P_TANH, P_LOG_RANGE, P_DOT, P_LSE_RANGE, P_LSE2, P_LOG_DIFF_EXP, P_LMULTIPLY, P_LOG_MIX, P_FMA, P_ERFC, P_LOG1P, P_LOG1M_EXP, P_INV_SQUARE}"
  by (cases c) (simp_all add: has_def)

lemma has_SaveB: "has (program_code_spec c) kProgramSaveB \<longleftrightarrow> c \<in> {P_MUL, P_DIV, P_POW, P_FMAX, P_FMIN, P_DYN_INDEX, P_DOT, P_LSE2, P_LOG_DIFF_EXP, P_LMULTIPLY, P_LOG_MIX, P_FMA}"
  by (cases c) (simp_all add: has_def)

lemma has_SaveC: "has (program_code_spec c) kProgramSaveC \<longleftrightarrow> c \<in> {P_LOG_MIX}"
  by (cases c) (simp_all add: has_def)

lemma has_SaveOut: "has (program_code_spec c) kProgramSaveOut \<longleftrightarrow> c \<in> {P_DIV, P_POW, P_EXP, P_SQRT, P_INV_LOGIT, P_EXP_RANGE, P_LSE_RANGE, P_SOFTMAX}"
  by (cases c) (simp_all add: has_def)

lemma has_NoOutput: "has (program_code_spec c) kProgramNoOutput \<longleftrightarrow> c \<in> {P_JZ, P_JMP, P_TRANSFORM, P_PRINT, P_REJECT}"
  by (cases c) (simp_all add: has_def)

lemma has_RangeOutput: "has (program_code_spec c) kProgramRangeOutput \<longleftrightarrow> c \<in> {P_FILL, P_CONSTR, P_MOVR, P_DYN_SET, P_LOG_RANGE, P_EXP_RANGE, P_SOFTMAX, P_MDIVIDE_LEFT, P_MDIVIDE_RIGHT_SPD, P_PATH}"
  by (cases c) (simp_all add: has_def)

lemma has_ReadB: "has (program_code_spec c) kProgramReadB \<longleftrightarrow> c \<in> {P_ADD, P_SUB, P_MUL, P_DIV, P_IMOD, P_IDIV, P_IADD, P_ISUB, P_IMUL, P_POW, P_FMAX, P_FMIN, P_GT, P_GE, P_LT, P_LE, P_EQ, P_NE, P_DYN_SET, P_DYN_INDEX, P_DOT, P_DYN_LSE_RANGE, P_LSE2, P_LOG_DIFF_EXP, P_LMULTIPLY, P_LOG_MIX, P_FMA, P_DIAG_PRE_MULTIPLY, P_DIAG_POST_MULTIPLY, P_MDIVIDE_LEFT, P_MDIVIDE_RIGHT_SPD}"
  by (cases c) (simp_all add: has_def)

lemma has_ReadC: "has (program_code_spec c) kProgramReadC \<longleftrightarrow> c \<in> {P_DYN_SET, P_DYN_LSE_RANGE, P_LOG_MIX, P_FMA}"
  by (cases c) (simp_all add: has_def)

lemmas has_simps = has_NoInputs has_NoAdjoint has_RangeA has_RangeB has_NoOutput has_RangeOutput has_ReadB has_ReadC

declare program_code_spec.simps [simp del]

end
