(* ===== verification/Program.thy ===== *)
theory Program
  imports Opcodes Message Extrema ProgramCode
begin

unbundle bit_operations_syntax

text \<open>
  The register machine (\<^verbatim>\<open>runtime/include/stanli/program.hpp\<close>, and \<^verbatim>\<open>run_range\<close> of
  \<^verbatim>\<open>runtime/src/program.cpp\<close>): its instruction table, the program record and the interpreter
  \<^verbatim>\<open>run_program\<close> on doubles. Registers are addressed by C++ \<^verbatim>\<open>int\<close>s from the start of the register file; an
  access outside the file is undefined in C++ and is an ordinary cell here, so the theorems that need
  spans inside the file say so. The scalar type \<open>'d\<close>, its arithmetic and the Stan Math and Eigen functions
  the interpreter calls are the parameter record \<open>num\<close>; graph kernels reached by \<^verbatim>\<open>CALL\<close> and the
  Stan Math constraint transforms are fields of it too. The replay on autodiff scalars is not modelled.
\<close>

section \<open>Programs\<close>

record Instr =
  i_code :: Code
  i_sub :: Code
  i_bcast :: "8 word"
  i_law :: "8 word"
  i_dst :: int
  i_a :: int
  i_b :: int
  i_c :: int
  i_len :: int

text \<open>A range of registers is its first register and its length. The pairs \<^verbatim>\<open>in[k], in_len[k]\<close> for
  \<^verbatim>\<open>k < n_in\<close> are one list; \<open>c_forward\<close> and \<open>c_backward\<close> say whether the kernel pointers are bound. The
  \<open>c_bwd_\<close> fields are what the adjoint generator caches; a forward kernel sees none of them.\<close>

type_synonym span = "int \<times> int"

record 'u Call =
  c_opcode :: nat
  c_variant :: nat
  c_input_adjoint_mask :: "8 word"
  c_forward :: bool
  c_backward :: bool
  c_in :: "span list"
  c_out :: span
  c_scratch :: span
  c_idata :: "int list"
  c_udata :: "'u option"
  c_bwd_value_in :: "int list"
  c_bwd_adj_in :: "int list"
  c_bwd_value_out :: int
  c_bwd_adj_out :: int

record PMessage =
  m_spec :: MessageSpec
  m_value :: "span list"      \<comment> \<open>\<^verbatim>\<open>value_reg[k], value_len[k]\<close>\<close>

record Transform =
  t_kind :: nat
  t_direction :: nat
  t_in :: "span list"
  t_out :: span
  t_jac :: int
  t_shape :: "int list"       \<comment> \<open>batch, inner_raw and the row and column counts\<close>

record VecDensity =
  v_density_id :: int
  v_container_mask :: "8 word"
  v_len :: int
  v_arg_reg :: "int list"     \<comment> \<open>\<^verbatim>\<open>arg_reg[0 .. arity)\<close>\<close>

record ('d, 'u) Program =
  code :: "Instr list"
  calls :: "'u Call list"
  transforms :: "Transform list"
  messages :: "PMessage list"
  pool :: "'d list"
  vec_densities :: "VecDensity list"
  n_regs :: int
  out_regs :: "int list"

section \<open>Shape of an instruction\<close>

definition program_rule :: "Instr \<Rightarrow> Code" where
  "program_rule I = (if i_code I = P_RANGE then i_sub I else i_code I)"

definition program_spec_of :: "Instr \<Rightarrow> ProgramOpSpec" where
  "program_spec_of I = program_code_spec (program_rule I)"

definition program_output_len :: "Instr \<Rightarrow> int" where
  "program_output_len I =
     (if i_code I = P_RANGE then i_len I
      else if i_code I = P_DIAG_PRE_MULTIPLY \<or> i_code I = P_DIAG_POST_MULTIPLY then i_c I * i_len I
      else let spec = program_code_spec (i_code I) in
           if has spec kProgramNoOutput then 0 else if has spec kProgramRangeOutput then i_len I else 1)"

definition program_reads :: "Instr \<Rightarrow> nat \<Rightarrow> bool" where
  "program_reads I k =
     (let spec = program_spec_of I in
      if k = 0 then \<not> has spec kProgramNoInputs
      else if k = 1 then has spec kProgramReadB
      else has spec kProgramReadC)"

definition program_input_len :: "Instr \<Rightarrow> nat \<Rightarrow> int" where
  "program_input_len I k =
     (if i_code I = P_RANGE then (if bit (i_bcast I) k then 1 else i_len I)
      else let spec = program_code_spec (i_code I) in
           if k = 0 then (if has spec kProgramRangeA then i_len I else 1)
           else if k = 1 then (if has spec kProgramRangeB then i_len I else 1)
           else 1)"

text \<open>\<^verbatim>\<open>runtime/src/program_density.cpp\<close>: the density ids index the scalar density and distribution-function
  lists of the opcode table.\<close>

definition kDensities :: "density_row list" where
  "kDensities = STANLI_SCALAR_DENSITY_LIST @ STANLI_SCALAR_CDF_LIST"

definition program_density_arity :: "int \<Rightarrow> int" where
  "program_density_arity d =
     (if d < 0 \<or> d \<ge> int (length kDensities) then 0
      else case kDensities ! nat d of (_, _, arity, _) \<Rightarrow> int arity)"

section \<open>Scalars\<close>

text \<open>
  \<open>n_index x\<close> is the integer value of a finite double with \<^verbatim>\<open>trunc(x) == x\<close> and \<open>None\<close> otherwise; comparing
  such a double with an \<^verbatim>\<open>int\<close> is exact. \<open>n_int\<close> is \<^verbatim>\<open>static_cast<int>\<close>. A Stan Math function may throw.
\<close>

record ('d, 'u, 'w) num =
  n_add :: "'d \<Rightarrow> 'd \<Rightarrow> 'd"
  n_sub :: "'d \<Rightarrow> 'd \<Rightarrow> 'd"
  n_mul :: "'d \<Rightarrow> 'd \<Rightarrow> 'd"
  n_div :: "'d \<Rightarrow> 'd \<Rightarrow> 'd"
  n_neg :: "'d \<Rightarrow> 'd"
  n_lt :: "'d \<Rightarrow> 'd \<Rightarrow> bool"
  n_eq :: "'d \<Rightarrow> 'd \<Rightarrow> bool"
  n_std_exp :: "'d \<Rightarrow> 'd"
  n_isinf :: "'d \<Rightarrow> bool"
  n_inf :: "'d"
  n_int :: "'d \<Rightarrow> int"
  n_of_int :: "int \<Rightarrow> 'd"
  n_index :: "'d \<Rightarrow> int option"
  n_io :: "'d scalar_io"
  n_unary :: "Code \<Rightarrow> 'd \<Rightarrow> std_error + 'd"
  n_binary :: "Code \<Rightarrow> 'd \<Rightarrow> 'd \<Rightarrow> std_error + 'd"
  n_ternary :: "Code \<Rightarrow> 'd \<Rightarrow> 'd \<Rightarrow> 'd \<Rightarrow> std_error + 'd"
  n_int_binary :: "Code \<Rightarrow> int \<Rightarrow> int \<Rightarrow> std_error + int"
  n_reduce :: "Code \<Rightarrow> 'd list \<Rightarrow> std_error + 'd"
  n_dot :: "'d list \<Rightarrow> 'd list \<Rightarrow> 'd"
  n_softmax :: "'d list \<Rightarrow> std_error + 'd list"
  n_extremum :: "bool \<Rightarrow> 'd list \<Rightarrow> std_error + 'd"
  n_extremum_op :: "bool \<Rightarrow> 'd packet_func"
  n_packet :: packet_traits
  n_empty_int :: "bool \<Rightarrow> std_error"
  n_matrix :: "Code \<Rightarrow> int \<Rightarrow> int \<Rightarrow> 'd list \<Rightarrow> 'd list \<Rightarrow> std_error + 'd list"
  n_density :: "int \<Rightarrow> 'd list \<Rightarrow> std_error + 'd"
  n_density_vec :: "int \<Rightarrow> 8 word \<Rightarrow> int \<Rightarrow> 'd list list \<Rightarrow> std_error + 'd"
  n_kernel :: "'u Call \<Rightarrow> 'd list list \<Rightarrow> 'w \<Rightarrow> std_error + 'd list \<times> 'd list \<times> 'w"
  n_transform :: "Transform \<Rightarrow> 'd list list \<Rightarrow> std_error + 'd list \<times> 'd"

definition bind_res :: "std_error + 'a \<Rightarrow> ('a \<Rightarrow> std_error + 'b) \<Rightarrow> std_error + 'b" where
  "bind_res r f = (case r of Inl e \<Rightarrow> Inl e | Inr x \<Rightarrow> f x)"

lemma bind_res_simps [simp]: "bind_res (Inl e) f = Inl e" "bind_res (Inr x) f = f x"
  by (simp_all add: bind_res_def)

text \<open>Signed overflow of a Stan integer operation is undefined.\<close>

definition int32_result :: "('d, 'u, 'w) num \<Rightarrow> int \<Rightarrow> std_error + 'd" where
  "int32_result N i = (if - (2 ^ 31) \<le> i \<and> i < 2 ^ 31 then Inr (n_of_int N i) else Inl UndefinedBehaviour)"

definition program_extremum :: "('d, 'u, 'w) num \<Rightarrow> bool \<Rightarrow> 'd \<Rightarrow> 'd \<Rightarrow> std_error + 'd" where
  "program_extremum N maximum x y = (if maximum then n_binary N P_FMAX x y else n_binary N P_FMIN x y)"

definition program_pow :: "('d, 'u, 'w) num \<Rightarrow> 'd \<Rightarrow> 'd \<Rightarrow> std_error + 'd" where
  "program_pow N x y = n_binary N P_POW x y"

definition STANLI_PROGRAM_UNARY_LIST :: "Code set" where
  "STANLI_PROGRAM_UNARY_LIST = {P_EXP, P_LOG, P_SQRT, P_SQUARE, P_INV, P_FABS, P_INV_LOGIT, P_LOG1M, P_LOG1P_EXP,
     P_TANH, P_ERFC, P_LOG1P, P_LOG1M_EXP, P_INV_SQUARE}"

section \<open>Register files\<close>

type_synonym 'd regs = "int \<Rightarrow> 'd"

definition rd :: "'d regs \<Rightarrow> span \<Rightarrow> 'd list" where
  "rd reg s = map (\<lambda>k. reg (fst s + int k)) [0..<nat (snd s)]"

definition wr :: "int \<Rightarrow> 'd list \<Rightarrow> 'd regs \<Rightarrow> 'd regs" where
  "wr r vs reg = (\<lambda>x. if r \<le> x \<and> x < r + int (length vs) then vs ! nat (x - r) else reg x)"

text \<open>The loops \<^verbatim>\<open>for (i = 0; i < len; ++i) reg[dst + i] = f(i)\<close>, where \<open>f\<close> reads the current registers.\<close>

fun each_elem :: "(int \<Rightarrow> 'd regs \<Rightarrow> std_error + 'd) \<Rightarrow> int \<Rightarrow> int list \<Rightarrow> 'd regs \<Rightarrow> std_error + 'd regs" where
  "each_elem f dst [] reg = Inr reg"
| "each_elem f dst (k # ks) reg = bind_res (f k reg) (\<lambda>v. each_elem f dst ks (reg(dst + k := v)))"

text \<open>\<open>base\<close> is the address of register zero; a double is eight bytes.\<close>

definition fill_head_elements :: "int \<Rightarrow> int \<Rightarrow> int" where
  "fill_head_elements dst len = (let misaligned = dst mod 64; head = ((64 - misaligned) mod 64) div 8
     in if head < len then head else len)"

definition fill_n :: "int \<Rightarrow> int \<Rightarrow> 'd \<Rightarrow> 'd regs \<Rightarrow> 'd regs" where
  "fill_n dst n v reg = wr dst (replicate (nat n) v) reg"

definition fill_registers :: "int \<Rightarrow> int \<Rightarrow> int \<Rightarrow> 'd \<Rightarrow> 'd regs \<Rightarrow> 'd regs" where
  "fill_registers base dst len v reg =
     (if len \<ge> 16 then
        let head = fill_head_elements (base + 8 * dst) len
        in fill_n (dst + head) (len - head) v (fill_n dst head v reg)
      else fill_n dst len v reg)"

section \<open>Instructions\<close>

text \<open>The scalar instructions: the value assigned to \<^verbatim>\<open>d()\<close> from the operands \<^verbatim>\<open>ra()\<close>, \<^verbatim>\<open>rb()\<close> and \<^verbatim>\<open>reg[c]\<close>.\<close>

definition int_value :: "('d, 'u, 'w) num \<Rightarrow> Code \<Rightarrow> int \<Rightarrow> int \<Rightarrow> std_error + 'd" where
  "int_value N c x y =
     (if c = P_IADD then int32_result N (x + y)
      else if c = P_ISUB then int32_result N (x - y)
      else if c = P_IMUL then int32_result N (x * y)
      else if c = P_INEG then int32_result N (- x)
      else if c = P_IABS then int32_result N (if x < 0 then - x else x)
      else bind_res (n_int_binary N c x y) (\<lambda>i. Inr (n_of_int N i)))"

definition compare_value :: "('d, 'u, 'w) num \<Rightarrow> Code \<Rightarrow> 'd \<Rightarrow> 'd \<Rightarrow> 'd" where
  "compare_value N c x y = n_of_int N (of_bool
     (if c = P_GT then n_lt N y x
      else if c = P_GE then n_lt N y x \<or> n_eq N x y
      else if c = P_LT then n_lt N x y
      else if c = P_LE then n_lt N x y \<or> n_eq N x y
      else if c = P_EQ then n_eq N x y
      else \<not> n_eq N x y))"

definition alu_value :: "('d, 'u, 'w) num \<Rightarrow> Code \<Rightarrow> 'd \<Rightarrow> 'd \<Rightarrow> 'd \<Rightarrow> std_error + 'd" where
  "alu_value N c x y z =
     (if c = P_MOV then Inr x
      else if c = P_ADD then Inr (n_add N x y)
      else if c = P_SUB then Inr (n_sub N x y)
      else if c = P_MUL then Inr (n_mul N x y)
      else if c = P_DIV then Inr (n_div N x y)
      else if c \<in> {P_IADD, P_ISUB, P_IMUL, P_IMOD, P_IDIV} then int_value N c (n_int N x) (n_int N y)
      else if c \<in> {P_INEG, P_IABS} then int_value N c (n_int N x) 0
      else if c = P_POW then program_pow N x y
      else if c = P_FMAX then program_extremum N True x y
      else if c = P_FMIN then program_extremum N False x y
      else if c = P_NEG then Inr (n_neg N x)
      else if c \<in> STANLI_PROGRAM_UNARY_LIST then n_unary N c x
      else if c \<in> {P_GT, P_GE, P_LT, P_LE, P_EQ, P_NE} then Inr (compare_value N c x y)
      else if c \<in> {P_LSE2, P_LOG_DIFF_EXP, P_LMULTIPLY} then n_binary N c x y
      else if c \<in> {P_LOG_MIX, P_FMA} then n_ternary N c x y z
      else Inl UndefinedBehaviour)"

text \<open>Constants and copies. A constant is \<^verbatim>\<open>pool[a]\<close>.\<close>

definition exec_move :: "('d, 'u, 'w) num \<Rightarrow> int \<Rightarrow> 'd list \<Rightarrow> Instr \<Rightarrow> 'd regs \<Rightarrow> std_error + 'd regs" where
  "exec_move N base konst I reg =
     (if i_code I = P_CONST then Inr (reg(i_dst I := konst ! nat (i_a I)))
      else if i_code I = P_FILL then Inr (fill_registers base (i_dst I) (i_len I) (konst ! nat (i_a I)) reg)
      else if i_code I = P_CONSTR then
        each_elem (\<lambda>k _. Inr (konst ! nat (i_a I + k))) (i_dst I) [0..i_len I - 1] reg
      else if i_code I = P_PATH then
        let taken = n_int N (reg (i_dst I))
        in Inr (reg(i_dst I + 1 + taken := n_of_int N (i_a I), i_dst I := n_of_int N (taken + 1)))
      else each_elem (\<lambda>k r. Inr (r (i_a I + k))) (i_dst I) [0..i_len I - 1] reg)"

text \<open>Accesses by a computed index.\<close>

definition dyn_index :: "('d, 'u, 'w) num \<Rightarrow> 'd \<Rightarrow> int \<Rightarrow> int option" where
  "dyn_index N raw len = (case n_index N raw of None \<Rightarrow> None | Some i \<Rightarrow> if i < 1 \<or> i > len then None else Some i)"

definition exec_dyn :: "('d, 'u, 'w) num \<Rightarrow> Instr \<Rightarrow> 'd regs \<Rightarrow> std_error + 'd regs" where
  "exec_dyn N I reg =
     (if i_code I = P_DYN_SET then
        case dyn_index N (reg (i_c I)) (i_len I) of
          None \<Rightarrow> Inl (OutOfRange ''register-program assignment index out of range'')
        | Some i \<Rightarrow>
            let ks = [0..i_len I - 1];
                copy = each_elem (\<lambda>k r. Inr (r (i_a I + k))) (i_dst I) in
            bind_res (if i_a I < i_dst I \<and> i_dst I < i_a I + i_len I then copy (rev ks) reg
                      else if i_dst I \<noteq> i_a I then copy ks reg
                      else Inr reg)
              (\<lambda>r. Inr (r(i_dst I + i - 1 := reg (i_b I))))
      else if i_code I = P_DYN_INDEX then
        case dyn_index N (reg (i_b I)) (i_len I) of
          None \<Rightarrow> Inl (OutOfRange ''register-program index out of range'')
        | Some i \<Rightarrow> Inr (reg(i_dst I := reg (i_a I + i_c I + i - 1)))
      else
        case (n_index N (reg (i_b I)), n_index N (reg (i_c I))) of
          (Some lo, Some hi) \<Rightarrow>
            if hi < lo then Inr (reg(i_dst I := n_neg N (n_inf N)))
            else if lo < 1 \<or> hi > i_len I then Inl (OutOfRange ''register-program slice out of range'')
            else bind_res (n_reduce N P_LSE_RANGE (rd reg (i_a I + lo - 1, hi - lo + 1)))
                   (\<lambda>v. Inr (reg(i_dst I := v)))
        | _ \<Rightarrow> Inl (OutOfRange ''register-program slice bounds invalid''))"

text \<open>Minimum and maximum of a range. The packet grouping of the source expression is in \<^verbatim>\<open>c\<close>:
  \<^verbatim>\<open>kProgramExtremaInteger\<close>, \<^verbatim>\<open>kProgramExtremaScalar\<close>, \<^verbatim>\<open>kProgramExtremaPhased\<close> are its bits 0, 1, 2, and the phase is
  above \<^verbatim>\<open>kProgramExtremaPhaseShift\<close>.\<close>

definition scalar_extremum :: "('d, 'u, 'w) num \<Rightarrow> bool \<Rightarrow> 'd list \<Rightarrow> 'd" where
  "scalar_extremum N maximum xs =
     fold (\<lambda>candidate selected.
             if (if maximum then n_lt N selected candidate else n_lt N candidate selected)
             then candidate else selected) (tl xs) (hd xs)"

definition extrema_value :: "('d, 'u, 'w) num \<Rightarrow> Instr \<Rightarrow> 'd list \<Rightarrow> std_error + 'd" where
  "extrema_value N I xs =
     (let maximum = i_b I \<noteq> 0 in
      if bit (i_c I) 0 \<and> i_len I = 0 then Inl (n_empty_int N maximum)
      else if i_len I = 0 then Inr (if maximum then n_neg N (n_inf N) else n_inf N)
      else if bit (i_c I) 1 then Inr (scalar_extremum N maximum xs)
      else if bit (i_c I) 2 then
        Inr (extrema_phased (n_packet N) (n_extremum_op N) xs (nat (drop_bit 3 (i_c I))) maximum)
      else n_extremum N maximum xs)"

definition exec_vector :: "('d, 'u, 'w) num \<Rightarrow> Instr \<Rightarrow> 'd regs \<Rightarrow> std_error + 'd regs" where
  "exec_vector N I reg =
     (let xs = rd reg (i_a I, i_len I) in
      if i_code I = P_LOG_RANGE then
        each_elem (\<lambda>k r. n_unary N P_LOG (r (i_a I + k))) (i_dst I) [0..i_len I - 1] reg
      else if i_code I = P_EXP_RANGE then
        each_elem (\<lambda>k r. n_unary N P_EXP (r (i_a I + k))) (i_dst I) [0..i_len I - 1] reg
      else if i_code I = P_SOFTMAX then
        bind_res (n_softmax N xs) (\<lambda>v. Inr (wr (i_dst I) (map (\<lambda>i. v ! i) [0..<nat (i_len I)]) reg))
      else
        bind_res (if i_code I = P_EXTREMA_RANGE then extrema_value N I xs
                  else if i_code I = P_DOT then Inr (n_dot N xs (rd reg (i_b I, i_len I)))
                  else n_reduce N P_LSE_RANGE xs)
          (\<lambda>v. Inr (reg(i_dst I := v))))"

definition exec_matrix :: "('d, 'u, 'w) num \<Rightarrow> Instr \<Rightarrow> 'd regs \<Rightarrow> std_error + 'd regs" where
  "exec_matrix N I reg =
     (if i_code I = P_DIAG_PRE_MULTIPLY \<or> i_code I = P_DIAG_POST_MULTIPLY then
        let rows = i_c I; cols = i_len I;
            vlen = (if i_code I = P_DIAG_PRE_MULTIPLY then rows else cols) in
        if rows = 0 \<or> cols = 0 then Inr reg
        else bind_res (n_matrix N (i_code I) rows cols (rd reg (i_a I, vlen)) (rd reg (i_b I, rows * cols)))
               (\<lambda>v. Inr (wr (i_dst I) v reg))
      else
        let n = \<bar>i_c I\<bar>;
            other = (if i_c I < 0 then 1 else i_len I div n) in
        if n = 0 \<or> i_len I = 0 then Inr reg
        else bind_res (n_matrix N (i_code I) (i_c I) other (rd reg (i_a I, n * n)) (rd reg (i_b I, n * other)))
               (\<lambda>v. Inr (wr (i_dst I) v reg)))"

text \<open>Densities and callable transforms.\<close>

definition density_args :: "Instr \<Rightarrow> 'd regs \<Rightarrow> 'd list" where
  "density_args I reg =
     (let ar = program_density_arity (i_len I) in
      if ar > 3 then rd reg (i_a I, ar)
      else [reg (i_a I)] @ (if ar > 1 then [reg (i_b I)] else []) @ (if ar > 2 then [reg (i_c I)] else []))"

definition vec_args :: "VecDensity \<Rightarrow> span list" where
  "vec_args v = map (\<lambda>k. (v_arg_reg v ! k, if bit (v_container_mask v) k then v_len v else 1))
                    [0..<length (v_arg_reg v)]"

definition transform_static :: "Transform \<Rightarrow> Transform" where
  "transform_static tr = tr\<lparr>t_in := map (\<lambda>s. (0, snd s)) (t_in tr), t_out := (0, snd (t_out tr)), t_jac := 0\<rparr>"

definition exec_density :: "('d, 'u, 'w) num \<Rightarrow> ('d, 'u) Program \<Rightarrow> Instr \<Rightarrow> 'd regs \<Rightarrow> std_error + 'd regs" where
  "exec_density N p I reg =
     (if i_code I = P_DENSITY then
        bind_res (n_density N (i_len I) (density_args I reg)) (\<lambda>v. Inr (reg(i_dst I := v)))
      else if i_code I = P_DENSITY_VEC then
        let v = vec_densities p ! nat (i_a I) in
        bind_res (n_density_vec N (v_density_id v) (v_container_mask v) (v_len v) (map (rd reg) (vec_args v)))
          (\<lambda>x. Inr (reg(i_dst I := x)))
      else
        let tr = transforms p ! nat (i_a I) in
        bind_res (n_transform N (transform_static tr) (map (rd reg) (t_in tr)))
          (\<lambda>(v, lp). Inr ((wr (fst (t_out tr)) v reg)(t_jac tr := lp))))"

text \<open>\<^verbatim>\<open>run_range\<close>: a scalar rule over the elements, with broadcast operands held at one register.\<close>

definition inv_logit_range :: "('d, 'u, 'w) num \<Rightarrow> 'd \<Rightarrow> 'd" where
  "inv_logit_range N x =
     (let e = n_std_exp N x
      in if n_isinf N e then n_of_int N 1 else n_div N e (n_add N (n_of_int N 1) e))"

definition range_value :: "('d, 'u, 'w) num \<Rightarrow> Code \<Rightarrow> 'd \<Rightarrow> 'd \<Rightarrow> 'd \<Rightarrow> std_error + 'd" where
  "range_value N c x y z = (if c = P_INV_LOGIT then Inr (inv_logit_range N x) else alu_value N c x y z)"

definition ranged :: "Code \<Rightarrow> bool" where
  "ranged c \<longleftrightarrow> c \<in> {P_ADD, P_SUB, P_MUL, P_DIV, P_POW, P_FMAX, P_FMIN, P_NEG, P_LSE2, P_LOG_DIFF_EXP, P_LMULTIPLY,
     P_LOG_MIX, P_FMA} \<union> STANLI_PROGRAM_UNARY_LIST"

definition run_range :: "('d, 'u, 'w) num \<Rightarrow> Instr \<Rightarrow> 'd regs \<Rightarrow> std_error + 'd regs" where
  "run_range N I reg =
     (let sa = (if program_input_len I 0 > 1 then 1 else 0);
          sb = (if program_reads I 1 \<and> program_input_len I 1 > 1 then 1 else 0);
          sc = (if program_reads I 2 \<and> program_input_len I 2 > 1 then 1 else 0);
          rule = program_rule I in
      if \<not> ranged rule then Inl (LogicError ''run_range: unknown sub-opcode'')
      else each_elem (\<lambda>k r. range_value N rule (r (i_a I + sa * k)) (r (i_b I + sb * k)) (r (i_c I + sc * k)))
             (i_dst I) [0..i_len I - 1] reg)"

text \<open>Every instruction that only touches registers.\<close>

definition exec_regs :: "('d, 'u, 'w) num \<Rightarrow> int \<Rightarrow> ('d, 'u) Program \<Rightarrow> Instr \<Rightarrow> 'd regs \<Rightarrow> std_error + 'd regs" where
  "exec_regs N base p I reg =
     (let c = i_code I in
      if c \<in> {P_CONST, P_FILL, P_CONSTR, P_PATH, P_MOVR} then exec_move N base (pool p) I reg
      else if c \<in> {P_DYN_SET, P_DYN_INDEX, P_DYN_LSE_RANGE} then exec_dyn N I reg
      else if c \<in> {P_EXTREMA_RANGE, P_LOG_RANGE, P_EXP_RANGE, P_DOT, P_LSE_RANGE, P_SOFTMAX} then exec_vector N I reg
      else if c \<in> {P_DIAG_PRE_MULTIPLY, P_DIAG_POST_MULTIPLY, P_MDIVIDE_LEFT, P_MDIVIDE_RIGHT_SPD} then exec_matrix N I reg
      else if c \<in> {P_DENSITY, P_DENSITY_VEC, P_TRANSFORM} then exec_density N p I reg
      else if c = P_RANGE then run_range N I reg
      else bind_res (alu_value N c (reg (i_a I)) (reg (i_b I)) (reg (i_c I))) (\<lambda>v. Inr (reg(i_dst I := v))))"

section \<open>The interpreter\<close>

record ('d, 'w) mach =
  m_reg :: "'d regs"
  m_pc :: int
  m_world :: 'w
  m_sink :: "string list"

definition call_static :: "'u Call \<Rightarrow> 'u Call" where
  "call_static c = c\<lparr>c_in := map (\<lambda>s. (0, snd s)) (c_in c), c_out := (0, snd (c_out c)),
                     c_scratch := (0, snd (c_scratch c)), c_input_adjoint_mask := 0,
                     c_bwd_value_in := [], c_bwd_adj_in := [], c_bwd_value_out := 0, c_bwd_adj_out := 0\<rparr>"

definition run_call :: "('d, 'u, 'w) num \<Rightarrow> 'u Call \<Rightarrow> 'd regs \<Rightarrow> 'w \<Rightarrow> std_error + 'd regs \<times> 'w" where
  "run_call N c reg w =
     (if \<not> c_forward c then Inl (LogicError ''unbound Program::CALL forward'')
      else bind_res (n_kernel N (call_static c) (map (rd reg) (c_in c)) w)
        (\<lambda>(v, sc, w'). if length v = nat (snd (c_out c)) \<and> length sc = nat (snd (c_scratch c))
           then Inr (wr (fst (c_scratch c)) sc (wr (fst (c_out c)) v reg), w')
           else Inl KernelError))"

text \<open>\<^verbatim>\<open>shapes.at(k)\<close> is a checked access.\<close>

definition render_program_message :: "('d, 'u, 'w) num \<Rightarrow> PMessage \<Rightarrow> 'd regs \<Rightarrow> std_error + string" where
  "render_program_message N m reg =
     (if length (chunks (m_spec m)) = length (m_value m) + 1 \<and> length (shapes (m_spec m)) < length (m_value m)
      then Inl (OutOfRange ''vector'')
      else render_message (n_io N) (m_spec m) (length (m_value m)) (\<lambda>k. shapes (m_spec m) ! k)
             (\<lambda>k i. reg (fst (m_value m ! k) + i)))"

definition exec_instr :: "('d, 'u, 'w) num \<Rightarrow> int \<Rightarrow> ('d, 'u) Program \<Rightarrow> Instr \<Rightarrow> ('d, 'w) mach \<Rightarrow> std_error + ('d, 'w) mach" where
  "exec_instr N base p I s =
     (let reg = m_reg s in
      if i_code I = P_JZ then
        Inr (if n_eq N (reg (i_a I)) (n_of_int N 0) then s\<lparr>m_pc := i_dst I - 1\<rparr> else s)
      else if i_code I = P_JMP then Inr (s\<lparr>m_pc := i_dst I - 1\<rparr>)
      else if i_code I = P_CALL then
        bind_res (run_call N (calls p ! nat (i_a I)) reg (m_world s))
          (\<lambda>(r, w). Inr (s\<lparr>m_reg := r, m_world := w\<rparr>))
      else if i_code I = P_PRINT then
        bind_res (render_program_message N (messages p ! nat (i_a I)) reg)
          (\<lambda>t. bind_res (execute_message Print t (m_sink s)) (\<lambda>k. Inr (s\<lparr>m_sink := k\<rparr>)))
      else if i_code I = P_REJECT then
        bind_res (render_program_message N (messages p ! nat (i_a I)) reg)
          (\<lambda>t. Inl (throw_message (msg_error (m_spec (messages p ! nat (i_a I)))) t))
      else bind_res (exec_regs N base p I reg) (\<lambda>r. Inr (s\<lparr>m_reg := r\<rparr>)))"

text \<open>One round of the loop: the instruction, then \<^verbatim>\<open>++pc\<close>. A branch to a negative target is undefined.\<close>

definition step :: "('d, 'u, 'w) num \<Rightarrow> int \<Rightarrow> ('d, 'u) Program \<Rightarrow> ('d, 'w) mach \<Rightarrow> std_error + ('d, 'w) mach" where
  "step N base p s =
     (if m_pc s < 0 then Inl UndefinedBehaviour
      else bind_res (exec_instr N base p (code p ! nat (m_pc s)) s) (\<lambda>s'. Inr (s'\<lparr>m_pc := m_pc s' + 1\<rparr>)))"

text \<open>
  \<open>None\<close> is a run that has not ended after \<open>fuel\<close> instructions. An exception carries what was printed
  before it.
\<close>

fun run_program :: "('d, 'u, 'w) num \<Rightarrow> int \<Rightarrow> ('d, 'u) Program \<Rightarrow> nat \<Rightarrow> ('d, 'w) mach
    \<Rightarrow> (std_error \<times> string list + ('d, 'w) mach) option" where
  "run_program N base p fuel s =
     (if m_pc s \<ge> int (length (code p)) then Some (Inr s)
      else case fuel of 0 \<Rightarrow> None
        | Suc n \<Rightarrow> (case step N base p s of
              Inl e \<Rightarrow> Some (Inl (e, m_sink s))
            | Inr s' \<Rightarrow> run_program N base p n s'))"

declare run_program.simps [simp del]

definition start :: "'d regs \<Rightarrow> 'w \<Rightarrow> ('d, 'w) mach" where
  "start reg w = \<lparr>m_reg = reg, m_pc = 0, m_world = w, m_sink = []\<rparr>"

end
