(* ===== verification/ProgramSpans.thy ===== *)
theory ProgramSpans
  imports Program
begin

text \<open>
  The register spans an instruction reads and writes (\<^verbatim>\<open>each_read\<close> and \<^verbatim>\<open>each_write\<close> of
  \<^verbatim>\<open>runtime/src/program.cpp\<close>), which every pass over programs relies on, and the theorem that they are
  what the interpreter does: an instruction whose reads hold equal values behaves the same, and it changes no
  register outside its writes.
\<close>

section \<open>Spans\<close>

definition each_write :: "('d, 'u) Program \<Rightarrow> Instr \<Rightarrow> span list" where
  "each_write p I =
     (if i_code I = P_CALL then
        let c = calls p ! nat (i_a I) in [c_out c, c_scratch c]
      else if i_code I = P_TRANSFORM then
        let tr = transforms p ! nat (i_a I) in [t_out tr, (t_jac tr, 1)]
      else
        let l = program_output_len I in if l > 0 then [(i_dst I, l)] else [])"

definition each_read :: "('d, 'u) Program \<Rightarrow> Instr \<Rightarrow> span list" where
  "each_read p I =
     (if i_code I = P_DYN_INDEX then [(i_a I + i_c I, i_len I), (i_b I, 1)]
      else if i_code I = P_CALL then c_in (calls p ! nat (i_a I))
      else if i_code I = P_TRANSFORM then t_in (transforms p ! nat (i_a I))
      else if i_code I = P_DENSITY then
        let arity = program_density_arity (i_len I) in
        if arity > 3 then [(i_a I, arity)]
        else [(i_a I, 1)] @ (if arity > 1 then [(i_b I, 1)] else []) @ (if arity > 2 then [(i_c I, 1)] else [])
      else if i_code I = P_DENSITY_VEC then vec_args (vec_densities p ! nat (i_a I))
      else if i_code I = P_PRINT \<or> i_code I = P_REJECT then m_value (messages p ! nat (i_a I))
      else let spec = program_spec_of I in
        if has spec kProgramNoInputs then []
        else [(i_a I, program_input_len I 0)]
             @ (if has spec kProgramReadB then [(i_b I, program_input_len I 1)] else [])
             @ (if has spec kProgramReadC then [(i_c I, program_input_len I 2)] else []))"

definition branches :: "Code \<Rightarrow> bool" where
  "branches c \<longleftrightarrow> c = P_JZ \<or> c = P_JMP"

definition overlaps :: "span \<Rightarrow> span \<Rightarrow> bool" where
  "overlaps l r \<longleftrightarrow> fst l < fst r + snd r \<and> fst r < fst l + snd l"

text \<open>The instructions whose spans the passes trust: the guard of \<^verbatim>\<open>program_initializes_reads\<close>.\<close>

definition spans_modelled :: "Instr \<Rightarrow> bool" where
  "spans_modelled I \<longleftrightarrow> \<not> (has (program_spec_of I) kProgramNoAdjoint \<and> i_code I \<noteq> P_JZ \<and> i_code I \<noteq> P_JMP
     \<and> i_code I \<noteq> P_DYN_SET \<and> i_code I \<noteq> P_DYN_LSE_RANGE \<and> i_code I \<noteq> P_PRINT \<and> i_code I \<noteq> P_REJECT)"

section \<open>Agreement\<close>

definition cells :: "span list \<Rightarrow> int set" where
  "cells ss = (\<Union>s \<in> set ss. {fst s..<fst s + snd s})"

definition agree :: "int set \<Rightarrow> 'd regs \<Rightarrow> 'd regs \<Rightarrow> bool" where
  "agree R r1 r2 \<longleftrightarrow> (\<forall>x \<in> R. r1 x = r2 x)"

lemma cells_simps [simp]:
  "cells [] = {}" "cells (s # ss) = {fst s..<fst s + snd s} \<union> cells ss" "cells (ss @ ts) = cells ss \<union> cells ts"
  by (auto simp: cells_def)

lemma agree_Un [simp]: "agree (A \<union> B) r1 r2 \<longleftrightarrow> agree A r1 r2 \<and> agree B r1 r2"
  by (auto simp: agree_def)

lemma agree_empty [simp]: "agree {} r1 r2"
  by (simp add: agree_def)

lemma agree_refl [simp]: "agree A r r"
  by (simp add: agree_def)

lemma agree_sym: "agree A r1 r2 \<Longrightarrow> agree A r2 r1"
  by (simp add: agree_def)

lemma agree_subset: "agree A r1 r2 \<Longrightarrow> B \<subseteq> A \<Longrightarrow> agree B r1 r2"
  by (auto simp: agree_def)

lemma agreeD: "agree A r1 r2 \<Longrightarrow> x \<in> A \<Longrightarrow> r1 x = r2 x"
  by (simp add: agree_def)

lemma agree_rd: "agree {r..<r + n} r1 r2 \<Longrightarrow> rd r1 (r, n) = rd r2 (r, n)"
  by (auto simp: rd_def agree_def)

lemma agree_rd_sub: "agree {r..<r + n} r1 r2 \<Longrightarrow> r \<le> q \<Longrightarrow> q + m \<le> r + n \<Longrightarrow> rd r1 (q, m) = rd r2 (q, m)"
  by (rule agree_rd) (erule agree_subset, auto)

lemma agree_rd_list: "agree (cells ss) r1 r2 \<Longrightarrow> map (rd r1) ss = map (rd r2) ss"
  by (induction ss) (auto simp: agree_rd)

lemma length_rd [simp]: "length (rd reg s) = nat (snd s)"
  by (simp add: rd_def)

text \<open>How a register transformer reads and writes.\<close>

definition framed :: "int set \<Rightarrow> int set \<Rightarrow> ('d regs \<Rightarrow> std_error + 'd regs) \<Rightarrow> bool" where
  "framed R W f \<longleftrightarrow> (\<forall>r1 r2. agree R r1 r2 \<longrightarrow>
     (case f r1 of
        Inl e \<Rightarrow> f r2 = Inl e
      | Inr s1 \<Rightarrow> (\<exists>s2. f r2 = Inr s2 \<and> agree W s1 s2 \<and> (\<forall>x. x \<notin> W \<longrightarrow> s1 x = r1 x \<and> s2 x = r2 x))))"

lemma framedI:
  assumes "\<And>r1 r2. agree R r1 r2 \<Longrightarrow>
    (\<exists>e. f r1 = Inl e \<and> f r2 = Inl e) \<or>
    (\<exists>s1 s2. f r1 = Inr s1 \<and> f r2 = Inr s2 \<and> agree W s1 s2 \<and> (\<forall>x. x \<notin> W \<longrightarrow> s1 x = r1 x \<and> s2 x = r2 x))"
  shows "framed R W f"
  using assms unfolding framed_def by (fastforce split: sum.splits)

lemma framedE:
  assumes "framed R W f" "agree R r1 r2" "f r1 = Inr s1"
  obtains s2 where "f r2 = Inr s2" "agree W s1 s2" "\<forall>x. x \<notin> W \<longrightarrow> s1 x = r1 x \<and> s2 x = r2 x"
  using assms unfolding framed_def by fastforce

lemma bind_res_assoc: "bind_res (bind_res r f) g = bind_res r (\<lambda>x. bind_res (f x) g)"
  by (cases r) simp_all

lemma framed_const: "framed R W (\<lambda>reg. Inl e)"
  by (simp add: framed_def)

lemma framed_set:
  assumes "\<And>r1 r2. agree R r1 r2 \<Longrightarrow> f r1 = f r2"
  shows "framed R {d..<d + 1} (\<lambda>reg. bind_res (f reg) (\<lambda>v. Inr (reg(d := v))))"
proof (rule framedI)
  fix r1 r2 :: "int \<Rightarrow> 'a" assume "agree R r1 r2"
  hence e: "f r1 = f r2" by (rule assms)
  show "(\<exists>e. bind_res (f r1) (\<lambda>v. Inr (r1(d := v))) = Inl e \<and> bind_res (f r2) (\<lambda>v. Inr (r2(d := v))) = Inl e) \<or>
    (\<exists>s1 s2. bind_res (f r1) (\<lambda>v. Inr (r1(d := v))) = Inr s1 \<and> bind_res (f r2) (\<lambda>v. Inr (r2(d := v))) = Inr s2
      \<and> agree {d..<d + 1} s1 s2 \<and> (\<forall>x. x \<notin> {d..<d + 1} \<longrightarrow> s1 x = r1 x \<and> s2 x = r2 x))"
    by (cases "f r2") (auto simp: e agree_def)
qed

lemma framed_wr:
  assumes "\<And>r1 r2. agree R r1 r2 \<Longrightarrow> f r1 = f r2" and "\<And>r v. f r = Inr v \<Longrightarrow> length v = nat n"
  shows "framed R {d..<d + n} (\<lambda>reg. bind_res (f reg) (\<lambda>v. Inr (wr d v reg)))"
proof (rule framedI)
  fix r1 r2 :: "int \<Rightarrow> 'a" assume "agree R r1 r2"
  hence e: "f r1 = f r2" by (rule assms)
  show "(\<exists>e. bind_res (f r1) (\<lambda>v. Inr (wr d v r1)) = Inl e \<and> bind_res (f r2) (\<lambda>v. Inr (wr d v r2)) = Inl e) \<or>
    (\<exists>s1 s2. bind_res (f r1) (\<lambda>v. Inr (wr d v r1)) = Inr s1 \<and> bind_res (f r2) (\<lambda>v. Inr (wr d v r2)) = Inr s2
      \<and> agree {d..<d + n} s1 s2 \<and> (\<forall>x. x \<notin> {d..<d + n} \<longrightarrow> s1 x = r1 x \<and> s2 x = r2 x))"
    using assms(2) [of r2] by (cases "f r2") (auto simp: e agree_def wr_def)
qed

lemma each_elem_framed:
  assumes "\<And>k r1 r2. k \<in> set ks \<Longrightarrow> agree R r1 r2 \<Longrightarrow> f k r1 = f k r2" and "agree R r1 r2"
  shows "(\<exists>e. each_elem f d ks r1 = Inl e \<and> each_elem f d ks r2 = Inl e) \<or>
    (\<exists>s1 s2. each_elem f d ks r1 = Inr s1 \<and> each_elem f d ks r2 = Inr s2 \<and> agree (R \<union> (\<lambda>k. d + k) ` set ks) s1 s2
      \<and> (\<forall>x. x \<notin> (\<lambda>k. d + k) ` set ks \<longrightarrow> s1 x = r1 x \<and> s2 x = r2 x))"
  using assms
proof (induction ks arbitrary: r1 r2 R)
  case (Cons k ks)
  have e: "f k r1 = f k r2" using Cons.prems(1) [of k r1 r2] Cons.prems(2) by simp
  show ?case
  proof (cases "f k r2")
    case (Inr v)
    have a: "agree (R \<union> {d + k}) (r1(d + k := v)) (r2(d + k := v))" using Cons.prems(2) by (auto simp: agree_def)
    have "(\<exists>e. each_elem f d ks (r1(d + k := v)) = Inl e \<and> each_elem f d ks (r2(d + k := v)) = Inl e) \<or>
      (\<exists>s1 s2. each_elem f d ks (r1(d + k := v)) = Inr s1 \<and> each_elem f d ks (r2(d + k := v)) = Inr s2
        \<and> agree ((R \<union> {d + k}) \<union> (\<lambda>k. d + k) ` set ks) s1 s2
        \<and> (\<forall>x. x \<notin> (\<lambda>k. d + k) ` set ks \<longrightarrow> s1 x = (r1(d + k := v)) x \<and> s2 x = (r2(d + k := v)) x))"
      by (rule Cons.IH [OF _ a]) (rule Cons.prems(1), auto elim: agree_subset)
    thus ?thesis using e Inr by (auto simp del: fun_upd_apply) (auto simp: Un_ac insert_commute)
  qed (simp add: e)
qed simp

lemma framed_each_elem:
  assumes "\<And>k r1 r2. 0 \<le> k \<Longrightarrow> k < n \<Longrightarrow> agree R r1 r2 \<Longrightarrow> f k r1 = f k r2"
    and "set ks = {0..<n}"
  shows "framed R {d..<d + n} (each_elem f d ks)"
proof (rule framedI)
  fix r1 r2 :: "int \<Rightarrow> 'a" assume ag: "agree R r1 r2"
  have im: "(\<lambda>k. d + k) ` set ks = {d..<d + n}" by (simp add: assms(2) image_add_atLeastLessThan add.commute)
  show "(\<exists>e. each_elem f d ks r1 = Inl e \<and> each_elem f d ks r2 = Inl e) \<or>
    (\<exists>s1 s2. each_elem f d ks r1 = Inr s1 \<and> each_elem f d ks r2 = Inr s2 \<and> agree {d..<d + n} s1 s2
      \<and> (\<forall>x. x \<notin> {d..<d + n} \<longrightarrow> s1 x = r1 x \<and> s2 x = r2 x))"
    using each_elem_framed [of ks R f r1 r2 d, OF _ ag, unfolded im] assms by auto
qed

section \<open>Fills\<close>

lemma fill_n_eq: "fill_n d n v r = (\<lambda>x. if d \<le> x \<and> x < d + n then v else r x)"
  by (auto simp: fill_n_def wr_def fun_eq_iff)

lemma fill_registers_n: "fill_registers base dst len v reg = fill_n dst len v reg"
proof -
  have "0 \<le> fill_head_elements a l \<and> fill_head_elements a l \<le> l" if "0 \<le> l" for a l
    using that by (auto simp: fill_head_elements_def Let_def)
  from this [of len "base + 8 * dst"] show ?thesis by (auto simp: fill_registers_def Let_def fill_n_eq fun_eq_iff)
qed

text \<open>C36. Filling a register range with its head peeled off to a 64-byte boundary stores the value in every
  register of the range and in no other, wherever the register file lies in memory.\<close>

theorem fill_registers_fills:
  "fill_registers base dst len v reg = (\<lambda>x. if dst \<le> x \<and> x < dst + len then v else reg x)"
  by (simp add: fill_registers_n fill_n_eq)

lemma fill_registers_wr: "fill_registers base dst len v reg = wr dst (replicate (nat len) v) reg"
  by (simp add: fill_registers_n fill_n_def)

section \<open>The instructions respect their spans\<close>

lemma set_ints: "set [0..n - 1] = {0..<n}" "set (rev [0..n - 1]) = {0..<n}"
  by auto

lemma alu_value_cong:
  assumes "\<not> has (program_code_spec c) kProgramReadB \<or> y = y'" "\<not> has (program_code_spec c) kProgramReadC \<or> z = z'"
  shows "alu_value N c x y z = alu_value N c x y' z'"
  using assms by (cases c) (auto simp: alu_value_def STANLI_PROGRAM_UNARY_LIST_def has_simps)

lemma copy_framed:
  "set ks = {0..<n} \<Longrightarrow> framed {a..<a + n} {d..<d + n} (each_elem (\<lambda>k r. Inr (r (a + k))) d ks)"
  by (rule framed_each_elem) (auto simp: agree_def)

lemma cells_write:
  "i_code I \<noteq> P_CALL \<Longrightarrow> i_code I \<noteq> P_TRANSFORM \<Longrightarrow> cells (each_write p I) = {i_dst I..<i_dst I + program_output_len I}"
  by (simp add: each_write_def Let_def)

lemmas span_simps = program_spec_of_def program_rule_def program_output_len_def program_input_len_def has_simps

lemma exec_move_framed:
  assumes "i_code I \<in> {P_CONST, P_FILL, P_CONSTR, P_MOVR}"
  shows "framed (cells (each_read p I)) (cells (each_write p I)) (exec_move N base ks I)"
proof -
  have W: "cells (each_write p I) = {i_dst I..<i_dst I + program_output_len I}" using assms by (auto intro!: cells_write)
  consider "i_code I = P_CONST" | "i_code I = P_FILL" | "i_code I = P_CONSTR" | "i_code I = P_MOVR" using assms by blast
  thus ?thesis unfolding W
  proof cases
    case 1
    thus "framed (cells (each_read p I)) {i_dst I..<i_dst I + program_output_len I} (exec_move N base ks I)"
      using framed_set [of "{}" "\<lambda>_. Inr (ks ! nat (i_a I))" "i_dst I"]
      by (simp add: exec_move_def [abs_def] each_read_def span_simps)
  next
    case 2
    thus "framed (cells (each_read p I)) {i_dst I..<i_dst I + program_output_len I} (exec_move N base ks I)"
      using framed_wr [of "{}" "\<lambda>_. Inr (replicate (nat (i_len I)) (ks ! nat (i_a I)))" "i_len I" "i_dst I"]
      by (simp add: exec_move_def [abs_def] each_read_def span_simps fill_registers_wr)
  next
    case 3
    thus "framed (cells (each_read p I)) {i_dst I..<i_dst I + program_output_len I} (exec_move N base ks I)"
      using framed_each_elem [of "i_len I" "{}" "\<lambda>k _. Inr (ks ! nat (i_a I + k))", OF _ set_ints(1)]
      by (simp add: exec_move_def [abs_def] each_read_def span_simps)
  next
    case 4
    thus "framed (cells (each_read p I)) {i_dst I..<i_dst I + program_output_len I} (exec_move N base ks I)"
      by (simp add: exec_move_def [abs_def] each_read_def span_simps copy_framed [OF set_ints(1)])
  qed
qed

lemma dyn_index_range: "dyn_index N x l = Some i \<Longrightarrow> 1 \<le> i \<and> i \<le> l"
  by (auto simp: dyn_index_def split: option.splits if_splits)

lemma copy_total: "\<exists>s. each_elem (\<lambda>k r. Inr (r (a + k))) d ks r = Inr s"
  by (induction ks arbitrary: r) auto

lemma dyn_set_framed:
  assumes "i_code I = P_DYN_SET"
  shows "framed (cells (each_read p I)) (cells (each_write p I)) (exec_dyn N I)"
proof (rule framedI)
  let ?a = "i_a I" and ?n = "i_len I" and ?d = "i_dst I"
  fix r1 r2 :: "int \<Rightarrow> 'a" assume "agree (cells (each_read p I)) r1 r2"
  hence ag: "agree {?a..<?a + ?n} r1 r2" and b: "r1 (i_b I) = r2 (i_b I)" and c: "r1 (i_c I) = r2 (i_c I)"
    using assms by (simp_all add: each_read_def span_simps agree_def)
  have W: "cells (each_write p I) = {?d..<?d + ?n}"
    using assms by (simp add: cells_write span_simps)
  show "(\<exists>e. exec_dyn N I r1 = Inl e \<and> exec_dyn N I r2 = Inl e) \<or>
    (\<exists>s1 s2. exec_dyn N I r1 = Inr s1 \<and> exec_dyn N I r2 = Inr s2 \<and> agree (cells (each_write p I)) s1 s2
      \<and> (\<forall>x. x \<notin> cells (each_write p I) \<longrightarrow> s1 x = r1 x \<and> s2 x = r2 x))"
  proof (cases "dyn_index N (r2 (i_c I)) ?n")
    case None
    thus ?thesis using assms c by (simp add: exec_dyn_def)
  next
    case (Some i)
    let ?copy = "each_elem (\<lambda>k r. Inr (r (?a + k))) ?d"
    define mv where "mv r = (if ?a < ?d \<and> ?d < ?a + ?n then ?copy (rev [0..?n - 1]) r
      else if ?d \<noteq> ?a then ?copy [0..?n - 1] r else Inr r)" for r :: "int \<Rightarrow> 'a"
    have i: "?d + i - 1 \<in> {?d..<?d + ?n}" using dyn_index_range [OF Some] by auto
    have F: "framed {?a..<?a + ?n} {?d..<?d + ?n} mv"
      using copy_framed [OF set_ints(1), of ?a ?n ?d] copy_framed [OF set_ints(2), of ?a ?n ?d]
      unfolding mv_def [abs_def]
      by (cases "?a < ?d \<and> ?d < ?a + ?n"; cases "?d = ?a") (simp_all only: if_True if_False simp_thms, simp add: framed_def)
    obtain s1 where s1: "mv r1 = Inr s1" unfolding mv_def using copy_total [of ?a ?d _ r1] by (metis (full_types))
    obtain s2 where m: "mv r2 = Inr s2" "agree {?d..<?d + ?n} s1 s2"
        "\<forall>x. x \<notin> {?d..<?d + ?n} \<longrightarrow> s1 x = r1 x \<and> s2 x = r2 x"
      by (rule framedE [OF F ag s1])
    have "exec_dyn N I r = bind_res (mv r) (\<lambda>r'. Inr (r'(?d + i - 1 := r2 (i_b I))))" if "r = r1 \<or> r = r2" for r
      using assms Some b c that by (auto simp: exec_dyn_def mv_def simp del: upto.simps)
    hence "exec_dyn N I r1 = Inr (s1(?d + i - 1 := r2 (i_b I)))" "exec_dyn N I r2 = Inr (s2(?d + i - 1 := r2 (i_b I)))"
      using s1 m(1) by simp_all
    thus ?thesis using m(2,3) i unfolding W by (auto simp: agree_def)
  qed
qed

lemma dyn_read_framed:
  assumes "i_code I \<in> {P_DYN_INDEX, P_DYN_LSE_RANGE}"
  shows "framed (cells (each_read p I)) (cells (each_write p I)) (exec_dyn N I)"
proof -
  define f where "f reg = (if i_code I = P_DYN_INDEX then
        (case dyn_index N (reg (i_b I)) (i_len I) of
          None \<Rightarrow> Inl (OutOfRange ''register-program index out of range'')
        | Some i \<Rightarrow> Inr (reg (i_a I + i_c I + i - 1)))
      else
        case (n_index N (reg (i_b I)), n_index N (reg (i_c I))) of
          (Some lo, Some hi) \<Rightarrow>
            if hi < lo then Inr (n_neg N (n_inf N))
            else if lo < 1 \<or> hi > i_len I then Inl (OutOfRange ''register-program slice out of range'')
            else n_reduce N P_LSE_RANGE (rd reg (i_a I + lo - 1, hi - lo + 1))
        | _ \<Rightarrow> Inl (OutOfRange ''register-program slice bounds invalid''))" for reg
  have eq: "exec_dyn N I = (\<lambda>reg. bind_res (f reg) (\<lambda>v. Inr (reg(i_dst I := v))))"
    using assms by (auto simp: exec_dyn_def f_def fun_eq_iff split: option.splits)
  have "f r1 = f r2" if "agree (cells (each_read p I)) r1 r2" for r1 r2
  proof (cases "i_code I = P_DYN_INDEX")
    case True
    thus ?thesis using that by (auto simp: f_def each_read_def agree_def dest!: dyn_index_range split: option.splits)
  next
    case False
    hence R: "agree {i_a I..<i_a I + i_len I} r1 r2" "r1 (i_b I) = r2 (i_b I)" "r1 (i_c I) = r2 (i_c I)"
      using that assms by (simp_all add: each_read_def span_simps agree_def)
    have "rd r1 (i_a I + lo - 1, hi - lo + 1) = rd r2 (i_a I + lo - 1, hi - lo + 1)" if "1 \<le> lo" "hi \<le> i_len I" for lo hi
      by (rule agree_rd_sub [OF R(1)]) (use that in auto)
    thus ?thesis using False R by (auto simp: f_def split: option.splits)
  qed
  moreover have "cells (each_write p I) = {i_dst I..<i_dst I + 1}"
    using assms by (auto simp: cells_write span_simps)
  ultimately show ?thesis unfolding eq using framed_set [of "cells (each_read p I)" f "i_dst I"] by simp
qed

lemma exec_vector_framed:
  assumes "i_code I \<in> {P_EXTREMA_RANGE, P_LOG_RANGE, P_EXP_RANGE, P_DOT, P_LSE_RANGE, P_SOFTMAX}"
  shows "framed (cells (each_read p I)) (cells (each_write p I)) (exec_vector N I)"
proof -
  let ?R = "cells (each_read p I)"
  have W: "cells (each_write p I) = {i_dst I..<i_dst I + program_output_len I}" using assms by (auto intro!: cells_write)
  have xs: "rd r1 (i_a I, i_len I) = rd r2 (i_a I, i_len I)" if "agree ?R r1 r2" for r1 r2 :: "int \<Rightarrow> 'a"
    by (rule agree_rd [OF agree_subset [OF that]]) (use assms in \<open>auto simp: each_read_def span_simps\<close>)
  have el: "r1 (i_a I + k) = r2 (i_a I + k)" if "agree ?R r1 r2" "0 \<le> k" "k < i_len I" for r1 r2 :: "int \<Rightarrow> 'a" and k
    by (rule agreeD [OF that(1)]) (use assms that in \<open>auto simp: each_read_def span_simps\<close>)
  show ?thesis
  proof (cases "i_code I \<in> {P_LOG_RANGE, P_EXP_RANGE}")
    case True
    have "framed ?R {i_dst I..<i_dst I + i_len I} (each_elem (\<lambda>k r. n_unary N c (r (i_a I + k))) (i_dst I) [0..i_len I - 1])" for c
      by (rule framed_each_elem [OF _ set_ints(1)]) (simp add: el)
    thus ?thesis using True unfolding W by (auto simp: exec_vector_def [abs_def] span_simps simp del: upto.simps)
  next
    case ranges: False
    show ?thesis
    proof (cases "i_code I = P_SOFTMAX")
      case True
      have "framed ?R {i_dst I..<i_dst I + i_len I}
          (\<lambda>reg. bind_res (bind_res (n_softmax N (rd reg (i_a I, i_len I))) (\<lambda>v. Inr (map (\<lambda>i. v ! i) [0..<nat (i_len I)])))
             (\<lambda>v. Inr (wr (i_dst I) v reg)))"
        by (rule framed_wr) (auto simp: xs bind_res_def split: sum.splits)
      thus ?thesis unfolding W using True
        by (simp add: exec_vector_def [abs_def] span_simps bind_res_assoc)
    next
      case False
      have ys: "rd r1 (i_b I, i_len I) = rd r2 (i_b I, i_len I)" if "agree ?R r1 r2" "i_code I = P_DOT" for r1 r2 :: "int \<Rightarrow> 'a"
        by (rule agree_rd [OF agree_subset [OF that(1)]]) (use that(2) in \<open>auto simp: each_read_def span_simps\<close>)
      have "framed ?R {i_dst I..<i_dst I + 1} (\<lambda>reg.
          bind_res (if i_code I = P_EXTREMA_RANGE then extrema_value N I (rd reg (i_a I, i_len I))
                  else if i_code I = P_DOT then Inr (n_dot N (rd reg (i_a I, i_len I)) (rd reg (i_b I, i_len I)))
                  else n_reduce N P_LSE_RANGE (rd reg (i_a I, i_len I)))
          (\<lambda>v. Inr (reg(i_dst I := v))))"
        by (rule framed_set) (simp add: xs ys)
      moreover have "program_output_len I = 1" using assms ranges False by (auto simp: span_simps)
      ultimately show ?thesis unfolding W using ranges False by (simp add: exec_vector_def [abs_def] Let_def)
    qed
  qed
qed

lemma exec_density_framed:
  assumes "i_code I = P_DENSITY"
  shows "framed (cells (each_read p I)) (cells (each_write p I)) (exec_density N p I)"
proof -
  have "framed (cells (each_read p I)) {i_dst I..<i_dst I + 1}
      (\<lambda>reg. bind_res (n_density N (i_len I) (density_args I reg)) (\<lambda>v. Inr (reg(i_dst I := v))))"
  proof (rule framed_set)
    fix r1 r2 :: "int \<Rightarrow> 'a" assume "agree (cells (each_read p I)) r1 r2"
    hence "density_args I r1 = density_args I r2"
      using assms agree_rd by (fastforce simp: each_read_def density_args_def Let_def agree_def split: if_splits)
    thus "n_density N (i_len I) (density_args I r1) = n_density N (i_len I) (density_args I r2)" by simp
  qed
  moreover have "cells (each_write p I) = {i_dst I..<i_dst I + 1}" using assms by (simp add: cells_write span_simps)
  ultimately show ?thesis using assms by (simp add: exec_density_def [abs_def])
qed

lemma run_range_framed:
  assumes "i_code I = P_RANGE"
  shows "framed (cells (each_read p I)) (cells (each_write p I)) (run_range N I)"
proof (cases "ranged (program_rule I)")
  case False
  thus ?thesis by (simp add: run_range_def [abs_def] framed_const)
next
  case True
  let ?R = "cells (each_read p I)"
  have in0: "\<not> has (program_spec_of I) kProgramNoInputs"
    using True by (cases "program_rule I") (simp_all add: ranged_def STANLI_PROGRAM_UNARY_LIST_def program_spec_of_def has_simps)
  have R: "?R = {i_a I..<i_a I + program_input_len I 0}
      \<union> (if program_reads I 1 then {i_b I..<i_b I + program_input_len I 1} else {})
      \<union> (if program_reads I 2 then {i_c I..<i_c I + program_input_len I 2} else {})"
    using assms in0 by (simp add: each_read_def program_reads_def Let_def Un_assoc)
  have len: "program_input_len I j = 1 \<or> program_input_len I j = i_len I" for j
    using assms by (simp add: program_input_len_def)
  have at: "r1 (b + (if program_input_len I j > 1 then 1 else 0) * k) = r2 (b + (if program_input_len I j > 1 then 1 else 0) * k)"
    if "agree {b..<b + program_input_len I j} r1 r2" "0 \<le> k" "k < i_len I" for r1 r2 :: "int \<Rightarrow> 'a" and b k j
    by (rule agreeD [OF that(1)]) (use len [of j] that(2,3) in auto)
  have cong: "range_value N (program_rule I) x y z = range_value N (program_rule I) x y' z'"
    if "\<not> program_reads I 1 \<or> y = y'" "\<not> program_reads I 2 \<or> z = z'" for x y y' z z'
    using that alu_value_cong [of "program_rule I" y y' z z' N x]
    by (simp add: range_value_def program_reads_def program_spec_of_def Let_def)
  have "framed ?R {i_dst I..<i_dst I + i_len I} (each_elem (\<lambda>k r. range_value N (program_rule I)
       (r (i_a I + (if program_input_len I 0 > 1 then 1 else 0) * k))
       (r (i_b I + (if program_reads I 1 \<and> program_input_len I 1 > 1 then 1 else 0) * k))
       (r (i_c I + (if program_reads I 2 \<and> program_input_len I 2 > 1 then 1 else 0) * k))) (i_dst I) [0..i_len I - 1])"
  proof (rule framed_each_elem [OF _ set_ints(1)])
    fix k and r1 r2 :: "int \<Rightarrow> 'a" assume k: "0 \<le> k" "k < i_len I" and ag: "agree ?R r1 r2"
    have 0: "r1 (i_a I + (if program_input_len I 0 > 1 then 1 else 0) * k) = r2 (i_a I + (if program_input_len I 0 > 1 then 1 else 0) * k)"
      by (rule at [OF _ k]) (use ag R in auto)
    have 1: "\<not> program_reads I 1 \<or> r1 (i_b I + (if program_reads I 1 \<and> program_input_len I 1 > 1 then 1 else 0) * k)
        = r2 (i_b I + (if program_reads I 1 \<and> program_input_len I 1 > 1 then 1 else 0) * k)"
      using at [OF _ k, of "i_b I" 1 r1 r2] ag R by auto
    have 2: "\<not> program_reads I 2 \<or> r1 (i_c I + (if program_reads I 2 \<and> program_input_len I 2 > 1 then 1 else 0) * k)
        = r2 (i_c I + (if program_reads I 2 \<and> program_input_len I 2 > 1 then 1 else 0) * k)"
      using at [OF _ k, of "i_c I" 2 r1 r2] ag R by auto
    show "range_value N (program_rule I) (r1 (i_a I + (if program_input_len I 0 > 1 then 1 else 0) * k))
        (r1 (i_b I + (if program_reads I 1 \<and> program_input_len I 1 > 1 then 1 else 0) * k))
        (r1 (i_c I + (if program_reads I 2 \<and> program_input_len I 2 > 1 then 1 else 0) * k))
      = range_value N (program_rule I) (r2 (i_a I + (if program_input_len I 0 > 1 then 1 else 0) * k))
        (r2 (i_b I + (if program_reads I 1 \<and> program_input_len I 1 > 1 then 1 else 0) * k))
        (r2 (i_c I + (if program_reads I 2 \<and> program_input_len I 2 > 1 then 1 else 0) * k))"
      unfolding 0 by (rule cong [OF 1 2])
  qed
  moreover have "cells (each_write p I) = {i_dst I..<i_dst I + i_len I}"
    using assms by (simp add: cells_write program_output_len_def)
  ultimately show ?thesis using True by (simp add: run_range_def [abs_def] Let_def)
qed

lemma exec_alu_framed:
  assumes "i_code I \<notin> {P_RANGE, P_CALL, P_TRANSFORM, P_DENSITY, P_DENSITY_VEC, P_PRINT, P_REJECT, P_DYN_INDEX}"
    and "\<not> has (program_code_spec (i_code I)) kProgramNoInputs"
    and "program_output_len I = 1" "program_input_len I 0 = 1" "program_input_len I 1 = 1"
  shows "framed (cells (each_read p I)) (cells (each_write p I))
    (\<lambda>reg. bind_res (alu_value N (i_code I) (reg (i_a I)) (reg (i_b I)) (reg (i_c I))) (\<lambda>v. Inr (reg(i_dst I := v))))"
proof -
  let ?S = "program_code_spec (i_code I)"
  have W: "cells (each_write p I) = {i_dst I..<i_dst I + 1}" using assms by (simp add: cells_write)
  have "program_input_len I 2 = 1" using assms(1) by (simp add: program_input_len_def Let_def)
  hence "cells (each_read p I) = {i_a I..<i_a I + 1} \<union> (if has ?S kProgramReadB then {i_b I..<i_b I + 1} else {})
      \<union> (if has ?S kProgramReadC then {i_c I..<i_c I + 1} else {})"
    using assms by (auto simp: each_read_def program_spec_of_def program_rule_def Let_def)
  hence "alu_value N (i_code I) (r1 (i_a I)) (r1 (i_b I)) (r1 (i_c I)) = alu_value N (i_code I) (r2 (i_a I)) (r2 (i_b I)) (r2 (i_c I))"
    if "agree (cells (each_read p I)) r1 r2" for r1 r2
    using that alu_value_cong [of "i_code I" "r1 (i_b I)" "r2 (i_b I)" "r1 (i_c I)" "r2 (i_c I)"]
    by (auto simp: agree_def)
  thus ?thesis unfolding W by (rule framed_set)
qed

lemma exec_regs_framed:
  assumes "spans_modelled I" and "i_code I \<notin> {P_JZ, P_JMP, P_CALL, P_PRINT, P_REJECT}"
  shows "framed (cells (each_read p I)) (cells (each_write p I)) (exec_regs N base p I)"
proof -
  consider "i_code I \<in> {P_CONST, P_FILL, P_CONSTR, P_MOVR}" | "i_code I = P_DYN_SET"
    | "i_code I \<in> {P_DYN_INDEX, P_DYN_LSE_RANGE}"
    | "i_code I \<in> {P_EXTREMA_RANGE, P_LOG_RANGE, P_EXP_RANGE, P_DOT, P_LSE_RANGE, P_SOFTMAX}"
    | "i_code I = P_DENSITY" | "i_code I = P_RANGE"
    | "i_code I \<notin> {P_CONST, P_FILL, P_CONSTR, P_PATH, P_MOVR, P_DYN_SET, P_DYN_INDEX, P_DYN_LSE_RANGE, P_EXTREMA_RANGE,
        P_LOG_RANGE, P_EXP_RANGE, P_DOT, P_LSE_RANGE, P_SOFTMAX, P_DIAG_PRE_MULTIPLY, P_DIAG_POST_MULTIPLY, P_MDIVIDE_LEFT,
        P_MDIVIDE_RIGHT_SPD, P_DENSITY, P_DENSITY_VEC, P_TRANSFORM, P_RANGE}"
    using assms by (cases "i_code I = P_RANGE") (auto simp: spans_modelled_def program_spec_of_def program_rule_def has_simps)
  thus ?thesis
  proof cases
    case 1 thus ?thesis using exec_move_framed [of I p N base "pool p"] by (auto simp: exec_regs_def [abs_def])
  next
    case 2 thus ?thesis using dyn_set_framed [of I p N] by (simp add: exec_regs_def [abs_def])
  next
    case 3 thus ?thesis using dyn_read_framed [of I p N] by (auto simp: exec_regs_def [abs_def])
  next
    case 4 thus ?thesis using exec_vector_framed [of I p N] by (auto simp: exec_regs_def [abs_def])
  next
    case 5 thus ?thesis using exec_density_framed [of I p N] by (simp add: exec_regs_def [abs_def])
  next
    case 6 thus ?thesis using run_range_framed [of I p N] by (simp add: exec_regs_def [abs_def])
  next
    case 7
    have "framed (cells (each_read p I)) (cells (each_write p I))
      (\<lambda>reg. bind_res (alu_value N (i_code I) (reg (i_a I)) (reg (i_b I)) (reg (i_c I))) (\<lambda>v. Inr (reg(i_dst I := v))))"
      by (rule exec_alu_framed) (use 7 assms(2) in \<open>auto simp: span_simps\<close>)
    thus ?thesis using 7 by (simp add: exec_regs_def [abs_def])
  qed
qed

section \<open>Messages and calls\<close>

text \<open>The registers a message names cover the value it prints.\<close>

definition message_ok :: "PMessage \<Rightarrow> bool" where
  "message_ok m \<longleftrightarrow> (\<forall>k < length (m_value m). k < length (shapes (m_spec m)) \<longrightarrow>
     (let s = shapes (m_spec m) ! k in shape_ok s \<and> (\<forall>d \<in> set (dims s). 0 \<le> d) \<and> prod_list (dims s) \<le> snd (m_value m ! k)))"

lemma index_box_snoc: "index \<in> index_box ds \<Longrightarrow> 0 \<le> i \<Longrightarrow> i < d \<Longrightarrow> index @ [i] \<in> index_box (ds @ [d])"
  by (auto simp: index_box_def nth_append)

lemma render_level_cong:
  assumes "\<And>index. index \<in> index_box (dims s) \<Longrightarrow> v1 (message_offset s index) = v2 (message_offset s index)"
    and "dims s = pre @ rest" and "index \<in> index_box pre"
  shows "render_level io s v1 rest index = render_level io s v2 rest index"
  using assms(2,3)
proof (induction rest arbitrary: pre index)
  case Nil
  thus ?case using assms(1) by (simp add: render_scalar_def)
next
  case (Cons d rest)
  have "render_level io s v1 rest (index @ [i]) = render_level io s v2 rest (index @ [i])" if "i \<in> set [0..d - 1]" for i
    by (rule Cons.IH [of "pre @ [d]"]) (use Cons.prems that in \<open>auto intro: index_box_snoc\<close>)
  thus ?case by (auto intro!: arg_cong [of _ _ concat] map_cong)
qed

lemma render_program_message_cong:
  assumes "message_ok m" and "agree (cells (m_value m)) r1 r2"
  shows "render_program_message N m r1 = render_program_message N m r2"
proof (cases "length (shapes (m_spec m)) < length (m_value m)")
  case False
  have "render_level io (shapes (m_spec m) ! k) (\<lambda>i. r1 (fst (m_value m ! k) + i)) (dims (shapes (m_spec m) ! k)) []
      = render_level io (shapes (m_spec m) ! k) (\<lambda>i. r2 (fst (m_value m ! k) + i)) (dims (shapes (m_spec m) ! k)) []"
    if k: "k < length (m_value m)" for io k
  proof (rule render_level_cong [of _ _ _ "[]"])
    fix index assume "index \<in> index_box (dims (shapes (m_spec m) ! k))"
    hence "0 \<le> message_offset (shapes (m_spec m) ! k) index
        \<and> message_offset (shapes (m_spec m) ! k) index < snd (m_value m ! k)"
      using message_offset_range assms(1) False k by (fastforce simp: message_ok_def Let_def)
    hence "fst (m_value m ! k) + message_offset (shapes (m_spec m) ! k) index \<in> cells (m_value m)"
      unfolding cells_def using k by (intro UN_I [of "m_value m ! k"]) auto
    thus "r1 (fst (m_value m ! k) + message_offset (shapes (m_spec m) ! k) index)
        = r2 (fst (m_value m ! k) + message_offset (shapes (m_spec m) ! k) index)"
      by (rule agreeD [OF assms(2)])
  qed (auto simp: index_box_def)
  thus ?thesis by (auto simp: render_program_message_def render_message_def intro!: arg_cong [of _ _ concat] map_cong)
qed (auto simp: render_program_message_def render_message_def)

lemma run_call_framed:
  assumes "agree (cells (c_in c)) r1 r2"
  shows "(\<exists>e. run_call N c r1 w = Inl e \<and> run_call N c r2 w = Inl e) \<or>
    (\<exists>s1 s2 w'. run_call N c r1 w = Inr (s1, w') \<and> run_call N c r2 w = Inr (s2, w')
      \<and> agree (cells [c_out c, c_scratch c]) s1 s2
      \<and> (\<forall>x. x \<notin> cells [c_out c, c_scratch c] \<longrightarrow> s1 x = r1 x \<and> s2 x = r2 x))"
proof (cases "c_forward c")
  case True
  have ins: "map (rd r1) (c_in c) = map (rd r2) (c_in c)" by (rule agree_rd_list [OF assms])
  show ?thesis
  proof (cases "n_kernel N (call_static c) (map (rd r2) (c_in c)) w")
    case (Inr x)
    obtain v sc w' where x: "x = (v, sc, w')" by (cases x)
    show ?thesis
    proof (cases "length v = nat (snd (c_out c)) \<and> length sc = nat (snd (c_scratch c))")
      case len: True
      let ?g = "\<lambda>r. wr (fst (c_scratch c)) sc (wr (fst (c_out c)) v r)"
      have "run_call N c r1 w = Inr (?g r1, w')" "run_call N c r2 w = Inr (?g r2, w')"
        using True Inr len by (simp_all add: run_call_def x ins)
      moreover have "agree (cells [c_out c, c_scratch c]) (?g r1) (?g r2)"
        using len by (auto simp: agree_def wr_def)
      moreover have "\<forall>x. x \<notin> cells [c_out c, c_scratch c] \<longrightarrow> ?g r1 x = r1 x \<and> ?g r2 x = r2 x"
        using len by (auto simp: wr_def)
      ultimately show ?thesis by blast
    next
      case False
      thus ?thesis using True Inr by (auto simp: run_call_def x ins)
    qed
  qed (simp add: run_call_def True ins)
qed (simp add: run_call_def)

section \<open>The frame of an instruction\<close>

definition payload_ok :: "('d, 'u) Program \<Rightarrow> Instr \<Rightarrow> bool" where
  "payload_ok p I \<longleftrightarrow> (i_code I \<in> {P_PRINT, P_REJECT} \<longrightarrow> message_ok (messages p ! nat (i_a I)))"

lemma exec_instr_frame:
  assumes "spans_modelled I" and "payload_ok p I" and "agree (cells (each_read p I)) (m_reg s) r2"
  shows "(\<exists>e. exec_instr N base p I s = Inl e \<and> exec_instr N base p I (s\<lparr>m_reg := r2\<rparr>) = Inl e) \<or>
    (\<exists>t r2'. exec_instr N base p I s = Inr t \<and> exec_instr N base p I (s\<lparr>m_reg := r2\<rparr>) = Inr (t\<lparr>m_reg := r2'\<rparr>)
      \<and> agree (cells (each_write p I)) (m_reg t) r2'
      \<and> (\<forall>x. x \<notin> cells (each_write p I) \<longrightarrow> m_reg t x = m_reg s x \<and> r2' x = r2 x))"
proof -
  consider "i_code I = P_JZ" | "i_code I = P_JMP" | "i_code I = P_CALL" | "i_code I = P_PRINT" | "i_code I = P_REJECT"
    | "i_code I \<notin> {P_JZ, P_JMP, P_CALL, P_PRINT, P_REJECT}" by blast
  thus ?thesis
  proof cases
    case 1
    hence "m_reg s (i_a I) = r2 (i_a I)" using assms(3) by (simp add: each_read_def span_simps agree_def)
    thus ?thesis using 1
      by (intro disjI2 exI [of _ "if n_eq N (r2 (i_a I)) (n_of_int N 0) then s\<lparr>m_pc := i_dst I - 1\<rparr> else s"] exI [of _ r2])
         (simp add: exec_instr_def each_write_def span_simps)
  next
    case 2 thus ?thesis
      by (intro disjI2 exI [of _ "s\<lparr>m_pc := i_dst I - 1\<rparr>"] exI [of _ r2]) (simp add: exec_instr_def each_write_def span_simps)
  next
    case 3
    hence "agree (cells (c_in (calls p ! nat (i_a I)))) (m_reg s) r2" using assms(3) by (simp add: each_read_def)
    from run_call_framed [OF this, of N "m_world s"] show ?thesis
    proof (elim disjE exE conjE)
      fix s1 s2 w'
      assume "run_call N (calls p ! nat (i_a I)) (m_reg s) (m_world s) = Inr (s1, w')"
        "run_call N (calls p ! nat (i_a I)) r2 (m_world s) = Inr (s2, w')"
        "agree (cells [c_out (calls p ! nat (i_a I)), c_scratch (calls p ! nat (i_a I))]) s1 s2"
        "\<forall>x. x \<notin> cells [c_out (calls p ! nat (i_a I)), c_scratch (calls p ! nat (i_a I))] \<longrightarrow> s1 x = m_reg s x \<and> s2 x = r2 x"
      thus ?thesis using 3
        by (intro disjI2 exI [of _ "s\<lparr>m_reg := s1, m_world := w'\<rparr>"] exI [of _ s2])
           (simp add: exec_instr_def each_write_def Let_def)
    qed (use 3 in \<open>simp add: exec_instr_def\<close>)
  next
    case 4
    hence "render_program_message N (messages p ! nat (i_a I)) (m_reg s) = render_program_message N (messages p ! nat (i_a I)) r2"
      using assms(2,3) by (intro render_program_message_cong) (auto simp: payload_ok_def each_read_def)
    note msg = this
    show ?thesis
    proof (cases "render_program_message N (messages p ! nat (i_a I)) r2")
      case (Inr t)
      thus ?thesis using 4 msg
        by (intro disjI2 exI [of _ "s\<lparr>m_sink := m_sink s @ [t]\<rparr>"] exI [of _ r2])
           (simp add: exec_instr_def each_write_def span_simps execute_message_def)
    qed (use 4 msg in \<open>simp add: exec_instr_def\<close>)
  next
    case 5
    hence "render_program_message N (messages p ! nat (i_a I)) (m_reg s) = render_program_message N (messages p ! nat (i_a I)) r2"
      using assms(2,3) by (intro render_program_message_cong) (auto simp: payload_ok_def each_read_def)
    thus ?thesis using 5
      by (cases "render_program_message N (messages p ! nat (i_a I)) r2") (auto simp: exec_instr_def)
  next
    case 6
    note F = exec_regs_framed [OF assms(1) 6, of p N base, unfolded framed_def, rule_format, OF assms(3)]
    have run: "exec_instr N base p I t = bind_res (exec_regs N base p I (m_reg t)) (\<lambda>r. Inr (t\<lparr>m_reg := r\<rparr>))" for t
      using 6 by (simp add: exec_instr_def)
    show ?thesis
    proof (cases "exec_regs N base p I (m_reg s)")
      case (Inl e)
      thus ?thesis using F by (simp add: run)
    next
      case (Inr r1)
      then obtain r2' where "exec_regs N base p I r2 = Inr r2'" "agree (cells (each_write p I)) r1 r2'"
          "\<forall>x. x \<notin> cells (each_write p I) \<longrightarrow> r1 x = m_reg s x \<and> r2' x = r2 x" using F by auto
      thus ?thesis using Inr by (intro disjI2 exI [of _ "s\<lparr>m_reg := r1\<rparr>"] exI [of _ r2']) (simp add: run)
    qed
  qed
qed

definition same_effects :: "('d, 'w) mach \<Rightarrow> ('d, 'w) mach \<Rightarrow> bool" where
  "same_effects s1 s2 \<longleftrightarrow> m_pc s1 = m_pc s2 \<and> m_world s1 = m_world s2 \<and> m_sink s1 = m_sink s2"

lemma same_effects_iff: "same_effects s1 s2 \<longleftrightarrow> s2 = s1\<lparr>m_reg := m_reg s2\<rparr>"
  by (cases s1; cases s2) (auto simp: same_effects_def)

text \<open>C19. The spans every program pass relies on describe the interpreter: for every instruction the passes
  accept, two machines that agree on the registers of \<open>each_read\<close> and on everything but registers either both
  throw the same exception, or both continue at the same instruction with the same evaluation state and the
  same printed text, hold equal values in the registers of \<open>each_write\<close>, and have kept every other register.\<close>

theorem spans_sound:
  assumes "spans_modelled I" and "payload_ok p I" and "same_effects s1 s2"
    and "agree (cells (each_read p I)) (m_reg s1) (m_reg s2)"
  shows "case (exec_instr N base p I s1, exec_instr N base p I s2) of
      (Inl e1, Inl e2) \<Rightarrow> e1 = e2
    | (Inr t1, Inr t2) \<Rightarrow> same_effects t1 t2 \<and> agree (cells (each_write p I)) (m_reg t1) (m_reg t2)
        \<and> (\<forall>x. x \<notin> cells (each_write p I) \<longrightarrow> m_reg t1 x = m_reg s1 x \<and> m_reg t2 x = m_reg s2 x)
    | _ \<Rightarrow> False"
proof -
  have s2: "s2 = s1\<lparr>m_reg := m_reg s2\<rparr>" using assms(3) by (simp only: same_effects_iff)
  from exec_instr_frame [OF assms(1,2,4), of N base, folded s2] show ?thesis
    by (auto simp: same_effects_def)
qed

text \<open>An instance of the scalar interface on integers, for concrete runs.\<close>

definition int_num :: "(int, unit, unit) num" where
  "int_num = \<lparr>n_add = (+), n_sub = (-), n_mul = (*), n_div = (div), n_neg = uminus, n_lt = (<), n_eq = (=),
     n_std_exp = id, n_isinf = (\<lambda>_. False), n_inf = 1000, n_int = id, n_of_int = id, n_index = Some,
     n_io = \<lparr>show_double = show_int, to_int64 = id\<rparr>,
     n_unary = (\<lambda>_. Inr), n_binary = (\<lambda>c x y. Inr (if c = P_FMAX then max x y else x + y)),
     n_ternary = (\<lambda>_ x y z. Inr (x * y + z)), n_int_binary = (\<lambda>c x y. Inr (if c = P_IMOD then x mod y else x div y)),
     n_reduce = (\<lambda>_ xs. Inr (sum_list xs)), n_dot = (\<lambda>xs ys. sum_list (map2 (*) xs ys)), n_softmax = Inr,
     n_extremum = (\<lambda>_ xs. Inr (hd xs)),
     n_extremum_op = (\<lambda>_. \<lparr>f_scalar = max, f_packet = map2 max, f_predux = (\<lambda>xs. foldl max (hd xs) (tl xs))\<rparr>),
     n_packet = \<lparr>packet_size = 4, packet_align = 32\<rparr>,
     n_empty_int = (\<lambda>_. InvalidArgument ''max''), n_matrix = (\<lambda>_ _ _ xs ys. Inr ys),
     n_density = (\<lambda>_ xs. Inr (sum_list xs)), n_density_vec = (\<lambda>_ _ _ xss. Inr (sum_list (concat xss))),
     n_kernel = (\<lambda>c xss w. Inr (replicate (nat (snd (c_out c))) (sum_list (concat xss)),
                              replicate (nat (snd (c_scratch c))) 0, w)),
     n_transform = (\<lambda>tr xss. Inr (concat xss, 0))\<rparr>"

abbreviation instr :: "Code \<Rightarrow> int \<Rightarrow> int \<Rightarrow> int \<Rightarrow> int \<Rightarrow> int \<Rightarrow> Instr" where
  "instr cd d x y z l \<equiv> \<lparr>i_code = cd, i_sub = P_CONST, i_bcast = 0, i_law = 0, i_dst = d, i_a = x, i_b = y, i_c = z, i_len = l\<rparr>"

definition empty_program :: "('d, 'u) Program" where
  "empty_program = \<lparr>code = [], calls = [], transforms = [], messages = [], pool = [], vec_densities = [], n_regs = 0, out_regs = []\<rparr>"

text \<open>A dot product of registers 0-1 with 2-3 into register 4: the two files differ in registers 4 and 9 before it
  and only in register 9 after it.\<close>

theorem spans_sound_witness:
  "exec_instr int_num 0 empty_program (instr P_DOT 4 0 2 0 2) (start (\<lambda>x. x) ())
     = Inr ((start (\<lambda>x. x) ())\<lparr>m_reg := (\<lambda>x. x)(4 := 3)\<rparr>)
   \<and> (\<exists>t. exec_instr int_num 0 empty_program (instr P_DOT 4 0 2 0 2) (start ((\<lambda>x. x)(4 := 7, 9 := 7)) ()) = Inr t
        \<and> m_reg t 4 = 3 \<and> m_reg t 9 = 7)"
proof -
  let ?I = "instr P_DOT 4 0 2 0 2" and ?s = "start (\<lambda>x::int. x) ()" and ?s2 = "start ((\<lambda>x::int. x)(4 := 7, 9 := 7)) ()"
  have run: "exec_instr int_num 0 empty_program ?I ?s = Inr (?s\<lparr>m_reg := (\<lambda>x. x)(4 := 3)\<rparr>)"
    by (simp add: exec_instr_def exec_regs_def exec_vector_def rd_def int_num_def start_def upt_rec)
  have W: "cells (each_write (empty_program :: (int, unit) Program) ?I) = {4}"
    and R: "cells (each_read (empty_program :: (int, unit) Program) ?I) = {0..<2} \<union> {2..<4}"
    by (auto simp: each_write_def each_read_def span_simps)
  have "case (exec_instr int_num 0 empty_program ?I ?s, exec_instr int_num 0 empty_program ?I ?s2) of
      (Inl e1, Inl e2) \<Rightarrow> e1 = e2
    | (Inr t1, Inr t2) \<Rightarrow> same_effects t1 t2 \<and> agree (cells (each_write (empty_program :: (int, unit) Program) ?I)) (m_reg t1) (m_reg t2)
        \<and> (\<forall>x. x \<notin> cells (each_write (empty_program :: (int, unit) Program) ?I) \<longrightarrow> m_reg t1 x = m_reg ?s x \<and> m_reg t2 x = m_reg ?s2 x)
    | _ \<Rightarrow> False"
    by (rule spans_sound)
       (auto simp: spans_modelled_def payload_ok_def span_simps same_effects_def start_def R agree_def)
  thus ?thesis unfolding run W by (auto simp: agree_def start_def split: sum.splits)
qed

end
