(* ===== verification/ProgramPasses.thy ===== *)
theory ProgramPasses
  imports ProgramSpans
begin

text \<open>
  Passes over register programs (\<^verbatim>\<open>runtime/src/program.cpp\<close>) that only drop instructions or narrow what a
  caller seeds: dead constants. A pass is sound when every run of the rewritten
  program ends like a run of the original; the locale \<open>stuttering_pass\<close> states what a pass has to provide for
  that, \<open>dropping_pass\<close> gives it for the passes that drop instructions by a liveness argument, and each pass
  interprets the latter.
\<close>

section \<open>What a caller sees of a run\<close>

text \<open>\<open>obs\<close> is what is observed of a machine that has reached the end of the code; an exception is observed with
  what was printed before it.\<close>

definition result :: "(('d, 'w) mach \<Rightarrow> 'o) \<Rightarrow> std_error \<times> string list + ('d, 'w) mach \<Rightarrow> std_error \<times> string list + 'o" where
  "result obs r = (case r of Inl x \<Rightarrow> Inl x | Inr s \<Rightarrow> Inr (obs s))"

definition ends :: "(('d, 'w) mach \<Rightarrow> 'o) \<Rightarrow> ('d, 'u, 'w) num \<Rightarrow> int \<Rightarrow> ('d, 'u) Program \<Rightarrow> ('d, 'w) mach
    \<Rightarrow> std_error \<times> string list + 'o \<Rightarrow> bool" where
  "ends obs N base p s x \<longleftrightarrow> (\<exists>fuel. map_option (result obs) (run_program N base p fuel s) = Some x)"

definition observe_all :: "('d, 'w) mach \<Rightarrow> 'd regs \<times> 'w \<times> string list" where
  "observe_all s = (m_reg s, m_world s, m_sink s)"

definition observe_outs :: "('d, 'u) Program \<Rightarrow> ('d, 'w) mach \<Rightarrow> 'd list \<times> 'w \<times> string list" where
  "observe_outs p s = (map (m_reg s) (out_regs p), m_world s, m_sink s)"

lemma ends_done: "m_pc s \<ge> int (length (code p)) \<Longrightarrow> ends obs N base p s x \<longleftrightarrow> x = result obs (Inr s)"
  by (auto simp: ends_def run_program.simps)

lemma ends_error:
  assumes "m_pc s < int (length (code p))" "step N base p s = Inl e"
  shows "ends obs N base p s x \<longleftrightarrow> x = Inl (e, m_sink s)"
proof
  assume "ends obs N base p s x"
  then obtain fuel where "map_option (result obs) (run_program N base p fuel s) = Some x" by (auto simp: ends_def)
  thus "x = Inl (e, m_sink s)" using assms by (subst (asm) run_program.simps) (auto simp: result_def split: nat.splits)
next
  assume "x = Inl (e, m_sink s)"
  hence "map_option (result obs) (run_program N base p (Suc 0) s) = Some x"
    using assms by (subst run_program.simps) (simp add: result_def)
  thus "ends obs N base p s x" unfolding ends_def by blast
qed

lemma ends_step:
  assumes "m_pc s < int (length (code p))" "step N base p s = Inr s'"
  shows "ends obs N base p s x \<longleftrightarrow> ends obs N base p s' x"
proof
  assume "ends obs N base p s x"
  then obtain fuel where f: "map_option (result obs) (run_program N base p fuel s) = Some x" by (auto simp: ends_def)
  then obtain k where "fuel = Suc k" using assms by (subst (asm) run_program.simps) (auto split: nat.splits)
  thus "ends obs N base p s' x" using f assms unfolding ends_def by (subst (asm) run_program.simps) auto
next
  assume "ends obs N base p s' x"
  then obtain fuel where "map_option (result obs) (run_program N base p fuel s') = Some x" by (auto simp: ends_def)
  hence "map_option (result obs) (run_program N base p (Suc fuel) s) = Some x"
    using assms by (subst run_program.simps) simp
  thus "ends obs N base p s x" unfolding ends_def by blast
qed

lemma ends_unique: "ends obs N base p s x \<Longrightarrow> ends obs N base p s y \<Longrightarrow> x = y"
proof -
  assume "ends obs N base p s x" "ends obs N base p s y"
  then obtain k where k: "map_option (result obs) (run_program N base p k s) = Some x" by (auto simp: ends_def)
  show ?thesis using k \<open>ends obs N base p s y\<close>
  proof (induction k arbitrary: s)
    case 0
    thus ?case by (subst (asm) run_program.simps) (auto simp: ends_done split: if_splits)
  next
    case (Suc k)
    show ?case
    proof (cases "m_pc s \<ge> int (length (code p))")
      case True
      thus ?thesis using Suc.prems by (subst (asm) run_program.simps) (auto simp: ends_done)
    next
      case False
      hence lt: "m_pc s < int (length (code p))" by simp
      show ?thesis
      proof (cases "step N base p s")
        case (Inl e)
        thus ?thesis using Suc.prems lt by (subst (asm) run_program.simps) (auto simp: ends_error result_def)
      next
        case (Inr s')
        thus ?thesis using Suc lt by (subst (asm) run_program.simps) (auto simp: ends_step)
      qed
    qed
  qed
qed

section \<open>Passes that preserve runs\<close>

text \<open>
  \<open>R p s t\<close> relates a machine of the program \<open>p\<close> with one of the rewritten program \<open>tr p\<close>. The original
  either makes a step the rewritten program has dropped, moving on to a later instruction, or both make
  related steps or throw the same exception.
\<close>

locale stuttering_pass =
  fixes N :: "('d, 'u, 'w) num" and base :: int
    and tr :: "('d, 'u) Program \<Rightarrow> ('d, 'u) Program"
    and R :: "('d, 'u) Program \<Rightarrow> ('d, 'w) mach \<Rightarrow> ('d, 'w) mach \<Rightarrow> bool"
    and obs :: "('d, 'u) Program \<Rightarrow> ('d, 'w) mach \<Rightarrow> 'o"
  assumes final: "R p s t \<Longrightarrow> m_pc s \<ge> int (length (code p)) \<Longrightarrow>
      m_pc t \<ge> int (length (code (tr p))) \<and> obs p s = obs p t"
    and sim: "R p s t \<Longrightarrow> m_pc s < int (length (code p)) \<Longrightarrow>
      (\<exists>s'. step N base p s = Inr s' \<and> m_pc s < m_pc s' \<and> R p s' t) \<or>
      (m_pc t < int (length (code (tr p))) \<and> m_sink s = m_sink t \<and>
        ((\<exists>e. step N base p s = Inl e \<and> step N base (tr p) t = Inl e) \<or>
         (\<exists>s' t'. step N base p s = Inr s' \<and> step N base (tr p) t = Inr t' \<and> R p s' t')))"
begin

lemma forward:
  assumes "R p s t" "map_option (result (obs p)) (run_program N base p k s) = Some x"
  shows "ends (obs p) N base (tr p) t x"
  using assms
proof (induction k arbitrary: s t)
  case 0
  hence fin: "m_pc s \<ge> int (length (code p))" "x = result (obs p) (Inr s)"
    by (auto simp: run_program.simps split: if_splits)
  thus ?case using final [OF 0(1)] by (simp add: ends_done result_def)
next
  case (Suc k)
  show ?case
  proof (cases "m_pc s \<ge> int (length (code p))")
    case True
    hence "x = result (obs p) (Inr s)" using Suc.prems(2) by (subst (asm) run_program.simps) simp
    thus ?thesis using final [OF Suc.prems(1) True] by (simp add: ends_done result_def)
  next
    case False
    hence lt: "m_pc s < int (length (code p))" by simp
    from sim [OF Suc.prems(1) lt] show ?thesis
    proof (elim disjE exE conjE)
      fix s' assume "step N base p s = Inr s'" "R p s' t"
      thus ?thesis using Suc lt by (subst (asm) run_program.simps) auto
    next
      fix e assume "m_pc t < int (length (code (tr p)))" "m_sink s = m_sink t" "step N base p s = Inl e" "step N base (tr p) t = Inl e"
      thus ?thesis using Suc.prems(2) lt by (subst (asm) run_program.simps) (auto simp: ends_error result_def)
    next
      fix s' t' assume "m_pc t < int (length (code (tr p)))" "step N base p s = Inr s'" "step N base (tr p) t = Inr t'" "R p s' t'"
      thus ?thesis using Suc lt by (subst (asm) run_program.simps) (auto simp: ends_step)
    qed
  qed
qed

lemma backward:
  assumes "R p s t" "map_option (result (obs p)) (run_program N base (tr p) k t) = Some x"
  shows "ends (obs p) N base p s x"
  using assms
proof (induction "(k, nat (int (length (code p)) - m_pc s))" arbitrary: k s t rule: wf_induct_rule [OF wf_lex_prod [OF wf_less wf_less]])
  case (1 k s t)
  show ?case
  proof (cases "m_pc s \<ge> int (length (code p))")
    case True
    from final [OF 1(2) True] have "m_pc t \<ge> int (length (code (tr p)))" "obs p s = obs p t" by auto
    moreover from this 1(3) have "x = result (obs p) (Inr t)" by (subst (asm) run_program.simps) simp
    ultimately show ?thesis using True by (simp add: ends_done result_def)
  next
    case False
    hence lt: "m_pc s < int (length (code p))" by simp
    from sim [OF 1(2) lt] show ?thesis
    proof (elim disjE exE conjE)
      fix s' assume s': "step N base p s = Inr s'" "m_pc s < m_pc s'" "R p s' t"
      have "ends (obs p) N base p s' x" by (rule 1(1) [OF _ s'(3) 1(3)]) (use s'(2) lt in auto)
      thus ?thesis using ends_step [OF lt s'(1)] by blast
    next
      fix e assume "m_pc t < int (length (code (tr p)))" "m_sink s = m_sink t" "step N base p s = Inl e" "step N base (tr p) t = Inl e"
      thus ?thesis using 1(3) lt by (subst (asm) run_program.simps) (auto simp: ends_error result_def split: nat.splits)
    next
      fix s' t' assume st: "m_pc t < int (length (code (tr p)))" "step N base p s = Inr s'" "step N base (tr p) t = Inr t'" "R p s' t'"
      then obtain j where j: "k = Suc j" "map_option (result (obs p)) (run_program N base (tr p) j t') = Some x"
        using 1(3) by (subst (asm) run_program.simps) (auto split: nat.splits)
      have "ends (obs p) N base p s' x" by (rule 1(1) [OF _ st(4) j(2)]) (simp add: j(1))
      thus ?thesis using ends_step [OF lt st(2)] by blast
    qed
  qed
qed

lemma ends_iff: "R p s t \<Longrightarrow> ends (obs p) N base p s x \<longleftrightarrow> ends (obs p) N base (tr p) t x"
  using forward backward unfolding ends_def by blast

end

section \<open>Dropping instructions\<close>

text \<open>The passes end alike: the marked instructions go, and every branch target moves with its instruction.\<close>

definition new_pc :: "bool list \<Rightarrow> nat \<Rightarrow> nat" where
  "new_pc remove pc = length (filter Not (take pc remove))"

definition retarget :: "bool list \<Rightarrow> Instr \<Rightarrow> Instr" where
  "retarget remove I = (if branches (i_code I) then I\<lparr>i_dst := int (new_pc remove (nat (i_dst I)))\<rparr> else I)"

definition drop_instrs :: "bool list \<Rightarrow> ('d, 'u) Program \<Rightarrow> ('d, 'u) Program" where
  "drop_instrs remove p =
     p\<lparr>code := map (retarget remove) (map fst (filter (\<lambda>(I, r). \<not> r) (zip (code p) remove)))\<rparr>"

lemma retarget_code [simp]: "i_code (retarget remove I) = i_code I"
  by (simp add: retarget_def)

lemma new_pc_0 [simp]: "new_pc remove 0 = 0"
  by (simp add: new_pc_def)

lemma new_pc_Suc: "pc < length remove \<Longrightarrow> new_pc remove (Suc pc) = (if remove ! pc then new_pc remove pc else Suc (new_pc remove pc))"
  by (simp add: new_pc_def take_Suc_conv_app_nth)

lemma length_kept: "length xs = length remove \<Longrightarrow> length (filter (\<lambda>(x, r). \<not> r) (zip xs remove)) = new_pc remove (length remove)"
  by (induction xs remove rule: list_induct2) (auto simp: new_pc_def)

lemma nth_kept:
  "length xs = length remove \<Longrightarrow> pc < length remove \<Longrightarrow> \<not> remove ! pc \<Longrightarrow>
     fst (filter (\<lambda>(x, r). \<not> r) (zip xs remove) ! new_pc remove pc) = xs ! pc
     \<and> new_pc remove pc < new_pc remove (length remove)"
proof (induction xs remove arbitrary: pc rule: list_induct2)
  case (Cons x xs r rs)
  thus ?case by (cases pc) (auto simp: new_pc_def)
qed simp

lemma drop_instrs_length:
  "length remove = length (code p) \<Longrightarrow> length (code (drop_instrs remove p)) = new_pc remove (length (code p))"
  using length_kept [of "code p" remove] by (simp add: drop_instrs_def)

lemma drop_instrs_nth:
  assumes "length remove = length (code p)" "pc < length (code p)" "\<not> remove ! pc"
  shows "code (drop_instrs remove p) ! new_pc remove pc = retarget remove (code p ! pc)"
    and "new_pc remove pc < length (code (drop_instrs remove p))"
  using nth_kept [of "code p" remove pc] length_kept [of "code p" remove] assms by (simp_all add: drop_instrs_def)

lemma drop_instrs_tables [simp]:
  "calls (drop_instrs remove p) = calls p" "messages (drop_instrs remove p) = messages p"
  "pool (drop_instrs remove p) = pool p" "transforms (drop_instrs remove p) = transforms p"
  "vec_densities (drop_instrs remove p) = vec_densities p" "out_regs (drop_instrs remove p) = out_regs p"
  by (simp_all add: drop_instrs_def)

text \<open>An instruction sees the tables of its program, not its code, and only branches see the program counter.\<close>

lemma exec_instr_code: "exec_instr N base (p\<lparr>code := cs\<rparr>) I s = exec_instr N base p I s"
  by (simp add: exec_instr_def exec_regs_def exec_density_def Let_def)

lemma exec_instr_drop: "exec_instr N base (drop_instrs remove p) I s = exec_instr N base p I s"
  by (simp add: drop_instrs_def exec_instr_code)

lemma exec_instr_pc:
  assumes "\<not> branches (i_code I)"
  shows "exec_instr N base p I (s\<lparr>m_pc := q\<rparr>) = bind_res (exec_instr N base p I s) (\<lambda>t. Inr (t\<lparr>m_pc := q\<rparr>))"
    and "exec_instr N base p I s = Inr t \<Longrightarrow> m_pc t = m_pc s"
  using assms
  by (auto simp: exec_instr_def branches_def bind_res_def execute_message_def Let_def split: sum.splits if_splits prod.splits)

lemma step_eq: "0 \<le> m_pc s \<Longrightarrow> step N base p s = bind_res (exec_instr N base p (code p ! nat (m_pc s)) s) (\<lambda>s'. Inr (s'\<lparr>m_pc := m_pc s' + 1\<rparr>))"
  by (simp add: step_def)

definition targets_ok :: "('d, 'u) Program \<Rightarrow> bool" where
  "targets_ok p \<longleftrightarrow> list_all (\<lambda>I. branches (i_code I) \<longrightarrow> 0 \<le> i_dst I \<and> i_dst I \<le> int (length (code p))) (code p)"

text \<open>The instructions that may follow the one at \<open>pc\<close>.\<close>

definition succs :: "('d, 'u) Program \<Rightarrow> nat \<Rightarrow> int set" where
  "succs p pc = (let I = code p ! pc in
     (if branches (i_code I) then {i_dst I} else {}) \<union> (if i_code I \<noteq> P_JMP then {int pc + 1} else {}))"

lemma succs_range: "targets_ok p \<Longrightarrow> pc < length (code p) \<Longrightarrow> q \<in> succs p pc \<Longrightarrow> 0 \<le> q \<and> q \<le> int (length (code p))"
  by (auto simp: succs_def targets_ok_def list_all_length Let_def split: if_splits)

lemma step_succs:
  assumes "0 \<le> m_pc s" "m_pc s < int (length (code p))" "step N base p s = Inr s'"
  shows "m_pc s' \<in> succs p (nat (m_pc s))"
proof (cases "branches (i_code (code p ! nat (m_pc s)))")
  case True
  thus ?thesis using assms
    by (auto simp: step_eq exec_instr_def succs_def branches_def Let_def split: if_splits)
next
  case False
  then obtain u where "exec_instr N base p (code p ! nat (m_pc s)) s = Inr u" "s' = u\<lparr>m_pc := m_pc u + 1\<rparr>"
    using assms by (auto simp: step_eq bind_res_def split: sum.splits)
  thus ?thesis using exec_instr_pc(2) [OF False] assms(1) False by (auto simp: succs_def Let_def branches_def)
qed

section \<open>Dropping instructions that set dead registers\<close>

text \<open>The instructions passes drop: they set registers and cannot fail.\<close>

definition pure_set :: "Instr \<Rightarrow> bool" where
  "pure_set I \<longleftrightarrow> i_code I \<in> {P_CONST, P_CONSTR, P_FILL, P_MOV, P_MOVR}"

lemma each_elem_total: "(\<And>k r. \<exists>v. f k r = Inr v) \<Longrightarrow> \<exists>r'. each_elem f d ks r = Inr r'"
proof (induction ks arbitrary: r)
  case (Cons k ks)
  obtain v where "f k r = Inr v" using Cons.prems by blast
  thus ?case using Cons by simp
qed simp

lemma pure_set_exec:
  assumes "pure_set I"
  shows "\<exists>r. exec_instr N base p I s = Inr (s\<lparr>m_reg := r\<rparr>) \<and> (\<forall>x. x \<notin> cells (each_write p I) \<longrightarrow> r x = m_reg s x)"
proof -
  have "\<exists>r. exec_regs N base p I (m_reg s) = Inr r"
    using assms each_elem_total [of "\<lambda>k _. Inr (pool p ! nat (i_a I + k))"] each_elem_total [of "\<lambda>k r. Inr (r (i_a I + k))"]
    by (auto simp: pure_set_def exec_regs_def exec_move_def alu_value_def)
  then obtain r where "exec_instr N base p I s = Inr (s\<lparr>m_reg := r\<rparr>)"
    using assms by (auto simp: exec_instr_def pure_set_def)
  moreover have "spans_modelled I" "payload_ok p I"
    using assms by (auto simp: pure_set_def spans_modelled_def payload_ok_def span_simps)
  ultimately show ?thesis using exec_instr_frame [of I p s "m_reg s" N base] by auto
qed

text \<open>
  \<open>L p pc\<close> are registers whose values before \<open>pc\<close> may matter, and \<open>reach p pc\<close> holds of every instruction a run can
  get to. The machines agree on the registers that matter.
\<close>

definition drop_rel :: "(('d, 'u) Program \<Rightarrow> bool) \<Rightarrow> (('d, 'u) Program \<Rightarrow> bool list) \<Rightarrow> (('d, 'u) Program \<Rightarrow> int \<Rightarrow> int set)
    \<Rightarrow> (('d, 'u) Program \<Rightarrow> int \<Rightarrow> bool) \<Rightarrow> ('d, 'u) Program \<Rightarrow> ('d, 'w) mach \<Rightarrow> ('d, 'w) mach \<Rightarrow> bool" where
  "drop_rel ok remove L reach p s t \<longleftrightarrow> ok p \<and> 0 \<le> m_pc s \<and> m_pc s \<le> int (length (code p)) \<and> reach p (m_pc s)
     \<and> (\<exists>r2. t = s\<lparr>m_reg := r2, m_pc := int (new_pc (remove p) (nat (m_pc s)))\<rparr> \<and> agree (L p (m_pc s)) (m_reg s) r2)"

locale dropping_pass =
  fixes N :: "('d, 'u, 'w) num" and base :: int
    and ok :: "('d, 'u) Program \<Rightarrow> bool"
    and remove :: "('d, 'u) Program \<Rightarrow> bool list"
    and L :: "('d, 'u) Program \<Rightarrow> int \<Rightarrow> int set"
    and reach :: "('d, 'u) Program \<Rightarrow> int \<Rightarrow> bool"
    and obs :: "('d, 'u) Program \<Rightarrow> ('d, 'w) mach \<Rightarrow> 'o"
  assumes targets: "ok p \<Longrightarrow> targets_ok p"
    and marks: "ok p \<Longrightarrow> length (remove p) = length (code p)"
    and entry: "ok p \<Longrightarrow> reach p 0"
    and dropped: "ok p \<Longrightarrow> pc < length (code p) \<Longrightarrow> reach p (int pc) \<Longrightarrow> remove p ! pc \<Longrightarrow>
      pure_set (code p ! pc) \<and> cells (each_write p (code p ! pc)) \<inter> L p (int pc + 1) = {}
      \<and> L p (int pc + 1) \<subseteq> L p (int pc) \<union> cells (each_write p (code p ! pc)) \<and> reach p (int pc + 1)"
    and kept: "ok p \<Longrightarrow> pc < length (code p) \<Longrightarrow> reach p (int pc) \<Longrightarrow> \<not> remove p ! pc \<Longrightarrow>
      L p (int pc) = UNIV \<or> spans_modelled (code p ! pc) \<and> payload_ok p (code p ! pc)
        \<and> cells (each_read p (code p ! pc)) \<subseteq> L p (int pc)"
    and flow: "ok p \<Longrightarrow> pc < length (code p) \<Longrightarrow> reach p (int pc) \<Longrightarrow> q \<in> succs p pc \<Longrightarrow>
      reach p q \<and> L p q \<subseteq> L p (int pc) \<union> cells (each_write p (code p ! pc))"
    and observed: "ok p \<Longrightarrow> agree (L p (int (length (code p)))) (m_reg s) r2 \<Longrightarrow> obs p (s\<lparr>m_reg := r2, m_pc := q\<rparr>) = obs p s"
begin

abbreviation rel :: "('d, 'u) Program \<Rightarrow> ('d, 'w) mach \<Rightarrow> ('d, 'w) mach \<Rightarrow> bool" where
  "rel \<equiv> drop_rel ok remove L reach"

abbreviation kept_code :: "('d, 'u) Program \<Rightarrow> ('d, 'u) Program" where
  "kept_code p \<equiv> drop_instrs (remove p) p"

lemma rel_removed:
  assumes "rel p s t" "m_pc s < int (length (code p))" "remove p ! nat (m_pc s)"
  shows "\<exists>s'. step N base p s = Inr s' \<and> m_pc s < m_pc s' \<and> rel p s' t"
proof -
  let ?pc = "m_pc s" and ?I = "code p ! nat (m_pc s)" and ?D = "remove p"
  have pc: "0 \<le> ?pc" "nat ?pc < length (code p)" and ok: "ok p" and re: "reach p (int (nat ?pc))"
    using assms(1,2) by (auto simp: drop_rel_def)
  obtain r2 where t: "t = s\<lparr>m_reg := r2, m_pc := int (new_pc ?D (nat ?pc))\<rparr>" and ag: "agree (L p ?pc) (m_reg s) r2"
    using assms(1) by (auto simp: drop_rel_def)
  from dropped [OF ok pc(2) re assms(3)] pc(1)
  have d: "pure_set ?I" "cells (each_write p ?I) \<inter> L p (?pc + 1) = {}" "L p (?pc + 1) \<subseteq> L p ?pc \<union> cells (each_write p ?I)" "reach p (?pc + 1)"
    by auto
  obtain r where r: "exec_instr N base p ?I s = Inr (s\<lparr>m_reg := r\<rparr>)" "\<And>x. x \<notin> cells (each_write p ?I) \<Longrightarrow> r x = m_reg s x"
    using pure_set_exec [OF d(1)] by blast
  let ?s' = "s\<lparr>m_reg := r, m_pc := ?pc + 1\<rparr>"
  have "step N base p s = Inr ?s'" using r(1) pc(1) by (simp add: step_eq)
  moreover have "agree (L p (?pc + 1)) r r2"
    unfolding agree_def
  proof
    fix x assume "x \<in> L p (?pc + 1)"
    hence "x \<notin> cells (each_write p ?I)" "x \<in> L p ?pc" using d(2,3) by auto
    thus "r x = r2 x" using r(2) ag by (simp add: agree_def)
  qed
  moreover have "new_pc ?D (nat (?pc + 1)) = new_pc ?D (nat ?pc)"
    using new_pc_Suc [of "nat ?pc" ?D] assms(3) pc marks [OF ok] by (simp add: nat_add_distrib)
  ultimately have "rel p ?s' t" using ok pc assms(2) d(4)
    unfolding drop_rel_def by (intro conjI exI [of _ r2]) (auto simp: t)
  thus ?thesis using \<open>step N base p s = Inr ?s'\<close> by force
qed

lemma rel_kept:
  assumes "rel p s t" "m_pc s < int (length (code p))" "\<not> remove p ! nat (m_pc s)"
  shows "(\<exists>e. step N base p s = Inl e \<and> step N base (kept_code p) t = Inl e) \<or>
    (\<exists>s' t'. step N base p s = Inr s' \<and> step N base (kept_code p) t = Inr t' \<and> rel p s' t')"
proof -
  let ?pc = "m_pc s" and ?I = "code p ! nat (m_pc s)" and ?D = "remove p"
  have pc: "0 \<le> ?pc" "nat ?pc < length (code p)" and ok: "ok p" and re: "reach p (int (nat ?pc))"
    using assms(1,2) by (auto simp: drop_rel_def)
  obtain r2 where t: "t = s\<lparr>m_reg := r2, m_pc := int (new_pc ?D (nat ?pc))\<rparr>" and ag: "agree (L p ?pc) (m_reg s) r2"
    using assms(1) by (auto simp: drop_rel_def)
  have at: "code (kept_code p) ! nat (m_pc t) = retarget ?D ?I"
    using drop_instrs_nth(1) [of ?D p "nat ?pc"] marks [OF ok] assms(3) pc by (simp add: t)
  have suc: "new_pc ?D (nat (?pc + 1)) = Suc (new_pc ?D (nat ?pc))"
    using new_pc_Suc [of "nat ?pc" ?D] assms(3) marks [OF ok] pc by (simp add: nat_add_distrib)
  have S: "L p ?pc = UNIV \<or> spans_modelled ?I \<and> payload_ok p ?I \<and> cells (each_read p ?I) \<subseteq> L p ?pc"
    using kept [OF ok pc(2) re assms(3)] pc(1) by simp
  have flow: "0 \<le> q \<and> q \<le> int (length (code p)) \<and> reach p q \<and> L p q \<subseteq> L p ?pc \<union> cells (each_write p ?I)" if "q \<in> succs p (nat ?pc)" for q
    using flow [OF ok pc(2) re that] succs_range [OF targets [OF ok] pc(2) that] pc(1) by simp
  have frame: "(\<exists>e. exec_instr N base p ?I s = Inl e \<and> exec_instr N base p ?I (s\<lparr>m_reg := r2\<rparr>) = Inl e) \<or>
    (\<exists>u r2'. exec_instr N base p ?I s = Inr u \<and> exec_instr N base p ?I (s\<lparr>m_reg := r2\<rparr>) = Inr (u\<lparr>m_reg := r2'\<rparr>)
      \<and> (\<forall>x. x \<in> L p ?pc \<union> cells (each_write p ?I) \<longrightarrow> m_reg u x = r2' x))"
  proof (cases "L p ?pc = UNIV")
    case True
    hence "r2 = m_reg s" using ag by (auto simp: agree_def fun_eq_iff)
    hence e: "s\<lparr>m_reg := r2\<rparr> = s" by simp
    show ?thesis
    proof (cases "exec_instr N base p ?I s")
      case (Inr u)
      thus ?thesis using e by (intro disjI2 exI [of _ u] exI [of _ "m_reg u"]) simp
    qed (simp add: e)
  next
    case False
    hence m: "spans_modelled ?I" "payload_ok p ?I" "agree (cells (each_read p ?I)) (m_reg s) r2"
      using S agree_subset [OF ag] by auto
    from exec_instr_frame [OF m, of N base] show ?thesis
    proof (elim disjE exE conjE)
      fix u r2' assume "exec_instr N base p ?I s = Inr u" "exec_instr N base p ?I (s\<lparr>m_reg := r2\<rparr>) = Inr (u\<lparr>m_reg := r2'\<rparr>)"
        "agree (cells (each_write p ?I)) (m_reg u) r2'"
        "\<forall>x. x \<notin> cells (each_write p ?I) \<longrightarrow> m_reg u x = m_reg s x \<and> r2' x = r2 x"
      thus ?thesis using ag by (intro disjI2 exI [of _ u] exI [of _ r2']) (auto simp: agree_def)
    qed blast
  qed
  show ?thesis
  proof (cases "branches (i_code ?I)")
    case True
    let ?j = "i_code ?I = P_JMP \<or> n_eq N (m_reg s (i_a ?I)) (n_of_int N 0)"
    let ?q = "if ?j then i_dst ?I else ?pc + 1"
    have run: "step N base p s = Inr (s\<lparr>m_pc := ?q\<rparr>)" using pc(1) True by (auto simp: step_eq exec_instr_def branches_def)
    have q: "?q \<in> succs p (nat ?pc)" using True pc(1) by (auto simp: succs_def Let_def branches_def)
    have "i_code ?I = P_JZ \<longrightarrow> m_reg s (i_a ?I) = r2 (i_a ?I)"
      using S ag by (auto simp: agree_def each_read_def span_simps subset_iff)
    hence "step N base (kept_code p) t = Inr (s\<lparr>m_reg := r2, m_pc := int (new_pc ?D (nat ?q))\<rparr>)"
      using True suc at by (auto simp: t step_eq exec_instr_drop exec_instr_def branches_def retarget_def)
    moreover have "rel p (s\<lparr>m_pc := ?q\<rparr>) (s\<lparr>m_reg := r2, m_pc := int (new_pc ?D (nat ?q))\<rparr>)"
    proof -
      have "cells (each_write p ?I) = {}" using True by (auto simp: branches_def each_write_def span_simps)
      hence "agree (L p ?q) (m_reg s) r2" using flow [OF q] agree_subset [OF ag] by simp
      thus ?thesis unfolding drop_rel_def using ok flow [OF q] by (intro conjI exI [of _ r2]) auto
    qed
    ultimately show ?thesis using run by blast
  next
    case False
    have run: "step N base p s = bind_res (exec_instr N base p ?I s) (\<lambda>u. Inr (u\<lparr>m_pc := ?pc + 1\<rparr>))"
      using exec_instr_pc(2) [OF False, of N base p s]
      by (cases "exec_instr N base p ?I s") (simp_all add: step_eq [OF pc(1)])
    have run': "step N base (kept_code p) t = bind_res (exec_instr N base p ?I (s\<lparr>m_reg := r2\<rparr>)) (\<lambda>u. Inr (u\<lparr>m_pc := int (new_pc ?D (nat ?pc)) + 1\<rparr>))"
      using step_eq [of t N base "kept_code p"] False
        exec_instr_pc(1) [OF False, of N base p "int (new_pc ?D (nat ?pc))" "s\<lparr>m_reg := r2\<rparr>"]
      unfolding at exec_instr_drop
      by (cases "exec_instr N base p ?I (s\<lparr>m_reg := r2\<rparr>)") (simp_all add: t retarget_def)
    have q: "?pc + 1 \<in> succs p (nat ?pc)" using False pc(1) by (auto simp: succs_def Let_def branches_def)
    from frame show ?thesis
    proof (elim disjE exE conjE)
      fix u r2'
      assume u: "exec_instr N base p ?I s = Inr u" "exec_instr N base p ?I (s\<lparr>m_reg := r2\<rparr>) = Inr (u\<lparr>m_reg := r2'\<rparr>)"
        "\<forall>x. x \<in> L p ?pc \<union> cells (each_write p ?I) \<longrightarrow> m_reg u x = r2' x"
      have "agree (L p (?pc + 1)) (m_reg u) r2'" using u(3) flow [OF q] by (auto simp: agree_def)
      hence "rel p (u\<lparr>m_pc := ?pc + 1\<rparr>) (u\<lparr>m_reg := r2', m_pc := int (new_pc ?D (nat ?pc)) + 1\<rparr>)"
        unfolding drop_rel_def using ok flow [OF q] suc by (intro conjI exI [of _ r2']) auto
      thus ?thesis using run run' u(1,2) by auto
    qed (simp add: run run')
  qed
qed

end

sublocale dropping_pass \<subseteq> stuttering_pass N base "\<lambda>p. drop_instrs (remove p) p" "drop_rel ok remove L reach" obs
proof
  fix p :: "('d, 'u) Program" and s t :: "('d, 'w) mach"
  assume R: "drop_rel ok remove L reach p s t" and fin: "m_pc s \<ge> int (length (code p))"
  obtain r2 where t: "t = s\<lparr>m_reg := r2, m_pc := int (new_pc (remove p) (nat (m_pc s)))\<rparr>"
    and ag: "agree (L p (m_pc s)) (m_reg s) r2" and pc: "m_pc s = int (length (code p))" and ok: "ok p"
    using R fin by (auto simp: drop_rel_def)
  show "m_pc t \<ge> int (length (code (drop_instrs (remove p) p))) \<and> obs p s = obs p t"
    using observed [OF ok, of s r2] ag pc by (simp add: drop_instrs_length marks [OF ok] t)
next
  fix p :: "('d, 'u) Program" and s t :: "('d, 'w) mach"
  assume R: "drop_rel ok remove L reach p s t" and lt: "m_pc s < int (length (code p))"
  have ok: "ok p" and pc: "0 \<le> m_pc s" using R by (simp_all add: drop_rel_def)
  have sink: "m_sink s = m_sink t" and tpc: "m_pc t = int (new_pc (remove p) (nat (m_pc s)))"
    using R by (auto simp: drop_rel_def)
  show "(\<exists>s'. step N base p s = Inr s' \<and> m_pc s < m_pc s' \<and> drop_rel ok remove L reach p s' t) \<or>
    (m_pc t < int (length (code (drop_instrs (remove p) p))) \<and> m_sink s = m_sink t \<and>
     ((\<exists>e. step N base p s = Inl e \<and> step N base (drop_instrs (remove p) p) t = Inl e) \<or>
      (\<exists>s' t'. step N base p s = Inr s' \<and> step N base (drop_instrs (remove p) p) t = Inr t' \<and> drop_rel ok remove L reach p s' t')))"
  proof (cases "remove p ! nat (m_pc s)")
    case True
    thus ?thesis using rel_removed [OF R lt] by blast
  next
    case False
    have "m_pc t < int (length (code (drop_instrs (remove p) p)))"
      using drop_instrs_nth(2) [of "remove p" p "nat (m_pc s)"] marks [OF ok] False lt pc tpc by simp
    thus ?thesis using sink rel_kept [OF R lt False] by blast
  qed
qed

context dropping_pass
begin

lemma drop_ends_iff:
  assumes "ok p"
  shows "ends (obs p) N base p (start reg w) x \<longleftrightarrow> ends (obs p) N base (drop_instrs (remove p) p) (start reg w) x"
proof (rule ends_iff)
  show "drop_rel ok remove L reach p (start reg w) (start reg w)"
    unfolding drop_rel_def using assms entry by (intro conjI exI [of _ reg]) (auto simp: start_def)
qed

end

section \<open>Dead scalar constants\<close>

text \<open>\<^verbatim>\<open>elide_program_dead_constants\<close>: is the cell overwritten before a read, a branch, or an instruction whose
  spans are not modelled?\<close>

definition call_writes :: "('d, 'u) Program \<Rightarrow> Instr \<Rightarrow> span list" where
  "call_writes p I = (if i_code I = P_CALL then [c_out (calls p ! nat (i_a I))] else each_write p I)"

fun overwritten_first :: "('d, 'u) Program \<Rightarrow> span \<Rightarrow> Instr list \<Rightarrow> bool" where
  "overwritten_first p cell [] = False"
| "overwritten_first p cell (I # Is) =
     (if has (program_spec_of I) kProgramNoAdjoint then False
      else if list_ex (overlaps cell) (each_read p I) then False
      else if list_ex (overlaps cell) (call_writes p I) then True
      else overwritten_first p cell Is)"

definition dead_constants :: "('d, 'u) Program \<Rightarrow> bool list" where
  "dead_constants p = map (\<lambda>pc. i_code (code p ! pc) = P_CONST
      \<and> overwritten_first p (i_dst (code p ! pc), 1) (drop (pc + 1) (code p))) [0..<length (code p)]"

definition elide_program_dead_constants :: "('d, 'u) Program \<Rightarrow> ('d, 'u) Program \<times> bool" where
  "elide_program_dead_constants p =
     (if \<not> targets_ok p then (p, False)
      else let remove = dead_constants p in
        if \<not> list_ex id remove then (p, False) else (drop_instrs remove p, True))"

lemma overlaps_cell: "overlaps (r, 1) s \<longleftrightarrow> r \<in> {fst s..<fst s + snd s}"
  by (auto simp: overlaps_def)

lemma list_ex_cells: "list_ex (overlaps (r, 1)) ss \<longleftrightarrow> r \<in> cells ss"
  by (auto simp: list_ex_iff overlaps_cell cells_def)

lemma call_writes_sub: "cells (call_writes p I) \<subseteq> cells (each_write p I)"
  by (auto simp: call_writes_def each_write_def Let_def)

definition dead_at :: "('d, 'u) Program \<Rightarrow> int \<Rightarrow> int \<Rightarrow> bool" where
  "dead_at p pc r \<longleftrightarrow> overwritten_first p (r, 1) (drop (nat pc) (code p))"

lemma dead_at_next:
  assumes "0 \<le> pc" "pc < int (length (code p))" "dead_at p pc r" and "r \<notin> cells (each_write p (code p ! nat pc))"
  shows "dead_at p (pc + 1) r" and "\<not> has (program_spec_of (code p ! nat pc)) kProgramNoAdjoint"
    and "r \<notin> cells (each_read p (code p ! nat pc))"
proof -
  have d: "drop (nat pc) (code p) = code p ! nat pc # drop (nat (pc + 1)) (code p)"
    using assms(1,2) by (simp add: nat_add_distrib Cons_nth_drop_Suc)
  show "dead_at p (pc + 1) r" and "\<not> has (program_spec_of (code p ! nat pc)) kProgramNoAdjoint"
    and "r \<notin> cells (each_read p (code p ! nat pc))"
    using assms(3,4) call_writes_sub [of p "code p ! nat pc"]
    by (auto simp: dead_at_def d list_ex_cells split: if_splits)
qed

lemma dead_at_now:
  assumes "0 \<le> pc" "pc < int (length (code p))" "dead_at p pc r"
  shows "\<not> has (program_spec_of (code p ! nat pc)) kProgramNoAdjoint \<and> r \<notin> cells (each_read p (code p ! nat pc))"
  using assms by (auto simp: dead_at_def Cons_nth_drop_Suc [symmetric] list_ex_cells split: if_splits)

lemma dead_constants_length [simp]: "length (dead_constants p) = length (code p)"
  by (simp add: dead_constants_def)

lemma new_pc_none: "\<not> list_ex id remove \<Longrightarrow> pc \<le> length remove \<Longrightarrow> new_pc remove pc = pc"
proof -
  assume a: "\<not> list_ex id remove" "pc \<le> length remove"
  have "filter Not (take pc remove) = take pc remove"
    by (rule filter_True) (use a(1) in \<open>auto simp: list_ex_iff dest: in_set_takeD\<close>)
  thus ?thesis using a(2) by (simp add: new_pc_def)
qed

lemma drop_instrs_none:
  assumes "targets_ok p" "length remove = length (code p)" "\<not> list_ex id remove"
  shows "drop_instrs remove p = p"
proof -
  have "filter (\<lambda>(I, r). \<not> r) (zip (code p) remove) = zip (code p) remove"
    by (rule filter_True) (use assms(3) in \<open>auto simp: list_ex_iff dest: set_zip_rightD\<close>)
  moreover have "retarget remove I = I" if "I \<in> set (code p)" for I
    using assms that new_pc_none [of remove "nat (i_dst I)"]
    by (auto simp: retarget_def targets_ok_def list_all_iff)
  ultimately show ?thesis using assms(2) by (simp add: drop_instrs_def map_idI)
qed

lemma elide_program_dead_constants_eq:
  "targets_ok p \<Longrightarrow> fst (elide_program_dead_constants p) = drop_instrs (dead_constants p) p"
  by (simp add: elide_program_dead_constants_def Let_def drop_instrs_none)

definition dead_live :: "('d, 'u) Program \<Rightarrow> int \<Rightarrow> int set" where
  "dead_live p pc = {r. \<not> dead_at p pc r}"

interpretation dead_constants_pass: dropping_pass N base targets_ok dead_constants dead_live "\<lambda>_ _. True" "\<lambda>_. observe_all"
  for N base
proof
  fix p :: "('a, 'b) Program" and pc
  assume pc: "pc < length (code p)" and d: "dead_constants p ! pc"
  have I: "i_code (code p ! pc) = P_CONST" and od: "dead_at p (int pc + 1) (i_dst (code p ! pc))"
    using pc d by (auto simp: dead_constants_def dead_at_def nat_add_distrib)
  have W: "cells (each_write p (code p ! pc)) = {i_dst (code p ! pc)}"
    using I by (auto simp: cells_write span_simps)
  show "pure_set (code p ! pc) \<and> cells (each_write p (code p ! pc)) \<inter> dead_live p (int pc + 1) = {}
      \<and> dead_live p (int pc + 1) \<subseteq> dead_live p (int pc) \<union> cells (each_write p (code p ! pc)) \<and> True"
    using I od W dead_at_next(1) [of "int pc" p] pc by (auto simp: pure_set_def dead_live_def)
next
  fix p :: "('a, 'b) Program" and pc
  assume pc: "pc < length (code p)"
  show "dead_live p (int pc) = UNIV \<or> spans_modelled (code p ! pc) \<and> payload_ok p (code p ! pc)
      \<and> cells (each_read p (code p ! pc)) \<subseteq> dead_live p (int pc)"
  proof (cases "has (program_spec_of (code p ! pc)) kProgramNoAdjoint")
    case True
    hence "dead_live p (int pc) = UNIV" using dead_at_now [of "int pc" p] pc by (auto simp: dead_live_def)
    thus ?thesis by blast
  next
    case False
    moreover from this have "payload_ok p (code p ! pc)" by (auto simp: payload_ok_def program_spec_of_def program_rule_def has_simps)
    ultimately show ?thesis using dead_at_now [of "int pc" p] pc by (auto simp: dead_live_def spans_modelled_def)
  qed
next
  fix p :: "('a, 'b) Program" and pc q
  assume pc: "pc < length (code p)" and q: "q \<in> succs p pc"
  show "True \<and> dead_live p q \<subseteq> dead_live p (int pc) \<union> cells (each_write p (code p ! pc))"
  proof (cases "q = int pc + 1")
    case True
    thus ?thesis using dead_at_next(1) [of "int pc" p] pc by (auto simp: dead_live_def)
  next
    case False
    hence "has (program_spec_of (code p ! pc)) kProgramNoAdjoint"
      using q by (auto simp: succs_def branches_def Let_def span_simps split: if_splits)
    thus ?thesis using dead_at_now [of "int pc" p] pc by (auto simp: dead_live_def)
  qed
next
  fix p :: "('a, 'b) Program" and s :: "('a, 'c) mach" and r2 q
  assume "agree (dead_live p (int (length (code p)))) (m_reg s) r2"
  hence "r2 = m_reg s" by (auto simp: agree_def dead_live_def dead_at_def fun_eq_iff)
  thus "observe_all (s\<lparr>m_reg := r2, m_pc := q\<rparr>) = observe_all s" by (simp add: observe_all_def)
qed (simp_all add: dead_constants_length)

text \<open>C3. Removing the scalar constants that \<open>elide_program_dead_constants\<close> finds dead, with every branch
  retargeted, is invisible: from every register file and evaluation state, the rewritten program ends exactly
  when the original does, loops included, with the same exception and printed text or with the same registers,
  evaluation state and printed text.\<close>

theorem elide_program_dead_constants_sound:
  "ends observe_all N base p (start reg w) x
     \<longleftrightarrow> ends observe_all N base (fst (elide_program_dead_constants p)) (start reg w) x"
proof (cases "targets_ok p")
  case True
  thus ?thesis using dead_constants_pass.drop_ends_iff [OF True] by (simp add: elide_program_dead_constants_eq)
next
  case False
  thus ?thesis by (simp add: elide_program_dead_constants_def)
qed

end
