(* ===== verification/ProgramInit.thy ===== *)
theory ProgramInit
  imports ProgramPasses "HOL-Library.While_Combinator"
begin

text \<open>
  Which registers a program needs its caller to seed (\<^verbatim>\<open>runtime/src/program.cpp\<close>): the definite-initialisation
  analysis \<^verbatim>\<open>program_initializes_reads\<close>, a data-flow fixed point over the control-flow graph, and the narrowing
  of input windows \<^verbatim>\<open>used_program_inputs\<close>. Both are proved against the interpreter by the same lemma: a family of
  register sets, one per instruction, that contains every read and is closed under the flow.
\<close>

section \<open>Runs that agree\<close>

definition sufficient :: "('d, 'u) Program \<Rightarrow> (int \<Rightarrow> int set) \<Rightarrow> bool" where
  "sufficient p A \<longleftrightarrow>
     (\<forall>pc < length (code p). let I = code p ! pc in
        spans_modelled I \<and> payload_ok p I \<and> cells (each_read p I) \<subseteq> A (int pc)
        \<and> (\<forall>q \<in> succs p pc. 0 \<le> q \<and> q \<le> int (length (code p)) \<and> A q \<subseteq> A (int pc) \<union> cells (each_write p I)))
     \<and> set (out_regs p) \<subseteq> A (int (length (code p)))"

lemma sufficientD:
  assumes "sufficient p A" "0 \<le> pc" "pc < int (length (code p))"
  shows "spans_modelled (code p ! nat pc) \<and> payload_ok p (code p ! nat pc) \<and> cells (each_read p (code p ! nat pc)) \<subseteq> A pc
    \<and> (\<forall>q \<in> succs p (nat pc). 0 \<le> q \<and> q \<le> int (length (code p)) \<and> A q \<subseteq> A pc \<union> cells (each_write p (code p ! nat pc)))"
proof -
  have "nat pc < length (code p)" "int (nat pc) = pc" using assms(2,3) by auto
  thus ?thesis using assms(1) unfolding sufficient_def Let_def by metis
qed

lemma step_agree:
  assumes "sufficient p A" "0 \<le> m_pc s" "m_pc s < int (length (code p))" "agree (A (m_pc s)) (m_reg s) r2"
  shows "(\<exists>e. step N base p s = Inl e \<and> step N base p (s\<lparr>m_reg := r2\<rparr>) = Inl e) \<or>
    (\<exists>s' r2'. step N base p s = Inr s' \<and> step N base p (s\<lparr>m_reg := r2\<rparr>) = Inr (s'\<lparr>m_reg := r2'\<rparr>)
       \<and> 0 \<le> m_pc s' \<and> m_pc s' \<le> int (length (code p)) \<and> agree (A (m_pc s')) (m_reg s') r2')"
proof -
  let ?I = "code p ! nat (m_pc s)"
  have S: "spans_modelled ?I" "payload_ok p ?I" "cells (each_read p ?I) \<subseteq> A (m_pc s)"
    "\<And>q. q \<in> succs p (nat (m_pc s)) \<Longrightarrow> 0 \<le> q \<and> q \<le> int (length (code p)) \<and> A q \<subseteq> A (m_pc s) \<union> cells (each_write p ?I)"
    using sufficientD [OF assms(1-3)] by blast+
  have "agree (cells (each_read p ?I)) (m_reg s) r2" by (rule agree_subset [OF assms(4) S(3)])
  from exec_instr_frame [OF S(1,2) this, of N base] show ?thesis
  proof (elim disjE exE conjE)
    fix e assume "exec_instr N base p ?I s = Inl e" "exec_instr N base p ?I (s\<lparr>m_reg := r2\<rparr>) = Inl e"
    thus ?thesis using assms(2) by (simp add: step_eq)
  next
    fix t r2' assume t: "exec_instr N base p ?I s = Inr t" "exec_instr N base p ?I (s\<lparr>m_reg := r2\<rparr>) = Inr (t\<lparr>m_reg := r2'\<rparr>)"
      "agree (cells (each_write p ?I)) (m_reg t) r2'"
      "\<forall>x. x \<notin> cells (each_write p ?I) \<longrightarrow> m_reg t x = m_reg s x \<and> r2' x = r2 x"
    let ?s' = "t\<lparr>m_pc := m_pc t + 1\<rparr>"
    have run: "step N base p s = Inr ?s'" "step N base p (s\<lparr>m_reg := r2\<rparr>) = Inr (?s'\<lparr>m_reg := r2'\<rparr>)"
      using t(1,2) assms(2) by (simp_all add: step_eq)
    note q = S(4) [OF step_succs [OF assms(2,3) run(1)]]
    have "agree (A (m_pc ?s')) (m_reg ?s') r2'"
      unfolding agree_def
    proof
      fix x assume "x \<in> A (m_pc ?s')"
      hence "x \<in> A (m_pc s) \<or> x \<in> cells (each_write p ?I)" using q by blast
      thus "m_reg ?s' x = r2' x" using t(3,4) assms(4) by (cases "x \<in> cells (each_write p ?I)") (auto simp: agree_def)
    qed
    thus ?thesis using run q by blast
  qed
qed

lemma run_agree:
  assumes "sufficient p A" "0 \<le> m_pc s" "m_pc s \<le> int (length (code p))" "agree (A (m_pc s)) (m_reg s) r2"
  shows "map_option (result (observe_outs p)) (run_program N base p fuel s) = map_option (result (observe_outs p)) (run_program N base p fuel (s\<lparr>m_reg := r2\<rparr>))"
  using assms(2-4)
proof (induction fuel arbitrary: s r2)
  case 0
  show ?case
  proof (cases "m_pc s \<ge> int (length (code p))")
    case True
    hence "agree (set (out_regs p)) (m_reg s) r2"
      using 0 assms(1) by (auto simp: sufficient_def elim: agree_subset)
    thus ?thesis using True by (simp add: run_program.simps result_def observe_outs_def agree_def)
  qed (simp add: run_program.simps)
next
  case (Suc fuel)
  show ?case
  proof (cases "m_pc s \<ge> int (length (code p))")
    case True
    hence "agree (set (out_regs p)) (m_reg s) r2"
      using Suc.prems assms(1) by (auto simp: sufficient_def elim: agree_subset)
    thus ?thesis using True by (subst (1 2) run_program.simps) (simp add: result_def observe_outs_def agree_def)
  next
    case False
    hence lt: "m_pc s < int (length (code p))" by simp
    from step_agree [OF assms(1) Suc.prems(1) lt Suc.prems(3), of N base] show ?thesis
    proof (elim disjE exE conjE)
      fix e assume "step N base p s = Inl e" "step N base p (s\<lparr>m_reg := r2\<rparr>) = Inl e"
      thus ?thesis using lt by (subst (1 2) run_program.simps) simp
    next
      fix s' r2' assume "step N base p s = Inr s'" "step N base p (s\<lparr>m_reg := r2\<rparr>) = Inr (s'\<lparr>m_reg := r2'\<rparr>)"
        "0 \<le> m_pc s'" "m_pc s' \<le> int (length (code p))" "agree (A (m_pc s')) (m_reg s') r2'"
      thus ?thesis using Suc.IH [of s' r2'] lt by (subst (1 2) run_program.simps) simp
    qed
  qed
qed

section \<open>Definite initialisation\<close>

text \<open>\<^verbatim>\<open>Bits\<close> is the set of its set bits; \<open>full\<close> is the vector with every word \<^verbatim>\<open>~0\<close>.\<close>

definition words :: "('d, 'u) Program \<Rightarrow> int" where
  "words p = (n_regs p + 63) div 64"

definition full :: "('d, 'u) Program \<Rightarrow> int set" where
  "full p = {0..<64 * words p}"

definition valid_span :: "('d, 'u) Program \<Rightarrow> span \<Rightarrow> bool" where
  "valid_span p s \<longleftrightarrow> fst s \<ge> 0 \<and> snd s \<ge> 0 \<and> fst s \<le> n_regs p \<and> snd s \<le> n_regs p - fst s"

definition instr_ok :: "('d, 'u) Program \<Rightarrow> Instr \<Rightarrow> bool" where
  "instr_ok p I \<longleftrightarrow> spans_modelled I
     \<and> \<not> (i_code I = P_CALL \<and> (i_a I < 0 \<or> i_a I \<ge> int (length (calls p))))
     \<and> \<not> ((i_code I = P_PRINT \<or> i_code I = P_REJECT) \<and> (i_a I < 0 \<or> i_a I \<ge> int (length (messages p))))
     \<and> \<not> (branches (i_code I) \<and> (i_dst I < 0 \<or> i_dst I > int (length (code p))))
     \<and> list_all (valid_span p) (each_read p I) \<and> list_all (valid_span p) (call_writes p I)"

definition preds :: "('d, 'u) Program \<Rightarrow> nat \<Rightarrow> nat list" where
  "preds p q = filter (\<lambda>pc. (branches (i_code (code p ! pc)) \<and> i_dst (code p ! pc) = int q)
      \<or> (i_code (code p ! pc) \<noteq> P_JMP \<and> q = pc + 1)) [0..<length (code p)]"

definition reads_at :: "('d, 'u) Program \<Rightarrow> nat \<Rightarrow> span list" where
  "reads_at p pc = (if pc < length (code p) then each_read p (code p ! pc) else map (\<lambda>r. (r, 1)) (out_regs p))"

definition writes_at :: "('d, 'u) Program \<Rightarrow> nat \<Rightarrow> int set" where
  "writes_at p pc = (if pc < length (code p) then cells (call_writes p (code p ! pc)) else {})"

definition incoming :: "('d, 'u) Program \<Rightarrow> int set \<Rightarrow> int set list \<Rightarrow> nat \<Rightarrow> int set" where
  "incoming p entry out pc =
     foldl (\<lambda>bits before. bits \<inter> out ! before)
       (if pc = 0 then entry else if preds p pc = [] then {} else full p) (preds p pc)"

definition flow_step :: "('d, 'u) Program \<Rightarrow> int set \<Rightarrow> int set list \<times> bool \<Rightarrow> nat \<Rightarrow> int set list \<times> bool" where
  "flow_step p entry st pc = (case st of (out, changed) \<Rightarrow>
     let bits = incoming p entry out pc \<union> writes_at p pc
     in if bits \<noteq> out ! pc then (out[pc := bits], True) else (out, changed))"

definition flow_loop :: "('d, 'u) Program \<Rightarrow> int set \<Rightarrow> (int set list \<times> bool) option" where
  "flow_loop p entry = while_option snd
     (\<lambda>(out, _). foldl (flow_step p entry) (out, False) [0..<length (code p) + 1])
     (replicate (length (code p) + 1) (full p), True)"

definition program_initializes_reads :: "('d, 'u) Program \<Rightarrow> span list \<Rightarrow> bool" where
  "program_initializes_reads p seeded \<longleftrightarrow>
     (let n = int (length (code p)) in
      \<not> (n_regs p < 0 \<or> n > 2048) \<and> \<not> words p > 1024 * 1024 div (n + 1)
      \<and> list_all (valid_span p) seeded \<and> list_all (instr_ok p) (code p)
      \<and> list_all (\<lambda>r. valid_span p (r, 1)) (out_regs p)
      \<and> (case flow_loop p (cells seeded) of None \<Rightarrow> False
         | Some (out, _) \<Rightarrow> list_all (\<lambda>pc. cells (reads_at p pc) \<subseteq> incoming p (cells seeded) out pc) [0..<length (code p) + 1]))"

lemma incoming_eq:
  "incoming p entry out pc = (if pc = 0 then entry else if preds p pc = [] then {} else full p) \<inter> (\<Inter>b \<in> set (preds p pc). out ! b)"
proof -
  have "foldl (\<lambda>bits b. bits \<inter> out ! b) X bs = X \<inter> (\<Inter>b \<in> set bs. out ! b)" for X bs
    by (induction bs arbitrary: X) auto
  thus ?thesis by (simp add: incoming_def)
qed

lemma preds_bound: "b \<in> set (preds p pc) \<Longrightarrow> b < length (code p)"
  by (simp add: preds_def)

definition gen :: "('d, 'u) Program \<Rightarrow> int set \<Rightarrow> int set list \<Rightarrow> nat \<Rightarrow> int set" where
  "gen p entry out pc = incoming p entry out pc \<union> writes_at p pc"

lemma flow_step_gen:
  "flow_step p entry (out, ch) pc = (if gen p entry out pc \<noteq> out ! pc then (out[pc := gen p entry out pc], True) else (out, ch))"
  by (simp add: flow_step_def gen_def Let_def)

lemma foldl_flow_changed: "snd (foldl (flow_step p entry) (out, True) pcs)"
  by (induction pcs arbitrary: out) (auto simp: flow_step_gen)

lemma foldl_flow_stable:
  "foldl (flow_step p entry) (out, False) pcs = (out', False) \<Longrightarrow> out' = out \<and> (\<forall>pc \<in> set pcs. gen p entry out pc = out ! pc)"
proof (induction pcs)
  case (Cons pc pcs)
  have "gen p entry out pc = out ! pc"
    using Cons.prems foldl_flow_changed [of p entry "out[pc := gen p entry out pc]" pcs]
    by (cases "gen p entry out pc = out ! pc") (simp_all add: flow_step_gen)
  thus ?case using Cons by (simp add: flow_step_gen)
qed simp

text \<open>The invariant of the loop: from above, the sets only shrink.\<close>

definition above :: "('d, 'u) Program \<Rightarrow> int set \<Rightarrow> int set list \<Rightarrow> bool" where
  "above p entry out \<longleftrightarrow> length out = length (code p) + 1
     \<and> (\<forall>pc \<le> length (code p). gen p entry out pc \<subseteq> out ! pc \<and> out ! pc \<subseteq> full p)"

lemma gen_mono:
  assumes "\<And>b. b < length (code p) \<Longrightarrow> out' ! b \<subseteq> out ! b"
  shows "gen p entry out' pc \<subseteq> gen p entry out pc"
proof -
  have "(\<Inter>b \<in> set (preds p pc). out' ! b) \<subseteq> (\<Inter>b \<in> set (preds p pc). out ! b)"
    using assms preds_bound by blast
  thus ?thesis by (auto simp: gen_def incoming_eq)
qed

definition flow_size :: "int set list \<Rightarrow> nat" where
  "flow_size out = sum_list (map card out)"

lemma flow_size_update:
  assumes "pc < length out" "S \<subset> out ! pc" "finite (out ! pc)"
  shows "flow_size (out[pc := S]) < flow_size out"
proof -
  have "card S < card (out ! pc)" using assms(2,3) by (rule psubset_card_mono [rotated])
  moreover have "flow_size out = flow_size (take pc out) + card (out ! pc) + flow_size (drop (Suc pc) out)"
    using id_take_nth_drop [OF assms(1)] by (metis flow_size_def map_append list.map(2) sum_list.append sum_list.Cons add.assoc)
  moreover have "flow_size (out[pc := S]) = flow_size (take pc out) + card S + flow_size (drop (Suc pc) out)"
    using assms(1) by (simp add: flow_size_def upd_conv_take_nth_drop)
  ultimately show ?thesis by linarith
qed

lemma above_step:
  assumes "above p entry out" "pc \<le> length (code p)" "flow_step p entry (out, ch) pc = (out', ch')"
  shows "above p entry out' \<and> flow_size out' \<le> flow_size out \<and> (ch' \<and> \<not> ch \<longrightarrow> flow_size out' < flow_size out)"
proof (cases "gen p entry out pc = out ! pc")
  case True
  thus ?thesis using assms by (simp add: flow_step_gen)
next
  case False
  have o: "out' = out[pc := gen p entry out pc]" using assms(3) False by (simp add: flow_step_gen)
  have l: "pc < length out" "gen p entry out pc \<subset> out ! pc" "finite (out ! pc)"
    using assms(1,2) False finite_subset [of "out ! pc" "full p"] by (auto simp: above_def full_def)
  have le: "out' ! b \<subseteq> out ! b" for b using l by (cases "b = pc") (auto simp: o)
  have "gen p entry out' q \<subseteq> out' ! q \<and> out' ! q \<subseteq> full p" if "q \<le> length (code p)" for q
  proof (cases "q = pc")
    case True
    have "out' ! pc = gen p entry out pc" "out ! pc \<subseteq> full p" using l assms(1,2) by (auto simp: o above_def)
    thus ?thesis using True gen_mono [of p out' out entry pc] le l(2) by blast
  next
    case False
    hence "out' ! q = out ! q" "gen p entry out q \<subseteq> out ! q" "out ! q \<subseteq> full p" using that assms(1) by (auto simp: o above_def)
    thus ?thesis using gen_mono [of p out' out entry q] le by blast
  qed
  thus ?thesis using flow_size_update [OF l] assms(1) by (simp add: above_def o less_imp_le)
qed

lemma above_foldl:
  assumes "above p entry out" "\<forall>pc \<in> set pcs. pc \<le> length (code p)" "foldl (flow_step p entry) (out, ch) pcs = (out', ch')"
  shows "above p entry out' \<and> flow_size out' \<le> flow_size out \<and> (ch' \<and> \<not> ch \<longrightarrow> flow_size out' < flow_size out)"
  using assms
proof (induction pcs arbitrary: out ch)
  case (Cons pc pcs)
  obtain out1 ch1 where st: "flow_step p entry (out, ch) pc = (out1, ch1)" by fastforce
  have "pc \<le> length (code p)" using Cons.prems(2) by simp
  note one = above_step [OF Cons.prems(1) this st]
  have "foldl (flow_step p entry) (out1, ch1) pcs = (out', ch')" using Cons.prems(3) st by simp
  from Cons.IH [OF conjunct1 [OF one] _ this] Cons.prems(2) one show ?case by (cases ch1) auto
qed simp

definition flow_ready :: "('d, 'u) Program \<Rightarrow> int set \<Rightarrow> bool" where
  "flow_ready p entry \<longleftrightarrow> entry \<subseteq> full p \<and> (\<forall>pc < length (code p). writes_at p pc \<subseteq> full p)"

lemma above_start: "flow_ready p entry \<Longrightarrow> above p entry (replicate (length (code p) + 1) (full p))"
proof -
  assume r: "flow_ready p entry"
  have "writes_at p pc \<subseteq> full p" for pc using r by (cases "pc < length (code p)") (auto simp: flow_ready_def writes_at_def)
  thus ?thesis using r unfolding above_def gen_def incoming_eq flow_ready_def
    by (auto simp del: replicate_Suc split: if_splits)
qed

lemma flow_loop_some:
  assumes "flow_ready p entry"
  shows "\<exists>out. flow_loop p entry = Some (out, False) \<and> above p entry out \<and> (\<forall>pc \<le> length (code p). gen p entry out pc = out ! pc)"
proof -
  let ?n = "length (code p) + 1"
  let ?body = "\<lambda>(out, _). foldl (flow_step p entry) (out, False) [0..<?n]"
  let ?P = "\<lambda>(out, ch). above p entry out \<and> (\<not> ch \<longrightarrow> (\<forall>pc \<le> length (code p). gen p entry out pc = out ! pc))"
  let ?m = "\<lambda>(out, ch). 2 * flow_size out + of_bool ch"
  have P: "?P (?body s) \<and> ?m (?body s) < ?m s" if inv: "?P s" and go: "snd s" for s
  proof -
    obtain out where s: "s = (out, True)" using go by (cases s) auto
    obtain out' ch' where b: "foldl (flow_step p entry) (out, False) [0..<?n] = (out', ch')" by fastforce
    have "above p entry out" using inv s by simp
    from above_foldl [OF this _ b] have "above p entry out'" "flow_size out' \<le> flow_size out" "ch' \<longrightarrow> flow_size out' < flow_size out"
      by auto
    moreover have "\<forall>pc \<le> length (code p). gen p entry out' pc = out' ! pc" if "\<not> ch'"
      using foldl_flow_stable [of p entry out "[0..<?n]" out'] b that by (auto simp: less_Suc_eq_le)
    ultimately show ?thesis using b by (cases ch') (auto simp: s simp del: upt_Suc)
  qed
  have start: "?P (replicate ?n (full p), True)" using above_start [OF assms] by simp
  have "\<exists>s. while_option snd ?body (replicate ?n (full p), True) = Some s"
    by (rule measure_while_option_Some [of ?P snd ?body ?m, OF _ start]) (erule (1) P)
  then obtain out ch where w: "while_option snd ?body (replicate ?n (full p), True) = Some (out, ch)" by fastforce
  have "\<not> ch" using while_option_stop [OF w] by simp
  moreover have "?P (out, ch)" by (rule while_option_rule [where P = ?P, OF _ w start]) (erule (1) P [THEN conjunct1])
  ultimately show ?thesis using w by (auto simp: flow_loop_def)
qed

lemma valid_cells: "valid_span p s \<Longrightarrow> {fst s..<fst s + snd s} \<subseteq> full p"
  by (auto simp: valid_span_def full_def words_def)

lemma valid_cells_list: "list_all (valid_span p) ss \<Longrightarrow> cells ss \<subseteq> full p"
  unfolding cells_def list_all_iff using valid_cells by blast

lemma flow_ready_ok:
  "list_all (valid_span p) seeded \<Longrightarrow> list_all (instr_ok p) (code p) \<Longrightarrow> flow_ready p (cells seeded)"
  unfolding flow_ready_def writes_at_def by (auto dest!: valid_cells_list simp: list_all_iff [of "instr_ok p"] instr_ok_def)

text \<open>C14. The data-flow iteration of \<open>program_initializes_reads\<close> ends: on every program whose spans lie inside the
  register file, the round-robin passes over the instructions reach a state in which a pass changes nothing,
  and that state is a fixed point of the transfer function at every instruction and at the exit.\<close>

theorem flow_loop_terminates:
  assumes "list_all (valid_span p) seeded" and "list_all (instr_ok p) (code p)"
  shows "\<exists>out. flow_loop p (cells seeded) = Some (out, False)
    \<and> (\<forall>pc \<le> length (code p). out ! pc = incoming p (cells seeded) out pc \<union> writes_at p pc)"
  using flow_loop_some [OF flow_ready_ok [OF assms]] by (auto simp: gen_def)

definition messages_ok :: "('d, 'u) Program \<Rightarrow> bool" where
  "messages_ok p \<longleftrightarrow> list_all message_ok (messages p)"

lemma succs_preds:
  assumes "pc < length (code p)" "q \<in> succs p pc" "0 \<le> q"
  shows "pc \<in> set (preds p (nat q))"
  using assms by (auto simp: succs_def preds_def Let_def split: if_splits)

lemma cells_singles: "cells (map (\<lambda>r. (r, 1)) rs) = set rs"
  by (induction rs) auto

lemma initializes_sufficient:
  assumes "program_initializes_reads p seeded" "messages_ok p"
  shows "\<exists>A. sufficient p A \<and> A 0 \<subseteq> cells seeded"
proof -
  let ?E = "cells seeded" and ?n = "length (code p)"
  have seeds: "list_all (valid_span p) seeded" and ok: "list_all (instr_ok p) (code p)"
    using assms(1) by (simp_all add: program_initializes_reads_def Let_def)
  obtain out where loop: "flow_loop p ?E = Some (out, False)" and fp: "\<forall>pc \<le> ?n. gen p ?E out pc = out ! pc"
    using flow_loop_some [OF flow_ready_ok [OF seeds ok]] by blast
  define A where "A pc = incoming p ?E out (nat pc)" for pc
  have reads: "cells (reads_at p pc) \<subseteq> A (int pc)" if "pc \<le> ?n" for pc
  proof -
    have "pc \<in> set [0..<?n + 1]" using that by auto
    thus ?thesis using assms(1) loop unfolding program_initializes_reads_def Let_def A_def list_all_iff by auto
  qed
  have sub: "A q \<subseteq> A (int pc) \<union> cells (each_write p (code p ! pc))"
    if "pc < ?n" "q \<in> succs p pc" "0 \<le> q" for pc q
  proof -
    have "A q \<subseteq> out ! pc" using succs_preds [OF that] by (auto simp: A_def incoming_eq)
    also have "out ! pc = A (int pc) \<union> writes_at p pc" using fp that(1) by (metis A_def gen_def less_imp_le nat_int)
    also have "writes_at p pc \<subseteq> cells (each_write p (code p ! pc))"
      using that(1) call_writes_sub by (simp add: writes_at_def)
    finally show ?thesis by blast
  qed
  have "sufficient p A"
    unfolding sufficient_def Let_def
  proof (intro conjI allI impI ballI)
    fix pc assume pc: "pc < ?n"
    hence I: "instr_ok p (code p ! pc)" using ok by (simp add: list_all_length)
    show "spans_modelled (code p ! pc)" using I by (simp add: instr_ok_def)
    show "payload_ok p (code p ! pc)"
      using I assms(2) by (auto simp: instr_ok_def payload_ok_def messages_ok_def list_all_length)
    show "cells (each_read p (code p ! pc)) \<subseteq> A (int pc)" using reads [of pc] pc by (simp add: reads_at_def)
    fix q assume q: "q \<in> succs p pc"
    show q0: "0 \<le> q" and "q \<le> int ?n" using q I pc by (auto simp: succs_def instr_ok_def Let_def split: if_splits)
    show "A q \<subseteq> A (int pc) \<union> cells (each_write p (code p ! pc))" by (rule sub [OF pc q q0])
  next
    show "set (out_regs p) \<subseteq> A (int ?n)" using reads [of ?n] by (simp add: reads_at_def cells_singles)
  qed
  moreover have "A 0 \<subseteq> ?E" by (auto simp: A_def incoming_eq)
  ultimately show ?thesis by blast
qed

text \<open>C10. Definite initialisation is sound: when \<open>program_initializes_reads\<close> accepts a program, its run depends on
  the seeded registers alone. From two register files that agree on the seeded ranges and are arbitrary
  elsewhere, a run of any length throws the same exception with the same printed text, or ends with the same
  values in the output registers, the same evaluation state and the same printed text, so a reused register
  file never leaks a previous call's values.\<close>

theorem program_initializes_reads_sound:
  assumes "program_initializes_reads p seeded" and "messages_ok p" and "agree (cells seeded) r1 r2"
  shows "map_option (result (observe_outs p)) (run_program N base p fuel (start r1 w))
    = map_option (result (observe_outs p)) (run_program N base p fuel (start r2 w))"
proof -
  obtain A where A: "sufficient p A" "A 0 \<subseteq> cells seeded" using initializes_sufficient [OF assms(1,2)] by blast
  have "start r2 w = (start r1 w)\<lparr>m_reg := r2\<rparr>" by (simp add: start_def)
  thus ?thesis using run_agree [OF A(1), of "start r1 w" r2 N base fuel] agree_subset [OF assms(3) A(2)]
    by (simp add: start_def)
qed

section \<open>Narrowing input windows\<close>

function skip_front :: "(int \<Rightarrow> bool) \<Rightarrow> int \<Rightarrow> int \<Rightarrow> int" where
  "skip_front seen first stop = (if first < stop \<and> \<not> seen first then skip_front seen (first + 1) stop else first)"
  by auto

termination skip_front
  by (relation "measure (\<lambda>(_, first, stop). nat (stop - first))") auto

function skip_back :: "(int \<Rightarrow> bool) \<Rightarrow> int \<Rightarrow> int \<Rightarrow> int" where
  "skip_back seen first stop = (if stop > first \<and> \<not> seen (stop - 1) then skip_back seen first (stop - 1) else stop)"
  by auto

termination skip_back
  by (relation "measure (\<lambda>(_, first, stop). nat (stop - first))") auto

declare skip_front.simps [simp del] skip_back.simps [simp del]

definition narrow_input :: "(int \<Rightarrow> bool) \<Rightarrow> span \<Rightarrow> span" where
  "narrow_input seen input =
     (let first = skip_front seen (fst input) (fst input + snd input);
          stop = skip_back seen first (fst input + snd input)
      in if first < stop then (first, stop - first) else input)"

definition program_read :: "('d, 'u) Program \<Rightarrow> int \<Rightarrow> bool" where
  "program_read p r \<longleftrightarrow> list_ex (\<lambda>I. list_ex (overlaps (r, 1)) (each_read p I)) (code p) \<or> r \<in> set (out_regs p)"

definition used_program_inputs :: "('d, 'u) Program \<Rightarrow> span list \<Rightarrow> span list" where
  "used_program_inputs p inputs =
     (if list_ex (\<lambda>I. has (program_spec_of I) kProgramNoAdjoint \<and> i_code I \<noteq> P_JZ \<and> i_code I \<noteq> P_JMP) (code p)
      then inputs else map (narrow_input (program_read p)) inputs)"

lemma skip_front_props:
  "first \<le> stop \<Longrightarrow> first \<le> skip_front seen first stop \<and> skip_front seen first stop \<le> stop
     \<and> (\<forall>r. first \<le> r \<and> r < skip_front seen first stop \<longrightarrow> \<not> seen r)"
proof (induction seen first stop rule: skip_front.induct)
  case (1 seen first stop)
  show ?case
  proof (cases "first < stop \<and> \<not> seen first")
    case True
    hence e: "skip_front seen first stop = skip_front seen (first + 1) stop" by (simp add: skip_front.simps)
    have "r = first \<or> first + 1 \<le> r" if "first \<le> r" for r using that by linarith
    thus ?thesis using 1(1) [OF True] True e by auto
  next
    case False
    hence "skip_front seen first stop = first" by (subst skip_front.simps) auto
    thus ?thesis using 1(2) by auto
  qed
qed

lemma skip_back_props:
  "first \<le> stop \<Longrightarrow> first \<le> skip_back seen first stop \<and> skip_back seen first stop \<le> stop
     \<and> (\<forall>r. skip_back seen first stop \<le> r \<and> r < stop \<longrightarrow> \<not> seen r)"
proof (induction seen first stop rule: skip_back.induct)
  case (1 seen first stop)
  show ?case
  proof (cases "stop > first \<and> \<not> seen (stop - 1)")
    case True
    hence e: "skip_back seen first stop = skip_back seen first (stop - 1)" by (simp add: skip_back.simps)
    have "r = stop - 1 \<or> r < stop - 1" if "r < stop" for r using that by linarith
    thus ?thesis using 1(1) [OF True] True e by auto
  next
    case False
    hence "skip_back seen first stop = stop" by (subst skip_back.simps) auto
    thus ?thesis using 1(2) by auto
  qed
qed

lemma narrow_input_props:
  assumes "0 \<le> snd input"
  shows "cells [narrow_input seen input] \<subseteq> cells [input]"
    and "x \<in> cells [input] \<Longrightarrow> x \<notin> cells [narrow_input seen input] \<Longrightarrow> \<not> seen x"
proof -
  let ?e = "fst input + snd input"
  let ?f = "skip_front seen (fst input) ?e"
  let ?l = "skip_back seen ?f ?e"
  have f: "fst input \<le> ?f \<and> ?f \<le> ?e \<and> (\<forall>r. fst input \<le> r \<and> r < ?f \<longrightarrow> \<not> seen r)"
    using skip_front_props [of "fst input" ?e seen] assms by simp
  hence l: "?f \<le> ?l \<and> ?l \<le> ?e \<and> (\<forall>r. ?l \<le> r \<and> r < ?e \<longrightarrow> \<not> seen r)"
    using skip_back_props [of ?f ?e seen] by simp
  show "cells [narrow_input seen input] \<subseteq> cells [input]"
    using f l by (auto simp: narrow_input_def Let_def)
  show "\<not> seen x" if "x \<in> cells [input]" "x \<notin> cells [narrow_input seen input]"
    using that f l by (auto simp: narrow_input_def Let_def not_le not_less split: if_splits)
qed

text \<open>C12. Narrowing what a caller copies in is sound: for the programs \<open>used_program_inputs\<close> narrows, each window
  it returns lies inside the original one, and a run whose register file differs only in registers that a
  narrowed window no longer covers throws the same exception or yields the same outputs, evaluation state and
  printed text.\<close>

theorem used_program_inputs_sound:
  assumes "targets_ok p" and "list_all (\<lambda>s. 0 \<le> snd s) inputs"
    and "\<forall>x. x \<in> cells inputs - cells (used_program_inputs p inputs) \<or> r1 x = r2 x"
  shows "cells (used_program_inputs p inputs) \<subseteq> cells inputs
    \<and> map_option (result (observe_outs p)) (run_program N base p fuel (start r1 w))
      = map_option (result (observe_outs p)) (run_program N base p fuel (start r2 w))"
proof (cases "list_ex (\<lambda>I. has (program_spec_of I) kProgramNoAdjoint \<and> i_code I \<noteq> P_JZ \<and> i_code I \<noteq> P_JMP) (code p)")
  case True
  hence "used_program_inputs p inputs = inputs" by (simp add: used_program_inputs_def)
  moreover from this have "r1 = r2" using assms(3) by auto
  ultimately show ?thesis by simp
next
  case False
  let ?A = "{x. r1 x = r2 x}"
  have u: "used_program_inputs p inputs = map (narrow_input (program_read p)) inputs"
    using False by (simp add: used_program_inputs_def)
  have unread: "\<not> program_read p x" if xin: "x \<in> cells inputs" and xout: "x \<notin> cells (used_program_inputs p inputs)" for x
  proof -
    obtain i where i: "i \<in> set inputs" "x \<in> {fst i..<fst i + snd i}" using xin unfolding cells_def by blast
    moreover have "x \<notin> cells [narrow_input (program_read p) i]" using xout i(1) by (auto simp: u cells_def)
    ultimately show ?thesis using narrow_input_props(2) [of i x "program_read p"] assms(2) by (auto simp: list_all_iff)
  qed
  have sub: "cells (used_program_inputs p inputs) \<subseteq> cells inputs"
  proof
    fix x assume "x \<in> cells (used_program_inputs p inputs)"
    then obtain i where i: "i \<in> set inputs" "x \<in> cells [narrow_input (program_read p) i]" by (auto simp: u cells_def)
    hence "x \<in> cells [i]" using narrow_input_props(1) [of i] assms(2) unfolding list_all_iff by blast
    thus "x \<in> cells inputs" using i(1) by (auto simp: cells_def)
  qed
  have read: "x \<in> ?A" if "program_read p x" for x using that unread assms(3) by auto
  have "sufficient p (\<lambda>_. ?A)"
    unfolding sufficient_def Let_def
  proof (intro conjI allI impI ballI)
    fix pc assume pc: "pc < length (code p)"
    hence I: "\<not> has (program_spec_of (code p ! pc)) kProgramNoAdjoint \<or> i_code (code p ! pc) = P_JZ \<or> i_code (code p ! pc) = P_JMP"
      using False by (auto simp: list_ex_length)
    show "spans_modelled (code p ! pc)" using I by (auto simp: spans_modelled_def)
    show "payload_ok p (code p ! pc)" using I by (auto simp: payload_ok_def program_spec_of_def program_rule_def has_simps)
    show "cells (each_read p (code p ! pc)) \<subseteq> ?A"
      using read pc by (fastforce simp: program_read_def list_ex_iff [of _ "code p"] list_ex_cells)
    fix q assume q: "q \<in> succs p pc"
    show "0 \<le> q" and "q \<le> int (length (code p))"
      using q pc assms(1) by (auto simp: succs_def targets_ok_def list_all_length Let_def split: if_splits)
  next
    show "set (out_regs p) \<subseteq> ?A" using read by (auto simp: program_read_def)
  qed simp_all
  moreover have "start r2 w = (start r1 w)\<lparr>m_reg := r2\<rparr>" by (simp add: start_def)
  ultimately show ?thesis using run_agree [of p "\<lambda>_. ?A" "start r1 w" r2 N base fuel] sub
    by (simp add: start_def agree_def)
qed

section \<open>A program with a loop\<close>

text \<open>Sums register 0 down to zero into register 1, reading registers 0 and 2 and writing the constant one.\<close>

definition loop_program :: "(int, unit) Program" where
  "loop_program = empty_program\<lparr>pool := [0, 1], n_regs := 5, out_regs := [1],
     code := [instr P_CONST 1 0 0 0 0, instr P_JZ 6 0 0 0 0, instr P_ADD 1 1 0 0 0, instr P_CONST 2 1 0 0 0,
              instr P_SUB 0 0 2 0 0, instr P_JMP 1 0 0 0 0]\<rparr>"

lemma loop_initializes: "program_initializes_reads loop_program [(0, 1)]"
  by code_simp

lemma loop_result:
  "map_option (result (observe_outs loop_program)) (run_program int_num 0 loop_program 30 (start ((\<lambda>_. 0)(0 := 3)) ())) = Some (Inr ([6], (), []))"
  by code_simp

text \<open>The loop run on a file whose other registers hold left-over values gives the sum of the clean one.\<close>

theorem program_initializes_reads_sound_witness:
  "map_option (result (observe_outs loop_program)) (run_program int_num 0 loop_program 30 (start ((\<lambda>x. 77 * x)(0 := 3)) ())) = Some (Inr ([6], (), []))"
proof -
  have "agree (cells [(0, 1)]) ((\<lambda>_. 0)(0 := 3)) ((\<lambda>x::int. 77 * x)(0 := 3))" by (auto simp: agree_def)
  moreover have "messages_ok loop_program" by (simp add: messages_ok_def loop_program_def empty_program_def)
  ultimately show ?thesis
    using program_initializes_reads_sound [OF loop_initializes, of "(\<lambda>_. 0)(0 := 3)" "(\<lambda>x. 77 * x)(0 := 3)" int_num 0 30 "()"]
      loop_result by simp
qed

theorem flow_loop_terminates_witness:
  "\<exists>out. flow_loop loop_program (cells [(0, 1)]) = Some (out, False)
    \<and> (\<forall>pc \<le> 6. out ! pc = incoming loop_program (cells [(0, 1)]) out pc \<union> writes_at loop_program pc)"
proof -
  have n: "length (code loop_program) = 6" by (simp add: loop_program_def empty_program_def)
  have "list_all (valid_span loop_program) [(0, 1)]" "list_all (instr_ok loop_program) (code loop_program)"
    using loop_initializes by (simp_all add: program_initializes_reads_def Let_def)
  from flow_loop_terminates [OF this] show ?thesis by (simp only: n)
qed

text \<open>An input window of five registers of which the program reads the second and the third.\<close>

definition window_program :: "(int, unit) Program" where
  "window_program = empty_program\<lparr>n_regs := 7, out_regs := [6], code := [instr P_ADD 6 2 3 0 0]\<rparr>"

theorem used_program_inputs_sound_witness:
  "used_program_inputs window_program [(1, 5)] = [(2, 2)]
   \<and> map_option (result (observe_outs window_program)) (run_program int_num 0 window_program 5 (start (\<lambda>x. x) ()))
     = map_option (result (observe_outs window_program)) (run_program int_num 0 window_program 5 (start ((\<lambda>x. x)(1 := 50, 4 := 60, 5 := 70)) ()))"
proof -
  have u: "used_program_inputs window_program [(1, 5)] = [(2, 2)]" by code_simp
  have t: "targets_ok window_program" by code_simp
  have "\<forall>x. x \<in> cells [(1, 5)] - cells (used_program_inputs window_program [(1, 5)])
      \<or> x = ((\<lambda>x::int. x)(1 := 50, 4 := 60, 5 := 70)) x"
    by (auto simp: u)
  hence "map_option (result (observe_outs window_program)) (run_program int_num 0 window_program 5 (start (\<lambda>x. x) ()))
     = map_option (result (observe_outs window_program)) (run_program int_num 0 window_program 5 (start ((\<lambda>x. x)(1 := 50, 4 := 60, 5 := 70)) ()))"
    by (intro conjunct2 [OF used_program_inputs_sound [OF t, of "[(1, 5)]"]]) simp_all
  thus ?thesis by (simp only: u simp_thms)
qed


end
