(* ===== verification/ProgramCfg.thy ===== *)
theory ProgramCfg
  imports ProgramPasses
begin

text \<open>
  The constant elision over an acyclic control-flow graph, \<^verbatim>\<open>elide_acyclic_program_constants\<close> of
  \<^verbatim>\<open>runtime/src/program.cpp\<close>: unreachable instructions go, and so does a constant whose registers no path reads
  before overwriting them. The search for such a read is the source's depth-first walk.
\<close>

section \<open>The pass\<close>

definition is_constant :: "Instr \<Rightarrow> bool" where
  "is_constant I \<longleftrightarrow> i_code I = P_CONST \<or> i_code I = P_CONSTR \<or> i_code I = P_FILL"

text \<open>The refusals at the head of the pass: only forward branches, no unmodelled instruction, some control flow,
  and a bounded search.\<close>

definition acyclic_ok :: "('d, 'u) Program \<Rightarrow> bool" where
  "acyclic_ok p \<longleftrightarrow>
     (let n = length (code p) in
      n \<noteq> 0 \<and> int n \<le> 2048
      \<and> list_all (\<lambda>pc. let I = code p ! pc in
           (if branches (i_code I) then i_dst I > int pc \<and> i_dst I \<le> int n
            else \<not> has (program_spec_of I) kProgramNoAdjoint)
           \<and> \<not> (i_code I = P_CALL \<and> (i_a I < 0 \<or> i_a I \<ge> int (length (calls p))))) [0..<n]
      \<and> list_ex (\<lambda>I. branches (i_code I)) (code p)
      \<and> int (length (filter is_constant (code p))) * int n \<le> 1024 * 1024)"

definition mark_reached :: "('d, 'u) Program \<Rightarrow> bool list \<Rightarrow> nat \<Rightarrow> bool list" where
  "mark_reached p reached pc =
     (if \<not> reached ! pc then reached
      else let I = code p ! pc;
               r1 = (if branches (i_code I) then reached[nat (i_dst I) := True] else reached)
           in if i_code I \<noteq> P_JMP then r1[pc + 1 := True] else r1)"

definition reached_code :: "('d, 'u) Program \<Rightarrow> bool list" where
  "reached_code p = (let n = length (code p) in foldl (mark_reached p) ((replicate (n + 1) False)[0 := True]) [0..<n])"

definition covers_cell :: "span \<Rightarrow> span \<Rightarrow> bool" where
  "covers_cell cell s \<longleftrightarrow> fst s \<le> fst cell \<and> fst s + snd s \<ge> fst cell + snd cell"

lemma unseen_decreases: "k < length xs \<Longrightarrow> \<not> xs ! k \<Longrightarrow> length (filter Not (xs[k := True])) < length (filter Not xs)"
  by (induction xs arbitrary: k) (auto split: nat.splits)

text \<open>The walk: \<open>pending\<close> is the stack, top first. The positions are at most the exit; the guard on the length of
  \<open>seen\<close> only makes the function total.\<close>

function reads_cell :: "('d, 'u) Program \<Rightarrow> span \<Rightarrow> nat list \<Rightarrow> bool list \<Rightarrow> bool" where
  "reads_cell p cell pending seen =
     (case pending of [] \<Rightarrow> False
      | next # rest \<Rightarrow>
          if next \<ge> length seen \<or> seen ! next then reads_cell p cell rest seen
          else
            let seen' = seen[next := True] in
            if next = length (code p) then
              (if list_ex (\<lambda>r. overlaps cell (r, 1)) (out_regs p) then True else reads_cell p cell rest seen')
            else
              let I = code p ! next in
              if list_ex (overlaps cell) (each_read p I) then True
              else if list_ex (covers_cell cell) (call_writes p I) then reads_cell p cell rest seen'
              else reads_cell p cell
                     ((if i_code I \<noteq> P_JMP then [next + 1] else [])
                      @ (if branches (i_code I) then [nat (i_dst I)] else []) @ rest) seen')"
  by auto

termination reads_cell
  by (relation "measures [\<lambda>(p, cell, pending, seen). length (filter Not seen), \<lambda>(p, cell, pending, seen). length pending]")
     (auto simp: unseen_decreases not_le)

declare reads_cell.simps [simp del]

definition acyclic_remove :: "('d, 'u) Program \<Rightarrow> bool list" where
  "acyclic_remove p = map (\<lambda>pc. \<not> reached_code p ! pc \<or>
     (is_constant (code p ! pc) \<and>
      \<not> reads_cell p (i_dst (code p ! pc), program_output_len (code p ! pc)) [pc + 1] (replicate (length (code p) + 1) False)))
     [0..<length (code p)]"

definition elide_acyclic_program_constants :: "bool \<Rightarrow> ('d, 'u) Program \<Rightarrow> ('d, 'u) Program \<times> bool" where
  "elide_acyclic_program_constants disabled p =
     (if disabled \<or> \<not> acyclic_ok p then (p, False)
      else let remove = acyclic_remove p in
        if \<not> list_ex id remove then (p, False) else (drop_instrs remove p, True))"

section \<open>Reachability\<close>

lemma acyclic_okD:
  assumes "acyclic_ok p" "pc < length (code p)"
  shows "branches (i_code (code p ! pc)) \<Longrightarrow> i_dst (code p ! pc) > int pc \<and> i_dst (code p ! pc) \<le> int (length (code p))"
    and "\<not> branches (i_code (code p ! pc)) \<Longrightarrow> \<not> has (program_spec_of (code p ! pc)) kProgramNoAdjoint"
  using assms by (auto simp: acyclic_ok_def Let_def list_all_iff)

lemma acyclic_targets: "acyclic_ok p \<Longrightarrow> targets_ok p"
  using acyclic_okD(1) [of p] unfolding targets_ok_def list_all_length by fastforce

lemma acyclic_succs: "acyclic_ok p \<Longrightarrow> pc < length (code p) \<Longrightarrow> q \<in> succs p pc \<Longrightarrow> int pc < q \<and> q \<le> int (length (code p))"
  using acyclic_okD(1) [of p pc] by (auto simp: succs_def Let_def split: if_splits)

definition reached_upto :: "('d, 'u) Program \<Rightarrow> nat \<Rightarrow> bool list" where
  "reached_upto p k = foldl (mark_reached p) ((replicate (length (code p) + 1) False)[0 := True]) [0..<k]"

lemma mark_reached_length [simp]: "length (mark_reached p r pc) = length r"
  by (simp add: mark_reached_def Let_def)

lemma reached_upto_Suc: "reached_upto p (Suc k) = mark_reached p (reached_upto p k) k"
  by (simp add: reached_upto_def)

lemma reached_upto_length [simp]: "length (reached_upto p k) = length (code p) + 1"
  by (induction k) (simp_all add: reached_upto_Suc, simp add: reached_upto_def)

lemma mark_reached_nth:
  assumes "acyclic_ok p" "pc < length (code p)" "length r = length (code p) + 1" "i \<le> length (code p)"
  shows "mark_reached p r pc ! i \<longleftrightarrow> r ! i \<or> (r ! pc \<and> int i \<in> succs p pc)"
  using acyclic_okD(1) [OF assms(1,2)] assms(2-4)
  by (auto simp: mark_reached_def succs_def Let_def nth_list_update split: if_splits)

lemma reached_stable:
  assumes "acyclic_ok p" "i \<le> k" "k \<le> length (code p)"
  shows "reached_upto p k ! i \<longleftrightarrow> reached_upto p i ! i"
  using assms(2,3)
proof (induction k rule: dec_induct)
  case (step k)
  have "int i \<notin> succs p k" using acyclic_succs [OF assms(1), of k "int i"] step by auto
  thus ?case using step mark_reached_nth [OF assms(1), of k "reached_upto p k" i] by (simp add: reached_upto_Suc)
qed simp

lemma reached_mono:
  assumes "acyclic_ok p" "j \<le> k" "k \<le> length (code p)" "i \<le> length (code p)" "reached_upto p j ! i"
  shows "reached_upto p k ! i"
  using assms(2,3)
proof (induction k rule: dec_induct)
  case (step k)
  thus ?case using mark_reached_nth [OF assms(1), of k "reached_upto p k" i] assms(4) by (simp add: reached_upto_Suc)
qed (use assms(5) in simp)

lemma reached_code_upto: "reached_code p = reached_upto p (length (code p))"
  by (simp add: reached_code_def reached_upto_def Let_def)

lemma reached_entry: "acyclic_ok p \<Longrightarrow> reached_code p ! 0"
  using reached_mono [of p 0 "length (code p)" 0] by (simp add: reached_code_upto reached_upto_def)

lemma reached_flow:
  assumes "acyclic_ok p" "pc < length (code p)" "reached_code p ! pc" "q \<in> succs p pc"
  shows "reached_code p ! nat q"
proof -
  have q: "int pc < q" "q \<le> int (length (code p))" using acyclic_succs [OF assms(1,2,4)] by auto
  have "reached_upto p pc ! pc" using assms(2,3) reached_stable [OF assms(1), of pc "length (code p)"] by (simp add: reached_code_upto)
  hence "reached_upto p (Suc pc) ! nat q"
    using mark_reached_nth [OF assms(1,2), of "reached_upto p pc" "nat q"] q assms(4) by (simp add: reached_upto_Suc)
  thus ?thesis using reached_mono [OF assms(1), of "Suc pc" "length (code p)" "nat q"] assms(2) q by (simp add: reached_code_upto)
qed

section \<open>Liveness\<close>

inductive live :: "('d, 'u) Program \<Rightarrow> nat \<Rightarrow> int \<Rightarrow> bool" for p where
  live_exit: "r \<in> set (out_regs p) \<Longrightarrow> live p (length (code p)) r"
| live_read: "pc < length (code p) \<Longrightarrow> r \<in> cells (each_read p (code p ! pc)) \<Longrightarrow> live p pc r"
| live_flow: "pc < length (code p) \<Longrightarrow> r \<notin> cells (call_writes p (code p ! pc)) \<Longrightarrow> q \<in> succs p pc \<Longrightarrow>
    live p (nat q) r \<Longrightarrow> live p pc r"

text \<open>What a finished walk has established of a position, relative to a set of positions.\<close>

definition walked :: "('d, 'u) Program \<Rightarrow> span \<Rightarrow> nat set \<Rightarrow> nat \<Rightarrow> bool" where
  "walked p cell T v \<longleftrightarrow>
     (if v = length (code p) then \<not> list_ex (\<lambda>r. overlaps cell (r, 1)) (out_regs p)
      else v < length (code p) \<and> \<not> list_ex (overlaps cell) (each_read p (code p ! v))
        \<and> (list_ex (covers_cell cell) (call_writes p (code p ! v)) \<or> nat ` succs p v \<subseteq> T))"

lemma walked_mono: "walked p cell T v \<Longrightarrow> T \<subseteq> T' \<Longrightarrow> walked p cell T' v"
  by (auto simp: walked_def split: if_splits)

lemma reads_cell_walked:
  assumes "acyclic_ok p" "\<not> reads_cell p cell pending seen" "length seen = length (code p) + 1"
    and "\<forall>v \<in> set pending. v \<le> length (code p)"
    and "\<forall>v. v \<le> length (code p) \<and> seen ! v \<longrightarrow> walked p cell ({u. u \<le> length (code p) \<and> seen ! u} \<union> set pending) v"
  shows "\<exists>S. {u. u \<le> length (code p) \<and> seen ! u} \<union> set pending \<subseteq> S \<and> (\<forall>v \<in> S. walked p cell S v)"
  using assms
proof (induction p cell pending seen rule: reads_cell.induct)
  case (1 p cell pending seen)
  let ?n = "length (code p)" and ?T = "\<lambda>seen pending. {u. u \<le> length (code p) \<and> seen ! u} \<union> set pending"
  show ?case
  proof (cases pending)
    case Nil
    thus ?thesis using 1(9) by (intro exI [of _ "?T seen []"]) auto
  next
    case (Cons nx rest)
    have n: "nx \<le> ?n" "\<forall>v \<in> set rest. v \<le> ?n" using 1(8) Cons by auto
    have next_in: "nx < length seen" using n(1) 1(7) by simp
    note unfold = reads_cell.simps [of p cell pending seen, unfolded Cons, simplified]
    show ?thesis
    proof (cases "seen ! nx")
      case True
      have T: "?T seen pending = ?T seen rest" using True n(1) Cons by auto
      have nr: "\<not> reads_cell p cell rest seen" using 1(6) unfold next_in True Cons by simp
      show ?thesis unfolding T
        by (rule 1(1) [OF Cons _ 1(5) nr 1(7) n(2)]) (use True 1(9) T in auto)
    next
      case False
      let ?seen = "seen[nx := True]"
      have len: "length ?seen = ?n + 1" using 1(7) by simp
      have T: "?T seen pending \<subseteq> ?T ?seen rest'" if "set rest \<subseteq> set rest'" for rest'
        using that n(1) next_in Cons by (auto simp: nth_list_update)
      have inv: "\<forall>v. v \<le> ?n \<and> ?seen ! v \<longrightarrow> walked p cell (?T ?seen rest') v"
        if "set rest \<subseteq> set rest'" "walked p cell (?T ?seen rest') nx" for rest'
      proof (intro allI impI)
        fix v assume v: "v \<le> ?n \<and> ?seen ! v"
        show "walked p cell (?T ?seen rest') v"
        proof (cases "v = nx")
          case False
          hence "walked p cell (?T seen pending) v" using v 1(9) by auto
          thus ?thesis by (rule walked_mono [OF _ T [OF that(1)]])
        qed (use that(2) in simp)
      qed
      have go: "\<not> (nx \<ge> length seen \<or> seen ! nx)" using False next_in by simp
      show ?thesis
      proof (cases "nx = ?n")
        case True
        have o: "\<not> list_ex (\<lambda>r. overlaps cell (r, 1)) (out_regs p)" "\<not> reads_cell p cell rest ?seen"
          using 1(6) unfold go True Cons by (auto split: if_splits)
        have "walked p cell (?T ?seen rest) nx" using o(1) True by (simp add: walked_def)
        from 1(2) [OF Cons go refl True o(1) 1(5) o(2) len n(2) inv [OF subset_refl this]] T [OF subset_refl]
        show ?thesis by blast
      next
        case ne: False
        let ?I = "code p ! nx"
        have lt: "nx < ?n" using ne n(1) by simp
        have rd: "\<not> list_ex (overlaps cell) (each_read p ?I)" using 1(6) unfold go ne Cons by (auto simp: Let_def)
        show ?thesis
        proof (cases "list_ex (covers_cell cell) (call_writes p ?I)")
          case True
          have nr: "\<not> reads_cell p cell rest ?seen" using 1(6) unfold go ne Cons rd True by (simp add: Let_def)
          have "walked p cell (?T ?seen rest) nx" using True lt rd by (simp add: walked_def)
          from 1(3) [OF Cons go refl ne refl rd True 1(5) nr len n(2) inv [OF subset_refl this]] T [OF subset_refl]
          show ?thesis by blast
        next
          case cv: False
          let ?rest = "(if i_code ?I \<noteq> P_JMP then [nx + 1] else []) @ (if branches (i_code ?I) then [nat (i_dst ?I)] else []) @ rest"
          have nr: "\<not> reads_cell p cell ?rest ?seen" using 1(6) unfold go ne Cons rd cv by (simp add: Let_def)
          have sub: "set rest \<subseteq> set ?rest" by auto
          have suc: "nat ` succs p nx \<subseteq> set ?rest" by (auto simp: succs_def Let_def)
          have b: "\<forall>v \<in> set ?rest. v \<le> ?n" using n(2) lt acyclic_okD(1) [OF 1(5) lt] by auto
          have "walked p cell (?T ?seen ?rest) nx" using lt rd suc by (auto simp: walked_def)
          from 1(4) [OF Cons go refl ne refl rd cv 1(5) nr len b inv [OF sub this]] T [OF sub]
          show ?thesis by blast
        qed
      qed
    qed
  qed
qed

lemma walked_not_live:
  assumes "live p v r" "v \<in> S" "\<forall>v \<in> S. walked p cell S v" "r \<in> {fst cell..<fst cell + snd cell}"
  shows False
  using assms
proof (induction rule: live.induct)
  case (live_exit r)
  hence "\<not> list_ex (\<lambda>r. overlaps cell (r, 1)) (out_regs p)" by (auto simp: walked_def)
  thus ?case using live_exit by (auto simp: list_ex_iff overlaps_def)
next
  case (live_read pc r)
  hence "\<not> list_ex (overlaps cell) (each_read p (code p ! pc))" by (auto simp: walked_def)
  thus ?case using live_read by (fastforce simp: list_ex_iff overlaps_def cells_def)
next
  case (live_flow pc r q)
  hence "walked p cell S pc" by blast
  hence "list_ex (covers_cell cell) (call_writes p (code p ! pc)) \<or> nat q \<in> S" using live_flow(1,3) by (auto simp: walked_def)
  moreover have "\<not> list_ex (covers_cell cell) (call_writes p (code p ! pc))"
  proof
    assume "list_ex (covers_cell cell) (call_writes p (code p ! pc))"
    then obtain s where "s \<in> set (call_writes p (code p ! pc))" "covers_cell cell s" by (auto simp: list_ex_iff)
    hence "r \<in> cells (call_writes p (code p ! pc))"
      unfolding cells_def using live_flow by (intro UN_I [of s]) (auto simp: covers_cell_def)
    thus False using live_flow by blast
  qed
  ultimately show ?case using live_flow by blast
qed

lemma acyclic_dead:
  assumes "acyclic_ok p" "pc < length (code p)"
    and "\<not> reads_cell p (i_dst (code p ! pc), program_output_len (code p ! pc)) [pc + 1] (replicate (length (code p) + 1) False)"
    and "r \<in> {i_dst (code p ! pc)..<i_dst (code p ! pc) + program_output_len (code p ! pc)}"
  shows "\<not> live p (pc + 1) r"
proof
  assume "live p (pc + 1) r"
  have "\<forall>v. v \<le> length (code p) \<longrightarrow> \<not> replicate (length (code p) + 1) False ! v"
    by (simp del: replicate_Suc)
  hence "\<exists>S. {u. u \<le> length (code p) \<and> replicate (length (code p) + 1) False ! u} \<union> set [pc + 1] \<subseteq> S
      \<and> (\<forall>v \<in> S. walked p (i_dst (code p ! pc), program_output_len (code p ! pc)) S v)"
    by (intro reads_cell_walked [OF assms(1,3)]) (use assms(2) in auto)
  then obtain S where "pc + 1 \<in> S" "\<forall>v \<in> S. walked p (i_dst (code p ! pc), program_output_len (code p ! pc)) S v" by auto
  from walked_not_live [OF \<open>live p (pc + 1) r\<close> this] assms(4) show False by simp
qed

definition live_set :: "('d, 'u) Program \<Rightarrow> int \<Rightarrow> int set" where
  "live_set p pc = {r. live p (nat pc) r}"

lemma live_set_flow:
  assumes "pc < length (code p)" "q \<in> succs p pc"
  shows "live_set p q \<subseteq> live_set p (int pc) \<union> cells (each_write p (code p ! pc))"
  using live_flow [OF assms(1) _ assms(2)] call_writes_sub [of p "code p ! pc"] by (auto simp: live_set_def)

interpretation acyclic_pass: dropping_pass N base acyclic_ok acyclic_remove live_set "\<lambda>p pc. reached_code p ! nat pc" observe_outs
  for N base
proof
  fix p :: "('a, 'b) Program" and pc
  assume ok: "acyclic_ok p" and pc: "pc < length (code p)" and re: "reached_code p ! nat (int pc)" and rm: "acyclic_remove p ! pc"
  let ?I = "code p ! pc"
  have c: "is_constant ?I" and nr: "\<not> reads_cell p (i_dst ?I, program_output_len ?I) [pc + 1] (replicate (length (code p) + 1) False)"
    using rm pc re by (auto simp: acyclic_remove_def)
  have W: "cells (each_write p ?I) = {i_dst ?I..<i_dst ?I + program_output_len ?I}"
    using c by (intro cells_write) (auto simp: is_constant_def)
  have q: "int pc + 1 \<in> succs p pc" using c by (auto simp: succs_def Let_def is_constant_def)
  have "cells (each_write p ?I) \<inter> live_set p (int pc + 1) = {}"
    using acyclic_dead [OF ok pc nr] unfolding W by (auto simp: live_set_def nat_add_distrib)
  thus "pure_set ?I \<and> cells (each_write p ?I) \<inter> live_set p (int pc + 1) = {}
      \<and> live_set p (int pc + 1) \<subseteq> live_set p (int pc) \<union> cells (each_write p ?I) \<and> reached_code p ! nat (int pc + 1)"
    using live_set_flow [OF pc q] reached_flow [OF ok pc _ q] re c by (auto simp: pure_set_def is_constant_def)
next
  fix p :: "('a, 'b) Program" and pc
  assume ok: "acyclic_ok p" and pc: "pc < length (code p)"
  let ?I = "code p ! pc"
  have "spans_modelled ?I" using acyclic_okD(2) [OF ok pc] by (auto simp: spans_modelled_def branches_def)
  moreover have "payload_ok p ?I"
    using acyclic_okD(2) [OF ok pc] by (auto simp: payload_ok_def branches_def program_spec_of_def program_rule_def has_simps)
  moreover have "cells (each_read p ?I) \<subseteq> live_set p (int pc)" using live_read [OF pc] by (auto simp: live_set_def)
  ultimately show "live_set p (int pc) = UNIV \<or> spans_modelled ?I \<and> payload_ok p ?I \<and> cells (each_read p ?I) \<subseteq> live_set p (int pc)"
    by blast
next
  fix p :: "('a, 'b) Program" and pc q
  assume "acyclic_ok p" "pc < length (code p)" "reached_code p ! nat (int pc)" "q \<in> succs p pc"
  thus "reached_code p ! nat q \<and> live_set p q \<subseteq> live_set p (int pc) \<union> cells (each_write p (code p ! pc))"
    using reached_flow live_set_flow by simp blast
next
  fix p :: "('a, 'b) Program" and s :: "('a, 'c) mach" and r2 q
  assume ag: "agree (live_set p (int (length (code p)))) (m_reg s) r2"
  have "m_reg s r = r2 r" if "r \<in> set (out_regs p)" for r
    using ag live_exit [OF that] by (simp add: agree_def live_set_def)
  thus "observe_outs p (s\<lparr>m_reg := r2, m_pc := q\<rparr>) = observe_outs p s" by (simp add: observe_outs_def)
qed (simp_all add: acyclic_targets reached_entry acyclic_remove_def)

text \<open>C11. Constant elision over an acyclic control-flow graph is sound: dropping the unreachable instructions and the
  constant stores that no path reads before overwriting, and retargeting the branches, leaves every run with
  the same exception and printed text, or the same output registers, evaluation state and printed text.\<close>

theorem elide_acyclic_program_constants_sound:
  "ends (observe_outs p) N base p (start reg w) x
     \<longleftrightarrow> ends (observe_outs p) N base (fst (elide_acyclic_program_constants disabled p)) (start reg w) x"
proof (cases "disabled \<or> \<not> acyclic_ok p")
  case True
  thus ?thesis by (simp add: elide_acyclic_program_constants_def)
next
  case False
  hence ok: "acyclic_ok p" and e: "fst (elide_acyclic_program_constants disabled p)
      = (if \<not> list_ex id (acyclic_remove p) then p else drop_instrs (acyclic_remove p) p)"
    by (simp_all add: elide_acyclic_program_constants_def Let_def)
  show ?thesis unfolding e using acyclic_pass.drop_ends_iff [OF ok, of N base reg w x] by simp
qed

text \<open>C15. The acyclic pass only accepts programs that always end: with forward branches alone, as many steps of fuel
  as the program has instructions suffice, so the interpreter returns or throws on every input.\<close>

theorem acyclic_program_ends:
  assumes "acyclic_ok p"
  shows "run_program N base p (length (code p)) (start reg w) \<noteq> None"
proof -
  have "run_program N base p k s \<noteq> None" if "0 \<le> m_pc s" "int (length (code p)) \<le> m_pc s + int k" for k and s :: "('a, 'c) mach"
    using that
  proof (induction k arbitrary: s)
    case (Suc k)
    show ?case
    proof (cases "m_pc s \<ge> int (length (code p))")
      case False
      hence lt: "m_pc s < int (length (code p))" by simp
      show ?thesis
      proof (cases "step N base p s")
        case (Inr s')
        have "int (nat (m_pc s)) < m_pc s'"
          using acyclic_succs [OF assms _ step_succs [OF Suc.prems(1) lt Inr]] lt Suc.prems(1) by simp
        hence "run_program N base p k s' \<noteq> None" using Suc by simp
        thus ?thesis using Inr lt by (subst run_program.simps) simp
      qed (subst run_program.simps, simp)
    qed (subst run_program.simps, simp)
  qed (subst run_program.simps, simp)
  thus ?thesis by (simp add: start_def)
qed

text \<open>A branch around a store: the constant is overwritten on one arm and unread on the other.\<close>

definition branch_program :: "(int, unit) Program" where
  "branch_program = empty_program\<lparr>pool := [5, 7], n_regs := 4, out_regs := [3],
     code := [instr P_CONST 1 0 0 0 0, instr P_JZ 4 0 0 0 0, instr P_CONST 1 1 0 0 0, instr P_JMP 5 0 0 0 0,
              instr P_MOV 1 0 0 0 0, instr P_ADD 3 1 0 0 0]\<rparr>"

lemma branch_program_elided:
  "map i_code (code (fst (elide_acyclic_program_constants False branch_program))) = [P_JZ, P_CONST, P_JMP, P_MOV, P_ADD]"
  by code_simp

theorem acyclic_program_ends_witness:
  "run_program int_num 0 branch_program 6 (start (\<lambda>x. x) ()) \<noteq> None"
proof -
  have "acyclic_ok branch_program" by code_simp
  moreover have "length (code branch_program) = 6" by (simp add: branch_program_def empty_program_def)
  ultimately show ?thesis using acyclic_program_ends [of branch_program int_num 0 "\<lambda>x. x" "()"] by simp
qed

end
