(* ===== verification/Wire.thy ===== *)
theory Wire
  imports Message
begin

text \<open>
  The envelope and the primitives of the compact portable MIR
  (\<^verbatim>\<open>runtime/src/portable_mir_v2_reader.cpp\<close>): the base64 decoder, the bounds-checked \<^verbatim>\<open>Reader\<close> over
  the payload, and the encoder of the compiler plug-in (\<^verbatim>\<open>compiler/ocaml/portable_mir.ml\<close>) that
  writes what the reader accepts. Bytes are \<^typ>\<open>char\<close>s; \<open>of_char\<close> reads one as an \<^verbatim>\<open>unsigned char\<close>
  and \<open>char_of\<close> keeps the low eight bits of a number, as \<^verbatim>\<open>static_cast<char>\<close> does.
\<close>

unbundle bit_operations_syntax

section \<open>The base64 envelope\<close>

definition kMagic :: string where
  "kMagic = ''STANLI2:''"

definition kMaxInputBytes :: int where
  "kMaxInputBytes = 256 * 1024 * 1024"

definition fail_wire :: "int \<Rightarrow> string \<Rightarrow> std_error" where
  "fail_wire offset message =
     RuntimeError (''portable mir v2 at byte '' @ show_int offset @ '': '' @ message)"

definition base64_value :: "char \<Rightarrow> int" where
  "base64_value byte = (let c = of_char byte :: int in
     if of_char (CHR ''A'') \<le> c \<and> c \<le> of_char (CHR ''Z'') then c - of_char (CHR ''A'')
     else if of_char (CHR ''a'') \<le> c \<and> c \<le> of_char (CHR ''z'') then c - of_char (CHR ''a'') + 26
     else if of_char (CHR ''0'') \<le> c \<and> c \<le> of_char (CHR ''9'') then c - of_char (CHR ''0'') + 52
     else if byte = CHR ''+'' then 62
     else if byte = CHR ''/'' then 63
     else - 1)"

definition emit_bytes :: "string \<Rightarrow> std_error + string \<Rightarrow> std_error + string" where
  "emit_bytes bs r = (case r of Inl e \<Rightarrow> Inl e | Inr s \<Rightarrow> Inr (bs @ s))"

text \<open>The loop over quartets; a remainder of one to three characters would be read out of range,
  which the length check of \<open>decode_payload\<close> excludes.\<close>

fun decode_quartets :: "int \<Rightarrow> string \<Rightarrow> std_error + string" where
  "decode_quartets offset [] = Inr []"
| "decode_quartets offset (c0 # c1 # c2 # c3 # rest) =
     (let last = (rest = []);
          a = base64_value c0; b = base64_value c1;
          c = (if c2 = CHR ''='' then - 2 else base64_value c2);
          d = (if c3 = CHR ''='' then - 2 else base64_value c3);
          wire_offset = int (length kMagic) + offset
      in if a < 0 \<or> b < 0 \<or> c = - 1 \<or> d = - 1
         then Inl (fail_wire wire_offset ''invalid base64 character'')
         else if \<not> last \<and> (c < 0 \<or> d < 0)
         then Inl (fail_wire wire_offset ''base64 padding before final quartet'')
         else if c = - 2
         then if \<not> last \<or> d \<noteq> - 2 then Inl (fail_wire wire_offset ''invalid base64 padding'')
              else if b AND 0x0f \<noteq> 0 then Inl (fail_wire wire_offset ''non-canonical base64 tail'')
              else emit_bytes [char_of (push_bit 2 a OR drop_bit 4 b)] (decode_quartets (offset + 4) rest)
         else if d = - 2
         then if \<not> last \<or> c AND 0x03 \<noteq> 0
              then Inl (fail_wire wire_offset
                     (if d = - 2 \<and> last then ''non-canonical base64 tail'' else ''invalid base64 padding''))
              else emit_bytes [char_of (push_bit 2 a OR drop_bit 4 b), char_of (push_bit 4 b OR drop_bit 2 c)]
                     (decode_quartets (offset + 4) rest)
         else emit_bytes [char_of (push_bit 2 a OR drop_bit 4 b), char_of (push_bit 4 b OR drop_bit 2 c),
                          char_of (push_bit 6 c OR d)] (decode_quartets (offset + 4) rest))"
| "decode_quartets offset _ = Inl UndefinedBehaviour"

text \<open>The size of the payload, from the padding; \<^verbatim>\<open>back()\<close> and the access before it are not checked.\<close>

definition decoded_size :: "string \<Rightarrow> std_error + int" where
  "decoded_size encoded =
     and_then (if encoded \<noteq> [] then last_elem encoded else Inr CHR 0x00) (\<lambda>c1.
     and_then (if 2 \<le> length encoded then access encoded (length encoded - 2) else Inr CHR 0x00) (\<lambda>c2.
       Inr ((int (length encoded) div 4) * 3 - (if encoded \<noteq> [] \<and> c1 = CHR ''='' then 1 else 0)
              - (if 2 \<le> length encoded \<and> c2 = CHR ''='' then 1 else 0))))"

definition decode_payload :: "string \<Rightarrow> std_error + string" where
  "decode_payload wire =
     (if int (length wire) > kMaxInputBytes then Inl (fail_wire 0 ''input exceeds 268435456 bytes'')
      else if length wire < length kMagic \<or> take (length kMagic) wire \<noteq> kMagic
      then Inl (fail_wire 0 ''missing STANLI2 header'')
      else let encoded = drop (length kMagic) wire in
        if length encoded mod 4 \<noteq> 0
        then Inl (fail_wire (int (length wire)) ''base64 length is not a multiple of 4'')
        else and_then (decoded_size encoded) (\<lambda>size.
          if size > kMaxInputBytes then Inl (fail_wire 0 ''decoded payload exceeds 268435456 bytes'')
          else and_then (decode_quartets 0 encoded) (\<lambda>decoded.
            if int (length decoded) \<noteq> size
            then Inl (fail_wire (int (length wire)) ''decoded payload length mismatch'')
            else Inr decoded)))"

definition payload_size :: "string \<Rightarrow> int" where
  "payload_size encoded =
     (int (length encoded) div 4) * 3
     - (if encoded \<noteq> [] \<and> last encoded = CHR ''='' then 1 else 0)
     - (if 2 \<le> length encoded \<and> encoded ! (length encoded - 2) = CHR ''='' then 1 else 0)"

lemma decoded_size_eq: "decoded_size encoded = Inr (payload_size encoded)"
  by (auto simp: decoded_size_def payload_size_def)

text \<open>The encoder of the compiler plug-in.\<close>

definition base64_alphabet :: string where
  "base64_alphabet = ''ABCDEFGHIJKLMNOPQRSTUVWXYZabcdefghijklmnopqrstuvwxyz0123456789+/''"

definition emit :: "int \<Rightarrow> char" where
  "emit v = base64_alphabet ! nat v"

fun encode_loop :: "string \<Rightarrow> string" where
  "encode_loop (x # y # z # rest) =
     (let a = of_char x :: int; b = of_char y; c = of_char z in
      emit (drop_bit 2 a) # emit (push_bit 4 (a AND 0x03) OR drop_bit 4 b) #
      emit (push_bit 2 (b AND 0x0f) OR drop_bit 6 c) # emit (c AND 0x3f) # encode_loop rest)"
| "encode_loop [x, y] =
     (let a = of_char x :: int; b = of_char y in
      [emit (drop_bit 2 a), emit (push_bit 4 (a AND 0x03) OR drop_bit 4 b),
       emit (push_bit 2 (b AND 0x0f)), CHR ''=''])"
| "encode_loop [x] =
     (let a = of_char x :: int in
      [emit (drop_bit 2 a), emit (push_bit 4 (a AND 0x03)), CHR ''='', CHR ''=''])"
| "encode_loop [] = []"

definition encode_base64 :: "string \<Rightarrow> std_error + string" where
  "encode_base64 input =
     (if int (length input) > 201326586
      then Inl (InvalidArgument ''portable MIR v2: payload exceeds envelope limit'')
      else Inr (encode_loop input))"

subsection \<open>Sextets and bytes\<close>

lemma push_bit_or:
  "0 \<le> y \<Longrightarrow> y < 2 ^ n \<Longrightarrow> push_bit n x OR y = x * 2 ^ n + (y :: int)"
proof -
  assume y: "0 \<le> y" "y < 2 ^ n"
  have "push_bit n x AND take_bit n y = 0"
    by (rule bit_eqI) (simp add: bit_simps)
  then have "push_bit n x + take_bit n y = push_bit n x OR take_bit n y"
    by (rule disjunctive_add_eq_or)
  with y show ?thesis by (simp add: push_bit_eq_mult take_bit_int_eq_self)
qed

lemma and_low_int: "(x :: int) AND 0x03 = x mod 4" "x AND 0x0f = x mod 16" "x AND 0x3f = x mod 64"
  using take_bit_eq_mask [of 2 x] take_bit_eq_mask [of 4 x] take_bit_eq_mask [of 6 x]
  by (simp_all add: take_bit_eq_mod mask_eq_exp_minus_1)

lemma of_char_bound [simp]: "0 \<le> (of_char c :: int)" "(of_char c :: int) < 256"
  by (cases c; simp)+

lemma char_of_iff: "char_of (m :: int) = c \<longleftrightarrow> m mod 256 = of_char c"
  using char_of_eq_iff [of m c] by (simp add: take_bit_eq_mod)

lemma base64_value_char:
  "list_all (\<lambda>n. let c = char_of n; v = base64_value c in
      - 1 \<le> v \<and> v < 64 \<and> (0 \<le> v \<longrightarrow> emit v = c)) [0..255 :: int]"
  by code_simp

lemma base64_value_emit_all:
  "list_all (\<lambda>n. base64_value (emit (int n)) = int n \<and> emit (int n) \<noteq> CHR ''='') [0..<64]"
  by code_simp

lemma base64_value_ge: "- 1 \<le> base64_value c" "base64_value c < 64"
  and emit_base64_value: "0 \<le> base64_value c \<Longrightarrow> emit (base64_value c) = c"
proof -
  have "of_char c \<in> set [0..255 :: int]" using of_char_bound(1) [of c] of_char_bound(2) [of c] by (simp del: of_char_bound)
  with base64_value_char show "- 1 \<le> base64_value c" "base64_value c < 64"
      "0 \<le> base64_value c \<Longrightarrow> emit (base64_value c) = c"
    unfolding list_all_iff Let_def by fastforce+
qed

lemma base64_value_emit:
  assumes "0 \<le> v" "v < 64"
  shows "base64_value (emit v) = v" "emit v \<noteq> CHR ''=''"
proof -
  have "nat v \<in> set [0..<64]" using assms by auto
  with base64_value_emit_all assms show "base64_value (emit v) = v" "emit v \<noteq> CHR ''=''"
    unfolding list_all_iff by fastforce+
qed

lemma mult_add_div: "0 \<le> y \<Longrightarrow> y < k \<Longrightarrow> (x * k + y) div k = (x :: int)"
  and mult_add_mod: "0 \<le> y \<Longrightarrow> y < k \<Longrightarrow> (x * k + y) mod k = y"
  by (simp_all add: div_pos_pos_trivial mod_pos_pos_trivial)

lemma shift_split: "x * k = x div m * (m * k) + x mod m * (k :: int)"
  by (metis distrib_right div_mult_mod_eq mult.assoc)

text \<open>The bit fields of the three bytes and the four sextets, as arithmetic.\<close>

lemma sextets:
  fixes a b c :: int
  assumes "0 \<le> a" "a < 256" "0 \<le> b" "b < 256" "0 \<le> c" "c < 256"
  shows "drop_bit 2 a = a div 4" "push_bit 4 (a AND 0x03) = a mod 4 * 16"
    and "push_bit 4 (a AND 0x03) OR drop_bit 4 b = a mod 4 * 16 + b div 16"
    and "push_bit 2 (b AND 0x0f) = b mod 16 * 4"
    and "push_bit 2 (b AND 0x0f) OR drop_bit 6 c = b mod 16 * 4 + c div 64"
    and "c AND 0x3f = c mod 64"
  using assms push_bit_or [of "b div 16" 4 "a mod 4"] push_bit_or [of "c div 64" 2 "b mod 16"]
  by (simp_all add: and_low_int drop_bit_eq_div push_bit_eq_mult)

lemma octets:
  fixes a b c d :: int
  assumes "0 \<le> a" "a < 64" "0 \<le> b" "b < 64" "0 \<le> c" "c < 64" "0 \<le> d" "d < 64"
  shows "push_bit 2 a OR drop_bit 4 b = a * 4 + b div 16"
    and "push_bit 4 b OR drop_bit 2 c = b * 16 + c div 4"
    and "push_bit 6 c OR d = c * 64 + d"
    and "b AND 0x0f = b mod 16" "c AND 0x03 = c mod 4"
  using assms by (simp_all add: push_bit_or and_low_int drop_bit_eq_div)

text \<open>Splitting three bytes into sextets and joining them again.\<close>

lemma join_sextets:
  fixes a b c :: int
  assumes "0 \<le> a" "a < 256" "0 \<le> b" "b < 256" "0 \<le> c" "c < 256"
  shows "a div 4 * 4 + (a mod 4 * 16 + b div 16) div 16 = a"
    and "((a mod 4 * 16 + b div 16) * 16 + (b mod 16 * 4 + c div 64) div 4) mod 256 = b"
    and "((b mod 16 * 4 + c div 64) * 64 + c mod 64) mod 256 = c"
proof -
  have q: "(a mod 4 * 16 + b div 16) div 16 = a mod 4" by (rule mult_add_div) (use assms in auto)
  then show "a div 4 * 4 + (a mod 4 * 16 + b div 16) div 16 = a" by simp
  have u: "(b mod 16 * 4 + c div 64) div 4 = b mod 16" by (rule mult_add_div) (use assms in auto)
  have "(a mod 4 * 16 + b div 16) * 16 + b mod 16 = a mod 4 * 256 + b" by simp
  moreover have "(a mod 4 * 256 + b) mod 256 = b" by (rule mult_add_mod) (use assms in auto)
  ultimately show "((a mod 4 * 16 + b div 16) * 16 + (b mod 16 * 4 + c div 64) div 4) mod 256 = b"
    by (simp only: u)
  have "(b mod 16 * 4 + c div 64) * 64 + c mod 64 = b mod 16 * 256 + c" by simp
  moreover have "(b mod 16 * 256 + c) mod 256 = c" by (rule mult_add_mod) (use assms in auto)
  ultimately show "((b mod 16 * 4 + c div 64) * 64 + c mod 64) mod 256 = c" by simp
qed

lemma join_chars:
  fixes x y z :: char
  defines "a \<equiv> (of_char x :: int)" and "b \<equiv> (of_char y :: int)" and "c \<equiv> (of_char z :: int)"
  shows "char_of (a div 4 * 4 + (a mod 4 * 16 + b div 16) div 16) = x"
    and "char_of ((a mod 4 * 16 + b div 16) * 16 + (b mod 16 * 4 + c div 64) div 4) = y"
    and "char_of ((b mod 16 * 4 + c div 64) * 64 + c mod 64) = z"
  unfolding a_def b_def c_def
  by (simp_all only: char_of_iff join_sextets [OF of_char_bound of_char_bound of_char_bound] of_char_mod_256)

lemma split_octets:
  fixes a b c d :: int
  assumes "0 \<le> a" "a < 64" "0 \<le> b" "b < 64" "0 \<le> c" "c < 64" "0 \<le> d" "d < 64"
  defines "x \<equiv> (a * 4 + b div 16) mod 256" and "y \<equiv> (b * 16 + c div 4) mod 256"
    and "z \<equiv> (c * 64 + d) mod 256"
  shows "x div 4 = a" "x mod 4 * 16 + y div 16 = b" "y mod 16 * 4 + z div 64 = c" "z mod 64 = d"
    and "b mod 16 = 0 \<Longrightarrow> x mod 4 * 16 = b" "c mod 4 = 0 \<Longrightarrow> y mod 16 * 4 = c"
proof -
  have x: "x = a * 4 + b div 16" unfolding x_def by (rule mod_pos_pos_trivial) (use assms in auto)
  have y: "y = b mod 16 * 16 + c div 4"
  proof -
    have "b * 16 + c div 4 = b div 16 * 256 + (b mod 16 * 16 + c div 4)"
      using shift_split [of b 16 16] by simp
    then show ?thesis unfolding y_def
      by (simp only:) (rule mult_add_mod; use assms in simp)
  qed
  have z: "z = c mod 4 * 64 + d"
  proof -
    have "c * 64 + d = c div 4 * 256 + (c mod 4 * 64 + d)"
      using shift_split [of c 64 4] by simp
    then show ?thesis unfolding z_def
      by (simp only:) (rule mult_add_mod; use assms in simp)
  qed
  show "x div 4 = a" unfolding x by (rule mult_add_div) (use assms in auto)
  have xm: "x mod 4 = b div 16" unfolding x by (rule mult_add_mod) (use assms in auto)
  have yd: "y div 16 = b mod 16" unfolding y by (rule mult_add_div) (use assms in auto)
  have ym: "y mod 16 = c div 4" unfolding y by (rule mult_add_mod) (use assms in auto)
  have zd: "z div 64 = c mod 4" unfolding z by (rule mult_add_div) (use assms in auto)
  show "z mod 64 = d" unfolding z by (rule mult_add_mod) (use assms in auto)
  show "x mod 4 * 16 + y div 16 = b" "y mod 16 * 4 + z div 64 = c"
    by (simp_all add: xm yd ym zd)
  show "b mod 16 = 0 \<Longrightarrow> x mod 4 * 16 = b" "c mod 4 = 0 \<Longrightarrow> y mod 16 * 4 = c"
    using div_mult_mod_eq [of b 16] div_mult_mod_eq [of c 4] by (simp_all only: xm ym add_0_right)
qed

lemma encode_loop_arith:
  "encode_loop (x # y # z # rest) = (let a = of_char x; b = of_char y; c = of_char z in
     emit (a div 4) # emit (a mod 4 * 16 + b div 16) # emit (b mod 16 * 4 + c div 64) # emit (c mod 64) #
     encode_loop rest)"
  "encode_loop [x, y] = (let a = of_char x; b = of_char y in
     [emit (a div 4), emit (a mod 4 * 16 + b div 16), emit (b mod 16 * 4), CHR ''=''])"
  "encode_loop [x] = (let a = of_char x in [emit (a div 4), emit (a mod 4 * 16), CHR ''='', CHR ''=''])"
  unfolding encode_loop.simps Let_def
  by (simp_all only: sextets(3,5,1,6) [OF of_char_bound of_char_bound of_char_bound])
    (simp_all only: sextets(2,4) [OF of_char_bound of_char_bound of_char_bound])

declare encode_loop.simps(1-3) [simp del]

lemma sextet_bounds:
  fixes a b c :: int
  assumes "0 \<le> a" "a < 256" "0 \<le> b" "b < 256" "0 \<le> c" "c < 256"
  shows "0 \<le> a div 4" "a div 4 < 64" "0 \<le> a mod 4 * 16 + b div 16" "a mod 4 * 16 + b div 16 < 64"
    and "0 \<le> b mod 16 * 4 + c div 64" "b mod 16 * 4 + c div 64 < 64" "0 \<le> c mod 64" "c mod 64 < 64"
  using assms by auto

lemma decode_emit:
  assumes "0 \<le> a" "a < 64" "0 \<le> b" "b < 64" "0 \<le> c" "c < 64" "0 \<le> d" "d < 64"
  shows "decode_quartets offset (emit a # emit b # emit c # emit d # rest) =
           emit_bytes [char_of (a * 4 + b div 16), char_of (b * 16 + c div 4), char_of (c * 64 + d)]
             (decode_quartets (offset + 4) rest)"
    and "c mod 4 = 0 \<Longrightarrow> decode_quartets offset [emit a, emit b, emit c, CHR ''=''] =
           Inr [char_of (a * 4 + b div 16), char_of (b * 16 + c div 4)]"
    and "b mod 16 = 0 \<Longrightarrow> decode_quartets offset [emit a, emit b, CHR ''='', CHR ''=''] =
           Inr [char_of (a * 4 + b div 16)]"
  using assms by (simp_all add: Let_def base64_value_emit octets [OF assms] emit_bytes_def)

lemma decode_encode_loop: "decode_quartets offset (encode_loop bs) = Inr bs"
proof (induction bs arbitrary: offset rule: encode_loop.induct)
  case (1 x y z rest)
  note r = of_char_bound [of x] of_char_bound [of y] of_char_bound [of z]
  show ?case
    by (simp only: encode_loop_arith Let_def decode_emit [OF sextet_bounds [OF r]] 1)
      (simp only: emit_bytes_def join_chars sum.case append.simps)
next
  case (2 x y)
  note r = of_char_bound [of x] of_char_bound [of y] of_char_bound [of "CHR 0x00"]
  show ?case
    using decode_emit(2) [OF sextet_bounds [OF r], of offset] join_sextets [OF r]
    by (simp add: encode_loop_arith char_of_iff Let_def)
next
  case (3 x)
  note r = of_char_bound [of x] of_char_bound [of "CHR 0x00"] of_char_bound [of "CHR 0x00"]
  show ?case
    using decode_emit(3) [OF sextet_bounds [OF r], of offset] join_sextets [OF r]
    by (simp add: encode_loop_arith char_of_iff Let_def)
qed simp

lemma emit_bytes_InrD: "emit_bytes bs r = Inr x \<Longrightarrow> \<exists>s. r = Inr s \<and> x = bs @ s"
  by (simp add: emit_bytes_def split: sum.splits)

lemma encode_triple:
  assumes "0 \<le> a" "a < 64" "0 \<le> b" "b < 64" "0 \<le> c" "c < 64" "0 \<le> d" "d < 64"
  shows "encode_loop (char_of (push_bit 2 a OR drop_bit 4 b) # char_of (push_bit 4 b OR drop_bit 2 c) #
           char_of (push_bit 6 c OR d) # s) = emit a # emit b # emit c # emit d # encode_loop s"
  by (simp only: encode_loop_arith Let_def of_char_of octets [OF assms] split_octets [OF assms])

lemma encode_pair:
  assumes "0 \<le> a" "a < 64" "0 \<le> b" "b < 64" "0 \<le> c" "c < 64" "c mod 4 = 0"
  shows "encode_loop [char_of (push_bit 2 a OR drop_bit 4 b), char_of (push_bit 4 b OR drop_bit 2 c)] =
           [emit a, emit b, emit c, CHR ''='']"
  using split_octets [OF assms(1-6), of 0] assms(7)
  by (simp only: encode_loop_arith Let_def of_char_of octets [OF assms(1-6) assms(1,2)])

lemma encode_single:
  assumes "0 \<le> a" "a < 64" "0 \<le> b" "b < 64" "b mod 16 = 0"
  shows "encode_loop [char_of (push_bit 2 a OR drop_bit 4 b)] = [emit a, emit b, CHR ''='', CHR ''='']"
  using split_octets [OF assms(1-4), of 0 0] assms(5)
  by (simp only: encode_loop_arith Let_def of_char_of octets [OF assms(1-4) assms(1-4)])

lemma encode_decode_loop: "decode_quartets offset cs = Inr bs \<Longrightarrow> encode_loop bs = cs"
proof (induction offset cs arbitrary: bs rule: decode_quartets.induct)
  case (2 offset c0 c1 c2 c3 rest)
  note vals = base64_value_ge(2) emit_base64_value and low = and_low_int
  from "2.prems" have ab: "0 \<le> base64_value c0" "0 \<le> base64_value c1"
    by (auto simp: Let_def split: if_splits)
  have cd: "c = CHR ''='' \<or> 0 \<le> base64_value c" if "base64_value c \<noteq> - 1" for c
    using base64_value_ge(1) [of c] that by linarith
  show ?case
  proof (cases "c2 = CHR ''=''")
    case True
    with "2.prems" have "rest = []" "c3 = CHR ''=''" "base64_value c1 AND 0x0f = 0"
        "bs = [char_of (push_bit 2 (base64_value c0) OR drop_bit 4 (base64_value c1))]"
      using base64_value_ge(1) [of c3]
      by (auto simp: Let_def emit_bytes_def split: if_splits)
    with True ab show ?thesis by (simp add: encode_single vals low)
  next
    case c2: False
    with "2.prems" have c: "0 \<le> base64_value c2"
      using cd [of c2] by (auto simp: Let_def split: if_splits)
    show ?thesis
    proof (cases "c3 = CHR ''=''")
      case True
      with "2.prems" c2 c have "rest = []" "base64_value c2 AND 0x03 = 0"
        "bs = [char_of (push_bit 2 (base64_value c0) OR drop_bit 4 (base64_value c1)),
               char_of (push_bit 4 (base64_value c1) OR drop_bit 2 (base64_value c2))]"
        by (auto simp: Let_def emit_bytes_def split: if_splits)
      with True ab c show ?thesis by (simp add: encode_pair vals low)
    next
      case False
      with "2.prems" c2 have d: "0 \<le> base64_value c3"
        using cd [of c3] by (auto simp: Let_def split: if_splits)
      obtain s where "decode_quartets (offset + 4) rest = Inr s"
        "bs = char_of (push_bit 2 (base64_value c0) OR drop_bit 4 (base64_value c1)) #
              char_of (push_bit 4 (base64_value c1) OR drop_bit 2 (base64_value c2)) #
              char_of (push_bit 6 (base64_value c2) OR base64_value c3) # s"
        using "2.prems" False c2 ab c d by (auto simp: Let_def dest!: emit_bytes_InrD)
      moreover have "encode_loop s = rest"
        using calculation(1) 2(1-3) False c2 ab c d by (simp add: Let_def)
      ultimately show ?thesis using ab c d by (simp add: encode_triple vals)
    qed
  qed
qed simp_all

subsection \<open>The decoder accepts exactly what the encoder writes\<close>

lemma length_encode_loop: "length (encode_loop bs) = 4 * ((length bs + 2) div 3)"
proof (induction bs rule: encode_loop.induct)
  case (1 x y z rest)
  have "(length rest + 2 + 3) div 3 = Suc ((length rest + 2) div 3)" by simp
  with 1 show ?case by (simp add: encode_loop_arith Let_def add.commute add.left_commute)
qed (simp_all add: encode_loop_arith Let_def)

lemma emit_sextet_not_pad: "emit ((of_char c :: int) mod 64) \<noteq> CHR ''=''"
  "emit ((of_char b :: int) mod 16 * 4 + of_char c div 64) \<noteq> CHR ''=''" 
  "emit ((of_char b :: int) mod 16 * 4) \<noteq> CHR ''=''"
proof -
  have "(of_char c :: int) div 64 < 4" "0 \<le> (of_char c :: int) div 64"
    using of_char_bound [of c] by (simp_all del: of_char_bound)
  then show "emit ((of_char c :: int) mod 64) \<noteq> CHR ''=''"
    "emit ((of_char b :: int) mod 16 * 4 + of_char c div 64) \<noteq> CHR ''=''" 
    "emit ((of_char b :: int) mod 16 * 4) \<noteq> CHR ''=''"
    by (intro base64_value_emit(2); simp)+
qed

lemma payload_size_cons4:
  assumes "rest \<noteq> []" "length rest mod 4 = 0"
  shows "payload_size (w # x # y # z # rest) = 3 + payload_size rest"
proof -
  from assms obtain k where n: "length rest = 4 * Suc k"
    by (metis dvdE dvd_eq_mod_eq_0 length_0_conv mult_is_0 not0_implies_Suc)
  have "w # x # y # z # rest = [w, x, y, z] @ rest" by simp
  moreover have "([w, x, y, z] @ rest) ! (length ([w, x, y, z] @ rest) - 2) = rest ! (length rest - 2)"
    unfolding nth_append using n by simp
  ultimately show ?thesis using assms(1) n by (simp add: payload_size_def)
qed

lemma payload_size_encode_loop: "payload_size (encode_loop bs) = int (length bs)"
proof (induction bs rule: encode_loop.induct)
  case (1 x y z rest)
  show ?case
  proof (cases "encode_loop rest = []")
    case True
    then have "rest = []" using length_encode_loop [of rest] by (cases rest) auto
    with True show ?thesis
      by (simp add: encode_loop_arith Let_def payload_size_def emit_sextet_not_pad)
  next
    case False
    with 1 show ?thesis
      by (simp add: encode_loop_arith Let_def payload_size_cons4 length_encode_loop)
  qed
qed (simp_all add: encode_loop_arith Let_def payload_size_def emit_sextet_not_pad)

lemma kMagic_prefix: "take (length kMagic) wire = kMagic \<longleftrightarrow> (\<exists>e. wire = kMagic @ e)"
  by (metis append_eq_conv_conj append_take_drop_id)

lemma envelope_limit:
  "int (length (kMagic @ encode_loop bs)) \<le> kMaxInputBytes \<longleftrightarrow> int (length bs) \<le> 201326586"
  by (simp add: length_encode_loop kMagic_def kMaxInputBytes_def) presburger

lemma decode_payload_canonical:
  assumes d: "decode_payload wire = Inr payload"
  shows "wire = kMagic @ encode_loop payload" "encode_base64 payload = Inr (encode_loop payload)"
proof -
  from d obtain e where w: "wire = kMagic @ e"
    using kMagic_prefix [of wire] by (auto simp: decode_payload_def Let_def split: if_splits)
  with d have "int (length wire) \<le> kMaxInputBytes" "decode_quartets 0 e = Inr payload"
    by (auto simp: decode_payload_def Let_def split: if_splits sum.splits)
  with w encode_decode_loop [of 0 e payload] envelope_limit [of payload]
  show "wire = kMagic @ encode_loop payload" "encode_base64 payload = Inr (encode_loop payload)"
    by (auto simp: encode_base64_def)
qed

lemma decode_payload_encoded:
  "int (length payload) \<le> 201326586 \<Longrightarrow> decode_payload (kMagic @ encode_loop payload) = Inr payload"
  using envelope_limit [of payload]
  by (simp add: decode_payload_def Let_def decode_encode_loop decoded_size_eq payload_size_encode_loop
      length_encode_loop kMaxInputBytes_def)

text \<open>C6. The decoder of the portable envelope and the encoder of the compiler plug-in are inverse to
  each other: a text decodes to a payload exactly when it is the header followed by what the
  encoder writes for that payload. So every document the compiler emits is accepted and gives back
  its payload, no two texts decode to the same payload (padding and unused bits are canonical),
  the length check at the end of \<^verbatim>\<open>decode_payload\<close> never fails, and the two size limits agree.\<close>

theorem decode_payload_iff_encoded:
  "decode_payload wire = Inr payload \<longleftrightarrow>
     (\<exists>encoded. encode_base64 payload = Inr encoded \<and> wire = kMagic @ encoded)"
  using decode_payload_canonical [of wire payload] decode_payload_encoded [of payload]
  by (auto simp: encode_base64_def split: if_splits)

end
