(* ===== verification/Utf8.thy ===== *)
theory Utf8
  imports Wire
begin

text \<open>
  The check of decoded strings (\<^verbatim>\<open>Reader::validate_utf8\<close> of \<^verbatim>\<open>runtime/src/portable_mir_v2_reader.cpp\<close>)
  and its meaning: it accepts exactly the UTF-8 encodings of sequences of Unicode scalar values.
\<close>

unbundle bit_operations_syntax

section \<open>The check\<close>

definition continuation :: "char \<Rightarrow> bool" where
  "continuation byte \<longleftrightarrow> of_char byte AND (0xc0 :: int) = 0x80"

fun utf8_ok :: "string \<Rightarrow> bool" where
  "utf8_ok [] = True"
| "utf8_ok (x # rest) =
     (let first = of_char x :: int in
      if first < 0x80 then utf8_ok rest
      else if 0xc2 \<le> first \<and> first \<le> 0xdf
      then (case rest of y # rest' \<Rightarrow> continuation y \<and> utf8_ok rest' | _ \<Rightarrow> False)
      else if 0xe0 \<le> first \<and> first \<le> 0xef
      then (case rest of y # z # rest' \<Rightarrow>
          (let second = of_char y :: int in
           \<not> (\<not> continuation z \<or>
              (if first = 0xe0 then second < 0xa0 \<or> second > 0xbf
               else if first = 0xed then second < 0x80 \<or> second > 0x9f
               else \<not> continuation y)) \<and> utf8_ok rest')
        | _ \<Rightarrow> False)
      else if 0xf0 \<le> first \<and> first \<le> 0xf4
      then (case rest of y # z # w # rest' \<Rightarrow>
          (let second = of_char y :: int in
           \<not> ((if first = 0xf0 then second < 0x90 \<or> second > 0xbf
               else if first = 0xf4 then second < 0x80 \<or> second > 0x8f
               else \<not> continuation y) \<or> \<not> continuation z \<or> \<not> continuation w) \<and> utf8_ok rest')
        | _ \<Rightarrow> False)
      else False)"

text \<open>\<open>utf8_ok\<close> reads the string from the front. The source reads it by index, without a check of its own at any of
  the look-ahead accesses: \<open>validate_utf8 s i\<close> is the loop from index \<open>i\<close> on, \<open>False\<close> where it throws.\<close>

function validate_utf8 :: "string \<Rightarrow> nat \<Rightarrow> std_error + bool" where
  "validate_utf8 s i =
     (if i \<ge> length s then Inr True
      else and_then (access s i) (\<lambda>x. let first = of_char x :: int in
        if first < 0x80 then validate_utf8 s (i + 1)
        else if 0xc2 \<le> first \<and> first \<le> 0xdf
        then (if i + 1 \<ge> length s then Inr False
              else and_then (access s (i + 1)) (\<lambda>y. if \<not> continuation y then Inr False else validate_utf8 s (i + 2)))
        else if 0xe0 \<le> first \<and> first \<le> 0xef
        then (if i + 2 \<ge> length s then Inr False
              else and_then (access s (i + 1)) (\<lambda>y. and_then (access s (i + 2)) (\<lambda>z. let second = of_char y :: int in
                if \<not> continuation z \<or>
                   (if first = 0xe0 then second < 0xa0 \<or> second > 0xbf
                    else if first = 0xed then second < 0x80 \<or> second > 0x9f
                    else \<not> continuation y)
                then Inr False else validate_utf8 s (i + 3))))
        else if 0xf0 \<le> first \<and> first \<le> 0xf4
        then (if i + 3 \<ge> length s then Inr False
              else and_then (access s (i + 1)) (\<lambda>y. let second = of_char y :: int in
                if (if first = 0xf0 then second < 0x90 \<or> second > 0xbf
                    else if first = 0xf4 then second < 0x80 \<or> second > 0x8f
                    else \<not> continuation y)
                then Inr False
                else and_then (access s (i + 2)) (\<lambda>z. if \<not> continuation z then Inr False
                else and_then (access s (i + 3)) (\<lambda>w. if \<not> continuation w then Inr False
                else validate_utf8 s (i + 4)))))
        else Inr False))"
  by pat_completeness auto

termination validate_utf8
  by (relation "measure (\<lambda>(s, i). length s - i)") auto

declare validate_utf8.simps [simp del]

lemma drop_pair: "i + 1 < length v \<Longrightarrow> drop i v = v ! i # v ! (i + 1) # drop (i + 2) v"
  by (simp add: Cons_nth_drop_Suc)

lemma validate_utf8_eq: "validate_utf8 s i = Inr (utf8_ok (drop i s))"
proof (induction s i rule: validate_utf8.induct)
  case (1 s i)
  show ?case
  proof (cases "i \<ge> length s")
    case True
    then show ?thesis by (simp add: validate_utf8.simps)
  next
    case False
    note ih = "1.IH" [OF False refl]
    have one: "drop i s = s ! i # drop (i + 1) s" using False by (simp add: Cons_nth_drop_Suc)
    let ?f = "of_char (s ! i) :: int"
    consider (ascii) "?f < 0x80" | (two) "\<not> ?f < 0x80" "0xc2 \<le> ?f \<and> ?f \<le> 0xdf"
      | (three) "\<not> ?f < 0x80" "\<not> (0xc2 \<le> ?f \<and> ?f \<le> 0xdf)" "0xe0 \<le> ?f \<and> ?f \<le> 0xef"
      | (four) "\<not> ?f < 0x80" "\<not> (0xc2 \<le> ?f \<and> ?f \<le> 0xdf)" "\<not> (0xe0 \<le> ?f \<and> ?f \<le> 0xef)" "0xf0 \<le> ?f \<and> ?f \<le> 0xf4"
      | (bad) "\<not> ?f < 0x80" "\<not> (0xc2 \<le> ?f \<and> ?f \<le> 0xdf)" "\<not> (0xe0 \<le> ?f \<and> ?f \<le> 0xef)" "\<not> (0xf0 \<le> ?f \<and> ?f \<le> 0xf4)"
      by blast
    then show ?thesis
    proof cases
      case ascii
      then show ?thesis using False ih(1) by (simp add: validate_utf8.simps [of s i] one)
    next
      case two
      then show ?thesis
        using False ih(2) [OF two] drop_pair [of i s]
        by (cases "i + 1 < length s") (auto simp: validate_utf8.simps [of s i] Let_def one)
    next
      case three
      have "i + 2 < length s \<Longrightarrow> drop (i + 1) s = s ! (i + 1) # s ! (i + 2) # drop (i + 3) s"
        using drop_pair [of "i + 1" s] by (simp add: numeral_3_eq_3)
      moreover have "\<not> i + 2 < length s \<Longrightarrow> drop (i + 1) s = [] \<or> (\<exists>y. drop (i + 1) s = [y])"
        by (cases "drop (i + 1) s"; cases "tl (drop (i + 1) s)")
          (auto dest!: arg_cong [of _ _ length])
      ultimately show ?thesis
        using False three ih(3) [OF three]
        by (cases "i + 2 < length s") (auto simp: validate_utf8.simps [of s i] Let_def one)
    next
      case four
      have "i + 3 < length s \<Longrightarrow>
          drop (i + 1) s = s ! (i + 1) # s ! (i + 2) # s ! (i + 3) # drop (i + 4) s"
        using drop_pair [of "i + 1" s] Cons_nth_drop_Suc [of "i + 3" s] by (simp add: numeral_eq_Suc)
      moreover have "\<not> i + 3 < length s \<Longrightarrow>
          drop (i + 1) s = [] \<or> (\<exists>y. drop (i + 1) s = [y]) \<or> (\<exists>y z. drop (i + 1) s = [y, z])"
        by (cases "drop (i + 1) s"; cases "tl (drop (i + 1) s)"; cases "tl (tl (drop (i + 1) s))")
          (auto dest!: arg_cong [of _ _ length])
      ultimately show ?thesis
        using False four ih(4) [OF four]
        by (cases "i + 3 < length s") (auto simp: validate_utf8.simps [of s i] Let_def one)
    next
      case bad
      then show ?thesis using False by (auto simp: validate_utf8.simps [of s i] one)
    qed
  qed
qed

section \<open>UTF-8\<close>

definition scalar_value :: "int \<Rightarrow> bool" where
  "scalar_value c \<longleftrightarrow> (0 \<le> c \<and> c < 0xd800) \<or> (0xe000 \<le> c \<and> c < 0x110000)"

definition utf8_encode :: "int \<Rightarrow> string" where
  "utf8_encode c =
     (if c < 0x80 then [char_of c]
      else if c < 0x800 then [char_of (0xc0 + c div 64), char_of (0x80 + c mod 64)]
      else if c < 0x10000 then [char_of (0xe0 + c div 4096), char_of (0x80 + c div 64 mod 64), char_of (0x80 + c mod 64)]
      else [char_of (0xf0 + c div 262144), char_of (0x80 + c div 4096 mod 64), char_of (0x80 + c div 64 mod 64),
            char_of (0x80 + c mod 64)])"

lemma continuation_all:
  "list_all (\<lambda>c. (c AND 0xc0 = 0x80) = (0x80 \<le> c \<and> c < 0xc0)) [0..255 :: int]"
  by code_simp

lemma continuation_iff: "continuation b \<longleftrightarrow> 0x80 \<le> (of_char b :: int) \<and> (of_char b :: int) < 0xc0"
proof -
  have "of_char b \<in> set [0..255 :: int]"
    using of_char_bound(1) [of b] of_char_bound(2) [of b] by (simp del: of_char_bound)
  with continuation_all show ?thesis unfolding list_all_iff continuation_def by blast
qed

lemma utf8_ok_encode:
  assumes "scalar_value c"
  shows "utf8_ok (utf8_encode c @ s) = utf8_ok s"
proof -
  have c: "0 \<le> c" "c < 0x110000" using assms by (auto simp: scalar_value_def)
  consider "c < 0x80" | "0x80 \<le> c" "c < 0x800" | "0x800 \<le> c" "c < 0x10000" | "0x10000 \<le> c" by linarith
  then show ?thesis
  proof cases
    case 1
    with c show ?thesis by (simp add: utf8_encode_def)
  next
    case 2
    then have "2 \<le> c div 64" "c div 64 < 32" by linarith+
    with 2 show ?thesis by (simp add: utf8_encode_def continuation_iff)
  next
    case 3
    define a b where "a = c div 4096" and "b = c div 64 mod 64"
    have ab: "0 \<le> a" "a < 16" "0 \<le> b" "b < 64" "c div 64 = a * 64 + b"
      using 3 by (auto simp: a_def b_def div_mult_mod_eq zdiv_zmult2_eq [of 64 c 64, simplified])
    have "a = 0 \<Longrightarrow> 32 \<le> b" "a = 13 \<Longrightarrow> b < 32"
      using 3 ab(3-5) assms by (auto simp: scalar_value_def)
    with 3 ab(1-4) show ?thesis
      by (auto simp: utf8_encode_def continuation_iff simp flip: a_def b_def)
  next
    case 4
    define a b where "a = c div 262144" and "b = c div 4096 mod 64"
    have ab: "0 \<le> a" "a < 5" "0 \<le> b" "b < 64" "c div 4096 = a * 64 + b"
      using 4 c by (auto simp: a_def b_def div_mult_mod_eq zdiv_zmult2_eq [of 64 c 4096, simplified])
    have "a = 0 \<Longrightarrow> 16 \<le> b" "a = 4 \<Longrightarrow> b < 16"
      using 4 c ab(5) by auto
    with 4 ab(1-4) show ?thesis
      by (auto simp: utf8_encode_def continuation_iff simp flip: a_def b_def)
  qed
qed

lemma char_of_of_int [simp]: "char_of (of_char c :: int) = c"
  by simp

lemma div_4096: "0 \<le> y \<Longrightarrow> y < 64 \<Longrightarrow> (x * 64 + y) div 4096 = x div (64 :: int)"
  using zdiv_zmult2_eq [of 64 "x * 64 + y" 64] mult_add_div [of y 64 x] by simp

lemma div_262144: "0 \<le> y \<Longrightarrow> y < 64 \<Longrightarrow> (x * 64 + y) div 262144 = x div (4096 :: int)"
  using zdiv_zmult2_eq [of 4096 "x * 64 + y" 64] mult_add_div [of y 64 x] by simp

lemma utf8_encode_two:
  assumes "0xc2 \<le> (of_char x :: int)" "(of_char x :: int) \<le> 0xdf" "continuation y"
  shows "\<exists>c. scalar_value c \<and> [x, y] = utf8_encode c"
proof -
  define a b where "a = (of_char x :: int) - 0xc0" and "b = (of_char y :: int) - 0x80"
  have r: "2 \<le> a" "a < 32" "0 \<le> b" "b < 64" using assms by (simp_all add: a_def b_def continuation_iff)
  have "(a * 64 + b) div 64 = a" "(a * 64 + b) mod 64 = b" using r by (simp_all add: mult_add_div mult_add_mod)
  then have "utf8_encode (a * 64 + b) = [x, y]" using r by (simp add: utf8_encode_def a_def b_def)
  moreover have "scalar_value (a * 64 + b)" using r by (simp add: scalar_value_def)
  ultimately show ?thesis by metis
qed

lemma utf8_encode_three:
  assumes "0xe0 \<le> (of_char x :: int)" "(of_char x :: int) \<le> 0xef" "continuation z"
    and "if of_char x = (0xe0 :: int) then \<not> (of_char y < (0xa0 :: int) \<or> of_char y > (0xbf :: int))
         else if of_char x = (0xed :: int) then \<not> (of_char y < (0x80 :: int) \<or> of_char y > (0x9f :: int))
         else continuation y"
  shows "\<exists>c. scalar_value c \<and> [x, y, z] = utf8_encode c"
proof -
  define a b d where "a = (of_char x :: int) - 0xe0" and "b = (of_char y :: int) - 0x80" and "d = (of_char z :: int) - 0x80"
  have r: "0 \<le> a" "a < 16" "0 \<le> b" "b < 64" "0 \<le> d" "d < 64" and ab: "a = 0 \<Longrightarrow> 32 \<le> b" "a = 13 \<Longrightarrow> b < 32"
    using assms by (auto simp: a_def b_def d_def continuation_iff split: if_splits)
  let ?c = "(a * 64 + b) * 64 + d"
  have q: "?c div 64 = a * 64 + b" "?c mod 64 = d" "(a * 64 + b) mod 64 = b" "(a * 64 + b) div 64 = a"
    using r by (simp_all only: mult_add_div mult_add_mod)
  have "?c div 4096 = a" using q zdiv_zmult2_eq [of 64 ?c 64] by simp
  moreover have "0x800 \<le> ?c" using r ab(1) by (cases "a = 0") auto
  moreover have "?c < 0x10000" using r by auto
  ultimately have "utf8_encode ?c = [x, y, z]"
    using q unfolding utf8_encode_def by (simp add: a_def b_def d_def)
  moreover have "scalar_value ?c"
  proof (cases "a \<le> 12")
    case False
    then show ?thesis using r ab(2) by (cases "a = 13") (auto simp: scalar_value_def)
  qed (use r in \<open>auto simp: scalar_value_def\<close>)
  ultimately show ?thesis by metis
qed

lemma utf8_encode_wide:
  "0x10000 \<le> c \<Longrightarrow> utf8_encode c = [char_of (0xf0 + c div 262144), char_of (0x80 + c div 4096 mod 64),
     char_of (0x80 + c div 64 mod 64), char_of (0x80 + c mod 64)]"
  by (simp add: utf8_encode_def)

lemma char_of_offset: "a = (of_char x :: int) - k \<Longrightarrow> char_of (k + a) = x"
  by simp

lemma utf8_encode_four:
  assumes "0xf0 \<le> (of_char x :: int)" "(of_char x :: int) \<le> 0xf4" "continuation z" "continuation w"
    and "if of_char x = (0xf0 :: int) then \<not> (of_char y < (0x90 :: int) \<or> of_char y > (0xbf :: int))
         else if of_char x = (0xf4 :: int) then \<not> (of_char y < (0x80 :: int) \<or> of_char y > (0x8f :: int))
         else continuation y"
  shows "\<exists>c. scalar_value c \<and> [x, y, z, w] = utf8_encode c"
proof -
  define a b d e where "a = (of_char x :: int) - 0xf0" and "b = (of_char y :: int) - 0x80"
    and "d = (of_char z :: int) - 0x80" and "e = (of_char w :: int) - 0x80"
  have r: "0 \<le> a" "a \<le> 4" "0 \<le> b" "b < 64" "0 \<le> d" "d < 64" "0 \<le> e" "e < 64"
    and ab: "a = 0 \<Longrightarrow> 16 \<le> b" "a = 4 \<Longrightarrow> b < 16"
    using assms by (auto simp: a_def b_def d_def e_def continuation_iff split: if_splits)
  let ?c = "((a * 64 + b) * 64 + d) * 64 + e"
  have q: "?c div 64 = (a * 64 + b) * 64 + d" "?c mod 64 = e" "((a * 64 + b) * 64 + d) mod 64 = d"
    "((a * 64 + b) * 64 + d) div 64 = a * 64 + b" "(a * 64 + b) mod 64 = b" "(a * 64 + b) div 64 = a"
    by (rule mult_add_div mult_add_mod; use r in simp)+
  have p: "?c div 4096 = a * 64 + b" "?c div 262144 = a"
    by (simp_all only: div_4096 [OF r(7,8)] div_262144 [OF r(7,8)] div_4096 [OF r(5,6)] q)
  have "0x10000 \<le> ?c" using r ab(1) by (cases "a = 0") auto
  then have "utf8_encode ?c = [char_of (0xf0 + a), char_of (0x80 + b), char_of (0x80 + d), char_of (0x80 + e)]"
    by (simp only: utf8_encode_wide p q)
  also have "\<dots> = [x, y, z, w]"
    by (simp only: char_of_offset [OF a_def] char_of_offset [OF b_def] char_of_offset [OF d_def] char_of_offset [OF e_def])
  finally have "utf8_encode ?c = [x, y, z, w]" .
  moreover have "scalar_value ?c"
    using r ab(2) \<open>0x10000 \<le> ?c\<close> by (cases "a = 4") (auto simp: scalar_value_def)
  ultimately show ?thesis by metis
qed

definition utf8_text :: "string \<Rightarrow> bool" where
  "utf8_text s \<longleftrightarrow> (\<exists>cs. list_all scalar_value cs \<and> s = concat (map utf8_encode cs))"

lemma utf8_text_append:
  assumes "\<exists>c. scalar_value c \<and> b = utf8_encode c" "utf8_text s"
  shows "utf8_text (b @ s)"
proof -
  from assms obtain c cs where "scalar_value c \<and> b = utf8_encode c" "list_all scalar_value cs \<and> s = concat (map utf8_encode cs)"
    by (auto simp: utf8_text_def)
  then show ?thesis unfolding utf8_text_def by (intro exI [of _ "c # cs"]) simp
qed

lemma utf8_ok_text: "utf8_ok s \<Longrightarrow> utf8_text s"
proof (induction s rule: utf8_ok.induct)
  case 1
  show ?case unfolding utf8_text_def by (intro exI [of _ "[]"]) simp
next
  case (2 x rest)
  let ?f = "of_char x :: int"
  from "2.prems" consider "?f < 0x80" | "\<not> ?f < 0x80" "0xc2 \<le> ?f" "?f \<le> 0xdf"
    | "\<not> ?f < 0x80" "\<not> (0xc2 \<le> ?f \<and> ?f \<le> 0xdf)" "0xe0 \<le> ?f" "?f \<le> 0xef"
    | "\<not> ?f < 0x80" "\<not> (0xc2 \<le> ?f \<and> ?f \<le> 0xdf)" "\<not> (0xe0 \<le> ?f \<and> ?f \<le> 0xef)" "0xf0 \<le> ?f" "?f \<le> 0xf4"
    by (auto simp: Let_def split: if_splits)
  then show ?case
  proof cases
    case 1
    then have "scalar_value ?f \<and> [x] = utf8_encode ?f" by (simp add: scalar_value_def utf8_encode_def)
    then have "\<exists>c. scalar_value c \<and> [x] = utf8_encode c" by blast
    moreover have "utf8_text rest" using 1 "2.prems" "2.IH"(1) [OF refl] by simp
    ultimately show ?thesis using utf8_text_append [of "[x]" rest] by simp
  next
    case c: 2
    then obtain y r where "rest = y # r" "continuation y" "utf8_ok r"
      using "2.prems" by (auto simp: Let_def split: list.splits)
    then show ?thesis
      using c "2.IH"(2) [OF refl c(1)] utf8_encode_two [OF c(2,3)] utf8_text_append [of "[x, y]" r] by auto
  next
    case c: 3
    then obtain y z r where y: "rest = y # z # r" "continuation z" "utf8_ok r"
      "if ?f = 0xe0 then \<not> (of_char y < (0xa0 :: int) \<or> of_char y > (0xbf :: int))
         else if ?f = 0xed then \<not> (of_char y < (0x80 :: int) \<or> of_char y > (0x9f :: int)) else continuation y"
      using "2.prems" by (auto simp: Let_def split: list.splits if_splits)
    then show ?thesis
      using c "2.IH"(3) [OF refl c(1) c(2)] utf8_encode_three [OF c(3,4) y(2,4)] utf8_text_append [of "[x, y, z]" r]
      by auto
  next
    case c: 4
    then obtain y z w r where y: "rest = y # z # w # r" "continuation z" "continuation w" "utf8_ok r"
      "if ?f = 0xf0 then \<not> (of_char y < (0x90 :: int) \<or> of_char y > (0xbf :: int))
         else if ?f = 0xf4 then \<not> (of_char y < (0x80 :: int) \<or> of_char y > (0x8f :: int)) else continuation y"
      using "2.prems" by (auto simp: Let_def split: list.splits if_splits)
    then show ?thesis
      using c "2.IH"(4) [OF refl c(1-3)] utf8_encode_four [OF c(4,5) y(2,3,5)] utf8_text_append [of "[x, y, z, w]" r]
      by auto
  qed
qed

text \<open>C13. The check of decoded strings is right: it accepts a string exactly when the string is the
  UTF-8 encoding of a sequence of Unicode scalar values, so overlong forms, surrogates, values
  above U+10FFFF and truncated sequences are all refused, and nothing else is. The loop over indices of the source
  decides the same, and none of its look-ahead accesses is out of range.\<close>

theorem utf8_ok_iff_encoded:
  "(utf8_ok s \<longleftrightarrow> (\<exists>cs. list_all scalar_value cs \<and> s = concat (map utf8_encode cs))) \<and>
   validate_utf8 s 0 = Inr (utf8_ok s)"
proof (intro conjI iffI)
  assume "utf8_ok s"
  then show "\<exists>cs. list_all scalar_value cs \<and> s = concat (map utf8_encode cs)"
    using utf8_ok_text [of s] by (simp add: utf8_text_def)
next
  assume "\<exists>cs. list_all scalar_value cs \<and> s = concat (map utf8_encode cs)"
  then obtain cs where "list_all scalar_value cs" "s = concat (map utf8_encode cs)" by blast
  then show "utf8_ok s" by (induction cs arbitrary: s) (simp_all add: utf8_ok_encode)
qed (simp add: validate_utf8_eq)

end
