(* ===== verification/WireReader.thy ===== *)
theory WireReader
  imports Utf8
begin

text \<open>
  The bounds-checked reader over the payload of a portable MIR document (class \<^verbatim>\<open>Reader\<close> of
  \<^verbatim>\<open>runtime/src/portable_mir_v2_reader.cpp\<close>), its scalars, strings and lists, and the two laws every
  field reader obeys: what it accepts is what the encoder writes (\<open>accepts\<close>), and it reads back what
  the encoder wrote (\<open>parses\<close>), as long as the resource limits of the reader are not met.
  The locale \<open>codec\<close> is the contract between a field and the lists of such fields.
\<close>

unbundle bit_operations_syntax

section \<open>The reader\<close>

text \<open>\<open>r_bytes\<close> is what is left of \<^verbatim>\<open>bytes_\<close> from \<^verbatim>\<open>position_\<close> on. The nesting depth \<^verbatim>\<open>depth_\<close> follows the
  lifetime of the \<^verbatim>\<open>Depth\<close> objects, so it is an argument of the readers.\<close>

record Reader =
  r_bytes :: string
  r_position :: int
  r_values :: int
  r_total_string_bytes :: int
  r_list_storage_bytes :: int
  r_peak :: nat

type_synonym 'a reader = "Reader \<Rightarrow> std_error + 'a \<times> Reader"

definition rd_return :: "'a \<Rightarrow> 'a reader" where
  "rd_return x = (\<lambda>r. Inr (x, r))"

definition rd_bind :: "'a reader \<Rightarrow> ('a \<Rightarrow> 'b reader) \<Rightarrow> 'b reader" where
  "rd_bind m f = (\<lambda>r. case m r of Inl e \<Rightarrow> Inl e | Inr (x, r') \<Rightarrow> f x r')"

definition rd_fail :: "string \<Rightarrow> 'a reader" where
  "rd_fail message = (\<lambda>r. Inl (fail_wire (r_position r) message))"

lemma rd_bind_cong [fundef_cong]:
  "m = m' \<Longrightarrow> (\<And>x. f x = f' x) \<Longrightarrow> rd_bind m f = rd_bind m' f'"
  by (simp add: rd_bind_def fun_eq_iff split: sum.splits)

definition kMaxStringBytes :: int where "kMaxStringBytes = 16 * 1024 * 1024"
definition kMaxTotalStringBytes :: int where "kMaxTotalStringBytes = 256 * 1024 * 1024"
definition kMaxListStorageBytes :: int where "kMaxListStorageBytes = 256 * 1024 * 1024"
definition kMaxListItems :: int where "kMaxListItems = 1000000"
definition kMaxValues :: int where "kMaxValues = 10000000"

definition open_reader :: "string \<Rightarrow> std_error + Reader" where
  "open_reader bytes =
     (if int (length bytes) > kMaxInputBytes
      then Inl (fail_wire 0 ''input exceeds 268435456 bytes'')
      else Inr \<lparr>r_bytes = bytes, r_position = 0, r_values = 0, r_total_string_bytes = 0,
                r_list_storage_bytes = 0, r_peak = 0\<rparr>)"

definition finish :: "unit reader" where
  "finish = (\<lambda>r. if r_bytes r \<noteq> [] then rd_fail ''trailing bytes'' r else Inr ((), r))"

definition at_end :: "Reader \<Rightarrow> bool" where
  "at_end r \<longleftrightarrow> r_bytes r = []"

definition count_value :: "unit reader" where
  "count_value = (\<lambda>r. let r' = r\<lparr>r_values := r_values r + 1\<rparr> in
     if r_values r' > kMaxValues then rd_fail ''document exceeds 10000000 values'' r' else Inr ((), r'))"

text \<open>A computation on the state's value only, \<^verbatim>\<open>require(n)\<close>, and the access to the next \<open>n\<close> bytes with the
  advance of the position, which is not checked again.\<close>

definition rd_lift :: "std_error + 'a \<Rightarrow> 'a reader" where
  "rd_lift m = (\<lambda>r. case m of Inl e \<Rightarrow> Inl e | Inr x \<Rightarrow> Inr (x, r))"

definition rd_require :: "nat \<Rightarrow> unit reader" where
  "rd_require n = (\<lambda>r. if n > length (r_bytes r) then rd_fail ''truncated input'' r else Inr ((), r))"

definition rd_advance :: "nat \<Rightarrow> string reader" where
  "rd_advance n = (\<lambda>r. case elem_run (r_bytes r) 0 (int n) of
       Inl e \<Rightarrow> Inl e
     | Inr bs \<Rightarrow> Inr (bs, r\<lparr>r_bytes := drop n (r_bytes r), r_position := r_position r + int n\<rparr>))"

definition rd_take :: "nat \<Rightarrow> string reader" where
  "rd_take n = rd_bind (rd_require n) (\<lambda>_. rd_advance n)"

lemma rd_advance_in:
  "n \<le> length (r_bytes r) \<Longrightarrow>
    rd_advance n r = Inr (take n (r_bytes r), r\<lparr>r_bytes := drop n (r_bytes r), r_position := r_position r + int n\<rparr>)"
  by (simp add: rd_advance_def)

lemma rd_take_eq:
  "rd_take n = (\<lambda>r. if n > length (r_bytes r) then rd_fail ''truncated input'' r
     else Inr (take n (r_bytes r), r\<lparr>r_bytes := drop n (r_bytes r), r_position := r_position r + int n\<rparr>))"
  by (auto simp: rd_take_def rd_bind_def rd_require_def rd_advance_def rd_fail_def fun_eq_iff)

definition rd_u8 :: "int reader" where
  "rd_u8 = rd_bind count_value (\<lambda>_. rd_bind (rd_take 1) (\<lambda>bs. rd_bind (rd_lift (access bs 0)) (\<lambda>b. rd_return (of_char b))))"

lemma rd_u8_eq: "rd_u8 = rd_bind count_value (\<lambda>_. rd_bind (rd_take 1) (\<lambda>bs. rd_return (of_char (hd bs))))"
proof -
  have "rd_bind (rd_take 1) (\<lambda>bs. rd_bind (rd_lift (access bs 0)) (\<lambda>b. rd_return (of_char b))) r =
      rd_bind (rd_take 1) (\<lambda>bs. rd_return (of_char (hd bs))) r" for r
    by (cases "r_bytes r") (auto simp: rd_take_eq rd_bind_def rd_lift_def rd_fail_def)
  then show ?thesis unfolding rd_u8_def by (intro rd_bind_cong refl ext)
qed

definition rd_boolean :: "bool reader" where
  "rd_boolean = rd_bind rd_u8 (\<lambda>value.
     if value > 1 then rd_fail ''boolean is not 0 or 1'' else rd_return (value \<noteq> 0))"

text \<open>The little-endian loop of \<^verbatim>\<open>u32\<close> and \<^verbatim>\<open>f64\<close>.\<close>

fun or_bytes :: "int \<Rightarrow> nat \<Rightarrow> string \<Rightarrow> int" where
  "or_bytes value i [] = value"
| "or_bytes value i (b # bs) = or_bytes (value OR push_bit (i * 8) (of_char b)) (Suc i) bs"

definition rd_u32 :: "int reader" where
  "rd_u32 = rd_bind count_value (\<lambda>_. rd_bind (rd_take 4) (\<lambda>bs. rd_return (or_bytes 0 0 bs)))"

definition rd_i32 :: "int reader" where
  "rd_i32 = rd_bind rd_u32 (\<lambda>bits. rd_return (signed_take_bit 31 bits))"

type_synonym binary64 = "64 word"  \<comment> \<open>a \<^verbatim>\<open>double\<close>, by its IEEE-754 bits\<close>

definition rd_f64 :: "binary64 reader" where
  "rd_f64 = rd_bind count_value (\<lambda>_. rd_bind (rd_take 8) (\<lambda>bs.
     rd_return (word_of_int (or_bytes 0 0 bs))))"

subsection \<open>Strings\<close>

definition rd_validate_utf8 :: "string \<Rightarrow> unit reader" where
  "rd_validate_utf8 s = rd_bind (rd_lift (validate_utf8 s 0)) (\<lambda>ok.
     if ok then rd_return () else rd_fail ''invalid UTF-8 string'')"

text \<open>\<^verbatim>\<open>substr\<close> keeps what there is, so it is \<^verbatim>\<open>require\<close> that gives the string its length.\<close>

definition rd_string :: "string reader" where
  "rd_string = rd_bind rd_u32 (\<lambda>size r.
     if size > kMaxStringBytes then rd_fail ''string exceeds 16777216 bytes'' r
     else if size > kMaxTotalStringBytes - r_total_string_bytes r
     then rd_fail ''decoded strings exceed 268435456 bytes'' r
     else rd_bind (rd_require (nat size)) (\<lambda>_ r. rd_bind (rd_validate_utf8 (take (nat size) (r_bytes r))) (\<lambda>_.
       rd_bind (rd_advance (nat size)) (\<lambda>s r.
         Inr (s, r\<lparr>r_total_string_bytes := r_total_string_bytes r + size\<rparr>))) r) r)"

lemma rd_string_eq:
  "rd_string = rd_bind rd_u32 (\<lambda>size r.
     if size > kMaxStringBytes then rd_fail ''string exceeds 16777216 bytes'' r
     else if size > kMaxTotalStringBytes - r_total_string_bytes r
     then rd_fail ''decoded strings exceed 268435456 bytes'' r
     else if nat size > length (r_bytes r) then rd_fail ''truncated input'' r
     else if \<not> utf8_ok (take (nat size) (r_bytes r)) then rd_fail ''invalid UTF-8 string'' r
     else rd_bind (rd_take (nat size)) (\<lambda>s r.
       Inr (s, r\<lparr>r_total_string_bytes := r_total_string_bytes r + size\<rparr>)) r)"
  unfolding rd_string_def
  by (rule arg_cong2 [of _ _ _ _ rd_bind, OF refl])
    (simp add: fun_eq_iff rd_bind_def rd_require_def rd_advance_in rd_validate_utf8_def rd_lift_def rd_return_def
      rd_take_eq rd_fail_def validate_utf8_eq not_less)

subsection \<open>Lists and nesting\<close>

text \<open>The platform: the nesting limit of the calling thread, the sizes of the decoded types and the
  conversion of a \<^verbatim>\<open>long\<close> to \<^verbatim>\<open>double\<close>.\<close>

record Platform =
  nesting_limit :: nat
  sizeof_Expr :: int
  sizeof_Stmt :: int
  sizeof_FunDef :: int
  sizeof_UnsizedView :: int
  sizeof_bool :: int
  sizeof_string :: int
  sizeof_input :: int
  long_to_double :: "int \<Rightarrow> binary64"

definition with_depth :: "Platform \<Rightarrow> nat \<Rightarrow> (nat \<Rightarrow> 'a reader) \<Rightarrow> 'a reader" where
  "with_depth P depth body = (\<lambda>r.
     if depth \<ge> 2 * nesting_limit P
     then Inl (NestingTooDeep (''portable mir v2: nested too deeply (more than '' @
            show_nat (nesting_limit P) @ '' levels)''))
     else body (Suc depth) (r\<lparr>r_peak := max (r_peak r) (Suc depth)\<rparr>))"

lemma with_depth_cong [fundef_cong]:
  "P = P' \<Longrightarrow> d = d' \<Longrightarrow> (d' < 2 * nesting_limit P' \<Longrightarrow> body (Suc d') = body' (Suc d')) \<Longrightarrow>
    with_depth P d body = with_depth P' d' body'"
  by (auto simp: with_depth_def fun_eq_iff)

definition rd_list_size :: "int reader" where
  "rd_list_size = rd_bind rd_u32 (\<lambda>size r.
     if size > kMaxListItems then rd_fail ''list exceeds 1000000 items'' r
     else if size > int (length (r_bytes r)) then rd_fail ''list count exceeds remaining input'' r
     else Inr (size, r))"

primrec rd_repeat :: "nat \<Rightarrow> 'a reader \<Rightarrow> 'a list reader" where
  "rd_repeat 0 rd = rd_return []"
| "rd_repeat (Suc n) rd = rd_bind rd (\<lambda>x. rd_bind (rd_repeat n rd) (\<lambda>xs. rd_return (x # xs)))"

definition rd_list :: "Platform \<Rightarrow> int \<Rightarrow> (nat \<Rightarrow> 'a reader) \<Rightarrow> nat \<Rightarrow> 'a list reader" where
  "rd_list P sizeof_T rd = (\<lambda>depth. with_depth P depth (\<lambda>depth. rd_bind rd_list_size (\<lambda>size r.
     if size > (kMaxListStorageBytes - r_list_storage_bytes r) div sizeof_T
     then rd_fail ''decoded list storage exceeds 268435456 bytes'' r
     else rd_repeat (nat size) (rd depth)
            (r\<lparr>r_list_storage_bytes := r_list_storage_bytes r + size * sizeof_T\<rparr>))))"

lemma rd_list_cong [fundef_cong]:
  "P = P' \<Longrightarrow> sz = sz' \<Longrightarrow> d = d' \<Longrightarrow> (d' < 2 * nesting_limit P' \<Longrightarrow> rd (Suc d') = rd' (Suc d')) \<Longrightarrow>
    rd_list P sz rd d = rd_list P' sz' rd' d'"
  unfolding rd_list_def by (intro with_depth_cong; simp cong: if_cong)

definition read_tag :: "'a list \<Rightarrow> string \<Rightarrow> 'a reader" where
  "read_tag values diagnostic = rd_bind rd_u8 (\<lambda>tag.
     if tag \<ge> int (length values) then rd_fail diagnostic else rd_lift (access values (nat tag)))"

lemma rd_u8_range: "rd_u8 r = Inr (x, r') \<Longrightarrow> 0 \<le> x"
  by (auto simp: rd_u8_eq rd_bind_def count_value_def rd_take_eq rd_return_def rd_fail_def Let_def split: if_splits)

lemma read_tag_eq:
  "read_tag values diagnostic = rd_bind rd_u8 (\<lambda>tag.
     if tag \<ge> int (length values) then rd_fail diagnostic else rd_return (values ! nat tag))"
  by (auto simp: read_tag_def rd_bind_def rd_lift_def rd_return_def access_def fun_eq_iff nat_less_iff
      dest: rd_u8_range split: sum.splits)

section \<open>The wire format\<close>

text \<open>What the encoder of the compiler plug-in (\<^verbatim>\<open>compiler/ocaml/portable_mir.ml\<close>) writes for the scalars,
  strings and lists of a document; a value that does not fit its field makes it raise instead, and
  the laws below ask for values that fit.\<close>

definition add_le :: "nat \<Rightarrow> int \<Rightarrow> string" where
  "add_le n value = map (\<lambda>k. char_of (drop_bit (k * 8) value)) [0..<n]"

definition add_u8 :: "int \<Rightarrow> string" where
  "add_u8 value = [char_of value]"

definition add_u32 :: "int \<Rightarrow> string" where
  "add_u32 value = add_le 4 value"

definition add_i64_bits :: "binary64 \<Rightarrow> string" where
  "add_i64_bits value = add_le 8 (uint value)"

definition add_v2_string :: "string \<Rightarrow> string" where
  "add_v2_string s = add_u32 (int (length s)) @ s"

definition add_v2_bool :: "bool \<Rightarrow> string" where
  "add_v2_bool b = add_u8 (if b then 1 else 0)"

definition add_v2_list :: "('a \<Rightarrow> string) \<Rightarrow> 'a list \<Rightarrow> string" where
  "add_v2_list add_item items = add_u32 (int (length items)) @ concat (map add_item items)"

lemma length_add_le [simp]: "length (add_le n value) = n"
  by (simp add: add_le_def)

lemma bit_of_char: "bit (of_char c :: int) m \<Longrightarrow> m < 8"
proof -
  have "of_char c = (take_bit 8 (of_char c) :: int)" by (simp add: take_bit_eq_mod)
  then show "bit (of_char c :: int) m \<Longrightarrow> m < 8" by (metis bit_take_bit_iff)
qed

lemma bit_or_bytes:
  "bit (or_bytes v i bs) m \<longleftrightarrow>
     bit v m \<or> (\<exists>k < length bs. (i + k) * 8 \<le> m \<and> bit (of_char (bs ! k) :: int) (m - (i + k) * 8))"
proof (induction v i bs rule: or_bytes.induct)
  case (2 v i b bs)
  let ?P = "\<lambda>k c. (i + k) * 8 \<le> m \<and> bit (of_char c :: int) (m - (i + k) * 8)"
  have "(\<exists>k < length (b # bs). ?P k ((b # bs) ! k)) \<longleftrightarrow> ?P 0 b \<or> (\<exists>k < length bs. ?P (Suc k) (bs ! k))"
    by (simp only: length_Cons Ex_less_Suc2 nth_Cons_0 nth_Cons_Suc)
  then show ?case
    by (simp only: or_bytes.simps "2.IH" bit_or_iff bit_push_bit_iff_int add_Suc_right add_Suc add_0_right)
      blast
qed simp

lemma or_bytes_add_le: "or_bytes 0 0 (add_le n x) = take_bit (n * 8) x"
proof (rule bit_eqI)
  fix m
  have "bit (of_char (char_of (drop_bit (k * 8) x) :: char) :: int) j \<longleftrightarrow> j < 8 \<and> bit x (k * 8 + j)" for k j
    by (simp add: take_bit_eq_mod [of 8, simplified, symmetric] bit_take_bit_iff bit_drop_bit_eq)
  then have "bit (or_bytes 0 0 (add_le n x)) m \<longleftrightarrow> (\<exists>k < n. k * 8 \<le> m \<and> m - k * 8 < 8 \<and> bit x m)"
    by (auto simp: bit_or_bytes add_le_def)
  also have "\<dots> \<longleftrightarrow> m < n * 8 \<and> bit x m"
    by (auto intro!: exI [of _ "m div 8"])
  finally show "bit (or_bytes 0 0 (add_le n x)) m \<longleftrightarrow> bit (take_bit (n * 8) x) m"
    by (simp add: bit_take_bit_iff)
qed

lemma add_le_or_bytes: "add_le (length bs) (or_bytes 0 0 bs) = bs"
proof (rule nth_equalityI)
  fix k assume "k < length (add_le (length bs) (or_bytes 0 0 bs))"
  then have k: "k < length bs" by simp
  have "take_bit 8 (drop_bit (k * 8) (or_bytes 0 0 bs)) = of_char (bs ! k)"
  proof (rule bit_eqI)
    fix m
    have "(\<exists>j < length bs. j * 8 \<le> k * 8 + m \<and> bit (of_char (bs ! j) :: int) (k * 8 + m - j * 8)) \<longleftrightarrow>
          bit (of_char (bs ! k) :: int) m" if "m < 8"
    proof -
      have at: "j = k" if "j * 8 \<le> k * 8 + m" "bit (of_char (bs ! j) :: int) (k * 8 + m - j * 8)" for j
        using that \<open>m < 8\<close> bit_of_char [of "bs ! j" "k * 8 + m - j * 8"] by linarith
      show ?thesis
      proof
        assume "\<exists>j < length bs. j * 8 \<le> k * 8 + m \<and> bit (of_char (bs ! j) :: int) (k * 8 + m - j * 8)"
        then obtain j where "j * 8 \<le> k * 8 + m" "bit (of_char (bs ! j) :: int) (k * 8 + m - j * 8)" by blast
        with at [of j] show "bit (of_char (bs ! k) :: int) m" by simp
      qed (use k in \<open>auto intro!: exI [of _ k]\<close>)
    qed
    then show "bit (take_bit 8 (drop_bit (k * 8) (or_bytes 0 0 bs))) m \<longleftrightarrow> bit (of_char (bs ! k) :: int) m"
      using bit_of_char [of "bs ! k" m]
      by (auto simp: bit_take_bit_iff bit_drop_bit_eq bit_or_bytes)
  qed
  with k show "add_le (length bs) (or_bytes 0 0 bs) ! k = bs ! k"
    by (simp add: add_le_def char_of_eq_iff)
qed simp

lemma or_bytes_bounds: "0 \<le> or_bytes 0 0 bs" "or_bytes 0 0 bs < 2 ^ (length bs * 8)"
proof -
  have e: "or_bytes 0 0 bs = take_bit (length bs * 8) (or_bytes 0 0 bs)"
    using or_bytes_add_le [of "length bs" "or_bytes 0 0 bs"] by (simp add: add_le_or_bytes)
  show "0 \<le> or_bytes 0 0 bs" by (subst e) simp
  show "or_bytes 0 0 bs < 2 ^ (length bs * 8)" by (subst e) simp
qed

section \<open>The laws of a reader\<close>

text \<open>What a successful read says of the bytes it consumed: they are what the encoder writes for the
  value, the value fits its field, and the peak depth grows by the depth of the value.\<close>

definition accepts :: "'a reader \<Rightarrow> ('a \<Rightarrow> string \<Rightarrow> nat \<Rightarrow> bool) \<Rightarrow> bool" where
  "accepts rd Q \<longleftrightarrow> (\<forall>r x r'. rd r = Inr (x, r') \<longrightarrow>
     (\<exists>w k. Q x w k \<and> r_bytes r = w @ r_bytes r' \<and> r_peak r' = max (r_peak r) k))"

text \<open>The resources a field of \<open>n\<close> bytes may take. An item of a list occupies at least one byte, so
  a document of \<open>n\<close> bytes stores fewer than \<open>n\<close> items of at most \<open>M\<close> bytes each.\<close>

definition budget :: "int \<Rightarrow> nat \<Rightarrow> Reader \<Rightarrow> bool" where
  "budget M n r \<longleftrightarrow> r_values r + int n \<le> kMaxValues \<and>
     r_total_string_bytes r + int n \<le> kMaxTotalStringBytes \<and>
     r_list_storage_bytes r + M * int (n - 1) \<le> kMaxListStorageBytes"

definition spent :: "int \<Rightarrow> nat \<Rightarrow> Reader \<Rightarrow> Reader \<Rightarrow> bool" where
  "spent M n r r' \<longleftrightarrow> r_values r' \<le> r_values r + int n \<and>
     r_total_string_bytes r' \<le> r_total_string_bytes r + int n \<and>
     r_list_storage_bytes r' \<le> r_list_storage_bytes r + M * int (n - 1)"

definition parses :: "int \<Rightarrow> 'a reader \<Rightarrow> string \<Rightarrow> nat \<Rightarrow> 'a \<Rightarrow> bool" where
  "parses M rd w k x \<longleftrightarrow> (\<forall>r s. 0 \<le> M \<longrightarrow> r_bytes r = w @ s \<longrightarrow> budget M (length w) r \<longrightarrow>
     (\<exists>r'. rd r = Inr (x, r') \<and> r_bytes r' = s \<and> r_peak r' = max (r_peak r) k \<and>
           spent M (length w) r r'))"

lemma acceptsI:
  "(\<And>r x r'. rd r = Inr (x, r') \<Longrightarrow>
     \<exists>w k. Q x w k \<and> r_bytes r = w @ r_bytes r' \<and> r_peak r' = max (r_peak r) k) \<Longrightarrow> accepts rd Q"
  unfolding accepts_def by blast

lemma acceptsE:
  assumes "accepts rd Q" "rd r = Inr (x, r')"
  obtains w k where "Q x w k" "r_bytes r = w @ r_bytes r'" "r_peak r' = max (r_peak r) k"
  using assms unfolding accepts_def by blast

lemma accepts_return: "Q x [] 0 \<Longrightarrow> accepts (rd_return x) Q"
  by (auto simp: accepts_def rd_return_def)

lemma accepts_fail: "accepts (rd_fail m) Q"
  by (simp add: accepts_def rd_fail_def)

lemma rd_bind_InrE:
  assumes "rd_bind m f r = Inr (y, r')"
  obtains x r1 where "m r = Inr (x, r1)" "f x r1 = Inr (y, r')"
  using assms by (auto simp: rd_bind_def split: sum.splits)

text \<open>Sequencing, in the style of a continuation: the bytes of the first field are put in front.\<close>

lemma accepts_bind:
  assumes m: "accepts m Q" and f: "\<And>x w k. Q x w k \<Longrightarrow> accepts (f x) (\<lambda>y w' k'. R y (w @ w') (max k k'))"
  shows "accepts (rd_bind m f) R"
proof (rule acceptsI)
  fix r y r' assume "rd_bind m f r = Inr (y, r')"
  then obtain x r1 where 1: "m r = Inr (x, r1)" and 2: "f x r1 = Inr (y, r')" by (rule rd_bind_InrE)
  from m 1 obtain w k where w: "Q x w k" "r_bytes r = w @ r_bytes r1" "r_peak r1 = max (r_peak r) k"
    by (rule acceptsE)
  from f [OF w(1)] 2 obtain w' k' where "R y (w @ w') (max k k')" "r_bytes r1 = w' @ r_bytes r'"
      "r_peak r' = max (r_peak r1) k'"
    by (rule acceptsE)
  with w show "\<exists>w k. R y w k \<and> r_bytes r = w @ r_bytes r' \<and> r_peak r' = max (r_peak r) k"
    by (intro exI [of _ "w @ w'"] exI [of _ "max k k'"]) (simp add: max.assoc)
qed

lemma accepts_mono: "accepts rd Q \<Longrightarrow> (\<And>x w k. Q x w k \<Longrightarrow> R x w k) \<Longrightarrow> accepts rd R"
  unfolding accepts_def by blast

lemma budget_append:
  "0 \<le> M \<Longrightarrow> budget M (a + b) r \<Longrightarrow> budget M a r"
  by (auto simp: budget_def elim!: order_trans [rotated] intro!: mult_left_mono)

lemma spent_budget:
  assumes "0 \<le> M" "budget M (a + b) r" "spent M a r r'"
  shows "budget M b r'"
proof -
  have "M * int (a - 1) + M * int (b - 1) \<le> M * int (a + b - 1)"
    unfolding distrib_left [symmetric] using assms(1) by (intro mult_left_mono) simp_all
  with assms(2,3) show ?thesis by (auto simp: budget_def spent_def)
qed

lemma spent_trans:
  assumes "0 \<le> M" "spent M a r r1" "spent M b r1 r2"
  shows "spent M (a + b) r r2"
proof -
  have "M * int (a - 1) + M * int (b - 1) \<le> M * int (a + b - 1)"
    unfolding distrib_left [symmetric] using assms(1) by (intro mult_left_mono) simp_all
  with assms(2,3) show ?thesis by (auto simp: spent_def)
qed

lemma parses_return: "parses M (rd_return x) [] 0 x"
  by (simp add: parses_def rd_return_def spent_def)

lemma parses_bind:
  assumes m: "parses M m w k x" and f: "parses M (f x) w' k' y"
    and eq: "v = w @ w'" "l = max k k'"
  shows "parses M (rd_bind m f) v l y"
  unfolding parses_def eq
proof (intro allI impI)
  fix r s assume M: "0 \<le> M" and r: "r_bytes r = (w @ w') @ s" "budget M (length (w @ w')) r"
  then have "budget M (length w) r" using budget_append [OF M] by simp
  with M r(1) m obtain r1 where 1: "m r = Inr (x, r1)" "r_bytes r1 = w' @ s" "r_peak r1 = max (r_peak r) k"
      "spent M (length w) r r1"
    unfolding parses_def by auto
  have "budget M (length w') r1" using spent_budget [OF M _ 1(4)] r(2) by simp
  with M 1(2) f obtain r2 where 2: "f x r1 = Inr (y, r2)" "r_bytes r2 = s" "r_peak r2 = max (r_peak r1) k'"
      "spent M (length w') r1 r2"
    unfolding parses_def by blast
  show "\<exists>r'. rd_bind m f r = Inr (y, r') \<and> r_bytes r' = s \<and> r_peak r' = max (r_peak r) (max k k') \<and>
          spent M (length (w @ w')) r r'"
    using 1 2 spent_trans [OF M 1(4) 2(4)] by (auto simp: rd_bind_def max.assoc)
qed

subsection \<open>Scalars and strings\<close>

lemma accepts_take: "accepts (rd_take n) (\<lambda>bs w k. w = bs \<and> length bs = n \<and> k = 0)"
  by (auto simp: accepts_def rd_take_eq rd_fail_def split: if_splits)

lemma accepts_count: "accepts count_value (\<lambda>_ w k. w = [] \<and> k = 0)"
  by (auto simp: accepts_def count_value_def rd_fail_def Let_def split: if_splits)

text \<open>A scalar: the count and the bytes together.\<close>

lemma accepts_scalar:
  assumes "\<And>bs. length bs = n \<Longrightarrow> Q (f bs) bs 0"
  shows "accepts (rd_bind count_value (\<lambda>_. rd_bind (rd_take n) (\<lambda>bs. rd_return (f bs)))) Q"
  by (rule accepts_bind [OF accepts_count], rule accepts_bind [OF accepts_take], rule accepts_return)
    (use assms in auto)

lemma parses_scalar:
  assumes "length w = n" "0 < n" "f w = x"
  shows "parses M (rd_bind count_value (\<lambda>_. rd_bind (rd_take n) (\<lambda>bs. rd_return (f bs)))) w 0 x"
  using assms
  by (auto simp: parses_def rd_bind_def count_value_def rd_take_eq rd_return_def budget_def spent_def Let_def)

lemma accepts_u8: "accepts rd_u8 (\<lambda>x w k. 0 \<le> x \<and> x < 256 \<and> w = add_u8 x \<and> k = 0)"
  unfolding rd_u8_eq by (rule accepts_scalar) (auto simp: add_u8_def length_Suc_conv)

lemma accepts_u32: "accepts rd_u32 (\<lambda>x w k. 0 \<le> x \<and> x < 2 ^ 32 \<and> w = add_u32 x \<and> k = 0)"
  unfolding rd_u32_def
proof (rule accepts_scalar)
  fix bs :: string assume "length bs = 4"
  then show "0 \<le> or_bytes 0 0 bs \<and> or_bytes 0 0 bs < 2 ^ 32 \<and> bs = add_u32 (or_bytes 0 0 bs) \<and> (0 :: nat) = 0"
    using or_bytes_bounds [of bs] add_le_or_bytes [of bs] by (simp add: add_u32_def)
qed

lemma accepts_f64: "accepts rd_f64 (\<lambda>x w k. w = add_i64_bits x \<and> k = 0)"
  unfolding rd_f64_def
proof (rule accepts_scalar)
  fix bs :: string assume "length bs = 8"
  then show "bs = add_i64_bits (word_of_int (or_bytes 0 0 bs)) \<and> (0 :: nat) = 0"
    using or_bytes_bounds [of bs] add_le_or_bytes [of bs]
    by (simp add: add_i64_bits_def uint_word_of_int)
qed

lemma add_le_take_bit: "add_le n (take_bit (n * 8) x) = add_le n x"
  by (metis add_le_or_bytes length_add_le or_bytes_add_le)

lemma accepts_i32: "accepts rd_i32 (\<lambda>x w k. - (2 ^ 31) \<le> x \<and> x < 2 ^ 31 \<and> w = add_u32 x \<and> k = 0)"
  unfolding rd_i32_def
proof (rule accepts_bind [OF accepts_u32], rule accepts_return)
  fix x w and k :: nat assume "0 \<le> x \<and> x < 2 ^ 32 \<and> w = add_u32 x \<and> k = 0"
  then have w: "w = add_u32 x" and k: "k = 0" by simp_all
  have "take_bit 32 (signed_take_bit 31 x) = take_bit 32 x" by (simp add: take_bit_signed_take_bit)
  then have "add_u32 (signed_take_bit 31 x) = add_u32 x"
    using add_le_take_bit [of 4 x] add_le_take_bit [of 4 "signed_take_bit 31 x"] by (simp add: add_u32_def)
  then show "- (2 ^ 31) \<le> signed_take_bit 31 x \<and> signed_take_bit 31 x < 2 ^ 31 \<and>
      w @ [] = add_u32 (signed_take_bit 31 x) \<and> max k 0 = 0"
    using w k signed_take_bit_int_greater_eq_minus_exp [of 31 x] signed_take_bit_int_less_exp [of 31 x]
    by simp
qed

lemma boolean_cases: "0 \<le> x \<Longrightarrow> \<not> 1 < x \<Longrightarrow> x \<noteq> 0 \<Longrightarrow> x = (1 :: int)"
  by simp

lemma accepts_boolean: "accepts rd_boolean (\<lambda>b w k. w = add_v2_bool b \<and> k = 0)"
  unfolding rd_boolean_def
  by (rule accepts_bind [OF accepts_u8])
    (auto simp: add_v2_bool_def accepts_fail zle_add1_eq_le intro!: accepts_return split: if_splits
      dest: boolean_cases)

lemma accepts_string:
  "accepts rd_string (\<lambda>s w k. utf8_ok s \<and> int (length s) \<le> kMaxStringBytes \<and> w = add_v2_string s \<and> k = 0)"
  unfolding rd_string_eq
  by (rule accepts_bind [OF accepts_u32])
    (auto simp: accepts_def rd_bind_def rd_take_eq rd_fail_def add_v2_string_def split: if_splits)

lemma parses_u8: "0 \<le> x \<Longrightarrow> x < 256 \<Longrightarrow> parses M rd_u8 (add_u8 x) 0 x"
  unfolding rd_u8_eq by (rule parses_scalar) (simp_all add: add_u8_def)

lemma parses_u32: "0 \<le> x \<Longrightarrow> x < 2 ^ 32 \<Longrightarrow> parses M rd_u32 (add_u32 x) 0 x"
  unfolding rd_u32_def
  by (rule parses_scalar) (simp_all add: add_u32_def or_bytes_add_le take_bit_int_eq_self)

lemma parses_f64: "parses M rd_f64 (add_i64_bits x) 0 x"
proof -
  have "take_bit 64 (uint x) = uint x"
    using uint_bounded [of x] by (intro take_bit_int_eq_self) simp_all
  then show ?thesis
    unfolding rd_f64_def
    by (intro parses_scalar) (simp_all add: add_i64_bits_def or_bytes_add_le)
qed

lemma parses_i32:
  assumes "- (2 ^ 31) \<le> x" "x < 2 ^ 31"
  shows "parses M rd_i32 (add_u32 x) 0 x"
proof -
  have "signed_take_bit 31 (take_bit 32 x) = x"
    using assms by (simp add: signed_take_bit_int_eq_self signed_take_bit_take_bit)
  moreover have "add_u32 (take_bit 32 x) = add_u32 x"
    using add_le_take_bit [of 4 x] by (simp add: add_u32_def)
  moreover have "parses M rd_u32 (add_u32 (take_bit 32 x)) 0 (take_bit 32 x)"
    using take_bit_int_less_exp [of 32 x] by (intro parses_u32) simp_all
  ultimately show ?thesis
    unfolding rd_i32_def
    by (intro parses_bind [where w = "add_u32 x" and w' = "[]" and x = "take_bit 32 x" and k = 0 and k' = 0])
      (simp_all add: parses_return)
qed

lemma parses_boolean: "parses M rd_boolean (add_v2_bool b) 0 b"
  unfolding rd_boolean_def
  by (rule parses_bind [where x = "if b then 1 else 0" and w = "add_v2_bool b" and w' = "[]" and k = 0 and k' = 0])
    (auto simp: parses_return add_v2_bool_def intro: parses_u8)

lemma length_add_v2_string [simp]: "length (add_v2_string s) = 4 + length s"
  by (simp add: add_v2_string_def add_u32_def)

lemma parses_string:
  assumes "utf8_ok s" "int (length s) \<le> kMaxStringBytes"
  shows "parses M rd_string (add_v2_string s) 0 s"
  unfolding parses_def
proof (intro allI impI)
  fix r t assume M: "0 \<le> M" and r: "r_bytes r = add_v2_string s @ t" "budget M (length (add_v2_string s)) r"
  have b: "r_bytes r = add_u32 (int (length s)) @ s @ t" using r(1) by (simp add: add_v2_string_def)
  have len: "0 \<le> int (length s)" "int (length s) < 2 ^ 32" using assms(2) by (simp_all add: kMaxStringBytes_def)
  have "budget M (length (add_u32 (int (length s)))) r"
    using r(2) by - (rule budget_append [OF M, of _ "length s" r], simp add: add_u32_def)
  with M parses_u32 [OF len, of M] b obtain r1 where 1: "rd_u32 r = Inr (int (length s), r1)" "r_bytes r1 = s @ t"
      "r_peak r1 = max (r_peak r) 0" "spent M (length (add_u32 (int (length s)))) r r1"
    unfolding parses_def by blast
  from r(2) 1(4) have "r_total_string_bytes r1 + int (length s) \<le> kMaxTotalStringBytes"
    by (simp add: budget_def spent_def add_u32_def)
  moreover have "spent M (length (add_v2_string s)) r
      (r1\<lparr>r_bytes := t, r_position := r_position r1 + int (length s),
          r_total_string_bytes := r_total_string_bytes r1 + int (length s)\<rparr>)"
    using 1(4) mult_left_mono [OF _ M, of 3 "int (3 + length s)"]
    by (auto simp: spent_def add_u32_def)
  ultimately show "\<exists>r'. rd_string r = Inr (s, r') \<and> r_bytes r' = t \<and> r_peak r' = max (r_peak r) 0 \<and>
      spent M (length (add_v2_string s)) r r'"
    using 1 assms by (simp add: rd_string_eq rd_bind_def rd_take_eq)
qed

subsection \<open>Tags, nesting and lists\<close>

lemma accepts_tag:
  "accepts (read_tag xs m) (\<lambda>x w k. \<exists>i < length xs. i < 256 \<and> x = xs ! i \<and> w = add_u8 (int i) \<and> k = 0)"
  unfolding read_tag_eq
proof (rule accepts_bind [OF accepts_u8])
  fix x w and k :: nat assume x: "0 \<le> x \<and> x < 256 \<and> w = add_u8 x \<and> k = 0"
  show "accepts (if int (length xs) \<le> x then rd_fail m else rd_return (xs ! nat x))
     (\<lambda>y w' k'. \<exists>i<length xs. i < 256 \<and> y = xs ! i \<and> w @ w' = add_u8 (int i) \<and> max k k' = 0)"
    using x by (auto intro!: accepts_fail accepts_return exI [of _ "nat x"])
qed

lemma parses_tag:
  "i < length xs \<Longrightarrow> i < 256 \<Longrightarrow> x = xs ! i \<Longrightarrow> parses M (read_tag xs m) (add_u8 (int i)) 0 x"
  unfolding read_tag_eq
  by (rule parses_bind [where x = "int i" and w = "add_u8 (int i)" and w' = "[]" and k = 0 and k' = 0])
    (auto intro!: parses_u8 simp: parses_return)

lemma accepts_depth:
  assumes "d < 2 * nesting_limit P \<Longrightarrow> accepts (body (Suc d)) Q"
    and "\<And>x w k. Q x w k \<Longrightarrow> Suc d \<le> 2 * nesting_limit P \<Longrightarrow> R x w (max (Suc d) k)"
  shows "accepts (with_depth P d body) R"
proof (rule acceptsI)
  fix r x r' assume a: "with_depth P d body r = Inr (x, r')"
  then have d: "Suc d \<le> 2 * nesting_limit P"
    and b: "body (Suc d) (r\<lparr>r_peak := max (r_peak r) (Suc d)\<rparr>) = Inr (x, r')"
    by (auto simp: with_depth_def split: if_splits)
  from assms(1) d have "accepts (body (Suc d)) Q" by simp
  from this b obtain w k where "Q x w k" "r_bytes r = w @ r_bytes r'"
      "r_peak r' = max (max (r_peak r) (Suc d)) k"
    by (rule acceptsE) simp
  with assms(2) d show "\<exists>w k. R x w k \<and> r_bytes r = w @ r_bytes r' \<and> r_peak r' = max (r_peak r) k"
    by (intro exI [of _ w] exI [of _ "max (Suc d) k"]) (simp add: max.assoc)
qed

lemma parses_depth:
  assumes "parses M (body (Suc d)) w k x" "Suc d \<le> 2 * nesting_limit P" "l = max (Suc d) k"
  shows "parses M (with_depth P d body) w l x"
  unfolding parses_def assms(3)
proof (intro allI impI)
  fix r s assume r: "0 \<le> M" "r_bytes r = w @ s" "budget M (length w) r"
  let ?r = "r\<lparr>r_peak := max (r_peak r) (Suc d)\<rparr>"
  have "r_bytes ?r = w @ s" "budget M (length w) ?r" using r(2,3) by (simp_all add: budget_def)
  with assms(1) r(1) obtain r' where "body (Suc d) ?r = Inr (x, r')" "r_bytes r' = s"
      "r_peak r' = max (max (r_peak r) (Suc d)) k" "spent M (length w) ?r r'"
    unfolding parses_def by (metis (no_types, lifting) Reader.select_convs(6) Reader.surjective Reader.update_convs(6))
  with assms(2) show "\<exists>r'. with_depth P d body r = Inr (x, r') \<and> r_bytes r' = s \<and>
      r_peak r' = max (r_peak r) (max (Suc d) k) \<and> spent M (length w) r r'"
    by (auto simp: with_depth_def spent_def max.assoc)
qed

definition list_peak :: "(nat \<Rightarrow> 'a \<Rightarrow> nat) \<Rightarrow> nat \<Rightarrow> 'a list \<Rightarrow> nat" where
  "list_peak pk d xs = max (Suc d) (foldr (\<lambda>x. max (pk (Suc d) x)) xs 0)"

lemma list_peak_cong [fundef_cong]:
  "d = d' \<Longrightarrow> xs = xs' \<Longrightarrow> (\<And>x. x \<in> set xs' \<Longrightarrow> pk (Suc d') x = pk' (Suc d') x) \<Longrightarrow>
    list_peak pk d xs = list_peak pk' d' xs'"
  unfolding list_peak_def by (auto intro!: arg_cong2 [where f = max] foldr_cong)

lemma list_peak_le: "list_peak pk d xs \<le> n \<longleftrightarrow> Suc d \<le> n \<and> (\<forall>x \<in> set xs. pk (Suc d) x \<le> n)"
  by (auto simp: list_peak_def) (induction xs; auto)+

lemma accepts_list_size:
  "accepts rd_list_size (\<lambda>n w k. 0 \<le> n \<and> n \<le> kMaxListItems \<and> w = add_u32 n \<and> k = 0)"
  unfolding rd_list_size_def
  by (rule accepts_bind [OF accepts_u32]) (auto simp: accepts_def rd_fail_def split: if_splits)

lemma accepts_repeat:
  assumes "accepts rd (\<lambda>x w k. ok x \<and> w = wr x \<and> k = pk x)"
  shows "accepts (rd_repeat n rd) (\<lambda>xs w k. length xs = n \<and> (\<forall>x \<in> set xs. ok x) \<and>
           w = concat (map wr xs) \<and> k = foldr (\<lambda>x. max (pk x)) xs 0)"
proof (induction n)
  case (Suc n)
  show ?case unfolding rd_repeat.simps
    by (rule accepts_bind [OF assms], rule accepts_bind [OF Suc], rule accepts_return) auto
qed (simp add: accepts_return)

lemma accepts_list:
  assumes items: "d < 2 * nesting_limit P \<Longrightarrow>
    accepts (rd (Suc d)) (\<lambda>x w k. ok x \<and> w = wr x \<and> k = pk (Suc d) x)"
  shows "accepts (rd_list P sz rd d) (\<lambda>xs w k. int (length xs) \<le> kMaxListItems \<and> (\<forall>x \<in> set xs. ok x) \<and>
           w = add_v2_list wr xs \<and> k = list_peak pk d xs \<and> Suc d \<le> 2 * nesting_limit P)"
  unfolding rd_list_def
proof (rule accepts_depth, rule accepts_bind [OF accepts_list_size])
  fix n w and k :: nat assume "d < 2 * nesting_limit P"
  note assms = items [OF this]
  assume n: "0 \<le> n \<and> n \<le> kMaxListItems \<and> w = add_u32 n \<and> k = 0"
  let ?Q = "\<lambda>xs w k. int (length xs) \<le> kMaxListItems \<and> (\<forall>x \<in> set xs. ok x) \<and> w = add_v2_list wr xs \<and>
      k = foldr (\<lambda>x. max (pk (Suc d) x)) xs 0"
  show "accepts (\<lambda>r. if n > (kMaxListStorageBytes - r_list_storage_bytes r) div sz
     then rd_fail ''decoded list storage exceeds 268435456 bytes'' r
     else rd_repeat (nat n) (rd (Suc d)) (r\<lparr>r_list_storage_bytes := r_list_storage_bytes r + n * sz\<rparr>))
     (\<lambda>y w' k'. ?Q y (w @ w') (max k k'))"
  proof (rule acceptsI)
    fix r xs r'
    assume "(if n > (kMaxListStorageBytes - r_list_storage_bytes r) div sz
     then rd_fail ''decoded list storage exceeds 268435456 bytes'' r
     else rd_repeat (nat n) (rd (Suc d)) (r\<lparr>r_list_storage_bytes := r_list_storage_bytes r + n * sz\<rparr>)) = Inr (xs, r')"
    then have "rd_repeat (nat n) (rd (Suc d)) (r\<lparr>r_list_storage_bytes := r_list_storage_bytes r + n * sz\<rparr>) = Inr (xs, r')"
      by (auto simp: rd_fail_def split: if_splits)
    with accepts_repeat [where n = "nat n", OF assms] obtain w' k' where
      "length xs = nat n" "\<forall>x \<in> set xs. ok x" "w' = concat (map wr xs)" "k' = foldr (\<lambda>x. max (pk (Suc d) x)) xs 0"
      "r_bytes r = w' @ r_bytes r'" "r_peak r' = max (r_peak r) k'"
      by (elim acceptsE) auto
    with n show "\<exists>w' k'. ?Q xs (w @ w') (max k k') \<and> r_bytes r = w' @ r_bytes r' \<and> r_peak r' = max (r_peak r) k'"
      by (intro exI [of _ w'] exI [of _ k']) (auto simp: add_v2_list_def)
  qed
qed (auto simp: list_peak_def)

lemma rd_u32_storage: "rd_u32 r = Inr (x, r') \<Longrightarrow> r_list_storage_bytes r' = r_list_storage_bytes r"
  by (auto simp: rd_u32_def rd_bind_def count_value_def rd_take_eq rd_return_def rd_fail_def Let_def
      split: if_splits)

lemma length_concat_ge: "(\<And>x. x \<in> set xs \<Longrightarrow> wr x \<noteq> []) \<Longrightarrow> length xs \<le> length (concat (map wr xs))"
proof (induction xs)
  case (Cons x xs)
  then have "0 < length (wr x)" "length xs \<le> length (concat (map wr xs))" by auto
  then show ?case by (simp del: length_greater_0_conv)
qed simp

lemma parses_repeat:
  assumes "\<And>x. x \<in> set xs \<Longrightarrow> parses M rd (wr x) (pk x) x \<and> wr x \<noteq> []" "0 \<le> M"
    and "r_bytes r = concat (map wr xs) @ s"
    and "r_values r + int (length (concat (map wr xs))) \<le> kMaxValues"
    and "r_total_string_bytes r + int (length (concat (map wr xs))) \<le> kMaxTotalStringBytes"
    and "r_list_storage_bytes r + M * (int (length (concat (map wr xs))) - int (length xs)) \<le> kMaxListStorageBytes"
  shows "\<exists>r'. rd_repeat (length xs) rd r = Inr (xs, r') \<and> r_bytes r' = s \<and>
           r_peak r' = max (r_peak r) (foldr (\<lambda>x. max (pk x)) xs 0) \<and>
           r_values r' \<le> r_values r + int (length (concat (map wr xs))) \<and>
           r_total_string_bytes r' \<le> r_total_string_bytes r + int (length (concat (map wr xs))) \<and>
           r_list_storage_bytes r' \<le>
             r_list_storage_bytes r + M * (int (length (concat (map wr xs))) - int (length xs))"
  using assms
proof (induction xs arbitrary: r)
  case (Cons x xs)
  let ?a = "length (wr x)" and ?b = "length (concat (map wr xs))"
  have x: "parses M rd (wr x) (pk x) x" "0 < ?a" using Cons.prems(1) [of x] by auto
  have n: "int (length xs) \<le> int ?b" using length_concat_ge [of xs wr] Cons.prems(1) by simp
  have M: "M * (int (?a + ?b) - int (length (x # xs))) = M * int (?a - 1) + M * (int ?b - int (length xs))"
    unfolding distrib_left [symmetric] using x(2) by (simp add: of_nat_diff Suc_le_eq del: length_greater_0_conv)
  have "0 \<le> M * (int ?b - int (length xs))" using n Cons.prems(2) by simp
  then have "budget M ?a r" using Cons.prems(4,5,6) M by (simp add: budget_def)
  then obtain r1 where 1: "rd r = Inr (x, r1)" "r_bytes r1 = concat (map wr xs) @ s"
      "r_peak r1 = max (r_peak r) (pk x)" "spent M ?a r r1"
    using x(1) Cons.prems(2,3) unfolding parses_def by auto
  have "\<exists>r'. rd_repeat (length xs) rd r1 = Inr (xs, r') \<and> r_bytes r' = s \<and>
           r_peak r' = max (r_peak r1) (foldr (\<lambda>x. max (pk x)) xs 0) \<and>
           r_values r' \<le> r_values r1 + int ?b \<and>
           r_total_string_bytes r' \<le> r_total_string_bytes r1 + int ?b \<and>
           r_list_storage_bytes r' \<le> r_list_storage_bytes r1 + M * (int ?b - int (length xs))"
    using Cons.prems 1(2,4) M by (intro Cons.IH) (auto simp: spent_def)
  then show ?case using 1 M by (auto simp: rd_bind_def rd_return_def spent_def max.assoc)
qed (simp add: rd_return_def)

lemma parses_list:
  assumes x: "\<And>x. x \<in> set xs \<Longrightarrow> parses M (rd (Suc d)) (wr x) (pk (Suc d) x) x \<and> wr x \<noteq> []"
    and sz: "0 < sz" "sz \<le> M" and len: "int (length xs) \<le> kMaxListItems"
    and d: "Suc d \<le> 2 * nesting_limit P"
  shows "parses M (rd_list P sz rd d) (add_v2_list wr xs) (list_peak pk d xs) xs"
  unfolding rd_list_def
proof (rule parses_depth [OF _ d])
  let ?w = "concat (map wr xs)" and ?n = "int (length xs)"
  have n: "length xs \<le> length ?w" using length_concat_ge [of xs wr] x by blast
  have u: "0 \<le> ?n" "?n < 2 ^ 32" using len by (simp_all add: kMaxListItems_def)
  show "parses M (rd_bind rd_list_size (\<lambda>size r.
     if size > (kMaxListStorageBytes - r_list_storage_bytes r) div sz
     then rd_fail ''decoded list storage exceeds 268435456 bytes'' r
     else rd_repeat (nat size) (rd (Suc d)) (r\<lparr>r_list_storage_bytes := r_list_storage_bytes r + size * sz\<rparr>)))
     (add_v2_list wr xs) (foldr (\<lambda>x. max (pk (Suc d) x)) xs 0) xs"
    unfolding parses_def
  proof (intro allI impI)
    fix r s assume M: "0 \<le> M" and r: "r_bytes r = add_v2_list wr xs @ s" "budget M (length (add_v2_list wr xs)) r"
    have len_w: "length (add_v2_list wr xs) = 4 + length ?w" by (simp add: add_v2_list_def add_u32_def)
    have b: "r_bytes r = add_u32 ?n @ ?w @ s" using r(1) by (simp add: add_v2_list_def)
    have "budget M (length (add_u32 ?n)) r"
      using r(2) budget_append [OF M, of 4 "length ?w" r] len_w by (simp add: add_u32_def)
    with M parses_u32 [OF u, of M] b obtain r1 where 1: "rd_u32 r = Inr (?n, r1)" "r_bytes r1 = ?w @ s"
        "r_peak r1 = r_peak r" "spent M (length (add_u32 ?n)) r r1"
      unfolding parses_def by (metis max_0R)
    note st = rd_u32_storage [OF 1(1)]
    have "M * ?n \<le> M * int (3 + length ?w)" "sz * ?n \<le> M * ?n"
      using M n sz(2) by (auto intro: mult_left_mono mult_right_mono)
    then have "?n * sz \<le> kMaxListStorageBytes - r_list_storage_bytes r1"
      using r(2) st len_w by (simp add: budget_def mult.commute)
    then have fits: "\<not> ?n > (kMaxListStorageBytes - r_list_storage_bytes r1) div sz"
      using sz(1) zdiv_mono1 [of "?n * sz" _ sz] by (simp add: not_less)
    let ?r = "r1\<lparr>r_list_storage_bytes := r_list_storage_bytes r1 + ?n * sz\<rparr>"
    have sum: "?n * sz + M * (int (length ?w) - ?n) \<le> M * int (3 + length ?w)"
    proof -
      have "?n * sz + M * (int (length ?w) - ?n) \<le> M * ?n + M * (int (length ?w) - ?n)"
        using \<open>sz * ?n \<le> M * ?n\<close> by (simp add: mult.commute)
      also have "\<dots> \<le> M * int (3 + length ?w)"
        unfolding distrib_left [symmetric] using M by (intro mult_left_mono) simp_all
      finally show ?thesis .
    qed
    have "\<exists>r'. rd_repeat (length xs) (rd (Suc d)) ?r = Inr (xs, r') \<and> r_bytes r' = s \<and>
        r_peak r' = max (r_peak ?r) (foldr (\<lambda>x. max (pk (Suc d) x)) xs 0) \<and>
        r_values r' \<le> r_values ?r + int (length ?w) \<and>
        r_total_string_bytes r' \<le> r_total_string_bytes ?r + int (length ?w) \<and>
        r_list_storage_bytes r' \<le> r_list_storage_bytes ?r + M * (int (length ?w) - ?n)"
      using x M 1(2,4) r(2) st len_w sum
      by (intro parses_repeat) (auto simp: budget_def spent_def add_u32_def)
    then show "\<exists>r'. rd_bind rd_list_size (\<lambda>size r.
     if size > (kMaxListStorageBytes - r_list_storage_bytes r) div sz
     then rd_fail ''decoded list storage exceeds 268435456 bytes'' r
     else rd_repeat (nat size) (rd (Suc d)) (r\<lparr>r_list_storage_bytes := r_list_storage_bytes r + size * sz\<rparr>)) r =
        Inr (xs, r') \<and> r_bytes r' = s \<and> r_peak r' = max (r_peak r) (foldr (\<lambda>x. max (pk (Suc d) x)) xs 0) \<and>
        spent M (length (add_v2_list wr xs)) r r'"
      using fits 1 len n sum st by (auto simp: rd_list_size_def rd_bind_def spent_def len_w add_u32_def)
  qed
qed (simp add: list_peak_def)

section \<open>The contract of a field\<close>

definition sized :: "Platform \<Rightarrow> bool" where
  "sized P \<longleftrightarrow> 0 < sizeof_Expr P \<and> 0 < sizeof_Stmt P \<and> 0 < sizeof_FunDef P \<and> 0 < sizeof_UnsizedView P \<and>
     0 < sizeof_bool P \<and> 0 < sizeof_string P \<and> 0 < sizeof_input P"

definition max_sizeof :: "Platform \<Rightarrow> int" where
  "max_sizeof P = Max {sizeof_Expr P, sizeof_Stmt P, sizeof_FunDef P, sizeof_UnsizedView P,
     sizeof_bool P, sizeof_string P, sizeof_input P}"

text \<open>A field: its reader at a nesting depth, its encoding, which values fit it, and the depth they
  reach. The laws carry over to lists of the field.\<close>

locale codec =
  fixes P :: Platform and rd :: "nat \<Rightarrow> 'a reader" and wr :: "'a \<Rightarrow> string"
    and ok :: "'a \<Rightarrow> bool" and pk :: "nat \<Rightarrow> 'a \<Rightarrow> nat"
  assumes writes_out: "accepts (rd d) (\<lambda>x w k. ok x \<and> pk d x \<le> 2 * nesting_limit P \<and> w = wr x \<and> k = pk d x)"
    and reads_back: "sized P \<Longrightarrow> ok x \<Longrightarrow> pk d x \<le> 2 * nesting_limit P \<Longrightarrow>
          parses (max_sizeof P) (rd d) (wr x) (pk d x) x"
    and nonempty: "wr x \<noteq> []"
begin

lemma list_writes_out:
  "accepts (rd_list P sz rd d) (\<lambda>xs w k. int (length xs) \<le> kMaxListItems \<and> (\<forall>x \<in> set xs. ok x) \<and>
     list_peak pk d xs \<le> 2 * nesting_limit P \<and> w = add_v2_list wr xs \<and> k = list_peak pk d xs)"
proof (rule accepts_mono [OF accepts_list [where ok = "\<lambda>x. ok x \<and> pk (Suc d) x \<le> 2 * nesting_limit P"]])
  show "accepts (rd (Suc d)) (\<lambda>x w k. (ok x \<and> pk (Suc d) x \<le> 2 * nesting_limit P) \<and> w = wr x \<and> k = pk (Suc d) x)"
    by (rule accepts_mono [OF writes_out]) simp
qed (auto simp: list_peak_le)

lemma list_reads_back:
  "sized P \<Longrightarrow> 0 < sz \<Longrightarrow> sz \<le> max_sizeof P \<Longrightarrow> int (length xs) \<le> kMaxListItems \<Longrightarrow> \<forall>x \<in> set xs. ok x \<Longrightarrow>
     list_peak pk d xs \<le> 2 * nesting_limit P \<Longrightarrow>
     parses (max_sizeof P) (rd_list P sz rd d) (add_v2_list wr xs) (list_peak pk d xs) xs"
  by (rule parses_list) (auto simp: list_peak_le nonempty intro: reads_back)

end

interpretation string_field: codec P "\<lambda>_. rd_string" add_v2_string
    "\<lambda>s. utf8_ok s \<and> int (length s) \<le> kMaxStringBytes" "\<lambda>_ _. 0"
proof
  show "add_v2_string x \<noteq> []" for x using length_add_v2_string [of x] by (cases "add_v2_string x") auto
  show "accepts rd_string (\<lambda>x w k. (utf8_ok x \<and> int (length x) \<le> kMaxStringBytes) \<and>
      0 \<le> 2 * nesting_limit P \<and> w = add_v2_string x \<and> k = 0)"
    by (rule accepts_mono [OF accepts_string]) simp
qed (simp add: parses_string)

interpretation bool_field: codec P "\<lambda>_. rd_boolean" add_v2_bool "\<lambda>_. True" "\<lambda>_ _. 0"
proof
  show "accepts rd_boolean (\<lambda>x w k. True \<and> 0 \<le> 2 * nesting_limit P \<and> w = add_v2_bool x \<and> k = 0)"
    by (rule accepts_mono [OF accepts_boolean]) simp
qed (simp_all only: parses_boolean, simp add: add_v2_bool_def add_u8_def)

end
