(* ===== verification/PortableMir.thy ===== *)
theory PortableMir
  imports WireReader
begin

text \<open>
  The compact portable MIR (\<^verbatim>\<open>runtime/include/stanli/mir.hpp\<close>,
  \<^verbatim>\<open>runtime/src/portable_mir_v2_reader.cpp\<close>): the decoded program, one reader per section, and the
  wire format each of them reads. The flat part of an expression or statement is a record with the
  struct's fields and default values; the recursive part (\<^verbatim>\<open>args\<close>, \<^verbatim>\<open>body\<close>) is beside it.
\<close>

section \<open>The program\<close>

datatype UnsizedLeaf = Leaf_Unknown | Leaf_Int | Leaf_Real | Leaf_Complex | Leaf_Vector | Leaf_RowVector
  | Leaf_Matrix

record UnsizedView =
  v_depth :: int
  v_leaf :: UnsizedLeaf

datatype ExprKind = Expr_Var | Expr_LitInt | Expr_LitReal | Expr_LitStr | Expr_FunApp | Expr_Promotion
  | Expr_Indexed | Expr_TernaryIf | Expr_EOr | Expr_EAnd | Expr_Unsupported

datatype Lib = Lib_StanLib | Lib_Internal | Lib_UserDefined

record ExprHead =
  e_kind :: ExprKind
  e_name :: string
  e_fn_lib :: Lib
  e_fn_propto :: bool
  e_lit_i :: int
  e_lit :: binary64
  e_lit_s :: string
  e_type :: string
  e_unsized :: UnsizedView
  e_data_only :: bool
  e_promoted :: bool
  e_raw :: string

datatype Expr = Expr (e_head: ExprHead) (e_args: "Expr list")

datatype TransformKind = Tr_Identity | Tr_Lower | Tr_Upper | Tr_LowerUpper | Tr_Offset | Tr_Multiplier
  | Tr_OffsetMultiplier | Tr_Simplex | Tr_Ordered | Tr_PositiveOrdered | Tr_CholeskyCorr | Tr_UnitVector
  | Tr_SumToZero | Tr_Correlation | Tr_Covariance | Tr_CholeskyCov | Tr_StochasticColumn
  | Tr_StochasticRow | Tr_Unsupported

record Transform =
  t_kind :: TransformKind
  t_args :: "Expr list"
  t_raw :: string

record SizedType =
  s_base :: string
  s_dims :: "Expr list"
  s_elem_base :: string
  s_raw :: string
  s_unsized :: UnsizedView

datatype StmtKind = Stmt_Decl | Stmt_Assignment | Stmt_TargetPE | Stmt_Block | Stmt_SList | Stmt_For
  | Stmt_IfElse | Stmt_While | Stmt_NRFunApp | Stmt_Return | Stmt_Break | Stmt_Continue | Stmt_Skip
  | Stmt_Unsupported

record StmtHead =
  st_kind :: StmtKind
  st_decl_id :: string
  st_decl_type :: SizedType
  st_decl_data_only :: bool
  st_has_init :: bool
  st_init :: Expr
  st_read_transform :: "Transform option"
  st_read_dims :: "Expr list"
  st_lhs :: string
  st_lhs_idx :: "Expr list"
  st_rhs :: Expr
  st_target :: Expr
  st_fn_name :: string
  st_fn_args :: "Expr list"
  st_check_transform :: "Transform option"
  st_check_var_name :: string
  st_write_transform :: "Transform option"
  st_loopvar :: string
  st_lower :: Expr
  st_upper :: Expr
  st_cond :: Expr
  st_raw :: string

datatype Stmt = Stmt (st_head: StmtHead) (st_body: "Stmt list")

record FunDef =
  f_name :: string
  f_arg_names :: "string list"
  f_arg_types :: "string list"
  f_arg_views :: "UnsizedView list"
  f_arg_data_only :: "bool list"
  f_body :: "Stmt list"

record MirProgram =
  input_vars :: "(string \<times> SizedType) list"
  prepare_data :: "Stmt list"
  log_prob :: "Stmt list"
  generate_quantities :: "Stmt list"
  has_transform_inits :: bool
  transform_inits :: "Stmt list"
  fun_defs :: "FunDef list"
  output_vars :: "string list"
  nesting :: nat

text \<open>The values a default-constructed struct has.\<close>

definition new_view :: UnsizedView where
  "new_view = \<lparr>v_depth = 0, v_leaf = Leaf_Unknown\<rparr>"

definition new_expr_head :: ExprHead where
  "new_expr_head = \<lparr>e_kind = Expr_Unsupported, e_name = [], e_fn_lib = Lib_StanLib, e_fn_propto = False,
     e_lit_i = 0, e_lit = 0, e_lit_s = [], e_type = [], e_unsized = new_view, e_data_only = False,
     e_promoted = False, e_raw = []\<rparr>"

definition new_expr :: Expr where
  "new_expr = Expr new_expr_head []"

definition new_sized :: SizedType where
  "new_sized = \<lparr>s_base = [], s_dims = [], s_elem_base = [], s_raw = [], s_unsized = new_view\<rparr>"

definition new_stmt_head :: StmtHead where
  "new_stmt_head = \<lparr>st_kind = Stmt_Unsupported, st_decl_id = [], st_decl_type = new_sized,
     st_decl_data_only = False, st_has_init = False, st_init = new_expr, st_read_transform = None,
     st_read_dims = [], st_lhs = [], st_lhs_idx = [], st_rhs = new_expr, st_target = new_expr,
     st_fn_name = [], st_fn_args = [], st_check_transform = None, st_check_var_name = [],
     st_write_transform = None, st_loopvar = [], st_lower = new_expr, st_upper = new_expr,
     st_cond = new_expr, st_raw = []\<rparr>"

section \<open>Readers\<close>

definition kLeafTags :: "UnsizedLeaf list" where
  "kLeafTags = [Leaf_Unknown, Leaf_Int, Leaf_Real, Leaf_Complex, Leaf_Vector, Leaf_RowVector, Leaf_Matrix]"

definition kExprTags :: "ExprKind list" where
  "kExprTags = [Expr_Var, Expr_LitInt, Expr_LitReal, Expr_LitStr, Expr_FunApp, Expr_Promotion, Expr_Indexed,
     Expr_TernaryIf, Expr_EOr, Expr_EAnd, Expr_Unsupported]"

definition kLibraryTags :: "Lib list" where
  "kLibraryTags = [Lib_StanLib, Lib_Internal, Lib_UserDefined]"

definition kTransformTags :: "TransformKind list" where
  "kTransformTags = [Tr_Identity, Tr_Lower, Tr_Upper, Tr_LowerUpper, Tr_Offset, Tr_Multiplier,
     Tr_OffsetMultiplier, Tr_Simplex, Tr_Ordered, Tr_PositiveOrdered, Tr_CholeskyCorr, Tr_UnitVector,
     Tr_SumToZero, Tr_Correlation, Tr_Covariance, Tr_CholeskyCov, Tr_Unsupported]"

definition kStmtTags :: "StmtKind list" where
  "kStmtTags = [Stmt_Decl, Stmt_Assignment, Stmt_TargetPE, Stmt_Block, Stmt_SList, Stmt_For, Stmt_IfElse,
     Stmt_While, Stmt_NRFunApp, Stmt_Return, Stmt_Break, Stmt_Continue, Stmt_Skip, Stmt_Unsupported]"

definition read_view :: "UnsizedView reader" where
  "read_view = rd_bind rd_u8 (\<lambda>depth. rd_bind (read_tag kLeafTags ''unknown unsized-view tag'') (\<lambda>leaf.
     rd_return \<lparr>v_depth = depth, v_leaf = leaf\<rparr>))"

definition read_meta :: "ExprHead \<Rightarrow> ExprHead reader" where
  "read_meta value = rd_bind rd_string (\<lambda>type. rd_bind read_view (\<lambda>view. rd_bind rd_boolean (\<lambda>data_only.
     rd_bind rd_boolean (\<lambda>promoted. rd_bind rd_string (\<lambda>raw.
     rd_return (value\<lparr>e_type := type, e_unsized := view, e_data_only := data_only, e_promoted := promoted,
                  e_raw := raw\<rparr>))))))"

text \<open>The cases of \<^verbatim>\<open>read_expr\<close> whose fields are not expressions.\<close>

definition has_expr_args :: "ExprKind \<Rightarrow> bool" where
  "has_expr_args kind \<longleftrightarrow> kind \<in> {Expr_FunApp, Expr_Promotion, Expr_Indexed, Expr_TernaryIf, Expr_EOr, Expr_EAnd}"

definition read_expr_fields :: "Platform \<Rightarrow> ExprHead \<Rightarrow> ExprHead reader" where
  "read_expr_fields P value = (case e_kind value of
       Expr_Var \<Rightarrow> rd_bind rd_string (\<lambda>name. rd_return (value\<lparr>e_name := name\<rparr>))
     | Expr_LitInt \<Rightarrow> rd_bind rd_i32 (\<lambda>i. rd_return (value\<lparr>e_lit_i := i, e_lit := long_to_double P i\<rparr>))
     | Expr_LitReal \<Rightarrow> rd_bind rd_f64 (\<lambda>x. rd_return (value\<lparr>e_lit := x\<rparr>))
     | Expr_LitStr \<Rightarrow> rd_bind rd_string (\<lambda>s. rd_return (value\<lparr>e_lit_s := s\<rparr>))
     | Expr_FunApp \<Rightarrow> rd_bind (read_tag kLibraryTags ''unknown function-library tag'') (\<lambda>lib.
          rd_bind rd_string (\<lambda>name. rd_bind rd_boolean (\<lambda>propto.
          rd_return (value\<lparr>e_fn_lib := lib, e_name := name, e_fn_propto := propto\<rparr>))))
     | _ \<Rightarrow> rd_return value)"

function read_expr :: "Platform \<Rightarrow> nat \<Rightarrow> Expr reader" where
  "read_expr P depth = with_depth P depth (\<lambda>depth.
     rd_bind (read_tag kExprTags ''unknown expression tag'') (\<lambda>kind.
     rd_bind (read_expr_fields P (new_expr_head\<lparr>e_kind := kind\<rparr>)) (\<lambda>value.
     rd_bind (if has_expr_args kind then rd_list P (sizeof_Expr P) (read_expr P) depth else rd_return []) (\<lambda>args.
     rd_bind (read_meta value) (\<lambda>value. rd_return (Expr value args))))))"
  by pat_completeness auto

termination read_expr
  by (relation "measure (\<lambda>(P, depth). 2 * nesting_limit P - depth)") auto

declare read_expr.simps [simp del]

definition read_exprs :: "Platform \<Rightarrow> nat \<Rightarrow> Expr list reader" where
  "read_exprs P = rd_list P (sizeof_Expr P) (read_expr P)"

definition read_transform :: "Platform \<Rightarrow> nat \<Rightarrow> Transform reader" where
  "read_transform P depth = with_depth P depth (\<lambda>depth.
     rd_bind (read_tag kTransformTags ''unknown transform tag'') (\<lambda>kind.
     rd_bind (read_exprs P depth) (\<lambda>args. rd_bind rd_string (\<lambda>raw.
     rd_return \<lparr>t_kind = (if kind = Tr_Unsupported then
           (if raw = ''StochasticColumn'' then Tr_StochasticColumn
            else if raw = ''StochasticRow'' then Tr_StochasticRow else kind) else kind),
         t_args = args, t_raw = raw\<rparr>))))"

definition read_optional_transform :: "Platform \<Rightarrow> nat \<Rightarrow> Transform option reader" where
  "read_optional_transform P depth = rd_bind rd_u8 (\<lambda>present.
     if present > 1 then rd_fail ''optional marker is not 0 or 1''
     else if present = 0 then rd_return None
     else rd_bind (read_transform P depth) (\<lambda>t. rd_return (Some t)))"

definition read_sized :: "Platform \<Rightarrow> nat \<Rightarrow> SizedType reader" where
  "read_sized P depth = with_depth P depth (\<lambda>depth.
     rd_bind rd_string (\<lambda>base. rd_bind (read_exprs P depth) (\<lambda>dims. rd_bind rd_string (\<lambda>elem_base.
     rd_bind rd_string (\<lambda>raw.
     rd_return (new_sized\<lparr>s_base := base, s_dims := dims, s_elem_base := elem_base, s_raw := raw\<rparr>))))))"

text \<open>The fields of a statement up to its body; every kind but \<^verbatim>\<open>Break\<close> and \<^verbatim>\<open>Continue\<close> ends with \<^verbatim>\<open>raw\<close>.\<close>

definition read_init :: "Platform \<Rightarrow> nat \<Rightarrow> bool \<Rightarrow> Expr reader" where
  "read_init P depth has_init = (if has_init then read_expr P depth else rd_return new_expr)"

definition read_stmt_fields :: "Platform \<Rightarrow> nat \<Rightarrow> StmtHead \<Rightarrow> StmtHead reader" where
  "read_stmt_fields P depth value = (case st_kind value of
       Stmt_Decl \<Rightarrow> rd_bind rd_string (\<lambda>decl_id. rd_bind (read_sized P depth) (\<lambda>decl_type.
         rd_bind rd_boolean (\<lambda>data_only. rd_bind rd_boolean (\<lambda>has_init.
         rd_bind (read_init P depth has_init) (\<lambda>init.
         rd_bind (read_optional_transform P depth) (\<lambda>transform.
         rd_bind (read_exprs P depth) (\<lambda>dims.
         rd_return (value\<lparr>st_decl_id := decl_id, st_decl_type := decl_type, st_decl_data_only := data_only,
           st_has_init := has_init, st_init := init, st_read_transform := transform,
           st_read_dims := dims\<rparr>))))))))
     | Stmt_Assignment \<Rightarrow> rd_bind rd_string (\<lambda>lhs. rd_bind (read_exprs P depth) (\<lambda>lhs_idx.
         rd_bind (read_expr P depth) (\<lambda>rhs.
         rd_return (value\<lparr>st_lhs := lhs, st_lhs_idx := lhs_idx, st_rhs := rhs\<rparr>))))
     | Stmt_TargetPE \<Rightarrow> rd_bind (read_expr P depth) (\<lambda>target. rd_return (value\<lparr>st_target := target\<rparr>))
     | Stmt_For \<Rightarrow> rd_bind rd_string (\<lambda>loopvar. rd_bind (read_expr P depth) (\<lambda>lower.
         rd_bind (read_expr P depth) (\<lambda>upper.
         rd_return (value\<lparr>st_loopvar := loopvar, st_lower := lower, st_upper := upper\<rparr>))))
     | Stmt_IfElse \<Rightarrow> rd_bind (read_expr P depth) (\<lambda>cond. rd_return (value\<lparr>st_cond := cond\<rparr>))
     | Stmt_While \<Rightarrow> rd_bind (read_expr P depth) (\<lambda>cond. rd_return (value\<lparr>st_cond := cond\<rparr>))
     | Stmt_NRFunApp \<Rightarrow> rd_bind rd_string (\<lambda>fn_name. rd_bind (read_exprs P depth) (\<lambda>fn_args.
         rd_bind (read_optional_transform P depth) (\<lambda>transform. rd_bind rd_string (\<lambda>var_name.
         rd_return (value\<lparr>st_fn_name := fn_name, st_fn_args := fn_args, st_check_transform := transform,
           st_check_var_name := var_name\<rparr>)))))
     | Stmt_Return \<Rightarrow> rd_bind rd_boolean (\<lambda>has_init. rd_bind (read_init P depth has_init) (\<lambda>rhs.
         rd_return (value\<lparr>st_has_init := has_init, st_rhs := rhs\<rparr>)))
     | _ \<Rightarrow> rd_return value)"

definition has_stmt_body :: "StmtKind \<Rightarrow> bool" where
  "has_stmt_body kind \<longleftrightarrow> kind \<in> {Stmt_Block, Stmt_SList, Stmt_For, Stmt_IfElse, Stmt_While}"

definition read_stmt_raw :: "StmtKind \<Rightarrow> string reader" where
  "read_stmt_raw kind = (if kind \<in> {Stmt_Break, Stmt_Continue} then rd_return [] else rd_string)"

text \<open>\<^verbatim>\<open>FnCheck\<close> and \<^verbatim>\<open>FnWriteParam\<close> share the optional-transform slot of the wire.\<close>

definition split_transform :: "StmtHead \<Rightarrow> StmtHead" where
  "split_transform value =
     (if st_kind value = Stmt_NRFunApp \<and> st_fn_name value = ''FnWriteParam''
      then value\<lparr>st_write_transform := st_check_transform value, st_check_transform := None\<rparr>
      else value)"

function read_stmt :: "Platform \<Rightarrow> nat \<Rightarrow> Stmt reader" where
  "read_stmt P depth = with_depth P depth (\<lambda>depth.
     rd_bind (read_tag kStmtTags ''unknown statement tag'') (\<lambda>kind.
     rd_bind (read_stmt_fields P depth (new_stmt_head\<lparr>st_kind := kind\<rparr>)) (\<lambda>value.
     rd_bind (if has_stmt_body kind then rd_list P (sizeof_Stmt P) (read_stmt P) depth else rd_return []) (\<lambda>body.
     rd_bind (read_stmt_raw kind) (\<lambda>raw.
     rd_return (Stmt (split_transform (value\<lparr>st_raw := raw\<rparr>)) body))))))"
  by pat_completeness auto

termination read_stmt
  by (relation "measure (\<lambda>(P, depth). 2 * nesting_limit P - depth)") auto

declare read_stmt.simps [simp del]

definition read_stmts :: "Platform \<Rightarrow> nat \<Rightarrow> Stmt list reader" where
  "read_stmts P = rd_list P (sizeof_Stmt P) (read_stmt P)"

definition read_strings :: "Platform \<Rightarrow> nat \<Rightarrow> string list reader" where
  "read_strings P = rd_list P (sizeof_string P) (\<lambda>_. rd_string)"

definition read_fun :: "Platform \<Rightarrow> nat \<Rightarrow> FunDef reader" where
  "read_fun P depth = with_depth P depth (\<lambda>depth.
     rd_bind rd_string (\<lambda>name. rd_bind (read_strings P depth) (\<lambda>arg_names.
     rd_bind (read_strings P depth) (\<lambda>arg_types.
     rd_bind (rd_list P (sizeof_UnsizedView P) (\<lambda>_. read_view) depth) (\<lambda>arg_views.
     rd_bind (rd_list P (sizeof_bool P) (\<lambda>_. rd_boolean) depth) (\<lambda>arg_data_only.
     rd_bind (read_stmts P depth) (\<lambda>body.
       if length arg_types \<noteq> length arg_names \<or> length arg_views \<noteq> length arg_names \<or>
          length arg_data_only \<noteq> length arg_names
       then rd_fail ''function argument field lengths disagree''
       else rd_return \<lparr>f_name = name, f_arg_names = arg_names, f_arg_types = arg_types,
         f_arg_views = arg_views, f_arg_data_only = arg_data_only, f_body = body\<rparr>)))))))"

definition read_input :: "Platform \<Rightarrow> nat \<Rightarrow> (string \<times> SizedType) reader" where
  "read_input P depth = with_depth P depth (\<lambda>depth.
     rd_bind rd_string (\<lambda>name. rd_bind (read_sized P depth) (\<lambda>type. rd_return (name, type))))"

text \<open>The trailing section, and the nesting the reader met.\<close>

definition read_transform_inits :: "Platform \<Rightarrow> nat \<Rightarrow> (bool \<times> Stmt list) reader" where
  "read_transform_inits P depth = (\<lambda>r. if \<not> at_end r
     then rd_bind (read_stmts P depth) (\<lambda>inits. rd_return (True, inits)) r
     else Inr ((False, []), r))"

definition read_nesting :: "nat reader" where
  "read_nesting = (\<lambda>r. Inr ((r_peak r + 1) div 2, r))"

definition read_sections :: "Platform \<Rightarrow> MirProgram reader" where
  "read_sections P =
     rd_bind (rd_list P (sizeof_input P) (read_input P) 0) (\<lambda>input_vars.
     rd_bind (read_stmts P 0) (\<lambda>prepare_data. rd_bind (read_stmts P 0) (\<lambda>log_prob.
     rd_bind (read_stmts P 0) (\<lambda>generate_quantities.
     rd_bind (rd_list P (sizeof_FunDef P) (read_fun P) 0) (\<lambda>fun_defs.
     rd_bind (read_strings P 0) (\<lambda>output_vars.
     rd_bind (read_transform_inits P 0) (\<lambda>inits.
     rd_return \<lparr>input_vars = input_vars, prepare_data = prepare_data, log_prob = log_prob,
       generate_quantities = generate_quantities, has_transform_inits = fst inits,
       transform_inits = snd inits, fun_defs = fun_defs, output_vars = output_vars, nesting = 0\<rparr>)))))))"

definition read_program :: "Platform \<Rightarrow> MirProgram reader" where
  "read_program P = rd_bind (read_sections P) (\<lambda>result. rd_bind read_nesting (\<lambda>nesting.
     rd_return (result\<lparr>nesting := nesting\<rparr>)))"

text \<open>\<^verbatim>\<open>read_portable_v2_program\<close> up to the checks that follow the decoding.\<close>

definition read_portable_v2 :: "Platform \<Rightarrow> string \<Rightarrow> std_error + MirProgram" where
  "read_portable_v2 P bytes = (case decode_payload bytes of
       Inl e \<Rightarrow> Inl e
     | Inr payload \<Rightarrow> (case open_reader payload of
         Inl e \<Rightarrow> Inl e
       | Inr reader \<Rightarrow> (case rd_bind (read_program P) (\<lambda>program. rd_bind finish (\<lambda>_. rd_return program)) reader of
           Inl e \<Rightarrow> Inl e
         | Inr (program, _) \<Rightarrow> Inr program)))"

section \<open>The wire format\<close>

text \<open>The bytes of each section, as the compiler plug-in writes them
  (\<^verbatim>\<open>add_v2_view\<close> to \<^verbatim>\<open>encode\<close> of \<^verbatim>\<open>portable_mir.ml\<close>).\<close>

definition tag_of :: "'a list \<Rightarrow> 'a \<Rightarrow> int" where
  "tag_of tags x = int (length (takeWhile (\<lambda>y. y \<noteq> x) tags))"

definition add_v2_view :: "UnsizedView \<Rightarrow> string" where
  "add_v2_view v = add_u8 (v_depth v) @ add_u8 (tag_of kLeafTags (v_leaf v))"

definition add_v2_meta :: "ExprHead \<Rightarrow> string" where
  "add_v2_meta e = add_v2_string (e_type e) @ add_v2_view (e_unsized e) @ add_v2_bool (e_data_only e) @
     add_v2_bool (e_promoted e) @ add_v2_string (e_raw e)"

definition add_v2_expr_fields :: "ExprHead \<Rightarrow> string" where
  "add_v2_expr_fields e = (case e_kind e of
       Expr_Var \<Rightarrow> add_v2_string (e_name e)
     | Expr_LitInt \<Rightarrow> add_u32 (e_lit_i e)
     | Expr_LitReal \<Rightarrow> add_i64_bits (e_lit e)
     | Expr_LitStr \<Rightarrow> add_v2_string (e_lit_s e)
     | Expr_FunApp \<Rightarrow> add_u8 (tag_of kLibraryTags (e_fn_lib e)) @ add_v2_string (e_name e) @ add_v2_bool (e_fn_propto e)
     | _ \<Rightarrow> [])"

fun add_v2_expr :: "Expr \<Rightarrow> string" where
  "add_v2_expr (Expr h args) = add_u8 (tag_of kExprTags (e_kind h)) @ add_v2_expr_fields h @
     (if has_expr_args (e_kind h) then add_u32 (int (length args)) @ concat (map add_v2_expr args) else []) @
     add_v2_meta h"

definition transform_tag :: "TransformKind \<Rightarrow> int" where
  "transform_tag kind = tag_of kTransformTags
     (if kind \<in> {Tr_StochasticColumn, Tr_StochasticRow} then Tr_Unsupported else kind)"

definition add_v2_transform :: "Transform \<Rightarrow> string" where
  "add_v2_transform t = add_u8 (transform_tag (t_kind t)) @ add_v2_list add_v2_expr (t_args t) @ add_v2_string (t_raw t)"

definition add_v2_optional :: "Transform option \<Rightarrow> string" where
  "add_v2_optional t = (case t of None \<Rightarrow> add_u8 0 | Some t \<Rightarrow> add_u8 1 @ add_v2_transform t)"

definition add_v2_sized :: "SizedType \<Rightarrow> string" where
  "add_v2_sized s = add_v2_string (s_base s) @ add_v2_list add_v2_expr (s_dims s) @
     add_v2_string (s_elem_base s) @ add_v2_string (s_raw s)"

definition add_v2_stmt_fields :: "StmtHead \<Rightarrow> string" where
  "add_v2_stmt_fields s = (case st_kind s of
       Stmt_Decl \<Rightarrow> add_v2_string (st_decl_id s) @ add_v2_sized (st_decl_type s) @
         add_v2_bool (st_decl_data_only s) @ add_v2_bool (st_has_init s) @
         (if st_has_init s then add_v2_expr (st_init s) else []) @
         add_v2_optional (st_read_transform s) @ add_v2_list add_v2_expr (st_read_dims s)
     | Stmt_Assignment \<Rightarrow> add_v2_string (st_lhs s) @ add_v2_list add_v2_expr (st_lhs_idx s) @ add_v2_expr (st_rhs s)
     | Stmt_TargetPE \<Rightarrow> add_v2_expr (st_target s)
     | Stmt_For \<Rightarrow> add_v2_string (st_loopvar s) @ add_v2_expr (st_lower s) @ add_v2_expr (st_upper s)
     | Stmt_IfElse \<Rightarrow> add_v2_expr (st_cond s)
     | Stmt_While \<Rightarrow> add_v2_expr (st_cond s)
     | Stmt_NRFunApp \<Rightarrow> add_v2_string (st_fn_name s) @ add_v2_list add_v2_expr (st_fn_args s) @
         add_v2_optional (if st_fn_name s = ''FnWriteParam'' then st_write_transform s else st_check_transform s) @
         add_v2_string (st_check_var_name s)
     | Stmt_Return \<Rightarrow> add_v2_bool (st_has_init s) @ (if st_has_init s then add_v2_expr (st_rhs s) else [])
     | _ \<Rightarrow> [])"

fun add_v2_stmt :: "Stmt \<Rightarrow> string" where
  "add_v2_stmt (Stmt h body) = add_u8 (tag_of kStmtTags (st_kind h)) @ add_v2_stmt_fields h @
     (if has_stmt_body (st_kind h) then add_u32 (int (length body)) @ concat (map add_v2_stmt body) else []) @
     (if st_kind h \<in> {Stmt_Break, Stmt_Continue} then [] else add_v2_string (st_raw h))"

definition add_v2_fun :: "FunDef \<Rightarrow> string" where
  "add_v2_fun f = add_v2_string (f_name f) @ add_v2_list add_v2_string (f_arg_names f) @
     add_v2_list add_v2_string (f_arg_types f) @ add_v2_list add_v2_view (f_arg_views f) @
     add_v2_list add_v2_bool (f_arg_data_only f) @ add_v2_list add_v2_stmt (f_body f)"

definition add_v2_input :: "string \<times> SizedType \<Rightarrow> string" where
  "add_v2_input i = add_v2_string (fst i) @ add_v2_sized (snd i)"

definition add_v2_program :: "MirProgram \<Rightarrow> string" where
  "add_v2_program p = add_v2_list add_v2_input (input_vars p) @ add_v2_list add_v2_stmt (prepare_data p) @
     add_v2_list add_v2_stmt (log_prob p) @ add_v2_list add_v2_stmt (generate_quantities p) @
     add_v2_list add_v2_fun (fun_defs p) @ add_v2_list add_v2_string (output_vars p) @
     (if has_transform_inits p then add_v2_list add_v2_stmt (transform_inits p) else [])"

end
