(* ===== verification/PortableRound.thy ===== *)
theory PortableRound
  imports PortableMir
begin

text \<open>
  The reader of the portable MIR and its wire format are inverse to each other: the contract of
  \<^theory_text>\<open>codec\<close> for every section of a document, and the round trip of whole documents.
\<close>

section \<open>Values that a document can carry\<close>

text \<open>Only the fields of a kind are set, the others have their default; strings are UTF-8 and numbers
  fit their field.\<close>

definition str_ok :: "string \<Rightarrow> bool" where
  "str_ok s \<longleftrightarrow> utf8_ok s \<and> int (length s) \<le> kMaxStringBytes"

definition view_ok :: "UnsizedView \<Rightarrow> bool" where
  "view_ok v \<longleftrightarrow> 0 \<le> v_depth v \<and> v_depth v < 256"

definition meta_ok :: "ExprHead \<Rightarrow> bool" where
  "meta_ok h \<longleftrightarrow> str_ok (e_type h) \<and> view_ok (e_unsized h) \<and> str_ok (e_raw h)"

definition strip_meta :: "ExprHead \<Rightarrow> ExprHead" where
  "strip_meta h = h\<lparr>e_type := [], e_unsized := new_view, e_data_only := False, e_promoted := False, e_raw := []\<rparr>"

definition fields_ok :: "Platform \<Rightarrow> ExprHead \<Rightarrow> bool" where
  "fields_ok P h \<longleftrightarrow> (let new = new_expr_head\<lparr>e_kind := e_kind h\<rparr> in case e_kind h of
       Expr_Var \<Rightarrow> str_ok (e_name h) \<and> h = new\<lparr>e_name := e_name h\<rparr>
     | Expr_LitInt \<Rightarrow> - (2 ^ 31) \<le> e_lit_i h \<and> e_lit_i h < 2 ^ 31 \<and>
         h = new\<lparr>e_lit_i := e_lit_i h, e_lit := long_to_double P (e_lit_i h)\<rparr>
     | Expr_LitReal \<Rightarrow> h = new\<lparr>e_lit := e_lit h\<rparr>
     | Expr_LitStr \<Rightarrow> str_ok (e_lit_s h) \<and> h = new\<lparr>e_lit_s := e_lit_s h\<rparr>
     | Expr_FunApp \<Rightarrow> str_ok (e_name h) \<and>
         h = new\<lparr>e_fn_lib := e_fn_lib h, e_name := e_name h, e_fn_propto := e_fn_propto h\<rparr>
     | _ \<Rightarrow> h = new)"

definition list_ok :: "('a \<Rightarrow> bool) \<Rightarrow> 'a list \<Rightarrow> bool" where
  "list_ok ok xs \<longleftrightarrow> int (length xs) \<le> kMaxListItems \<and> (\<forall>x \<in> set xs. ok x)"

lemma list_ok_cong [fundef_cong]:
  "xs = ys \<Longrightarrow> (\<And>x. x \<in> set ys \<Longrightarrow> ok x = ok' x) \<Longrightarrow> list_ok ok xs = list_ok ok' ys"
  by (simp add: list_ok_def)

fun expr_ok :: "Platform \<Rightarrow> Expr \<Rightarrow> bool" where
  "expr_ok P (Expr h args) \<longleftrightarrow> fields_ok P (strip_meta h) \<and> meta_ok h \<and>
     (if has_expr_args (e_kind h) then list_ok (expr_ok P) args else args = [])"

fun expr_peak :: "nat \<Rightarrow> Expr \<Rightarrow> nat" where
  "expr_peak d (Expr h args) = max (Suc d) (if has_expr_args (e_kind h) then list_peak expr_peak (Suc d) args else 0)"

section \<open>Views and expressions\<close>

lemma add_v2_list_eq: "add_v2_list wr xs = add_u32 (int (length xs)) @ concat (map wr xs)"
  by (simp add: add_v2_list_def)

lemma tag_of_nth: "distinct tags \<Longrightarrow> i < length tags \<Longrightarrow> tag_of tags (tags ! i) = int i"
proof (induction tags arbitrary: i)
  case (Cons t tags)
  then show ?case by (cases i) (auto simp: tag_of_def)
qed simp

lemma accepts_distinct_tag:
  "distinct tags \<Longrightarrow> accepts (read_tag tags m) (\<lambda>x w k. x \<in> set tags \<and> w = add_u8 (tag_of tags x) \<and> k = 0)"
  by (rule accepts_mono [OF accepts_tag]) (auto simp: tag_of_nth)

lemma parses_distinct_tag:
  assumes "distinct tags" "x \<in> set tags" "length tags \<le> 256"
  shows "parses M (read_tag tags m) (add_u8 (tag_of tags x)) 0 x"
proof -
  from assms(2) obtain i where "i < length tags" "x = tags ! i" by (auto simp: in_set_conv_nth)
  with assms show ?thesis by (simp add: tag_of_nth parses_tag)
qed

lemma distinct_tags [simp]:
  "distinct kLeafTags" "distinct kExprTags" "distinct kLibraryTags" "distinct kTransformTags" "distinct kStmtTags"
  "length kLeafTags \<le> 256" "length kExprTags \<le> 256" "length kLibraryTags \<le> 256"
  "length kTransformTags \<le> 256" "length kStmtTags \<le> 256"
  unfolding kLeafTags_def kExprTags_def kLibraryTags_def kTransformTags_def kStmtTags_def by simp_all

lemma in_kLeafTags [simp]: "x \<in> set kLeafTags"
  by (cases x) (simp_all add: kLeafTags_def)

lemma in_kExprTags [simp]: "x \<in> set kExprTags"
  by (cases x) (simp_all add: kExprTags_def)

lemma in_kLibraryTags [simp]: "x \<in> set kLibraryTags"
  by (cases x) (simp_all add: kLibraryTags_def)

lemma in_kStmtTags [simp]: "x \<in> set kStmtTags"
  by (cases x) (simp_all add: kStmtTags_def)

lemma in_kTransformTags [simp]: "x \<in> set kTransformTags \<longleftrightarrow> x \<noteq> Tr_StochasticColumn \<and> x \<noteq> Tr_StochasticRow"
  by (cases x) (simp_all add: kTransformTags_def)

text \<open>Sequencing rules whose bytes are given: the fields of depth \<open>0\<close> first.\<close>

lemma parses_then:
  assumes "parses M m w 0 x" "parses M (f x) w' k y"
  shows "parses M (rd_bind m f) (w @ w') k y"
  using assms by (rule parses_bind) simp_all

lemma parses_seq:
  assumes "parses M m w k x" "parses M (f x) w' k' y" "l = max k k'"
  shows "parses M (rd_bind m f) (w @ w') l y"
  using assms by (intro parses_bind) simp_all

lemma parses_last:
  assumes "parses M m w k x" "y = g x"
  shows "parses M (rd_bind m (\<lambda>x. rd_return (g x))) w k y"
  unfolding assms(2) by (rule parses_bind [OF assms(1) parses_return]) simp_all

lemma accepts_string': "accepts rd_string (\<lambda>s w k. str_ok s \<and> w = add_v2_string s \<and> k = 0)"
  by (rule accepts_mono [OF accepts_string]) (simp add: str_ok_def)

lemma parses_string': "str_ok s \<Longrightarrow> parses M rd_string (add_v2_string s) 0 s"
  by (simp add: str_ok_def parses_string)

lemma accepts_view: "accepts read_view (\<lambda>v w k. view_ok v \<and> w = add_v2_view v \<and> k = 0)"
  unfolding read_view_def
  by (rule accepts_bind [OF accepts_u8], rule accepts_bind [OF accepts_distinct_tag], simp, rule accepts_return)
    (simp add: view_ok_def add_v2_view_def)

lemma parses_view: "view_ok v \<Longrightarrow> parses M read_view (add_v2_view v) 0 v"
  unfolding read_view_def add_v2_view_def
  by (rule parses_then [OF parses_u8], simp_all add: view_ok_def)
    (rule parses_last [OF parses_distinct_tag], simp_all)

interpretation view_field: codec P "\<lambda>_. read_view" add_v2_view view_ok "\<lambda>_ _. 0"
proof
  show "accepts read_view (\<lambda>x w k. view_ok x \<and> 0 \<le> 2 * nesting_limit P \<and> w = add_v2_view x \<and> k = 0)"
    by (rule accepts_mono [OF accepts_view]) simp
qed (simp_all add: parses_view, simp add: add_v2_view_def add_u8_def)

lemma accepts_fields:
  "accepts (read_expr_fields P (new_expr_head\<lparr>e_kind := kind\<rparr>)) (\<lambda>h w k. fields_ok P h \<and> e_kind h = kind \<and>
     strip_meta h = h \<and> w = add_v2_expr_fields h \<and> k = 0)"
  unfolding read_expr_fields_def
  by (cases kind; simp;
      (rule accepts_bind [OF accepts_string'] accepts_bind [OF accepts_i32] accepts_bind [OF accepts_f64]
        accepts_bind [OF accepts_boolean] accepts_bind [OF accepts_distinct_tag [of kLibraryTags]] accepts_return | simp)+)
    (simp_all add: fields_ok_def strip_meta_def add_v2_expr_fields_def new_expr_head_def)

lemma accepts_meta:
  assumes "strip_meta v = v"
  shows "accepts (read_meta v) (\<lambda>h w k. strip_meta h = v \<and> meta_ok h \<and> w = add_v2_meta h \<and> k = 0)"
  unfolding read_meta_def
  by (rule accepts_bind [OF accepts_string'], rule accepts_bind [OF accepts_view],
      rule accepts_bind [OF accepts_boolean], rule accepts_bind [OF accepts_boolean],
      rule accepts_bind [OF accepts_string'], rule accepts_return)
    (use assms in \<open>simp add: meta_ok_def strip_meta_def add_v2_meta_def\<close>)

lemma parses_fields:
  assumes "fields_ok P h"
  shows "parses M (read_expr_fields P (new_expr_head\<lparr>e_kind := e_kind h\<rparr>)) (add_v2_expr_fields h) 0 h"
proof -
  have e: "e_kind (new_expr_head\<lparr>e_kind := e_kind h\<rparr>) = e_kind h" by simp
  show ?thesis
    using assms unfolding read_expr_fields_def add_v2_expr_fields_def fields_ok_def Let_def e
    by (cases "e_kind h"; simp only: ExprKind.case;
        (intro parses_then [OF parses_distinct_tag] parses_then [OF parses_string']
          parses_last [OF parses_string'] parses_last [OF parses_i32] parses_last [OF parses_f64]
          parses_last [OF parses_boolean] parses_return)?; simp?)
qed

lemma parses_meta:
  assumes "meta_ok h" "strip_meta h = v"
  shows "parses M (read_meta v) (add_v2_meta h) 0 h"
  unfolding read_meta_def add_v2_meta_def
  by (rule parses_then [OF parses_string'], use assms in \<open>simp add: meta_ok_def\<close>,
      rule parses_then [OF parses_view], use assms in \<open>simp add: meta_ok_def\<close>,
      rule parses_then [OF parses_boolean], rule parses_then [OF parses_boolean],
      rule parses_last [OF parses_string'])
    (use assms in \<open>auto simp: meta_ok_def strip_meta_def\<close>)

definition expr_args_peak :: "nat \<Rightarrow> ExprHead \<Rightarrow> Expr list \<Rightarrow> nat" where
  "expr_args_peak d h args = (if has_expr_args (e_kind h) then list_peak expr_peak d args else 0)"

lemma expr_peak_eq: "expr_peak d x = max (Suc d) (expr_args_peak (Suc d) (e_head x) (e_args x))"
  by (cases x) (simp add: expr_args_peak_def)

lemma e_kind_strip [simp]: "e_kind (strip_meta h) = e_kind h"
  "add_v2_expr_fields (strip_meta h) = add_v2_expr_fields h" "strip_meta (strip_meta h) = strip_meta h"
  by (simp_all add: strip_meta_def add_v2_expr_fields_def cong: ExprKind.case_cong)

lemma read_expr_writes_out:
  "accepts (read_expr P d) (\<lambda>x w k. expr_ok P x \<and> expr_peak d x \<le> 2 * nesting_limit P \<and> w = add_v2_expr x \<and>
     k = expr_peak d x)"
proof (induction P d rule: read_expr.induct)
  case (1 P d)
  let ?lim = "2 * nesting_limit P"
  have args: "accepts (if has_expr_args kind then rd_list P (sizeof_Expr P) (read_expr P) (Suc d) else rd_return [])
      (\<lambda>xs w k. (if has_expr_args kind then list_ok (expr_ok P) xs \<and> w = add_v2_list add_v2_expr xs \<and>
           k = list_peak expr_peak (Suc d) xs \<and> k \<le> ?lim
         else xs = [] \<and> w = [] \<and> k = 0))" if "d < ?lim" for kind
  proof (cases "has_expr_args kind")
    case args: True
    have "accepts (read_expr P (Suc (Suc d))) (\<lambda>x w k. (expr_ok P x \<and> expr_peak (Suc (Suc d)) x \<le> ?lim) \<and>
        w = add_v2_expr x \<and> k = expr_peak (Suc (Suc d)) x)" if "Suc d < ?lim"
      using 1 [of kind] \<open>d < ?lim\<close> that args by (auto elim!: accepts_mono)
    from accepts_list [where rd = "read_expr P" and d = "Suc d" and pk = expr_peak and P = P and sz = "sizeof_Expr P", OF this]
    show ?thesis using args by (auto elim!: accepts_mono simp: list_ok_def list_peak_le)
  qed (simp add: accepts_return)
  show ?case
    unfolding read_expr.simps [of P d]
    by (rule accepts_depth [where Q = "\<lambda>x w k. expr_ok P x \<and> w = add_v2_expr x \<and>
            k = expr_args_peak (Suc d) (e_head x) (e_args x) \<and> k \<le> ?lim"],
        rule accepts_bind [OF accepts_distinct_tag], simp, rule accepts_bind [OF accepts_fields],
        erule accepts_bind [OF args], rule accepts_bind [OF accepts_meta], simp, rule accepts_return)
      (auto simp: expr_peak_eq expr_args_peak_def add_v2_list_eq split: if_splits)
qed

lemma max_sizeof_ge [simp]:
  "sizeof_Expr P \<le> max_sizeof P" "sizeof_Stmt P \<le> max_sizeof P" "sizeof_FunDef P \<le> max_sizeof P"
  "sizeof_UnsizedView P \<le> max_sizeof P" "sizeof_bool P \<le> max_sizeof P" "sizeof_string P \<le> max_sizeof P"
  "sizeof_input P \<le> max_sizeof P"
  unfolding max_sizeof_def by (rule Max_ge; simp)+

lemma add_v2_expr_nonempty: "add_v2_expr x \<noteq> []"
  by (cases x) (simp add: add_u8_def)

lemma read_expr_reads_back:
  "sized P \<Longrightarrow> expr_ok P x \<Longrightarrow> expr_peak d x \<le> 2 * nesting_limit P \<Longrightarrow>
     parses (max_sizeof P) (read_expr P d) (add_v2_expr x) (expr_peak d x) x"
proof (induction x arbitrary: d)
  case (Expr h args)
  have args: "parses (max_sizeof P) (if has_expr_args (e_kind h) then rd_list P (sizeof_Expr P) (read_expr P) (Suc d)
        else rd_return [])
      (if has_expr_args (e_kind h) then add_v2_list add_v2_expr args else []) (expr_args_peak (Suc d) h args) args"
  proof (cases "has_expr_args (e_kind h)")
    case True
    then have "parses (max_sizeof P) (rd_list P (sizeof_Expr P) (read_expr P) (Suc d)) (add_v2_list add_v2_expr args)
        (list_peak expr_peak (Suc d) args) args"
      using Expr by (intro parses_list) (auto simp: sized_def list_ok_def list_peak_le add_v2_expr_nonempty)
    with True show ?thesis by (simp add: expr_args_peak_def)
  qed (use Expr.prems in \<open>simp add: expr_args_peak_def parses_return\<close>)
  show ?case
    unfolding read_expr.simps [of P d]
  proof (rule parses_depth [where k = "expr_args_peak (Suc d) h args"])
    have m: "parses (max_sizeof P) (rd_bind (read_meta (strip_meta h)) (\<lambda>value. rd_return (Expr value args)))
        (add_v2_meta h) 0 (Expr h args)"
      using Expr.prems by (intro parses_last [OF parses_meta]) simp_all
    have f: "parses (max_sizeof P) (read_expr_fields P (new_expr_head\<lparr>e_kind := e_kind h\<rparr>)) (add_v2_expr_fields h) 0
        (strip_meta h)"
      using parses_fields [of P "strip_meta h"] Expr.prems by simp
    show "parses (max_sizeof P) (rd_bind (read_tag kExprTags ''unknown expression tag'') (\<lambda>kind.
     rd_bind (read_expr_fields P (new_expr_head\<lparr>e_kind := kind\<rparr>)) (\<lambda>value.
     rd_bind (if has_expr_args kind then rd_list P (sizeof_Expr P) (read_expr P) (Suc d) else rd_return []) (\<lambda>args.
     rd_bind (read_meta value) (\<lambda>value. rd_return (Expr value args))))))
     (add_v2_expr (Expr h args)) (expr_args_peak (Suc d) h args) (Expr h args)"
      unfolding add_v2_expr.simps add_v2_list_eq [symmetric]
      by (rule parses_then, rule parses_distinct_tag, simp_all only: in_kExprTags distinct_tags,
          rule parses_then, rule f, rule parses_bind, rule args, rule m) simp_all
  qed (use Expr.prems in \<open>simp_all add: expr_args_peak_def\<close>)
qed

interpretation expr_field: codec P "read_expr P" add_v2_expr "expr_ok P" expr_peak
  by unfold_locales (rule read_expr_writes_out, erule (2) read_expr_reads_back, rule add_v2_expr_nonempty)

section \<open>Types, transforms and statements\<close>

definition exprs_ok :: "Platform \<Rightarrow> Expr list \<Rightarrow> bool" where
  "exprs_ok P = list_ok (expr_ok P)"

abbreviation exprs_peak :: "nat \<Rightarrow> Expr list \<Rightarrow> nat" where
  "exprs_peak \<equiv> list_peak expr_peak"

lemma accepts_exprs:
  "accepts (read_exprs P d) (\<lambda>xs w k. exprs_ok P xs \<and> exprs_peak d xs \<le> 2 * nesting_limit P \<and>
     w = add_v2_list add_v2_expr xs \<and> k = exprs_peak d xs)"
  unfolding read_exprs_def by (rule accepts_mono [OF expr_field.list_writes_out]) (auto simp: exprs_ok_def list_ok_def)

lemma parses_exprs:
  "sized P \<Longrightarrow> exprs_ok P xs \<Longrightarrow> exprs_peak d xs \<le> 2 * nesting_limit P \<Longrightarrow>
     parses (max_sizeof P) (read_exprs P d) (add_v2_list add_v2_expr xs) (exprs_peak d xs) xs"
  unfolding read_exprs_def exprs_ok_def list_ok_def
  by (rule expr_field.list_reads_back) (auto simp: sized_def)

definition transform_ok :: "Platform \<Rightarrow> Transform \<Rightarrow> bool" where
  "transform_ok P t \<longleftrightarrow> exprs_ok P (t_args t) \<and> str_ok (t_raw t) \<and>
     (t_kind t = Tr_Unsupported \<longrightarrow> t_raw t \<notin> {''StochasticColumn'', ''StochasticRow''}) \<and>
     (t_kind t = Tr_StochasticColumn \<longrightarrow> t_raw t = ''StochasticColumn'') \<and>
     (t_kind t = Tr_StochasticRow \<longrightarrow> t_raw t = ''StochasticRow'')"

definition transform_peak :: "nat \<Rightarrow> Transform \<Rightarrow> nat" where
  "transform_peak d t = max (Suc d) (exprs_peak (Suc d) (t_args t))"

definition optional_ok :: "Platform \<Rightarrow> Transform option \<Rightarrow> bool" where
  "optional_ok P t \<longleftrightarrow> (case t of None \<Rightarrow> True | Some t \<Rightarrow> transform_ok P t)"

definition optional_peak :: "nat \<Rightarrow> Transform option \<Rightarrow> nat" where
  "optional_peak d t = (case t of None \<Rightarrow> 0 | Some t \<Rightarrow> transform_peak d t)"

definition sized_ok :: "Platform \<Rightarrow> SizedType \<Rightarrow> bool" where
  "sized_ok P s \<longleftrightarrow> str_ok (s_base s) \<and> exprs_ok P (s_dims s) \<and> str_ok (s_elem_base s) \<and> str_ok (s_raw s) \<and>
     s_unsized s = new_view"

definition sized_peak :: "nat \<Rightarrow> SizedType \<Rightarrow> nat" where
  "sized_peak d s = max (Suc d) (exprs_peak (Suc d) (s_dims s))"

lemma accepts_transform:
  "accepts (read_transform P d) (\<lambda>t w k. transform_ok P t \<and> transform_peak d t \<le> 2 * nesting_limit P \<and>
     w = add_v2_transform t \<and> k = transform_peak d t)"
  unfolding read_transform_def
  by (rule accepts_depth [where Q = "\<lambda>t w k. transform_ok P t \<and> exprs_peak (Suc d) (t_args t) \<le> 2 * nesting_limit P \<and>
          w = add_v2_transform t \<and> k = exprs_peak (Suc d) (t_args t)"],
      rule accepts_bind [OF accepts_distinct_tag], simp, rule accepts_bind [OF accepts_exprs],
      rule accepts_bind [OF accepts_string'], rule accepts_return)
    (auto simp: transform_ok_def transform_peak_def add_v2_transform_def transform_tag_def)

lemma parses_transform:
  assumes "sized P" "transform_ok P t" "transform_peak d t \<le> 2 * nesting_limit P"
  shows "parses (max_sizeof P) (read_transform P d) (add_v2_transform t) (transform_peak d t) t"
  unfolding read_transform_def
proof (rule parses_depth [where k = "exprs_peak (Suc d) (t_args t)"])
  define kind where "kind = (if t_kind t \<in> {Tr_StochasticColumn, Tr_StochasticRow} then Tr_Unsupported else t_kind t)"
  have k: "kind \<in> set kTransformTags" "transform_tag (t_kind t) = tag_of kTransformTags kind"
    by (auto simp: kind_def transform_tag_def)
  show "parses (max_sizeof P) (rd_bind (read_tag kTransformTags ''unknown transform tag'') (\<lambda>kind.
     rd_bind (read_exprs P (Suc d)) (\<lambda>args. rd_bind rd_string (\<lambda>raw.
     rd_return \<lparr>t_kind = (if kind = Tr_Unsupported then
           (if raw = ''StochasticColumn'' then Tr_StochasticColumn
            else if raw = ''StochasticRow'' then Tr_StochasticRow else kind) else kind),
         t_args = args, t_raw = raw\<rparr>))))
     (add_v2_transform t) (exprs_peak (Suc d) (t_args t)) t"
    unfolding add_v2_transform_def k(2)
    by (rule parses_then, rule parses_distinct_tag, simp, rule k(1), simp, rule parses_seq [where k' = 0],
        rule parses_exprs [OF assms(1)], use assms in \<open>simp add: transform_ok_def\<close>,
        use assms in \<open>simp add: transform_peak_def\<close>, rule parses_last, rule parses_string',
        use assms in \<open>auto simp: transform_ok_def kind_def intro!: Transform.equality\<close>)
qed (use assms in \<open>simp_all add: transform_peak_def\<close>)

lemma accepts_optional:
  "accepts (read_optional_transform P d) (\<lambda>t w k. optional_ok P t \<and> optional_peak d t \<le> 2 * nesting_limit P \<and>
     w = add_v2_optional t \<and> k = optional_peak d t)"
  unfolding read_optional_transform_def
proof (rule accepts_bind [OF accepts_u8])
  fix x w and k :: nat assume "0 \<le> x \<and> x < 256 \<and> w = add_u8 x \<and> k = 0"
  then have x: "x = 0 \<or> x = 1 \<or> 1 < x" and w: "w = add_u8 x" "k = 0" by auto
  have s: "accepts (rd_bind (read_transform P d) (\<lambda>t. rd_return (Some t)))
     (\<lambda>t w' k'. optional_ok P t \<and> optional_peak d t \<le> 2 * nesting_limit P \<and> add_u8 1 @ w' = add_v2_optional t \<and>
        k' = optional_peak d t)"
    by (rule accepts_bind [OF accepts_transform], rule accepts_return)
      (auto simp: optional_ok_def optional_peak_def add_v2_optional_def)
  from x show "accepts (if 1 < x then rd_fail ''optional marker is not 0 or 1''
      else if x = 0 then rd_return None else rd_bind (read_transform P d) (\<lambda>t. rd_return (Some t)))
     (\<lambda>t w' k'. optional_ok P t \<and> optional_peak d t \<le> 2 * nesting_limit P \<and> w @ w' = add_v2_optional t \<and>
        max k k' = optional_peak d t)"
    using s w by (auto intro!: accepts_fail accepts_return simp: optional_ok_def optional_peak_def add_v2_optional_def)
qed

lemma parses_optional:
  assumes "sized P" "optional_ok P t" "optional_peak d t \<le> 2 * nesting_limit P"
  shows "parses (max_sizeof P) (read_optional_transform P d) (add_v2_optional t) (optional_peak d t) t"
proof (cases t)
  case None
  have "parses (max_sizeof P) (read_optional_transform P d) (add_u8 0 @ []) 0 None"
    unfolding read_optional_transform_def by (rule parses_then, rule parses_u8) (simp_all add: parses_return)
  then show ?thesis using None by (simp add: add_v2_optional_def optional_peak_def)
next
  case (Some t')
  have "parses (max_sizeof P) (rd_bind (read_transform P d) (\<lambda>t. rd_return (Some t))) (add_v2_transform t')
      (transform_peak d t') (Some t')"
    using assms Some by (intro parses_last [OF parses_transform]) (simp_all add: optional_ok_def optional_peak_def)
  then have "parses (max_sizeof P) (read_optional_transform P d) (add_u8 1 @ add_v2_transform t') (transform_peak d t') (Some t')"
    unfolding read_optional_transform_def by (intro parses_then [OF parses_u8]) simp_all
  then show ?thesis using Some by (simp add: add_v2_optional_def optional_peak_def)
qed

lemma accepts_sized:
  "accepts (read_sized P d) (\<lambda>t w k. sized_ok P t \<and> sized_peak d t \<le> 2 * nesting_limit P \<and>
     w = add_v2_sized t \<and> k = sized_peak d t)"
  unfolding read_sized_def
  by (rule accepts_depth [where Q = "\<lambda>t w k. sized_ok P t \<and> exprs_peak (Suc d) (s_dims t) \<le> 2 * nesting_limit P \<and>
          w = add_v2_sized t \<and> k = exprs_peak (Suc d) (s_dims t)"],
      rule accepts_bind [OF accepts_string'], rule accepts_bind [OF accepts_exprs],
      rule accepts_bind [OF accepts_string'], rule accepts_bind [OF accepts_string'], rule accepts_return)
    (auto simp: sized_ok_def sized_peak_def add_v2_sized_def new_sized_def)

lemma parses_sized:
  assumes "sized P" "sized_ok P t" "sized_peak d t \<le> 2 * nesting_limit P"
  shows "parses (max_sizeof P) (read_sized P d) (add_v2_sized t) (sized_peak d t) t"
  unfolding read_sized_def add_v2_sized_def
  by (rule parses_depth [where k = "exprs_peak (Suc d) (s_dims t)"],
      rule parses_then [OF parses_string'], use assms in \<open>simp add: sized_ok_def\<close>,
      rule parses_seq [where k' = 0], rule parses_exprs [OF assms(1)],
      use assms in \<open>simp add: sized_ok_def\<close>, use assms in \<open>simp add: sized_peak_def\<close>,
      rule parses_then [OF parses_string'], use assms in \<open>simp add: sized_ok_def\<close>,
      rule parses_last [OF parses_string'], use assms in \<open>simp add: sized_ok_def\<close>)
    (use assms in \<open>auto simp: sized_ok_def sized_peak_def new_sized_def intro!: SizedType.equality\<close>)

subsection \<open>Statements\<close>

definition init_ok :: "Platform \<Rightarrow> bool \<Rightarrow> Expr \<Rightarrow> bool" where
  "init_ok P has_init e \<longleftrightarrow> (if has_init then expr_ok P e else e = new_expr)"

definition init_peak :: "nat \<Rightarrow> bool \<Rightarrow> Expr \<Rightarrow> nat" where
  "init_peak d has_init e = (if has_init then expr_peak d e else 0)"

definition join_transform :: "StmtHead \<Rightarrow> StmtHead" where
  "join_transform h = (if st_kind h = Stmt_NRFunApp \<and> st_fn_name h = ''FnWriteParam''
     then h\<lparr>st_check_transform := st_write_transform h, st_write_transform := None\<rparr> else h)"

text \<open>The fields as they are on the wire, before \<open>split_transform\<close> and without \<^verbatim>\<open>raw\<close>.\<close>

definition wire_ok :: "Platform \<Rightarrow> StmtHead \<Rightarrow> bool" where
  "wire_ok P h \<longleftrightarrow> (let new = new_stmt_head\<lparr>st_kind := st_kind h\<rparr> in case st_kind h of
       Stmt_Decl \<Rightarrow> str_ok (st_decl_id h) \<and> sized_ok P (st_decl_type h) \<and>
         init_ok P (st_has_init h) (st_init h) \<and> optional_ok P (st_read_transform h) \<and> exprs_ok P (st_read_dims h) \<and>
         h = new\<lparr>st_decl_id := st_decl_id h, st_decl_type := st_decl_type h,
           st_decl_data_only := st_decl_data_only h, st_has_init := st_has_init h, st_init := st_init h,
           st_read_transform := st_read_transform h, st_read_dims := st_read_dims h\<rparr>
     | Stmt_Assignment \<Rightarrow> str_ok (st_lhs h) \<and> exprs_ok P (st_lhs_idx h) \<and> expr_ok P (st_rhs h) \<and>
         h = new\<lparr>st_lhs := st_lhs h, st_lhs_idx := st_lhs_idx h, st_rhs := st_rhs h\<rparr>
     | Stmt_TargetPE \<Rightarrow> expr_ok P (st_target h) \<and> h = new\<lparr>st_target := st_target h\<rparr>
     | Stmt_For \<Rightarrow> str_ok (st_loopvar h) \<and> expr_ok P (st_lower h) \<and> expr_ok P (st_upper h) \<and>
         h = new\<lparr>st_loopvar := st_loopvar h, st_lower := st_lower h, st_upper := st_upper h\<rparr>
     | Stmt_IfElse \<Rightarrow> expr_ok P (st_cond h) \<and> h = new\<lparr>st_cond := st_cond h\<rparr>
     | Stmt_While \<Rightarrow> expr_ok P (st_cond h) \<and> h = new\<lparr>st_cond := st_cond h\<rparr>
     | Stmt_NRFunApp \<Rightarrow> str_ok (st_fn_name h) \<and> exprs_ok P (st_fn_args h) \<and> optional_ok P (st_check_transform h) \<and>
         str_ok (st_check_var_name h) \<and>
         h = new\<lparr>st_fn_name := st_fn_name h, st_fn_args := st_fn_args h,
           st_check_transform := st_check_transform h, st_check_var_name := st_check_var_name h\<rparr>
     | Stmt_Return \<Rightarrow> init_ok P (st_has_init h) (st_rhs h) \<and>
         h = new\<lparr>st_has_init := st_has_init h, st_rhs := st_rhs h\<rparr>
     | _ \<Rightarrow> h = new)"

definition wire_peak :: "nat \<Rightarrow> StmtHead \<Rightarrow> nat" where
  "wire_peak d h = (case st_kind h of
       Stmt_Decl \<Rightarrow> max (sized_peak d (st_decl_type h)) (max (init_peak d (st_has_init h) (st_init h))
         (max (optional_peak d (st_read_transform h)) (exprs_peak d (st_read_dims h))))
     | Stmt_Assignment \<Rightarrow> max (exprs_peak d (st_lhs_idx h)) (expr_peak d (st_rhs h))
     | Stmt_TargetPE \<Rightarrow> expr_peak d (st_target h)
     | Stmt_For \<Rightarrow> max (expr_peak d (st_lower h)) (expr_peak d (st_upper h))
     | Stmt_IfElse \<Rightarrow> expr_peak d (st_cond h)
     | Stmt_While \<Rightarrow> expr_peak d (st_cond h)
     | Stmt_NRFunApp \<Rightarrow> max (exprs_peak d (st_fn_args h)) (optional_peak d (st_check_transform h))
     | Stmt_Return \<Rightarrow> init_peak d (st_has_init h) (st_rhs h)
     | _ \<Rightarrow> 0)"

definition wire_head :: "StmtHead \<Rightarrow> StmtHead" where
  "wire_head h = (join_transform h)\<lparr>st_raw := []\<rparr>"

definition stmt_head_ok :: "Platform \<Rightarrow> StmtHead \<Rightarrow> bool" where
  "stmt_head_ok P h \<longleftrightarrow> wire_ok P (wire_head h) \<and>
     (if st_kind h \<in> {Stmt_Break, Stmt_Continue} then st_raw h = [] else str_ok (st_raw h)) \<and>
     (st_kind h = Stmt_NRFunApp \<longrightarrow> st_fn_name h = ''FnWriteParam'' \<longrightarrow> st_check_transform h = None)"

fun stmt_ok :: "Platform \<Rightarrow> Stmt \<Rightarrow> bool" where
  "stmt_ok P (Stmt h body) \<longleftrightarrow> stmt_head_ok P h \<and>
     (if has_stmt_body (st_kind h) then list_ok (stmt_ok P) body else body = [])"

fun stmt_peak :: "nat \<Rightarrow> Stmt \<Rightarrow> nat" where
  "stmt_peak d (Stmt h body) = max (Suc d) (max (wire_peak (Suc d) (wire_head h))
     (if has_stmt_body (st_kind h) then list_peak stmt_peak (Suc d) body else 0))"

lemma accepts_init:
  "accepts (read_init P d has_init) (\<lambda>e w k. init_ok P has_init e \<and> init_peak d has_init e \<le> 2 * nesting_limit P \<and>
     w = (if has_init then add_v2_expr e else []) \<and> k = init_peak d has_init e)"
  unfolding read_init_def
  by (auto simp: init_ok_def init_peak_def intro: accepts_return accepts_mono [OF expr_field.writes_out])

lemma parses_init:
  "sized P \<Longrightarrow> init_ok P has_init e \<Longrightarrow> init_peak d has_init e \<le> 2 * nesting_limit P \<Longrightarrow>
     parses (max_sizeof P) (read_init P d has_init) (if has_init then add_v2_expr e else []) (init_peak d has_init e) e"
  unfolding read_init_def
  by (auto simp: init_ok_def init_peak_def intro: parses_return expr_field.reads_back)

lemma StmtHead_self: "h = new_stmt_head\<lparr>st_kind := k\<rparr> \<Longrightarrow> st_kind h = k"
  by simp

lemma accepts_stmt_fields:
  "accepts (read_stmt_fields P d (new_stmt_head\<lparr>st_kind := kind\<rparr>)) (\<lambda>h w k. wire_ok P h \<and> st_kind h = kind \<and>
     st_raw h = [] \<and> st_write_transform h = None \<and> wire_peak d h \<le> 2 * nesting_limit P \<and>
     w = add_v2_stmt_fields (split_transform h) \<and> k = wire_peak d h)"
  unfolding read_stmt_fields_def
  by (cases kind; simp;
      (rule accepts_bind [OF accepts_string'] accepts_bind [OF accepts_sized] accepts_bind [OF accepts_boolean]
        accepts_bind [OF accepts_init] accepts_bind [OF accepts_optional] accepts_bind [OF accepts_exprs]
        accepts_bind [OF expr_field.writes_out] accepts_return)+)
    (auto simp: wire_ok_def wire_peak_def add_v2_stmt_fields_def split_transform_def new_stmt_head_def Let_def)

lemma split_join:
  assumes "stmt_head_ok P h"
  shows "split_transform (join_transform h) = h"
proof (cases "st_kind h = Stmt_NRFunApp \<and> st_fn_name h = ''FnWriteParam''")
  case True
  with assms show ?thesis by (simp add: stmt_head_ok_def split_transform_def join_transform_def)
next
  case False
  then have "join_transform h = h" unfolding join_transform_def by (simp only: if_False)
  with False show ?thesis unfolding split_transform_def by (simp only: if_False)
qed

lemma join_split:
  assumes "st_write_transform h = None"
  shows "join_transform (split_transform h) = h"
proof (cases "st_kind h = Stmt_NRFunApp \<and> st_fn_name h = ''FnWriteParam''")
  case True
  with assms show ?thesis by (simp add: split_transform_def join_transform_def)
next
  case False
  then have "split_transform h = h" unfolding split_transform_def by (simp only: if_False)
  with False show ?thesis unfolding join_transform_def by (simp only: if_False)
qed

lemma parses_stmt_fields:
  assumes "sized P" "wire_ok P v" "wire_peak d v \<le> 2 * nesting_limit P"
  shows "parses (max_sizeof P) (read_stmt_fields P d (new_stmt_head\<lparr>st_kind := st_kind v\<rparr>))
           (add_v2_stmt_fields (split_transform v)) (wire_peak d v) v"
proof -
  have k: "st_kind (new_stmt_head\<lparr>st_kind := st_kind v\<rparr>) = st_kind v" "st_kind (split_transform v) = st_kind v"
    by (simp_all add: split_transform_def)
  have sf [simp]: "st_decl_id (split_transform v) = st_decl_id v" "st_decl_type (split_transform v) = st_decl_type v"
    "st_decl_data_only (split_transform v) = st_decl_data_only v" "st_has_init (split_transform v) = st_has_init v"
    "st_init (split_transform v) = st_init v" "st_read_transform (split_transform v) = st_read_transform v"
    "st_read_dims (split_transform v) = st_read_dims v" "st_lhs (split_transform v) = st_lhs v"
    "st_lhs_idx (split_transform v) = st_lhs_idx v" "st_rhs (split_transform v) = st_rhs v"
    "st_target (split_transform v) = st_target v" "st_loopvar (split_transform v) = st_loopvar v"
    "st_lower (split_transform v) = st_lower v" "st_upper (split_transform v) = st_upper v"
    "st_cond (split_transform v) = st_cond v" "st_fn_name (split_transform v) = st_fn_name v"
    "st_fn_args (split_transform v) = st_fn_args v" "st_check_var_name (split_transform v) = st_check_var_name v"
    by (simp_all add: split_transform_def)
  have t: "st_kind v = Stmt_NRFunApp \<Longrightarrow> (if st_fn_name v = ''FnWriteParam'' then st_write_transform (split_transform v)
      else st_check_transform (split_transform v)) = st_check_transform v"
    by (simp add: split_transform_def)
  note rules = parses_string' parses_sized [OF assms(1)] parses_boolean parses_init [OF assms(1)]
    parses_optional [OF assms(1)] parses_exprs [OF assms(1)] expr_field.reads_back [OF assms(1)]
  have plain: ?thesis if kind: "st_kind v \<in> {Stmt_Block, Stmt_SList, Stmt_Break, Stmt_Continue, Stmt_Skip, Stmt_Unsupported}"
  proof -
    have "read_stmt_fields P d (new_stmt_head\<lparr>st_kind := st_kind v\<rparr>) = rd_return (new_stmt_head\<lparr>st_kind := st_kind v\<rparr>)"
      using kind unfolding read_stmt_fields_def k by (auto split: StmtKind.split)
    moreover have "add_v2_stmt_fields (split_transform v) = []" "wire_peak d v = 0"
      using kind unfolding add_v2_stmt_fields_def wire_peak_def k by (auto split: StmtKind.split)
    moreover have "v = new_stmt_head\<lparr>st_kind := st_kind v\<rparr>"
      using kind assms(2) unfolding wire_ok_def Let_def by (auto split: StmtKind.splits)
    ultimately show ?thesis using parses_return [of "max_sizeof P" v] by simp
  qed
  show ?thesis
  proof (cases "st_kind v")
    case Stmt_Decl
    with assms show ?thesis
      unfolding read_stmt_fields_def add_v2_stmt_fields_def k wire_ok_def wire_peak_def Let_def sf
      by (simp only: StmtKind.case append_assoc)
        (rule parses_then, rule rules, simp, rule parses_seq, rule rules, simp, simp, rule parses_then, rule rules,
         rule parses_then, rule rules, rule parses_seq, rule rules, simp, simp, rule parses_seq, rule rules,
         simp, simp, rule parses_last, rule rules, simp_all)
  next
    case Stmt_NRFunApp
    with assms t show ?thesis
      unfolding read_stmt_fields_def add_v2_stmt_fields_def k wire_ok_def wire_peak_def Let_def sf
      by (simp only: StmtKind.case append_assoc)
        (rule parses_then, rule rules, simp, rule parses_seq, rule rules, simp, simp, rule parses_seq, rule rules,
         simp, simp, rule parses_last, rule rules, simp_all)
  next
    case Stmt_Assignment
    with assms show ?thesis
      unfolding read_stmt_fields_def add_v2_stmt_fields_def k wire_ok_def wire_peak_def Let_def sf
      by (simp only: StmtKind.case append_assoc)
        (rule parses_then, rule rules, simp, rule parses_seq, rule rules, simp, simp, rule parses_last, rule rules, simp_all)
  next
    case Stmt_For
    with assms show ?thesis
      unfolding read_stmt_fields_def add_v2_stmt_fields_def k wire_ok_def wire_peak_def Let_def sf
      by (simp only: StmtKind.case append_assoc)
        (rule parses_then, rule rules, simp, rule parses_seq, rule rules, simp, simp, rule parses_last, rule rules, simp_all)
  next
    case Stmt_Return
    with assms show ?thesis
      unfolding read_stmt_fields_def add_v2_stmt_fields_def k wire_ok_def wire_peak_def Let_def sf
      by (simp only: StmtKind.case append_assoc)
        (rule parses_then, rule rules, rule parses_last, rule rules, simp_all)
  next
    case Stmt_TargetPE
    with assms show ?thesis
      unfolding read_stmt_fields_def add_v2_stmt_fields_def k wire_ok_def wire_peak_def Let_def sf
      by (simp only: StmtKind.case) (rule parses_last, rule rules, simp_all)
  next
    case Stmt_IfElse
    with assms show ?thesis
      unfolding read_stmt_fields_def add_v2_stmt_fields_def k wire_ok_def wire_peak_def Let_def sf
      by (simp only: StmtKind.case) (rule parses_last, rule rules, simp_all)
  next
    case Stmt_While
    with assms show ?thesis
      unfolding read_stmt_fields_def add_v2_stmt_fields_def k wire_ok_def wire_peak_def Let_def sf
      by (simp only: StmtKind.case) (rule parses_last, rule rules, simp_all)
  qed (rule plain; simp)+
qed

text \<open>A statement read from its wire fields, its body and \<^verbatim>\<open>raw\<close>.\<close>

lemma finished_head:
  assumes "st_write_transform v = None" "st_raw v = []"
  shows "wire_head (split_transform (v\<lparr>st_raw := r\<rparr>)) = v" "st_kind (split_transform (v\<lparr>st_raw := r\<rparr>)) = st_kind v"
    "st_raw (split_transform (v\<lparr>st_raw := r\<rparr>)) = r"
    "add_v2_stmt_fields (split_transform (v\<lparr>st_raw := r\<rparr>)) = add_v2_stmt_fields (split_transform v)"
    "st_fn_name (split_transform (v\<lparr>st_raw := r\<rparr>)) = ''FnWriteParam'' \<Longrightarrow> st_kind v = Stmt_NRFunApp \<Longrightarrow>
       st_check_transform (split_transform (v\<lparr>st_raw := r\<rparr>)) = None"
proof -
  have "join_transform (split_transform (v\<lparr>st_raw := r\<rparr>)) = v\<lparr>st_raw := r\<rparr>"
    by (rule join_split) (simp add: assms)
  then show "wire_head (split_transform (v\<lparr>st_raw := r\<rparr>)) = v"
    using assms(2) by (simp add: wire_head_def)
  show "st_kind (split_transform (v\<lparr>st_raw := r\<rparr>)) = st_kind v" "st_raw (split_transform (v\<lparr>st_raw := r\<rparr>)) = r"
    "st_fn_name (split_transform (v\<lparr>st_raw := r\<rparr>)) = ''FnWriteParam'' \<Longrightarrow> st_kind v = Stmt_NRFunApp \<Longrightarrow>
       st_check_transform (split_transform (v\<lparr>st_raw := r\<rparr>)) = None"
    by (simp_all add: split_transform_def split: if_splits)
  show "add_v2_stmt_fields (split_transform (v\<lparr>st_raw := r\<rparr>)) = add_v2_stmt_fields (split_transform v)"
    by (simp add: split_transform_def add_v2_stmt_fields_def cong: StmtKind.case_cong)
qed

lemma unfinished_head:
  assumes "stmt_head_ok P h"
  shows "split_transform ((wire_head h)\<lparr>st_raw := st_raw h\<rparr>) = h" "st_kind (wire_head h) = st_kind h"
    "add_v2_stmt_fields (split_transform (wire_head h)) = add_v2_stmt_fields h"
proof -
  have "(wire_head h)\<lparr>st_raw := st_raw h\<rparr> = join_transform h"
    by (simp add: wire_head_def join_transform_def)
  then show e: "split_transform ((wire_head h)\<lparr>st_raw := st_raw h\<rparr>) = h"
    by (simp add: split_join [OF assms])
  show "st_kind (wire_head h) = st_kind h"
    by (simp add: wire_head_def join_transform_def)
  have "add_v2_stmt_fields (split_transform ((wire_head h)\<lparr>st_raw := st_raw h\<rparr>)) =
      add_v2_stmt_fields (split_transform (wire_head h))"
    by (simp add: split_transform_def add_v2_stmt_fields_def cong: StmtKind.case_cong)
  with e show "add_v2_stmt_fields (split_transform (wire_head h)) = add_v2_stmt_fields h" by simp
qed

lemma read_stmt_writes_out:
  "accepts (read_stmt P d) (\<lambda>x w k. stmt_ok P x \<and> stmt_peak d x \<le> 2 * nesting_limit P \<and> w = add_v2_stmt x \<and>
     k = stmt_peak d x)"
proof (induction P d rule: read_stmt.induct)
  case (1 P d)
  let ?lim = "2 * nesting_limit P"
  have body: "accepts (if has_stmt_body kind then rd_list P (sizeof_Stmt P) (read_stmt P) (Suc d) else rd_return [])
      (\<lambda>xs w k. (if has_stmt_body kind then list_ok (stmt_ok P) xs \<and> w = add_v2_list add_v2_stmt xs \<and>
           k = list_peak stmt_peak (Suc d) xs \<and> k \<le> ?lim
         else xs = [] \<and> w = [] \<and> k = 0))" if "d < ?lim" for kind
  proof (cases "has_stmt_body kind")
    case body: True
    have "accepts (read_stmt P (Suc (Suc d))) (\<lambda>x w k. (stmt_ok P x \<and> stmt_peak (Suc (Suc d)) x \<le> ?lim) \<and>
        w = add_v2_stmt x \<and> k = stmt_peak (Suc (Suc d)) x)" if "Suc d < ?lim"
      using 1 [of kind] \<open>d < ?lim\<close> that body by (auto elim!: accepts_mono)
    from accepts_list [where rd = "read_stmt P" and d = "Suc d" and pk = stmt_peak and P = P and sz = "sizeof_Stmt P", OF this]
    show ?thesis using body by (auto elim!: accepts_mono simp: list_ok_def list_peak_le)
  qed (simp add: accepts_return)
  have raw: "accepts (read_stmt_raw kind) (\<lambda>s w k. (if kind \<in> {Stmt_Break, Stmt_Continue} then s = [] \<and> w = []
      else str_ok s \<and> w = add_v2_string s) \<and> k = 0)" for kind
    by (auto simp: read_stmt_raw_def intro: accepts_return accepts_mono [OF accepts_string'])
  let ?peak = "\<lambda>x. max (wire_peak (Suc d) (wire_head (st_head x)))
      (if has_stmt_body (st_kind (st_head x)) then list_peak stmt_peak (Suc d) (st_body x) else 0)"
  show ?case
    unfolding read_stmt.simps [of P d]
  proof (rule accepts_depth [where Q = "\<lambda>x w k. stmt_ok P x \<and> w = add_v2_stmt x \<and> k = ?peak x \<and> k \<le> ?lim"],
        rule accepts_bind [OF accepts_distinct_tag], simp, rule accepts_bind [OF accepts_stmt_fields],
        erule accepts_bind [OF body], rule accepts_bind [OF raw], rule accepts_return, goal_cases)
    case (1 kind w1 k1 v w2 k2 body w3 k3 raw w4 k4)
    then have v: "st_write_transform v = None" "st_raw v = []" by simp_all
    from 1 show ?case
      by (auto simp: finished_head [OF v] stmt_head_ok_def add_v2_list_eq list_ok_def split: if_splits)
  next
    case (2 x w k)
    then show ?case by (cases x) auto
  qed
qed

lemma add_v2_stmt_nonempty: "add_v2_stmt x \<noteq> []"
  by (cases x) (simp add: add_u8_def)

lemma read_stmt_reads_back:
  "sized P \<Longrightarrow> stmt_ok P x \<Longrightarrow> stmt_peak d x \<le> 2 * nesting_limit P \<Longrightarrow>
     parses (max_sizeof P) (read_stmt P d) (add_v2_stmt x) (stmt_peak d x) x"
proof (induction x arbitrary: d)
  case (Stmt h body)
  let ?kind = "st_kind h" and ?body_peak = "if has_stmt_body (st_kind h) then list_peak stmt_peak (Suc d) body else 0"
  have h: "stmt_head_ok P h" using Stmt.prems by simp
  note head = unfinished_head [OF h]
  have body: "parses (max_sizeof P) (if has_stmt_body ?kind then rd_list P (sizeof_Stmt P) (read_stmt P) (Suc d)
        else rd_return [])
      (if has_stmt_body ?kind then add_v2_list add_v2_stmt body else []) ?body_peak body"
  proof (cases "has_stmt_body ?kind")
    case True
    then have "parses (max_sizeof P) (rd_list P (sizeof_Stmt P) (read_stmt P) (Suc d)) (add_v2_list add_v2_stmt body)
        (list_peak stmt_peak (Suc d) body) body"
      using Stmt by (intro parses_list) (auto simp: sized_def list_ok_def list_peak_le add_v2_stmt_nonempty)
    with True show ?thesis by simp
  qed (use Stmt.prems in \<open>simp add: parses_return\<close>)
  have raw: "parses (max_sizeof P) (rd_bind (read_stmt_raw ?kind) (\<lambda>raw.
        rd_return (Stmt (split_transform ((wire_head h)\<lparr>st_raw := raw\<rparr>)) body)))
      (if ?kind \<in> {Stmt_Break, Stmt_Continue} then [] else add_v2_string (st_raw h)) 0 (Stmt h body)"
  proof (rule parses_last)
    show "parses (max_sizeof P) (read_stmt_raw ?kind)
      (if ?kind \<in> {Stmt_Break, Stmt_Continue} then [] else add_v2_string (st_raw h)) 0 (st_raw h)"
      using h by (auto simp: read_stmt_raw_def stmt_head_ok_def intro: parses_return parses_string' split: if_splits)
  qed (simp add: head)
  have fields: "parses (max_sizeof P) (read_stmt_fields P (Suc d) (new_stmt_head\<lparr>st_kind := ?kind\<rparr>)) (add_v2_stmt_fields h)
      (wire_peak (Suc d) (wire_head h)) (wire_head h)"
    using parses_stmt_fields [of P "wire_head h" "Suc d"] Stmt.prems by (simp add: head stmt_head_ok_def)
  show ?case
    unfolding read_stmt.simps [of P d]
  proof (rule parses_depth [where k = "max (wire_peak (Suc d) (wire_head h)) ?body_peak"])
    show "parses (max_sizeof P) (rd_bind (read_tag kStmtTags ''unknown statement tag'') (\<lambda>kind.
     rd_bind (read_stmt_fields P (Suc d) (new_stmt_head\<lparr>st_kind := kind\<rparr>)) (\<lambda>value.
     rd_bind (if has_stmt_body kind then rd_list P (sizeof_Stmt P) (read_stmt P) (Suc d) else rd_return []) (\<lambda>body.
     rd_bind (read_stmt_raw kind) (\<lambda>raw.
     rd_return (Stmt (split_transform (value\<lparr>st_raw := raw\<rparr>)) body))))))
     (add_v2_stmt (Stmt h body)) (max (wire_peak (Suc d) (wire_head h)) ?body_peak) (Stmt h body)"
      unfolding add_v2_stmt.simps add_v2_list_eq [symmetric]
      by (rule parses_then, rule parses_distinct_tag, simp_all only: in_kStmtTags distinct_tags,
          rule parses_seq, rule fields, rule parses_seq, rule body, rule raw) simp_all
  qed (use Stmt.prems in simp_all)
qed

interpretation stmt_field: codec P "read_stmt P" add_v2_stmt "stmt_ok P" stmt_peak
  by unfold_locales (rule read_stmt_writes_out, erule (2) read_stmt_reads_back, rule add_v2_stmt_nonempty)

section \<open>Documents\<close>

definition fun_ok :: "Platform \<Rightarrow> FunDef \<Rightarrow> bool" where
  "fun_ok P f \<longleftrightarrow> str_ok (f_name f) \<and> list_ok str_ok (f_arg_names f) \<and> list_ok str_ok (f_arg_types f) \<and>
     list_ok view_ok (f_arg_views f) \<and> list_ok (\<lambda>_. True) (f_arg_data_only f) \<and> list_ok (stmt_ok P) (f_body f) \<and>
     length (f_arg_types f) = length (f_arg_names f) \<and> length (f_arg_views f) = length (f_arg_names f) \<and>
     length (f_arg_data_only f) = length (f_arg_names f)"

abbreviation flat_peak :: "nat \<Rightarrow> 'a list \<Rightarrow> nat" where
  "flat_peak \<equiv> list_peak (\<lambda>_ _. 0)"

definition fun_fields_peak :: "nat \<Rightarrow> FunDef \<Rightarrow> nat" where
  "fun_fields_peak d f = max (flat_peak d (f_arg_names f)) (max (flat_peak d (f_arg_types f))
     (max (flat_peak d (f_arg_views f)) (max (flat_peak d (f_arg_data_only f)) (list_peak stmt_peak d (f_body f)))))"

definition fun_peak :: "nat \<Rightarrow> FunDef \<Rightarrow> nat" where
  "fun_peak d f = max (Suc d) (fun_fields_peak (Suc d) f)"

definition input_ok :: "Platform \<Rightarrow> string \<times> SizedType \<Rightarrow> bool" where
  "input_ok P i \<longleftrightarrow> str_ok (fst i) \<and> sized_ok P (snd i)"

definition input_peak :: "nat \<Rightarrow> string \<times> SizedType \<Rightarrow> nat" where
  "input_peak d i = max (Suc d) (sized_peak (Suc d) (snd i))"

lemma accepts_list_ok:
  assumes "codec P rd wr ok pk"
  shows "accepts (rd_list P sz rd d) (\<lambda>xs w k. list_ok ok xs \<and> list_peak pk d xs \<le> 2 * nesting_limit P \<and>
     w = add_v2_list wr xs \<and> k = list_peak pk d xs)"
  by (rule accepts_mono [OF codec.list_writes_out [OF assms]]) (auto simp: list_ok_def)

lemma parses_list_ok:
  assumes "codec P rd wr ok pk"
  shows "sized P \<Longrightarrow> list_ok ok xs \<Longrightarrow> list_peak pk d xs \<le> 2 * nesting_limit P \<Longrightarrow> 0 < sz \<Longrightarrow> sz \<le> max_sizeof P \<Longrightarrow>
     parses (max_sizeof P) (rd_list P sz rd d) (add_v2_list wr xs) (list_peak pk d xs) xs"
  by (rule codec.list_reads_back [OF assms]) (auto simp: list_ok_def)

lemma string_codec: "codec P (\<lambda>_. rd_string) add_v2_string str_ok (\<lambda>_ _. 0)"
  using string_field.codec_axioms [of P] unfolding str_ok_def [abs_def] .

lemmas accepts_sections = accepts_list_ok [OF string_codec] accepts_list_ok [OF view_field.codec_axioms]
  accepts_list_ok [OF bool_field.codec_axioms] accepts_list_ok [OF stmt_field.codec_axioms]

lemmas parses_sections = parses_list_ok [OF string_codec] parses_list_ok [OF view_field.codec_axioms]
  parses_list_ok [OF bool_field.codec_axioms] parses_list_ok [OF stmt_field.codec_axioms]

lemma accepts_if:
  "(c \<Longrightarrow> accepts a R) \<Longrightarrow> (\<not> c \<Longrightarrow> accepts b R) \<Longrightarrow> accepts (if c then a else b) R"
  by simp

lemma accepts_fun:
  "accepts (read_fun P d) (\<lambda>f w k. fun_ok P f \<and> fun_peak d f \<le> 2 * nesting_limit P \<and> w = add_v2_fun f \<and> k = fun_peak d f)"
  unfolding read_fun_def read_strings_def read_stmts_def
  by (rule accepts_depth [where Q = "\<lambda>f w k. fun_ok P f \<and> w = add_v2_fun f \<and> k = fun_fields_peak (Suc d) f \<and>
          k \<le> 2 * nesting_limit P"],
      rule accepts_bind [OF accepts_string'], rule accepts_bind [OF accepts_sections(1)],
      rule accepts_bind [OF accepts_sections(1)], rule accepts_bind [OF accepts_sections(2)],
      rule accepts_bind [OF accepts_sections(3)], rule accepts_bind [OF accepts_sections(4)],
      rule accepts_if, rule accepts_fail, rule accepts_return)
    (simp_all add: fun_ok_def fun_peak_def fun_fields_peak_def add_v2_fun_def)

lemma parses_fun:
  assumes "sized P" "fun_ok P f" "fun_peak d f \<le> 2 * nesting_limit P"
  shows "parses (max_sizeof P) (read_fun P d) (add_v2_fun f) (fun_peak d f) f"
  unfolding read_fun_def read_strings_def read_stmts_def
proof (rule parses_depth [where k = "fun_fields_peak (Suc d) f"])
  note rules = parses_sections [OF assms(1)]
  have k: "flat_peak (Suc d) (f_arg_names f) \<le> 2 * nesting_limit P" "flat_peak (Suc d) (f_arg_types f) \<le> 2 * nesting_limit P"
    "flat_peak (Suc d) (f_arg_views f) \<le> 2 * nesting_limit P" "flat_peak (Suc d) (f_arg_data_only f) \<le> 2 * nesting_limit P"
    "list_peak stmt_peak (Suc d) (f_body f) \<le> 2 * nesting_limit P"
    using assms(3) by (simp_all add: fun_peak_def fun_fields_peak_def)
  have ok: "str_ok (f_name f)" "list_ok str_ok (f_arg_names f)" "list_ok str_ok (f_arg_types f)"
     "list_ok view_ok (f_arg_views f)" "list_ok (\<lambda>_. True) (f_arg_data_only f)" "list_ok (stmt_ok P) (f_body f)"
     "length (f_arg_types f) = length (f_arg_names f)" "length (f_arg_views f) = length (f_arg_names f)"
     "length (f_arg_data_only f) = length (f_arg_names f)"
    using assms(2) by (simp_all add: fun_ok_def)
  have sz: "0 < sizeof_string P" "0 < sizeof_UnsizedView P" "0 < sizeof_bool P" "0 < sizeof_Stmt P"
    using assms(1) by (simp_all add: sized_def)
  note names = rules(1) [OF ok(2) k(1) sz(1) max_sizeof_ge(6)] and types = rules(1) [OF ok(3) k(2) sz(1) max_sizeof_ge(6)]
    and views = rules(2) [OF ok(4) k(3) sz(2) max_sizeof_ge(4)] and levels = rules(3) [OF ok(5) k(4) sz(3) max_sizeof_ge(5)]
    and body = rules(4) [OF ok(6) k(5) sz(4) max_sizeof_ge(2)]
  have last: "parses (max_sizeof P) (if length (f_arg_types f) \<noteq> length (f_arg_names f) \<or>
      length (f_arg_views f) \<noteq> length (f_arg_names f) \<or> length (f_arg_data_only f) \<noteq> length (f_arg_names f)
       then rd_fail ''function argument field lengths disagree''
       else rd_return \<lparr>f_name = f_name f, f_arg_names = f_arg_names f, f_arg_types = f_arg_types f,
         f_arg_views = f_arg_views f, f_arg_data_only = f_arg_data_only f, f_body = f_body f\<rparr>) [] 0 f"
  proof -
    have eq: "\<lparr>f_name = f_name f, f_arg_names = f_arg_names f, f_arg_types = f_arg_types f,
         f_arg_views = f_arg_views f, f_arg_data_only = f_arg_data_only f, f_body = f_body f\<rparr> = f"
      by (cases f) simp
    show ?thesis unfolding eq using ok by (simp add: parses_return)
  qed
  show "parses (max_sizeof P) (rd_bind rd_string (\<lambda>name.
     rd_bind (rd_list P (sizeof_string P) (\<lambda>_. rd_string) (Suc d)) (\<lambda>arg_names.
     rd_bind (rd_list P (sizeof_string P) (\<lambda>_. rd_string) (Suc d)) (\<lambda>arg_types.
     rd_bind (rd_list P (sizeof_UnsizedView P) (\<lambda>_. read_view) (Suc d)) (\<lambda>arg_views.
     rd_bind (rd_list P (sizeof_bool P) (\<lambda>_. rd_boolean) (Suc d)) (\<lambda>arg_data_only.
     rd_bind (rd_list P (sizeof_Stmt P) (read_stmt P) (Suc d)) (\<lambda>body.
       if length arg_types \<noteq> length arg_names \<or> length arg_views \<noteq> length arg_names \<or>
          length arg_data_only \<noteq> length arg_names
       then rd_fail ''function argument field lengths disagree''
       else rd_return \<lparr>f_name = name, f_arg_names = arg_names, f_arg_types = arg_types,
         f_arg_views = arg_views, f_arg_data_only = arg_data_only, f_body = body\<rparr>)))))))
     (add_v2_fun f) (fun_fields_peak (Suc d) f) f"
    unfolding add_v2_fun_def fun_fields_peak_def
    by (rule parses_then, rule parses_string' [OF ok(1)], rule parses_seq, rule names, rule parses_seq, rule types,
        rule parses_seq, rule views, rule parses_seq, rule levels, rule parses_bind, rule body, rule last) simp_all
qed (use assms in \<open>simp_all add: fun_peak_def\<close>)

lemma add_v2_string_append_nonempty [simp]: "add_v2_string s @ w \<noteq> []"
  using string_field.nonempty [of s] by simp

interpretation fun_field: codec P "read_fun P" add_v2_fun "fun_ok P" fun_peak
  by unfold_locales (rule accepts_fun, erule (2) parses_fun, simp add: add_v2_fun_def string_field.nonempty)

lemma accepts_input:
  "accepts (read_input P d) (\<lambda>i w k. input_ok P i \<and> input_peak d i \<le> 2 * nesting_limit P \<and> w = add_v2_input i \<and>
     k = input_peak d i)"
  unfolding read_input_def
  by (rule accepts_depth [where Q = "\<lambda>i w k. input_ok P i \<and> w = add_v2_input i \<and> k = sized_peak (Suc d) (snd i) \<and>
          k \<le> 2 * nesting_limit P"],
      rule accepts_bind [OF accepts_string'], rule accepts_bind [OF accepts_sized], rule accepts_return)
    (auto simp: input_ok_def input_peak_def add_v2_input_def)

lemma parses_input:
  assumes "sized P" "input_ok P i" "input_peak d i \<le> 2 * nesting_limit P"
  shows "parses (max_sizeof P) (read_input P d) (add_v2_input i) (input_peak d i) i"
  unfolding read_input_def add_v2_input_def
  by (rule parses_depth [where k = "sized_peak (Suc d) (snd i)"],
      rule parses_then [OF parses_string'], use assms in \<open>simp add: input_ok_def\<close>,
      rule parses_last [OF parses_sized [OF assms(1)]])
    (use assms in \<open>simp_all add: input_ok_def input_peak_def\<close>)

interpretation input_field: codec P "read_input P" add_v2_input "input_ok P" input_peak
  by unfold_locales (rule accepts_input, erule (2) parses_input, simp add: add_v2_input_def string_field.nonempty)

definition inits_peak :: "MirProgram \<Rightarrow> nat" where
  "inits_peak p = (if has_transform_inits p then list_peak stmt_peak 0 (transform_inits p) else 0)"

definition program_peak :: "MirProgram \<Rightarrow> nat" where
  "program_peak p = max (list_peak input_peak 0 (input_vars p)) (max (list_peak stmt_peak 0 (prepare_data p))
     (max (list_peak stmt_peak 0 (log_prob p)) (max (list_peak stmt_peak 0 (generate_quantities p))
     (max (list_peak fun_peak 0 (fun_defs p)) (max (flat_peak 0 (output_vars p)) (inits_peak p))))))"

definition sections_ok :: "Platform \<Rightarrow> MirProgram \<Rightarrow> bool" where
  "sections_ok P p \<longleftrightarrow> list_ok (input_ok P) (input_vars p) \<and> list_ok (stmt_ok P) (prepare_data p) \<and>
     list_ok (stmt_ok P) (log_prob p) \<and> list_ok (stmt_ok P) (generate_quantities p) \<and> list_ok (fun_ok P) (fun_defs p) \<and>
     list_ok str_ok (output_vars p) \<and>
     (if has_transform_inits p then list_ok (stmt_ok P) (transform_inits p) else transform_inits p = [])"

definition program_ok :: "Platform \<Rightarrow> MirProgram \<Rightarrow> bool" where
  "program_ok P p \<longleftrightarrow> sections_ok P p \<and> nesting p = (program_peak p + 1) div 2"

definition inits_read :: "Platform \<Rightarrow> bool \<times> Stmt list \<Rightarrow> string \<Rightarrow> nat \<Rightarrow> bool" where
  "inits_read P i w k \<longleftrightarrow> k \<le> 2 * nesting_limit P \<and>
     (if fst i then list_ok (stmt_ok P) (snd i) \<and> w = add_v2_list add_v2_stmt (snd i) \<and>
        k = list_peak stmt_peak 0 (snd i)
      else snd i = [] \<and> w = [] \<and> k = 0)"

lemma accepts_inits: "accepts (read_transform_inits P 0) (inits_read P)"
proof -
  have s: "accepts (rd_bind (read_stmts P 0) (\<lambda>inits. rd_return (True, inits))) (inits_read P)"
    unfolding read_stmts_def by (rule accepts_bind [OF accepts_sections(4)], rule accepts_return) (simp add: inits_read_def)
  show ?thesis
  proof (rule acceptsI)
    fix r i r' assume i: "read_transform_inits P 0 r = Inr (i, r')"
    show "\<exists>w k. inits_read P i w k \<and> r_bytes r = w @ r_bytes r' \<and> r_peak r' = max (r_peak r) k"
    proof (cases "at_end r")
      case True
      with i show ?thesis by (intro exI [of _ "[]"] exI [of _ 0]) (auto simp: read_transform_inits_def inits_read_def)
    next
      case False
      with i have "rd_bind (read_stmts P 0) (\<lambda>inits. rd_return (True, inits)) r = Inr (i, r')"
        by (simp add: read_transform_inits_def)
      then show ?thesis using s unfolding accepts_def by blast
    qed
  qed
qed

lemma accepts_program:
  "accepts (read_sections P) (\<lambda>p w k. sections_ok P p \<and> nesting p = 0 \<and> w = add_v2_program p \<and> k = program_peak p \<and>
     k \<le> 2 * nesting_limit P)"
  unfolding read_sections_def read_strings_def read_stmts_def
proof (rule accepts_bind [OF accepts_list_ok [OF input_field.codec_axioms]], rule accepts_bind [OF accepts_sections(4)],
      rule accepts_bind [OF accepts_sections(4)], rule accepts_bind [OF accepts_sections(4)],
      rule accepts_bind [OF accepts_list_ok [OF fun_field.codec_axioms]], rule accepts_bind [OF accepts_sections(1)],
      rule accepts_bind [OF accepts_inits], rule accepts_return, goal_cases)
  case (1 i1 w1 k1 i2 w2 k2 i3 w3 k3 i4 w4 k4 i5 w5 k5 i6 w6 k6 i7 w7 k7)
  then show ?case
    unfolding inits_read_def sections_ok_def add_v2_program_def program_peak_def inits_peak_def
    by (elim conjE, cases "fst i7")
      (simp_all only: MirProgram.select_convs if_True if_False append_assoc append_Nil2 max_0R max.bounded_iff simp_thms)
qed

text \<open>The last section may be missing, which only the end of the input shows.\<close>

definition parses_end :: "int \<Rightarrow> 'a reader \<Rightarrow> string \<Rightarrow> nat \<Rightarrow> 'a \<Rightarrow> bool" where
  "parses_end M rd w k x \<longleftrightarrow> (\<forall>r. 0 \<le> M \<longrightarrow> r_bytes r = w \<longrightarrow> budget M (length w) r \<longrightarrow>
     (\<exists>r'. rd r = Inr (x, r') \<and> r_bytes r' = [] \<and> r_peak r' = max (r_peak r) k))"

lemma parses_end: "parses M rd w k x \<Longrightarrow> parses_end M rd w k x"
  unfolding parses_def parses_end_def by (metis append_Nil2)

lemma parses_end_seq:
  assumes "parses M m w k x" "parses_end M (f x) w' k' y" "l = max k k'"
  shows "parses_end M (rd_bind m f) (w @ w') l y"
  unfolding parses_end_def assms(3)
proof (intro allI impI)
  fix r assume r: "0 \<le> M" "r_bytes r = w @ w'" "budget M (length (w @ w')) r"
  then have "budget M (length w) r" using budget_append [OF r(1)] by simp
  with r(1,2) assms(1) obtain r1 where 1: "m r = Inr (x, r1)" "r_bytes r1 = w'" "r_peak r1 = max (r_peak r) k"
      "spent M (length w) r r1"
    unfolding parses_def by blast
  have "budget M (length w') r1" using spent_budget [OF r(1) _ 1(4)] r(3) by simp
  with r(1) 1(2) assms(2) obtain r2 where "f x r1 = Inr (y, r2)" "r_bytes r2 = []" "r_peak r2 = max (r_peak r1) k'"
    unfolding parses_end_def by blast
  with 1 show "\<exists>r'. rd_bind m f r = Inr (y, r') \<and> r_bytes r' = [] \<and> r_peak r' = max (r_peak r) (max k k')"
    by (auto simp: rd_bind_def max.assoc)
qed

lemma parses_end_last:
  "parses_end M m w k x \<Longrightarrow> y = g x \<Longrightarrow> parses_end M (rd_bind m (\<lambda>x. rd_return (g x))) w k y"
  by (auto simp: parses_end_def rd_bind_def rd_return_def)

lemma parses_end_inits:
  assumes "sized P" "if has then list_ok (stmt_ok P) inits else inits = []"
    and "(if has then list_peak stmt_peak 0 inits else 0) \<le> 2 * nesting_limit P"
  shows "parses_end (max_sizeof P) (read_transform_inits P 0) (if has then add_v2_list add_v2_stmt inits else [])
           (if has then list_peak stmt_peak 0 inits else 0) (has, inits)"
proof (cases has)
  case True
  have "parses (max_sizeof P) (read_stmts P 0) (add_v2_list add_v2_stmt inits) (list_peak stmt_peak 0 inits) inits"
    unfolding read_stmts_def using assms True by (intro parses_sections(4)) (simp_all add: sized_def)
  then have "parses_end (max_sizeof P) (rd_bind (read_stmts P 0) (\<lambda>inits. rd_return (True, inits)))
      (add_v2_list add_v2_stmt inits) (list_peak stmt_peak 0 inits) (True, inits)"
    by (intro parses_end parses_last) simp_all
  moreover have "add_v2_list add_v2_stmt inits \<noteq> []"
    by (simp add: add_v2_list_def add_u32_def add_le_def)
  ultimately show ?thesis
    using True by (auto simp: parses_end_def read_transform_inits_def at_end_def)
qed (use assms in \<open>auto simp: parses_end_def read_transform_inits_def at_end_def\<close>)

lemma parses_end_program:
  assumes "sized P" "sections_ok P p" "program_peak p \<le> 2 * nesting_limit P"
  shows "parses_end (max_sizeof P) (read_sections P) (add_v2_program p) (program_peak p) (p\<lparr>nesting := 0\<rparr>)"
proof -
  have sz: "0 < sizeof_input P" "0 < sizeof_Stmt P" "0 < sizeof_FunDef P" "0 < sizeof_string P"
    using assms(1) by (simp_all add: sized_def)
  have ok: "list_ok (input_ok P) (input_vars p)" "list_ok (stmt_ok P) (prepare_data p)"
     "list_ok (stmt_ok P) (log_prob p)" "list_ok (stmt_ok P) (generate_quantities p)" "list_ok (fun_ok P) (fun_defs p)"
     "list_ok str_ok (output_vars p)"
     "if has_transform_inits p then list_ok (stmt_ok P) (transform_inits p) else transform_inits p = []"
    using assms(2) unfolding sections_ok_def by blast+
  have k: "list_peak input_peak 0 (input_vars p) \<le> 2 * nesting_limit P" "list_peak stmt_peak 0 (prepare_data p) \<le> 2 * nesting_limit P"
     "list_peak stmt_peak 0 (log_prob p) \<le> 2 * nesting_limit P" "list_peak stmt_peak 0 (generate_quantities p) \<le> 2 * nesting_limit P"
     "list_peak fun_peak 0 (fun_defs p) \<le> 2 * nesting_limit P" "flat_peak 0 (output_vars p) \<le> 2 * nesting_limit P"
     "(if has_transform_inits p then list_peak stmt_peak 0 (transform_inits p) else 0) \<le> 2 * nesting_limit P"
    using assms(3) unfolding program_peak_def inits_peak_def max.bounded_iff by blast+
  have self: "p\<lparr>nesting := 0\<rparr> = \<lparr>input_vars = input_vars p, prepare_data = prepare_data p, log_prob = log_prob p,
       generate_quantities = generate_quantities p, has_transform_inits = fst (has_transform_inits p, transform_inits p),
       transform_inits = snd (has_transform_inits p, transform_inits p), fun_defs = fun_defs p,
       output_vars = output_vars p, nesting = 0\<rparr>"
    by (cases p) simp
  have i: "parses (max_sizeof P) (rd_list P (sizeof_input P) (read_input P) 0) (add_v2_list add_v2_input (input_vars p))
      (list_peak input_peak 0 (input_vars p)) (input_vars p)"
    by (rule parses_list_ok [OF input_field.codec_axioms assms(1) ok(1) k(1) sz(1) max_sizeof_ge(7)])
  have st: "parses (max_sizeof P) (read_stmts P 0) (add_v2_list add_v2_stmt xs) (list_peak stmt_peak 0 xs) xs"
    if "list_ok (stmt_ok P) xs" "list_peak stmt_peak 0 xs \<le> 2 * nesting_limit P" for xs
    unfolding read_stmts_def by (rule parses_sections(4) [OF assms(1) that sz(2) max_sizeof_ge(2)])
  have f: "parses (max_sizeof P) (rd_list P (sizeof_FunDef P) (read_fun P) 0) (add_v2_list add_v2_fun (fun_defs p))
      (list_peak fun_peak 0 (fun_defs p)) (fun_defs p)"
    by (rule parses_list_ok [OF fun_field.codec_axioms assms(1) ok(5) k(5) sz(3) max_sizeof_ge(3)])
  have s: "parses (max_sizeof P) (read_strings P 0) (add_v2_list add_v2_string (output_vars p))
      (flat_peak 0 (output_vars p)) (output_vars p)"
    unfolding read_strings_def by (rule parses_sections(1) [OF assms(1) ok(6) k(6) sz(4) max_sizeof_ge(6)])
  note t = parses_end_inits [OF assms(1) ok(7) k(7)]
  show ?thesis
    unfolding read_sections_def add_v2_program_def program_peak_def inits_peak_def self
    by (rule parses_end_seq, rule i, rule parses_end_seq, rule st [OF ok(2) k(2)],
        rule parses_end_seq, rule st [OF ok(3) k(3)], rule parses_end_seq, rule st [OF ok(4) k(4)],
        rule parses_end_seq, rule f, rule parses_end_seq, rule s, rule parses_end_last, rule t)
      (rule refl)+
qed

section \<open>Round trip of documents\<close>

definition small_document :: "Platform \<Rightarrow> MirProgram \<Rightarrow> bool" where
  "small_document P p \<longleftrightarrow> (let n = int (length (add_v2_program p)) in
     n \<le> kMaxValues \<and> max_sizeof P * n \<le> kMaxListStorageBytes)"

lemma nesting_update:
  "add_v2_program (q\<lparr>nesting := n\<rparr>) = add_v2_program q" "program_peak (q\<lparr>nesting := n\<rparr>) = program_peak q"
  "sections_ok P (q\<lparr>nesting := n\<rparr>) = sections_ok P q"
  by (cases q; simp only: add_v2_program_def program_peak_def inits_peak_def sections_ok_def MirProgram.simps)+

lemma document_reads_back:
  assumes "sized P" "program_ok P p" "program_peak p \<le> 2 * nesting_limit P" "small_document P p"
  shows "encode_base64 (add_v2_program p) = Inr (encode_loop (add_v2_program p))"
    and "read_portable_v2 P (kMagic @ encode_loop (add_v2_program p)) = Inr p"
proof -
  let ?w = "add_v2_program p"
  have n: "int (length ?w) \<le> kMaxValues" "max_sizeof P * int (length ?w) \<le> kMaxListStorageBytes"
    using assms(4) by (simp_all add: small_document_def Let_def)
  have "0 < sizeof_Expr P" using assms(1) by (simp add: sized_def)
  then have M: "0 \<le> max_sizeof P" using max_sizeof_ge(1) [of P] by linarith
  let ?r = "\<lparr>r_bytes = ?w, r_position = 0, r_values = 0, r_total_string_bytes = 0, r_list_storage_bytes = 0, r_peak = 0\<rparr>"
  have "max_sizeof P * int (length ?w - 1) \<le> max_sizeof P * int (length ?w)"
    using M by (intro mult_left_mono) simp_all
  then have "budget (max_sizeof P) (length ?w) ?r"
    using n by (simp add: budget_def kMaxValues_def kMaxTotalStringBytes_def)
  moreover have "sections_ok P p" using assms(2) by (simp add: program_ok_def)
  then have "parses_end (max_sizeof P) (read_sections P) (add_v2_program p) (program_peak p) (p\<lparr>nesting := 0\<rparr>)"
    by (rule parses_end_program [OF assms(1) _ assms(3)])
  ultimately obtain r' where r':
    "read_sections P ?r = Inr (p\<lparr>nesting := 0\<rparr>, r')" "r_bytes r' = []" "r_peak r' = max (r_peak ?r) (program_peak p)"
    using M unfolding parses_end_def by (meson Reader.select_convs(1))
  then have "r_peak r' = program_peak p" by simp
  note r' = r'(1,2) this
  have "p\<lparr>nesting := (program_peak p + 1) div 2\<rparr> = p"
    using assms(2) by (cases p) (simp add: program_ok_def)
  with r' have "read_program P ?r = Inr (p, r')"
    by (simp add: read_program_def read_nesting_def rd_bind_def rd_return_def)
  with r'(2) n(1) show "read_portable_v2 P (kMagic @ encode_loop ?w) = Inr p"
    by (simp add: read_portable_v2_def decode_payload_encoded open_reader_def kMaxValues_def kMaxInputBytes_def
        rd_bind_def finish_def rd_return_def)
  show "encode_base64 ?w = Inr (encode_loop ?w)"
    using n(1) by (simp add: encode_base64_def kMaxValues_def)
qed

text \<open>C5. Every accepted document is canonical: if a text decodes to a program, then the text is the
  header and the base64 form of the wire format of that very program, and the program is one a
  document can carry - strings are UTF-8 and within their limit, lists are within theirs, only the
  fields of a kind are set, the nesting is the depth the program has and within the platform's
  limit. So two documents with the same program are the same text, and the reader invents nothing.\<close>

theorem portable_document_canonical:
  assumes "read_portable_v2 P text = Inr p"
  shows "(\<exists>encoded. encode_base64 (add_v2_program p) = Inr encoded \<and> text = kMagic @ encoded)
    \<and> program_ok P p \<and> program_peak p \<le> 2 * nesting_limit P"
proof (intro conjI)
  from assms obtain payload r r1 r2 where d: "decode_payload text = Inr payload" and o: "open_reader payload = Inr r"
    and 1: "read_program P r = Inr (p, r1)" and 2: "finish r1 = Inr ((), r2)"
    by (auto simp: read_portable_v2_def rd_bind_def rd_return_def split: sum.splits)
  from o have r: "r_bytes r = payload" "r_peak r = 0" by (auto simp: open_reader_def split: if_splits)
  from 1 obtain q where q: "read_sections P r = Inr (q, r1)" "p = q\<lparr>nesting := (r_peak r1 + 1) div 2\<rparr>"
    by (auto simp: read_program_def read_nesting_def rd_bind_def rd_return_def split: sum.splits)
  from accepts_program q(1) obtain w k where w: "sections_ok P q" "w = add_v2_program q" "k = program_peak q"
      "k \<le> 2 * nesting_limit P" "r_bytes r = w @ r_bytes r1" "r_peak r1 = max (r_peak r) k"
    by (rule acceptsE) blast
  have e: "add_v2_program p = add_v2_program q" "program_peak p = program_peak q" "sections_ok P p = sections_ok P q"
    unfolding q(2) by (rule nesting_update)+
  from 2 have "r_bytes r1 = []" by (auto simp: finish_def rd_fail_def split: if_splits)
  with w r e have "payload = add_v2_program p" by simp
  with decode_payload_canonical [OF d]
  show "\<exists>encoded. encode_base64 (add_v2_program p) = Inr encoded \<and> text = kMagic @ encoded" by simp
  have "nesting p = (r_peak r1 + 1) div 2" by (simp add: q(2))
  then show "program_ok P p" using w(1,3,6) r(2) e(2,3) by (simp add: program_ok_def)
  show "program_peak p \<le> 2 * nesting_limit P" using w(3,4) e(2) by simp
qed

text \<open>C4. Every document the compiler can write is read back: a program that a document can carry,
  nested no deeper than the platform allows, whose wire format has at most ten million bytes and
  leaves room for its lists, is encoded by \<^verbatim>\<open>encode_base64\<close>, and the reader returns that very
  program from the encoded text. The bound on the length is enough for all limits of the reader:
  every value, every string byte and every list item takes at least one byte of the payload.\<close>

theorem portable_document_reads_back:
  assumes "sized P" "program_ok P p" "program_peak p \<le> 2 * nesting_limit P" "small_document P p"
  shows "\<exists>encoded. encode_base64 (add_v2_program p) = Inr encoded \<and> read_portable_v2 P (kMagic @ encoded) = Inr p"
  using document_reads_back [OF assms] by blast

section \<open>A concrete document\<close>

text \<open>\<^verbatim>\<open>target += foo(7)\<close> in the log density, and one data variable.\<close>

definition demo_platform :: Platform where
  "demo_platform = \<lparr>nesting_limit = 256, sizeof_Expr = 248, sizeof_Stmt = 2256, sizeof_FunDef = 152,
     sizeof_UnsizedView = 2, sizeof_bool = 1, sizeof_string = 32, sizeof_input = 160,
     long_to_double = (\<lambda>i. if i = 7 then 0x401C000000000000 else 0)\<rparr>"

definition demo_int :: Expr where
  "demo_int = Expr (new_expr_head\<lparr>e_kind := Expr_LitInt, e_lit_i := 7, e_lit := 0x401C000000000000,
     e_type := ''UInt'', e_unsized := \<lparr>v_depth = 0, v_leaf = Leaf_Int\<rparr>, e_data_only := True\<rparr>) []"

definition demo_call :: Expr where
  "demo_call = Expr (new_expr_head\<lparr>e_kind := Expr_FunApp, e_fn_lib := Lib_UserDefined, e_name := ''foo'',
     e_type := ''UReal'', e_unsized := \<lparr>v_depth = 0, v_leaf = Leaf_Real\<rparr>\<rparr>) [demo_int]"

definition demo_program :: MirProgram where
  "demo_program = \<lparr>input_vars = [(''N'', new_sized\<lparr>s_base := ''SInt''\<rparr>)], prepare_data = [],
     log_prob = [Stmt (new_stmt_head\<lparr>st_kind := Stmt_TargetPE, st_target := demo_call\<rparr>) []],
     generate_quantities = [], has_transform_inits = False, transform_inits = [], fun_defs = [],
     output_vars = [''lp''], nesting = 3\<rparr>"

lemma demo_ok: "sized demo_platform" "program_ok demo_platform demo_program"
    "program_peak demo_program \<le> 2 * nesting_limit demo_platform" "small_document demo_platform demo_program"
  by code_simp+

theorem portable_document_canonical_witness:
  "(\<exists>encoded. encode_base64 (add_v2_program demo_program) = Inr encoded \<and>
     kMagic @ encode_loop (add_v2_program demo_program) = kMagic @ encoded) \<and>
   program_ok demo_platform demo_program \<and>
   program_peak demo_program \<le> 2 * nesting_limit demo_platform"
  using portable_document_canonical [OF document_reads_back(2) [OF demo_ok]] .

theorem portable_document_reads_back_witness:
  "\<exists>encoded. encode_base64 (add_v2_program demo_program) = Inr encoded \<and>
     read_portable_v2 demo_platform (kMagic @ encoded) = Inr demo_program"
  using portable_document_reads_back [OF demo_ok] .

end
