(* ===== verification/MirShape.thy ===== *)
theory MirShape
  imports PortableMir
begin

text \<open>
  The structural checks of a decoded program (\<^verbatim>\<open>validate_portable_program\<close> of
  \<^verbatim>\<open>runtime/src/mir_reader.cpp\<close>): the argument counts of calls, the metadata of expressions, index
  descriptors, transforms, sized types, statements and function signatures. A check returns the
  exception it throws, if any. The function registry is a parameter.
\<close>

section \<open>Checks\<close>

text \<open>A sequence of checks throws what its first failing check throws.\<close>

fun first_error :: "'e option list \<Rightarrow> 'e option" where
  "first_error [] = None"
| "first_error (None # cs) = first_error cs"
| "first_error (Some e # cs) = Some e"

lemma first_error_append [simp]:
  "first_error (cs @ ds) = (case first_error cs of None \<Rightarrow> first_error ds | Some e \<Rightarrow> Some e)"
  by (induction cs rule: first_error.induct) auto

lemma first_error_Cons [simp]:
  "first_error (c # cs) = (case c of None \<Rightarrow> first_error cs | Some e \<Rightarrow> Some e)"
  by (cases c) auto

lemma first_error_None: "first_error cs = None \<longleftrightarrow> (\<forall>c \<in> set cs. c = None)"
  by (induction cs rule: first_error.induct) auto

lemma first_error_Some: "first_error cs = Some e \<Longrightarrow> Some e \<in> set cs"
  by (induction cs rule: first_error.induct) auto

definition malformed :: "string \<Rightarrow> std_error option" where
  "malformed what = Some (RuntimeError (''mir: malformed '' @ what))"

definition fail_unless :: "bool \<Rightarrow> string \<Rightarrow> std_error option" where
  "fail_unless ok what = (if ok then None else malformed what)"

lemma fail_unless_None [simp]: "fail_unless ok what = None \<longleftrightarrow> ok"
  by (simp add: fail_unless_def malformed_def)

section \<open>Type spellings\<close>

definition leaf_spelling :: "UnsizedLeaf \<Rightarrow> string" where
  "leaf_spelling leaf = (case leaf of
       Leaf_Int \<Rightarrow> ''UInt'' | Leaf_Real \<Rightarrow> ''UReal'' | Leaf_Complex \<Rightarrow> ''UComplex'' | Leaf_Vector \<Rightarrow> ''UVector''
     | Leaf_RowVector \<Rightarrow> ''URowVector'' | Leaf_Matrix \<Rightarrow> ''UMatrix'' | Leaf_Unknown \<Rightarrow> [])"

definition array_prefix :: string where
  "array_prefix = ''(UArray ''"

primrec wrap_arrays :: "nat \<Rightarrow> string \<Rightarrow> string" where
  "wrap_arrays 0 type = type"
| "wrap_arrays (Suc n) type = wrap_arrays n (array_prefix @ type @ '')'')"

definition unsized_spelling :: "UnsizedView \<Rightarrow> string" where
  "unsized_spelling view =
     (if v_leaf view = Leaf_Unknown then []
      else wrap_arrays (nat (v_depth view)) (leaf_spelling (v_leaf view)))"

definition leaf_of :: "string \<Rightarrow> UnsizedLeaf option" where
  "leaf_of text =
     (if text = ''UInt'' then Some Leaf_Int
      else if text = ''UReal'' then Some Leaf_Real
      else if text = ''UComplex'' then Some Leaf_Complex
      else if text = ''UVector'' then Some Leaf_Vector
      else if text = ''URowVector'' then Some Leaf_RowVector
      else if text = ''UMatrix'' then Some Leaf_Matrix
      else None)"

text \<open>\<^verbatim>\<open>parse_unsized_spelling\<close>: strip array wrappers, at most 255 of them, then read the leaf. The last character
  and the removal of the wrapper are not checked by the library.\<close>

definition is_wrapped :: "string \<Rightarrow> std_error + bool" where
  "is_wrapped text =
     (if length text > length array_prefix \<and> take (length array_prefix) text = array_prefix
      then and_then (last_elem text) (\<lambda>c. Inr (c = CHR '')'')) else Inr False)"

definition unwrap :: "string \<Rightarrow> std_error + string" where
  "unwrap text = elem_run text (length array_prefix) (int (length text) - int (length array_prefix) - 1)"

declare and_then_cong [fundef_cong]

function parse_spelling :: "nat \<Rightarrow> string \<Rightarrow> std_error + UnsizedView option" where
  "parse_spelling depth text = and_then (is_wrapped text) (\<lambda>wrapped.
     if wrapped
     then (if Suc depth > 255 then Inr None else and_then (unwrap text) (parse_spelling (Suc depth)))
     else Inr (case leaf_of text of None \<Rightarrow> None | Some leaf \<Rightarrow> Some \<lparr>v_depth = int depth, v_leaf = leaf\<rparr>))"
  by pat_completeness auto

lemma is_wrapped_eq:
  "is_wrapped text = Inr (length text > length array_prefix \<and> take (length array_prefix) text = array_prefix \<and>
     last text = CHR '')'')"
proof (cases "length text > length array_prefix")
  case True
  then have "text \<noteq> []" by auto
  then show ?thesis by (auto simp: is_wrapped_def)
qed (simp add: is_wrapped_def)

lemma unwrap_eq:
  assumes "length text > length array_prefix"
  shows "unwrap text = Inr (butlast (drop (length array_prefix) text))"
proof -
  have "unwrap text = elem_run text (length array_prefix) (int (length text - length array_prefix - 1))"
    unfolding unwrap_def using assms by (intro arg_cong [of _ _ "elem_run text (length array_prefix)"]) simp
  also have "\<dots> = Inr (take (length text - length array_prefix - 1) (drop (length array_prefix) text))"
    using assms by (intro elem_run_in) simp
  finally show ?thesis by (simp add: butlast_conv_take)
qed

lemma unwrap_shorter: "unwrap text = Inr inner \<Longrightarrow> is_wrapped text = Inr True \<Longrightarrow> length inner < length text"
  by (auto simp: unwrap_eq is_wrapped_eq array_prefix_def)

termination parse_spelling
  by (relation "measure (\<lambda>(depth, text). length text)") (auto dest: unwrap_shorter)

declare and_then_cong [fundef_cong del]

declare parse_spelling.simps [simp del]

lemma parse_spelling_eq:
  "parse_spelling depth text =
     (if length text > length array_prefix \<and> take (length array_prefix) text = array_prefix \<and>
         last text = CHR '')''
      then (if Suc depth > 255 then Inr None
            else parse_spelling (Suc depth) (butlast (drop (length array_prefix) text)))
      else Inr (case leaf_of text of None \<Rightarrow> None | Some leaf \<Rightarrow> Some \<lparr>v_depth = int depth, v_leaf = leaf\<rparr>))"
  by (subst parse_spelling.simps) (simp add: is_wrapped_eq unwrap_eq)

definition parse_unsized_spelling :: "string \<Rightarrow> std_error + UnsizedView option" where
  "parse_unsized_spelling text = parse_spelling 0 text"

subsection \<open>Spelling and parsing are inverse\<close>

lemma leaf_of_spelling: "leaf \<noteq> Leaf_Unknown \<Longrightarrow> leaf_of (leaf_spelling leaf) = Some leaf"
  by (cases leaf) (simp_all add: leaf_of_def leaf_spelling_def)

lemma leaf_of_Some: "leaf_of text = Some leaf \<longleftrightarrow> leaf \<noteq> Leaf_Unknown \<and> text = leaf_spelling leaf"
proof
  assume "leaf_of text = Some leaf"
  then show "leaf \<noteq> Leaf_Unknown \<and> text = leaf_spelling leaf"
    by (auto simp: leaf_of_def leaf_spelling_def split: if_splits)
qed (auto simp: leaf_of_spelling)

lemma leaf_spelling_bare: "leaf_spelling leaf \<noteq> array_prefix @ s"
  by (cases leaf) (simp_all add: leaf_spelling_def array_prefix_def)

lemma wrap_arrays_Suc: "wrap_arrays (Suc n) type = array_prefix @ wrap_arrays n type @ '')''"
proof (induction n arbitrary: "type")
  case (Suc n)
  have "wrap_arrays (Suc (Suc n)) type = wrap_arrays (Suc n) (array_prefix @ type @ '')'')"
    by (rule wrap_arrays.simps(2))
  also note Suc.IH
  also have "wrap_arrays n (array_prefix @ type @ '')'') = wrap_arrays (Suc n) type"
    by (rule wrap_arrays.simps(2) [symmetric])
  finally show ?case .
qed simp

lemma parse_spelling_wrap:
  assumes "depth + n \<le> 255" "leaf \<noteq> Leaf_Unknown"
  shows "parse_spelling depth (wrap_arrays n (leaf_spelling leaf)) = Inr (Some \<lparr>v_depth = int (depth + n), v_leaf = leaf\<rparr>)"
  using assms
proof (induction n arbitrary: depth)
  case 0
  have "\<not> take (length array_prefix) (leaf_spelling leaf) = array_prefix"
    using leaf_spelling_bare [of leaf] by (metis append_take_drop_id)
  with 0 show ?case
    by (subst parse_spelling_eq) (simp add: leaf_of_spelling)
next
  case (Suc n)
  let ?s = "wrap_arrays n (leaf_spelling leaf)"
  have e: "wrap_arrays (Suc n) (leaf_spelling leaf) = array_prefix @ (?s @ '')'')"
    by (simp only: wrap_arrays_Suc append_assoc)
  have "parse_spelling depth (array_prefix @ (?s @ '')'')) = parse_spelling (Suc depth) ?s"
    using Suc.prems by (subst parse_spelling_eq) (simp add: butlast_append)
  with Suc.IH [of "Suc depth"] Suc.prems e show ?case by simp
qed

lemma parse_spelling_Some:
  assumes "parse_spelling depth s = Inr (Some view)"
  shows "\<exists>n. depth + n \<le> max depth 255 \<and> v_leaf view \<noteq> Leaf_Unknown \<and> v_depth view = int (depth + n) \<and>
    s = wrap_arrays n (leaf_spelling (v_leaf view))"
  using assms
proof (induction "length s" arbitrary: depth s rule: less_induct)
  case (less s depth)
  show ?case
  proof (cases "length s > length array_prefix \<and> take (length array_prefix) s = array_prefix \<and> last s = CHR '')''")
    case True
    let ?inner = "butlast (drop (length array_prefix) s)"
    from True less.prems have d: "\<not> Suc depth > 255" and p: "parse_spelling (Suc depth) ?inner = Inr (Some view)"
      by (simp_all add: parse_spelling_eq [of depth s] split: if_splits)
    have "length ?inner < length s" using True by (cases s) (auto simp: array_prefix_def)
    from less.hyps [OF this p] d obtain n where n: "Suc depth + n \<le> max (Suc depth) 255"
      "v_leaf view \<noteq> Leaf_Unknown" "v_depth view = int (Suc depth + n)"
      "?inner = wrap_arrays n (leaf_spelling (v_leaf view))" by blast
    have "s = array_prefix @ drop (length array_prefix) s"
      using True by (metis append_take_drop_id)
    also have "drop (length array_prefix) s = ?inner @ '')''"
      using True by (metis append_butlast_last_id drop_eq_Nil last_drop not_less)
    finally have "s = wrap_arrays (Suc n) (leaf_spelling (v_leaf view))"
      using n(4) by (simp only: wrap_arrays_Suc append_assoc)
    with n(1-3) d show ?thesis by (intro exI [of _ "Suc n"]) simp
  next
    case False
    with less.prems obtain leaf where "leaf_of s = Some leaf" "view = \<lparr>v_depth = int depth, v_leaf = leaf\<rparr>"
      by (auto simp: parse_spelling_eq [of depth s] split: option.splits)
    then show ?thesis by (intro exI [of _ 0]) (simp add: leaf_of_Some)
  qed
qed

text \<open>C18. The spelling of a type and its parser are inverse to each other: a text parses to a view
  exactly when the view names a known leaf with at most 255 array levels and the text is the
  spelling of that view. So the check of a function signature against its views and the restored
  type of an unsized declaration identify the type exactly; no other text is taken for a type.\<close>

theorem parse_unsized_spelling_iff:
  "parse_unsized_spelling text = Inr (Some view) \<longleftrightarrow>
     v_leaf view \<noteq> Leaf_Unknown \<and> 0 \<le> v_depth view \<and> v_depth view \<le> 255 \<and> text = unsized_spelling view"
proof
  assume "parse_unsized_spelling text = Inr (Some view)"
  from parse_spelling_Some [OF this [unfolded parse_unsized_spelling_def]]
  show "v_leaf view \<noteq> Leaf_Unknown \<and> 0 \<le> v_depth view \<and> v_depth view \<le> 255 \<and> text = unsized_spelling view"
    by (auto simp: unsized_spelling_def)
next
  assume v: "v_leaf view \<noteq> Leaf_Unknown \<and> 0 \<le> v_depth view \<and> v_depth view \<le> 255 \<and> text = unsized_spelling view"
  then show "parse_unsized_spelling text = Inr (Some view)"
    using parse_spelling_wrap [of 0 "nat (v_depth view)" "v_leaf view"]
    by (cases view) (simp add: parse_unsized_spelling_def unsized_spelling_def nat_le_iff)
qed

section \<open>Argument counts of calls\<close>

record Registry =
  function_registered :: "string \<Rightarrow> bool"
  function_arity_registered :: "string \<Rightarrow> nat \<Rightarrow> bool"

datatype NullaryConstantKind = Const_E | Const_Pi | Const_Log2 | Const_Log10 | Const_Sqrt2
  | Const_MachinePrecision | Const_NegativeInfinity | Const_PositiveInfinity | Const_NotANumber

definition nullary_constant_kind :: "Expr \<Rightarrow> NullaryConstantKind option" where
  "nullary_constant_kind e = (let h = e_head e; n = e_name h in
     if e_kind h \<noteq> Expr_FunApp \<or> e_args e \<noteq> [] then None
     else if e_fn_lib h = Lib_Internal then (if n = ''FnNegInf'' then Some Const_NegativeInfinity else None)
     else if e_fn_lib h \<noteq> Lib_StanLib then None
     else if n = ''e'' then Some Const_E
     else if n = ''pi'' then Some Const_Pi
     else if n = ''log2'' then Some Const_Log2
     else if n = ''log10'' then Some Const_Log10
     else if n = ''sqrt2'' then Some Const_Sqrt2
     else if n = ''machine_precision'' then Some Const_MachinePrecision
     else if n = ''negative_infinity'' then Some Const_NegativeInfinity
     else if n = ''positive_infinity'' then Some Const_PositiveInfinity
     else if n = ''not_a_number'' then Some Const_NotANumber
     else None)"

datatype WienerKind = Wiener_Lpdf | Wiener_Lcdf | Wiener_Lccdf

text \<open>The form of a Wiener call: kind, real arguments, whether a precision argument follows. The default
  precision of the C++ record is left out.\<close>

definition wiener_form :: "string \<Rightarrow> nat \<Rightarrow> (WienerKind \<times> nat \<times> bool) option" where
  "wiener_form name arity =
     (if name = ''wiener_lpdf'' then
        (if arity < 6 \<or> arity > 9 then None
         else Some (Wiener_Lpdf, if arity \<le> 7 then 6 else 8, arity = 7 \<or> arity = 9))
      else let lcdf = (name = ''wiener_lcdf_unnorm'') in
        if \<not> lcdf \<and> name \<noteq> ''wiener_lccdf_unnorm'' then None
        else if arity < 5 \<or> arity > 9 \<or> arity = 7 then None
        else Some (if lcdf then Wiener_Lcdf else Wiener_Lccdf, if arity \<le> 6 then 5 else 8,
                   arity = 6 \<or> arity = 9))"

datatype TransformDirection = Constrain | Jacobian | Unconstrain

definition transform_suffix :: "string \<Rightarrow> string \<Rightarrow> bool" where
  "transform_suffix name ending \<longleftrightarrow>
     length name \<ge> length ending \<and> drop (length name - length ending) name = ending"

definition transform_stem :: "string \<Rightarrow> (TransformDirection \<times> string) option" where
  "transform_stem name =
     (if transform_suffix name ''_jacobian'' then Some (Jacobian, take (length name - 9) name)
      else if transform_suffix name ''_constrain'' then Some (Constrain, take (length name - 10) name)
      else if transform_suffix name ''_unconstrain'' then Some (Unconstrain, take (length name - 12) name)
      else None)"

text \<open>Arity and structured flag of a constraint transform called as a function (the kind and the graph
  opcode of \<^verbatim>\<open>CallableTransformSpec\<close> are not needed here).\<close>

definition callable_stem :: "string \<Rightarrow> (nat \<times> bool) option" where
  "callable_stem stem =
     (if stem = ''lower_bound'' then Some (2, False)
      else if stem = ''upper_bound'' then Some (2, False)
      else if stem = ''lower_upper_bound'' then Some (3, False)
      else if stem = ''offset_multiplier'' then Some (3, False)
      else if stem = ''ordered'' then Some (1, True)
      else if stem = ''positive_ordered'' then Some (1, True)
      else if stem = ''simplex'' then Some (1, True)
      else if stem = ''stochastic_column'' then Some (1, True)
      else if stem = ''stochastic_row'' then Some (1, True)
      else if stem = ''sum_to_zero'' then Some (1, True)
      else if stem = ''unit_vector'' then Some (1, True)
      else if stem = ''cholesky_factor_corr'' then Some (2, True)
      else if stem = ''corr_matrix'' then Some (2, True)
      else if stem = ''cov_matrix'' then Some (2, True)
      else if stem = ''cholesky_factor_cov'' then Some (3, True)
      else None)"

definition callable_transform_arity :: "string \<Rightarrow> nat option" where
  "callable_transform_arity name = (case transform_stem name of
       None \<Rightarrow> None
     | Some (direction, stem) \<Rightarrow> (case callable_stem stem of
         None \<Rightarrow> None
       | Some (arity, structured) \<Rightarrow> Some (if structured \<and> direction = Unconstrain then 1 else arity)))"

definition named :: "Expr \<Rightarrow> string list \<Rightarrow> bool" where
  "named e names \<longleftrightarrow> e_name (e_head e) \<in> set names"

definition arity_error :: "string \<Rightarrow> string \<Rightarrow> nat \<Rightarrow> string" where
  "arity_error name expected got =
     name @ '' call: expected '' @ expected @ '' argument(s), got '' @ show_nat got"

definition require_arity :: "Expr \<Rightarrow> nat \<Rightarrow> std_error option" where
  "require_arity e expected = fail_unless (length (e_args e) = expected)
     (arity_error (e_name (e_head e)) (show_nat expected) (length (e_args e)))"

definition require_arity2 :: "Expr \<Rightarrow> nat \<Rightarrow> nat \<Rightarrow> std_error option" where
  "require_arity2 e first second = fail_unless (length (e_args e) = first \<or> length (e_args e) = second)
     (arity_error (e_name (e_head e)) (show_nat first @ '' or '' @ show_nat second) (length (e_args e)))"

definition ode_stem :: "string \<Rightarrow> string \<times> bool" where
  "ode_stem name = (if length name > 4 \<and> drop (length name - 4) name = ''_tol''
     then (take (length name - 4) name, True) else (name, False))"

text \<open>The rules for ODE solvers and the final check against the registry.\<close>

definition validate_solver_arity :: "Registry \<Rightarrow> Expr \<Rightarrow> std_error option" where
  "validate_solver_arity R e = (let name = e_name (e_head e); n = length (e_args e); (ode_name, tolerance) = ode_stem name in
     if ode_name \<in> {''ode_bdf'', ''ode_adams'', ''ode_rk45'', ''ode_ckrk''}
     then (let minimum = if tolerance then 7 else 4 in
       fail_unless (n \<ge> minimum) (name @ '' call: expected at least '' @ show_nat minimum @ '' argument(s), got '' @ show_nat n))
     else if take 14 name = ''integrate_ode_'' \<and> n \<noteq> 7 \<and> n \<noteq> 10
     then malformed (arity_error name ''7 or 10'' n)
     else fail_unless (\<not> function_registered R name)
            (name @ '' call: no registered overload takes '' @ show_nat n @ '' argument(s)''))"

definition validate_funapp_arity :: "Registry \<Rightarrow> Expr \<Rightarrow> std_error option" where
  "validate_funapp_arity R e = (let h = e_head e; name = e_name h; n = length (e_args e) in
     if e_fn_lib h = Lib_UserDefined then None
     else if nullary_constant_kind e \<noteq> None then None
     else if function_arity_registered R name n then None
     else if named e [''IndexAll''] then require_arity e 0
     else if named e [''IndexSingle'', ''IndexMulti'', ''IndexUpfrom''] then require_arity e 1
     else if named e [''IndexBetween''] then require_arity e 2
     else if e_fn_lib h = Lib_Internal \<and> (name = ''FnReadData'' \<or> name = ''FnLength'') then require_arity e 1
     else if named e [''pi'', ''e'', ''sqrt2'', ''machine_precision'', ''negative_infinity'', ''positive_infinity'',
            ''not_a_number''] then require_arity e 0
     else if named e [''Modulo__'', ''diag_pre_multiply'', ''diag_post_multiply'', ''quad_form_diag''] then require_arity e 2
     else if named e [''PPlus__'', ''plus'', ''prod'', ''categorical_rng'', ''tcrossprod''] then require_arity e 1
     else if named e [''min'', ''max''] then require_arity2 e 1 2
     else if name = ''fma'' then require_arity e 3
     else if name = ''log_mix'' then require_arity2 e 2 3
     else if named e [''gp_exp_quad_cov'', ''gp_matern32_cov'', ''gp_matern52_cov'', ''gp_exponential_cov'']
     then require_arity2 e 3 4
     else if name = ''map_rect'' then require_arity e 5
     else if name = ''reduce_sum'' \<or> name = ''reduce_sum_static''
     then fail_unless (n \<ge> 3) (''reduce_sum call: expected at least 3 arguments, got '' @ show_nat n)
     else if name = ''algebra_solver'' then require_arity2 e 5 8
     else if named e [''multi_normal_rng''] then require_arity e 2
     else if name = ''gaussian_dlm_obs_lpdf'' then require_arity e 7
     else if name = ''wiener_lpdf'' then fail_unless (5 \<le> n \<and> n \<le> 9) (arity_error name ''5 to 9'' n)
     else if name = ''wiener_lcdf_unnorm'' \<or> name = ''wiener_lccdf_unnorm''
     then fail_unless (wiener_form name n \<noteq> None) (arity_error name ''5, 6, 8 or 9'' n)
     else (case callable_transform_arity name of
         Some arity \<Rightarrow> require_arity e arity
       | None \<Rightarrow> validate_solver_arity R e))"

section \<open>Expressions\<close>

definition validate_expression_metadata :: "ExprHead \<Rightarrow> std_error option" where
  "validate_expression_metadata h =
     (if v_leaf (e_unsized h) = Leaf_Unknown
      then fail_unless (e_type h \<notin> {''UInt'', ''UReal'', ''UComplex'', ''UVector'', ''URowVector'', ''UMatrix'', ''UArray''})
             ''expression type metadata''
      else fail_unless (e_type h = (if v_depth (e_unsized h) = 0 then unsized_spelling (e_unsized h) else ''UArray''))
             ''expression type metadata'')"

definition index_descriptor :: "Expr \<Rightarrow> bool" where
  "index_descriptor ix \<longleftrightarrow> e_kind (e_head ix) = Expr_FunApp \<and> e_fn_lib (e_head ix) = Lib_StanLib \<and>
     named ix [''IndexAll'', ''IndexSingle'', ''IndexBetween'', ''IndexMulti'', ''IndexUpfrom'']"

text \<open>The check on the number of arguments, by kind; the base of an \<^verbatim>\<open>Indexed\<close> expression and its
  descriptors follow in \<open>validate_expression_shape\<close>.\<close>

definition arity_by_kind :: "Registry \<Rightarrow> Expr \<Rightarrow> std_error option" where
  "arity_by_kind R e = (let n = length (e_args e) in case e_kind (e_head e) of
       Expr_Promotion \<Rightarrow> fail_unless (n = 1) ''Promotion expression arity''
     | Expr_Indexed \<Rightarrow> fail_unless (n \<noteq> 0) ''Indexed expression arity''
     | Expr_TernaryIf \<Rightarrow> fail_unless (n = 3) ''TernaryIf expression arity''
     | Expr_EOr \<Rightarrow> fail_unless (n = 2) ''EOr expression arity''
     | Expr_EAnd \<Rightarrow> fail_unless (n = 2) ''EAnd expression arity''
     | Expr_FunApp \<Rightarrow> validate_funapp_arity R e
     | _ \<Rightarrow> fail_unless (n = 0) ''leaf expression argument list'')"

fun validate_expression_shape :: "Registry \<Rightarrow> Expr \<Rightarrow> std_error option" where
  "validate_expression_shape R (Expr h args) = first_error
     ([validate_expression_metadata h, arity_by_kind R (Expr h args)] @
      (if e_kind h = Expr_Indexed
       then (case args of [] \<Rightarrow> [Some UndefinedBehaviour]
         | base # indices \<Rightarrow> validate_expression_shape R base #
             map (\<lambda>ix. first_error [fail_unless (index_descriptor ix) ''index descriptor'', validate_expression_shape R ix]) indices)
       else map (validate_expression_shape R) args))"

declare validate_expression_shape.simps [simp del]

definition validate_index_shape :: "Registry \<Rightarrow> Expr \<Rightarrow> std_error option" where
  "validate_index_shape R ix =
     first_error [fail_unless (index_descriptor ix) ''index descriptor'', validate_expression_shape R ix]"

definition validate_exprs :: "Registry \<Rightarrow> Expr list \<Rightarrow> std_error option" where
  "validate_exprs R es = first_error (map (validate_expression_shape R) es)"

section \<open>Transforms, types, statements and programs\<close>

definition transform_arity :: "TransformKind \<Rightarrow> nat" where
  "transform_arity kind =
     (if kind \<in> {Tr_Lower, Tr_Upper, Tr_Offset, Tr_Multiplier} then 1
      else if kind \<in> {Tr_LowerUpper, Tr_OffsetMultiplier} then 2 else 0)"

definition validate_transform_shape :: "Registry \<Rightarrow> Transform \<Rightarrow> std_error option" where
  "validate_transform_shape R t =
     (if t_kind t = Tr_Unsupported then validate_exprs R (t_args t)
      else first_error [fail_unless (length (t_args t) = transform_arity (t_kind t))
              (''transform arity: expected '' @ show_nat (transform_arity (t_kind t)) @ '' argument(s), got '' @
               show_nat (length (t_args t))),
            validate_exprs R (t_args t)])"

text \<open>The rank of the leaves of a sized array type.\<close>

definition array_leaf_rank :: "string \<Rightarrow> nat" where
  "array_leaf_rank elem_base =
     (if elem_base = ''SVector'' \<or> elem_base = ''SRowVector'' then 1 else if elem_base = ''SMatrix'' then 2 else 0)"

text \<open>The exact number of dimensions a base type takes, or \<open>None\<close> where it is open.\<close>

definition sized_rank :: "string \<Rightarrow> nat option" where
  "sized_rank base =
     (if base = ''SVector'' \<or> base = ''SRowVector'' then Some 1
      else if base = ''SMatrix'' then Some 2
      else if base = ''SArray'' then None
      else if base \<noteq> ''SInt'' \<and> base \<noteq> ''SReal'' \<and> base \<noteq> ''SComplex'' \<and> base \<noteq> [] then None
      else Some 0)"

definition validate_sized_type_shape :: "Registry \<Rightarrow> SizedType \<Rightarrow> std_error option" where
  "validate_sized_type_shape R t = first_error
     [fail_unless (s_base t = ''SArray'' \<longrightarrow> length (s_dims t) > array_leaf_rank (s_elem_base t))
        ''SArray sized type dimensions'',
      (case sized_rank (s_base t) of None \<Rightarrow> None
       | Some arity \<Rightarrow> fail_unless (length (s_dims t) = arity)
           (s_base t @ '' sized type dimensions: expected '' @ show_nat arity @ '', got '' @ show_nat (length (s_dims t)))),
      validate_exprs R (s_dims t)]"

text \<open>The expressions a statement carries, in the order the source lists them.\<close>

definition stmt_exprs :: "StmtHead \<Rightarrow> Expr list" where
  "stmt_exprs s = [st_init s, st_rhs s, st_target s, st_lower s, st_upper s, st_cond s]"

definition stmt_lists :: "StmtHead \<Rightarrow> Expr list" where
  "stmt_lists s = st_read_dims s @ st_lhs_idx s @ st_fn_args s"

definition check_optional :: "('a \<Rightarrow> std_error option) \<Rightarrow> 'a option \<Rightarrow> std_error option" where
  "check_optional f t = (case t of None \<Rightarrow> None | Some x \<Rightarrow> f x)"

definition body_arity :: "StmtKind \<Rightarrow> nat \<Rightarrow> std_error option" where
  "body_arity kind n = (case kind of
       Stmt_For \<Rightarrow> fail_unless (n = 1) ''For statement body arity''
     | Stmt_While \<Rightarrow> fail_unless (n = 1) ''While statement body arity''
     | Stmt_IfElse \<Rightarrow> fail_unless (n \<noteq> 0 \<and> n \<le> 2) ''IfElse statement body arity''
     | Stmt_Block \<Rightarrow> None
     | Stmt_SList \<Rightarrow> None
     | _ \<Rightarrow> fail_unless (n = 0) ''statement body'')"

fun validate_statement_shape :: "Registry \<Rightarrow> Stmt \<Rightarrow> std_error option" where
  "validate_statement_shape R (Stmt s body) = first_error
     ([validate_sized_type_shape R (st_decl_type s), validate_exprs R (stmt_exprs s), validate_exprs R (stmt_lists s),
       first_error (map (validate_index_shape R) (st_lhs_idx s)),
       check_optional (validate_transform_shape R) (st_read_transform s),
       check_optional (validate_transform_shape R) (st_check_transform s),
       body_arity (st_kind s) (length body)] @
      map (validate_statement_shape R) body)"

declare validate_statement_shape.simps [simp del]

text \<open>One argument of a function: its spelled type against its view. The vectors are indexed by the number of
  names, whose length was compared with theirs.\<close>

definition check_argument_type :: "string \<Rightarrow> UnsizedView \<Rightarrow> std_error option" where
  "check_argument_type type view = (case parse_unsized_spelling type of
       Inl e \<Rightarrow> Some e
     | Inr parsed \<Rightarrow> fail_unless (case parsed of
           Some parsed \<Rightarrow> v_depth parsed = v_depth view \<and> v_leaf parsed = v_leaf view
         | None \<Rightarrow> v_leaf view = Leaf_Unknown) ''function argument type disagrees with its view'')"

definition validate_function_shape :: "Registry \<Rightarrow> FunDef \<Rightarrow> std_error option" where
  "validate_function_shape R f = (let arity = length (f_arg_names f) in
     if length (f_arg_types f) \<noteq> arity \<or> length (f_arg_views f) \<noteq> arity \<or> length (f_arg_data_only f) \<noteq> arity
     then malformed ''function argument field lengths disagree''
     else first_error
       (map (\<lambda>i. with_elem (f_arg_types f) i (\<lambda>type. with_elem (f_arg_views f) i (check_argument_type type))) [0..<arity] @
        map (validate_statement_shape R) (f_body f)))"

definition program_bodies :: "MirProgram \<Rightarrow> Stmt list" where
  "program_bodies p = prepare_data p @ log_prob p @ generate_quantities p @ transform_inits p"

definition validate_program_shape :: "Registry \<Rightarrow> MirProgram \<Rightarrow> std_error option" where
  "validate_program_shape R p = first_error
     (map (validate_sized_type_shape R \<circ> snd) (input_vars p) @
      map (validate_statement_shape R) (program_bodies p) @
      map (validate_function_shape R) (fun_defs p))"

definition validate_portable_program :: "Registry \<Rightarrow> MirProgram \<Rightarrow> std_error option" where
  "validate_portable_program R p = validate_program_shape R p"

end
