(* ===== verification/MirBindings.thy ===== *)
theory MirBindings
  imports MirShape
begin

text \<open>
  The check of variables and user functions against their declarations (\<^verbatim>\<open>validate_bindings\<close>,
  \<^verbatim>\<open>validate_expression\<close> and \<^verbatim>\<open>BindingScope\<close> of \<^verbatim>\<open>runtime/src/mir_reader.cpp\<close>). The source keeps one
  mutable map of bindings and an undo log per scope; the reference it refines is the plain lexical
  reading, where a nested block checks its body in a copy of the bindings and throws the copy away.
\<close>

section \<open>Bindings and scopes\<close>

record Binding =
  b_view :: UnsizedView
  b_declared_data_only :: bool

type_synonym Bindings = "string \<rightharpoonup> Binding"
type_synonym Functions = "string \<rightharpoonup> FunDef"

text \<open>The undo log \<^verbatim>\<open>saved_\<close> of a \<^verbatim>\<open>BindingScope\<close>; the pair of the map and the scope a statement is
  checked in, where \<open>None\<close> stands for the null pointer of the outermost level.\<close>

type_synonym Saved = "(string \<times> Binding option) list"
type_synonym BindState = "Bindings \<times> Saved option"

definition scope_bind :: "string \<Rightarrow> Binding \<Rightarrow> Bindings \<times> Saved \<Rightarrow> Bindings \<times> Saved" where
  "scope_bind name b = (\<lambda>(bindings, saved). (bindings(name \<mapsto> b), saved @ [(name, bindings name)]))"

definition scope_close :: "Bindings \<Rightarrow> Saved \<Rightarrow> Bindings" where
  "scope_close bindings saved = foldr (\<lambda>(name, old) m. m(name := old)) saved bindings"

definition declare_in :: "string \<Rightarrow> Binding \<Rightarrow> BindState \<Rightarrow> BindState" where
  "declare_in name b = (\<lambda>(bindings, scope). case scope of
       None \<Rightarrow> (bindings(name \<mapsto> b), None)
     | Some saved \<Rightarrow> (let (bindings', saved') = scope_bind name b (bindings, saved) in (bindings', Some saved')))"

definition same_view :: "UnsizedView \<Rightarrow> UnsizedView \<Rightarrow> bool" where
  "same_view u v \<longleftrightarrow> v_depth u = v_depth v \<and> v_leaf u = v_leaf v"

definition declared_view :: "SizedType \<Rightarrow> std_error + UnsizedView" where
  "declared_view t =
     (if v_leaf (s_unsized t) \<noteq> Leaf_Unknown then Inr (s_unsized t)
      else let base = (if s_base t = ''SArray'' then s_elem_base t else s_base t);
               leaf = (if base = ''SInt'' then Leaf_Int else if base = ''SReal'' then Leaf_Real
                       else if base = ''SComplex'' then Leaf_Complex else if base = ''SVector'' then Leaf_Vector
                       else if base = ''SRowVector'' then Leaf_RowVector else if base = ''SMatrix'' then Leaf_Matrix
                       else Leaf_Unknown)
        in if s_base t \<noteq> ''SArray'' then Inr \<lparr>v_depth = 0, v_leaf = leaf\<rparr>
           else let leaf_rank = (if leaf = Leaf_Matrix then 2
                                 else if leaf = Leaf_Vector \<or> leaf = Leaf_RowVector then 1 else 0);
                    n = length (s_dims t)
             in if leaf = Leaf_Unknown \<or> n < leaf_rank \<or> n - leaf_rank > 255
                then Inl (RuntimeError ''mir: malformed sized declaration type'')
                else Inr \<lparr>v_depth = int (n - leaf_rank), v_leaf = leaf\<rparr>)"

section \<open>Expressions\<close>

definition fail_if :: "bool \<Rightarrow> string \<Rightarrow> std_error option" where
  "fail_if bad what = (if bad then Some (RuntimeError (''mir: '' @ what)) else None)"

lemma fail_if_None [simp]: "fail_if bad what = None \<longleftrightarrow> \<not> bad"
  by (simp add: fail_if_def)

lemma fail_if_not_undefined [simp]: "fail_if bad what \<noteq> Some UndefinedBehaviour"
  by (simp add: fail_if_def)

lemma fail_unless_not_undefined [simp]: "fail_unless ok what \<noteq> Some UndefinedBehaviour"
  by (simp add: fail_unless_def malformed_def)

text \<open>Whether the binding of a variable, if it has one, disagrees with the type at a use.\<close>

definition view_conflicts :: "Binding option \<Rightarrow> UnsizedView \<Rightarrow> bool" where
  "view_conflicts b view = (case b of None \<Rightarrow> False | Some b \<Rightarrow> \<not> same_view (b_view b) view)"

definition known_conflicts :: "Binding option \<Rightarrow> UnsizedView \<Rightarrow> bool" where
  "known_conflicts b view = (case b of None \<Rightarrow> False
     | Some b \<Rightarrow> v_leaf (b_view b) \<noteq> Leaf_Unknown \<and> \<not> same_view (b_view b) view)"

definition check_variable :: "bool \<Rightarrow> Bindings \<Rightarrow> ExprHead \<Rightarrow> std_error option" where
  "check_variable strict bindings h =
     fail_if (strict \<and> e_kind h = Expr_Var \<and> \<not> e_promoted h \<and> known_conflicts (bindings (e_name h)) (e_unsized h))
       (''variable type disagrees with its binding for '' @ e_name h)"

definition is_categorical :: "ExprHead \<Rightarrow> bool" where
  "is_categorical h \<longleftrightarrow> e_kind h = Expr_FunApp \<and> e_fn_lib h = Lib_StanLib \<and>
     (e_name h = ''categorical_lpmf'' \<or> e_name h = ''categorical_logit_lpmf'')"

definition check_categorical_signature :: "Expr list \<Rightarrow> std_error option" where
  "check_categorical_signature args = (let bad = fail_if True ''malformed categorical signature'' in
     if length args \<noteq> 2 then bad
     else with_elem args 0 (\<lambda>a. if v_leaf (e_unsized (e_head a)) \<noteq> Leaf_Int \<or> v_depth (e_unsized (e_head a)) > 1 then bad
     else with_elem args 1 (\<lambda>a. if v_leaf (e_unsized (e_head a)) \<noteq> Leaf_Vector \<or> v_depth (e_unsized (e_head a)) \<noteq> 0 then bad
     else None)))"

definition check_categorical :: "Bindings \<Rightarrow> ExprHead \<Rightarrow> Expr list \<Rightarrow> std_error option" where
  "check_categorical bindings h args =
     (if \<not> is_categorical h then None
      else first_error (check_categorical_signature args #
        concat (map (\<lambda>arg. let a = e_head arg in
          if e_kind a \<noteq> Expr_Var then []
          else [fail_if (bindings (e_name a) = None) ''categorical argument has no binding'',
                fail_if (view_conflicts (bindings (e_name a)) (e_unsized a))
                  ''categorical argument type disagrees with its binding'']) args)))"

text \<open>One argument of a call of a user function; the vectors of the definition are indexed unchecked.\<close>

definition check_argument :: "Bindings \<Rightarrow> string \<Rightarrow> FunDef \<Rightarrow> nat \<Rightarrow> ExprHead \<Rightarrow> std_error option" where
  "check_argument bindings name f i a =
     first_error
       [with_elem (f_arg_views f) i (\<lambda>view.
          fail_if (\<not> same_view (e_unsized a) view) (''user function argument type mismatch for '' @ name)),
        fail_if (e_kind a = Expr_Var \<and> \<not> e_promoted a \<and>
                 (bindings (e_name a) = None \<or> view_conflicts (bindings (e_name a)) (e_unsized a)))
          (''user function argument type disagrees with its binding for '' @ name),
        with_elem (f_arg_data_only f) i (\<lambda>data_only.
          fail_if (data_only \<and> \<not> e_data_only a) ''data-only function argument depends on a parameter'')]"

definition check_user_call :: "Functions \<Rightarrow> Bindings \<Rightarrow> ExprHead \<Rightarrow> Expr list \<Rightarrow> std_error option" where
  "check_user_call functions bindings h args =
     (if e_kind h \<noteq> Expr_FunApp \<or> e_fn_lib h \<noteq> Lib_UserDefined then None
      else (case functions (e_name h) of
          None \<Rightarrow> fail_if True (''call to unknown user function '' @ e_name h)
        | Some f \<Rightarrow>
            if length args \<noteq> length (f_arg_names f)
            then fail_if True (''user function arity mismatch for '' @ e_name h)
            else first_error (map (\<lambda>i. with_elem args i (\<lambda>a. check_argument bindings (e_name h) f i (e_head a))) [0..<length args])))"

fun validate_expression :: "Functions \<Rightarrow> bool \<Rightarrow> Bindings \<Rightarrow> Expr \<Rightarrow> std_error option" where
  "validate_expression functions strict bindings (Expr h args) = first_error
     ([check_variable strict bindings h, check_categorical bindings h args, check_user_call functions bindings h args] @
      map (validate_expression functions strict bindings) args)"

declare validate_expression.simps [simp del]

section \<open>Statements\<close>

definition is_structured_check :: "TransformKind \<Rightarrow> bool" where
  "is_structured_check kind \<longleftrightarrow> kind \<in> {Tr_Simplex, Tr_Ordered, Tr_PositiveOrdered, Tr_CholeskyCorr, Tr_UnitVector,
     Tr_SumToZero, Tr_Correlation, Tr_Covariance, Tr_CholeskyCov, Tr_StochasticColumn, Tr_StochasticRow}"

definition is_matrix_only_check :: "TransformKind \<Rightarrow> bool" where
  "is_matrix_only_check kind \<longleftrightarrow> kind \<in> {Tr_CholeskyCorr, Tr_Correlation, Tr_Covariance, Tr_CholeskyCov,
     Tr_StochasticColumn, Tr_StochasticRow}"

definition structured_leaf_ok :: "TransformKind \<Rightarrow> UnsizedLeaf \<Rightarrow> bool" where
  "structured_leaf_ok kind leaf = (let matrix = (leaf = Leaf_Matrix); vector = (leaf = Leaf_Vector);
       matrix_only = is_matrix_only_check kind; vector_only = (kind \<noteq> Tr_SumToZero \<and> \<not> matrix_only)
     in \<not> ((\<not> matrix \<and> \<not> vector) \<or> (matrix_only \<and> \<not> matrix) \<or> (vector_only \<and> \<not> vector)))"

definition check_fn_check :: "Bindings \<Rightarrow> StmtHead \<Rightarrow> std_error option" where
  "check_fn_check bindings s =
     (if st_kind s \<noteq> Stmt_NRFunApp \<or> st_fn_name s \<noteq> ''FnCheck'' then None
      else (case st_check_transform s of
          None \<Rightarrow> fail_if True ''FnCheck has no transform''
        | Some t \<Rightarrow> first_error
           [(if is_structured_check (t_kind t)
             then first_error
               [fail_if (t_args t \<noteq> [] \<or> length (st_fn_args s) \<noteq> 1) ''malformed structured FnCheck'',
                with_elem (st_fn_args s) 0 (\<lambda>a. fail_if (\<not> structured_leaf_ok (t_kind t) (v_leaf (e_unsized (e_head a))))
                  ''structured FnCheck transform and value type disagree'')]
             else fail_if (\<not> ((t_kind t = Tr_Lower \<or> t_kind t = Tr_Upper) \<and> length (t_args t) = 1 \<and>
                              length (st_fn_args s) = 2)) ''unsupported or malformed FnCheck''),
            with_elem (st_fn_args s) 0 (\<lambda>a. let v = e_head a in
             fail_if (e_kind v = Expr_Var \<and>
                      (bindings (e_name v) = None \<or> view_conflicts (bindings (e_name v)) (e_unsized v)))
               ''FnCheck value type disagrees with its declaration'')]))"

definition check_assignment :: "bool \<Rightarrow> Bindings \<Rightarrow> StmtHead \<Rightarrow> std_error option" where
  "check_assignment strict bindings s =
     fail_if (strict \<and> st_kind s = Stmt_Assignment \<and> st_lhs_idx s = [] \<and>
              v_leaf (e_unsized (e_head (st_rhs s))) \<noteq> Leaf_Unknown \<and>
              known_conflicts (bindings (st_lhs s)) (e_unsized (e_head (st_rhs s))))
       (''assignment type disagrees with its binding for '' @ st_lhs s)"

definition transform_args :: "Transform option \<Rightarrow> Expr list" where
  "transform_args t = (case t of None \<Rightarrow> [] | Some t \<Rightarrow> t_args t)"

text \<open>Every expression of a statement that \<^verbatim>\<open>validate_bindings\<close> looks at.\<close>

definition bound_exprs :: "StmtHead \<Rightarrow> Expr list" where
  "bound_exprs s = stmt_exprs s @ stmt_lists s @ transform_args (st_read_transform s) @
     transform_args (st_check_transform s) @ transform_args (st_write_transform s)"

definition check_statement :: "Functions \<Rightarrow> bool \<Rightarrow> Bindings \<Rightarrow> StmtHead \<Rightarrow> std_error option" where
  "check_statement functions strict bindings s = first_error
     (map (validate_expression functions strict bindings) (bound_exprs s) @
      [check_fn_check bindings s, check_assignment strict bindings s])"

text \<open>The binding a declaration introduces.\<close>

definition declared_binding :: "bool \<Rightarrow> StmtHead \<Rightarrow> std_error + Binding" where
  "declared_binding strict s = (case declared_view (st_decl_type s) of
       Inl e \<Rightarrow> Inl e
     | Inr view \<Rightarrow>
         if strict \<and> v_leaf (s_unsized (st_decl_type s)) \<noteq> Leaf_Unknown \<and> st_has_init s \<and>
            v_leaf (e_unsized (e_head (st_init s))) \<noteq> Leaf_Unknown \<and>
            \<not> same_view view (e_unsized (e_head (st_init s)))
         then Inl (RuntimeError (''mir: declaration initializer type disagrees with its binding for '' @ st_decl_id s))
         else Inr \<lparr>b_view = view, b_declared_data_only = st_decl_data_only s\<rparr>)"

definition apply_declaration :: "bool \<Rightarrow> StmtHead \<Rightarrow> BindState \<Rightarrow> std_error + BindState" where
  "apply_declaration strict s st =
     (if st_kind s \<noteq> Stmt_Decl then Inr st
      else (case declared_binding strict s of Inl e \<Rightarrow> Inl e | Inr b \<Rightarrow> Inr (declare_in (st_decl_id s) b st)))"

definition loop_binding :: Binding where
  "loop_binding = \<lparr>b_view = \<lparr>v_depth = 0, v_leaf = Leaf_Int\<rparr>, b_declared_data_only = True\<rparr>"

text \<open>The state a nested block starts in: an empty undo log, with the loop variable of a \<^verbatim>\<open>For\<close> bound.\<close>

definition open_nested :: "StmtHead \<Rightarrow> Bindings \<Rightarrow> BindState" where
  "open_nested s bindings =
     (if st_kind s = Stmt_For then declare_in (st_loopvar s) loop_binding (bindings, Some []) else (bindings, Some []))"

text \<open>The destructor of a scope runs at the end of the block; the outer scope object is untouched.\<close>

definition close_nested :: "Saved option \<Rightarrow> std_error + BindState \<Rightarrow> std_error + BindState" where
  "close_nested scope r = (case r of
       Inl e \<Rightarrow> Inl e
     | Inr (bindings, None) \<Rightarrow> Inr (bindings, scope)
     | Inr (bindings, Some saved) \<Rightarrow> Inr (scope_close bindings saved, scope))"

text \<open>The statement itself and its declaration, before its body.\<close>

definition enter_statement :: "Functions \<Rightarrow> bool \<Rightarrow> StmtHead \<Rightarrow> BindState \<Rightarrow> std_error + BindState" where
  "enter_statement fs strict s st = (case check_statement fs strict (fst st) s of
       Some e \<Rightarrow> Inl e
     | None \<Rightarrow> apply_declaration strict s st)"

text \<open>How a statement of each kind checks its body, given the check of the body in sequence and the
  check of the body's statements as branches.\<close>

definition check_body :: "StmtHead \<Rightarrow> bool \<Rightarrow> (BindState \<Rightarrow> std_error + BindState) \<Rightarrow> (BindState \<Rightarrow> std_error + BindState) \<Rightarrow>
    BindState \<Rightarrow> std_error + BindState" where
  "check_body s no_body sequence branches st =
     (if st_kind s = Stmt_SList then sequence st
      else if st_kind s = Stmt_IfElse then branches st
      else if \<not> no_body then close_nested (snd st) (sequence (open_nested s (fst st)))
      else Inr st)"

fun validate_bindings :: "Functions \<Rightarrow> bool \<Rightarrow> Stmt \<Rightarrow> BindState \<Rightarrow> std_error + BindState"
  and validate_body :: "Functions \<Rightarrow> bool \<Rightarrow> Stmt list \<Rightarrow> BindState \<Rightarrow> std_error + BindState"
  and validate_branches :: "Functions \<Rightarrow> bool \<Rightarrow> Stmt list \<Rightarrow> BindState \<Rightarrow> std_error + BindState" where
  "validate_bindings fs strict (Stmt s body) = (\<lambda>st. and_then (enter_statement fs strict s st)
     (check_body s (body = []) (validate_body fs strict body) (validate_branches fs strict body)))"
| "validate_body fs strict [] = Inr"
| "validate_body fs strict (s # ss) = (\<lambda>st. and_then (validate_bindings fs strict s st) (validate_body fs strict ss))"
| "validate_branches fs strict [] = Inr"
| "validate_branches fs strict (s # ss) = (\<lambda>st.
     and_then (close_nested (snd st) (validate_bindings fs strict s (fst st, Some []))) (validate_branches fs strict ss))"

section \<open>The lexical reading\<close>

text \<open>The same checks with the bindings as a value: a statement maps the bindings before it to the
  bindings after it; a branch and a nested block keep theirs to themselves.\<close>

definition lexical_enter :: "Functions \<Rightarrow> bool \<Rightarrow> StmtHead \<Rightarrow> Bindings \<Rightarrow> std_error + Bindings" where
  "lexical_enter fs strict s \<Gamma> = (case check_statement fs strict \<Gamma> s of
       Some e \<Rightarrow> Inl e
     | None \<Rightarrow> if st_kind s \<noteq> Stmt_Decl then Inr \<Gamma>
         else and_then (declared_binding strict s) (\<lambda>b. Inr (\<Gamma>(st_decl_id s \<mapsto> b))))"

definition nested_bindings :: "StmtHead \<Rightarrow> Bindings \<Rightarrow> Bindings" where
  "nested_bindings s \<Gamma> = (if st_kind s = Stmt_For then \<Gamma>(st_loopvar s \<mapsto> loop_binding) else \<Gamma>)"

definition keep_bindings :: "Bindings \<Rightarrow> std_error + Bindings \<Rightarrow> std_error + Bindings" where
  "keep_bindings \<Gamma> r = and_then r (\<lambda>_. Inr \<Gamma>)"

definition lexical_body :: "StmtHead \<Rightarrow> bool \<Rightarrow> (Bindings \<Rightarrow> std_error + Bindings) \<Rightarrow> (Bindings \<Rightarrow> std_error + Bindings) \<Rightarrow>
    Bindings \<Rightarrow> std_error + Bindings" where
  "lexical_body s no_body sequence branches \<Gamma> =
     (if st_kind s = Stmt_SList then sequence \<Gamma>
      else if st_kind s = Stmt_IfElse then branches \<Gamma>
      else if \<not> no_body then keep_bindings \<Gamma> (sequence (nested_bindings s \<Gamma>))
      else Inr \<Gamma>)"

fun lexical :: "Functions \<Rightarrow> bool \<Rightarrow> Stmt \<Rightarrow> Bindings \<Rightarrow> std_error + Bindings"
  and lexical_seq :: "Functions \<Rightarrow> bool \<Rightarrow> Stmt list \<Rightarrow> Bindings \<Rightarrow> std_error + Bindings"
  and lexical_branches :: "Functions \<Rightarrow> bool \<Rightarrow> Stmt list \<Rightarrow> Bindings \<Rightarrow> std_error + Bindings" where
  "lexical fs strict (Stmt s body) = (\<lambda>\<Gamma>. and_then (lexical_enter fs strict s \<Gamma>)
     (lexical_body s (body = []) (lexical_seq fs strict body) (lexical_branches fs strict body)))"
| "lexical_seq fs strict [] = Inr"
| "lexical_seq fs strict (s # ss) = (\<lambda>\<Gamma>. and_then (lexical fs strict s \<Gamma>) (lexical_seq fs strict ss))"
| "lexical_branches fs strict [] = Inr"
| "lexical_branches fs strict (s # ss) = (\<lambda>\<Gamma>.
     and_then (keep_bindings \<Gamma> (lexical fs strict s \<Gamma>)) (lexical_branches fs strict ss))"

section \<open>Undo logs implement lexical scoping\<close>

text \<open>A checker over the mutable map implements a lexical one when it fails with the same exception,
  ends with the same bindings, and has logged enough to undo them.\<close>

definition undoes :: "Bindings \<Rightarrow> Saved option \<Rightarrow> Bindings \<Rightarrow> Saved option \<Rightarrow> bool" where
  "undoes bindings scope bindings' scope' = (case (scope, scope') of
       (None, None) \<Rightarrow> True
     | (Some saved, Some saved') \<Rightarrow> (\<exists>log. saved' = saved @ log \<and> scope_close bindings' log = bindings)
     | _ \<Rightarrow> False)"

definition implements :: "(BindState \<Rightarrow> std_error + BindState) \<Rightarrow> (Bindings \<Rightarrow> std_error + Bindings) \<Rightarrow> bool" where
  "implements f g \<longleftrightarrow> (\<forall>bindings scope. case g bindings of
       Inl e \<Rightarrow> f (bindings, scope) = Inl e
     | Inr bindings' \<Rightarrow> \<exists>scope'. f (bindings, scope) = Inr (bindings', scope') \<and> undoes bindings scope bindings' scope')"

lemma undoes_refl [simp]: "undoes b scope b scope"
  by (auto simp: undoes_def scope_close_def split: option.splits intro: exI [of _ "[]"])

lemma undoes_trans: "undoes b sc b' sc' \<Longrightarrow> undoes b' sc' b'' sc'' \<Longrightarrow> undoes b sc b'' sc''"
  by (auto simp: undoes_def scope_close_def split: option.splits)

lemma undoes_declare:
  "\<exists>scope'. declare_in name x (b, scope) = (b(name \<mapsto> x), scope') \<and> undoes b scope (b(name \<mapsto> x)) scope'"
  by (cases scope) (auto simp: declare_in_def scope_bind_def undoes_def scope_close_def)

lemma undoes_close:
  "undoes b (Some []) b' scope' \<Longrightarrow> close_nested scope (Inr (b', scope')) = Inr (b, scope)"
  by (cases scope') (auto simp: undoes_def close_nested_def)

lemma implementsI:
  assumes "\<And>b scope e. g b = Inl e \<Longrightarrow> f (b, scope) = Inl e"
    and "\<And>b scope b'. g b = Inr b' \<Longrightarrow> \<exists>scope'. f (b, scope) = Inr (b', scope') \<and> undoes b scope b' scope'"
  shows "implements f g"
  using assms by (auto simp: implements_def split: sum.splits)

lemma implementsL: "implements f g \<Longrightarrow> g b = Inl e \<Longrightarrow> f (b, scope) = Inl e"
  by (auto simp: implements_def split: sum.splits)

lemma implementsR:
  assumes "implements f g" "g b = Inr b'"
  obtains scope' where "f (b, scope) = Inr (b', scope')" "undoes b scope b' scope'"
proof -
  have "case g b of Inl e \<Rightarrow> f (b, scope) = Inl e
     | Inr b' \<Rightarrow> \<exists>scope'. f (b, scope) = Inr (b', scope') \<and> undoes b scope b' scope'"
    using assms(1) unfolding implements_def by blast
  with assms(2) that show thesis by auto
qed

lemma implements_return: "implements Inr Inr"
  by (rule implementsI) auto

lemma implements_then:
  assumes "implements f g" "implements f' g'"
  shows "implements (\<lambda>st. and_then (f st) f') (\<lambda>b. and_then (g b) g')"
proof (rule implementsI)
  fix b scope e assume "and_then (g b) g' = Inl e"
  then show "and_then (f (b, scope)) f' = Inl e"
  proof (cases "g b")
    case (Inr b')
    with \<open>and_then (g b) g' = Inl e\<close> have "g' b' = Inl e" by (simp add: and_then_def)
    obtain sc' where "f (b, scope) = Inr (b', sc')" by (rule implementsR [OF assms(1) Inr])
    then show ?thesis using implementsL [OF assms(2) \<open>g' b' = Inl e\<close>] by (simp add: and_then_def)
  qed (auto simp: and_then_def implementsL [OF assms(1)])
next
  fix b scope b'' assume "and_then (g b) g' = Inr b''"
  then obtain b' where g: "g b = Inr b'" "g' b' = Inr b''" by (auto simp: and_then_def split: sum.splits)
  obtain sc' where 1: "f (b, scope) = Inr (b', sc')" "undoes b scope b' sc'"
    by (rule implementsR [OF assms(1) g(1)])
  obtain sc'' where 2: "f' (b', sc') = Inr (b'', sc'')" "undoes b' sc' b'' sc''"
    by (rule implementsR [OF assms(2) g(2)])
  from 1 2 undoes_trans [OF 1(2) 2(2)]
  show "\<exists>scope'. and_then (f (b, scope)) f' = Inr (b'', scope') \<and> undoes b scope b'' scope'"
    by (simp add: and_then_def)
qed

text \<open>A block that starts from bindings it has logged gives the outer bindings back.\<close>

lemma implements_block:
  assumes "implements f g" "\<And>b. \<exists>sc. start b = (start' b, sc) \<and> undoes b (Some []) (start' b) sc"
  shows "implements (\<lambda>st. close_nested (snd st) (f (start (fst st)))) (\<lambda>b. keep_bindings b (g (start' b)))"
proof (rule implementsI)
  fix b scope e assume "keep_bindings b (g (start' b)) = Inl e"
  then have "g (start' b) = Inl e" by (auto simp: keep_bindings_def and_then_def split: sum.splits)
  then show "close_nested (snd (b, scope)) (f (start (fst (b, scope)))) = Inl e"
    using assms(2) [of b] implementsL [OF assms(1)] by (auto simp: close_nested_def)
next
  fix b scope b' assume "keep_bindings b (g (start' b)) = Inr b'"
  then obtain b2 where g: "g (start' b) = Inr b2" "b' = b" by (auto simp: keep_bindings_def and_then_def split: sum.splits)
  from assms(2) obtain sc where s: "start b = (start' b, sc)" "undoes b (Some []) (start' b) sc" by blast
  obtain sc2 where "f (start' b, sc) = Inr (b2, sc2)" "undoes (start' b) sc b2 sc2"
    by (rule implementsR [OF assms(1) g(1)])
  with s show "\<exists>scope'. close_nested (snd (b, scope)) (f (start (fst (b, scope)))) = Inr (b', scope') \<and> undoes b scope b' scope'"
    using undoes_close [OF undoes_trans [OF s(2)]] g(2) by simp
qed

lemma implements_enter: "implements (enter_statement fs strict s) (lexical_enter fs strict s)"
proof (rule implementsI)
  fix b scope e assume "lexical_enter fs strict s b = Inl e"
  then show "enter_statement fs strict s (b, scope) = Inl e"
    by (auto simp: lexical_enter_def enter_statement_def apply_declaration_def and_then_def
        split: option.splits sum.splits if_splits)
next
  fix b scope b' assume l: "lexical_enter fs strict s b = Inr b'"
  show "\<exists>scope'. enter_statement fs strict s (b, scope) = Inr (b', scope') \<and> undoes b scope b' scope'"
  proof (cases "st_kind s = Stmt_Decl")
    case True
    with l obtain x where "declared_binding strict s = Inr x" "b' = b(st_decl_id s \<mapsto> x)"
        "check_statement fs strict b s = None"
      by (auto simp: lexical_enter_def and_then_def split: option.splits sum.splits)
    with True undoes_declare [of "st_decl_id s" x b scope] show ?thesis
      by (auto simp: enter_statement_def apply_declaration_def)
  next
    case False
    with l show ?thesis
      by (auto simp: lexical_enter_def enter_statement_def apply_declaration_def split: option.splits)
  qed
qed

lemma implements_body:
  assumes "implements f g" "implements fb gb"
  shows "implements (check_body s no_body f fb) (lexical_body s no_body g gb)"
proof -
  have "\<exists>sc. open_nested s b = (nested_bindings s b, sc) \<and> undoes b (Some []) (nested_bindings s b) sc" for b
    using undoes_declare [of "st_loopvar s" loop_binding b "Some []"] by (auto simp: open_nested_def nested_bindings_def)
  then have block: "implements (\<lambda>st. close_nested (snd st) (f (open_nested s (fst st))))
      (\<lambda>b. keep_bindings b (g (nested_bindings s b)))"
    by (rule implements_block [OF assms(1)])
  consider "st_kind s = Stmt_SList" | "st_kind s = Stmt_IfElse"
    | "st_kind s \<noteq> Stmt_SList" "st_kind s \<noteq> Stmt_IfElse" "no_body"
    | "st_kind s \<noteq> Stmt_SList" "st_kind s \<noteq> Stmt_IfElse" "\<not> no_body" by blast
  then show ?thesis
    using assms block implements_return
    by cases (simp_all add: check_body_def [abs_def] lexical_body_def [abs_def])
qed

lemma validate_implements_lexical:
  "implements (validate_bindings fs strict s) (lexical fs strict s)"
  "implements (validate_body fs strict ss) (lexical_seq fs strict ss)"
  "implements (validate_branches fs strict ss) (lexical_branches fs strict ss)"
proof (induction fs strict s and fs strict ss and fs strict ss rule: validate_bindings_validate_body_validate_branches.induct)
  case (5 fs strict s ss)
  have "implements (\<lambda>st. close_nested (snd st) (validate_bindings fs strict s (fst st, Some [])))
    (\<lambda>b. keep_bindings b (lexical fs strict s b))"

    using implements_block [OF "5.IH"(1), of "\<lambda>b. (b, Some [])" "\<lambda>b. b"] by simp
  from implements_then [OF this "5.IH"(2)] show ?case by simp
qed (simp_all add: implements_return implements_then implements_enter implements_body)

text \<open>What the later theories use of a check that keeps undo logs: it rejects what the lexical check
  rejects, with the same exception, and leaves the bindings of the lexical reading.\<close>

locale scoped_check =
  fixes checked :: "BindState \<Rightarrow> std_error + BindState"
    and reading :: "Bindings \<Rightarrow> std_error + Bindings"
  assumes implemented: "implements checked reading"
begin

lemma rejects: "reading b = Inl e \<Longrightarrow> checked (b, scope) = Inl e"
  by (rule implementsL [OF implemented])

lemma accepts:
  assumes "reading b = Inr b'"
  obtains scope' where "checked (b, scope) = Inr (b', scope')" "undoes b scope b' scope'"
  by (rule implementsR [OF implemented assms])

lemma bindings_after:
  assumes "checked (b, scope) = Inr st"
  shows "reading b = Inr (fst st)"
proof (cases "reading b")
  case (Inl e)
  with assms rejects show ?thesis by simp
next
  case (Inr b')
  then obtain scope' where "checked (b, scope) = Inr (b', scope')" by (rule accepts)
  with assms Inr show ?thesis by auto
qed

lemma exceptions: "checked (b, scope) = Inl e \<longleftrightarrow> reading b = Inl e"
proof
  assume checked: "checked (b, scope) = Inl e"
  show "reading b = Inl e"
  proof (cases "reading b")
    case (Inl e')
    with checked rejects [OF Inl, of scope] show ?thesis by simp
  next
    case (Inr b')
    then obtain scope' where "checked (b, scope) = Inr (b', scope')" by (rule accepts)
    with checked show ?thesis by simp
  qed
qed (rule rejects)

end

interpretation scoped_statement: scoped_check "validate_bindings fs strict s" "lexical fs strict s" for fs strict s
  by unfold_locales (rule validate_implements_lexical)

interpretation scoped_body: scoped_check "validate_body fs strict ss" "lexical_seq fs strict ss" for fs strict ss
  by unfold_locales (rule validate_implements_lexical)

text \<open>C9. The undo logs implement lexical scoping: started on any bindings, with or without a scope
  object, the check of a list of statements over the one mutable map fails exactly when the lexical
  check fails, with the same exception, and otherwise leaves the map with the bindings of the lexical
  reading; a block that was entered with a fresh scope restores, when the scope is destroyed, exactly the
  bindings it started from, shadowed names included.\<close>

theorem validate_body_lexical:
  "(case lexical_seq fs strict body \<Gamma> of
      Inl e \<Rightarrow> validate_body fs strict body (\<Gamma>, scope) = Inl e
    | Inr \<Gamma>' \<Rightarrow> (\<exists>scope'. validate_body fs strict body (\<Gamma>, scope) = Inr (\<Gamma>', scope') \<and>
        (case (scope, scope') of (None, None) \<Rightarrow> True
         | (Some saved, Some saved') \<Rightarrow> (\<exists>log. saved' = saved @ log \<and> scope_close \<Gamma>' log = \<Gamma>)
         | _ \<Rightarrow> False)))"
  using validate_implements_lexical(2) [of fs strict body]
  unfolding implements_def undoes_def by (auto split: sum.splits)

end
