(* ===== verification/MirTyping.thy ===== *)
theory MirTyping
  imports MirBindings
begin

text \<open>
  What an accepted program guarantees: at every statement the checker reaches, with the bindings in
  scope there, every variable has the type of its declaration and every call of a user function is a
  call of a known function with matching arguments. The bindings in scope are those of the
  declarations, whatever the checks say (\<open>after\<close>), and \<open>visits\<close> walks a body with them.
\<close>

section \<open>The bindings in scope\<close>

definition declare_after :: "StmtHead \<Rightarrow> Bindings \<Rightarrow> Bindings" where
  "declare_after s \<Gamma> =
     (if st_kind s \<noteq> Stmt_Decl then \<Gamma>
      else case declared_view (st_decl_type s) of
          Inl e \<Rightarrow> \<Gamma>
        | Inr view \<Rightarrow> \<Gamma>(st_decl_id s \<mapsto> \<lparr>b_view = view, b_declared_data_only = st_decl_data_only s\<rparr>))"

fun after :: "Stmt \<Rightarrow> Bindings \<Rightarrow> Bindings" where
  "after (Stmt s body) = (if st_kind s = Stmt_SList then (\<lambda>\<Gamma>. foldl (\<lambda>\<Gamma> f. f \<Gamma>) (declare_after s \<Gamma>) (map after body))
     else declare_after s)"

definition after_seq :: "Stmt list \<Rightarrow> Bindings \<Rightarrow> Bindings" where
  "after_seq ss \<Gamma> = foldl (\<lambda>\<Gamma> s. after s \<Gamma>) \<Gamma> ss"

lemma foldl_map_apply: "foldl (\<lambda>g f. f g) g (map f xs) = foldl (\<lambda>g x. f x g) g xs"
  by (induction xs arbitrary: g) auto

lemma after_Stmt:
  "after (Stmt s body) \<Gamma> = (if st_kind s = Stmt_SList then after_seq body (declare_after s \<Gamma>) else declare_after s \<Gamma>)"
  by (simp add: after_seq_def foldl_map_apply)

declare after.simps [simp del]

lemma after_seq_simps [simp]: "after_seq [] \<Gamma> = \<Gamma>" "after_seq (s # ss) \<Gamma> = after_seq ss (after s \<Gamma>)"
  by (simp_all add: after_seq_def)

text \<open>\<open>visits \<Gamma> body \<Delta> t\<close>: walking \<open>body\<close> from the bindings \<open>\<Gamma>\<close> meets the statement \<open>t\<close> with the bindings \<open>\<Delta>\<close>.\<close>

inductive visits :: "Bindings \<Rightarrow> Stmt list \<Rightarrow> Bindings \<Rightarrow> Stmt \<Rightarrow> bool" where
  here: "visits \<Gamma> (s # ss) \<Gamma> s"
| later: "visits (after s \<Gamma>) ss \<Delta> t \<Longrightarrow> visits \<Gamma> (s # ss) \<Delta> t"
| in_list: "st_kind h = Stmt_SList \<Longrightarrow> visits (declare_after h \<Gamma>) body \<Delta> t \<Longrightarrow> visits \<Gamma> (Stmt h body # ss) \<Delta> t"
| in_branch: "st_kind h = Stmt_IfElse \<Longrightarrow> c \<in> set body \<Longrightarrow> visits (declare_after h \<Gamma>) [c] \<Delta> t \<Longrightarrow>
    visits \<Gamma> (Stmt h body # ss) \<Delta> t"
| in_block: "st_kind h \<noteq> Stmt_SList \<Longrightarrow> st_kind h \<noteq> Stmt_IfElse \<Longrightarrow>
    visits (nested_bindings h (declare_after h \<Gamma>)) body \<Delta> t \<Longrightarrow> visits \<Gamma> (Stmt h body # ss) \<Delta> t"

text \<open>All statements of a body, at any depth; each is visited.\<close>

fun statements :: "Stmt \<Rightarrow> Stmt list" where
  "statements (Stmt h body) = Stmt h body # concat (map statements body)"

lemma visits_cons: "visits \<Gamma>' [c] \<Delta> t \<Longrightarrow> \<exists>\<Delta>. visits \<Gamma>' (c # ss) \<Delta> t"
  by (erule visits.cases) (auto intro: visits.intros elim: visits.cases)

lemma visits_member: "c \<in> set body \<Longrightarrow> (\<And>\<Gamma>. \<exists>\<Delta>. visits \<Gamma> [c] \<Delta> t) \<Longrightarrow> \<exists>\<Delta>. visits \<Gamma> body \<Delta> t"
proof (induction body arbitrary: \<Gamma>)
  case (Cons s ss)
  show ?case
  proof (cases "c = s")
    case True
    with Cons.prems(2) [of \<Gamma>] show ?thesis by (auto intro: visits_cons)
  next
    case False
    with Cons.prems(1) have "c \<in> set ss" by simp
    then show ?thesis using Cons.IH [of "after s \<Gamma>"] Cons.prems(2) by (auto intro: visits.later)
  qed
qed simp

lemma every_statement_visited: "t \<in> set (statements s) \<Longrightarrow> \<exists>\<Delta>. visits \<Gamma> [s] \<Delta> t"
proof (induction s arbitrary: \<Gamma> rule: statements.induct)
  case (1 h body)
  show ?case
  proof (cases "t = Stmt h body")
    case True
    then show ?thesis by (auto intro: visits.here)
  next
    case False
    with "1.prems" obtain c where c: "c \<in> set body" "t \<in> set (statements c)" by auto
    note ih = "1.IH" [OF c]
    from visits_member [OF c(1) ih] have b: "\<exists>\<Delta>. visits \<Gamma>' body \<Delta> t" for \<Gamma>' .
    show ?thesis
    proof (cases "st_kind h = Stmt_IfElse")
      case True
      then show ?thesis using ih [of "declare_after h \<Gamma>"] c(1) by (auto intro: visits.in_branch)
    next
      case False
      then show ?thesis
        using b [of "declare_after h \<Gamma>"] b [of "nested_bindings h (declare_after h \<Gamma>)"]
        by (cases "st_kind h = Stmt_SList") (auto intro: visits.in_list visits.in_block)
    qed
  qed
qed

section \<open>Accepted statements\<close>

lemma lexical_enter_Inr:
  "lexical_enter fs strict h \<Gamma> = Inr \<Gamma>' \<Longrightarrow> check_statement fs strict \<Gamma> h = None \<and> \<Gamma>' = declare_after h \<Gamma>"
  by (auto simp: lexical_enter_def declare_after_def declared_binding_def split: option.splits if_splits sum.splits)

lemma keep_bindings_Inr: "keep_bindings \<Gamma> r = Inr \<Gamma>' \<longleftrightarrow> \<Gamma>' = \<Gamma> \<and> (\<exists>\<Delta>. r = Inr \<Delta>)"
  by (auto simp: keep_bindings_def)

lemma lexical_after:
  "lexical fs strict s \<Gamma> = Inr \<Gamma>' \<Longrightarrow> \<Gamma>' = after s \<Gamma>"
  "lexical_seq fs strict ss \<Gamma> = Inr \<Gamma>' \<Longrightarrow> \<Gamma>' = after_seq ss \<Gamma>"
  "lexical_branches fs strict ss \<Gamma> = Inr \<Gamma>' \<Longrightarrow> \<Gamma>' = \<Gamma>"
proof (induction fs strict s and fs strict ss and fs strict ss arbitrary: \<Gamma> \<Gamma>' and \<Gamma> \<Gamma>' and \<Gamma> \<Gamma>'
    rule: lexical_lexical_seq_lexical_branches.induct)
  case (1 fs strict s body)
  then show ?case
    by (fastforce simp: lexical_body_def after_Stmt keep_bindings_Inr dest: lexical_enter_Inr split: if_splits)
next
  case (5 fs strict s ss)
  then show ?case by (fastforce simp: keep_bindings_Inr)
qed auto

lemma lexical_branches_member:
  "lexical_branches fs strict ss \<Gamma> = Inr \<Gamma>' \<Longrightarrow> c \<in> set ss \<Longrightarrow> \<exists>\<Delta>. lexical fs strict c \<Gamma> = Inr \<Delta>"
  by (induction ss arbitrary: \<Gamma>) (auto simp: keep_bindings_Inr)

text \<open>Every statement that is visited has passed its own checks with the bindings in scope.\<close>

lemma visited_checked:
  "visits \<Gamma> body \<Delta> t \<Longrightarrow> lexical_seq fs strict body \<Gamma> = Inr \<Gamma>' \<Longrightarrow> check_statement fs strict \<Delta> (st_head t) = None"
proof (induction arbitrary: \<Gamma>' rule: visits.induct)
  case (here \<Gamma> s ss)
  then show ?case by (cases s) (auto dest: lexical_enter_Inr)
next
  case (later s \<Gamma> ss \<Delta> t)
  then show ?case by (auto dest!: lexical_after(1))
next
  case (in_list h \<Gamma> body \<Delta> t ss)
  then show ?case by (fastforce simp: lexical_body_def dest: lexical_enter_Inr)
next
  case (in_branch h c body \<Gamma> \<Delta> t ss)
  then have "\<exists>\<Delta>'. lexical fs strict c (declare_after h \<Gamma>) = Inr \<Delta>'"
    by (fastforce simp: lexical_body_def dest: lexical_enter_Inr lexical_branches_member)
  then show ?case using in_branch.IH by auto
next
  case (in_block h \<Gamma> body \<Delta> t ss)
  have "body \<noteq> []" using in_block.hyps(3) by (auto elim: visits.cases)
  with in_block show ?case
    by (fastforce simp: lexical_body_def keep_bindings_Inr dest: lexical_enter_Inr)
qed

section \<open>Accepted expressions\<close>

fun subexprs :: "Expr \<Rightarrow> Expr list" where
  "subexprs (Expr h args) = Expr h args # concat (map subexprs args)"

text \<open>What holds of one expression in scope.\<close>

definition variable_typed :: "Bindings \<Rightarrow> ExprHead \<Rightarrow> bool" where
  "variable_typed \<Gamma> h \<longleftrightarrow> (e_kind h = Expr_Var \<and> \<not> e_promoted h \<longrightarrow>
     (\<forall>b. \<Gamma> (e_name h) = Some b \<and> v_leaf (b_view b) \<noteq> Leaf_Unknown \<longrightarrow> b_view b = e_unsized h))"

definition call_typed :: "Functions \<Rightarrow> Bindings \<Rightarrow> Expr \<Rightarrow> bool" where
  "call_typed fs \<Gamma> e \<longleftrightarrow> (e_kind (e_head e) = Expr_FunApp \<and> e_fn_lib (e_head e) = Lib_UserDefined \<longrightarrow>
     (\<exists>f. fs (e_name (e_head e)) = Some f \<and> length (e_args e) = length (f_arg_names f) \<and>
        length (e_args e) \<le> length (f_arg_views f) \<and> length (e_args e) \<le> length (f_arg_data_only f) \<and>
        (\<forall>i < length (e_args e). let a = e_head (e_args e ! i) in
           e_unsized a = f_arg_views f ! i \<and> (f_arg_data_only f ! i \<longrightarrow> e_data_only a) \<and>
           (e_kind a = Expr_Var \<and> \<not> e_promoted a \<longrightarrow> (\<exists>b. \<Gamma> (e_name a) = Some b \<and> b_view b = e_unsized a)))))"

lemma same_view_eq: "same_view u v \<longleftrightarrow> u = v"
  by (cases u, cases v) (auto simp: same_view_def)

lemma subexpr_checked:
  "e \<in> set (subexprs r) \<Longrightarrow> validate_expression fs strict \<Gamma> r = None \<Longrightarrow>
    check_variable strict \<Gamma> (e_head e) = None \<and> check_user_call fs \<Gamma> (e_head e) (e_args e) = None"
proof (induction r rule: subexprs.induct)
  case (1 h args)
  then show ?case
    by (auto simp: validate_expression.simps first_error_None simp del: first_error_append first_error_Cons)
qed

lemma check_variable_typed: "check_variable True \<Gamma> h = None \<Longrightarrow> variable_typed \<Gamma> h"
  by (auto simp: check_variable_def variable_typed_def known_conflicts_def same_view_eq)

lemma check_argument_None:
  "check_argument \<Gamma> name f i a = None \<longleftrightarrow> i < length (f_arg_views f) \<and> i < length (f_arg_data_only f) \<and>
     e_unsized a = f_arg_views f ! i \<and> (f_arg_data_only f ! i \<longrightarrow> e_data_only a) \<and>
     (e_kind a = Expr_Var \<and> \<not> e_promoted a \<longrightarrow> (\<exists>b. \<Gamma> (e_name a) = Some b \<and> b_view b = e_unsized a))"
  by (auto simp: check_argument_def first_error_None view_conflicts_def same_view_eq with_elem_None
      simp del: first_error_append first_error_Cons split: option.splits)

lemma check_call_typed: "check_user_call fs \<Gamma> (e_head e) (e_args e) = None \<Longrightarrow> call_typed fs \<Gamma> e"
  by (auto simp: check_user_call_def call_typed_def first_error_None check_argument_None with_elem_None Let_def
      simp del: first_error_append first_error_Cons split: if_splits option.splits)

lemma validated_body_typed:
  assumes "validate_body fs True body (\<Gamma>, scope) = Inr st" "visits \<Gamma> body \<Delta> t"
    and "r \<in> set (bound_exprs (st_head t))" "e \<in> set (subexprs r)"
  shows "variable_typed \<Delta> (e_head e) \<and> call_typed fs \<Delta> e"
proof -
  obtain \<Gamma>' where "lexical_seq fs True body \<Gamma> = Inr \<Gamma>'"
    using scoped_body.bindings_after [OF assms(1)] by simp
  from visited_checked [OF assms(2) this] have "check_statement fs True \<Delta> (st_head t) = None" .
  with assms(3) have "validate_expression fs True \<Delta> r = None"
    by (auto simp: check_statement_def first_error_None simp del: first_error_append first_error_Cons)
  from subexpr_checked [OF assms(4) this] show ?thesis
    by (simp add: check_variable_typed check_call_typed)
qed

section \<open>No undefined access\<close>

text \<open>The unchecked indexing of a definition's argument vectors is in range when they have one length.\<close>

definition same_lengths :: "FunDef \<Rightarrow> bool" where
  "same_lengths f \<longleftrightarrow> length (f_arg_types f) = length (f_arg_names f) \<and> length (f_arg_views f) = length (f_arg_names f) \<and>
     length (f_arg_data_only f) = length (f_arg_names f)"

definition same_lengths_all :: "Functions \<Rightarrow> bool" where
  "same_lengths_all fs \<longleftrightarrow> (\<forall>f \<in> ran fs. same_lengths f)"

lemma first_error_defined:
  "list_all (\<lambda>c. c \<noteq> Some UndefinedBehaviour) cs \<Longrightarrow> first_error cs \<noteq> Some UndefinedBehaviour"
  using first_error_Some by (fastforce simp: list_all_iff)

lemma check_user_call_defined:
  assumes "same_lengths_all fs"
  shows "check_user_call fs \<Gamma> h args \<noteq> Some UndefinedBehaviour"
proof (cases "e_kind h = Expr_FunApp \<and> e_fn_lib h = Lib_UserDefined \<and>
    (\<exists>f. fs (e_name h) = Some f \<and> length args = length (f_arg_names f))")
  case True
  then obtain f where f: "fs (e_name h) = Some f" "length args = length (f_arg_names f)" by blast
  then have len: "length (f_arg_views f) = length args" "length (f_arg_data_only f) = length args"
    using assms by (auto simp: same_lengths_all_def same_lengths_def ran_def)
  have "check_argument \<Gamma> (e_name h) f i a \<noteq> Some UndefinedBehaviour" if "i < length args" for i a
    unfolding check_argument_def by (rule first_error_defined) (use that in \<open>simp add: len\<close>)
  then have "first_error (map (\<lambda>i. with_elem args i (\<lambda>a. check_argument \<Gamma> (e_name h) f i (e_head a))) [0..<length args]) \<noteq>
      Some UndefinedBehaviour"
    by (intro first_error_defined) (simp add: list_all_iff)
  with True f show ?thesis by (simp add: check_user_call_def)
next
  case False
  then show ?thesis by (auto simp: check_user_call_def fail_if_def split: option.splits)
qed

lemma validate_expression_defined:
  "same_lengths_all fs \<Longrightarrow> validate_expression fs strict \<Gamma> e \<noteq> Some UndefinedBehaviour"
proof (induction e)
  case (Expr h args)
  have "check_categorical \<Gamma> h args \<noteq> Some UndefinedBehaviour"
    unfolding check_categorical_def
    by (auto simp: Let_def fail_if_def check_categorical_signature_def simp del: first_error_Cons first_error_append
        dest!: first_error_Some split: if_splits)
  then show ?case
    unfolding validate_expression.simps using Expr check_user_call_defined [OF Expr.prems]
    by (intro first_error_defined) (simp add: check_variable_def list_all_iff)
qed

lemma check_statement_defined:
  assumes "same_lengths_all fs"
  shows "check_statement fs strict \<Gamma> s \<noteq> Some UndefinedBehaviour"
proof -
  have "check_fn_check \<Gamma> s \<noteq> Some UndefinedBehaviour"
    by (auto simp: check_fn_check_def fail_if_def with_elem_def Let_def split: option.splits)
  then show ?thesis
    unfolding check_statement_def using validate_expression_defined [OF assms]
    by (intro first_error_defined) (simp add: check_assignment_def list_all_iff)
qed

lemma declared_view_defined: "declared_view t \<noteq> Inl UndefinedBehaviour"
  by (simp add: declared_view_def Let_def)

lemma declared_binding_defined: "declared_binding strict s \<noteq> Inl UndefinedBehaviour"
  using declared_view_defined [of "st_decl_type s"]
  by (cases "declared_view (st_decl_type s)") (auto simp: declared_binding_def)

lemma lexical_enter_defined:
  assumes "same_lengths_all fs"
  shows "lexical_enter fs strict s \<Gamma> \<noteq> Inl UndefinedBehaviour"
  using check_statement_defined [OF assms, of strict \<Gamma> s] declared_binding_defined [of strict s]
  by (cases "check_statement fs strict \<Gamma> s") (auto simp: lexical_enter_def and_then_Inl)

lemma lexical_defined:
  assumes "same_lengths_all fs"
  shows "lexical fs strict s \<Gamma> \<noteq> Inl UndefinedBehaviour"
    and "lexical_seq fs strict ss \<Gamma> \<noteq> Inl UndefinedBehaviour"
    and "lexical_branches fs strict ss \<Gamma> \<noteq> Inl UndefinedBehaviour"
  using assms
proof (induction fs strict s and fs strict ss and fs strict ss arbitrary: \<Gamma> and \<Gamma> and \<Gamma>
    rule: lexical_lexical_seq_lexical_branches.induct)
  case (1 fs strict s body)
  then show ?case
    using lexical_enter_defined [OF "1.prems"]
    by (simp add: and_then_Inl lexical_body_def keep_bindings_def)
qed (auto simp: and_then_Inl keep_bindings_def)

lemma validate_body_defined:
  "same_lengths_all fs \<Longrightarrow> validate_body fs strict body (\<Gamma>, scope) \<noteq> Inl UndefinedBehaviour"
  by (simp add: scoped_body.exceptions lexical_defined(2))

end
