(* ===== verification/Sexp.thy ===== *)
theory Sexp
  imports Message
begin

text \<open>
  The s-expression parser of the stanc3 dumps (\<^verbatim>\<open>runtime/include/stanli/sexp.hpp\<close>), its termination,
  and its round trip with a printer. The index \<^verbatim>\<open>i\<close> into the text is the suffix still to be read;
  positions in error messages are the length of the text minus the length of that suffix.
\<close>

section \<open>Nodes\<close>

datatype Node = Atom string | Nodes "Node list"

fun is_atom :: "Node \<Rightarrow> bool" where
  "is_atom (Atom s) = True"
| "is_atom (Nodes ns) = False"

fun atom_of :: "Node \<Rightarrow> string" where
  "atom_of (Atom s) = s"
| "atom_of (Nodes ns) = []"

fun kids :: "Node \<Rightarrow> Node list" where
  "kids (Atom s) = []"
| "kids (Nodes ns) = ns"

text \<open>\<^verbatim>\<open>operator[]\<close> is the checked access of the vector; the text of its exception is the library's.\<close>

definition node_at :: "Node \<Rightarrow> nat \<Rightarrow> std_error + Node" where
  "node_at n i = (if i < length (kids n) then Inr (kids n ! i) else Inl (OutOfRange []))"

definition head_is :: "Node \<Rightarrow> string \<Rightarrow> bool" where
  "head_is n head \<longleftrightarrow> \<not> is_atom n \<and> kids n \<noteq> [] \<and> is_atom (hd (kids n)) \<and> atom_of (hd (kids n)) = head"

section \<open>The parser\<close>

definition is_ws :: "char \<Rightarrow> bool" where
  "is_ws c \<longleftrightarrow> c = CHR '' '' \<or> c = CHR 0x0A \<or> c = CHR 0x09 \<or> c = CHR 0x0D"

definition skip_ws :: "string \<Rightarrow> string" where
  "skip_ws s = dropWhile is_ws s"

definition atom_char :: "char \<Rightarrow> bool" where
  "atom_char c \<longleftrightarrow> c \<noteq> CHR ''('' \<and> c \<noteq> CHR '')'' \<and> c \<noteq> CHR 0x22 \<and> \<not> is_ws c"

text \<open>The rest of a quoted string after the opening quote; a backslash takes the next character as it is.\<close>

fun quoted :: "string \<Rightarrow> (string \<times> string) option" where
  "quoted [] = None"
| "quoted (c # r) =
     (if c = CHR 0x22 then Some ([], r)
      else if c = CHR 0x5C
      then (case r of [] \<Rightarrow> None | d # r' \<Rightarrow> map_option (\<lambda>(s, t). (d # s, t)) (quoted r'))
      else map_option (\<lambda>(s, t). (c # s, t)) (quoted r))"

definition sexp_error :: "string \<Rightarrow> nat \<Rightarrow> std_error" where
  "sexp_error what position = RuntimeError (''sexp: '' @ what @ '' at position '' @ show_nat position)"

text \<open>\<open>n\<close> is the length of the whole text.\<close>

function (domintros) parse_at :: "nat \<Rightarrow> nat \<Rightarrow> nat \<Rightarrow> string \<Rightarrow> std_error + Node \<times> string"
  and parse_kids :: "nat \<Rightarrow> nat \<Rightarrow> nat \<Rightarrow> string \<Rightarrow> std_error + Node list \<times> string" where
  "parse_at n max_depth depth s = (case skip_ws s of
       [] \<Rightarrow> Inl (sexp_error ''unexpected end'' n)
     | c # r \<Rightarrow>
         if c = CHR ''('' then
           (if depth \<ge> max_depth
            then Inl (NestingTooDeep (''sexp: nested too deeply (more than '' @ show_nat max_depth @ '' lists)''))
            else (case parse_kids n max_depth depth r of
                Inl e \<Rightarrow> Inl e
              | Inr (ks, rest) \<Rightarrow> Inr (Nodes ks, rest)))
         else if c = CHR '')'' then Inl (sexp_error ''unexpected )'' (n - length (c # r)))
         else if c = CHR 0x22 then
           (case quoted r of
              None \<Rightarrow> Inl (sexp_error ''unclosed string'' n)
            | Some (a, rest) \<Rightarrow> Inr (Atom a, rest))
         else Inr (Atom (takeWhile atom_char (c # r)), dropWhile atom_char (c # r)))"
| "parse_kids n max_depth depth s = (case skip_ws s of
       [] \<Rightarrow> Inl (sexp_error ''unclosed list'' n)
     | c # r \<Rightarrow>
         if c = CHR '')'' then Inr ([], r)
         else (case parse_at n max_depth (depth + 1) (c # r) of
             Inl e \<Rightarrow> Inl e
           | Inr (k, rest) \<Rightarrow> (case parse_kids n max_depth depth rest of
               Inl e \<Rightarrow> Inl e
             | Inr (ks, rest') \<Rightarrow> Inr (k # ks, rest'))))"
  by pat_completeness auto

lemma skip_ws_length: "skip_ws s = c # r \<Longrightarrow> length r < length s"
  unfolding skip_ws_def by (metis length_Cons length_dropWhile_le less_eq_Suc_le)

lemma skip_ws_not_ws: "skip_ws s = c # r \<Longrightarrow> \<not> is_ws c"
  unfolding skip_ws_def by (metis dropWhile_eq_Cons_conv)

lemma quoted_length: "quoted s = Some (a, rest) \<Longrightarrow> length rest < length s"
  by (induction s arbitrary: a rule: quoted.induct) (fastforce split: if_splits list.splits)+

lemma parse_shortens:
  "parse_at_parse_kids_dom (Inl (n, m, d, s)) \<Longrightarrow> parse_at n m d s = Inr (k, rest) \<Longrightarrow> length rest < length s"
  "parse_at_parse_kids_dom (Inr (n, m, d, s)) \<Longrightarrow> parse_kids n m d s = Inr (ks, rest) \<Longrightarrow> length rest < length s"
proof (induction arbitrary: k rest and ks rest rule: parse_at_parse_kids.pinduct)
  case (1 n m d s)
  from "1.prems" obtain c r where c: "skip_ws s = c # r"
    by (auto simp: parse_at.psimps [OF "1.hyps"] split: list.splits)
  note len = skip_ws_length [OF c]
  show ?case
  proof (cases "c = CHR ''(''")
    case True
    with "1.prems" c obtain ks where "\<not> d \<ge> m" "parse_kids n m d r = Inr (ks, rest)"
      by (auto simp: parse_at.psimps [OF "1.hyps"] split: sum.splits if_splits)
    with "1.IH" [OF c True] len show ?thesis by fastforce
  next
    case False
    have "atom_char c \<Longrightarrow> length (dropWhile atom_char (c # r)) < length s"
      using len by simp (meson le_less_trans length_dropWhile_le)
    moreover have "c \<noteq> CHR '')'' \<Longrightarrow> c \<noteq> CHR 0x22 \<Longrightarrow> atom_char c"
      using False skip_ws_not_ws [OF c] by (simp add: atom_char_def)
    ultimately show ?thesis
      using "1.prems" c False len quoted_length
      by (fastforce simp: parse_at.psimps [OF "1.hyps"] split: option.splits if_splits)
  qed
next
  case (2 n m d s)
  from "2.prems" obtain c r where c: "skip_ws s = c # r"
    by (auto simp: parse_kids.psimps [OF "2.hyps"] split: list.splits)
  note len = skip_ws_length [OF c]
  show ?case
  proof (cases "c = CHR '')''")
    case True
    with "2.prems" c len show ?thesis by (simp add: parse_kids.psimps [OF "2.hyps"])
  next
    case False
    with "2.prems" c obtain k mid ks' where p: "parse_at n m (d + 1) (c # r) = Inr (k, mid)" "parse_kids n m d mid = Inr (ks', rest)"
      by (auto simp: parse_kids.psimps [OF "2.hyps"] split: sum.splits)
    with "2.IH"(1) [OF c False p(1)] "2.IH"(2) [OF c False p(1) refl p(2)] len show ?thesis by simp
  qed
qed

termination parse_at
proof (relation "measure (\<lambda>x. case x of Inl (_, _, _, s) \<Rightarrow> 2 * length s | Inr (_, _, _, s) \<Rightarrow> 2 * length s + 1)")
qed (fastforce dest: skip_ws_length parse_shortens(1))+

declare parse_at.simps [simp del] parse_kids.simps [simp del]

text \<open>\<^verbatim>\<open>sexp::parse\<close>; without a second argument the limit is the largest \<^verbatim>\<open>size_t\<close>.\<close>

definition parse_sexp :: "nat \<Rightarrow> string \<Rightarrow> std_error + Node" where
  "parse_sexp max_depth s = (let n = length s in case parse_at n max_depth 0 s of
       Inl e \<Rightarrow> Inl e
     | Inr (node, rest) \<Rightarrow>
         if skip_ws rest \<noteq> [] then Inl (sexp_error ''trailing content'' (n - length (skip_ws rest))) else Inr node)"

definition size_t_max :: nat where
  "size_t_max = 2 ^ 64 - 1"

section \<open>Printing\<close>

text \<open>The canonical rendering: an atom bare when it can be, quoted and escaped when not; lists with single
  spaces.\<close>

fun escape :: "string \<Rightarrow> string" where
  "escape [] = []"
| "escape (c # r) = (if c = CHR 0x22 \<or> c = CHR 0x5C then [CHR 0x5C, c] else [c]) @ escape r"

definition print_atom :: "string \<Rightarrow> string" where
  "print_atom s = (if s \<noteq> [] \<and> list_all atom_char s then s else [CHR 0x22] @ escape s @ [CHR 0x22])"

fun print_node :: "Node \<Rightarrow> string" where
  "print_node (Atom s) = print_atom s"
| "print_node (Nodes ns) = ''('' @ concat (map (\<lambda>n. print_node n @ '' '') ns) @ '')''"

fun node_depth :: "Node \<Rightarrow> nat" where
  "node_depth (Atom s) = 0"
| "node_depth (Nodes ns) = Suc (Max (insert 0 (set (map node_depth ns))))"

lemma quoted_escape: "quoted (escape s @ CHR 0x22 # rest) = Some (s, rest)"
  by (induction s) auto

lemma skip_ws_solid: "\<not> is_ws c \<Longrightarrow> skip_ws (c # r) = c # r"
  by (simp add: skip_ws_def)

lemma skip_ws_space: "skip_ws (CHR '' '' # s) = skip_ws s"
  by (simp add: skip_ws_def is_ws_def)

lemma atom_char_not_ws: "atom_char c \<Longrightarrow> \<not> is_ws c"
  by (simp add: atom_char_def)

lemma print_atom_parses:
  assumes "rest = [] \<or> \<not> atom_char (hd rest)"
  shows "parse_at n m d (print_atom s @ rest) = Inr (Atom s, rest)"
proof (cases "s \<noteq> [] \<and> list_all atom_char s")
  case True
  then obtain c r where s: "s = c # r" "atom_char c" by (cases s) auto
  then have "c \<noteq> CHR ''(''" "c \<noteq> CHR '')''" "c \<noteq> CHR 0x22" by (simp_all add: atom_char_def)
  moreover have "takeWhile atom_char (s @ rest) = s" "dropWhile atom_char (s @ rest) = rest"
    using True assms by (auto simp: list_all_iff takeWhile_append takeWhile_eq_Nil_iff dropWhile_append2 dropWhile_eq_self_iff)
  ultimately show ?thesis
    using s True by (simp add: print_atom_def parse_at.simps skip_ws_solid atom_char_not_ws)
next
  case False
  show ?thesis
    by (simp only: print_atom_def False if_False) (simp add: parse_at.simps skip_ws_solid is_ws_def quoted_escape)
qed

lemma node_depth_kid: "k \<in> set ns \<Longrightarrow> node_depth k < node_depth (Nodes ns)"
  by (simp add: less_Suc_eq_le)

lemma print_node_head: "\<exists>c r. print_node k = c # r \<and> \<not> is_ws c \<and> c \<noteq> CHR '')''"
proof (cases k)
  case (Atom s)
  then show ?thesis
    by (cases s) (auto simp: print_atom_def is_ws_def atom_char_def)
qed (simp add: is_ws_def)

lemma print_kids_parse:
  assumes "\<And>k r. k \<in> set ns \<Longrightarrow> parse_at n m (d + 1) (print_node k @ CHR '' '' # r) = Inr (k, CHR '' '' # r)"
  shows "parse_kids n m d (concat (map (\<lambda>k. print_node k @ '' '') ns) @ CHR '')'' # rest) = Inr (ns, rest)"
  using assms
proof (induction ns)
  case Nil
  then show ?case by (simp add: parse_kids.simps skip_ws_solid is_ws_def)
next
  case (Cons k ns)
  let ?t = "concat (map (\<lambda>k. print_node k @ '' '') ns) @ CHR '')'' # rest"
  obtain c r where c: "print_node k = c # r" "\<not> is_ws c" "c \<noteq> CHR '')''" using print_node_head by blast
  have "parse_kids n m d (CHR '' '' # ?t) = parse_kids n m d ?t"
    by (simp add: parse_kids.simps skip_ws_space)
  moreover have "parse_kids n m d ?t = Inr (ns, rest)" using Cons by simp
  ultimately show ?case
    using c Cons.prems [of k ?t]
    by (simp add: parse_kids.simps [of n m d "c # _"] skip_ws_solid)
qed

lemma print_node_parses:
  assumes "d + node_depth k \<le> m" "rest = [] \<or> \<not> atom_char (hd rest)"
  shows "parse_at n m d (print_node k @ rest) = Inr (k, rest)"
  using assms
proof (induction k arbitrary: d rest)
  case (Atom s)
  then show ?case by (simp add: print_atom_parses)
next
  case (Nodes ns)
  have "parse_at n m (d + 1) (print_node k @ CHR '' '' # r) = Inr (k, CHR '' '' # r)" if "k \<in> set ns" for k r
    using Nodes.IH [OF that, of "d + 1" "CHR '' '' # r"] node_depth_kid [OF that] Nodes.prems(1)
    by (simp add: atom_char_def is_ws_def)
  from print_kids_parse [OF this] Nodes.prems(1) show ?case
    by (simp add: parse_at.simps skip_ws_solid is_ws_def)
qed

text \<open>C17. Printing and parsing are inverse: the canonical text of any tree, atoms with spaces, quotes,
  backslashes or parentheses included, parses to that very tree whenever the tree is no deeper than the limit,
  and the whole text is consumed.\<close>

theorem parse_print_roundtrip:
  assumes "node_depth k \<le> max_depth"
  shows "parse_sexp max_depth (print_node k) = Inr k"
  using print_node_parses [of 0 k max_depth "[]"] assms by (simp add: parse_sexp_def skip_ws_def)

theorem parse_print_roundtrip_witness:
  "parse_sexp 2 (print_node (Nodes [Atom ''UFun'', Nodes [Atom ''a b'', Atom []], Atom [CHR 0x22, CHR 0x5C]])) =
     Inr (Nodes [Atom ''UFun'', Nodes [Atom ''a b'', Atom []], Atom [CHR 0x22, CHR 0x5C]])"
  by (rule parse_print_roundtrip) simp

end
