(* ===== verification/MirSexp.thy ===== *)
theory MirSexp
  imports MirShape Sexp
begin

text \<open>
  The reader of one expression from stanc3's s-expression form (\<^verbatim>\<open>read_expr\<close> and its helpers in
  \<^verbatim>\<open>runtime/src/mir_reader.cpp\<close>), which the finalisation of a decoded program still uses for the
  statements the portable format carries as text.
\<close>

section \<open>Rendering for diagnostics\<close>

fun dump :: "nat \<Rightarrow> Node \<Rightarrow> string"
  and dump_kids :: "nat \<Rightarrow> string \<Rightarrow> bool \<Rightarrow> Node list \<Rightarrow> string" where
  "dump room (Atom s) = (if length s > room then take room s @ ''...'' else s)"
| "dump room (Nodes ns) = (let s = dump_kids room ''('' True ns @ '')'' in
     if length s > room then take room s @ ''...'' else s)"
| "dump_kids room s first [] = s"
| "dump_kids room s first (n # ns) =
     (if length s < room
      then let s' = (if first then s else s @ '' '') in dump_kids room (s' @ dump (room - length s') n) False ns
      else s)"

section \<open>Types\<close>

definition field :: "Node \<Rightarrow> string \<Rightarrow> Node option" where
  "field n key = find (\<lambda>k. head_is k key) (kids n)"

definition unsized_leaf :: "string \<Rightarrow> UnsizedLeaf" where
  "unsized_leaf a =
     (if a = ''UInt'' then Leaf_Int
      else if a = ''UReal'' then Leaf_Real
      else if a = ''UComplex'' then Leaf_Complex
      else if a = ''UVector'' then Leaf_Vector
      else if a = ''URowVector'' then Leaf_RowVector
      else if a = ''UMatrix'' then Leaf_Matrix
      else Leaf_Unknown)"

fun read_unsized_at :: "nat \<Rightarrow> Node \<Rightarrow> std_error + UnsizedView" where
  "read_unsized_at depth (Atom a) = Inr \<lparr>v_depth = int depth, v_leaf = unsized_leaf a\<rparr>"
| "read_unsized_at depth (Nodes [Atom head, elem]) =
     (if head = ''UArray''
      then (if depth = 255 then Inl (RuntimeError ''mir: unsized array nesting is too deep'')
            else read_unsized_at (Suc depth) elem)
      else Inr \<lparr>v_depth = int depth, v_leaf = Leaf_Unknown\<rparr>)"
| "read_unsized_at depth (Nodes ns) = Inr \<lparr>v_depth = int depth, v_leaf = Leaf_Unknown\<rparr>"

definition read_unsized :: "Node \<Rightarrow> std_error + UnsizedView" where
  "read_unsized n = read_unsized_at 0 n"

section \<open>Expressions\<close>

text \<open>The number parsers of the C++ library.\<close>

record Numbers =
  stol :: "string \<Rightarrow> std_error + int"
  stod :: "string \<Rightarrow> std_error + binary64"

definition nesting_scope :: "Platform \<Rightarrow> nat \<Rightarrow> (nat \<Rightarrow> std_error + 'a) \<Rightarrow> std_error + 'a" where
  "nesting_scope P depth body =
     (if depth \<ge> nesting_limit P
      then Inl (NestingTooDeep (''mir: nested too deeply (more than '' @ show_nat (nesting_limit P) @ '' levels)''))
      else body (Suc depth))"

lemma nesting_scope_cong [fundef_cong]:
  "P = P' \<Longrightarrow> d = d' \<Longrightarrow> (d' < nesting_limit P' \<Longrightarrow> body (Suc d') = body' (Suc d')) \<Longrightarrow>
    nesting_scope P d body = nesting_scope P' d' body'"
  by (auto simp: nesting_scope_def)

definition unsupported_expr :: "Node \<Rightarrow> Expr" where
  "unsupported_expr n = Expr (new_expr_head\<lparr>e_kind := Expr_Unsupported, e_raw := dump 240 n\<rparr>) []"

definition index_expr :: "string \<Rightarrow> Expr list \<Rightarrow> Expr" where
  "index_expr name args = Expr (new_expr_head\<lparr>e_kind := Expr_FunApp, e_name := name\<rparr>) args"

text \<open>The readers below take the reader of the nested expressions as \<open>rd\<close>.\<close>

definition read_kid :: "(Node \<Rightarrow> std_error + Expr) \<Rightarrow> Node \<Rightarrow> nat \<Rightarrow> std_error + Expr" where
  "read_kid rd n i = and_then (node_at n i) rd"

definition read_index :: "(Node \<Rightarrow> std_error + Expr) \<Rightarrow> Node \<Rightarrow> std_error + Expr" where
  "read_index rd ix =
     (if is_atom ix \<and> atom_of ix = ''All'' then Inr (index_expr ''IndexAll'' [])
      else if head_is ix ''Single'' then and_then (read_kid rd ix 1) (\<lambda>a. Inr (index_expr ''IndexSingle'' [a]))
      else if head_is ix ''Between''
      then and_then (read_kid rd ix 1) (\<lambda>a. and_then (read_kid rd ix 2) (\<lambda>b. Inr (index_expr ''IndexBetween'' [a, b])))
      else if head_is ix ''Upfrom'' then and_then (read_kid rd ix 1) (\<lambda>a. Inr (index_expr ''IndexUpfrom'' [a]))
      else if head_is ix ''MultiIndex'' then and_then (read_kid rd ix 1) (\<lambda>a. Inr (index_expr ''IndexMulti'' [a]))
      else Inr (unsupported_expr ix))"

definition atom_at :: "Node \<Rightarrow> nat \<Rightarrow> std_error + string" where
  "atom_at n i = and_then (node_at n i) (\<lambda>k. Inr (atom_of k))"

definition read_propto :: "Node \<Rightarrow> ExprHead \<Rightarrow> std_error + ExprHead" where
  "read_propto kind h = and_then (node_at kind 2) (\<lambda>suffix.
     if head_is suffix ''FnLpdf'' \<or> head_is suffix ''FnLpmf''
     then and_then (atom_at suffix 1) (\<lambda>flag. Inr (h\<lparr>e_fn_propto := (flag = ''true'')\<rparr>))
     else Inr h)"

definition read_call_head :: "Node \<Rightarrow> (std_error + ExprHead) option" where
  "read_call_head kind = (let h = new_expr_head\<lparr>e_kind := Expr_FunApp\<rparr> in
     if head_is kind ''StanLib''
     then Some (and_then (atom_at kind 1) (\<lambda>name. read_propto kind (h\<lparr>e_fn_lib := Lib_StanLib, e_name := name\<rparr>)))
     else if head_is kind ''CompilerInternal''
     then Some (and_then (node_at kind 1) (\<lambda>internal.
            if is_atom internal then Inr (h\<lparr>e_fn_lib := Lib_Internal, e_name := atom_of internal\<rparr>)
            else and_then (atom_at internal 0) (\<lambda>name.
              Inr (h\<lparr>e_fn_lib := Lib_Internal, e_name := name, e_raw := dump 240 internal\<rparr>))))
     else if head_is kind ''UserDefined''
     then Some (and_then (atom_at kind 1) (\<lambda>name. read_propto kind (h\<lparr>e_fn_lib := Lib_UserDefined, e_name := name\<rparr>)))
     else None)"

definition read_literal :: "Platform \<Rightarrow> Numbers \<Rightarrow> string \<Rightarrow> string \<Rightarrow> std_error + Expr" where
  "read_literal P N k v =
     (if k = ''Int'' then and_then (stol N v) (\<lambda>i.
        Inr (Expr (new_expr_head\<lparr>e_kind := Expr_LitInt, e_lit_i := i, e_lit := long_to_double P i\<rparr>) []))
      else if k = ''Real'' then and_then (stod N v) (\<lambda>x. Inr (Expr (new_expr_head\<lparr>e_kind := Expr_LitReal, e_lit := x\<rparr>) []))
      else Inr (Expr (new_expr_head\<lparr>e_kind := Expr_LitStr, e_lit_s := v\<rparr>) []))"

definition set_promoted :: "Expr \<Rightarrow> Expr" where
  "set_promoted e = Expr ((e_head e)\<lparr>e_promoted := True\<rparr>) (e_args e)"

definition read_kind :: "(Node \<Rightarrow> std_error + Expr) \<Rightarrow> ExprKind \<Rightarrow> Node list \<Rightarrow> std_error + Expr" where
  "read_kind rd kind ns = and_then (map_res rd ns) (\<lambda>args. Inr (Expr (new_expr_head\<lparr>e_kind := kind\<rparr>) args))"

definition read_expr_pattern :: "Platform \<Rightarrow> Numbers \<Rightarrow> (Node \<Rightarrow> std_error + Expr) \<Rightarrow> Node \<Rightarrow> std_error + Expr" where
  "read_expr_pattern P N rd p =
     (if head_is p ''Var''
      then and_then (atom_at p 1) (\<lambda>name. Inr (Expr (new_expr_head\<lparr>e_kind := Expr_Var, e_name := name\<rparr>) []))
      else if head_is p ''Lit'' then and_then (atom_at p 1) (\<lambda>k. and_then (atom_at p 2) (read_literal P N k))
      else if head_is p ''FunApp''
      then and_then (node_at p 1) (\<lambda>kind. case read_call_head kind of
             None \<Rightarrow> Inr (unsupported_expr p)
           | Some h \<Rightarrow> and_then h (\<lambda>h. and_then (map_res rd (concat (map kids (drop 2 (kids p))))) (\<lambda>args. Inr (Expr h args))))
      else if head_is p ''Promotion'' then and_then (read_kid rd p 1) (\<lambda>e. Inr (set_promoted e))
      else if head_is p ''TernaryIf'' then read_kind rd Expr_TernaryIf (tl (kids p))
      else if head_is p ''EOr'' then read_kind rd Expr_EOr (tl (kids p))
      else if head_is p ''EAnd'' then read_kind rd Expr_EAnd (tl (kids p))
      else if head_is p ''Indexed''
      then and_then (read_kid rd p 1) (\<lambda>base.
             and_then (map_res (read_index rd) (concat (map kids (drop 2 (kids p))))) (\<lambda>indices.
               Inr (Expr (new_expr_head\<lparr>e_kind := Expr_Indexed\<rparr>) (base # indices))))
      else Inr (unsupported_expr p))"

definition set_type :: "Node \<Rightarrow> Expr \<Rightarrow> std_error + Expr" where
  "set_type type e = and_then (read_unsized type) (\<lambda>view.
     Inr (Expr (if v_leaf view \<noteq> Leaf_Unknown
        then (e_head e)\<lparr>e_unsized := view, e_type := (if v_depth view \<noteq> 0 then ''UArray'' else atom_of type)\<rparr>
        else (e_head e)\<lparr>e_unsized := view, e_type := [], e_raw := dump 240 type\<rparr>) (e_args e)))"

definition set_adlevel :: "Node \<Rightarrow> Expr \<Rightarrow> Expr" where
  "set_adlevel level e = Expr ((e_head e)\<lparr>e_data_only := is_atom level \<and> atom_of level = ''DataOnly''\<rparr>) (e_args e)"

definition read_metadata :: "Node \<Rightarrow> Expr \<Rightarrow> std_error + Expr" where
  "read_metadata n e = (case field n ''meta'' of
       None \<Rightarrow> Inr e
     | Some meta \<Rightarrow> and_then (node_at meta 1) (\<lambda>m.
         if is_atom m then Inr e
         else and_then (case field m ''type_'' of None \<Rightarrow> Inr e
                        | Some t \<Rightarrow> and_then (node_at t 1) (\<lambda>type. set_type type e)) (\<lambda>e.
              case field m ''adlevel'' of None \<Rightarrow> Inr e
              | Some a \<Rightarrow> and_then (node_at a 1) (\<lambda>level. Inr (set_adlevel level e)))))"

definition read_expr_body :: "Platform \<Rightarrow> Numbers \<Rightarrow> (Node \<Rightarrow> std_error + Expr) \<Rightarrow> Node \<Rightarrow> std_error + Expr" where
  "read_expr_body P N rd n = (case field n ''pattern'' of
       None \<Rightarrow> Inr (unsupported_expr n)
     | Some pat \<Rightarrow> and_then (node_at pat 1) (\<lambda>p. and_then (read_expr_pattern P N rd p) (read_metadata n)))"

function read_expr_node :: "Platform \<Rightarrow> Numbers \<Rightarrow> nat \<Rightarrow> Node \<Rightarrow> std_error + Expr" where
  "read_expr_node P N depth n = nesting_scope P depth (\<lambda>depth. read_expr_body P N (read_expr_node P N depth) n)"
  by pat_completeness auto

termination read_expr_node
  by (relation "measure (\<lambda>(P, N, depth, n). nesting_limit P - depth)") auto

declare read_expr_node.simps [simp del]

end
