(* ===== verification/MirFinalize.thy ===== *)
theory MirFinalize
  imports MirTyping MirSexp "HOL-Library.Char_ord" "HOL-Library.List_Lexorder"
begin

text \<open>
  What \<^verbatim>\<open>finalize_program\<close> (\<^verbatim>\<open>runtime/src/mir_reader.cpp\<close>) does to a decoded program before lowering: the
  Jacobian statements carried as text, the mangled names, the types of unsized declarations, the
  overloads of user functions, and the check of all bindings.
\<close>

section \<open>Walking a program\<close>

definition map_head_exprs :: "(Expr \<Rightarrow> Expr) \<Rightarrow> StmtHead \<Rightarrow> StmtHead" where
  "map_head_exprs f s = s\<lparr>st_init := f (st_init s), st_rhs := f (st_rhs s), st_target := f (st_target s),
     st_lower := f (st_lower s), st_upper := f (st_upper s), st_cond := f (st_cond s),
     st_read_dims := map f (st_read_dims s), st_lhs_idx := map f (st_lhs_idx s), st_fn_args := map f (st_fn_args s)\<rparr>"

definition map_dims :: "(Expr \<Rightarrow> Expr) \<Rightarrow> SizedType \<Rightarrow> SizedType" where
  "map_dims f t = t\<lparr>s_dims := map f (s_dims t)\<rparr>"

definition map_transform :: "(Expr \<Rightarrow> Expr) \<Rightarrow> Transform \<Rightarrow> Transform" where
  "map_transform f t = t\<lparr>t_args := map f (t_args t)\<rparr>"

text \<open>A pass over every top-level statement of the program, functions last.\<close>

definition map_bodies :: "(Stmt \<Rightarrow> std_error + Stmt) \<Rightarrow> MirProgram \<Rightarrow> std_error + MirProgram" where
  "map_bodies f p =
     and_then (map_res f (prepare_data p)) (\<lambda>prepare. and_then (map_res f (log_prob p)) (\<lambda>log.
     and_then (map_res f (generate_quantities p)) (\<lambda>generate. and_then (map_res f (transform_inits p)) (\<lambda>inits.
     and_then (map_res (\<lambda>d. and_then (map_res f (f_body d)) (\<lambda>body. Inr (d\<lparr>f_body := body\<rparr>))) (fun_defs p)) (\<lambda>funs.
     Inr (p\<lparr>prepare_data := prepare, log_prob := log, generate_quantities := generate, transform_inits := inits,
            fun_defs := funs\<rparr>))))))"

section \<open>Jacobian statements and eval\<close>

definition starts_with :: "string \<Rightarrow> string \<Rightarrow> bool" where
  "starts_with s front \<longleftrightarrow> take (length front) s = front"

definition jacobian_head :: "Platform \<Rightarrow> Numbers \<Rightarrow> StmtHead \<Rightarrow> std_error + StmtHead" where
  "jacobian_head P N s =
     (if st_kind s = Stmt_Unsupported \<and> starts_with (st_raw s) ''(JacobianPE ''
      then and_then (parse_sexp size_t_max (st_raw s)) (\<lambda>pat.
        if length (kids pat) \<noteq> 2 then Inl (RuntimeError ''mir: malformed JacobianPE statement'')
        else and_then (node_at pat 1) (\<lambda>n. and_then (read_expr_node P N 0 n) (\<lambda>target.
          Inr (s\<lparr>st_kind := Stmt_TargetPE, st_target := target\<rparr>))))
      else Inr s)"

fun read_jacobian_statements :: "Platform \<Rightarrow> Numbers \<Rightarrow> Stmt \<Rightarrow> std_error + Stmt" where
  "read_jacobian_statements P N (Stmt s body) = and_then (jacobian_head P N s) (\<lambda>s'.
     and_then (map_res (read_jacobian_statements P N) body) (\<lambda>body'. Inr (Stmt s' body')))"

fun strip_eval :: "Expr \<Rightarrow> std_error + Expr" where
  "strip_eval (Expr h args) = and_then (map_res strip_eval args) (\<lambda>args'.
     if e_kind h = Expr_FunApp \<and> e_fn_lib h = Lib_StanLib \<and> e_name h = ''eval'' \<and> length args' = 1
     then access args' 0 else Inr (Expr h args'))"

definition strip_eval_head :: "StmtHead \<Rightarrow> std_error + StmtHead" where
  "strip_eval_head s = (let e = strip_eval; es = map_res strip_eval in
     and_then (e (st_init s)) (\<lambda>init. and_then (e (st_rhs s)) (\<lambda>rhs. and_then (e (st_target s)) (\<lambda>target.
     and_then (e (st_lower s)) (\<lambda>lower. and_then (e (st_upper s)) (\<lambda>upper. and_then (e (st_cond s)) (\<lambda>cond.
     and_then (es (st_read_dims s)) (\<lambda>read_dims. and_then (es (st_lhs_idx s)) (\<lambda>lhs_idx.
     and_then (es (st_fn_args s)) (\<lambda>fn_args. and_then (es (s_dims (st_decl_type s))) (\<lambda>dims.
     Inr (s\<lparr>st_init := init, st_rhs := rhs, st_target := target, st_lower := lower, st_upper := upper,
       st_cond := cond, st_read_dims := read_dims, st_lhs_idx := lhs_idx, st_fn_args := fn_args,
       st_decl_type := (st_decl_type s)\<lparr>s_dims := dims\<rparr>\<rparr>))))))))))))"

fun strip_eval_stmt :: "Stmt \<Rightarrow> std_error + Stmt" where
  "strip_eval_stmt (Stmt s body) = and_then (strip_eval_head s) (\<lambda>s'.
     and_then (map_res strip_eval_stmt body) (\<lambda>body'. Inr (Stmt s' body')))"

definition read_jacobians :: "Platform \<Rightarrow> Numbers \<Rightarrow> MirProgram \<Rightarrow> std_error + MirProgram" where
  "read_jacobians P N = map_bodies (\<lambda>s. and_then (read_jacobian_statements P N s) strip_eval_stmt)"

section \<open>Mangled names\<close>

definition unmangle_name :: "string \<Rightarrow> string" where
  "unmangle_name name = (if starts_with name ''_stan_'' then drop 6 name else name)"

fun unmangle_expr :: "Expr \<Rightarrow> Expr" where
  "unmangle_expr (Expr h args) = Expr (h\<lparr>e_name := unmangle_name (e_name h)\<rparr>) (map unmangle_expr args)"

definition unmangle_head :: "StmtHead \<Rightarrow> StmtHead" where
  "unmangle_head s = (map_head_exprs unmangle_expr s)
     \<lparr>st_decl_id := unmangle_name (st_decl_id s), st_lhs := unmangle_name (st_lhs s),
      st_loopvar := unmangle_name (st_loopvar s), st_fn_name := unmangle_name (st_fn_name s),
      st_check_var_name := unmangle_name (st_check_var_name s),
      st_decl_type := map_dims unmangle_expr (st_decl_type s),
      st_read_transform := map_option (map_transform unmangle_expr) (st_read_transform s),
      st_check_transform := map_option (map_transform unmangle_expr) (st_check_transform s),
      st_write_transform := map_option (map_transform unmangle_expr) (st_write_transform s)\<rparr>"

fun unmangle_stmt :: "Stmt \<Rightarrow> Stmt" where
  "unmangle_stmt (Stmt s body) = Stmt (unmangle_head s) (map unmangle_stmt body)"

definition unmangle_fun :: "FunDef \<Rightarrow> FunDef" where
  "unmangle_fun f = f\<lparr>f_name := unmangle_name (f_name f), f_arg_names := map unmangle_name (f_arg_names f),
     f_body := map unmangle_stmt (f_body f)\<rparr>"

definition unmangle :: "MirProgram \<Rightarrow> MirProgram" where
  "unmangle p = p\<lparr>input_vars := map (\<lambda>(name, type). (unmangle_name name, map_dims unmangle_expr type)) (input_vars p),
     prepare_data := map unmangle_stmt (prepare_data p), log_prob := map unmangle_stmt (log_prob p),
     generate_quantities := map unmangle_stmt (generate_quantities p),
     transform_inits := map unmangle_stmt (transform_inits p), fun_defs := map unmangle_fun (fun_defs p),
     output_vars := map unmangle_name (output_vars p)\<rparr>"

section \<open>Unsized declarations\<close>

text \<open>The view a raw declaration type spells, if it is of the form \<^verbatim>\<open>(Unsized T)\<close>.\<close>

definition unsized_of_raw :: "string \<Rightarrow> std_error + UnsizedView option" where
  "unsized_of_raw raw = and_then
     (if length raw > 10 \<and> starts_with raw ''(Unsized '' then and_then (last_elem raw) (\<lambda>c. Inr (c = CHR '')''))
      else Inr False) (\<lambda>wrapped.
     if wrapped then and_then (elem_run raw 9 (int (length raw) - 10)) parse_unsized_spelling else Inr None)"

definition restore_head :: "bool \<Rightarrow> StmtHead \<Rightarrow> std_error + StmtHead" where
  "restore_head strict s =
     (if st_kind s = Stmt_Decl \<and> s_base (st_decl_type s) = []
      then let raw = s_raw (st_decl_type s); looks_unsized = starts_with raw ''(Unsized''
        in and_then (unsized_of_raw raw) (\<lambda>parsed. case parsed of
             Some view \<Rightarrow> Inr (s\<lparr>st_decl_type := (st_decl_type s)\<lparr>s_unsized := view\<rparr>\<rparr>)
           | None \<Rightarrow> if strict \<and> looks_unsized then Inl (RuntimeError ''mir: malformed unsized declaration type'') else Inr s)
      else Inr s)"

fun restore_unsized_decls :: "bool \<Rightarrow> Stmt \<Rightarrow> std_error + Stmt" where
  "restore_unsized_decls strict (Stmt s body) = and_then (restore_head strict s) (\<lambda>s'.
     and_then (map_res (restore_unsized_decls strict) body) (\<lambda>body'. Inr (Stmt s' body')))"

section \<open>Overloads\<close>

definition leaf_signature :: "UnsizedLeaf \<Rightarrow> string" where
  "leaf_signature leaf = (case leaf of
       Leaf_Int \<Rightarrow> ''int'' | Leaf_Real \<Rightarrow> ''real'' | Leaf_Complex \<Rightarrow> ''complex'' | Leaf_Vector \<Rightarrow> ''vector''
     | Leaf_RowVector \<Rightarrow> ''row_vector'' | Leaf_Matrix \<Rightarrow> ''matrix'' | Leaf_Unknown \<Rightarrow> ''?'')"

definition view_signature :: "UnsizedView \<Rightarrow> string" where
  "view_signature v = leaf_signature (v_leaf v) @ concat (replicate (nat (v_depth v)) ''[]'')"

fun comma_join :: "string list \<Rightarrow> string" where
  "comma_join [] = []"
| "comma_join [x] = x"
| "comma_join (x # y # zs) = x @ '','' @ comma_join (y # zs)"

definition signature :: "UnsizedView list \<Rightarrow> string" where
  "signature views = ''('' @ comma_join (map view_signature views) @ '')''"

text \<open>The loop over two vectors of views, the second indexed by the length of the first.\<close>

fun views_from :: "UnsizedView list \<Rightarrow> UnsizedView list \<Rightarrow> nat \<Rightarrow> std_error + bool" where
  "views_from [] b i = Inr True"
| "views_from (v # a) b i = and_then (access b i) (\<lambda>w. if same_view v w then views_from a b (Suc i) else Inr False)"

definition views_match :: "UnsizedView list \<Rightarrow> UnsizedView list \<Rightarrow> std_error + bool" where
  "views_match a b = (if length a \<noteq> length b then Inr False else views_from a b 0)"

lemma views_from_eq:
  "length a + i \<le> length b \<Longrightarrow> views_from a b i = Inr (list_all2 same_view a (take (length a) (drop i b)))"
proof (induction a arbitrary: i)
  case (Cons v a)
  then have "drop i b = b ! i # drop (Suc i) b" by (simp add: Cons_nth_drop_Suc)
  with Cons show ?case by simp
qed simp

lemma views_match_eq: "views_match a b = Inr (a = b)"
  using views_from_eq [of a 0 b] by (auto simp: views_match_def same_view_eq [abs_def] list.rel_eq)

text \<open>The overloads of one name, with the names they are given, and the name a call selects; the search throws
  at the second match.\<close>

type_synonym Overloads = "(string \<times> FunDef list) list"

fun overload_search :: "string \<Rightarrow> UnsizedView list \<Rightarrow> string option \<Rightarrow> FunDef list \<Rightarrow> std_error + string" where
  "overload_search name views found [] = (case found of
       None \<Rightarrow> Inl (RuntimeError (''mir: no overload of '' @ name @ '' matches its call''))
     | Some f \<Rightarrow> Inr f)"
| "overload_search name views found (f # fs) = and_then (views_match views (f_arg_views f)) (\<lambda>matches.
     if \<not> matches then overload_search name views found fs
     else if found \<noteq> None then Inl (RuntimeError (''mir: ambiguous overload for '' @ name))
     else overload_search name views (Some (f_name f)) fs)"

definition resolve_overload :: "string \<Rightarrow> FunDef list \<Rightarrow> UnsizedView list \<Rightarrow> std_error + string" where
  "resolve_overload name candidates views = overload_search name views None candidates"

definition malformed_function_type :: "string \<Rightarrow> std_error" where
  "malformed_function_type raw = RuntimeError (''mir: malformed function type '' @ raw)"

definition function_argument_views :: "string \<Rightarrow> std_error + UnsizedView list" where
  "function_argument_views raw = (let bad = Inl (malformed_function_type raw) in
     and_then (parse_sexp size_t_max raw) (\<lambda>type.
     if \<not> head_is type ''UFun'' \<or> length (kids type) \<noteq> 2 then bad
     else and_then (node_at type 1) (\<lambda>parts. if is_atom parts \<or> kids parts = [] then bad
     else and_then (node_at parts 0) (\<lambda>args. if is_atom args then bad
     else map_res (\<lambda>arg. if is_atom arg \<or> length (kids arg) \<noteq> 2 then Inl (malformed_function_type raw)
                         else and_then (node_at arg 1) read_unsized) (kids args)))))"

definition resolved_name :: "Overloads \<Rightarrow> ExprHead \<Rightarrow> Expr list \<Rightarrow> std_error + string" where
  "resolved_name overloads h args =
     (let call = (e_kind h = Expr_FunApp \<and> e_fn_lib h = Lib_UserDefined);
          callback = (e_kind h = Expr_Var \<and> starts_with (e_raw h) ''(UFun '')
      in if \<not> call \<and> \<not> callback then Inr (e_name h)
         else case map_of overloads (e_name h) of
             None \<Rightarrow> Inr (e_name h)
           | Some candidates \<Rightarrow>
               if call then resolve_overload (e_name h) candidates (map (e_unsized \<circ> e_head) args)
               else and_then (function_argument_views (e_raw h)) (resolve_overload (e_name h) candidates))"

fun resolve_calls :: "Overloads \<Rightarrow> Expr \<Rightarrow> std_error + Expr" where
  "resolve_calls overloads (Expr h args) = and_then (map_res (resolve_calls overloads) args) (\<lambda>args'.
     and_then (resolved_name overloads h args') (\<lambda>name. Inr (Expr (h\<lparr>e_name := name\<rparr>) args')))"

definition user_defined_prefix :: string where
  "user_defined_prefix = ''(UserDefined ''"

definition user_defined_statement_name :: "string \<Rightarrow> string option" where
  "user_defined_statement_name fn_name =
     (if \<not> starts_with fn_name user_defined_prefix then None
      else let rest = drop (length user_defined_prefix) fn_name; name = takeWhile (\<lambda>c. c \<noteq> CHR '' '') rest
        in if name = rest \<or> name = [] then None else Some name)"

definition resolve_fn_name :: "Overloads \<Rightarrow> StmtHead \<Rightarrow> std_error + string" where
  "resolve_fn_name overloads s = (case user_defined_statement_name (st_fn_name s) of
       None \<Rightarrow> Inr (st_fn_name s)
     | Some name \<Rightarrow> (case map_of overloads name of
         None \<Rightarrow> Inr (st_fn_name s)
       | Some candidates \<Rightarrow> and_then (resolve_overload name candidates (map (e_unsized \<circ> e_head) (st_fn_args s))) (\<lambda>new.
           Inr (user_defined_prefix @ new @ drop (length user_defined_prefix + length name) (st_fn_name s)))))"

definition resolve_transform :: "Overloads \<Rightarrow> Transform option \<Rightarrow> std_error + Transform option" where
  "resolve_transform overloads t = (case t of None \<Rightarrow> Inr None
     | Some t \<Rightarrow> and_then (map_res (resolve_calls overloads) (t_args t)) (\<lambda>args. Inr (Some (t\<lparr>t_args := args\<rparr>))))"

text \<open>The transforms it resolves are the read and the check transform.\<close>

definition resolve_head :: "Overloads \<Rightarrow> StmtHead \<Rightarrow> std_error + StmtHead" where
  "resolve_head overloads s = (let e = resolve_calls overloads; es = map_res (resolve_calls overloads) in
     and_then (resolve_fn_name overloads s) (\<lambda>fn_name.
     and_then (e (st_init s)) (\<lambda>init. and_then (e (st_rhs s)) (\<lambda>rhs. and_then (e (st_target s)) (\<lambda>target.
     and_then (e (st_lower s)) (\<lambda>lower. and_then (e (st_upper s)) (\<lambda>upper. and_then (e (st_cond s)) (\<lambda>cond.
     and_then (es (st_read_dims s)) (\<lambda>read_dims. and_then (es (st_lhs_idx s)) (\<lambda>lhs_idx.
     and_then (es (st_fn_args s)) (\<lambda>fn_args. and_then (es (s_dims (st_decl_type s))) (\<lambda>dims.
     and_then (resolve_transform overloads (st_read_transform s)) (\<lambda>read_transform.
     and_then (resolve_transform overloads (st_check_transform s)) (\<lambda>check_transform.
     Inr (s\<lparr>st_fn_name := fn_name, st_init := init, st_rhs := rhs, st_target := target, st_lower := lower,
       st_upper := upper, st_cond := cond, st_read_dims := read_dims, st_lhs_idx := lhs_idx, st_fn_args := fn_args,
       st_decl_type := (st_decl_type s)\<lparr>s_dims := dims\<rparr>, st_read_transform := read_transform,
       st_check_transform := check_transform\<rparr>)))))))))))))))"

fun resolve_calls_stmt :: "Overloads \<Rightarrow> Stmt \<Rightarrow> std_error + Stmt" where
  "resolve_calls_stmt overloads (Stmt s body) = and_then (resolve_head overloads s) (\<lambda>s'.
     and_then (map_res (resolve_calls_stmt overloads) body) (\<lambda>body'. Inr (Stmt s' body')))"

definition overload_group :: "FunDef list \<Rightarrow> string \<Rightarrow> FunDef list" where
  "overload_group fs name = filter (\<lambda>f. f_name f = name) fs"

definition is_overloaded :: "FunDef list \<Rightarrow> string \<Rightarrow> bool" where
  "is_overloaded fs name \<longleftrightarrow> 2 \<le> length (overload_group fs name)"

definition rename_overload :: "FunDef \<Rightarrow> FunDef" where
  "rename_overload f = f\<lparr>f_name := f_name f @ signature (f_arg_views f)\<rparr>"

text \<open>Whether two overloads of one name have the same signature.\<close>

fun any_match :: "FunDef \<Rightarrow> FunDef list \<Rightarrow> std_error + bool" where
  "any_match f [] = Inr False"
| "any_match f (g # gs) = and_then (views_match (f_arg_views f) (f_arg_views g)) (\<lambda>matches.
     if matches then Inr True else any_match f gs)"

fun some_match :: "FunDef list \<Rightarrow> std_error + bool" where
  "some_match [] = Inr False"
| "some_match (f # fs) = and_then (any_match f fs) (\<lambda>matches. if matches then Inr True else some_match fs)"

text \<open>The names of the source's map, in its order; two overloads of one name must differ.\<close>

definition overload_table :: "FunDef list \<Rightarrow> std_error + Overloads" where
  "overload_table fs = map_res (\<lambda>name. and_then (some_match (overload_group fs name)) (\<lambda>clash.
       if clash then Inl (RuntimeError (''mir: indistinguishable overloads of '' @ name))
       else Inr (name, map rename_overload (overload_group fs name))))
     (filter (is_overloaded fs) (remdups (sort (map f_name fs))))"

lemma some_match_eq: "some_match fs = Inr (\<not> sorted_wrt (\<lambda>f g. f_arg_views f \<noteq> f_arg_views g) fs)"
proof (induction fs)
  case (Cons f fs)
  have "any_match f gs = Inr (\<exists>g \<in> set gs. f_arg_views f = f_arg_views g)" for gs
    by (induction gs) (simp_all add: views_match_eq)
  with Cons show ?case by auto
qed simp

definition rename_functions :: "FunDef list \<Rightarrow> FunDef list" where
  "rename_functions fs = map (\<lambda>f. if is_overloaded fs (f_name f) then rename_overload f else f) fs"

definition resolve_inputs :: "Overloads \<Rightarrow> (string \<times> SizedType) list \<Rightarrow> std_error + (string \<times> SizedType) list" where
  "resolve_inputs overloads = map_res (\<lambda>(name, type).
     and_then (map_res (resolve_calls overloads) (s_dims type)) (\<lambda>dims. Inr (name, type\<lparr>s_dims := dims\<rparr>)))"

definition resolve_overloads :: "MirProgram \<Rightarrow> std_error + MirProgram" where
  "resolve_overloads p = and_then (overload_table (fun_defs p)) (\<lambda>overloads.
     if overloads = [] then Inr p
     else and_then (resolve_inputs overloads (input_vars p)) (\<lambda>inputs.
       map_bodies (resolve_calls_stmt overloads) (p\<lparr>input_vars := inputs, fun_defs := rename_functions (fun_defs p)\<rparr>)))"

section \<open>The whole pass\<close>

fun program_functions :: "FunDef list \<Rightarrow> Functions \<Rightarrow> std_error + Functions" where
  "program_functions [] fs = Inr fs"
| "program_functions (f # rest) fs =
     (if fs (f_name f) \<noteq> None
      then Inl (RuntimeError (''mir: duplicate function name after overload resolution: '' @ f_name f))
      else program_functions rest (fs(f_name f \<mapsto> f)))"

fun input_bindings :: "(string \<times> SizedType) list \<Rightarrow> Bindings \<Rightarrow> std_error + Bindings" where
  "input_bindings [] \<Gamma> = Inr \<Gamma>"
| "input_bindings ((name, type) # rest) \<Gamma> = and_then (declared_view type) (\<lambda>view.
     input_bindings rest (\<Gamma>(name \<mapsto> \<lparr>b_view = view, b_declared_data_only = True\<rparr>)))"

text \<open>The vectors of a definition are indexed by the number of names.\<close>

definition argument_bindings :: "FunDef \<Rightarrow> std_error + Bindings" where
  "argument_bindings f = (let n = length (f_arg_names f) in
     if length (f_arg_views f) < n \<or> length (f_arg_data_only f) < n then Inl UndefinedBehaviour
     else Inr (foldl (\<lambda>\<Gamma> i. \<Gamma>(f_arg_names f ! i \<mapsto> \<lparr>b_view = f_arg_views f ! i, b_declared_data_only = f_arg_data_only f ! i\<rparr>))
            Map.empty [0..<n]))"

definition validate_function :: "Functions \<Rightarrow> bool \<Rightarrow> FunDef \<Rightarrow> std_error + BindState" where
  "validate_function fs strict f = and_then (argument_bindings f) (\<lambda>args. validate_body fs strict (f_body f) (args, None))"

definition validate_program :: "bool \<Rightarrow> MirProgram \<Rightarrow> std_error + unit" where
  "validate_program strict p = and_then (program_functions (fun_defs p) Map.empty) (\<lambda>fs.
     and_then (input_bindings (input_vars p) Map.empty) (\<lambda>inputs.
     and_then (validate_body fs strict (prepare_data p) (inputs, None)) (\<lambda>prepared.
     and_then (validate_body fs strict (log_prob p) (fst prepared, None)) (\<lambda>_.
     and_then (validate_body fs strict (generate_quantities p) (fst prepared, None)) (\<lambda>_.
     and_then (validate_body fs strict (transform_inits p) (fst prepared, None)) (\<lambda>_.
     and_then (map_res (validate_function fs strict) (fun_defs p)) (\<lambda>_. Inr ())))))))"

definition finalize_program :: "Platform \<Rightarrow> Numbers \<Rightarrow> bool \<Rightarrow> MirProgram \<Rightarrow> std_error + MirProgram" where
  "finalize_program P N strict p =
     and_then (read_jacobians P N p) (\<lambda>p. and_then (map_bodies (restore_unsized_decls strict) (unmangle p)) (\<lambda>p.
     and_then (resolve_overloads p) (\<lambda>p. and_then (validate_program strict p) (\<lambda>_. Inr p))))"

text \<open>\<^verbatim>\<open>read_portable_v2_program\<close>, whole.\<close>

definition read_portable_v2_program :: "Registry \<Rightarrow> Platform \<Rightarrow> Numbers \<Rightarrow> string \<Rightarrow> std_error + MirProgram" where
  "read_portable_v2_program R P N bytes = and_then (read_portable_v2 P bytes) (\<lambda>p.
     case validate_portable_program R p of Some e \<Rightarrow> Inl e | None \<Rightarrow> finalize_program P N True p)"

end
