(* ===== verification/MirAccept.thy ===== *)
theory MirAccept
  imports MirFinalize
begin

text \<open>
  What the finished reader guarantees: overload resolution gives every function a name of its own, an
  accepted program is typed by its declarations, and no input makes the reader access a vector out of
  range.
\<close>

lemma map_res_member: "map_res f xs = Inr ys \<Longrightarrow> x \<in> set xs \<Longrightarrow> \<exists>y. f x = Inr y"
  by (induction xs arbitrary: ys) auto

section \<open>Signatures\<close>

lemma bracket_chars: "c \<in> set (concat (replicate n ''[]'')) \<Longrightarrow> c = CHR ''['' \<or> c = CHR '']''"
  by (induction n) auto

lemma leaf_signature_chars: "c \<in> set (leaf_signature leaf) \<Longrightarrow> c \<noteq> CHR '','' \<and> c \<noteq> CHR ''[''"
  by (cases leaf) (auto simp: leaf_signature_def)

lemma view_signature_chars: "c \<in> set (view_signature v) \<Longrightarrow> c \<noteq> CHR '',''"
  unfolding view_signature_def set_append Un_iff by (auto dest: bracket_chars leaf_signature_chars simp del: set_concat)

lemma leaf_signature_inj: "leaf_signature a = leaf_signature b \<longleftrightarrow> a = b"
  by (cases a; cases b) (simp_all add: leaf_signature_def)

lemma length_brackets [simp]: "length (concat (replicate n ''[]'')) = 2 * n"
  by (induction n) simp_all

lemma takeWhile_leaf:
  "takeWhile (\<lambda>c. c \<noteq> CHR ''['') (leaf_signature leaf @ concat (replicate n ''[]'')) = leaf_signature leaf"
  using leaf_signature_chars [of _ leaf] by (cases n) (auto simp: takeWhile_append)

lemma view_signature_inj:
  assumes "view_signature u = view_signature v" "0 \<le> v_depth u" "0 \<le> v_depth v"
  shows "u = v"
proof -
  have leaf: "v_leaf u = v_leaf v"
    using assms(1) takeWhile_leaf [of "v_leaf u" "nat (v_depth u)"] takeWhile_leaf [of "v_leaf v" "nat (v_depth v)"]
    by (simp add: view_signature_def leaf_signature_inj)
  with arg_cong [OF assms(1), of length] have "nat (v_depth u) = nat (v_depth v)"
    by (simp add: view_signature_def)
  with leaf assms(2,3) show ?thesis by (cases u, cases v) simp
qed

lemma view_signature_nonempty: "view_signature v \<noteq> []"
  by (cases "v_leaf v") (simp_all add: view_signature_def leaf_signature_def)

lemma comma_join_Cons: "comma_join (x # xs) = x @ (if xs = [] then [] else CHR '','' # comma_join xs)"
  by (cases xs) simp_all

lemma comma_join_inj:
  assumes "comma_join xs = comma_join ys" "\<forall>x \<in> set xs. x \<noteq> [] \<and> CHR '','' \<notin> set x"
    "\<forall>y \<in> set ys. y \<noteq> [] \<and> CHR '','' \<notin> set y"
  shows "xs = ys"
  using assms
proof (induction xs arbitrary: ys)
  case Nil
  then show ?case by (cases ys) (auto simp: comma_join_Cons)
next
  case (Cons x xs)
  then obtain y ys' where ys: "ys = y # ys'" by (cases ys) (auto simp: comma_join_Cons)
  have cut: "takeWhile (\<lambda>c. c \<noteq> CHR '','') (comma_join (z # zs)) = z"
    "drop (length z) (comma_join (z # zs)) = (if zs = [] then [] else CHR '','' # comma_join zs)"
    if "CHR '','' \<notin> set z" for z zs
    using that by (auto simp: comma_join_Cons takeWhile_append intro: takeWhile_eq_all_conv [THEN iffD2])
  from Cons.prems ys cut(1) [of x xs] cut(1) [of y ys'] have "x = y" by simp
  with Cons.prems ys cut(2) [of x xs] cut(2) [of y ys'] have "comma_join xs = comma_join ys'"
    by (auto split: if_splits)
  with Cons ys \<open>x = y\<close> show ?case by simp
qed

definition depths_ok :: "UnsizedView list \<Rightarrow> bool" where
  "depths_ok views \<longleftrightarrow> list_all (\<lambda>v. 0 \<le> v_depth v) views"

lemma signature_inj:
  assumes "signature us = signature vs" "depths_ok us" "depths_ok vs"
  shows "us = vs"
proof -
  have "comma_join (map view_signature us) = comma_join (map view_signature vs)"
    using assms(1) by (simp add: signature_def)
  then have "map view_signature us = map view_signature vs"
    by (rule comma_join_inj) (auto simp: view_signature_nonempty dest: view_signature_chars)
  moreover have "inj_on view_signature (set us \<union> set vs)"
    using assms(2,3) by (auto simp: inj_on_def depths_ok_def list_all_iff intro: view_signature_inj)
  ultimately show ?thesis by (meson inj_on_map_eq_map)
qed

section \<open>Overload resolution\<close>

lemma sorted_wrt_filter_nth:
  assumes "sorted_wrt R (filter P xs)" "i < j" "j < length xs" "P (xs ! i)" "P (xs ! j)"
  shows "R (xs ! i) (xs ! j)"
proof -
  have "sorted_wrt (\<lambda>x y. P x \<longrightarrow> P y \<longrightarrow> R x y) xs"
    using assms(1) by (induction xs) (auto split: if_splits)
  with assms(2-5) show ?thesis by (auto simp: sorted_wrt_iff_nth_less)
qed

lemma is_overloadedI: "i < j \<Longrightarrow> j < length fs \<Longrightarrow> f_name (fs ! i) = f_name (fs ! j) \<Longrightarrow> is_overloaded fs (f_name (fs ! i))"
proof -
  assume a: "i < j" "j < length fs" "f_name (fs ! i) = f_name (fs ! j)"
  let ?P = "\<lambda>f. f_name f = f_name (fs ! i)"
  have "fs ! i \<in> set (filter ?P (take j fs))" using a by (auto simp: in_set_conv_nth intro: exI [of _ i])
  moreover have "fs ! j \<in> set (filter ?P (drop j fs))" using a by (auto simp: in_set_conv_nth intro: exI [of _ 0])
  ultimately have "0 < length (filter ?P (take j fs))" "0 < length (filter ?P (drop j fs))"
    by (metis length_pos_if_in_set)+
  moreover have "length (filter ?P fs) = length (filter ?P (take j fs)) + length (filter ?P (drop j fs))"
    by (metis append_take_drop_id filter_append length_append)
  ultimately show ?thesis unfolding is_overloaded_def overload_group_def by linarith
qed

lemma overload_entry:
  assumes "and_then (some_match g) (\<lambda>clash. if clash then Inl e else Inr x) = Inr y"
  shows "sorted_wrt (\<lambda>f g. f_arg_views f \<noteq> f_arg_views g) g"
  using assms by (simp add: some_match_eq split: if_splits)

lemma overload_table_distinct:
  assumes "overload_table fs = Inr overloads" "i < j" "j < length fs" "f_name (fs ! i) = f_name (fs ! j)"
  shows "f_arg_views (fs ! i) \<noteq> f_arg_views (fs ! j)"
proof -
  let ?name = "f_name (fs ! i)" let ?g = "overload_group fs (f_name (fs ! i))"
  have "?name \<in> set (filter (is_overloaded fs) (remdups (sort (map f_name fs))))"
    using assms(2,3) is_overloadedI [OF assms(2-4)] by simp
  from map_res_member [OF assms(1) [unfolded overload_table_def] this]
  have "sorted_wrt (\<lambda>f g. f_arg_views f \<noteq> f_arg_views g) ?g"
    by (elim exE) (rule overload_entry)
  then show ?thesis
    unfolding overload_group_def by (rule sorted_wrt_filter_nth) (rule assms refl assms(4) [symmetric])+
qed

text \<open>The name a function had before it got a signature.\<close>

lemma rename_base:
  assumes "CHR ''('' \<notin> set (f_name f)"
  shows "takeWhile (\<lambda>c. c \<noteq> CHR ''('') (f_name (if b then rename_overload f else f)) = f_name f"
proof -
  have "takeWhile (\<lambda>c. c \<noteq> CHR ''('') (f_name f @ t) = f_name f @ takeWhile (\<lambda>c. c \<noteq> CHR ''('') t" for t
    by (rule takeWhile_append2) (use assms in blast)
  from this [of "[]"] this [of "signature (f_arg_views f)"] show ?thesis
    by (simp add: rename_overload_def signature_def)
qed

text \<open>C16. Overload resolution gives every function a name of its own: if it accepts the functions of a
  program, none of whose names contains an opening parenthesis, then the names it assigns are pairwise
  distinct, so the map from names to functions that the checks and the lowering use loses no definition and
  the duplicate-name error that follows cannot arise from overloads.\<close>

theorem overloads_distinct:
  assumes "overload_table fs = Inr overloads" "\<forall>f \<in> set fs. CHR ''('' \<notin> set (f_name f) \<and> depths_ok (f_arg_views f)"
  shows "distinct (map f_name (rename_functions fs))"
proof -
  have "f_name (rename_functions fs ! i) \<noteq> f_name (rename_functions fs ! j)" if ij: "i < j" "j < length fs" for i j
  proof
    assume eq: "f_name (rename_functions fs ! i) = f_name (rename_functions fs ! j)"
    let ?b = "\<lambda>k. is_overloaded fs (f_name (fs ! k))"
    have n: "rename_functions fs ! k = (if ?b k then rename_overload (fs ! k) else fs ! k)" if "k < length fs" for k
      using that by (simp add: rename_functions_def)
    have "f_name (fs ! i) = f_name (fs ! j)"
      using eq n [of i] n [of j] ij assms(2) rename_base [of "fs ! i" "?b i"] rename_base [of "fs ! j" "?b j"] by simp
    from is_overloadedI [OF ij this] overload_table_distinct [OF assms(1) ij this]
    have "?b i" "f_arg_views (fs ! i) \<noteq> f_arg_views (fs ! j)" .
    with eq n [of i] n [of j] ij \<open>f_name (fs ! i) = f_name (fs ! j)\<close> assms(2) signature_inj show False
      by (auto simp: rename_overload_def)
  qed
  then have "i < length fs \<Longrightarrow> j < length fs \<Longrightarrow> i \<noteq> j \<Longrightarrow> f_name (rename_functions fs ! i) \<noteq> f_name (rename_functions fs ! j)" for i j
    by (metis nat_neq_iff)
  then show ?thesis by (simp add: distinct_conv_nth rename_functions_def)
qed

section \<open>Accepted programs are typed\<close>

text \<open>The bindings of the inputs and of a function's arguments, and all statements of a program with the
  bindings in scope there.\<close>

definition input_env :: "MirProgram \<Rightarrow> Bindings" where
  "input_env p = foldl (\<lambda>\<Gamma> (name, type). case declared_view type of
       Inl e \<Rightarrow> \<Gamma>
     | Inr view \<Rightarrow> \<Gamma>(name \<mapsto> \<lparr>b_view = view, b_declared_data_only = True\<rparr>)) Map.empty (input_vars p)"

definition prepared_env :: "MirProgram \<Rightarrow> Bindings" where
  "prepared_env p = after_seq (prepare_data p) (input_env p)"

definition argument_env :: "FunDef \<Rightarrow> Bindings" where
  "argument_env f = map_of (rev (zip (f_arg_names f)
     (map2 (\<lambda>v d. \<lparr>b_view = v, b_declared_data_only = d\<rparr>) (f_arg_views f) (f_arg_data_only f))))"

definition in_scope :: "MirProgram \<Rightarrow> Bindings \<Rightarrow> Stmt \<Rightarrow> bool" where
  "in_scope p \<Delta> t \<longleftrightarrow> visits (input_env p) (prepare_data p) \<Delta> t \<or>
     (\<exists>body \<in> {log_prob p, generate_quantities p, transform_inits p}. visits (prepared_env p) body \<Delta> t) \<or>
     (\<exists>f \<in> set (fun_defs p). visits (argument_env f) (f_body f) \<Delta> t)"

definition functions_of :: "MirProgram \<Rightarrow> Functions" where
  "functions_of p = map_of (map (\<lambda>f. (f_name f, f)) (fun_defs p))"

lemma program_functions_Inr:
  "program_functions defs fs = Inr fs' \<Longrightarrow>
     distinct (map f_name defs) \<and> (\<forall>f \<in> set defs. fs (f_name f) = None) \<and> fs' = fs ++ map_of (map (\<lambda>f. (f_name f, f)) defs)"
proof (induction defs fs rule: program_functions.induct)
  case (2 f rest fs)
  from "2.prems" have n: "fs (f_name f) = None" and "program_functions rest (fs(f_name f \<mapsto> f)) = Inr fs'"
    by (simp_all split: if_splits)
  from "2.IH" [OF _ this(2)] n have ih: "distinct (map f_name rest)"
      "\<forall>g \<in> set rest. (fs(f_name f \<mapsto> f)) (f_name g) = None"
      "fs' = fs(f_name f \<mapsto> f) ++ map_of (map (\<lambda>f. (f_name f, f)) rest)"
    by blast+
  from ih(2) have new: "f_name f \<notin> f_name ` set rest" by (auto split: if_splits)
  then have "fs' = (fs ++ map_of (map (\<lambda>f. (f_name f, f)) rest))(f_name f \<mapsto> f)"
    unfolding ih(3) by (intro map_add_upd_left) (simp add: dom_map_of_conv_image_fst image_image)
  then have "fs' = fs ++ map_of (map (\<lambda>f. (f_name f, f)) (f # rest))"
    by (simp only: list.map map_of.simps fst_conv snd_conv map_add_upd)
  moreover have "distinct (map f_name (f # rest))" using ih(1) new by simp
  moreover have "\<forall>g \<in> set (f # rest). fs (f_name g) = None" using n ih(2) by (auto split: if_splits)
  ultimately show ?case by blast
qed simp

lemma input_bindings_Inr:
  "input_bindings vars \<Gamma> = Inr \<Gamma>' \<Longrightarrow> \<Gamma>' = foldl (\<lambda>\<Gamma> (name, type). case declared_view type of
       Inl e \<Rightarrow> \<Gamma>
     | Inr view \<Rightarrow> \<Gamma>(name \<mapsto> \<lparr>b_view = view, b_declared_data_only = True\<rparr>)) \<Gamma> vars"
  by (induction vars \<Gamma> rule: input_bindings.induct) auto

lemma validate_body_after:
  assumes "validate_body fs strict body (\<Gamma>, None) = Inr st"
  shows "fst st = after_seq body \<Gamma>"
  using scoped_body.bindings_after [OF assms] lexical_after(2) by metis

lemma argument_bindings_Inr:
  assumes "argument_bindings f = Inr \<Gamma>"
  shows "\<Gamma> = argument_env f"
proof -
  let ?b = "map2 (\<lambda>v d. \<lparr>b_view = v, b_declared_data_only = d\<rparr>) (f_arg_views f) (f_arg_data_only f)"
  let ?n = "length (f_arg_names f)"
  from assms have len: "?n \<le> length (f_arg_views f)" "?n \<le> length (f_arg_data_only f)"
    and g: "\<Gamma> = foldl (\<lambda>\<Gamma> i. \<Gamma>(f_arg_names f ! i \<mapsto> \<lparr>b_view = f_arg_views f ! i, b_declared_data_only = f_arg_data_only f ! i\<rparr>))
      Map.empty [0..<?n]"
    by (auto simp: argument_bindings_def Let_def split: if_splits)
  have "k \<le> ?n \<Longrightarrow> foldl (\<lambda>\<Gamma> i. \<Gamma>(f_arg_names f ! i \<mapsto> \<lparr>b_view = f_arg_views f ! i, b_declared_data_only = f_arg_data_only f ! i\<rparr>))
      Map.empty [0..<k] = map_of (rev (take k (zip (f_arg_names f) ?b)))" for k
    using len by (induction k) (simp_all add: take_Suc_conv_app_nth)
  from this [of ?n] show ?thesis using len by (simp add: g argument_env_def)
qed

lemma validate_program_typed:
  assumes "validate_program True p = Inr u" "in_scope p \<Delta> t" "r \<in> set (bound_exprs (st_head t))" "e \<in> set (subexprs r)"
  shows "variable_typed \<Delta> (e_head e) \<and> call_typed (functions_of p) \<Delta> e"
proof -
  let ?fs = "functions_of p"
  from assms(1) obtain fs inputs prepared st1 st2 st3 us where
    fs: "program_functions (fun_defs p) Map.empty = Inr fs" and inputs: "input_bindings (input_vars p) Map.empty = Inr inputs"
    and prep: "validate_body fs True (prepare_data p) (inputs, None) = Inr prepared"
    and bodies: "validate_body fs True (log_prob p) (fst prepared, None) = Inr st1"
      "validate_body fs True (generate_quantities p) (fst prepared, None) = Inr st2"
      "validate_body fs True (transform_inits p) (fst prepared, None) = Inr st3"
    and funs: "map_res (validate_function fs True) (fun_defs p) = Inr us"
    by (auto simp: validate_program_def)
  have "fs = ?fs" using program_functions_Inr [OF fs] by (simp add: functions_of_def)
  moreover have i: "inputs = input_env p" using input_bindings_Inr [OF inputs] by (simp add: input_env_def)
  moreover have "fst prepared = prepared_env p" using validate_body_after [OF prep] i by (simp add: prepared_env_def)
  moreover have "\<exists>st. validate_body fs True (f_body f) (argument_env f, None) = Inr st" if "f \<in> set (fun_defs p)" for f
    using map_res_member [OF funs that] argument_bindings_Inr [of f] by (auto simp: validate_function_def)
  ultimately show ?thesis
    using assms(2) prep bodies unfolding in_scope_def
    by (auto dest!: validated_body_typed [OF _ _ assms(3,4)])
qed


section \<open>Overloads and the transform of a write\<close>

text \<open>All statements of a program, of every section and function.\<close>

definition program_statements :: "MirProgram \<Rightarrow> Stmt list" where
  "program_statements p = prepare_data p @ log_prob p @ generate_quantities p @ transform_inits p @
     concat (map f_body (fun_defs p))"

lemma member_in_scope:
  assumes "s \<in> set (program_statements p)" "t \<in> set (statements s)"
  shows "\<exists>\<Delta>. in_scope p \<Delta> t"
proof -
  have v: "\<exists>\<Delta>. visits \<Gamma> body \<Delta> t" if "s \<in> set body" for \<Gamma> body
    using visits_member [OF that] every_statement_visited [OF assms(2)] by blast
  from assms(1) consider "s \<in> set (prepare_data p)"
    | body where "body \<in> {log_prob p, generate_quantities p, transform_inits p}" "s \<in> set body"
    | f where "f \<in> set (fun_defs p)" "s \<in> set (f_body f)"
    by (auto simp: program_statements_def)
  then show ?thesis
    by cases (use v in \<open>unfold in_scope_def, blast+\<close>)
qed

lemma map_res_forward: "map_res f xs = Inr ys \<Longrightarrow> x \<in> set xs \<Longrightarrow> \<exists>y \<in> set ys. f x = Inr y"
  by (fastforce simp: map_res_Inr list_all2_conv_all_nth in_set_conv_nth)

lemma map_bodies_forward:
  assumes "map_bodies f p = Inr p'" "s \<in> set (program_statements p)"
  shows "\<exists>s' \<in> set (program_statements p'). f s = Inr s'"
proof -
  let ?g = "\<lambda>d. and_then (map_res f (f_body d)) (\<lambda>body. Inr (d\<lparr>f_body := body\<rparr>))"
  from assms(1) obtain prepare log_p generate inits funs where
    r: "map_res f (prepare_data p) = Inr prepare" "map_res f (log_prob p) = Inr log_p"
      "map_res f (generate_quantities p) = Inr generate" "map_res f (transform_inits p) = Inr inits"
      "map_res ?g (fun_defs p) = Inr funs"
    and p': "p' = p\<lparr>prepare_data := prepare, log_prob := log_p, generate_quantities := generate, transform_inits := inits,
        fun_defs := funs\<rparr>"
    by (auto simp: map_bodies_def)
  have "\<exists>s' \<in> set (concat (map f_body funs)). f s = Inr s'" if d: "d \<in> set (fun_defs p)" "s \<in> set (f_body d)" for d
  proof -
    from map_res_forward [OF r(5) d(1)] obtain d' body where
      "d' \<in> set funs" "map_res f (f_body d) = Inr body" "d' = d\<lparr>f_body := body\<rparr>" by auto
    with map_res_forward [OF this(2) d(2)] show ?thesis by (auto intro!: bexI [of _ d'])
  qed
  then show ?thesis
    using assms(2) map_res_forward [OF r(1), of s] map_res_forward [OF r(2), of s] map_res_forward [OF r(3), of s]
      map_res_forward [OF r(4), of s]
    by (auto simp: program_statements_def p' bex_Un)
qed

lemma map_bodies_names:
  assumes "map_bodies f p = Inr p'"
  shows "map f_name (fun_defs p') = map f_name (fun_defs p)"
proof -
  have "map f_name ds' = map f_name ds"
    if "map_res (\<lambda>d. and_then (map_res f (f_body d)) (\<lambda>body. Inr (d\<lparr>f_body := body\<rparr>))) ds = Inr ds'" for ds ds'
    using that by (induction ds arbitrary: ds') auto
  with assms show ?thesis by (auto simp: map_bodies_def)
qed

text \<open>The pass that resolves overloads leaves the transform of a write as it was.\<close>

lemma resolve_keeps_write:
  "resolve_calls_stmt T s = Inr s' \<Longrightarrow> t \<in> set (statements s) \<Longrightarrow>
    \<exists>t' \<in> set (statements s'). st_write_transform (st_head t') = st_write_transform (st_head t)"
proof (induction s arbitrary: s')
  case (Stmt h body)
  from Stmt.prems(1) obtain h' body' where h: "resolve_head T h = Inr h'"
    and b: "map_res (resolve_calls_stmt T) body = Inr body'" and s': "s' = Stmt h' body'" by auto
  show ?case
  proof (cases "t = Stmt h body")
    case True
    have "st_write_transform h' = st_write_transform h" using h by (auto simp: resolve_head_def Let_def)
    with True s' show ?thesis by simp
  next
    case False
    with Stmt.prems(2) obtain c where c: "c \<in> set body" "t \<in> set (statements c)" by auto
    with map_res_forward [OF b c(1)] Stmt.IH [OF c(1) _ c(2)] s' show ?thesis by fastforce
  qed
qed

text \<open>After it, no function has the name of an overload any more.\<close>

lemma overloaded_name_gone:
  assumes "resolve_overloads p = Inr p'" "is_overloaded (fun_defs p) g" "\<forall>f \<in> set (fun_defs p). CHR ''('' \<notin> set (f_name f)"
  shows "functions_of p' g = None \<and>
    (\<exists>T. \<forall>s \<in> set (program_statements p). \<exists>s' \<in> set (program_statements p'). resolve_calls_stmt T s = Inr s')"
proof -
  let ?fs = "fun_defs p"
  from assms(1) obtain T where T: "overload_table ?fs = Inr T" by (auto simp: resolve_overloads_def)
  have "overload_group ?fs g \<noteq> []" using assms(2) by (auto simp: is_overloaded_def)
  then obtain f where f: "f \<in> set ?fs" "f_name f = g" by (auto simp: overload_group_def filter_empty_conv)
  with assms(2) have g: "g \<in> set (filter (is_overloaded ?fs) (remdups (sort (map f_name ?fs))))" by auto
  have "T \<noteq> []"
  proof
    assume "T = []"
    then have "filter (is_overloaded ?fs) (remdups (sort (map f_name ?fs))) = []"
      using T unfolding overload_table_def map_res_Inr by simp
    with g show False by (metis empty_iff list.set(1))
  qed
  with assms(1) T obtain inputs where
    m: "map_bodies (resolve_calls_stmt T) (p\<lparr>input_vars := inputs, fun_defs := rename_functions ?fs\<rparr>) = Inr p'"
    by (auto simp: resolve_overloads_def)
  have "g \<noteq> f_name (if is_overloaded ?fs (f_name d) then rename_overload d else d)" if "d \<in> set ?fs" for d
    using assms(2,3) f by (auto simp: rename_overload_def signature_def)
  then have "g \<notin> set (map f_name (fun_defs p'))"
    unfolding map_bodies_names [OF m] by (auto simp: rename_functions_def)
  then have "functions_of p' g = None" by (simp add: functions_of_def map_of_eq_None_iff image_image)
  moreover have "set (program_statements (p\<lparr>input_vars := inputs, fun_defs := rename_functions ?fs\<rparr>)) = set (program_statements p)"
    by (auto simp: program_statements_def rename_functions_def rename_overload_def split: if_splits)
  ultimately show ?thesis using map_bodies_forward [OF m] by blast
qed

text \<open>C38. A parameter bound that calls an overloaded user function is rejected, whatever the rest of the program is: let
  the functions of a program, after the passes before overload resolution, have two definitions of one name (none of the names
  with an opening parenthesis), and let any statement of any section or function, at any depth, have a call of that name
  among the arguments of its write transform. Then \<^verbatim>\<open>finalize_program\<close> throws: the pass that gives overloads names of their own
  rewrites the calls in the read and the check transform and not those in the write transform, so the check of the bindings
  finds no function of the old name.\<close>

theorem overloaded_bound_rejected:
  assumes "and_then (read_jacobians P N p0) (\<lambda>p. map_bodies (restore_unsized_decls True) (unmangle p)) = Inr p"
    and "is_overloaded (fun_defs p) g" "\<forall>f \<in> set (fun_defs p). CHR ''('' \<notin> set (f_name f)"
    and "s \<in> set (program_statements p)" "t \<in> set (statements s)"
    and "w \<in> set (transform_args (st_write_transform (st_head t)))" "e \<in> set (subexprs w)"
    and "e_kind (e_head e) = Expr_FunApp" "e_fn_lib (e_head e) = Lib_UserDefined" "e_name (e_head e) = g"
  shows "\<exists>err. finalize_program P N True p0 = Inl err"
proof (rule ccontr)
  assume "\<nexists>err. finalize_program P N True p0 = Inl err"
  then obtain p1 where "finalize_program P N True p0 = Inr p1" by (cases "finalize_program P N True p0") auto
  with assms(1) obtain u where r: "resolve_overloads p = Inr p1" "validate_program True p1 = Inr u"
    by (auto simp: finalize_program_def)
  from overloaded_name_gone [OF r(1) assms(2,3)] have g: "functions_of p1 g = None" by simp
  from overloaded_name_gone [OF r(1) assms(2,3)] assms(4) obtain T s' where s': "s' \<in> set (program_statements p1)" "resolve_calls_stmt T s = Inr s'" by blast
  with resolve_keeps_write [OF s'(2) assms(5)] obtain t' where t': "t' \<in> set (statements s')"
    "st_write_transform (st_head t') = st_write_transform (st_head t)" by blast
  obtain \<Delta> where "in_scope p1 \<Delta> t'" using member_in_scope [OF s'(1) t'(1)] by blast
  from validate_program_typed [OF r(2) this _ assms(7)] t'(2) assms(6) have "call_typed (functions_of p1) \<Delta> e"
    by (simp add: bound_exprs_def)
  with g assms(8-10) show False by (simp add: call_typed_def)
qed

end
