(* ===== verification/MirSafe.thy ===== *)
theory MirSafe
  imports MirAccept
begin

text \<open>
  No input makes the portable reader access a vector out of range: every step of
  \<^verbatim>\<open>read_portable_v2_program\<close>, from the base64 envelope to the check of the bindings, returns a value or
  throws one of the exceptions the source names.
\<close>

named_theorems defined_intros \<open>computations that never end in undefined behaviour\<close>

definition defined :: "std_error + 'a \<Rightarrow> bool" where
  "defined r \<longleftrightarrow> r \<noteq> Inl UndefinedBehaviour"

lemma defined_Inr [simp, defined_intros]: "defined (Inr x)"
  by (simp add: defined_def)

lemma defined_Inl [simp]: "defined (Inl e) \<longleftrightarrow> e \<noteq> UndefinedBehaviour"
  by (simp add: defined_def)

lemma defined_and_then [defined_intros]:
  "defined r \<Longrightarrow> (\<And>x. r = Inr x \<Longrightarrow> defined (f x)) \<Longrightarrow> defined (and_then r f)"
  by (cases r) (auto simp: and_then_def defined_def)

lemma defined_map_res [defined_intros]: "(\<And>x. x \<in> set xs \<Longrightarrow> defined (f x)) \<Longrightarrow> defined (map_res f xs)"
  by (induction xs) (auto intro!: defined_and_then)

section \<open>The payload\<close>

definition defined_reader :: "'a reader \<Rightarrow> bool" where
  "defined_reader m \<longleftrightarrow> (\<forall>r. defined (m r))"

lemma fail_wire_not_undefined [simp]: "fail_wire n s \<noteq> UndefinedBehaviour"
  by (simp add: fail_wire_def)

lemma defined_return [defined_intros]: "defined_reader (rd_return x)"
  by (simp add: defined_reader_def rd_return_def)

lemma defined_fail [defined_intros]: "defined_reader (rd_fail s)"
  by (simp add: defined_reader_def rd_fail_def)

lemma defined_bind [defined_intros]:
  "defined_reader m \<Longrightarrow> (\<And>x. defined_reader (f x)) \<Longrightarrow> defined_reader (rd_bind m f)"
  by (auto simp: defined_reader_def rd_bind_def split: sum.splits) (metis defined_Inl)

lemma defined_if [defined_intros]:
  "defined_reader a \<Longrightarrow> defined_reader b \<Longrightarrow> defined_reader (if c then a else b)"
  by simp

lemma defined_count [defined_intros]: "defined_reader count_value"
  by (simp add: defined_reader_def count_value_def rd_fail_def Let_def)

lemma defined_take [defined_intros]: "defined_reader (rd_take n)"
  by (simp add: defined_reader_def rd_take_eq rd_fail_def)

lemma defined_scalars [defined_intros]:
  "defined_reader rd_u8" "defined_reader rd_u32" "defined_reader rd_f64"
  unfolding rd_u8_eq rd_u32_def rd_f64_def by (intro defined_intros)+

lemma defined_i32 [defined_intros]: "defined_reader rd_i32"
  unfolding rd_i32_def by (intro defined_intros)

lemma defined_boolean [defined_intros]: "defined_reader rd_boolean"
  unfolding rd_boolean_def by (intro defined_intros)

lemma defined_here: "defined_reader m \<Longrightarrow> defined (m r)"
  by (simp add: defined_reader_def)

lemma defined_string [defined_intros]: "defined_reader rd_string"
  unfolding rd_string_eq
  by (intro defined_bind defined_scalars, unfold defined_reader_def)
    (auto simp: rd_fail_def intro!: defined_here defined_bind defined_take, auto simp: defined_reader_def)

lemma defined_tag [defined_intros]: "defined_reader (read_tag tags s)"
  unfolding read_tag_eq by (intro defined_intros)

lemma defined_depth [defined_intros]: "(\<And>d. defined_reader (body d)) \<Longrightarrow> defined_reader (with_depth P depth body)"
  by (simp add: defined_reader_def with_depth_def)

lemma defined_repeat [defined_intros]: "defined_reader m \<Longrightarrow> defined_reader (rd_repeat n m)"
  by (induction n) (auto intro!: defined_intros)

lemma defined_list_size [defined_intros]: "defined_reader rd_list_size"
  unfolding rd_list_size_def
  by (intro defined_bind defined_scalars) (simp add: defined_reader_def rd_fail_def)

lemma defined_depth_below:
  "(depth < 2 * nesting_limit P \<Longrightarrow> defined_reader (body (Suc depth))) \<Longrightarrow> defined_reader (with_depth P depth body)"
  by (auto simp: defined_reader_def with_depth_def)

lemma defined_list:
  assumes "depth < 2 * nesting_limit P \<Longrightarrow> defined_reader (rd (Suc depth))"
  shows "defined_reader (rd_list P n rd depth)"
  unfolding rd_list_def
proof (rule defined_depth_below, rule defined_bind [OF defined_list_size])
  fix size assume "depth < 2 * nesting_limit P"
  with assms have "defined_reader (rd_repeat (nat size) (rd (Suc depth)))" by (intro defined_repeat)
  then show "defined_reader (\<lambda>r. if size > (kMaxListStorageBytes - r_list_storage_bytes r) div n
     then rd_fail ''decoded list storage exceeds 268435456 bytes'' r
     else rd_repeat (nat size) (rd (Suc depth))
            (r\<lparr>r_list_storage_bytes := r_list_storage_bytes r + size * n\<rparr>))"
    by (simp add: defined_reader_def rd_fail_def)
qed

lemma defined_view [defined_intros]: "defined_reader read_view"
  unfolding read_view_def by (intro defined_intros)

lemma defined_meta [defined_intros]: "defined_reader (read_meta h)"
  unfolding read_meta_def by (intro defined_intros)

lemma defined_expr_fields [defined_intros]: "defined_reader (read_expr_fields P h)"
  unfolding read_expr_fields_def by (cases "e_kind h") (simp_all, (intro defined_intros)+)

lemma defined_expr [defined_intros]: "defined_reader (read_expr P depth)"
proof (induction "2 * nesting_limit P - depth" arbitrary: depth rule: less_induct)
  case less
  have "defined_reader (rd_list P n (read_expr P) (Suc depth))" if "depth < 2 * nesting_limit P" for n
    by (rule defined_list, rule less) simp
  then show ?case
    unfolding read_expr.simps [of P depth] by (intro defined_depth_below defined_intros)
qed

lemma defined_exprs [defined_intros]: "defined_reader (read_exprs P depth)"
  unfolding read_exprs_def by (intro defined_list defined_expr)

lemma defined_transform [defined_intros]: "defined_reader (read_transform P depth)"
  unfolding read_transform_def by (intro defined_intros)

lemma defined_optional [defined_intros]: "defined_reader (read_optional_transform P depth)"
  unfolding read_optional_transform_def by (intro defined_intros)

lemma defined_sized [defined_intros]: "defined_reader (read_sized P depth)"
  unfolding read_sized_def by (intro defined_intros)

lemma defined_init [defined_intros]: "defined_reader (read_init P depth b)"
  unfolding read_init_def by (intro defined_intros)

lemma defined_stmt_fields [defined_intros]: "defined_reader (read_stmt_fields P depth h)"
  unfolding read_stmt_fields_def by (cases "st_kind h") (simp_all, (intro defined_intros)+)

lemma defined_stmt_raw [defined_intros]: "defined_reader (read_stmt_raw k)"
  unfolding read_stmt_raw_def by (intro defined_intros)

lemma defined_stmt [defined_intros]: "defined_reader (read_stmt P depth)"
proof (induction "2 * nesting_limit P - depth" arbitrary: depth rule: less_induct)
  case less
  have "defined_reader (rd_list P n (read_stmt P) (Suc depth))" if "depth < 2 * nesting_limit P" for n
    by (rule defined_list, rule less) simp
  then show ?case
    unfolding read_stmt.simps [of P depth] by (intro defined_depth_below defined_intros)
qed

lemma defined_stmts [defined_intros]: "defined_reader (read_stmts P depth)"
  unfolding read_stmts_def by (intro defined_list defined_stmt)

lemma defined_strings [defined_intros]: "defined_reader (read_strings P depth)"
  unfolding read_strings_def by (intro defined_list defined_string)

lemma defined_fun [defined_intros]: "defined_reader (read_fun P depth)"
  unfolding read_fun_def by (intro defined_intros defined_list)

lemma defined_input [defined_intros]: "defined_reader (read_input P depth)"
  unfolding read_input_def by (intro defined_intros)

lemma defined_inits [defined_intros]: "defined_reader (read_transform_inits P depth)"
proof -
  have "defined_reader (rd_bind (read_stmts P depth) (\<lambda>inits. rd_return (True, inits)))" by (intro defined_intros)
  then show ?thesis by (simp add: read_transform_inits_def defined_reader_def)
qed

lemma defined_nesting [defined_intros]: "defined_reader read_nesting"
  by (simp add: read_nesting_def defined_reader_def)

lemma defined_program [defined_intros]: "defined_reader (read_program P)"
  unfolding read_program_def read_sections_def by (intro defined_intros defined_list)

lemma defined_finish [defined_intros]: "defined_reader finish"
  by (simp add: finish_def defined_reader_def rd_fail_def)

lemma defined_quartets: "length s mod 4 = 0 \<Longrightarrow> defined (decode_quartets offset s)"
proof (induction "length s" arbitrary: s offset rule: less_induct)
  case less
  show ?case
  proof (cases "length s < 4")
    case True
    then have "s = []" using less.prems by simp
    then show ?thesis by simp
  next
    case False
    then obtain c0 c1 c2 c3 rest where s: "s = c0 # c1 # c2 # c3 # rest"
      by (cases s; cases "tl s"; cases "tl (tl s)"; cases "tl (tl (tl s))") auto
    have "length rest mod 4 = 0" using less.prems unfolding s by simp
    then have ih: "defined (decode_quartets k rest)" for k using less.hyps [of rest k] s by simp
    have e: "defined (emit_bytes bs r)" if "defined r" for bs r
      using that by (cases r) (auto simp: emit_bytes_def)
    show ?thesis unfolding s using ih by (simp add: Let_def e)
  qed
qed

lemma defined_payload: "defined (decode_payload wire)"
proof -
  have "defined (and_then (decode_quartets 0 s) (\<lambda>decoded.
      if int (length decoded) \<noteq> n then Inl (fail_wire k m) else Inr decoded))"
    if "length s mod 4 = 0" for s n k m
    using defined_quartets [of s 0] that by (cases "decode_quartets 0 s") auto
  then show ?thesis by (simp add: decode_payload_def decoded_size_eq Let_def)
qed

lemma defined_read_portable: "defined (read_portable_v2 P bytes)"
proof -
  have "defined_reader (rd_bind (read_program P) (\<lambda>p. rd_bind finish (\<lambda>_. rd_return p)))" by (intro defined_intros)
  then have "defined (rd_bind (read_program P) (\<lambda>p. rd_bind finish (\<lambda>_. rd_return p)) r)" for r
    by (rule defined_here)
  moreover have "defined (open_reader payload)" for payload by (simp add: open_reader_def)
  ultimately show ?thesis
    using defined_payload [of bytes] unfolding read_portable_v2_def
    by (auto split: sum.splits) (metis defined_Inl)+
qed

section \<open>Text kept from stanc3\<close>

lemma defined_parse:
  "defined (parse_at n m d s)" "defined (parse_kids n m d s)"
proof (induction n m d s and n m d s rule: parse_at_parse_kids.induct)
  case (1 n m d s)
  show ?case
  proof (cases "skip_ws s")
    case (Cons c r)
    note ih = "1.IH" [OF Cons]
    show ?thesis
      using ih by (cases "parse_kids n m d r") (auto simp: parse_at.simps Cons sexp_error_def split: option.splits)
  qed (simp add: parse_at.simps sexp_error_def)
next
  case (2 n m d s)
  show ?case
  proof (cases "skip_ws s")
    case (Cons c r)
    note ih = "2.IH" [OF Cons]
    show ?thesis
    proof (cases "c = CHR '')''")
      case False
      have "defined (case parse_kids n m d rest of Inl e \<Rightarrow> Inl e | Inr (ks, rest') \<Rightarrow> Inr (k # ks, rest'))"
        if "parse_at n m (d + 1) (c # r) = Inr (k, rest)" for k rest
        using ih(2) [OF False that refl] by (cases "parse_kids n m d rest") auto
      then show ?thesis
        using ih(1) [OF False] False
        by (cases "parse_at n m (d + 1) (c # r)") (auto simp: parse_kids.simps [of n m d s] Cons)
    qed (simp add: parse_kids.simps Cons)
  qed (simp add: parse_kids.simps sexp_error_def)
qed

lemma defined_parse_sexp [defined_intros]: "defined (parse_sexp m s)"
  using defined_parse(1) [of "length s" m 0 s] unfolding parse_sexp_def Let_def
  by (cases "parse_at (length s) m 0 s") (auto simp: sexp_error_def)

text \<open>The number parsers of the library throw exceptions of their own.\<close>

definition numbers_defined :: "Numbers \<Rightarrow> bool" where
  "numbers_defined N \<longleftrightarrow> (\<forall>s. defined (stol N s) \<and> defined (stod N s))"

lemma defined_node_at [defined_intros]: "defined (node_at n i)"
  by (simp add: node_at_def)

lemma defined_atom_at [defined_intros]: "defined (atom_at n i)"
  unfolding atom_at_def by (intro defined_intros)

lemma defined_ifs [defined_intros]: "(c \<Longrightarrow> defined a) \<Longrightarrow> (\<not> c \<Longrightarrow> defined b) \<Longrightarrow> defined (if c then a else b)"
  by simp

lemma defined_unsized [defined_intros]: "defined (read_unsized n)"
proof -
  have "defined (read_unsized_at d n)" for d
    by (induction d n rule: read_unsized_at.induct) auto
  then show ?thesis by (simp add: read_unsized_def)
qed

lemma defined_kid [defined_intros]: "(\<And>n. defined (rd n)) \<Longrightarrow> defined (read_kid rd n i)"
  unfolding read_kid_def by (intro defined_intros)

lemma defined_index [defined_intros]: "(\<And>n. defined (rd n)) \<Longrightarrow> defined (read_index rd n)"
  unfolding read_index_def by (intro defined_intros)

lemma defined_propto [defined_intros]: "defined (read_propto kind h)"
  unfolding read_propto_def by (intro defined_intros)

lemma defined_call_head: "read_call_head kind = Some h \<Longrightarrow> defined h"
  unfolding read_call_head_def Let_def by (auto split: if_splits intro!: defined_intros)

lemma defined_literal [defined_intros]: "numbers_defined N \<Longrightarrow> defined (read_literal P N k v)"
  unfolding read_literal_def by (intro defined_intros) (simp_all add: numbers_defined_def)

lemma defined_kind [defined_intros]: "(\<And>n. defined (rd n)) \<Longrightarrow> defined (read_kind rd k ns)"
  unfolding read_kind_def by (intro defined_intros)

lemma defined_pattern [defined_intros]:
  assumes "numbers_defined N" "\<And>n. defined (rd n)"
  shows "defined (read_expr_pattern P N rd p)"
proof -
  have "defined (case read_call_head kind of None \<Rightarrow> Inr (unsupported_expr p)
      | Some h \<Rightarrow> and_then h (\<lambda>h. and_then (map_res rd ns) (\<lambda>args. Inr (Expr h args))))" for kind ns
    by (cases "read_call_head kind") (auto intro!: defined_intros assms dest: defined_call_head)
  then show ?thesis
    unfolding read_expr_pattern_def by (intro defined_intros assms)
qed

lemma defined_set_type [defined_intros]: "defined (set_type type e)"
  unfolding set_type_def by (intro defined_intros)

lemma defined_metadata [defined_intros]: "defined (read_metadata n e)"
  unfolding read_metadata_def
  by (auto split: option.splits intro!: defined_intros)

lemma defined_expr_node [defined_intros]:
  assumes "numbers_defined N"
  shows "defined (read_expr_node P N depth n)"
proof (induction "nesting_limit P - depth" arbitrary: depth n rule: less_induct)
  case less
  have "defined (read_expr_body P N (read_expr_node P N (Suc depth)) n)" if "depth < nesting_limit P"
  proof -
    have "nesting_limit P - Suc depth < nesting_limit P - depth" using that by simp
    note ih = less.hyps [OF this]
    show ?thesis
      unfolding read_expr_body_def by (auto split: option.splits intro!: defined_intros assms ih)
  qed
  then show ?case
    unfolding read_expr_node.simps [of P N depth] nesting_scope_def by (simp add: not_le)
qed

section \<open>The passes\<close>

lemma defined_map_bodies [defined_intros]: "(\<And>s. defined (f s)) \<Longrightarrow> defined (map_bodies f p)"
  unfolding map_bodies_def by (intro defined_intros)

lemma defined_jacobian_head: "numbers_defined N \<Longrightarrow> defined (jacobian_head P N s)"
  unfolding jacobian_head_def by (intro defined_intros) simp_all

lemma defined_jacobian_stmt: "numbers_defined N \<Longrightarrow> defined (read_jacobian_statements P N s)"
proof (induction s)
  case (Stmt s body)
  then show ?case
    unfolding read_jacobian_statements.simps by (intro defined_intros defined_jacobian_head)
qed

lemma defined_access [defined_intros]: "i < length xs \<Longrightarrow> defined (access xs i)"
  by simp

lemma defined_strip [defined_intros]: "defined (strip_eval e)"
proof (induction e)
  case (Expr h args)
  then show ?case unfolding strip_eval.simps by (intro defined_intros) simp_all
qed

lemma defined_strip_stmt [defined_intros]: "defined (strip_eval_stmt s)"
proof (induction s)
  case (Stmt s body)
  then show ?case unfolding strip_eval_stmt.simps strip_eval_head_def Let_def by (intro defined_intros)
qed

lemma defined_jacobians: "numbers_defined N \<Longrightarrow> defined (read_jacobians P N p)"
  unfolding read_jacobians_def by (intro defined_intros defined_jacobian_stmt)

lemma defined_spelling [defined_intros]: "defined (parse_unsized_spelling t)"
proof -
  have "defined (parse_spelling depth t)" for depth
  proof (induction "length t" arbitrary: depth t rule: less_induct)
    case (less t)
    have "length (butlast (drop (length array_prefix) t)) < length t" if "length array_prefix < length t"
      using that by simp
    then show ?case using less by (simp add: parse_spelling_eq [of depth t])
  qed
  then show ?thesis by (simp add: parse_unsized_spelling_def)
qed

lemma defined_run [defined_intros]: "0 \<le> n \<Longrightarrow> int i + n \<le> int (length xs) \<Longrightarrow> defined (elem_run xs i n)"
  by (simp add: elem_run_def)

lemma defined_last [defined_intros]: "xs \<noteq> [] \<Longrightarrow> defined (last_elem xs)"
  by simp

lemma defined_unsized_of_raw [defined_intros]: "defined (unsized_of_raw raw)"
  unfolding unsized_of_raw_def by (intro defined_intros) (auto split: if_splits)

lemma defined_restore_head: "defined (restore_head strict s)"
  unfolding restore_head_def Let_def by (intro defined_intros) (simp split: option.split)

lemma defined_restore: "defined (restore_unsized_decls strict s)"
proof (induction s)
  case (Stmt s body)
  then show ?case
    unfolding restore_unsized_decls.simps by (intro defined_intros defined_restore_head)
qed

lemma defined_overload [defined_intros]: "defined (resolve_overload name fs views)"
proof -
  have "defined (overload_search name views found fs)" for found
    by (induction name views found fs rule: overload_search.induct) (auto simp: views_match_eq split: option.split)
  then show ?thesis by (simp add: resolve_overload_def)
qed

lemma defined_argument_views [defined_intros]: "defined (function_argument_views raw)"
  unfolding function_argument_views_def Let_def by (intro defined_intros) (simp_all add: malformed_function_type_def)

lemma defined_resolved_name [defined_intros]: "defined (resolved_name T h args)"
  unfolding resolved_name_def Let_def by (auto split: option.splits intro!: defined_intros)

lemma defined_resolve [defined_intros]: "defined (resolve_calls T e)"
proof (induction e)
  case (Expr h args)
  then show ?case unfolding resolve_calls.simps by (intro defined_intros)
qed

lemma defined_resolve_transform [defined_intros]: "defined (resolve_transform T t)"
  unfolding resolve_transform_def by (cases t) (auto intro!: defined_intros)

lemma defined_resolve_fn [defined_intros]: "defined (resolve_fn_name T s)"
  unfolding resolve_fn_name_def by (auto split: option.splits intro!: defined_intros)

lemma defined_resolve_head [defined_intros]: "defined (resolve_head T s)"
  unfolding resolve_head_def Let_def by (intro defined_intros)

lemma defined_resolve_stmt: "defined (resolve_calls_stmt T s)"
proof (induction s)
  case (Stmt s body)
  then show ?case unfolding resolve_calls_stmt.simps by (intro defined_intros)
qed

lemma defined_table: "defined (overload_table fs)"
  unfolding overload_table_def by (intro defined_intros) (simp_all add: some_match_eq)

lemma defined_overloads: "defined (resolve_overloads p)"
  unfolding resolve_overloads_def resolve_inputs_def
  by (intro defined_intros defined_table defined_resolve_stmt) (auto intro!: defined_intros)

subsection \<open>Argument vectors stay of one length\<close>

definition lengths_ok :: "MirProgram \<Rightarrow> bool" where
  "lengths_ok p \<longleftrightarrow> list_all same_lengths (fun_defs p)"

lemma list_all2_lengths:
  "list_all2 (\<lambda>d d'. same_lengths d \<longrightarrow> same_lengths d') ds ds' \<Longrightarrow> list_all same_lengths ds \<Longrightarrow> list_all same_lengths ds'"
  by (induction rule: list_all2_induct) auto

lemma map_bodies_lengths: "map_bodies f p = Inr p' \<Longrightarrow> lengths_ok p \<Longrightarrow> lengths_ok p'"
  unfolding map_bodies_def lengths_ok_def
  by (auto simp: map_res_Inr same_lengths_def elim!: list_all2_lengths [rotated] list_all2_mono)

lemma unmangle_lengths: "lengths_ok p \<Longrightarrow> lengths_ok (unmangle p)"
  by (auto simp: lengths_ok_def unmangle_def list_all_iff same_lengths_def unmangle_fun_def)

lemma rename_lengths: "list_all same_lengths fs \<Longrightarrow> list_all same_lengths (rename_functions fs)"
  by (auto simp: rename_functions_def rename_overload_def list_all_iff same_lengths_def)

lemma overloads_lengths:
  assumes "resolve_overloads p = Inr p'" "lengths_ok p"
  shows "lengths_ok p'"
proof -
  from assms(1) obtain T where "p' = p \<or>
      (\<exists>inputs. map_bodies (resolve_calls_stmt T) (p\<lparr>input_vars := inputs, fun_defs := rename_functions (fun_defs p)\<rparr>) = Inr p')"
    unfolding resolve_overloads_def by (auto split: if_splits)
  moreover have "lengths_ok (p\<lparr>input_vars := inputs, fun_defs := rename_functions (fun_defs p)\<rparr>)" for inputs
    using assms(2) by (simp add: lengths_ok_def rename_lengths)
  ultimately show ?thesis using assms(2) map_bodies_lengths by blast
qed

lemma validated_lengths:
  assumes "validate_portable_program R p = None"
  shows "lengths_ok p"
proof -
  have "validate_function_shape R f = None" if "f \<in> set (fun_defs p)" for f
    using assms that by (simp add: validate_portable_program_def validate_program_shape_def first_error_None
        del: first_error_append first_error_Cons)
  then show ?thesis
    by (fastforce simp: lengths_ok_def list_all_iff same_lengths_def validate_function_shape_def Let_def malformed_def
        split: if_splits)
qed

subsection \<open>The checks\<close>

lemma if_not_undefined: "(c \<Longrightarrow> a \<noteq> x) \<Longrightarrow> (\<not> c \<Longrightarrow> b \<noteq> x) \<Longrightarrow> (if c then a else b) \<noteq> x"
  by simp

lemma malformed_not_undefined [simp]: "malformed s \<noteq> Some UndefinedBehaviour"
  by (simp add: malformed_def)

lemma require_not_undefined [simp]:
  "require_arity e n \<noteq> Some UndefinedBehaviour" "require_arity2 e m n \<noteq> Some UndefinedBehaviour"
  by (simp_all add: require_arity_def require_arity2_def)

lemma funapp_not_undefined [simp]: "validate_funapp_arity R e \<noteq> Some UndefinedBehaviour"
proof -
  have "validate_solver_arity R e \<noteq> Some UndefinedBehaviour"
    unfolding validate_solver_arity_def Let_def by (auto split: prod.splits intro!: if_not_undefined)
  then have "(case callable_transform_arity (e_name (e_head e)) of
      Some arity \<Rightarrow> require_arity e arity | None \<Rightarrow> validate_solver_arity R e) \<noteq> Some UndefinedBehaviour"
    by (simp split: option.splits)
  then show ?thesis
    unfolding validate_funapp_arity_def Let_def by (intro if_not_undefined) simp_all
qed

lemma expression_shape_not_undefined: "validate_expression_shape R e \<noteq> Some UndefinedBehaviour"
proof (induction e)
  case (Expr h args)
  have 1: "validate_expression_metadata h \<noteq> Some UndefinedBehaviour" by (simp add: validate_expression_metadata_def)
  have 2: "arity_by_kind R (Expr h args) \<noteq> Some UndefinedBehaviour"
    by (simp add: arity_by_kind_def Let_def split: ExprKind.splits)
  have 3: "first_error [fail_unless (index_descriptor ix) ''index descriptor'', validate_expression_shape R ix] \<noteq> Some UndefinedBehaviour"
    if "ix \<in> set args" for ix
    by (rule first_error_defined) (use Expr.IH [OF that] in simp)
  show ?case
  proof (cases "e_kind h = Expr_Indexed \<and> args = []")
    case True
    then have "arity_by_kind R (Expr h args) = malformed ''Indexed expression arity''"
      by (simp add: arity_by_kind_def fail_unless_def)
    then show ?thesis using 1 by (auto simp: validate_expression_shape.simps malformed_def split: option.split)
  next
    case False
    have "list_all (\<lambda>c. c \<noteq> Some UndefinedBehaviour)
      (if e_kind h = Expr_Indexed
       then (case args of [] \<Rightarrow> [Some UndefinedBehaviour]
         | base # indices \<Rightarrow> validate_expression_shape R base #
             map (\<lambda>ix. first_error [fail_unless (index_descriptor ix) ''index descriptor'', validate_expression_shape R ix]) indices)
       else map (validate_expression_shape R) args)"
      using False 3 Expr.IH by (cases args) (simp_all add: list_all_iff del: first_error_Cons)
    then show ?thesis
      unfolding validate_expression_shape.simps using 1 2
      by (intro first_error_defined) (simp del: first_error_Cons)
  qed
qed

lemma exprs_not_undefined [simp]: "validate_exprs R es \<noteq> Some UndefinedBehaviour"
  unfolding validate_exprs_def by (rule first_error_defined) (simp add: list_all_iff expression_shape_not_undefined)

lemma index_not_undefined [simp]: "validate_index_shape R ix \<noteq> Some UndefinedBehaviour"
  unfolding validate_index_shape_def by (rule first_error_defined) (simp add: expression_shape_not_undefined)

lemma transform_not_undefined [simp]: "validate_transform_shape R t \<noteq> Some UndefinedBehaviour"
  unfolding validate_transform_shape_def by (intro if_not_undefined first_error_defined) simp_all

lemma sized_not_undefined [simp]: "validate_sized_type_shape R t \<noteq> Some UndefinedBehaviour"
  unfolding validate_sized_type_shape_def by (rule first_error_defined) (simp split: option.splits)

lemma statement_shape_not_undefined: "validate_statement_shape R s \<noteq> Some UndefinedBehaviour"
proof (induction s)
  case (Stmt s body)
  have "check_optional (validate_transform_shape R) t \<noteq> Some UndefinedBehaviour" for t
    by (simp add: check_optional_def split: option.splits)
  moreover have "body_arity k n \<noteq> Some UndefinedBehaviour" for k n
    by (simp add: body_arity_def split: StmtKind.splits)
  moreover have "first_error (map (validate_index_shape R) ixs) \<noteq> Some UndefinedBehaviour" for ixs
    by (rule first_error_defined) (simp add: list_all_iff)
  ultimately show ?case
    unfolding validate_statement_shape.simps using Stmt.IH
    by (intro first_error_defined) (simp add: list_all_iff)
qed

lemma shape_not_undefined: "validate_portable_program R p \<noteq> Some UndefinedBehaviour"
proof -
  have c: "check_argument_type type view \<noteq> Some UndefinedBehaviour" for type view
    using defined_spelling [of "type"] by (auto simp: check_argument_type_def defined_def split: sum.split)
  have "validate_function_shape R f \<noteq> Some UndefinedBehaviour" for f
    unfolding validate_function_shape_def Let_def
    by (intro if_not_undefined first_error_defined) (auto simp: statement_shape_not_undefined [THEN not_sym] c [THEN not_sym] list_all_iff)
  then show ?thesis
    unfolding validate_portable_program_def validate_program_shape_def
    by (intro first_error_defined) (simp add: list.pred_map list.pred_True comp_def statement_shape_not_undefined)
qed

lemma defined_validate_program:
  assumes "lengths_ok p"
  shows "defined (validate_program strict p)"
proof -
  have f: "defined (program_functions defs fs)" for defs fs
    by (induction defs fs rule: program_functions.induct) (auto simp del: fun_upd_apply)
  have i: "defined (input_bindings vars \<Gamma>)" for vars \<Gamma>
    by (induction vars \<Gamma> rule: input_bindings.induct)
      (auto intro!: defined_intros simp: declared_view_defined defined_def [of "declared_view _"]
        simp del: fun_upd_apply)
  have fs: "same_lengths_all fs" if "program_functions (fun_defs p) Map.empty = Inr fs" for fs
    using program_functions_Inr [OF that] assms
    by (auto simp: same_lengths_all_def lengths_ok_def list_all_iff ran_def dest!: map_of_SomeD)
  have b: "defined (validate_body fs strict body (\<Gamma>, None))" if "same_lengths_all fs" for fs body \<Gamma>
    using validate_body_defined [OF that] by (simp add: defined_def)
  have a: "defined (argument_bindings f)" if "f \<in> set (fun_defs p)" for f
    using that assms by (auto simp: argument_bindings_def Let_def lengths_ok_def list_all_iff same_lengths_def)
  show ?thesis
    unfolding validate_program_def validate_function_def
    by (intro defined_intros f i b fs a) assumption+
qed


end
