(* ===== verification/MirExamples.thy ===== *)
theory MirExamples
  imports MirSafe
begin

text \<open>
  Concrete programs for the reader: a program with two overloads of a user function, which the
  finalisation accepts, and the same call as the bound of a parameter, which it rejects.
\<close>

section \<open>An accepted program\<close>

definition ex_registry :: Registry where
  "ex_registry = \<lparr>function_registered = (\<lambda>_. False), function_arity_registered = (\<lambda>_ _. False)\<rparr>"

definition ex_numbers :: Numbers where
  "ex_numbers = \<lparr>stol = (\<lambda>_. Inl (InvalidArgument ''stol'')), stod = (\<lambda>_. Inl (InvalidArgument ''stod''))\<rparr>"

definition ex_platform :: Platform where
  "ex_platform = \<lparr>nesting_limit = 256, sizeof_Expr = 248, sizeof_Stmt = 2256, sizeof_FunDef = 152,
     sizeof_UnsizedView = 2, sizeof_bool = 1, sizeof_string = 32, sizeof_input = 160, long_to_double = (\<lambda>_. 0)\<rparr>"

definition ex_view :: "UnsizedLeaf \<Rightarrow> UnsizedView" where
  "ex_view leaf = \<lparr>v_depth = 0, v_leaf = leaf\<rparr>"

definition ex_var :: "string \<Rightarrow> UnsizedLeaf \<Rightarrow> Expr" where
  "ex_var name leaf = Expr (new_expr_head\<lparr>e_kind := Expr_Var, e_name := name, e_type := leaf_spelling leaf,
     e_unsized := ex_view leaf\<rparr>) []"

definition ex_call :: "string \<Rightarrow> Expr" where
  "ex_call name = Expr (new_expr_head\<lparr>e_kind := Expr_FunApp, e_fn_lib := Lib_UserDefined, e_name := name,
     e_type := ''UReal'', e_unsized := ex_view Leaf_Real\<rparr>) [ex_var ''n'' Leaf_Int]"

definition ex_fun :: "string \<Rightarrow> UnsizedLeaf \<Rightarrow> FunDef" where
  "ex_fun name leaf = \<lparr>f_name = name, f_arg_names = [''x''], f_arg_types = [leaf_spelling leaf], f_arg_views = [ex_view leaf],
     f_arg_data_only = [False], f_body = []\<rparr>"

definition ex_decl :: Stmt where
  "ex_decl = Stmt (new_stmt_head\<lparr>st_kind := Stmt_Decl, st_decl_id := ''n'', st_decl_type := new_sized\<lparr>s_base := ''SInt''\<rparr>\<rparr>) []"

definition ex_target :: "string \<Rightarrow> Stmt" where
  "ex_target name = Stmt (new_stmt_head\<lparr>st_kind := Stmt_TargetPE, st_target := ex_call name\<rparr>) []"

definition ex_program :: "FunDef list \<Rightarrow> Stmt list \<Rightarrow> Stmt list \<Rightarrow> MirProgram" where
  "ex_program fs body inits = \<lparr>input_vars = [], prepare_data = [], log_prob = body, generate_quantities = [],
     has_transform_inits = True, transform_inits = inits, fun_defs = fs, output_vars = [], nesting = 2\<rparr>"

lemma ex_finalized:
  "finalize_program ex_platform ex_numbers True (ex_program [ex_fun ''f'' Leaf_Int, ex_fun ''f'' Leaf_Real] [ex_decl, ex_target ''f''] []) =
     Inr (ex_program [ex_fun ''f(int)'' Leaf_Int, ex_fun ''f(real)'' Leaf_Real] [ex_decl, ex_target ''f(int)''] [])"
  by code_simp

definition ex_env :: Bindings where
  "ex_env = [''n'' \<mapsto> \<lparr>b_view = ex_view Leaf_Int, b_declared_data_only = False\<rparr>]"

lemma ex_in_scope:
  "in_scope (ex_program fs [ex_decl, ex_target name] inits) ex_env (ex_target name)"
proof -
  have "after ex_decl Map.empty = ex_env"
    by (simp add: ex_decl_def after_Stmt declare_after_def declared_view_def new_stmt_head_def new_sized_def new_view_def
        ex_env_def ex_view_def Let_def)
  then have "visits Map.empty [ex_decl, ex_target name] ex_env (ex_target name)"
    by (metis visits.here visits.later)
  then show ?thesis
    by (simp add: in_scope_def ex_program_def prepared_env_def input_env_def)
qed


theorem overloads_distinct_witness:
  "distinct (map f_name (rename_functions [ex_fun ''f'' Leaf_Int, ex_fun ''f'' Leaf_Real, ex_fun ''g'' Leaf_Int]))"
proof (rule overloads_distinct)
  show "overload_table [ex_fun ''f'' Leaf_Int, ex_fun ''f'' Leaf_Real, ex_fun ''g'' Leaf_Int] =
      Inr [(''f'', [ex_fun ''f(int)'' Leaf_Int, ex_fun ''f(real)'' Leaf_Real])]"
    by code_simp
qed (simp add: ex_fun_def ex_view_def depths_ok_def)


section \<open>The bound of a parameter\<close>

text \<open>The write of a parameter whose transform is given.\<close>

definition ex_write :: "Expr \<Rightarrow> Stmt" where
  "ex_write bound = Stmt (new_stmt_head\<lparr>st_kind := Stmt_NRFunApp, st_fn_name := ''FnWriteParam'',
     st_fn_args := [ex_var ''p'' Leaf_Real], st_write_transform := Some \<lparr>t_kind = Tr_Lower, t_args = [bound], t_raw = []\<rparr>\<rparr>) []"

definition ex_read :: "Expr \<Rightarrow> Stmt" where
  "ex_read bound = Stmt (new_stmt_head\<lparr>st_kind := Stmt_Decl, st_decl_id := ''p'', st_decl_type := new_sized\<lparr>s_base := ''SReal''\<rparr>,
     st_read_transform := Some \<lparr>t_kind = Tr_Lower, t_args = [bound], t_raw = []\<rparr>\<rparr>) []"

definition ex_overloaded :: MirProgram where
  "ex_overloaded = ex_program [ex_fun ''f'' Leaf_Int, ex_fun ''f'' Leaf_Real]
     [ex_decl, ex_read (ex_call ''f'')] [ex_decl, ex_write (ex_call ''f'')]"

text \<open>A program the structural check accepts and the finalisation rejects.\<close>

theorem overloaded_bound_rejected_witness:
  "validate_portable_program ex_registry ex_overloaded = None \<and>
   (\<exists>err. finalize_program ex_platform ex_numbers True ex_overloaded = Inl err)"
proof
  show "validate_portable_program ex_registry ex_overloaded = None" by code_simp
  show "\<exists>err. finalize_program ex_platform ex_numbers True ex_overloaded = Inl err"
  proof (rule overloaded_bound_rejected)
    show "and_then (read_jacobians ex_platform ex_numbers ex_overloaded)
        (\<lambda>p. map_bodies (restore_unsized_decls True) (unmangle p)) = Inr ex_overloaded"
      by code_simp
    show "is_overloaded (fun_defs ex_overloaded) ''f''" by code_simp
    show "\<forall>f \<in> set (fun_defs ex_overloaded). CHR ''('' \<notin> set (f_name f)" by code_simp
    show "ex_write (ex_call ''f'') \<in> set (program_statements ex_overloaded)"
      by (simp add: program_statements_def ex_overloaded_def ex_program_def)
    show "ex_write (ex_call ''f'') \<in> set (statements (ex_write (ex_call ''f'')))" by (simp add: ex_write_def)
    show "ex_call ''f'' \<in> set (transform_args (st_write_transform (st_head (ex_write (ex_call ''f'')))))"
      by (simp add: ex_write_def transform_args_def)
    show "ex_call ''f'' \<in> set (subexprs (ex_call ''f''))" by (simp add: ex_call_def)
  qed (simp_all add: ex_call_def)
qed

text \<open>The message, and the same program accepted without the write, and with the write when the function has one
  definition.\<close>

lemma overloaded_bound_runs:
  "finalize_program ex_platform ex_numbers True ex_overloaded =
     Inl (RuntimeError ''mir: call to unknown user function f'')"
  "finalize_program ex_platform ex_numbers True (ex_program [ex_fun ''f'' Leaf_Int, ex_fun ''f'' Leaf_Real]
      [ex_decl, ex_read (ex_call ''f'')] []) =
     Inr (ex_program [ex_fun ''f(int)'' Leaf_Int, ex_fun ''f(real)'' Leaf_Real] [ex_decl, ex_read (ex_call ''f(int)'')] [])"
  "finalize_program ex_platform ex_numbers True (ex_program [ex_fun ''f'' Leaf_Int]
      [ex_decl, ex_read (ex_call ''f'')] [ex_decl, ex_write (ex_call ''f'')]) =
     Inr (ex_program [ex_fun ''f'' Leaf_Int] [ex_decl, ex_read (ex_call ''f'')] [ex_decl, ex_write (ex_call ''f'')])"
  by code_simp+

text \<open>The structural check looks at the transform of a read and not at the transform of a write, so an
  expression without its operands gets through in the one place and not in the other.\<close>

definition ex_ternary :: Expr where
  "ex_ternary = Expr (new_expr_head\<lparr>e_kind := Expr_TernaryIf\<rparr>) []"

theorem write_transform_unchecked:
  "validate_portable_program ex_registry (ex_program [] [] [ex_write ex_ternary]) = None \<and>
   validate_portable_program ex_registry (ex_program [] [] [ex_read ex_ternary]) =
     Some (RuntimeError ''mir: malformed TernaryIf expression arity'')"
  by code_simp

end
