(* ===== verification/AdjointRules.thy ===== *)
theory AdjointRules
  imports ProgramSpans
begin

unbundle bit_operations_syntax

text \<open>
  The generated adjoint of a register program: its instructions, and the interpreter that runs them
  (\<^verbatim>\<open>runtime/include/stanli/adjoint.hpp\<close>, \<^verbatim>\<open>runtime/include/stanli/adjoint_rules.hpp\<close> and \<^verbatim>\<open>run_adjoint\<close> of
  \<^verbatim>\<open>runtime/src/adjoint.cpp\<close>). A rule is the ordered list of the accumulations it performs, so that the order
  in which contributions reach a cell, on which the last bits of a sum depend, is part of the model: nothing
  here assumes that addition is associative or commutative. The Stan Math and library functions of the rules,
  the partials of a density and the backward of a graph kernel are the parameter record \<open>rules\<close>.
\<close>

section \<open>Adjoint programs\<close>

record AdjInstr =
  A_code :: Code
  A_mask :: "8 word"
  A_sub :: Code
  A_bcast :: "8 word"
  A_dst :: int
  A_a :: int
  A_b :: int
  A_c :: int
  A_len :: int
  A_vd :: int
  A_va :: int
  A_vb :: int
  A_vc :: int

record AdjProgram =
  adj_code :: "AdjInstr list"
  segments :: "(int \<times> int) list"      \<comment> \<open>\<^verbatim>\<open>begin, end\<close>\<close>
  trail :: int
  adj_reg :: "int list"
  adj_n_regs :: int

section \<open>Accumulations\<close>

text \<open>What a rule does to one adjoint cell: \<^verbatim>\<open>+=\<close>, \<^verbatim>\<open>-=\<close>, or the assignment of a quiet NaN.\<close>

datatype 'd accum = Plus 'd | Minus 'd | Poison

text \<open>Which of a kernel's value buffers its backward may read.\<close>

record BackwardPrimalReads =
  input_mask :: "8 word"
  output_mask :: "8 word"

definition reads_input :: "BackwardPrimalReads \<Rightarrow> nat \<Rightarrow> bool" where
  "reads_input r i \<longleftrightarrow> i \<ge> 6 \<or> bit (input_mask r) i"

definition reads_output :: "BackwardPrimalReads \<Rightarrow> bool" where
  "reads_output r \<longleftrightarrow> bit (output_mask r) 0"

definition reads_every_primal :: BackwardPrimalReads where
  "reads_every_primal = \<lparr>input_mask = 0x3f, output_mask = 0x03\<rparr>"

text \<open>
  \<open>r_partials id dmask args\<close> is \<^verbatim>\<open>program_density_partials\<close>: \<open>None\<close> when Stan Math built no edge. \<open>r_backward\<close>
  is a graph kernel's backward: from the values of its inputs, output and scratch and the output's adjoints,
  the accumulations into the elements of its inputs, in order. \<open>r_primal_reads\<close> is the contract registered for
  an opcode and variant, and \<open>r_canonical\<close> whether a call's backward is the registered one.
\<close>

record ('d, 'u) rules =
  r_log :: "'d \<Rightarrow> 'd"
  r_sqrt :: "'d \<Rightarrow> 'd"
  r_cosh :: "'d \<Rightarrow> 'd"
  r_inv_logit :: "'d \<Rightarrow> 'd"
  r_expm1 :: "'d \<Rightarrow> 'd"
  r_std_expm1 :: "'d \<Rightarrow> 'd"
  r_isnan :: "'d \<Rightarrow> bool"
  r_nan :: 'd
  r_half :: 'd
  r_two_over_sqrt_pi :: 'd
  r_partials :: "int \<Rightarrow> 8 word \<Rightarrow> 'd list \<Rightarrow> 'd list option"
  r_backward :: "'u Call \<Rightarrow> 'd list list \<Rightarrow> 'd list \<Rightarrow> 'd list \<Rightarrow> 'd list \<Rightarrow> (nat \<times> int \<times> 'd accum) list"
  r_primal_reads :: "nat \<Rightarrow> (nat \<Rightarrow> BackwardPrimalReads) option"
  r_canonical :: "'u Call \<Rightarrow> bool"

definition apply_accum :: "('d, 'u, 'w) num \<Rightarrow> ('d, 'u) rules \<Rightarrow> 'd accum \<Rightarrow> 'd \<Rightarrow> 'd" where
  "apply_accum N R acc x = (case acc of Plus v \<Rightarrow> n_add N x v | Minus v \<Rightarrow> n_sub N x v | Poison \<Rightarrow> r_nan R)"

text \<open>An accumulation names an operand and an element of it; \<open>cell\<close> says where that one's adjoint lives.\<close>

type_synonym 'd pull = "nat \<times> int \<times> 'd accum"

definition accumulate :: "('d, 'u, 'w) num \<Rightarrow> ('d, 'u) rules \<Rightarrow> (nat \<Rightarrow> int \<Rightarrow> 'n) \<Rightarrow> 'd pull list \<Rightarrow> ('n \<Rightarrow> 'd) \<Rightarrow> 'n \<Rightarrow> 'd" where
  "accumulate N R cell pulls adj =
     foldl (\<lambda>adj (k, j, acc). adj(cell k j := apply_accum N R acc (adj (cell k j)))) adj pulls"

lemma accumulate_simps [simp]:
  "accumulate N R cell [] adj = adj"
  "accumulate N R cell ((k, j, acc) # pulls) adj =
     accumulate N R cell pulls (adj(cell k j := apply_accum N R acc (adj (cell k j))))"
  by (simp_all add: accumulate_def)

lemma accumulate_append: "accumulate N R cell (xs @ ys) adj = accumulate N R cell ys (accumulate N R cell xs adj)"
  by (simp add: accumulate_def)

lemma accumulate_other:
  "\<forall>(k, j, acc) \<in> set pulls. cell k j \<noteq> x \<Longrightarrow> accumulate N R cell pulls adj x = adj x"
proof (induction pulls arbitrary: adj)
  case (Cons q pulls)
  obtain k j acc where q: "q = (k, j, acc)" by (cases q)
  with Cons show ?case by auto
qed simp

section \<open>The rules\<close>

definition pow_zero_base_partial :: "('d, 'u, 'w) num \<Rightarrow> ('d, 'u) rules \<Rightarrow> 8 word \<Rightarrow> 'd \<Rightarrow> 'd \<Rightarrow> 'd \<Rightarrow> 'd" where
  "pow_zero_base_partial N R law seed base exponent =
     (if law = 0 then n_of_int N 0
      else if n_eq N exponent (n_of_int N 1) then seed
      else if n_eq N exponent (n_of_int N (-1)) then n_div N (n_neg N seed) (n_mul N base base)
      else if n_eq N exponent (n_of_int N (-2)) then
        (if law = 2 then r_nan R
         else n_div N (n_mul N (n_of_int N (-2)) seed) (n_mul N (n_mul N base base) base))
      else if n_eq N exponent (n_neg N (r_half R)) then
        n_div N (n_mul N (n_neg N (r_half R)) seed) (n_mul N base (r_sqrt R base))
      else n_of_int N 0)"

definition pow_rule :: "('d, 'u, 'w) num \<Rightarrow> ('d, 'u) rules \<Rightarrow> 8 word \<Rightarrow> 'd \<Rightarrow> 'd \<Rightarrow> 'd \<Rightarrow> 'd \<Rightarrow> (nat \<times> 'd accum) list" where
  "pow_rule N R law t va vb vd =
     (if n_eq N va (n_of_int N 0) then [(0, Plus (pow_zero_base_partial N R law t va vb))]
      else let m = n_mul N t vd in
        [(0, Plus (n_div N (n_mul N m vb) va)), (1, Plus (n_mul N m (r_log R va)))])"

definition extremum_rule :: "('d, 'u, 'w) num \<Rightarrow> ('d, 'u) rules \<Rightarrow> bool \<Rightarrow> 8 word \<Rightarrow> 'd \<Rightarrow> 'd \<Rightarrow> 'd \<Rightarrow> (nat \<times> 'd accum) list" where
  "extremum_rule N R maximum law t x y =
     (let a_active = (law = 0 \<or> bit law 0); b_active = (law = 0 \<or> bit law 1) in
      if r_isnan R x \<and> r_isnan R y then
        (if a_active then [(0, Poison)] else []) @ (if b_active then [(1, Poison)] else [])
      else if r_isnan R y then (if a_active then [(0, Plus t)] else [])
      else if r_isnan R x then (if b_active then [(1, Plus t)] else [])
      else
        let a_wins = (if a_active \<and> \<not> b_active
                      then if maximum then n_lt N y x \<or> n_eq N x y else n_lt N x y \<or> n_eq N x y
                      else if maximum then n_lt N y x else n_lt N x y)
        in if a_wins then (if a_active then [(0, Plus t)] else []) else if b_active then [(1, Plus t)] else [])"

definition fabs_rule :: "('d, 'u, 'w) num \<Rightarrow> ('d, 'u) rules \<Rightarrow> 'd \<Rightarrow> 'd \<Rightarrow> (nat \<times> 'd accum) list" where
  "fabs_rule N R t x =
     (if r_isnan R x then [(0, Poison)]
      else if n_lt N (n_of_int N 0) x then [(0, Plus t)]
      else if n_lt N x (n_of_int N 0) then [(0, Minus t)]
      else [])"

definition lse2_rule :: "('d, 'u, 'w) num \<Rightarrow> ('d, 'u) rules \<Rightarrow> 'd \<Rightarrow> 'd \<Rightarrow> 'd \<Rightarrow> (nat \<times> 'd accum) list" where
  "lse2_rule N R t va vb =
     [(0, Plus (n_mul N t (r_inv_logit R (n_sub N va vb)))), (1, Plus (n_mul N t (r_inv_logit R (n_sub N vb va))))]"

definition log_diff_exp_rule :: "('d, 'u, 'w) num \<Rightarrow> ('d, 'u) rules \<Rightarrow> 'd \<Rightarrow> 'd \<Rightarrow> 'd \<Rightarrow> (nat \<times> 'd accum) list" where
  "log_diff_exp_rule N R t va vb =
     [(0, Minus (n_div N t (r_expm1 R (n_sub N vb va)))), (1, Minus (n_div N t (r_expm1 R (n_sub N va vb))))]"

definition lmultiply_rule :: "('d, 'u, 'w) num \<Rightarrow> ('d, 'u) rules \<Rightarrow> 'd \<Rightarrow> 'd \<Rightarrow> 'd \<Rightarrow> (nat \<times> 'd accum) list" where
  "lmultiply_rule N R t va vb = [(0, Plus (n_mul N t (r_log R vb))), (1, Plus (n_div N (n_mul N t va) vb))]"

text \<open>The helper of \<^verbatim>\<open>log_mix_rule\<close>: \<^verbatim>\<open>one_m_exp\<close>, \<^verbatim>\<open>one_m_t_prod\<close> and \<^verbatim>\<open>one_d\<close>.\<close>

definition log_mix_helper :: "('d, 'u, 'w) num \<Rightarrow> 'd \<Rightarrow> 'd \<Rightarrow> 'd \<Rightarrow> 'd \<times> 'd \<times> 'd" where
  "log_mix_helper N th la lb =
     (let one = n_of_int N 1; e = n_std_exp N (n_sub N lb la); prod = n_mul N (n_sub N one th) e
      in (n_sub N one e, prod, n_div N one (n_add N th prod)))"

definition log_mix_rule :: "('d, 'u, 'w) num \<Rightarrow> 'd \<Rightarrow> 'd \<Rightarrow> 'd \<Rightarrow> 'd \<Rightarrow> (nat \<times> 'd accum) list" where
  "log_mix_rule N t va vb vc =
     (let (one_m_exp, one_m_t_prod, one_d, theta_d) =
        (if n_lt N vc vb then
           let (e, p, d) = log_mix_helper N va vb vc in (e, p, d, va)
         else
           let one_m_theta = n_sub N (n_of_int N 1) va; (e, p, d) = log_mix_helper N one_m_theta vc vb
           in (n_neg N e, one_m_theta, d, p))
      in [(2, Plus (n_mul N t (n_mul N one_m_t_prod one_d))), (1, Plus (n_mul N t (n_mul N theta_d one_d))),
          (0, Plus (n_mul N t (n_mul N one_m_exp one_d)))])"

definition div_partials_replay :: "('d, 'u, 'w) num \<Rightarrow> 'd \<Rightarrow> 'd \<Rightarrow> 'd \<Rightarrow> 'd \<times> 'd" where
  "div_partials_replay N u a b = (n_div N u b, n_div N (n_neg N (n_mul N u a)) (n_mul N b b))"

definition div_partials :: "('d, 'u, 'w) num \<Rightarrow> 'd \<Rightarrow> 'd \<Rightarrow> 'd \<Rightarrow> 'd \<times> 'd" where
  "div_partials N u b out = (let ret = n_div N u b in (ret, n_mul N (n_neg N out) ret))"

definition kDivSafeGrouping :: "8 word" where "kDivSafeGrouping = 1"

text \<open>\<^verbatim>\<open>STANLI_PROGRAM_UNARY_LIST\<close>: a rule reads its output when \<^verbatim>\<open>from_out\<close>, its operand otherwise. The
  registry's pullbacks (\<^verbatim>\<open>STANLI_NATIVE_PULLBACK\<close>) are all chained ones here.\<close>

definition unary_rule :: "('d, 'u, 'w) num \<Rightarrow> ('d, 'u) rules \<Rightarrow> Code \<Rightarrow> 'd \<Rightarrow> 'd \<Rightarrow> 'd \<Rightarrow> (nat \<times> 'd accum) list" where
  "unary_rule N R c seed x y =
     (let one = n_of_int N 1; two = n_of_int N 2;
          native = (\<lambda>delta. if unary_has_pullback (\<lambda>v. n_eq N v (n_of_int N 0)) Chained x then [(0, Plus delta)] else [])
      in case c of
        P_EXP \<Rightarrow> [(0, Plus (n_mul N seed y))]
      | P_LOG \<Rightarrow> [(0, Plus (n_div N seed x))]
      | P_SQRT \<Rightarrow> (if \<not> n_eq N y (n_of_int N 0) then [(0, Plus (n_div N seed (n_mul N two y)))] else [])
      | P_SQUARE \<Rightarrow> [(0, Plus (n_mul N (n_mul N seed two) x))]
      | P_INV \<Rightarrow> native (n_neg N (n_div N seed (n_mul N x x)))
      | P_FABS \<Rightarrow> fabs_rule N R seed x
      | P_INV_LOGIT \<Rightarrow> [(0, Plus (n_mul N (n_mul N seed y) (n_sub N one y)))]
      | P_LOG1M \<Rightarrow> [(0, Plus (n_div N seed (n_sub N x one)))]
      | P_LOG1P_EXP \<Rightarrow> native (n_mul N seed (r_inv_logit R x))
      | P_TANH \<Rightarrow> (let ch = r_cosh R x in [(0, Plus (n_div N seed (n_mul N ch ch)))])
      | P_ERFC \<Rightarrow> native (n_neg N (n_mul N seed (n_mul N (r_two_over_sqrt_pi R) (n_std_exp N (n_mul N (n_neg N x) x)))))
      | P_LOG1P \<Rightarrow> native (n_div N seed (n_add N one x))
      | P_LOG1M_EXP \<Rightarrow> native (n_neg N (n_div N seed (r_std_expm1 R (n_neg N x))))
      | P_INV_SQUARE \<Rightarrow> native (n_neg N (n_div N (n_mul N two seed) (n_mul N (n_mul N x x) x)))
      | _ \<Rightarrow> [])"

text \<open>The rules of one element, shared by the scalar sweep and \<^verbatim>\<open>ranged_step\<close>: \<open>t\<close> is the output adjoint, \<open>x\<close>,
  \<open>y\<close> and \<open>z\<close> the operand values and \<open>d\<close> the output value.\<close>

definition elem_rule :: "('d, 'u, 'w) num \<Rightarrow> ('d, 'u) rules \<Rightarrow> Code \<Rightarrow> 8 word \<Rightarrow> 'd \<Rightarrow> 'd \<Rightarrow> 'd \<Rightarrow> 'd \<Rightarrow> 'd
    \<Rightarrow> (nat \<times> 'd accum) list" where
  "elem_rule N R c law t x y z d =
     (if c = P_ADD then [(0, Plus t), (1, Plus t)]
      else if c = P_SUB then [(0, Plus t), (1, Minus t)]
      else if c = P_MUL then [(0, Plus (n_mul N y t)), (1, Plus (n_mul N x t))]
      else if c = P_FMA then [(0, Plus (n_mul N y t)), (1, Plus (n_mul N x t)), (2, Plus t)]
      else if c = P_DIV then
        let (da, db) = (if law = kDivSafeGrouping then div_partials N t y d else div_partials_replay N t x y)
        in [(0, Plus da), (1, Plus db)]
      else if c = P_POW then pow_rule N R law t x y d
      else if c = P_FMAX then extremum_rule N R True law t x y
      else if c = P_FMIN then extremum_rule N R False law t x y
      else if c = P_NEG then [(0, Minus t)]
      else if c \<in> STANLI_PROGRAM_UNARY_LIST then unary_rule N R c t x d
      else if c = P_LSE2 then lse2_rule N R t x y
      else if c = P_LOG_DIFF_EXP then log_diff_exp_rule N R t x y
      else if c = P_LMULTIPLY then lmultiply_rule N R t x y
      else if c = P_LOG_MIX then log_mix_rule N t x y z
      else [])"

text \<open>
  The accumulations of an instruction with one output adjoint \<open>t\<close>. \<open>va\<close>, \<open>vb\<close>, \<open>vc\<close> and \<open>vd\<close> read the values of
  the operands and of the output by element; \<open>mask\<close> is the activity of a density's arguments.
\<close>

definition density_pulls :: "('d, 'u, 'w) num \<Rightarrow> ('d, 'u) rules \<Rightarrow> int \<Rightarrow> 8 word
    \<Rightarrow> (int \<Rightarrow> 'd) \<Rightarrow> (int \<Rightarrow> 'd) \<Rightarrow> (int \<Rightarrow> 'd) \<Rightarrow> 'd \<Rightarrow> 'd pull list" where
  "density_pulls N R dens dmask va vb vc t =
     (let ar = nat (program_density_arity dens) in
      if dmask = 0 then []
      else if ar > 3 then
        (case r_partials R dens dmask (map (\<lambda>k. va (int k)) [0..<ar]) of
           None \<Rightarrow> []
         | Some part \<Rightarrow> concat (map (\<lambda>k. if bit dmask k then [(0, int k, Plus (n_mul N t (part ! k)))] else []) (rev [0..<ar])))
      else
        (case r_partials R dens dmask (take ar [va 0, vb 0, vc 0]) of
           None \<Rightarrow> []
         | Some part \<Rightarrow>
             (if ar > 2 \<and> bit dmask 2 then [(2, 0, Plus (n_mul N t (part ! 2)))] else [])
             @ (if ar > 1 \<and> bit dmask 1 then [(1, 0, Plus (n_mul N t (part ! 1)))] else [])
             @ (if bit dmask 0 then [(0, 0, Plus (n_mul N t (part ! 0)))] else [])))"

definition scalar_pulls :: "('d, 'u, 'w) num \<Rightarrow> ('d, 'u) rules \<Rightarrow> Code \<Rightarrow> 8 word \<Rightarrow> int
    \<Rightarrow> (int \<Rightarrow> 'd) \<Rightarrow> (int \<Rightarrow> 'd) \<Rightarrow> (int \<Rightarrow> 'd) \<Rightarrow> (int \<Rightarrow> 'd) \<Rightarrow> 'd \<Rightarrow> 'd pull list" where
  "scalar_pulls N R c dmask l va vb vc vd t =
     (if c = P_MOV then [(0, 0, Plus t)]
      else if c = P_DOT then
        concat (map (\<lambda>k. [(0, k, Plus (n_mul N t (vb k))), (1, k, Plus (n_mul N t (va k)))]) [0..l - 1])
      else if c = P_LSE_RANGE then
        map (\<lambda>k. (0, k, Plus (n_mul N t (n_std_exp N (n_sub N (va k) (vd 0)))))) [0..l - 1]
      else if c = P_DENSITY then density_pulls N R l dmask va vb vc t
      else if c = P_DYN_INDEX then [(0, n_int N (vb 0) - 1, Plus t)]
      else map (\<lambda>(k, acc). (k, 0, acc)) (elem_rule N R c (word_of_int l) t (va 0) (vb 0) (vc 0) (vd 0)))"

text \<open>The accumulations of element \<open>k\<close> of an instruction with a range of outputs, whose adjoint there is \<open>u\<close>. The
  reduction of \<^verbatim>\<open>SOFTMAX\<close>, taken once, is \<open>d\<close>.\<close>

definition stride :: "Code \<Rightarrow> 8 word \<Rightarrow> nat \<Rightarrow> int" where
  "stride rule bcast k =
     (if bit bcast k \<or> k = 1 \<and> \<not> has (program_code_spec rule) kProgramReadB
        \<or> k = 2 \<and> \<not> has (program_code_spec rule) kProgramReadC then 0 else 1)"

definition ranged_pulls :: "('d, 'u, 'w) num \<Rightarrow> ('d, 'u) rules \<Rightarrow> Code \<Rightarrow> Code \<Rightarrow> 8 word \<Rightarrow> 8 word
    \<Rightarrow> (int \<Rightarrow> 'd) \<Rightarrow> (int \<Rightarrow> 'd) \<Rightarrow> (int \<Rightarrow> 'd) \<Rightarrow> (int \<Rightarrow> 'd) \<Rightarrow> 'd \<Rightarrow> int \<Rightarrow> 'd \<Rightarrow> 'd pull list" where
  "ranged_pulls N R c sub law bcast va vb vc vd d k u =
     (if c = P_MOVR then [(0, k, Plus u)]
      else if c = P_LOG_RANGE then [(0, k, Plus (n_div N u (va k)))]
      else if c = P_EXP_RANGE then [(0, k, Plus (n_mul N u (vd k)))]
      else if c = P_SOFTMAX then [(0, k, Plus (n_mul N (vd k) (n_sub N u d)))]
      else
        let s = stride sub bcast in
        map (\<lambda>(q, acc). (q, s q * k, acc))
          (elem_rule N R sub law u (va (s 0 * k)) (vb (s 1 * k)) (vc (s 2 * k)) (vd k)))"

definition softmax_dot :: "('d, 'u, 'w) num \<Rightarrow> (int \<Rightarrow> 'd) \<Rightarrow> (int \<Rightarrow> 'd) \<Rightarrow> int \<Rightarrow> 'd" where
  "softmax_dot N p oa l = foldl (\<lambda>d k. n_add N d (n_mul N (p k) (oa k))) (n_mul N (p 0) (oa 0)) [1..l - 1]"

section \<open>The interpreter\<close>

definition adj_cell :: "AdjInstr \<Rightarrow> nat \<Rightarrow> int \<Rightarrow> int" where
  "adj_cell I k j = (if k = 0 then A_a I else if k = 1 then A_b I else A_c I) + j"

text \<open>An element consumes its own output cell before its accumulations (the loops of the coincident ranges, of
  \<^verbatim>\<open>SOFTMAX\<close> and of \<^verbatim>\<open>ranged_step\<close>), or the whole range is added and then cleared (the Eigen expressions of the
  disjoint ranges).\<close>

definition take_each :: "('d, 'u, 'w) num \<Rightarrow> ('d, 'u) rules \<Rightarrow> AdjInstr \<Rightarrow> (int \<Rightarrow> 'd \<Rightarrow> 'd pull list) \<Rightarrow> 'd regs \<Rightarrow> 'd regs" where
  "take_each N R I f adj =
     foldl (\<lambda>adj k. let u = adj (A_dst I + k)
                     in accumulate N R (adj_cell I) (f k u) (adj(A_dst I + k := n_of_int N 0)))
       adj [0..A_len I - 1]"

definition add_then_clear :: "('d, 'u, 'w) num \<Rightarrow> ('d, 'u) rules \<Rightarrow> AdjInstr \<Rightarrow> (int \<Rightarrow> 'd \<Rightarrow> 'd pull list) \<Rightarrow> 'd regs \<Rightarrow> 'd regs" where
  "add_then_clear N R I f adj =
     fill_n (A_dst I) (A_len I) (n_of_int N 0)
       (foldl (\<lambda>adj k. accumulate N R (adj_cell I) (f k (adj (A_dst I + k))) adj) adj [0..A_len I - 1])"

definition ranged_step :: "('d, 'u, 'w) num \<Rightarrow> ('d, 'u) rules \<Rightarrow> AdjInstr \<Rightarrow> 'd regs \<Rightarrow> 'd regs \<Rightarrow> std_error + 'd regs" where
  "ranged_step N R I val adj =
     (if \<not> ranged (A_sub I) then Inl (LogicError ''ranged_step: unknown sub-opcode'')
      else Inr (take_each N R I
        (ranged_pulls N R P_RANGE (A_sub I) (A_mask I) (A_bcast I) (\<lambda>k. val (A_va I + k)) (\<lambda>k. val (A_vb I + k))
           (\<lambda>k. val (A_vc I + k)) (\<lambda>k. val (A_vd I + k)) (n_of_int N 0)) adj))"

definition call_pulls :: "('d, 'u) rules \<Rightarrow> 'u Call \<Rightarrow> 'd list list \<Rightarrow> 'd list \<Rightarrow> 'd list \<Rightarrow> 'd list \<Rightarrow> 'd pull list" where
  "call_pulls R c xs v sc ts = filter (\<lambda>(k, _, _). bit (c_input_adjoint_mask c) k) (r_backward R (call_static c) xs v sc ts)"

definition call_step :: "('d, 'u, 'w) num \<Rightarrow> ('d, 'u) rules \<Rightarrow> 'u Call \<Rightarrow> 'd regs \<Rightarrow> 'd regs \<Rightarrow> 'd regs" where
  "call_step N R c val adj =
     (let xs = map2 (\<lambda>v s. rd val (v, snd s)) (c_bwd_value_in c) (c_in c);
          v = rd val (c_bwd_value_out c, snd (c_out c));
          ts = rd adj (c_bwd_adj_out c, snd (c_out c))
      in fill_n (c_bwd_adj_out c) (snd (c_out c)) (n_of_int N 0)
           (accumulate N R (\<lambda>k j. c_bwd_adj_in c ! k + j) (call_pulls R c xs v (rd val (c_scratch c)) ts) adj))"

definition adjoint_step :: "('d, 'u, 'w) num \<Rightarrow> ('d, 'u) rules \<Rightarrow> ('d, 'u) Program \<Rightarrow> 'd regs \<Rightarrow> AdjInstr \<Rightarrow> 'd regs \<Rightarrow> std_error + 'd regs" where
  "adjoint_step N R fwd val I adj =
     (let c = A_code I; d = A_dst I; zero = n_of_int N 0;
          va = (\<lambda>k. val (A_va I + k)); vb = (\<lambda>k. val (A_vb I + k)); vc = (\<lambda>k. val (A_vc I + k)); vd = (\<lambda>k. val (A_vd I + k));
          pulls = ranged_pulls N R c (A_sub I) (A_mask I) (A_bcast I) va vb vc vd
      in
      if c = P_CALL then Inr (call_step N R (calls fwd ! nat (A_a I)) val adj)
      else if c \<in> {P_FILL, P_CONSTR} then Inr (fill_n d (A_len I) zero adj)
      else if c \<in> {P_MOVR, P_LOG_RANGE, P_EXP_RANGE} then
        Inr (if A_a I = d then take_each N R I (pulls zero) adj else add_then_clear N R I (pulls zero) adj)
      else if c = P_SOFTMAX then
        Inr (take_each N R I (pulls (softmax_dot N vd (\<lambda>k. adj (d + k)) (A_len I))) adj)
      else if c = P_RANGE then ranged_step N R I val adj
      else if c \<in> {P_DYN_SET, P_DYN_LSE_RANGE, P_EXTREMA_RANGE, P_JZ, P_JMP, P_DIAG_PRE_MULTIPLY, P_DIAG_POST_MULTIPLY,
                   P_MDIVIDE_LEFT, P_MDIVIDE_RIGHT_SPD, P_TRANSFORM, P_PRINT, P_REJECT, P_DENSITY_VEC, P_PATH} then Inr adj
      else
        Inr (accumulate N R (adj_cell I) (scalar_pulls N R c (A_mask I) (A_len I) va vb vc vd (adj d)) (adj(d := zero))))"

fun run_segment :: "('d, 'u, 'w) num \<Rightarrow> ('d, 'u) rules \<Rightarrow> ('d, 'u) Program \<Rightarrow> 'd regs \<Rightarrow> AdjInstr list \<Rightarrow> 'd regs
    \<Rightarrow> std_error + 'd regs" where
  "run_segment N R fwd val [] adj = Inr adj"
| "run_segment N R fwd val (I # Is) adj = bind_res (adjoint_step N R fwd val I adj) (run_segment N R fwd val Is)"

text \<open>The trail holds the number of taken segments and then their indices, in the order they ran forward.\<close>

fun run_trail :: "('d, 'u, 'w) num \<Rightarrow> ('d, 'u) rules \<Rightarrow> ('d, 'u) Program \<Rightarrow> AdjProgram \<Rightarrow> 'd regs \<Rightarrow> nat \<Rightarrow> 'd regs
    \<Rightarrow> std_error + 'd regs" where
  "run_trail N R fwd ap val 0 adj = Inr adj"
| "run_trail N R fwd ap val (Suc k) adj =
     (let (b, e) = segments ap ! nat (n_int N (val (trail ap + 1 + int k)))
      in bind_res (run_segment N R fwd val (map (\<lambda>pc. adj_code ap ! nat pc) [b..e - 1]) adj)
           (run_trail N R fwd ap val k))"

definition run_adjoint :: "('d, 'u, 'w) num \<Rightarrow> ('d, 'u) rules \<Rightarrow> ('d, 'u) Program \<Rightarrow> AdjProgram \<Rightarrow> 'd regs \<Rightarrow> 'd regs
    \<Rightarrow> std_error + 'd regs" where
  "run_adjoint N R fwd ap val adj =
     (if segments ap = [] then run_segment N R fwd val (adj_code ap) adj
      else run_trail N R fwd ap val (nat (n_int N (val (trail ap)))) adj)"

end
