(* ===== verification/AdjointGen.thy ===== *)
theory AdjointGen
  imports AdjointRules
begin

unbundle bit_operations_syntax

text \<open>
  \<^verbatim>\<open>gen_adjoint\<close> of \<^verbatim>\<open>runtime/src/adjoint.cpp\<close>: the checks that refuse a program, the analyses (writes, needed
  registers, definite initialisation over forward branches, activity, copies that share an adjoint cell), the
  instrumented forward program with its checkpoints and its trail of taken segments, and the adjoint program.
  The bit sets and flag vectors of the source are sets and functions of registers. \<open>keep\<close> is
  \<^verbatim>\<open>keep_every_clear\<close>, \<open>nomask\<close> whether \<^verbatim>\<open>STANLI_NO_DENSITY_MASK\<close> is set.
\<close>

section \<open>Islands\<close>

record LiveIn =
  li_reg :: int
  li_len :: int
  li_input :: int
  li_offset :: int
  li_active :: bool
  li_immutable :: bool

record ('d, 'u) IslandProg =
  isl_prog :: "('d, 'u) Program"
  isl_ins :: "LiveIn list"
  isl_adj :: AdjProgram
  native_adj :: bool
  replay_initialized :: "bool option"

definition li_span :: "LiveIn \<Rightarrow> span" where
  "li_span li = (li_reg li, li_len li)"

section \<open>The program is differentiable\<close>

definition in_range :: "('d, 'u) Program \<Rightarrow> span \<Rightarrow> bool" where
  "in_range p s \<longleftrightarrow> fst s \<ge> 0 \<and> snd s \<ge> 0 \<and> fst s \<le> n_regs p \<and> snd s \<le> n_regs p - fst s"

definition call_bound :: "('d, 'u) Program \<Rightarrow> Instr \<Rightarrow> bool" where
  "call_bound p I \<longleftrightarrow> i_a I \<ge> 0 \<and> nat (i_a I) < length (calls p) \<and>
     (let c = calls p ! nat (i_a I) in
        length (c_in c) \<le> 6 \<and> c_forward c \<and> c_backward c \<and> in_range p (c_out c)
        \<and> (snd (c_scratch c) \<noteq> 0 \<longrightarrow> in_range p (c_scratch c)) \<and> list_all (in_range p) (c_in c))"

definition differentiable :: "('d, 'u) Program \<Rightarrow> nat \<Rightarrow> bool" where
  "differentiable p pc =
     (let I = code p ! pc in
        (branches (i_code I) \<longrightarrow> int pc < i_dst I \<and> i_dst I \<le> int (length (code p)))
      \<and> (i_code I = P_REJECT \<longrightarrow> i_a I \<ge> 0 \<and> nat (i_a I) < length (messages p)
           \<and> list_all (in_range p) (m_value (messages p ! nat (i_a I))))
      \<and> \<not> (has (program_spec_of I) kProgramNoAdjoint \<and> \<not> branches (i_code I) \<and> i_code I \<noteq> P_REJECT
           \<and> i_code I \<noteq> P_EXTREMA_RANGE)
      \<and> (i_code I = P_DYN_INDEX \<longrightarrow> i_len I > 0 \<and> 0 \<le> i_a I \<and> i_a I \<le> n_regs p \<and> 0 \<le> i_c I \<and> i_c I \<le> n_regs p
           \<and> in_range p (i_a I + i_c I, i_len I) \<and> in_range p (i_b I, 1))
      \<and> (i_code I = P_CALL \<longrightarrow> call_bound p I))"

definition control :: "('d, 'u) Program \<Rightarrow> bool" where
  "control p \<longleftrightarrow> list_ex (\<lambda>I. branches (i_code I)) (code p)"

section \<open>Writes\<close>

definition span_cells :: "span \<Rightarrow> int list" where
  "span_cells s = [fst s..fst s + snd s - 1]"

definition marked :: "('d, 'u) Program \<Rightarrow> Instr \<Rightarrow> int list" where
  "marked p I =
     (if i_code I = P_CALL then let c = calls p ! nat (i_a I) in span_cells (c_out c) @ span_cells (c_scratch c)
      else span_cells (i_dst I, program_output_len I))"

definition write_marks :: "('d, 'u) Program \<Rightarrow> (int \<times> int) list" where
  "write_marks p = concat (map (\<lambda>i. map (Pair (int i)) (marked p (code p ! i))) [0..<length (code p)])"

definition marks_ok :: "('d, 'u) Program \<Rightarrow> bool" where
  "marks_ok p \<longleftrightarrow> list_all (\<lambda>(i, r). 0 \<le> r \<and> r < n_regs p) (write_marks p)"

definition first_write :: "('d, 'u) Program \<Rightarrow> int \<Rightarrow> int" where
  "first_write p = foldl (\<lambda>f (i, r). if f r < 0 then f(r := i) else f) (\<lambda>_. -1) (write_marks p)"

definition last_write :: "('d, 'u) Program \<Rightarrow> int \<Rightarrow> int" where
  "last_write p = foldl (\<lambda>f (i, r). f(r := i)) (\<lambda>_. -1) (write_marks p)"

text \<open>Registers whose adjoint cell stays their own.\<close>

definition no_alias_spans :: "('d, 'u) IslandProg \<Rightarrow> span list" where
  "no_alias_spans P = map li_span (isl_ins P) @
     concat (map (\<lambda>I.
       (if i_code I = P_DENSITY \<and> program_density_arity (i_len I) > 3 then [(i_a I, program_density_arity (i_len I))]
        else if i_code I = P_DYN_INDEX then [(i_a I + i_c I, i_len I)]
        else if i_code I = P_CALL then let c = calls (isl_prog P) ! nat (i_a I) in c_in c @ [c_out c]
        else [])) (code (isl_prog P)))"

definition no_alias :: "('d, 'u) IslandProg \<Rightarrow> int \<Rightarrow> bool" where
  "no_alias P r \<longleftrightarrow> list_ex (\<lambda>s. fst s \<le> r \<and> r < fst s + snd s) (no_alias_spans P)"

section \<open>Operands\<close>

definition operand :: "Instr \<Rightarrow> nat \<Rightarrow> int" where
  "operand I k = (if k = 0 then i_a I else if k = 1 then i_b I else i_c I)"

text \<open>\<^verbatim>\<open>overlaps\<close> of the source, which is false of an empty range.\<close>

definition range_overlaps :: "span \<Rightarrow> span \<Rightarrow> bool" where
  "range_overlaps x y \<longleftrightarrow> snd x > 0 \<and> snd y > 0 \<and> fst x < fst y + snd y \<and> fst y < fst x + snd x"

definition wide_density :: "Instr \<Rightarrow> bool" where
  "wide_density I \<longleftrightarrow> i_code I = P_DENSITY \<and> program_density_arity (i_len I) > 3"

definition operand_ok :: "('d, 'u) Program \<Rightarrow> Instr \<Rightarrow> nat \<Rightarrow> bool" where
  "operand_ok p I k =
     (program_reads I k \<longrightarrow>
       (let len = program_input_len I k; wl = program_output_len I; out = (i_dst I, wl); opd = (operand I k, len);
            coincident_range = (has (program_spec_of I) kProgramRangeOutput \<or> i_code I = P_RANGE)
        in in_range p opd
         \<and> \<not> (len = 1 \<and> wl > 1 \<and> i_code I = P_RANGE \<and> range_overlaps out (operand I k, 1))
         \<and> \<not> (len > 1 \<and> range_overlaps out opd \<and> \<not> (coincident_range \<and> i_dst I = operand I k))))"

definition operands_ok :: "('d, 'u) Program \<Rightarrow> Instr \<Rightarrow> bool" where
  "operands_ok p I =
     (if i_code I = P_DYN_INDEX then True
      else (wide_density I \<longrightarrow> in_range p (i_a I, program_density_arity (i_len I)))
        \<and> (if i_code I = P_CALL then
             (let c = calls p ! nat (i_a I) in list_all (in_range p) (c_in c) \<and> in_range p (c_out c)
                \<and> (snd (c_scratch c) \<noteq> 0 \<longrightarrow> in_range p (c_scratch c)))
           else
             (\<not> wide_density I \<and> \<not> has (program_spec_of I) kProgramNoInputs \<longrightarrow>
                in_range p (i_a I, 1) \<and> in_range p (i_b I, 1) \<and> in_range p (i_c I, 1))
             \<and> (\<not> wide_density I \<longrightarrow> list_all (operand_ok p I) [0..<3])))"

section \<open>Needed registers\<close>

definition comparison :: "Code \<Rightarrow> bool" where
  "comparison c \<longleftrightarrow> c \<in> {P_GT, P_GE, P_LT, P_LE, P_EQ, P_NE, P_IMOD, P_IDIV, P_IADD, P_ISUB, P_IMUL, P_INEG, P_IABS}"

definition inline_reads :: "Instr \<Rightarrow> span list" where
  "inline_reads I = map (\<lambda>k. (operand I k, program_input_len I k)) (filter (program_reads I) [0..<3])"

definition any_in :: "int set \<Rightarrow> span \<Rightarrow> bool" where
  "any_in A s \<longleftrightarrow> list_ex (\<lambda>r. r \<in> A) (span_cells s)"

definition with_cells :: "span list \<Rightarrow> int set \<Rightarrow> int set" where
  "with_cells ss A = foldl (\<lambda>A s. A \<union> set (span_cells s)) A ss"

definition need_step :: "('d, 'u) Program \<Rightarrow> Instr \<Rightarrow> int set \<Rightarrow> int set option" where
  "need_step p I needed =
     (if i_code I = P_CALL then
        let c = calls p ! nat (i_a I) in Some (if any_in needed (c_out c) then with_cells (c_in c) needed else needed)
      else if \<not> any_in needed (i_dst I, program_output_len I) \<or> comparison (i_code I) then Some needed
      else if i_code I = P_EXTREMA_RANGE then None
      else if wide_density I then Some (with_cells [(i_a I, program_density_arity (i_len I))] needed)
      else if i_code I = P_DYN_INDEX then Some (with_cells [(i_a I + i_c I, i_len I)] needed)
      else Some (with_cells (inline_reads I) needed))"

definition extrema_unneeded :: "('d, 'u) Program \<Rightarrow> bool" where
  "extrema_unneeded p \<longleftrightarrow> list_all (\<lambda>r. in_range p (r, 1)) (out_regs p) \<and>
     foldr (\<lambda>I r. Option.bind r (need_step p I)) (code p) (Some (set (out_regs p))) \<noteq> None"

section \<open>Definite initialisation over forward branches\<close>

record Flow =
  f_values :: "int set"
  f_live :: bool
  f_pending :: "nat \<Rightarrow> int set option"

definition flow_reads :: "('d, 'u) Program \<Rightarrow> Instr \<Rightarrow> span list" where
  "flow_reads p I =
     (if i_code I = P_CALL then c_in (calls p ! nat (i_a I))
      else if wide_density I then [(i_a I, program_density_arity (i_len I))]
      else if i_code I = P_DYN_INDEX then [(i_a I + i_c I, i_len I), (i_b I, 1)]
      else inline_reads I)"

definition flow_arrive :: "nat \<Rightarrow> Flow \<Rightarrow> Flow" where
  "flow_arrive pc st = (case f_pending st pc of None \<Rightarrow> st
     | Some b \<Rightarrow> \<lparr>f_values = (if f_live st then f_values st \<inter> b else b), f_live = True, f_pending = (f_pending st)(pc := None)\<rparr>)"

definition flow_propagate :: "nat \<Rightarrow> Flow \<Rightarrow> Flow" where
  "flow_propagate t st = st\<lparr>f_pending := (f_pending st)(t := Some (case f_pending st t of None \<Rightarrow> f_values st
     | Some b \<Rightarrow> b \<inter> f_values st))\<rparr>"

definition available :: "('d, 'u) IslandProg \<Rightarrow> int set \<Rightarrow> span \<Rightarrow> bool" where
  "available P v s \<longleftrightarrow> in_range (isl_prog P) s \<and> list_all (\<lambda>r. r \<in> v \<or> r \<in> cells (map li_span (isl_ins P))) (span_cells s)"

definition dag_step :: "('d, 'u) IslandProg \<Rightarrow> nat \<Rightarrow> Flow \<Rightarrow> Flow option" where
  "dag_step P pc st0 =
     (let p = isl_prog P; I = code p ! pc; st = flow_arrive pc st0 in
      if \<not> f_live st then Some st
      else if \<not> list_all (available P (f_values st)) (flow_reads p I) then None
      else
        let st = st\<lparr>f_values := f_values st \<union> set (marked p I)\<rparr> in
        if i_code I = P_REJECT then
          if list_all (available P (f_values st)) (m_value (messages p ! nat (i_a I))) then Some (st\<lparr>f_live := False\<rparr>) else None
        else
          let st = (if branches (i_code I) then flow_propagate (nat (i_dst I)) st else st)
          in Some (if i_code I = P_JMP then st\<lparr>f_live := False\<rparr> else st))"

definition dag_initialized :: "('d, 'u) IslandProg \<Rightarrow> bool" where
  "dag_initialized P =
     (let p = isl_prog P; n = length (code p) in
      n_regs p > 0 \<and>
      (case foldl (\<lambda>r pc. Option.bind r (dag_step P pc)) (Some \<lparr>f_values = {}, f_live = True, f_pending = (\<lambda>_. None)\<rparr>) [0..<n] of
         None \<Rightarrow> False
       | Some st0 \<Rightarrow> let st = flow_arrive n st0 in
           f_live st \<and> list_all (\<lambda>r. r \<in> f_values st \<or> r \<in> cells (map li_span (isl_ins P))) (out_regs p)))"

section \<open>Basic blocks\<close>

definition leaders :: "('d, 'u) Program \<Rightarrow> nat list" where
  "leaders p = remdups (sort (0 # concat (map (\<lambda>pc. let I = code p ! pc in
       if branches (i_code I) then [nat (i_dst I), pc + 1] else if i_code I = P_REJECT then [pc + 1] else [])
     [0..<length (code p)]) @ [length (code p)]))"

definition nblocks :: "('d, 'u) Program \<Rightarrow> nat" where
  "nblocks p = (if control p then length (leaders p) - 1 else 0)"

definition block :: "('d, 'u) Program \<Rightarrow> nat \<Rightarrow> nat" where
  "block p i = length (filter (\<lambda>l. l \<le> i) (leaders p)) - 1"

section \<open>Activity\<close>

definition density_operand :: "Instr \<Rightarrow> nat \<Rightarrow> int" where
  "density_operand I k = (if program_density_arity (i_len I) > 3 then i_a I + int k else operand I k)"

definition act_step :: "('d, 'u) Program \<Rightarrow> Instr \<Rightarrow> int set \<Rightarrow> 8 word \<times> int set" where
  "act_step p I active =
     (let out = (i_dst I, program_output_len I) in
      if i_code I = P_CALL then
        let c = calls p ! nat (i_a I)
        in (0xf, if list_ex (any_in active) (c_in c) then with_cells [c_out c, c_scratch c] active else active)
      else if has (program_spec_of I) kProgramNoInputs then (0xf, active)
      else if i_code I = P_DENSITY then
        let m = foldl (\<lambda>m k. if density_operand I k \<in> active then m OR push_bit k 1 else m) 0
                  [0..<nat (program_density_arity (i_len I))]
        in (m, if m \<noteq> 0 then with_cells [out] active else active)
      else if i_code I = P_DYN_INDEX then
        (0xf, if any_in active (i_a I + i_c I, i_len I) then with_cells [out] active else active)
      else (0xf, if list_ex (any_in active) (inline_reads I) then with_cells [out] active else active))"

definition active_ins :: "('d, 'u) IslandProg \<Rightarrow> int set" where
  "active_ins P = cells (map li_span (filter li_active (isl_ins P)))"

definition active_before :: "('d, 'u) IslandProg \<Rightarrow> nat \<Rightarrow> int set" where
  "active_before P i = foldl (\<lambda>A I. snd (act_step (isl_prog P) I A)) (active_ins P) (take i (code (isl_prog P)))"

definition density_mask_of :: "bool \<Rightarrow> ('d, 'u) IslandProg \<Rightarrow> nat \<Rightarrow> 8 word" where
  "density_mask_of nomask P i =
     (if nomask then 0xf else fst (act_step (isl_prog P) (code (isl_prog P) ! i) (active_before P i)))"

section \<open>Shared cells\<close>

definition copy_len :: "Instr \<Rightarrow> int" where
  "copy_len I = (if i_code I = P_MOV then 1 else i_len I)"

definition aliasable :: "('d, 'u) IslandProg \<Rightarrow> nat \<Rightarrow> bool" where
  "aliasable P i =
     (let p = isl_prog P; I = code p ! i; len = copy_len I; n0 = n_regs p in
        (i_code I = P_MOV \<or> i_code I = P_MOVR) \<and> len > 0
      \<and> 0 \<le> i_dst I \<and> i_dst I + len \<le> n0 \<and> 0 \<le> i_a I \<and> i_a I + len \<le> n0
      \<and> list_all (\<lambda>k. first_write p (i_dst I + k) = int i \<and> last_write p (i_dst I + k) = int i
           \<and> last_write p (i_a I + k) \<le> int i \<and> \<not> no_alias P (i_dst I + k)) [0..len - 1])"

definition only_clear :: "Instr \<Rightarrow> bool" where
  "only_clear I \<longleftrightarrow> has (program_spec_of I) kProgramNoInputs \<or> comparison (i_code I) \<or> i_code I = P_EXTREMA_RANGE"

definition produces_adjoint :: "bool \<Rightarrow> ('d, 'u) IslandProg \<Rightarrow> nat \<Rightarrow> bool" where
  "produces_adjoint keep P i =
     (let p = isl_prog P; I = code p ! i; wl = program_output_len I in
      if i_code I = P_CALL then True
      else if aliasable P i \<or> wl = 0 then False
      else \<not> (\<not> keep \<and> only_clear I \<and>
             list_all (\<lambda>k. first_write p (i_dst I + k) = int i \<and> \<not> no_alias P (i_dst I + k)) [0..wl - 1]))"

definition seg_blocks :: "bool \<Rightarrow> ('d, 'u) IslandProg \<Rightarrow> nat list" where
  "seg_blocks keep P =
     (if control (isl_prog P)
      then remdups (map (block (isl_prog P)) (filter (produces_adjoint keep P) [0..<length (code (isl_prog P))]))
      else [])"

text \<open>The cell of a copy is its source's; the representatives are then packed in numeric order.\<close>

definition alias_step :: "('d, 'u) IslandProg \<Rightarrow> (int \<Rightarrow> int) \<Rightarrow> nat \<Rightarrow> int \<Rightarrow> int" where
  "alias_step P f i =
     (let I = code (isl_prog P) ! i in
      if aliasable P i then foldl (\<lambda>f k. f(i_dst I + k := f (i_a I + k))) f [0..copy_len I - 1] else f)"

definition shared_cell :: "('d, 'u) IslandProg \<Rightarrow> int \<Rightarrow> int" where
  "shared_cell P = foldl (alias_step P) (\<lambda>r. r) [0..<length (code (isl_prog P))]"

definition used_cells :: "('d, 'u) IslandProg \<Rightarrow> int list" where
  "used_cells P = (let used = map (shared_cell P) [0..n_regs (isl_prog P) - 1]
                   in filter (\<lambda>r. r \<in> set used) [0..n_regs (isl_prog P) - 1])"

definition adjoint_cell :: "('d, 'u) IslandProg \<Rightarrow> int \<Rightarrow> int" where
  "adjoint_cell P r = int (length (filter (\<lambda>q. q < shared_cell P r) (used_cells P)))"

definition cells_in_file :: "('d, 'u) IslandProg \<Rightarrow> bool" where
  "cells_in_file P \<longleftrightarrow> list_all (\<lambda>r. 0 \<le> shared_cell P r \<and> shared_cell P r < n_regs (isl_prog P)) [0..n_regs (isl_prog P) - 1]"

text \<open>A range has to map to a range.\<close>

definition mapn :: "('d, 'u) IslandProg \<Rightarrow> span \<Rightarrow> int" where
  "mapn P s = (if snd s = 0 then 0 else adjoint_cell P (fst s))"

definition mapn_ok :: "('d, 'u) IslandProg \<Rightarrow> span \<Rightarrow> bool" where
  "mapn_ok P s \<longleftrightarrow> list_all (\<lambda>k. adjoint_cell P (fst s + k) = mapn P s + k) [1..snd s - 1]"

section \<open>Emission\<close>

record ('d, 'u) Emit =
  e_code :: "Instr list"              \<comment> \<open>\<^verbatim>\<open>ncode\<close>\<close>
  e_calls :: "'u Call list"           \<comment> \<open>\<^verbatim>\<open>bound_calls\<close>\<close>
  e_adj :: "AdjInstr list"            \<comment> \<open>\<^verbatim>\<open>ap.code\<close>, still in forward order\<close>
  e_regs :: int                       \<comment> \<open>\<^verbatim>\<open>n_regs\<close>\<close>
  e_pcs :: "nat list"                 \<comment> \<open>\<^verbatim>\<open>pc_map\<close>\<close>
  e_starts :: "nat list"              \<comment> \<open>\<^verbatim>\<open>adj_starts\<close>\<close>

definition plain_instr :: "Code \<Rightarrow> int \<Rightarrow> int \<Rightarrow> int \<Rightarrow> Instr" where
  "plain_instr c d x l = \<lparr>i_code = c, i_sub = P_CONST, i_bcast = 0, i_law = 0, i_dst = d, i_a = x, i_b = 0, i_c = 0, i_len = l\<rparr>"

text \<open>A checkpoint appends its save and returns the register to read in the reverse pass.\<close>

definition checkpoint :: "span \<Rightarrow> bool \<Rightarrow> ('d, 'u) Emit \<Rightarrow> int \<times> ('d, 'u) Emit" where
  "checkpoint s needed e =
     (if \<not> needed then (fst s, e)
      else (e_regs e, e\<lparr>e_code := e_code e @ [plain_instr (if snd s = 1 then P_MOV else P_MOVR) (e_regs e) (fst s) (snd s)],
                        e_regs := e_regs e + snd s\<rparr>))"

definition written_after :: "('d, 'u) IslandProg \<Rightarrow> nat \<Rightarrow> span \<Rightarrow> bool" where
  "written_after P i s \<longleftrightarrow> list_ex (\<lambda>r. last_write (isl_prog P) r > int i) (span_cells s)"

definition save_range :: "('d, 'u) IslandProg \<Rightarrow> nat \<Rightarrow> span \<Rightarrow> ('d, 'u) Emit \<Rightarrow> int \<times> ('d, 'u) Emit" where
  "save_range P i s = checkpoint s (written_after P i s)"

definition save_before :: "('d, 'u) IslandProg \<Rightarrow> nat \<Rightarrow> span \<Rightarrow> ('d, 'u) Emit \<Rightarrow> int \<times> ('d, 'u) Emit" where
  "save_before P i s =
     (let I = code (isl_prog P) ! i
      in checkpoint s (fst s < i_dst I + program_output_len I \<and> i_dst I < fst s + snd s \<or> written_after P i s))"

fun save_inputs :: "('d, 'u) IslandProg \<Rightarrow> nat \<Rightarrow> (span \<times> bool) list \<Rightarrow> ('d, 'u) Emit \<Rightarrow> int list \<times> ('d, 'u) Emit" where
  "save_inputs P i [] e = ([], e)"
| "save_inputs P i ((s, reads) # ss) e =
     (let (v, e) = (if reads then save_range P i s e else (fst s, e)); (vs, e) = save_inputs P i ss e in (v # vs, e))"

definition zero_adj :: AdjInstr where
  "zero_adj = \<lparr>A_code = P_CONST, A_mask = 0xf, A_sub = P_CONST, A_bcast = 0, A_dst = 0, A_a = 0, A_b = 0, A_c = 0,
               A_len = 0, A_vd = 0, A_va = 0, A_vb = 0, A_vc = 0\<rparr>"

definition primal_reads_of :: "('d, 'u) rules \<Rightarrow> 'u Call \<Rightarrow> BackwardPrimalReads" where
  "primal_reads_of R c = (case r_primal_reads R (c_opcode c) of
     Some contract \<Rightarrow> if r_canonical R c then contract (c_variant c) else reads_every_primal
   | None \<Rightarrow> reads_every_primal)"

definition emit_call :: "('d, 'u) rules \<Rightarrow> ('d, 'u) IslandProg \<Rightarrow> nat \<Rightarrow> ('d, 'u) Emit \<Rightarrow> ('d, 'u) Emit option" where
  "emit_call R P i e =
     (let I = code (isl_prog P) ! i; c = calls (isl_prog P) ! nat (i_a I); reads = primal_reads_of R c in
      if \<not> list_all (mapn_ok P) (c_in c @ [c_out c]) then None
      else
        let (vin, e) = save_inputs P i (map (\<lambda>j. (c_in c ! j, reads_input reads j)) [0..<length (c_in c)]) e;
            k = int (length (e_calls e));
            e = e\<lparr>e_code := e_code e @ [I\<lparr>i_a := k\<rparr>]\<rparr>;
            (vout, e) = (if reads_output reads then save_range P i (c_out c) e else (fst (c_out c), e))
        in Some (e\<lparr>e_calls := e_calls e @ [c\<lparr>c_bwd_value_in := vin, c_bwd_adj_in := map (mapn P) (c_in c),
                                           c_bwd_value_out := vout, c_bwd_adj_out := mapn P (c_out c)\<rparr>],
                   e_adj := e_adj e @ [zero_adj\<lparr>A_code := P_CALL, A_a := k\<rparr>]\<rparr>))"

text \<open>The saves of the operand values before the instruction: a density's arguments, or what its row asks for.\<close>

definition saved_operand :: "Instr \<Rightarrow> nat \<Rightarrow> span option" where
  "saved_operand I k =
     (if i_code I = P_DENSITY then
        let ar = program_density_arity (i_len I) in
        if ar > 3 then (if k = 0 then Some (i_a I, ar) else None)
        else if k = 0 \<or> ar > int k then Some (operand I k, 1) else None
      else if has (program_spec_of I) (if k = 0 then kProgramSaveA else if k = 1 then kProgramSaveB else kProgramSaveC)
      then Some (operand I k, program_input_len I k) else None)"

definition save_operand :: "('d, 'u) IslandProg \<Rightarrow> nat \<Rightarrow> nat \<Rightarrow> ('d, 'u) Emit \<Rightarrow> int \<times> ('d, 'u) Emit" where
  "save_operand P i k e =
     (let I = code (isl_prog P) ! i in
      case saved_operand I k of None \<Rightarrow> (operand I k, e) | Some s \<Rightarrow> save_before P i s e)"

text \<open>The adjoint ranges of an instruction's operands.\<close>

definition mapped_operands :: "Instr \<Rightarrow> span list option" where
  "mapped_operands I =
     (if i_code I = P_DENSITY then
        let ar = program_density_arity (i_len I) in
        if ar > 3 then Some [(i_a I, ar)] else Some [(i_a I, 1), (i_b I, 1), (i_c I, 1)]
      else if i_code I = P_DYN_INDEX then Some [(i_a I + i_c I, i_len I)]
      else if has (program_spec_of I) kProgramNoInputs \<or> i_code I = P_EXTREMA_RANGE then None
      else Some [(i_a I, program_input_len I 0),
                 (i_b I, if program_reads I 1 then program_input_len I 1 else 1),
                 (i_c I, if program_reads I 2 then program_input_len I 2 else 1)])"

definition map_operands :: "('d, 'u) IslandProg \<Rightarrow> Instr \<Rightarrow> AdjInstr \<Rightarrow> AdjInstr" where
  "map_operands P I A =
     (case mapped_operands I of
        None \<Rightarrow> A
      | Some ss \<Rightarrow>
          if wide_density I then A\<lparr>A_a := mapn P (ss ! 0)\<rparr>
          else if i_code I = P_DYN_INDEX then A\<lparr>A_a := mapn P (ss ! 0), A_b := 0, A_c := 0\<rparr>
          else A\<lparr>A_a := mapn P (ss ! 0), A_b := mapn P (ss ! 1), A_c := mapn P (ss ! 2)\<rparr>)"

definition adjoint_instr :: "bool \<Rightarrow> ('d, 'u) IslandProg \<Rightarrow> nat \<Rightarrow> int \<Rightarrow> int \<Rightarrow> int \<Rightarrow> AdjInstr" where
  "adjoint_instr nomask P i va vb vc =
     (let I = code (isl_prog P) ! i in
      \<lparr>A_code = (if i_code I = P_EXTREMA_RANGE then P_CONST else i_code I),
       A_mask = (if i_code I = P_RANGE then i_law I else density_mask_of nomask P i),
       A_sub = i_sub I, A_bcast = i_bcast I, A_dst = i_dst I, A_a = i_a I, A_b = i_b I, A_c = i_c I, A_len = i_len I,
       A_vd = i_dst I, A_va = va, A_vb = vb, A_vc = vc\<rparr>)"

definition emit_rule :: "bool \<Rightarrow> bool \<Rightarrow> ('d, 'u) IslandProg \<Rightarrow> nat \<Rightarrow> ('d, 'u) Emit \<Rightarrow> ('d, 'u) Emit option" where
  "emit_rule nomask keep P i e =
     (let I = code (isl_prog P) ! i; wl = program_output_len I;
          (va, e) = save_operand P i 0 e; (vb, e) = save_operand P i 1 e; (vc, e) = save_operand P i 2 e;
          e = e\<lparr>e_code := e_code e @ [I]\<rparr>
      in
      if wl = 0 \<or> \<not> produces_adjoint keep P i then Some e
      else
        let (vd, e) = (if has (program_spec_of I) kProgramSaveOut then save_range P i (i_dst I, wl) e else (i_dst I, e));
            A = (adjoint_instr nomask P i va vb vc)\<lparr>A_vd := vd, A_dst := mapn P (i_dst I, if wl > 1 then wl else 1)\<rparr>
        in
        if \<not> list_all (mapn_ok P) ((i_dst I, wl) # (case mapped_operands I of None \<Rightarrow> [] | Some ss \<Rightarrow> ss)) then None
        else Some (e\<lparr>e_adj := e_adj e @ [map_operands P I A]\<rparr>))"

text \<open>At the first instruction of a block that produces adjoints, the segment is appended to the trail.\<close>

definition segment_of :: "bool \<Rightarrow> ('d, 'u) IslandProg \<Rightarrow> nat \<Rightarrow> nat option" where
  "segment_of keep P b = map_of (zip (seg_blocks keep P) [0..<length (seg_blocks keep P)]) b"

definition enter_block :: "bool \<Rightarrow> ('d, 'u) IslandProg \<Rightarrow> nat \<Rightarrow> ('d, 'u) Emit \<Rightarrow> ('d, 'u) Emit" where
  "enter_block keep P i e =
     (let p = isl_prog P in
      if control p \<and> leaders p ! block p i = i then
        let e = e\<lparr>e_starts := e_starts e @ [length (e_adj e)]\<rparr> in
        (case segment_of keep P (block p i) of None \<Rightarrow> e
         | Some sg \<Rightarrow> e\<lparr>e_code := e_code e @
             [(plain_instr P_PATH (n_regs p) (int sg) (int (length (seg_blocks keep P)) + 1))]\<rparr>)
      else e)"

definition emit_step :: "('d, 'u) rules \<Rightarrow> bool \<Rightarrow> bool \<Rightarrow> ('d, 'u) IslandProg \<Rightarrow> nat \<Rightarrow> ('d, 'u) Emit \<Rightarrow> ('d, 'u) Emit option" where
  "emit_step R nomask keep P i e =
     (let I = code (isl_prog P) ! i;
          e = enter_block keep P i (e\<lparr>e_pcs := e_pcs e @ [length (e_code e)]\<rparr>)
      in if i_code I = P_CALL then emit_call R P i e
         else if aliasable P i then Some (e\<lparr>e_code := e_code e @ [I]\<rparr>)
         else emit_rule nomask keep P i e)"

definition has_trail :: "bool \<Rightarrow> ('d, 'u) IslandProg \<Rightarrow> bool" where
  "has_trail keep P \<longleftrightarrow> control (isl_prog P) \<and> seg_blocks keep P \<noteq> []"

definition emit_start :: "bool \<Rightarrow> ('d, 'u) IslandProg \<Rightarrow> ('d, 'u) Emit" where
  "emit_start keep P =
     (let p = isl_prog P in
      \<lparr>e_code = (if has_trail keep P then [plain_instr P_CONST (n_regs p) (int (length (pool p))) 0] else []),
       e_calls = [], e_adj = [],
       e_regs = n_regs p + int (length (seg_blocks keep P)) + (if has_trail keep P then 1 else 0),
       e_pcs = [], e_starts = []\<rparr>)"

definition emit_all :: "('d, 'u) rules \<Rightarrow> bool \<Rightarrow> bool \<Rightarrow> ('d, 'u) IslandProg \<Rightarrow> nat \<Rightarrow> ('d, 'u) Emit option" where
  "emit_all R nomask keep P n =
     foldl (\<lambda>r i. Option.bind r (emit_step R nomask keep P i)) (Some (emit_start keep P)) [0..<n]"

section \<open>The generator\<close>

definition fix_target :: "nat list \<Rightarrow> Instr \<Rightarrow> Instr" where
  "fix_target pcs I = (if branches (i_code I) then I\<lparr>i_dst := int (pcs ! nat (i_dst I))\<rparr> else I)"

definition finish_segments :: "bool \<Rightarrow> ('d, 'u) IslandProg \<Rightarrow> nat list \<Rightarrow> (int \<times> int) list option" where
  "finish_segments keep P starts =
     (let nb = nblocks (isl_prog P); total = int (starts ! nb) in
      if list_ex (\<lambda>b. starts ! b \<noteq> starts ! (b + 1) \<and> segment_of keep P b = None) [0..<nb] then None
      else Some (map (\<lambda>b. if starts ! b = starts ! (b + 1) then (0, 0)
                          else (total - int (starts ! (b + 1)), total - int (starts ! b))) (seg_blocks keep P)))"

definition gen_checks :: "('d, 'u) IslandProg \<Rightarrow> bool" where
  "gen_checks P =
     (let p = isl_prog P in
      n_regs p \<ge> 0
      \<and> list_all (differentiable p) [0..<length (code p)]
      \<and> marks_ok p
      \<and> list_all (\<lambda>li. in_range p (li_span li)) (isl_ins P)
      \<and> list_all (operands_ok p) (code p)
      \<and> extrema_unneeded p
      \<and> (control p \<longrightarrow> dag_initialized P)
      \<and> cells_in_file P)"

definition gen_adjoint :: "('d, 'u, 'w) num \<Rightarrow> ('d, 'u) rules \<Rightarrow> bool \<Rightarrow> bool \<Rightarrow> ('d, 'u) IslandProg \<Rightarrow> ('d, 'u) IslandProg option" where
  \<comment> \<open>\<open>None\<close> is \<^verbatim>\<open>false\<close>, which leaves the program untouched\<close>
  "gen_adjoint N R nomask keep P =
     (let p = isl_prog P; n = length (code p) in
      if \<not> gen_checks P then None
      else case emit_all R nomask keep P n of
        None \<Rightarrow> None
      | Some e \<Rightarrow>
          let pcs = e_pcs e @ [length (e_code e)]; starts = e_starts e @ [length (e_adj e)] in
          case (if control p then finish_segments keep P starts else Some []) of
            None \<Rightarrow> None
          | Some segs \<Rightarrow> Some (P\<lparr>
              isl_prog := p\<lparr>code := (if control p then map (fix_target pcs) (e_code e) else e_code e),
                            calls := e_calls e,
                            pool := (if has_trail keep P then pool p @ [n_of_int N 0] else pool p),
                            n_regs := e_regs e\<rparr>,
              isl_adj := \<lparr>adj_code = rev (e_adj e),
                          segments = (if has_trail keep P then segs else []),
                          trail = (if has_trail keep P then n_regs p else -1),
                          adj_reg = map (adjoint_cell P) [0..n_regs p - 1],
                          adj_n_regs = int (length (used_cells P))\<rparr>,
              isl_ins := map (\<lambda>li. li\<lparr>li_immutable :=
                  list_all (\<lambda>r. first_write p r < 0) (span_cells (li_span li))\<rparr>) (isl_ins P)\<rparr>))"

end
