(* ===== verification/AdjointReplay.thy ===== *)
theory AdjointReplay
  imports AdjointGen
begin

unbundle bit_operations_syntax

text \<open>
  The replay a generated adjoint stands in for: the program re-executed on reverse-mode variables. Every value
  written is a node of its own, a copy that shares hands on its source's node, and the reverse sweep visits
  the instructions backwards, each reading the adjoints of its own result nodes and accumulating into the
  nodes its operands held, with the values of the registers as they were when it ran. Nothing is cleared, saved,
  shared between versions or compacted here: that is what the generator has to get right. The theory then relates
  the registers' adjoint cells to the replay's nodes.
\<close>

section \<open>Running a straight line\<close>

fun exec_seq :: "('d, 'u, 'w) num \<Rightarrow> int \<Rightarrow> ('d, 'u) Program \<Rightarrow> Instr list \<Rightarrow> ('d, 'w) mach \<Rightarrow> std_error + ('d, 'w) mach" where
  "exec_seq N base p [] s = Inr s"
| "exec_seq N base p (I # Is) s = bind_res (exec_instr N base p I s) (exec_seq N base p Is)"

definition regs_at :: "('d, 'u, 'w) num \<Rightarrow> int \<Rightarrow> ('d, 'u) Program \<Rightarrow> ('d, 'w) mach \<Rightarrow> nat \<Rightarrow> 'd regs" where
  \<comment> \<open>the register file before instruction \<open>i\<close>\<close>
  "regs_at N base p s i = (case exec_seq N base p (take i (code p)) s of Inl e \<Rightarrow> m_reg s | Inr t \<Rightarrow> m_reg t)"

section \<open>Nodes\<close>

text \<open>A node is named by the register it was written to and the instruction that wrote it, counted from one;
  zero is the value the register had at the start.\<close>

type_synonym node = "nat \<times> int"

primrec vari_at :: "('d, 'u) Program \<Rightarrow> (nat \<Rightarrow> bool) \<Rightarrow> nat \<Rightarrow> int \<Rightarrow> node" where
  "vari_at p shares 0 r = (0, r)"
| "vari_at p shares (Suc i) r =
     (let I = code p ! i in
      if r \<in> set (marked p I) then (if shares i then vari_at p shares i (i_a I + (r - i_dst I)) else (Suc i, r))
      else vari_at p shares i r)"

definition operand_cell :: "('d, 'u) Program \<Rightarrow> Instr \<Rightarrow> nat \<Rightarrow> int \<Rightarrow> int" where
  "operand_cell p I k j =
     (if i_code I = P_CALL then fst (c_in (calls p ! nat (i_a I)) ! k) + j
      else if i_code I = P_DYN_INDEX \<and> k = 0 then i_a I + i_c I + j
      else operand I k + j)"

definition result_cells :: "('d, 'u) Program \<Rightarrow> Instr \<Rightarrow> int list" where
  "result_cells p I =
     (if i_code I = P_CALL then span_cells (c_out (calls p ! nat (i_a I))) else span_cells (i_dst I, program_output_len I))"

text \<open>\<open>dmask\<close> is the set of a density's arguments that are autodiff variables.\<close>

definition replay_pulls :: "('d, 'u, 'w) num \<Rightarrow> ('d, 'u) rules \<Rightarrow> ('d, 'u) Program \<Rightarrow> 8 word \<Rightarrow> Instr \<Rightarrow> 'd regs \<Rightarrow> 'd regs \<Rightarrow> 'd list \<Rightarrow> 'd pull list" where
  "replay_pulls N R p dmask I before after ts =
     (let c = i_code I; va = (\<lambda>k. before (i_a I + k)); vb = (\<lambda>k. before (i_b I + k)); vc = (\<lambda>k. before (i_c I + k));
          vd = (\<lambda>k. after (i_dst I + k))
      in
      if c = P_CALL then
        let cl = calls p ! nat (i_a I)
        in call_pulls R cl (map (rd before) (c_in cl)) (rd after (c_out cl)) (rd after (c_scratch cl)) ts
      else if c \<in> {P_FILL, P_CONSTR} then []
      else if c \<in> {P_MOVR, P_LOG_RANGE, P_EXP_RANGE, P_SOFTMAX, P_RANGE} then
        concat (map (\<lambda>k. ranged_pulls N R c (i_sub I) (i_law I) (i_bcast I) va vb vc vd
                          (softmax_dot N vd (\<lambda>k. ts ! nat k) (i_len I)) k (ts ! nat k)) [0..i_len I - 1])
      else scalar_pulls N R c dmask (i_len I) va vb vc vd (ts ! 0))"

definition replay_step :: "('d, 'u, 'w) num \<Rightarrow> ('d, 'u) rules \<Rightarrow> ('d, 'u) Program \<Rightarrow> (nat \<Rightarrow> bool) \<Rightarrow> (nat \<Rightarrow> 8 word)
    \<Rightarrow> (nat \<Rightarrow> 'd regs) \<Rightarrow> nat     \<Rightarrow> (node \<Rightarrow> 'd) \<Rightarrow> node \<Rightarrow> 'd" where
  "replay_step N R p shares dmasks regs i A =
     (let I = code p ! i in
      if shares i then A
      else accumulate N R (\<lambda>k j. vari_at p shares i (operand_cell p I k j))
             (replay_pulls N R p (dmasks i) I (regs i) (regs (Suc i)) (map (\<lambda>r. A (vari_at p shares (Suc i) r)) (result_cells p I))) A)"

primrec replay :: "('d, 'u, 'w) num \<Rightarrow> ('d, 'u) rules \<Rightarrow> ('d, 'u) Program \<Rightarrow> (nat \<Rightarrow> bool) \<Rightarrow> (nat \<Rightarrow> 8 word)
    \<Rightarrow> (nat \<Rightarrow> 'd regs) \<Rightarrow> nat     \<Rightarrow> (node \<Rightarrow> 'd) \<Rightarrow> node \<Rightarrow> 'd" where
  "replay N R p shares dmasks regs 0 A = A"
| "replay N R p shares dmasks regs (Suc i) A =
     replay N R p shares dmasks regs i (replay_step N R p shares dmasks regs i A)"

section \<open>The programs considered\<close>

definition defined_before :: "('d, 'u) IslandProg \<Rightarrow> nat \<Rightarrow> int set" where
  "defined_before P i = cells (map li_span (isl_ins P)) \<union> set (concat (map (marked (isl_prog P)) (take i (code (isl_prog P)))))"

text \<open>Every register is written before it is read, and the results are written.\<close>

definition line_initialized :: "('d, 'u) IslandProg \<Rightarrow> bool" where
  "line_initialized P \<longleftrightarrow>
     list_all (\<lambda>i. list_all (\<lambda>s. list_all (\<lambda>r. r \<in> defined_before P i) (span_cells s))
                     (each_read (isl_prog P) (code (isl_prog P) ! i))) [0..<length (code (isl_prog P))]
   \<and> list_all (\<lambda>r. r \<in> defined_before P (length (code (isl_prog P)))) (out_regs (isl_prog P))"

text \<open>What the builders of a call guarantee: its output aliases no input, and its scratch holds nothing else.\<close>

definition calls_separate :: "('d, 'u) IslandProg \<Rightarrow> bool" where
  "calls_separate P \<longleftrightarrow>
     list_all (\<lambda>i. let I = code (isl_prog P) ! i; c = calls (isl_prog P) ! nat (i_a I) in
       i_code I = P_CALL \<longrightarrow>
         list_all (\<lambda>r. r \<notin> defined_before P i \<and> last_write (isl_prog P) r = int i) (span_cells (c_scratch c))
       \<and> list_all (\<lambda>r. r \<notin> cells (c_in c)) (span_cells (c_out c))) [0..<length (code (isl_prog P))]"

definition straight_line :: "('d, 'u) IslandProg \<Rightarrow> bool" where
  "straight_line P \<longleftrightarrow> \<not> control (isl_prog P) \<and> list_all (\<lambda>I. i_code I \<noteq> P_EXTREMA_RANGE) (code (isl_prog P))
     \<and> line_initialized P \<and> calls_separate P"

end
