(* ===== verification/AdjointCells.thy ===== *)
theory AdjointCells
  imports AdjointReplay
begin

text \<open>
  Which adjoint cell stands for which node of the replay. A register's cell is that of the register its chain of
  shared copies starts from; before each instruction, two defined registers have the same cell exactly when
  the replay gave them the same node, and packing the cells keeps that.
\<close>

section \<open>First and last writes\<close>

lemma set_span_cells [simp]: "set (span_cells s) = {fst s..<fst s + snd s}"
  by (auto simp: span_cells_def)

lemma set_write_marks: "(k, r) \<in> set (write_marks p) \<longleftrightarrow> (\<exists>i < length (code p). k = int i \<and> r \<in> set (marked p (code p ! i)))"
  by (auto simp: write_marks_def)

lemma sorted_write_marks: "sorted (map fst (write_marks p))"
proof -
  have "sorted (map fst (concat (map (\<lambda>i. map (Pair (int i)) (f i)) [0..<n])))
    \<and> (\<forall>k \<in> set (map fst (concat (map (\<lambda>i. map (Pair (int i)) (f i)) [0..<n]))). k < int n)" for n and f :: "nat \<Rightarrow> int list"
    by (induction n) (fastforce simp: sorted_append comp_def sorted_replicate map_replicate_const)+
  from this [of "\<lambda>i. marked p (code p ! i)" "length (code p)"] show ?thesis unfolding write_marks_def by (rule conjunct1)
qed

lemma last_fold:
  assumes "sorted (map fst xs)"
  shows "(\<forall>q \<in> set xs. fst q \<le> foldl (\<lambda>f (i, r). f(r := i)) (\<lambda>_. -1) xs (snd q))
    \<and> (\<forall>r. foldl (\<lambda>f (i, r). f(r := i)) (\<lambda>_. -1) xs r = (-1::int) \<or> (foldl (\<lambda>f (i, r). f(r := i)) (\<lambda>_. -1) xs r, r) \<in> set xs)"
  using assms by (induction xs rule: rev_induct) (auto simp: sorted_append split: prod.splits)

lemma first_fold:
  fixes xs :: "(int \<times> int) list"
  defines "F \<equiv> foldl (\<lambda>f (i, r). if f r < 0 then f(r := i) else f) (\<lambda>_. -1)"
  assumes "sorted (map fst xs)" "\<forall>q \<in> set xs. fst q \<ge> 0"
  shows "(\<forall>q \<in> set xs. 0 \<le> F xs (snd q) \<and> F xs (snd q) \<le> fst q) \<and> (\<forall>r. F xs r = -1 \<or> (F xs r, r) \<in> set xs)"
  using assms(2,3)
proof (induction xs rule: rev_induct)
  case (snoc x xs)
  obtain i r where x: "x = (i, r)" by (cases x)
  have step: "F (xs @ [x]) = (if F xs r < 0 then (F xs)(r := i) else F xs)" by (simp add: F_def x)
  from snoc.prems have ord: "\<forall>q \<in> set xs. fst q \<le> i" "i \<ge> 0" by (auto simp: sorted_append x)
  from snoc have IH: "\<And>q. q \<in> set xs \<Longrightarrow> 0 \<le> F xs (snd q) \<and> F xs (snd q) \<le> fst q"
    "\<And>r. F xs r = -1 \<or> (F xs r, r) \<in> set xs" by (auto simp: sorted_append)
  have "0 \<le> F (xs @ [x]) (snd q) \<and> F (xs @ [x]) (snd q) \<le> fst q" if "q \<in> set (xs @ [x])" for q
  proof (cases "q \<in> set xs")
    case True
    with IH(1) [OF True] show ?thesis by (auto simp: step)
  next
    case False
    with that x have "q = (i, r)" by simp
    moreover have "F xs r \<le> i" if "\<not> F xs r < 0" using IH(2) [of r] that ord by fastforce
    ultimately show ?thesis using ord by (auto simp: step)
  qed
  moreover have "F (xs @ [x]) q = -1 \<or> (F (xs @ [x]) q, q) \<in> set (xs @ [x])" for q
    using IH(2) [of q] unfolding step by (auto simp: x)
  ultimately show ?case by blast
qed (simp add: F_def)

lemma last_write_ge:
  assumes "i < length (code p)" "r \<in> set (marked p (code p ! i))"
  shows "int i \<le> last_write p r"
proof -
  have "(int i, r) \<in> set (write_marks p)" using assms by (auto simp: set_write_marks)
  from bspec [OF conjunct1 [OF last_fold [OF sorted_write_marks]] this] show ?thesis by (simp add: last_write_def)
qed

lemma write_marks_from_0: "\<forall>q \<in> set (write_marks p). fst q \<ge> 0"
  by (auto simp: write_marks_def)

lemma first_write_le:
  assumes "i < length (code p)" "r \<in> set (marked p (code p ! i))"
  shows "0 \<le> first_write p r \<and> first_write p r \<le> int i"
proof -
  have "(int i, r) \<in> set (write_marks p)" using assms by (auto simp: set_write_marks)
  from bspec [OF conjunct1 [OF first_fold [OF sorted_write_marks write_marks_from_0]] this] show ?thesis
    by (simp add: first_write_def)
qed

lemma first_write_marks:
  assumes "first_write p r = int i"
  shows "i < length (code p) \<and> r \<in> set (marked p (code p ! i))"
proof -
  have "first_write p r = -1 \<or> (first_write p r, r) \<in> set (write_marks p)"
    using conjunct2 [OF first_fold [OF sorted_write_marks write_marks_from_0 [of p]]] unfolding first_write_def by blast
  with assms show ?thesis by (auto simp: set_write_marks)
qed

section \<open>Copies that share\<close>

lemma defined_before_Suc:
  "i < length (code (isl_prog P)) \<Longrightarrow>
    defined_before P (Suc i) = defined_before P i \<union> set (marked (isl_prog P) (code (isl_prog P) ! i))"
  by (auto simp: defined_before_def take_Suc_conv_app_nth)

lemma defined_before_0: "defined_before P 0 = cells (map li_span (isl_ins P))"
  by (simp add: defined_before_def)

lemma defined_before_cases:
  assumes "r \<in> defined_before P i" "i \<le> length (code (isl_prog P))"
  obtains "r \<in> cells (map li_span (isl_ins P))"
  | j where "j < i" "r \<in> set (marked (isl_prog P) (code (isl_prog P) ! j))"
proof -
  have "r \<in> cells (map li_span (isl_ins P)) \<or> (\<exists>I \<in> set (take i (code (isl_prog P))). r \<in> set (marked (isl_prog P) I))"
    using assms(1) by (auto simp: defined_before_def)
  then show thesis
  proof
    assume "\<exists>I \<in> set (take i (code (isl_prog P))). r \<in> set (marked (isl_prog P) I)"
    then obtain I where I: "I \<in> set (take i (code (isl_prog P)))" "r \<in> set (marked (isl_prog P) I)" by blast
    from I(1) obtain j where "j < i" "code (isl_prog P) ! j = I" by (auto simp: in_set_conv_nth [of I])
    with I(2) that show thesis by blast
  qed (rule that)
qed

lemma no_alias_ins: "r \<in> cells (map li_span (isl_ins P)) \<Longrightarrow> no_alias P r"
  by (auto simp: no_alias_def no_alias_spans_def cells_def list_ex_iff)

lemma aliasable_copy:
  assumes "aliasable P i" and I: "I = code (isl_prog P) ! i"
  shows "i_code I = P_MOV \<or> i_code I = P_MOVR" "copy_len I > 0" "program_output_len I = copy_len I"
    "marked (isl_prog P) I = span_cells (i_dst I, copy_len I)" "each_read (isl_prog P) I = [(i_a I, copy_len I)]"
proof -
  show c: "i_code I = P_MOV \<or> i_code I = P_MOVR" and "copy_len I > 0"
    using assms by (auto simp: aliasable_def Let_def)
  show l: "program_output_len I = copy_len I" using c by (auto simp: copy_len_def span_simps)
  show "marked (isl_prog P) I = span_cells (i_dst I, copy_len I)" using c by (auto simp: marked_def l)
  show "each_read (isl_prog P) I = [(i_a I, copy_len I)]" using c by (auto simp: each_read_def copy_len_def span_simps)
qed

lemma aliasable_writes:
  assumes "aliasable P i" "r \<in> set (marked (isl_prog P) (code (isl_prog P) ! i))"
  shows "first_write (isl_prog P) r = int i" "last_write (isl_prog P) r = int i" "\<not> no_alias P r"
    "last_write (isl_prog P) (i_a (code (isl_prog P) ! i) + (r - i_dst (code (isl_prog P) ! i))) \<le> int i"
proof -
  let ?I = "code (isl_prog P) ! i"
  have "r \<in> {i_dst ?I..<i_dst ?I + copy_len ?I}" using assms(2) aliasable_copy(4) [OF assms(1) refl] by simp
  then have "r - i_dst ?I \<in> set [0..copy_len ?I - 1]" by auto
  with assms(1) show "first_write (isl_prog P) r = int i" "last_write (isl_prog P) r = int i" "\<not> no_alias P r"
    "last_write (isl_prog P) (i_a ?I + (r - i_dst ?I)) \<le> int i"
    unfolding aliasable_def Let_def list_all_iff by (metis add.commute diff_add_cancel)+
qed

text \<open>A register a sharing copy writes is not written by any other instruction, nor defined before it.\<close>

lemma copied_once:
  assumes "aliasable P i" "r \<in> set (marked (isl_prog P) (code (isl_prog P) ! i))"
    and "j < length (code (isl_prog P))" "r \<in> set (marked (isl_prog P) (code (isl_prog P) ! j))"
  shows "j = i"
  using aliasable_writes(1,2) [OF assms(1,2)] first_write_le [OF assms(3,4)] last_write_ge [OF assms(3,4)] by simp

lemma copied_undefined:
  assumes "aliasable P i" "i < length (code (isl_prog P))" "r \<in> set (marked (isl_prog P) (code (isl_prog P) ! i))"
  shows "r \<notin> defined_before P i"
proof
  assume "r \<in> defined_before P i"
  then show False
  proof (rule defined_before_cases)
    assume "r \<in> cells (map li_span (isl_ins P))"
    with no_alias_ins aliasable_writes(3) [OF assms(1,3)] show False by blast
  next
    fix j assume j: "j < i" "r \<in> set (marked (isl_prog P) (code (isl_prog P) ! j))"
    with copied_once [OF assms(1,3), of j] assms(2) show False by simp
  qed (use assms(2) in simp)
qed

lemma read_defined:
  assumes "straight_line P" "i < length (code (isl_prog P))" "r \<in> cells (each_read (isl_prog P) (code (isl_prog P) ! i))"
  shows "r \<in> defined_before P i"
  using assms by (auto simp: straight_line_def line_initialized_def list_all_iff cells_def)

lemma copy_source_defined:
  assumes "straight_line P" "aliasable P i" "i < length (code (isl_prog P))"
    "r \<in> set (marked (isl_prog P) (code (isl_prog P) ! i))"
  shows "i_a (code (isl_prog P) ! i) + (r - i_dst (code (isl_prog P) ! i)) \<in> defined_before P i"
  by (rule read_defined [OF assms(1,3)])
     (use aliasable_copy(4,5) [OF assms(2) refl] assms(4) in simp)

section \<open>Representatives\<close>

lemma copy_fold:
  fixes a d :: int
  assumes "\<forall>k \<in> set ks. \<forall>q \<in> set ks. a + k \<noteq> d + q"
  shows "foldl (\<lambda>f k. f(d + k := f (a + k))) f ks r = (if r - d \<in> set ks then f (a + (r - d)) else f r)"
  using assms
proof (induction ks arbitrary: r rule: rev_induct)
  case (snoc k ks)
  have "a + k - d \<notin> set ks"
  proof
    assume "a + k - d \<in> set ks"
    moreover have "\<forall>q \<in> set ks. a + k \<noteq> d + q" using snoc.prems by simp
    ultimately have "a + k \<noteq> d + (a + k - d)" by blast
    then show False by linarith
  qed
  then have fresh: "a + k - d \<notin> set ks" .
  define g where "g = foldl (\<lambda>f k. f(d + k := f (a + k))) f ks"
  have g: "g q = (if q - d \<in> set ks then f (a + (q - d)) else f q)" for q
    unfolding g_def by (rule snoc.IH) (use snoc.prems in simp)
  have step: "foldl (\<lambda>f k. f(d + k := f (a + k))) f (ks @ [k]) r = (g(d + k := g (a + k))) r"
    unfolding g_def by (simp only: foldl_append foldl.simps)
  have "r = d + k \<longleftrightarrow> r - d = k" by auto
  with fresh show ?case unfolding step by (simp add: g)
qed simp

lemma alias_step_eq:
  assumes "straight_line P" "i < length (code (isl_prog P))"
  shows "alias_step P f i r = (if aliasable P i \<and> r \<in> set (marked (isl_prog P) (code (isl_prog P) ! i))
     then f (i_a (code (isl_prog P) ! i) + (r - i_dst (code (isl_prog P) ! i))) else f r)"
proof (cases "aliasable P i")
  case True
  let ?I = "code (isl_prog P) ! i"
  have m: "set (marked (isl_prog P) ?I) = {i_dst ?I..<i_dst ?I + copy_len ?I}" by (simp add: aliasable_copy(4) [OF True refl])
  have "i_a ?I + k \<noteq> i_dst ?I + q" if "k \<in> set [0..copy_len ?I - 1]" "q \<in> set [0..copy_len ?I - 1]" for k q
  proof
    assume eq: "i_a ?I + k = i_dst ?I + q"
    have k: "i_dst ?I + k \<in> set (marked (isl_prog P) ?I)" and q: "i_dst ?I + q \<in> set (marked (isl_prog P) ?I)"
      using that by (auto simp: m)
    from copy_source_defined [OF assms(1) True assms(2) k] eq have "i_dst ?I + q \<in> defined_before P i" by simp
    with copied_undefined [OF True assms(2) q] show False by blast
  qed
  then have fold: "foldl (\<lambda>f k. f(i_dst ?I + k := f (i_a ?I + k))) f [0..copy_len ?I - 1] r
      = (if r - i_dst ?I \<in> set [0..copy_len ?I - 1] then f (i_a ?I + (r - i_dst ?I)) else f r)"
    by (intro copy_fold) blast
  have "r - i_dst ?I \<in> set [0..copy_len ?I - 1] \<longleftrightarrow> r \<in> set (marked (isl_prog P) ?I)" by (auto simp: m)
  with fold True show ?thesis unfolding alias_step_def Let_def by (simp only: if_True simp_thms)
qed (simp add: alias_step_def)

definition cells_upto :: "('d, 'u) IslandProg \<Rightarrow> nat \<Rightarrow> int \<Rightarrow> int" where
  "cells_upto P m = foldl (alias_step P) (\<lambda>r. r) [0..<m]"

lemma cells_upto_Suc: "cells_upto P (Suc m) = alias_step P (cells_upto P m) m"
  by (simp add: cells_upto_def)

lemma cells_upto_stable:
  assumes "straight_line P" "j \<le> m" "m \<le> length (code (isl_prog P))"
    and "\<And>i. j \<le> i \<Longrightarrow> i < m \<Longrightarrow> aliasable P i \<Longrightarrow> r \<notin> set (marked (isl_prog P) (code (isl_prog P) ! i))"
  shows "cells_upto P m r = cells_upto P j r"
  using assms(2-) by (induction m rule: dec_induct) (auto simp: cells_upto_Suc alias_step_eq [OF assms(1)])

lemma shared_cell_own:
  assumes "straight_line P"
    and "\<And>i. i < length (code (isl_prog P)) \<Longrightarrow> aliasable P i \<Longrightarrow> r \<notin> set (marked (isl_prog P) (code (isl_prog P) ! i))"
  shows "shared_cell P r = r"
  using cells_upto_stable [OF assms(1), of 0 "length (code (isl_prog P))" r] assms(2)
  by (simp add: cells_upto_def shared_cell_def)

lemma shared_cell_copy:
  assumes "straight_line P" "i < length (code (isl_prog P))" "aliasable P i"
    and r: "r \<in> set (marked (isl_prog P) (code (isl_prog P) ! i))"
  shows "shared_cell P r = shared_cell P (i_a (code (isl_prog P) ! i) + (r - i_dst (code (isl_prog P) ! i)))"
proof -
  let ?n = "length (code (isl_prog P))" and ?s = "i_a (code (isl_prog P) ! i) + (r - i_dst (code (isl_prog P) ! i))"
  have s: "?s \<in> defined_before P i" by (rule copy_source_defined [OF assms(1,3,2) r])
  have "cells_upto P ?n r = cells_upto P (Suc i) r"
  proof (rule cells_upto_stable [OF assms(1)])
    fix j assume j: "Suc i \<le> j" "j < ?n" "aliasable P j"
    show "r \<notin> set (marked (isl_prog P) (code (isl_prog P) ! j))"
      using copied_once [OF assms(3) r j(2)] j(1) by auto
  qed (use assms(2) in auto)
  also have "\<dots> = cells_upto P i ?s" using assms by (simp add: cells_upto_Suc alias_step_eq)
  also have "\<dots> = cells_upto P ?n ?s"
  proof (rule cells_upto_stable [OF assms(1), symmetric])
    fix j assume j: "i \<le> j" "j < ?n" "aliasable P j"
    show "?s \<notin> set (marked (isl_prog P) (code (isl_prog P) ! j))"
    proof
      assume sj: "?s \<in> set (marked (isl_prog P) (code (isl_prog P) ! j))"
      from s show False
      proof (rule defined_before_cases)
        assume "?s \<in> cells (map li_span (isl_ins P))"
        with no_alias_ins aliasable_writes(3) [OF j(3) sj] show False by blast
      next
        fix q assume "q < i" "?s \<in> set (marked (isl_prog P) (code (isl_prog P) ! q))"
        with copied_once [OF j(3) sj, of q] j assms(2) show False by simp
      qed (use assms(2) in simp)
    qed
  qed (use assms(2) in auto)
  finally show ?thesis by (simp add: shared_cell_def cells_upto_def)
qed

section \<open>Cells and nodes\<close>

text \<open>What holds of a defined register \<open>r\<close> before instruction \<open>i\<close>: its node was written to the representative,
  which still holds it, and which is not written again once it has copies.\<close>

definition cell_fits :: "('d, 'u) IslandProg \<Rightarrow> nat \<Rightarrow> int \<Rightarrow> bool" where
  "cell_fits P i r \<longleftrightarrow>
     (let node = vari_at (isl_prog P) (aliasable P) i; rep = shared_cell P r in
        fst (node r) \<le> i \<and> snd (node r) = rep \<and> rep \<in> defined_before P i \<and> node rep = node r
        \<and> (rep = r \<or> last_write (isl_prog P) rep < int i))"

lemma rewritten_is_own:
  assumes "straight_line P" "i < length (code (isl_prog P))" "\<not> aliasable P i"
    "r \<in> set (marked (isl_prog P) (code (isl_prog P) ! i))"
  shows "shared_cell P r = r"
  by (rule shared_cell_own [OF assms(1)]) (metis assms copied_once)

lemma cell_fits:
  assumes "straight_line P" "i \<le> length (code (isl_prog P))" "r \<in> defined_before P i"
  shows "cell_fits P i r"
  using assms(2,3)
proof (induction i arbitrary: r)
  case 0
  then have "no_alias P r" by (simp add: defined_before_0 no_alias_ins)
  then have "shared_cell P r = r" by (intro shared_cell_own [OF assms(1)]) (metis aliasable_writes(3))
  with 0 show ?case by (simp add: cell_fits_def Let_def)
next
  case (Suc i)
  let ?I = "code (isl_prog P) ! i" and ?node = "vari_at (isl_prog P) (aliasable P)"
  have i: "i < length (code (isl_prog P))" using Suc.prems by simp
  have def: "defined_before P (Suc i) = defined_before P i \<union> set (marked (isl_prog P) ?I)" by (rule defined_before_Suc [OF i])
  show ?case
  proof (cases "r \<in> set (marked (isl_prog P) ?I)")
    case marked: True
    show ?thesis
    proof (cases "aliasable P i")
      case True
      define s where "s = i_a ?I + (r - i_dst ?I)"
      have s: "s \<in> defined_before P i" unfolding s_def by (rule copy_source_defined [OF assms(1) True i marked])
      have fits: "cell_fits P i s" by (rule Suc.IH [OF _ s]) (use i in simp)
      have rep: "shared_cell P r = shared_cell P s" unfolding s_def by (rule shared_cell_copy [OF assms(1) i True marked])
      have "shared_cell P s \<notin> set (marked (isl_prog P) ?I)"
        using fits copied_undefined [OF True i] by (auto simp: cell_fits_def Let_def)
      moreover have "last_write (isl_prog P) s \<le> int i"
        unfolding s_def by (rule aliasable_writes(4) [OF True marked])
      moreover have "?node (Suc i) r = ?node i s" using True marked by (simp add: s_def Let_def)
      ultimately show ?thesis using fits by (auto simp: cell_fits_def Let_def rep def)
    next
      case False
      have "shared_cell P r = r" by (rule rewritten_is_own [OF assms(1) i False marked])
      with marked False show ?thesis by (simp add: cell_fits_def def)
    qed
  next
    case unmarked: False
    with Suc.prems def have r: "r \<in> defined_before P i" by simp
    have fits: "cell_fits P i r" by (rule Suc.IH [OF _ r]) (use i in simp)
    have "shared_cell P r \<notin> set (marked (isl_prog P) ?I)"
    proof
      assume rep: "shared_cell P r \<in> set (marked (isl_prog P) ?I)"
      with unmarked fits have "last_write (isl_prog P) (shared_cell P r) < int i" by (auto simp: cell_fits_def Let_def)
      with last_write_ge [OF i rep] show False by simp
    qed
    with unmarked fits show ?thesis by (auto simp: cell_fits_def Let_def def)
  qed
qed

lemma same_cell_same_node:
  assumes "straight_line P" "i \<le> length (code (isl_prog P))" "r \<in> defined_before P i" "q \<in> defined_before P i"
  shows "shared_cell P r = shared_cell P q \<longleftrightarrow>
    vari_at (isl_prog P) (aliasable P) i r = vari_at (isl_prog P) (aliasable P) i q"
  using cell_fits [OF assms(1-3)] cell_fits [OF assms(1,2,4)] unfolding cell_fits_def Let_def by metis

lemma node_stamp:
  "straight_line P \<Longrightarrow> i \<le> length (code (isl_prog P)) \<Longrightarrow> r \<in> defined_before P i \<Longrightarrow>
    fst (vari_at (isl_prog P) (aliasable P) i r) \<le> i"
  using cell_fits [of P i r] by (simp add: cell_fits_def Let_def)

text \<open>A register about to be rewritten shares its cell with no other defined register.\<close>

lemma rewritten_alone:
  assumes "straight_line P" "i < length (code (isl_prog P))" "\<not> aliasable P i"
    and "r \<in> set (marked (isl_prog P) (code (isl_prog P) ! i))"
    and "q \<in> defined_before P i" "shared_cell P q = shared_cell P r"
  shows "q = r"
proof -
  have rep: "shared_cell P r = r" by (rule rewritten_is_own [OF assms(1-4)])
  with cell_fits [OF assms(1) _ assms(5)] assms(2,6) have "q = r \<or> last_write (isl_prog P) r < int i"
    by (auto simp: cell_fits_def Let_def)
  with last_write_ge [OF assms(2,4)] show ?thesis by simp
qed

section \<open>Packing\<close>

lemma rank_less:
  fixes x y :: int
  assumes "x \<in> set xs" "x < y"
  shows "length (filter (\<lambda>q. q < x) xs) < length (filter (\<lambda>q. q < y) xs)"
  using assms
proof (induction xs)
  case (Cons a xs)
  have "length (filter (\<lambda>q. q < x) xs) \<le> length (filter (\<lambda>q. q < y) xs)"
    using assms(2) by (induction xs) auto
  with Cons show ?case by auto
qed simp

lemma adjoint_cell_eq:
  assumes "0 \<le> r" "r < n_regs (isl_prog P)" "0 \<le> q" "q < n_regs (isl_prog P)" "cells_in_file P"
  shows "adjoint_cell P r = adjoint_cell P q \<longleftrightarrow> shared_cell P r = shared_cell P q"
proof -
  have mem: "shared_cell P x \<in> set (used_cells P)" if "0 \<le> x" "x < n_regs (isl_prog P)" for x
    using that assms(5) by (auto simp: used_cells_def cells_in_file_def list_all_iff Let_def)
  from mem [OF assms(1,2)] mem [OF assms(3,4)] rank_less [of "shared_cell P r" "used_cells P" "shared_cell P q"]
    rank_less [of "shared_cell P q" "used_cells P" "shared_cell P r"]
  show ?thesis by (cases "shared_cell P r" "shared_cell P q" rule: linorder_cases) (auto simp: adjoint_cell_def)
qed

end
