(* ===== verification/AdjointExamples.thy ===== *)
theory AdjointExamples
  imports AdjointCells
begin

text \<open>
  Where the generator and its contract part. \<^verbatim>\<open>gen_adjoint\<close> refuses a program in which the result of a minimum
  or maximum can reach an output, because it has no rule for one; but the analysis that decides this reads the
  operands of a density from the instruction table, whose row for \<^verbatim>\<open>DENSITY\<close> names only the first.
\<close>

definition no_adjoint :: AdjProgram where
  "no_adjoint = \<lparr>adj_code = [], segments = [], trail = -1, adj_reg = [], adj_n_regs = 0\<rparr>"

definition live_in :: "int \<Rightarrow> int \<Rightarrow> LiveIn" where
  "live_in r l = \<lparr>li_reg = r, li_len = l, li_input = -1, li_offset = 0, li_active = True, li_immutable = False\<rparr>"

definition island :: "Instr list \<Rightarrow> int \<Rightarrow> LiveIn list \<Rightarrow> int list \<Rightarrow> ('d, 'u) IslandProg" where
  "island Is n lis outs = \<lparr>isl_prog = empty_program\<lparr>code := Is, n_regs := n, out_regs := outs\<rparr>, isl_ins = lis,
     isl_adj = no_adjoint, native_adj = True, replay_initialized = None\<rparr>"

text \<open>\<^verbatim>\<open>max\<close> of registers 0 and 1 into register 4, then a density of three arguments with the maximum as its
  second or as its first.\<close>

definition normal_id :: int where "normal_id = 0"

definition max_second :: "('d, 'u) IslandProg" where
  "max_second = island [instr P_EXTREMA_RANGE 4 0 1 2 2, instr P_DENSITY 5 2 4 3 normal_id] 6 [live_in 0 4] [5]"

definition max_first :: "('d, 'u) IslandProg" where
  "max_first = island [instr P_EXTREMA_RANGE 4 0 1 2 2, instr P_DENSITY 5 4 2 3 normal_id] 6 [live_in 0 4] [5]"

lemma normal_arity: "program_density_arity normal_id = 3"
  by code_simp

lemma max_first_refused: "gen_adjoint N R nomask keep max_first = None"
  by (simp add: gen_adjoint_def gen_checks_def extrema_unneeded_def max_first_def island_def need_step_def wide_density_def normal_arity
    any_in_def with_cells_def span_cells_def inline_reads_def operand_def span_simps empty_program_def in_range_def comparison_def upt_rec Let_def program_reads_def)

abbreviation density_adjoint :: AdjInstr where
  "density_adjoint \<equiv> \<lparr>A_code = P_DENSITY, A_mask = 0x7, A_sub = P_CONST, A_bcast = 0, A_dst = 5, A_a = 2, A_b = 4, A_c = 3,
     A_len = normal_id, A_vd = 5, A_va = 2, A_vb = 4, A_vc = 3\<rparr>"

lemma max_second_generated:
  "case gen_adjoint N R False False max_second of None \<Rightarrow> False
   | Some P \<Rightarrow> segments (isl_adj P) = [] \<and> adj_reg (isl_adj P) = [0, 1, 2, 3, 4, 5] \<and> adj_code (isl_adj P) = [density_adjoint]"
  by code_simp

lemma density_pulls_operands:
  "(k, j, acc) \<in> set (density_pulls N R normal_id m va vb vc t) \<Longrightarrow> k \<in> {0, 1, 2} \<and> j = 0"
  by (auto simp: density_pulls_def normal_arity Let_def split: option.splits if_splits)

text \<open>C37. A gradient is dropped: for the program that computes the maximum of a vector of two live-ins (registers 0
  and 1) and passes it as the second argument of a three-argument density, the generator does not refuse but produces an
  adjoint that, on all values, all incoming adjoints and any arithmetic, leaves the adjoint cells of the vector
  untouched. Passed as the first argument, the same maximum makes it refuse, as it has to.\<close>

theorem extremum_gradient_dropped:
  "(\<exists>P'. gen_adjoint N R False False max_second = Some P' \<and> adj_reg (isl_adj P') = [0, 1, 2, 3, 4, 5]
      \<and> (\<forall>val adj. \<exists>adj'. run_adjoint N R (isl_prog P') (isl_adj P') val adj = Inr adj' \<and> adj' 0 = adj 0 \<and> adj' 1 = adj 1))
   \<and> gen_adjoint N R nomask keep max_first = None"
proof -
  obtain P' where P': "gen_adjoint N R False False max_second = Some P'" "segments (isl_adj P') = []"
      "adj_reg (isl_adj P') = [0, 1, 2, 3, 4, 5]" "adj_code (isl_adj P') = [density_adjoint]"
    using max_second_generated [of N R] by (auto split: option.splits)
  have "run_adjoint N R (isl_prog P') (isl_adj P') val adj = Inr (accumulate N R (adj_cell density_adjoint)
      (density_pulls N R normal_id 0x7 (\<lambda>k. val (2 + k)) (\<lambda>k. val (4 + k)) (\<lambda>k. val (3 + k)) (adj 5)) (adj(5 := n_of_int N 0)))" for val adj
    by (simp add: run_adjoint_def P'(2,4) adjoint_step_def scalar_pulls_def Let_def)
  moreover have "accumulate N R (adj_cell density_adjoint)
      (density_pulls N R normal_id 0x7 (\<lambda>k. val (2 + k)) (\<lambda>k. val (4 + k)) (\<lambda>k. val (3 + k)) (adj 5)) (adj(5 := n_of_int N 0)) x = adj x"
    if "x = 0 \<or> x = 1" for val adj x
    using that by (subst accumulate_other) (auto simp: adj_cell_def dest!: density_pulls_operands)
  ultimately have "\<exists>adj'. run_adjoint N R (isl_prog P') (isl_adj P') val adj = Inr adj' \<and> adj' 0 = adj 0 \<and> adj' 1 = adj 1" for val adj
    by blast
  with P'(1,3) max_first_refused show ?thesis by blast
qed

end
