(* ===== verification/Spec2Isabelle.thy ===== *)
theory Spec2Isabelle
  imports StoreForward Cse Executor ProgramInit ProgramCfg PortableRound MirExamples AdjointExamples
begin

text \<open>
  A model of the runtime of \<^verbatim>\<open>stanli\<close>, a Stan compiler and executor in C++
  (\<^verbatim>\<open>src/runtime/\<close>), with the theorems that make its parts correct. A Stan program reaches the
  runtime as a portable MIR document, is decoded and checked, lowered to an operation graph, rewritten by
  graph passes, bound to arenas by an executor, and swept forwards and backwards; loops and user code that
  do not become graph operations run on a register machine, whose programs have passes of their own.

  \<^bold>\<open>The document and its checks.\<close>
  \<^item> \<open>Wire\<close>: the base64 envelope, \<^verbatim>\<open>decode_payload\<close> of \<^verbatim>\<open>runtime/src/portable_mir_v2_reader.cpp\<close>, and the
    encoder of the compiler plug-in, \<^verbatim>\<open>encode_base64\<close> of \<^verbatim>\<open>compiler/ocaml/portable_mir.ml\<close>. They are inverse to
    each other (C6).
  \<^item> \<open>Utf8\<close>: \<^verbatim>\<open>Reader::validate_utf8\<close> accepts exactly UTF-8 (C13).
  \<^item> \<open>WireReader\<close>: the bounds-checked \<^verbatim>\<open>Reader\<close> with its limits. The state is a record of the bytes left, the
    position and the counters; a reader is a function from the state to an exception or a value and a state.
    The nesting depth, which follows the lifetime of \<^verbatim>\<open>Depth\<close> objects, is an argument. The locale \<open>codec\<close> is
    the contract of a field: what is accepted is what the encoder writes, and what the encoder writes is read
    back; lists of fields inherit both.
  \<^item> \<open>PortableMir\<close>: the data types of \<^verbatim>\<open>mir.hpp\<close>, the reader of every section, and the wire format as a
    specification. \<open>PortableRound\<close> interprets \<open>codec\<close> for each of them: every accepted document is canonical
    (C5) and every program a document can carry is read back (C4). The bound of C4, ten million bytes, is
    enough for all counters of the reader, since each counted thing takes at least a byte; readers recurse
    on the nesting depth, which the platform's limit bounds.
  \<^item> \<open>MirShape\<close>: \<^verbatim>\<open>validate_portable_program\<close> of \<^verbatim>\<open>runtime/src/mir_reader.cpp\<close>; a check returns the exception it
    throws. Type spellings and their parser are inverse (C18).
  \<^item> \<open>Sexp\<close>, \<open>MirSexp\<close>: the s-expression parser of \<^verbatim>\<open>sexp.hpp\<close> with its termination and round trip (C17), and
    the reader of one expression, which the finalisation uses on text kept from stanc3.
  \<^item> \<open>MirBindings\<close>: \<^verbatim>\<open>validate_bindings\<close> with its mutable map and undo logs (\<^verbatim>\<open>BindingScope\<close>), shown to
    implement lexical scoping (C9); \<open>MirTyping\<close>: what acceptance means for every expression in scope.
  \<^item> \<open>MirFinalize\<close>: \<^verbatim>\<open>finalize_program\<close>, whole. \<open>MirAccept\<close>: overloads get distinct names (C16) and accepted
    programs are typed by their declarations (C7). \<open>MirSafe\<close>: no input makes the reader, from the envelope to
    the last check, access a string or a vector out of range (C8). \<open>MirExamples\<close>: concrete programs, among them
    a legal program of the kind the finalisation always rejects, one whose bounds are an overloaded function's
    parameters (C38, in \<open>MirAccept\<close>).

  \<^bold>\<open>Graphs and their passes.\<close>
  \<^item> \<open>Prelude\<close>, \<open>Opcodes\<close> (\<^verbatim>\<open>optable.hpp\<close>), \<open>Graph\<close> (\<^verbatim>\<open>kernel_types.hpp\<close>, \<^verbatim>\<open>graph.hpp\<close>): slots, operations,
    graphs and their well-formedness. A slot index of \<open>-1\<close> is "none", as in the source.
  \<^item> \<open>Kernels\<close> (\<^verbatim>\<open>kernels/elementwise.cpp\<close>): loads, stores, slices, gathers, concatenation and replication as
    lists of element moves, with their pullbacks. \<open>Sweep\<close> (\<^verbatim>\<open>executor.cpp\<close>): one operation and the forward
    sweep over a memory of buffers; the numeric kernels are a parameter that sees the input buffers.
  \<^item> \<open>Inplace\<close>, \<open>StoreForward\<close> (\<^verbatim>\<open>inplace.cpp\<close>): destructive updates leave every observed buffer as it was
    (C20, C30); store forwarding removes what it reports (C32).
  \<^item> \<open>Constfold\<close> (\<^verbatim>\<open>constfold.cpp\<close>): the marking fixpoint, the sub-graph and the fills; the folded graph computes
    the same observed buffers (C1), and fills are never written (C31). \<open>Cse\<close> (\<^verbatim>\<open>cse.cpp\<close>, \<^verbatim>\<open>pass_util.hpp\<close>): value
    numbering with versions (C2) and its searches.

  \<^bold>\<open>The executor.\<close>
  \<^item> \<open>Layout\<close>: \<^verbatim>\<open>bind_values\<close>, \<^verbatim>\<open>bind_adjoints\<close>, \<^verbatim>\<open>bind_scratch\<close> and \<^verbatim>\<open>bind_ctx\<close>; the locale \<open>arena\<close> is the
    contract of a packed buffer, interpreted for values, data and adjoints (C25 to C27, C29). The four stages
    together, \<open>bind_arenas\<close>, end in a binding or in the exceptions of the checked arithmetic and of the
    scratch hooks, which C28 characterises; a slot index out of range is \<open>UndefinedBehaviour\<close>.
  \<^item> \<open>Pullback\<close>: kernels with a compact pullback and the micro-operation interpreter (C21). \<open>Plan\<close>: the
    backward plan and its dense, sparse and unrolled walks, over the locale \<open>micro_contract\<close> (C22, C33).
  \<^item> \<open>Executor\<close>: the evaluation protocol and the copy-on-write data shared by clones as state machines with
    events, reachability and an invariant (C23, C24).
  \<^item> \<open>Extrema\<close> (\<^verbatim>\<open>extrema_grouping.hpp\<close>): the replay of vectorised reductions groups its operands as
    the phased loop states, without any law of the arithmetic (C34). \<open>Message\<close>
    (\<^verbatim>\<open>message.hpp\<close>): print and reject (C35).

  \<^bold>\<open>The register machine.\<close>
  \<^item> \<open>ProgramCode\<close>, \<open>Program\<close> (\<^verbatim>\<open>program.hpp\<close>, \<^verbatim>\<open>program.cpp\<close>, \<^verbatim>\<open>program_density.cpp\<close>): the instruction table and the
    machine on doubles. \<open>run_program\<close> takes fuel, since a program may loop; \<open>None\<close> is a run that has not
    ended, and C15 gives the fuel that is enough for a program without backward branches.
  \<^item> \<open>ProgramSpans\<close>: the tables of registers read and written are sound for every instruction (C19, C36).
    \<open>ProgramPasses\<close>, \<open>ProgramCfg\<close>: the two constant elisions end alike with the original, at any fuel
    (C3, C11), over the locales \<open>stuttering_pass\<close> and \<open>dropping_pass\<close>. \<open>ProgramInit\<close>: the definite
    initialisation analysis and the narrowing of inputs (C10, C12); its loop gets the total number of bits as
    fuel, which C14 shows to be enough.
  \<^item> \<open>AdjointRules\<close>, \<open>AdjointGen\<close> (\<^verbatim>\<open>adjoint_rules.hpp\<close>, \<^verbatim>\<open>adjoint.cpp\<close>): the generated adjoint of a register
    program: the rules as ordered lists of accumulations, the interpreter of adjoint programs, and
    \<^verbatim>\<open>gen_adjoint\<close> whole. \<open>AdjointReplay\<close> defines the replay on reverse-mode variables it stands in for, and
    \<open>AdjointCells\<close> relates adjoint cells to the nodes of the replay. \<open>AdjointExamples\<close>: an accepted program whose
    gradient is dropped (C37).

  \<^bold>\<open>Numbers and errors.\<close> Doubles are a parameter where no property needs their arithmetic, and their bits where
  the wire needs them; sizes and indices are integers with the range checks of the source written out, machine
  words where the source wraps. Exceptions are values of \<open>std_error\<close>; accesses the source does not check and
  the model finds out of range are \<open>UndefinedBehaviour\<close>: in the reader of documents every access to the bytes
  and every \<^verbatim>\<open>front\<close>, \<^verbatim>\<open>back\<close> or subscript of a vector goes through \<open>elem_run\<close>, \<open>last_elem\<close> or \<open>with_elem\<close> of
  \<open>Prelude\<close> or a reader's own checked step, so that dropping a guard of the source shows in C8.

  \<^bold>\<open>Not modelled.\<close> Lowering from MIR to graphs and the MIR interpreter depend on the signature of every Stan
  function and call Stan Math for nearly every operation; so do the numeric kernels. Partitioning, islands,
  collapsing, rerolling and structured loops produce code for those. The function registry is a parameter of
  the structural checks. Of the s-expression reader only expressions are modelled. The samplers, the C
  interfaces and the printing of reports are glue over the parts above; threads, the executor pool and the large
  stack are operating-system facilities. In \<^verbatim>\<open>program.cpp\<close> the copy propagation and compaction passes, and the
  replay of programs on autodiff scalars, are left out.
\<close>

end
